(* ===== verification/Dav_Prelude.thy ===== *)
theory Dav_Prelude
  imports Main "HOL-Library.AList" "HOL-Library.Char_ord"
begin

text \<open>
  Shared vocabulary of the development: bytes and byte strings, the slice operations of Rust's
  standard library the crate uses (splitting, trimming, ASCII case folding, decimal printing and
  parsing), unsigned 64-bit arithmetic with its checked and saturating forms, and the
  state-error monad in which handlers and backends are written.

  A Rust byte is a HOL character (both have 256 values) and a byte slice is a list of them, so
  that literals such as \<^verbatim>\<open>b"/"\<close> are written as string literals.  Integers of type
  \<^verbatim>\<open>u64\<close> and \<^verbatim>\<open>usize\<close> (64 bits) are natural numbers; each place where the code can leave the
  64-bit range goes through one of the operations below, which spell out the bound.
\<close>

named_theorems act_simps "evaluation rules of the state-error monad"

section \<open>Bytes and slices\<close>

type_synonym byte = char
type_synonym bytes = "char list"

abbreviation slash :: byte where "slash \<equiv> CHR ''/''"

abbreviation crlf :: bytes where "crlf \<equiv> [CHR 0x0D, CHR 0x0A]"

text \<open>\<^verbatim>\<open>slice.split(|c| *c == b)\<close>: always at least one piece.\<close>

fun split_on :: "byte \<Rightarrow> bytes \<Rightarrow> bytes list" where
  "split_on c [] = [[]]"
| "split_on c (x # xs) =
     (if x = c then [] # split_on c xs
      else (case split_on c xs of [] \<Rightarrow> [[x]] | p # ps \<Rightarrow> (x # p) # ps))"

lemma split_on_not_Nil [simp]: "split_on c xs \<noteq> []"
  by (cases xs) (auto split: list.splits)

lemma split_on_no_sep: "p \<in> set (split_on c xs) \<Longrightarrow> c \<notin> set p"
proof (induction xs arbitrary: p)
  case Nil
  then show ?case by simp
next
  case (Cons x xs)
  show ?case
  proof (cases "x = c")
    case True
    with Cons show ?thesis by auto
  next
    case False
    obtain q qs where q: "split_on c xs = q # qs"
      by (cases "split_on c xs") auto
    with False Cons.prems have "p = x # q \<or> p \<in> set qs" by auto
    moreover have "c \<notin> set q" using Cons.IH [of q] q by simp
    moreover have "p \<in> set qs \<Longrightarrow> c \<notin> set p" using Cons.IH [of p] q by simp
    ultimately show ?thesis using False by auto
  qed
qed

lemma split_on_id: "c \<notin> set xs \<Longrightarrow> split_on c xs = [xs]"
  by (induction xs) auto

lemma split_on_append_sep: "split_on c (xs @ c # ys) = split_on c xs @ split_on c ys"
proof (induction xs)
  case Nil
  then show ?case by simp
next
  case (Cons x xs)
  obtain q qs where "split_on c xs = q # qs"
    by (cases "split_on c xs") auto
  with Cons show ?case by auto
qed

lemma split_on_prefix_free:
  "c \<notin> set xs \<Longrightarrow> split_on c (xs @ c # ys) = xs # split_on c ys"
  by (simp add: split_on_append_sep split_on_id)

lemma split_on_subset: "p \<in> set (split_on c xs) \<Longrightarrow> set p \<subseteq> set xs"
proof (induction xs arbitrary: p)
  case Nil
  then show ?case by simp
next
  case (Cons x xs)
  obtain q qs where q: "split_on c xs = q # qs"
    by (cases "split_on c xs") auto
  show ?case
  proof (cases "x = c")
    case True
    with Cons show ?thesis by auto
  next
    case False
    have "set q \<subseteq> set xs" using Cons.IH [of q] q by simp
    moreover have "p \<in> set qs \<Longrightarrow> set p \<subseteq> set xs" using Cons.IH [of p] q by simp
    ultimately show ?thesis using False Cons.prems q by auto
  qed
qed

text \<open>The non-empty segments of a path: \<^verbatim>\<open>path.split(|&c| c == b'/').filter(|s| !s.is_empty())\<close>,
  the way every path walk of the crate starts.\<close>

definition path_segs :: "bytes \<Rightarrow> bytes list" where
  "path_segs p = filter (\<lambda>s. s \<noteq> []) (split_on slash p)"

definition good_seg :: "bytes \<Rightarrow> bool" where
  "good_seg s \<longleftrightarrow> s \<noteq> [] \<and> slash \<notin> set s"

lemma path_segs_good: "s \<in> set (path_segs p) \<Longrightarrow> good_seg s"
  by (auto simp: path_segs_def good_seg_def dest: split_on_no_sep)

lemma path_segs_Nil [simp]: "path_segs [] = []"
  by (simp add: path_segs_def)

lemma path_segs_slash [simp]: "path_segs (slash # p) = path_segs p"
  by (simp add: path_segs_def)

lemma path_segs_append_slash: "path_segs (p @ slash # q) = path_segs p @ path_segs q"
  by (simp add: path_segs_def split_on_append_sep)

lemma path_segs_snoc_slash [simp]: "path_segs (p @ [slash]) = path_segs p"
  using path_segs_append_slash [of p "[]"] by simp

lemma path_segs_seg: "good_seg s \<Longrightarrow> path_segs s = [s]"
  by (simp add: path_segs_def good_seg_def split_on_id)

text \<open>A path spelled from its segments: each one preceded by a slash.\<close>

definition unsegs :: "bytes list \<Rightarrow> bytes" where
  "unsegs ss = concat (map (\<lambda>s. slash # s) ss)"

lemma unsegs_simps [simp]:
  "unsegs [] = []" "unsegs (s # ss) = slash # s @ unsegs ss"
  by (simp_all add: unsegs_def)

lemma unsegs_append [simp]: "unsegs (xs @ ys) = unsegs xs @ unsegs ys"
  by (simp add: unsegs_def)

lemma path_segs_unsegs: "\<forall>s \<in> set ss. good_seg s \<Longrightarrow> path_segs (unsegs ss) = ss"
proof (induction ss)
  case Nil
  then show ?case by simp
next
  case (Cons s ss)
  then have g: "path_segs s = [s]" by (simp add: path_segs_seg)
  show ?case
  proof (cases ss)
    case Nil
    with g show ?thesis by simp
  next
    case (Cons s' ss')
    have "path_segs (unsegs (s # ss)) = path_segs (s @ slash # (s' @ unsegs ss'))"
      using Cons by simp
    also have "\<dots> = [s] @ path_segs (s' @ unsegs ss')"
      using g by (simp add: path_segs_append_slash)
    also have "path_segs (s' @ unsegs ss') = path_segs (unsegs ss)"
      using Cons by simp
    finally show ?thesis using Cons.IH Cons.prems by simp
  qed
qed

section \<open>Slices: prefixes, ASCII case, trimming\<close>

fun starts_with :: "'a list \<Rightarrow> 'a list \<Rightarrow> bool" where
  "starts_with xs [] = True"
| "starts_with [] (p # ps) = False"
| "starts_with (x # xs) (p # ps) = (x = p \<and> starts_with xs ps)"

lemma starts_with_iff: "starts_with xs p \<longleftrightarrow> (\<exists>ys. xs = p @ ys)"
  by (induction xs p rule: starts_with.induct) auto

lemma starts_with_append [simp]: "starts_with (p @ ys) p"
  by (auto simp: starts_with_iff)

lemma starts_with_refl [simp]: "starts_with p p"
  by (auto simp: starts_with_iff)

definition ends_with :: "'a list \<Rightarrow> 'a list \<Rightarrow> bool" where
  "ends_with xs p = starts_with (rev xs) (rev p)"

lemma ends_with_iff: "ends_with xs p \<longleftrightarrow> (\<exists>ys. xs = ys @ p)"
proof -
  have "(\<exists>ys. rev xs = rev p @ ys) \<longleftrightarrow> (\<exists>ys. xs = ys @ p)"
    by (metis rev_append rev_rev_ident)
  then show ?thesis by (simp add: ends_with_def starts_with_iff)
qed

lemma ends_with_single: "ends_with xs [c] \<longleftrightarrow> xs \<noteq> [] \<and> last xs = c"
  by (metis append_butlast_last_id ends_with_iff last_snoc snoc_eq_iff_butlast)

fun contains_sub :: "'a list \<Rightarrow> 'a list \<Rightarrow> bool" where
  "contains_sub [] p = (p = [])"
| "contains_sub (x # xs) p = (starts_with (x # xs) p \<or> contains_sub xs p)"

lemma contains_sub_iff: "contains_sub xs p \<longleftrightarrow> (\<exists>ys zs. xs = ys @ p @ zs)"
proof (induction xs)
  case Nil
  then show ?case by auto
next
  case (Cons x xs)
  show ?case
  proof
    assume "contains_sub (x # xs) p"
    then consider "\<exists>zs. x # xs = p @ zs" | "\<exists>ys zs. xs = ys @ p @ zs"
      using Cons by (auto simp: starts_with_iff)
    then show "\<exists>ys zs. x # xs = ys @ p @ zs"
    proof cases
      case 1
      then show ?thesis by (metis append_Nil)
    next
      case 2
      then show ?thesis by (metis append_Cons)
    qed
  next
    assume "\<exists>ys zs. x # xs = ys @ p @ zs"
    then obtain ys zs where eq: "x # xs = ys @ p @ zs" by blast
    show "contains_sub (x # xs) p"
    proof (cases ys)
      case Nil
      with eq have "starts_with (x # xs) p" by simp
      then show ?thesis by simp
    next
      case (Cons y ys')
      with eq have "xs = ys' @ p @ zs" by simp
      then have "contains_sub xs p" using \<open>contains_sub xs p \<longleftrightarrow> (\<exists>ys zs. xs = ys @ p @ zs)\<close> by blast
      then show ?thesis by simp
    qed
  qed
qed

definition ascii_lower :: "byte \<Rightarrow> byte" where
  "ascii_lower c = (if 65 \<le> (of_char c :: nat) \<and> (of_char c :: nat) \<le> 90
                    then char_of ((of_char c :: nat) + 32) else c)"

definition eq_ignore_ascii_case :: "bytes \<Rightarrow> bytes \<Rightarrow> bool" where
  "eq_ignore_ascii_case a b \<longleftrightarrow> map ascii_lower a = map ascii_lower b"

lemma eq_ignore_ascii_case_refl [simp]: "eq_ignore_ascii_case a a"
  by (simp add: eq_ignore_ascii_case_def)

definition is_digit :: "byte \<Rightarrow> bool" where
  "is_digit c \<longleftrightarrow> 48 \<le> (of_char c :: nat) \<and> (of_char c :: nat) \<le> 57"

text \<open>ASCII part of \<^verbatim>\<open>char::is_whitespace\<close>: tab, line feed, vertical tab, form feed, carriage
  return, space.  The header strings trimmed by the crate hold visible ASCII and tabs only.\<close>

definition is_space :: "byte \<Rightarrow> bool" where
  "is_space c \<longleftrightarrow> (9 \<le> (of_char c :: nat) \<and> (of_char c :: nat) \<le> 13) \<or> (of_char c :: nat) = 32"

definition trim :: "bytes \<Rightarrow> bytes" where
  "trim s = rev (dropWhile is_space (rev (dropWhile is_space s)))"

definition trim_matches :: "(byte \<Rightarrow> bool) \<Rightarrow> bytes \<Rightarrow> bytes" where
  "trim_matches p s = rev (dropWhile p (rev (dropWhile p s)))"

text \<open>\<^verbatim>\<open>str::trim\<close> on any text: the UTF-8 forms of the characters with the property \<^verbatim>\<open>White_Space\<close>.
  Each round takes at least one byte away, so the length of the text is enough fuel.\<close>

definition space_seqs :: "bytes list" where
  "space_seqs = [[CHR 0x09], [CHR 0x0A], [CHR 0x0B], [CHR 0x0C], [CHR 0x0D], [CHR 0x20], [CHR 0xC2, CHR 0x85], [CHR 0xC2, CHR 0xA0],
     [CHR 0xE1, CHR 0x9A, CHR 0x80], [CHR 0xE2, CHR 0x80, CHR 0xA8], [CHR 0xE2, CHR 0x80, CHR 0xA9], [CHR 0xE2, CHR 0x80, CHR 0xAF],
     [CHR 0xE2, CHR 0x81, CHR 0x9F], [CHR 0xE3, CHR 0x80, CHR 0x80]]
     @ map (\<lambda>c. [CHR 0xE2, CHR 0x80, c]) [CHR 0x80, CHR 0x81, CHR 0x82, CHR 0x83, CHR 0x84, CHR 0x85, CHR 0x86, CHR 0x87,
         CHR 0x88, CHR 0x89, CHR 0x8A]"

fun trim_start_fuel :: "nat \<Rightarrow> bytes \<Rightarrow> bytes" where
  "trim_start_fuel 0 s = s"
| "trim_start_fuel (Suc f) s =
     (case find (starts_with s) space_seqs of None \<Rightarrow> s | Some w \<Rightarrow> trim_start_fuel f (drop (length w) s))"

fun trim_end_fuel :: "nat \<Rightarrow> bytes \<Rightarrow> bytes" where
  "trim_end_fuel 0 s = s"
| "trim_end_fuel (Suc f) s =
     (case find (ends_with s) space_seqs of None \<Rightarrow> s | Some w \<Rightarrow> trim_end_fuel f (take (length s - length w) s))"

definition str_trim :: "bytes \<Rightarrow> bytes" where
  "str_trim s = (let t = trim_start_fuel (length s) s in trim_end_fuel (length t) t)"

text \<open>\<^verbatim>\<open>str::lines\<close>: without the line feeds and the carriage returns before them; what follows the last
  line feed is a line unless it is empty.\<close>

definition strip_cr :: "bytes \<Rightarrow> bytes" where
  "strip_cr l = (if l \<noteq> [] \<and> last l = CHR 0x0D then butlast l else l)"

definition str_lines :: "bytes \<Rightarrow> bytes list" where
  "str_lines s = (let ls = split_on (CHR 0x0A) s in map strip_cr (butlast ls) @ (if last ls = [] then [] else [last ls]))"

text \<open>\<^verbatim>\<open>trim_ascii\<close> and \<^verbatim>\<open>trim_ascii_end\<close>: tab, line feed, form feed, carriage return, space.\<close>

definition is_ascii_space :: "byte \<Rightarrow> bool" where
  "is_ascii_space c \<longleftrightarrow> c \<in> {CHR 0x09, CHR 0x0A, CHR 0x0C, CHR 0x0D, CHR 0x20}"

definition trim_ascii_end :: "bytes \<Rightarrow> bytes" where
  "trim_ascii_end s = rev (dropWhile is_ascii_space (rev s))"

definition trim_ascii :: "bytes \<Rightarrow> bytes" where
  "trim_ascii s = trim_ascii_end (dropWhile is_ascii_space s)"

text \<open>\<^verbatim>\<open>std::str::from_utf8\<close>: the well-formed byte sequences of the Unicode standard.\<close>

definition cont :: "byte \<Rightarrow> bool" where
  "cont c \<longleftrightarrow> 128 \<le> (of_char c :: nat) \<and> (of_char c :: nat) \<le> 191"

definition in_range :: "nat \<Rightarrow> nat \<Rightarrow> byte \<Rightarrow> bool" where
  "in_range lo hi c \<longleftrightarrow> lo \<le> (of_char c :: nat) \<and> (of_char c :: nat) \<le> hi"

fun utf8_valid :: "bytes \<Rightarrow> bool" where
  "utf8_valid [] = True"
| "utf8_valid (a # xs) =
     (if in_range 0 127 a then utf8_valid xs
      else (case xs of
         [] \<Rightarrow> False
       | b # ys \<Rightarrow>
          (if in_range 194 223 a then cont b \<and> utf8_valid ys
           else (case ys of
              [] \<Rightarrow> False
            | c # zs \<Rightarrow>
               (if in_range 224 239 a then
                  in_range (if of_char a = (224::nat) then 160 else 128)
                           (if of_char a = (237::nat) then 159 else 191) b
                  \<and> cont c \<and> utf8_valid zs
                else (case zs of
                   [] \<Rightarrow> False
                 | d # ws \<Rightarrow> in_range 240 244 a
                    \<and> in_range (if of_char a = (240::nat) then 144 else 128)
                                (if of_char a = (244::nat) then 143 else 191) b
                    \<and> cont c \<and> cont d \<and> utf8_valid ws))))))"

lemma utf8_valid_ascii: "\<forall>c \<in> set s. (of_char c :: nat) \<le> 127 \<Longrightarrow> utf8_valid s"
  by (induction s) (simp_all add: in_range_def)

section \<open>Decimal and hexadecimal numbers\<close>

definition digit_char :: "nat \<Rightarrow> byte" where
  "digit_char d = (if d < 10 then char_of (48 + d) else char_of (87 + d))"

text \<open>\<^verbatim>\<open>format!("{n}")\<close> and \<^verbatim>\<open>format!("{n:x}")\<close>.\<close>

fun show_base :: "nat \<Rightarrow> nat \<Rightarrow> bytes" where
  "show_base b n = (if b < 2 \<or> n < b then [digit_char n] else show_base b (n div b) @ [digit_char (n mod b)])"

declare show_base.simps [simp del]

abbreviation show_nat :: "nat \<Rightarrow> bytes" where "show_nat \<equiv> show_base 10"
abbreviation show_hex :: "nat \<Rightarrow> bytes" where "show_hex \<equiv> show_base 16"

definition digits_value :: "bytes \<Rightarrow> nat" where
  "digits_value s = foldl (\<lambda>a c. 10 * a + (of_char c - 48)) 0 s"

text \<open>\<^verbatim>\<open>str::parse\<close> at an unsigned type with the given maximum: an optional plus sign, then at
  least one digit, and the value must fit.\<close>

definition parse_uint :: "nat \<Rightarrow> bytes \<Rightarrow> nat option" where
  "parse_uint mx s =
     (let d = (case s of [] \<Rightarrow> [] | c # r \<Rightarrow> if c = CHR ''+'' then r else s)
      in if d = [] \<or> \<not> list_all is_digit d then None
         else if mx < digits_value d then None else Some (digits_value d))"

lemma digit_char_of: "d < 10 \<Longrightarrow> (of_char (digit_char d) :: nat) = 48 + d"
  by (simp add: digit_char_def of_char_of)

lemma show_nat_not_Nil [simp]: "show_nat n \<noteq> []"
  by (subst show_base.simps) simp

lemma show_nat_digits: "list_all is_digit (show_nat n)"
proof (induction "10::nat" n rule: show_base.induct)
  case (1 n)
  show ?case
  proof (cases "n < 10")
    case True
    then show ?thesis by (subst show_base.simps) (simp add: is_digit_def digit_char_of)
  next
    case False
    with 1 have "list_all is_digit (show_nat (n div 10))" by simp
    with False show ?thesis by (subst show_base.simps) (simp add: is_digit_def digit_char_of)
  qed
qed

lemma show_nat_value: "digits_value (show_nat n) = n"
proof (induction "10::nat" n rule: show_base.induct)
  case (1 n)
  show ?case
  proof (cases "n < 10")
    case True
    then show ?thesis by (subst show_base.simps) (simp add: digits_value_def digit_char_of)
  next
    case False
    with 1 have "digits_value (show_nat (n div 10)) = n div 10" by simp
    with False show ?thesis
      by (subst show_base.simps) (simp add: digits_value_def digit_char_of)
  qed
qed

lemma show_nat_hd_not_plus: "show_nat n = c # r \<Longrightarrow> c \<noteq> CHR ''+''"
  using show_nat_digits [of n] by (auto simp: is_digit_def)

lemma parse_show_nat: "n \<le> mx \<Longrightarrow> parse_uint mx (show_nat n) = Some n"
proof -
  assume "n \<le> mx"
  obtain c r where cr: "show_nat n = c # r" by (cases "show_nat n") auto
  then have "c \<noteq> CHR ''+''" by (rule show_nat_hd_not_plus)
  then show ?thesis
    using \<open>n \<le> mx\<close> show_nat_digits [of n] show_nat_value [of n]
    by (simp add: parse_uint_def cr)
qed

lemma parse_uint_le: "parse_uint mx s = Some n \<Longrightarrow> n \<le> mx"
  by (auto simp: parse_uint_def Let_def split: if_splits list.splits)

section \<open>Unsigned 64-bit arithmetic\<close>

definition u64_max :: nat where "u64_max = 2 ^ 64 - 1"

definition i64_max :: nat where "i64_max = 2 ^ 63 - 1"
definition u32_max :: nat where "u32_max = 2 ^ 32 - 1"

definition checked_add :: "nat \<Rightarrow> nat \<Rightarrow> nat option" where
  "checked_add a b = (if a + b \<le> u64_max then Some (a + b) else None)"

definition checked_sub :: "nat \<Rightarrow> nat \<Rightarrow> nat option" where
  "checked_sub a b = (if b \<le> a then Some (a - b) else None)"

definition saturating_add :: "nat \<Rightarrow> nat \<Rightarrow> nat" where
  "saturating_add a b = min u64_max (a + b)"

definition saturating_sub :: "nat \<Rightarrow> nat \<Rightarrow> nat" where
  "saturating_sub a b = (if b \<le> a then a - b else 0)"

lemma checked_add_Some: "checked_add a b = Some c \<longleftrightarrow> c = a + b \<and> a + b \<le> u64_max"
  by (auto simp: checked_add_def)

lemma checked_sub_Some: "checked_sub a b = Some c \<longleftrightarrow> b \<le> a \<and> c = a - b"
  by (auto simp: checked_sub_def)

section \<open>The state-error monad\<close>

text \<open>
  An action runs in a state and either returns normally, with a value or with an error the caller
  can handle, or does not return at all (\<open>None\<close>: an unbounded recursion or a panic).  Errors keep
  the state: Rust's \<^verbatim>\<open>?\<close> leaves the effects made so far in place.
\<close>

type_synonym ('s, 'e, 'a) act = "'s \<Rightarrow> (('e + 'a) \<times> 's) option"

definition ok :: "'a \<Rightarrow> ('s, 'e, 'a) act" where
  "ok x = (\<lambda>s. Some (Inr x, s))"

definition fail :: "'e \<Rightarrow> ('s, 'e, 'a) act" where
  "fail e = (\<lambda>s. Some (Inl e, s))"

definition diverge :: "('s, 'e, 'a) act" where
  "diverge = (\<lambda>s. None)"

definition bind :: "('s, 'e, 'a) act \<Rightarrow> ('a \<Rightarrow> ('s, 'e, 'b) act) \<Rightarrow> ('s, 'e, 'b) act" where
  "bind m f = (\<lambda>s. case m s of
       None \<Rightarrow> None
     | Some (Inl e, s') \<Rightarrow> Some (Inl e, s')
     | Some (Inr x, s') \<Rightarrow> f x s')"

text \<open>\<^verbatim>\<open>match m.await { ... }\<close>: the result, error or value, becomes an ordinary value.\<close>

definition attempt :: "('s, 'e, 'a) act \<Rightarrow> ('s, 'f, 'e + 'a) act" where
  "attempt m = (\<lambda>s. case m s of None \<Rightarrow> None | Some (r, s') \<Rightarrow> Some (Inr r, s'))"

definition map_err :: "('e \<Rightarrow> 'f) \<Rightarrow> ('s, 'e, 'a) act \<Rightarrow> ('s, 'f, 'a) act" where
  "map_err g m = (\<lambda>s. case m s of
       None \<Rightarrow> None
     | Some (Inl e, s') \<Rightarrow> Some (Inl (g e), s')
     | Some (Inr x, s') \<Rightarrow> Some (Inr x, s'))"

lemma ok_apply [simp, act_simps]: "ok x s = Some (Inr x, s)"
  by (simp add: ok_def)

lemma fail_apply [simp, act_simps]: "fail e s = Some (Inl e, s)"
  by (simp add: fail_def)

lemma diverge_apply [simp, act_simps]: "diverge s = None"
  by (simp add: diverge_def)

lemma bind_ok [simp, act_simps]: "m s = Some (Inr x, s') \<Longrightarrow> bind m f s = f x s'"
  by (simp add: bind_def)

lemma bind_fail [simp, act_simps]: "m s = Some (Inl e, s') \<Longrightarrow> bind m f s = Some (Inl e, s')"
  by (simp add: bind_def)

lemma bind_None [simp, act_simps]: "m s = None \<Longrightarrow> bind m f s = None"
  by (simp add: bind_def)

lemma attempt_Some [simp, act_simps]: "m s = Some (r, s') \<Longrightarrow> attempt m s = Some (Inr r, s')"
  by (simp add: attempt_def)

lemma attempt_None [simp, act_simps]: "m s = None \<Longrightarrow> attempt m s = None"
  by (simp add: attempt_def)

lemma map_err_Inl [simp, act_simps]: "m s = Some (Inl e, s') \<Longrightarrow> map_err g m s = Some (Inl (g e), s')"
  by (simp add: map_err_def)

lemma map_err_Inr [simp, act_simps]: "m s = Some (Inr x, s') \<Longrightarrow> map_err g m s = Some (Inr x, s')"
  by (simp add: map_err_def)

lemma map_err_None [simp, act_simps]: "m s = None \<Longrightarrow> map_err g m s = None"
  by (simp add: map_err_def)

lemma bind_eq_Inr:
  "bind m f s = Some (Inr y, t) \<longleftrightarrow> (\<exists>x s'. m s = Some (Inr x, s') \<and> f x s' = Some (Inr y, t))"
  by (auto simp: bind_def split: option.splits sum.splits)

lemma bind_eq_Inl:
  "bind m f s = Some (Inl e, t) \<longleftrightarrow>
     m s = Some (Inl e, t) \<or> (\<exists>x s'. m s = Some (Inr x, s') \<and> f x s' = Some (Inl e, t))"
  by (auto simp: bind_def split: option.splits sum.splits)

lemma attempt_eq_Some: "attempt m s = Some (r, t) \<longleftrightarrow> (\<exists>r'. m s = Some (r', t) \<and> r = Inr r')"
  by (auto simp: attempt_def split: option.splits)

text \<open>A result that does not touch the state.\<close>

definition reads :: "('s \<Rightarrow> 'e + 'a) \<Rightarrow> ('s, 'e, 'a) act" where
  "reads f = (\<lambda>s. Some (f s, s))"

lemma reads_apply [simp, act_simps]: "reads f s = Some (f s, s)"
  by (simp add: reads_def)

section \<open>Association lists\<close>

lemma map_of_delete: "map_of (AList.delete k al) = (map_of al)(k := None)"
  by (rule AList.delete_conv')

lemma alist_delete_filter: "AList.delete k al = filter (\<lambda>(k', _). k \<noteq> k') al"
  by (simp add: AList.delete_eq)

end
