(* ===== verification/Dav_Errors.thy ===== *)
theory Dav_Errors
  imports Dav_Prelude
begin

text \<open>
  The error types of the crate and their HTTP status codes: \<^verbatim>\<open>FsError\<close> (\<^verbatim>\<open>src/fs.rs\<close>), \<^verbatim>\<open>DavError\<close>
  with \<^verbatim>\<open>statuscode\<close> and \<^verbatim>\<open>must_close\<close> (\<^verbatim>\<open>src/errors.rs\<close>), and the conversions between filesystem
  errors, I/O errors and DAV errors.  A status code is its number.
\<close>

section \<open>Filesystem errors\<close>

datatype fs_error = NotImplemented | GeneralFailure | Exists | NotFound | Forbidden
  | InsufficientStorage | LoopDetected | PathTooLong | TooLarge | IsRemote

text \<open>The \<^verbatim>\<open>std::io::ErrorKind\<close> values the crate tells apart; \<open>OtherKind\<close> is any other kind.\<close>

datatype io_kind = KAlreadyExists | KDirectoryNotEmpty | KNotFound | KPermissionDenied
  | KNotADirectory | KIsADirectory | KReadOnlyFilesystem | KStorageFull | KFileTooLarge
  | KCrossesDevices | KUnsupported | KInvalidInput | KTimedOut | KUnexpectedEof | OtherKind

text \<open>The Linux \<^verbatim>\<open>errno\<close> values matched on a raw OS error.\<close>

datatype errno = EMLINK | ENOSPC | EDQUOT | EFBIG | EACCES | EPERM | ENOTEMPTY | EEXIST
  | ELOOP | ENAMETOOLONG | ENOTDIR | EISDIR | EROFS | ENOENT | ENOSYS | EXDEV | OtherErrno

text \<open>An I/O error: its raw OS error, when it has one, and its kind.\<close>

record io_error =
  io_raw :: "errno option"
  io_kind :: io_kind

fun errno_to_fserror :: "errno \<Rightarrow> fs_error option" where
  "errno_to_fserror EMLINK = Some InsufficientStorage"
| "errno_to_fserror ENOSPC = Some InsufficientStorage"
| "errno_to_fserror EDQUOT = Some InsufficientStorage"
| "errno_to_fserror EFBIG = Some TooLarge"
| "errno_to_fserror EACCES = Some Forbidden"
| "errno_to_fserror EPERM = Some Forbidden"
| "errno_to_fserror ENOTEMPTY = Some Exists"
| "errno_to_fserror EEXIST = Some Exists"
| "errno_to_fserror ELOOP = Some LoopDetected"
| "errno_to_fserror ENAMETOOLONG = Some PathTooLong"
| "errno_to_fserror ENOTDIR = Some Forbidden"
| "errno_to_fserror EISDIR = Some Forbidden"
| "errno_to_fserror EROFS = Some Forbidden"
| "errno_to_fserror ENOENT = Some NotFound"
| "errno_to_fserror ENOSYS = Some NotImplemented"
| "errno_to_fserror EXDEV = Some IsRemote"
| "errno_to_fserror OtherErrno = None"

fun kind_to_fserror :: "io_kind \<Rightarrow> fs_error" where
  "kind_to_fserror KAlreadyExists = Exists"
| "kind_to_fserror KDirectoryNotEmpty = Exists"
| "kind_to_fserror KNotFound = NotFound"
| "kind_to_fserror KPermissionDenied = Forbidden"
| "kind_to_fserror KNotADirectory = Forbidden"
| "kind_to_fserror KIsADirectory = Forbidden"
| "kind_to_fserror KReadOnlyFilesystem = Forbidden"
| "kind_to_fserror KStorageFull = InsufficientStorage"
| "kind_to_fserror KFileTooLarge = TooLarge"
| "kind_to_fserror KCrossesDevices = IsRemote"
| "kind_to_fserror KUnsupported = NotImplemented"
| "kind_to_fserror KInvalidInput = GeneralFailure"
| "kind_to_fserror _ = GeneralFailure"

definition ioerror_to_fserror :: "io_error \<Rightarrow> fs_error" where
  "ioerror_to_fserror e =
     (case Option.bind (io_raw e) errno_to_fserror of
        Some f \<Rightarrow> f
      | None \<Rightarrow> kind_to_fserror (io_kind e))"

fun fserror_to_ioerror :: "fs_error \<Rightarrow> io_error" where
  "fserror_to_ioerror Exists = \<lparr>io_raw = None, io_kind = KAlreadyExists\<rparr>"
| "fserror_to_ioerror NotFound = \<lparr>io_raw = None, io_kind = KNotFound\<rparr>"
| "fserror_to_ioerror Forbidden = \<lparr>io_raw = None, io_kind = KPermissionDenied\<rparr>"
| "fserror_to_ioerror _ = \<lparr>io_raw = None, io_kind = OtherKind\<rparr>"

section \<open>Status codes\<close>

type_synonym status = nat

fun fserror_to_status :: "fs_error \<Rightarrow> status" where
  "fserror_to_status NotImplemented = 501"
| "fserror_to_status GeneralFailure = 500"
| "fserror_to_status Exists = 405"
| "fserror_to_status NotFound = 404"
| "fserror_to_status Forbidden = 403"
| "fserror_to_status InsufficientStorage = 507"
| "fserror_to_status LoopDetected = 508"
| "fserror_to_status PathTooLong = 414"
| "fserror_to_status TooLarge = 413"
| "fserror_to_status IsRemote = 502"

definition ioerror_to_status :: "io_error \<Rightarrow> status" where
  "ioerror_to_status e =
     (case io_kind e of
        KNotFound \<Rightarrow> 404
      | KPermissionDenied \<Rightarrow> 403
      | KAlreadyExists \<Rightarrow> 409
      | KTimedOut \<Rightarrow> 504
      | _ \<Rightarrow> 502)"

section \<open>DAV errors\<close>

text \<open>The payloads of the XML errors (third-party types) are not kept: no code reads them.\<close>

datatype dav_error = XmlReadError | XmlParseError | InvalidPath | IllegalPath | ForbiddenPath
  | UnknownDavMethod | ChanError | Utf8Error | Status status | StatusClose status
  | FsErr fs_error | IoErr io_error | XmlReaderError | XmlWriterError

fun statuscode :: "dav_error \<Rightarrow> status" where
  "statuscode XmlReadError = 400"
| "statuscode XmlParseError = 400"
| "statuscode InvalidPath = 400"
| "statuscode IllegalPath = 502"
| "statuscode ForbiddenPath = 403"
| "statuscode UnknownDavMethod = 501"
| "statuscode ChanError = 500"
| "statuscode Utf8Error = 415"
| "statuscode (IoErr e) = ioerror_to_status e"
| "statuscode (FsErr e) = fserror_to_status e"
| "statuscode (Status c) = c"
| "statuscode (StatusClose c) = c"
| "statuscode XmlReaderError = 400"
| "statuscode XmlWriterError = 500"

definition must_close :: "dav_error \<Rightarrow> bool" where
  "must_close e = (\<not> (case e of
       Status _ \<Rightarrow> True
     | FsErr NotFound \<Rightarrow> True
     | FsErr Forbidden \<Rightarrow> True
     | FsErr Exists \<Rightarrow> True
     | _ \<Rightarrow> False))"

definition dav_error_to_ioerror :: "dav_error \<Rightarrow> io_error" where
  "dav_error_to_ioerror e =
     (case e of
        IoErr i \<Rightarrow> i
      | FsErr f \<Rightarrow> fserror_to_ioerror f
      | _ \<Rightarrow> \<lparr>io_raw = None, io_kind = OtherKind\<rparr>)"

definition is_success :: "status \<Rightarrow> bool" where
  "is_success s \<longleftrightarrow> 200 \<le> s \<and> s < 300"

section \<open>Properties\<close>

text \<open>Every error an operation of the filesystem can report is answered with a client or server
  error status, never with a success or a redirect.\<close>

lemma fserror_status_is_error: "400 \<le> fserror_to_status e \<and> fserror_to_status e < 600"
  by (cases e) simp_all

lemma fserror_not_success: "\<not> is_success (fserror_to_status e)"
  using fserror_status_is_error [of e] by (simp add: is_success_def)

lemma fserror_via_ioerror:
  "ioerror_to_fserror (fserror_to_ioerror e) =
     (if e \<in> {Exists, NotFound, Forbidden} then e else GeneralFailure)"
  by (cases e) (simp_all add: ioerror_to_fserror_def)

end
