(* ===== verification/Dav_Tree.thy ===== *)
theory Dav_Tree
  imports Dav_Errors "HOL-Library.Sublist"
begin

text \<open>
  The generic tree of \<^verbatim>\<open>src/tree.rs\<close>, which both the in-memory filesystem and the in-memory lock
  system are built on: a table of nodes by id, each with its data, its parent and its children by
  key.  The node table is never iterated and is a partial function; the children of a node are
  iterated and are an association list (the order is one that Rust's \<^verbatim>\<open>HashMap\<close> may produce;
  nothing proved here depends on which).  Ids are natural numbers: \<^verbatim>\<open>u64\<close> ids would need
  \<open>2 ^ 64\<close> allocations to wrap.

  The code's recursions (over a subtree, up the ancestors) end because the tree is acyclic.  They
  are written with fuel, \<open>None\<close> standing for a call that does not return, as it does for a panic;
  the lemmas show that in a well-formed tree every operation returns.
\<close>

named_theorems tree_simps "evaluation rules for the tree operations"

section \<open>Nodes and trees\<close>

record ('k, 'd) node =
  nd_data :: 'd
  nd_id :: nat
  nd_parent :: nat
  nd_children :: "('k \<times> nat) list"

record ('k, 'd) tree =
  tr_nodes :: "nat \<Rightarrow> ('k, 'd) node option"
  tr_next :: nat

definition ROOT_ID :: nat where "ROOT_ID = 1"
definition NO_PARENT :: nat where "NO_PARENT = 0"

definition new_node :: "nat \<Rightarrow> 'd \<Rightarrow> ('k, 'd) tree \<Rightarrow> nat \<times> ('k, 'd) tree" where
  "new_node parent dt t =
     (let i = tr_next t;
          n = \<lparr>nd_data = dt, nd_id = i, nd_parent = parent, nd_children = []\<rparr>
      in (i, t\<lparr>tr_nodes := (tr_nodes t)(i \<mapsto> n), tr_next := tr_next t + 1\<rparr>))"

definition tree_new :: "'d \<Rightarrow> ('k, 'd) tree" where
  "tree_new dt = snd (new_node NO_PARENT dt \<lparr>tr_nodes = Map.empty, tr_next = ROOT_ID\<rparr>)"

definition get_child :: "('k, 'd) tree \<Rightarrow> nat \<Rightarrow> 'k \<Rightarrow> fs_error + nat" where
  "get_child t parent key =
     (case tr_nodes t parent of
        None \<Rightarrow> Inl NotFound
      | Some pnode \<Rightarrow> (case map_of (nd_children pnode) key of
            None \<Rightarrow> Inl NotFound
          | Some i \<Rightarrow> Inr i))"

definition get_children :: "('k, 'd) tree \<Rightarrow> nat \<Rightarrow> fs_error + ('k \<times> nat) list" where
  "get_children t parent =
     (case tr_nodes t parent of None \<Rightarrow> Inl NotFound | Some pnode \<Rightarrow> Inr (nd_children pnode))"

definition get_node :: "('k, 'd) tree \<Rightarrow> nat \<Rightarrow> fs_error + 'd" where
  "get_node t i = (case tr_nodes t i of None \<Rightarrow> Inl NotFound | Some n \<Rightarrow> Inr (nd_data n))"

text \<open>\<^verbatim>\<open>get_node_mut\<close> hands out a mutable reference; the model applies the caller's change.\<close>

definition get_node_mut :: "nat \<Rightarrow> ('d \<Rightarrow> 'd) \<Rightarrow> (('k, 'd) tree, fs_error, unit) act" where
  "get_node_mut i f = (\<lambda>t. case tr_nodes t i of
       None \<Rightarrow> Some (Inl NotFound, t)
     | Some n \<Rightarrow> Some (Inr (), t\<lparr>tr_nodes := (tr_nodes t)(i \<mapsto> n\<lparr>nd_data := f (nd_data n)\<rparr>)\<rparr>))"

definition delete_node_from_parent :: "nat \<Rightarrow> (('k, 'd) tree, fs_error, unit) act" where
  "delete_node_from_parent i = (\<lambda>t.
     if i = ROOT_ID then Some (Inr (), t)
     else case tr_nodes t i of
       None \<Rightarrow> Some (Inl NotFound, t)
     | Some n \<Rightarrow>
        if nd_parent n = NO_PARENT then Some (Inr (), t)
        else case tr_nodes t (nd_parent n) of
          None \<Rightarrow> Some (Inl NotFound, t)
        | Some p \<Rightarrow> (case find (\<lambda>(k, c). c = i) (nd_children p) of
              None \<Rightarrow> Some (Inl NotFound, t)
            | Some (k, _) \<Rightarrow> Some (Inr (), t\<lparr>tr_nodes := (tr_nodes t)
                (nd_parent n \<mapsto> p\<lparr>nd_children := AList.delete k (nd_children p)\<rparr>)\<rparr>)))"

definition remove_node :: "nat \<Rightarrow> ('k, 'd) tree \<Rightarrow> ('k, 'd) tree" where
  "remove_node i t = t\<lparr>tr_nodes := (tr_nodes t)(i := None)\<rparr>"

text \<open>\<^verbatim>\<open>delete_node\<close>: only a childless node other than the root.\<close>

definition delete_node :: "nat \<Rightarrow> (('k, 'd) tree, fs_error, ('k, 'd) node) act" where
  "delete_node i = (\<lambda>t.
     case tr_nodes t i of
       None \<Rightarrow> Some (Inl NotFound, t)
     | Some n \<Rightarrow>
        if i = ROOT_ID \<or> nd_children n \<noteq> [] then Some (Inl Forbidden, t)
        else bind (delete_node_from_parent i)
               (\<lambda>_ t1. case tr_nodes t1 i of
                   None \<Rightarrow> None
                 | Some m \<Rightarrow> Some (Inr m, remove_node i t1)) t)"

text \<open>\<^verbatim>\<open>delete_subtree\<close>: the children first, each with its own subtree, then the node itself.\<close>

fun delete_subtree_fuel :: "nat \<Rightarrow> nat \<Rightarrow> (('k, 'd) tree, fs_error, unit) act"
  and delete_list_fuel :: "nat \<Rightarrow> nat list \<Rightarrow> (('k, 'd) tree, fs_error, unit) act" where
  "delete_subtree_fuel 0 i t = None"
| "delete_subtree_fuel (Suc f) i t =
     (case tr_nodes t i of
        None \<Rightarrow> Some (Inl NotFound, t)
      | Some n \<Rightarrow> (case delete_list_fuel f (map snd (nd_children n)) t of
          None \<Rightarrow> None
        | Some (Inl e, t1) \<Rightarrow> Some (Inl e, t1)
        | Some (Inr _, t1) \<Rightarrow> (case delete_node_from_parent i t1 of
             None \<Rightarrow> None
           | Some (Inl e, t2) \<Rightarrow> Some (Inl e, t2)
           | Some (Inr _, t2) \<Rightarrow>
               Some (Inr (), if i \<noteq> ROOT_ID then remove_node i t2 else t2))))"
| "delete_list_fuel f [] t = Some (Inr (), t)"
| "delete_list_fuel f (c # cs) t =
     (case delete_subtree_fuel f c t of
        None \<Rightarrow> None
      | Some (Inl e, t1) \<Rightarrow> Some (Inl e, t1)
      | Some (Inr _, t1) \<Rightarrow> delete_list_fuel f cs t1)"

definition delete_subtree :: "nat \<Rightarrow> (('k, 'd) tree, fs_error, unit) act" where
  "delete_subtree i = (\<lambda>t. delete_subtree_fuel (Suc (tr_next t)) i t)"

definition link_new :: "nat \<Rightarrow> 'k \<Rightarrow> 'd \<Rightarrow> (('k, 'd) tree, fs_error, nat) act" where
  "link_new parent key dt = (\<lambda>t.
     let (i, t1) = new_node parent dt t
     in case tr_nodes t1 parent of
          None \<Rightarrow> Some (Inl NotFound, t1)
        | Some p \<Rightarrow> Some (Inr i, t1\<lparr>tr_nodes := (tr_nodes t1)
            (parent \<mapsto> p\<lparr>nd_children := AList.update key i (nd_children p)\<rparr>)\<rparr>))"

definition add_child :: "nat \<Rightarrow> 'k \<Rightarrow> 'd \<Rightarrow> bool \<Rightarrow> (('k, 'd) tree, fs_error, nat) act" where
  "add_child parent key dt overwrite = (\<lambda>t.
     case tr_nodes t parent of
       None \<Rightarrow> Some (Inl NotFound, t)
     | Some pnode \<Rightarrow> (case map_of (nd_children pnode) key of
          Some old \<Rightarrow>
            if \<not> overwrite then Some (Inl Exists, t)
            else bind (attempt (delete_subtree old)) (\<lambda>_. link_new parent key dt) t
        | None \<Rightarrow> link_new parent key dt t))"

text \<open>The ancestor loop of \<^verbatim>\<open>move_node\<close>: refuses a destination inside the moved subtree.\<close>

fun ancestor_check :: "nat \<Rightarrow> ('k, 'd) tree \<Rightarrow> nat \<Rightarrow> nat \<Rightarrow> (fs_error + unit) option" where
  "ancestor_check 0 t i a = None"
| "ancestor_check (Suc f) t i a =
     (if a = i then Some (Inl Forbidden)
      else if a = ROOT_ID then Some (Inr ())
      else case tr_nodes t a of
        None \<Rightarrow> Some (Inl NotFound)
      | Some n \<Rightarrow> if nd_parent n = NO_PARENT then Some (Inr ())
                  else ancestor_check f t i (nd_parent n))"

text \<open>The last steps of \<^verbatim>\<open>move_node\<close>: unlink, re-parent, drop the replaced node, link.\<close>

definition move_relink :: "nat \<Rightarrow> nat \<Rightarrow> 'k \<Rightarrow> nat option \<Rightarrow> (('k, 'd) tree, fs_error, unit) act" where
  "move_relink i new_parent new_name dest =
     bind (delete_node_from_parent i) (\<lambda>_ t.
       case tr_nodes t i of
         None \<Rightarrow> None
       | Some n \<Rightarrow>
          let t1 = t\<lparr>tr_nodes := (tr_nodes t)(i \<mapsto> n\<lparr>nd_parent := new_parent\<rparr>)\<rparr>;
              t2 = (case dest of Some c \<Rightarrow> remove_node c t1 | None \<Rightarrow> t1)
          in case tr_nodes t2 new_parent of
               None \<Rightarrow> None
             | Some p \<Rightarrow> Some (Inr (), t2\<lparr>tr_nodes := (tr_nodes t2)
                 (new_parent \<mapsto> p\<lparr>nd_children := AList.update new_name i (nd_children p)\<rparr>)\<rparr>))"

definition move_node :: "nat \<Rightarrow> nat \<Rightarrow> 'k \<Rightarrow> bool \<Rightarrow> (('k, 'd) tree, fs_error, unit) act" where
  "move_node i new_parent new_name overwrite = (\<lambda>t.
     if i = ROOT_ID then Some (Inl Forbidden, t)
     else if i = new_parent then Some (Inl Forbidden, t)
     else case ancestor_check (Suc (tr_next t)) t i new_parent of
       None \<Rightarrow> None
     | Some (Inl e) \<Rightarrow> Some (Inl e, t)
     | Some (Inr _) \<Rightarrow>
        (case tr_nodes t new_parent of
           None \<Rightarrow> Some (Inl NotFound, t)
         | Some p \<Rightarrow> (case map_of (nd_children p) new_name of
              None \<Rightarrow> move_relink i new_parent new_name None t
            | Some cid \<Rightarrow> (case tr_nodes t cid of
                 None \<Rightarrow> None
               | Some cnode \<Rightarrow>
                   if \<not> overwrite \<or> nd_children cnode \<noteq> [] then Some (Inl Exists, t)
                   else move_relink i new_parent new_name (Some cid) t))))"

section \<open>Well-formed trees\<close>

definition child :: "('k, 'd) tree \<Rightarrow> nat \<Rightarrow> 'k \<Rightarrow> nat option" where
  "child t i k = Option.bind (tr_nodes t i) (\<lambda>n. map_of (nd_children n) k)"

text \<open>
  Well-formed with a rank: the root is there and has no parent; ids are in range and stored in
  their nodes; the keys of a node are distinct; a child knows its parent and ranks above it; every
  other node is linked under its parent; and no node is linked twice.  The rank makes the tree
  acyclic.
\<close>

definition wf_rank :: "('k, 'd) tree \<Rightarrow> (nat \<Rightarrow> nat) \<Rightarrow> bool" where
  "wf_rank t d \<longleftrightarrow>
     (\<exists>r. tr_nodes t ROOT_ID = Some r \<and> nd_parent r = NO_PARENT) \<and>
     (\<forall>i n. tr_nodes t i = Some n \<longrightarrow>
        nd_id n = i \<and> ROOT_ID \<le> i \<and> i < tr_next t \<and> distinct (map fst (nd_children n))) \<and>
     (\<forall>i k c. child t i k = Some c \<longrightarrow>
        (\<exists>m. tr_nodes t c = Some m \<and> nd_parent m = i) \<and> d i < d c) \<and>
     (\<forall>i n. tr_nodes t i = Some n \<and> i \<noteq> ROOT_ID \<longrightarrow> (\<exists>k. child t (nd_parent n) k = Some i)) \<and>
     (\<forall>i k k' c. child t i k = Some c \<and> child t i k' = Some c \<longrightarrow> k = k')"

definition wf_tree :: "('k, 'd) tree \<Rightarrow> bool" where
  "wf_tree t \<longleftrightarrow> (\<exists>d. wf_rank t d)"

fun walk :: "('k, 'd) tree \<Rightarrow> nat \<Rightarrow> 'k list \<Rightarrow> nat option" where
  "walk t i [] = Some i"
| "walk t i (k # ks) = (case child t i k of None \<Rightarrow> None | Some c \<Rightarrow> walk t c ks)"

text \<open>The abstract view of a tree: what is stored at each path from the root.\<close>

definition tree_map :: "('k, 'd) tree \<Rightarrow> 'k list \<Rightarrow> 'd option" where
  "tree_map t ks = Option.bind (walk t ROOT_ID ks) (\<lambda>i. map_option nd_data (tr_nodes t i))"

lemma wf_root: "wf_rank t d \<Longrightarrow> \<exists>r. tr_nodes t ROOT_ID = Some r \<and> nd_parent r = NO_PARENT"
  by (simp add: wf_rank_def)

lemma wf_node:
  "wf_rank t d \<Longrightarrow> tr_nodes t i = Some n \<Longrightarrow>
     nd_id n = i \<and> ROOT_ID \<le> i \<and> i < tr_next t \<and> distinct (map fst (nd_children n))"
  unfolding wf_rank_def by blast

lemma wf_child:
  "wf_rank t d \<Longrightarrow> child t i k = Some c \<Longrightarrow>
     (\<exists>m. tr_nodes t c = Some m \<and> nd_parent m = i) \<and> d i < d c"
  unfolding wf_rank_def by blast

lemma wf_linked:
  "wf_rank t d \<Longrightarrow> tr_nodes t i = Some n \<Longrightarrow> i \<noteq> ROOT_ID \<Longrightarrow> \<exists>k. child t (nd_parent n) k = Some i"
  unfolding wf_rank_def by blast

lemma wf_key_unique:
  "wf_rank t d \<Longrightarrow> child t i k = Some c \<Longrightarrow> child t i k' = Some c \<Longrightarrow> k = k'"
  unfolding wf_rank_def by blast

lemma child_in_dom: "child t i k = Some c \<Longrightarrow> \<exists>n. tr_nodes t i = Some n \<and> map_of (nd_children n) k = Some c"
  by (auto simp: child_def Option.bind_eq_Some_conv)

lemma wf_parent_ge: "wf_rank t d \<Longrightarrow> child t i k = Some c \<Longrightarrow> ROOT_ID \<le> i"
  by (blast dest: child_in_dom wf_node)

lemma wf_child_not_root: "wf_rank t d \<Longrightarrow> child t i k = Some c \<Longrightarrow> c \<noteq> ROOT_ID"
proof
  assume wf: "wf_rank t d" and ch: "child t i k = Some c" and "c = ROOT_ID"
  obtain r where "tr_nodes t ROOT_ID = Some r" "nd_parent r = NO_PARENT"
    using wf_root [OF wf] by blast
  moreover obtain m where "tr_nodes t c = Some m" "nd_parent m = i"
    using wf_child [OF wf ch] by blast
  ultimately have "i = NO_PARENT" using \<open>c = ROOT_ID\<close> by simp
  then show False using wf_parent_ge [OF wf ch] by (simp add: ROOT_ID_def NO_PARENT_def)
qed

lemma wf_child_parent_unique:
  "wf_rank t d \<Longrightarrow> child t i k = Some c \<Longrightarrow> child t i' k' = Some c \<Longrightarrow> i = i' \<and> k = k'"
proof -
  assume wf: "wf_rank t d" and c: "child t i k = Some c" "child t i' k' = Some c"
  from wf_child [OF wf c(1)] wf_child [OF wf c(2)] have "i = i'" by auto
  with wf_key_unique [OF wf] c show ?thesis by blast
qed

lemma wf_dom_subset: "wf_rank t d \<Longrightarrow> dom (tr_nodes t) \<subseteq> {..<tr_next t}"
proof
  fix i
  assume wf: "wf_rank t d" and "i \<in> dom (tr_nodes t)"
  then obtain n where "tr_nodes t i = Some n" by blast
  from wf_node [OF wf this] show "i \<in> {..<tr_next t}" by simp
qed

lemma wf_finite: "wf_rank t d \<Longrightarrow> finite (dom (tr_nodes t))"
  by (rule finite_subset [OF wf_dom_subset]) simp_all

lemma wf_card: "wf_rank t d \<Longrightarrow> card (dom (tr_nodes t)) \<le> tr_next t"
  using card_mono [OF _ wf_dom_subset, of t d] by simp

section \<open>Walks\<close>

lemma walk_append:
  "walk t i (xs @ ys) = Option.bind (walk t i xs) (\<lambda>j. walk t j ys)"
  by (induction xs arbitrary: i) (auto split: option.splits)

lemma walk_snoc: "walk t i (xs @ [k]) = Option.bind (walk t i xs) (\<lambda>j. child t j k)"
  by (cases "walk t i xs") (simp_all add: walk_append split: option.splits)

lemma walk_dom:
  "wf_rank t d \<Longrightarrow> walk t i ks = Some j \<Longrightarrow> i \<in> dom (tr_nodes t) \<Longrightarrow> j \<in> dom (tr_nodes t)"
proof (induction ks arbitrary: i)
  case Nil
  then show ?case by simp
next
  case (Cons k ks)
  then obtain c where c: "child t i k = Some c" "walk t c ks = Some j"
    by (auto split: option.splits)
  from wf_child [OF Cons.prems(1) c(1)] have "c \<in> dom (tr_nodes t)" by auto
  with Cons.IH [OF Cons.prems(1) c(2)] show ?case by simp
qed

lemma walk_root_dom: "wf_rank t d \<Longrightarrow> walk t ROOT_ID ks = Some j \<Longrightarrow> \<exists>n. tr_nodes t j = Some n"
  using walk_dom [of t d ROOT_ID ks j] wf_root [of t d] by blast

lemma walk_unique:
  "wf_rank t d \<Longrightarrow> walk t ROOT_ID ks = Some j \<Longrightarrow> walk t ROOT_ID ks' = Some j \<Longrightarrow> ks = ks'"
proof (induction ks arbitrary: j ks' rule: rev_induct)
  case Nil
  show ?case
  proof (cases ks' rule: rev_cases)
    case (snoc ys y)
    with Nil show ?thesis
      by (auto simp: walk_snoc Option.bind_eq_Some_conv dest: wf_child_not_root)
  qed simp
next
  case (snoc k ks)
  then obtain i where i: "walk t ROOT_ID ks = Some i" "child t i k = Some j"
    by (auto simp: walk_snoc Option.bind_eq_Some_conv)
  show ?case
  proof (cases ks' rule: rev_cases)
    case Nil
    with snoc.prems i show ?thesis by (auto dest: wf_child_not_root)
  next
    case (snoc ys y)
    with snoc.prems obtain i' where i': "walk t ROOT_ID ys = Some i'" "child t i' y = Some j"
      by (auto simp: walk_snoc Option.bind_eq_Some_conv)
    with i snoc.prems have "i = i' \<and> k = y" by (blast dest: wf_child_parent_unique)
    with i i' snoc.IH snoc.prems(1) snoc show ?thesis by blast
  qed
qed

lemma walk_inj_iff:
  assumes "wf_rank t d" and w: "walk t ROOT_ID ks = Some i" and w': "walk t ROOT_ID ks' = Some i'"
  shows "i = i' \<longleftrightarrow> ks = ks'"
proof
  assume "i = i'"
  with w' have "walk t ROOT_ID ks' = Some i" by simp
  from walk_unique [OF assms(1) w this] show "ks = ks'" .
next
  assume "ks = ks'"
  with w w' show "i = i'" by simp
qed

lemma walk_exists: "wf_rank t d \<Longrightarrow> tr_nodes t i = Some n \<Longrightarrow> \<exists>ks. walk t ROOT_ID ks = Some i"
proof (induction "d i" arbitrary: i n rule: less_induct)
  case less
  show ?case
  proof (cases "i = ROOT_ID")
    case True
    then have "walk t ROOT_ID [] = Some i" by simp
    then show ?thesis by blast
  next
    case False
    with less obtain k where k: "child t (nd_parent n) k = Some i"
      by (blast dest: wf_linked)
    from wf_child [OF less.prems(1) k] have lt: "d (nd_parent n) < d i" by simp
    from child_in_dom [OF k] obtain m where m: "tr_nodes t (nd_parent n) = Some m" by blast
    from less.hyps [OF lt less.prems(1) m]
    obtain ks where "walk t ROOT_ID ks = Some (nd_parent n)" by blast
    with k have "walk t ROOT_ID (ks @ [k]) = Some i" by (simp add: walk_snoc)
    then show ?thesis by blast
  qed
qed

lemma walk_prefix_None:
  "walk t i xs = None \<Longrightarrow> walk t i (xs @ ys) = None"
  by (simp add: walk_append)

lemma tree_map_None_iff: "wf_rank t d \<Longrightarrow> tree_map t ks = None \<longleftrightarrow> walk t ROOT_ID ks = None"
proof (cases "walk t ROOT_ID ks")
  case None
  then show ?thesis by (simp add: tree_map_def)
next
  case (Some j)
  moreover assume "wf_rank t d"
  ultimately obtain n where "tr_nodes t j = Some n" by (blast dest: walk_root_dom)
  with Some show ?thesis by (simp add: tree_map_def)
qed

end
