(* ===== verification/Dav_Tree_Ops.thy ===== *)
theory Dav_Tree_Ops
  imports Dav_Tree
begin

text \<open>
  What the tree operations do to a well-formed tree: each keeps it well formed, returns (no
  divergence, no panic), and acts on the abstract view \<open>tree_map\<close> as an update of a finite map
  from paths to data.
\<close>

section \<open>Changing the data of a node\<close>

lemma get_node_mut_child:
  "get_node_mut i f t = Some (Inr (), t') \<Longrightarrow> child t' = child t"
  by (rule ext)+ (auto simp: get_node_mut_def child_def split: option.splits)

lemma walk_child_cong: "child t' = child t \<Longrightarrow> walk t' = walk t"
proof (intro ext)
  fix i ks assume "child t' = child t"
  then show "walk t' i ks = walk t i ks"
    by (induction ks arbitrary: i) (auto split: option.splits)
qed

lemma get_node_mut_wf:
  "wf_rank t d \<Longrightarrow> get_node_mut i f t = Some (r, t') \<Longrightarrow> wf_rank t' d"
proof (cases "tr_nodes t i")
  case None
  moreover assume "wf_rank t d" "get_node_mut i f t = Some (r, t')"
  ultimately show ?thesis by (simp add: get_node_mut_def)
next
  case (Some n)
  assume wf: "wf_rank t d" and m: "get_node_mut i f t = Some (r, t')"
  then have r: "get_node_mut i f t = Some (Inr (), t')" using Some by (simp add: get_node_mut_def)
  have c: "child t' = child t" by (rule get_node_mut_child [OF r])
  have n: "tr_nodes t' = (tr_nodes t)(i \<mapsto> n\<lparr>nd_data := f (nd_data n)\<rparr>)" "tr_next t' = tr_next t"
    using Some m by (auto simp: get_node_mut_def)
  show ?thesis using wf Some unfolding wf_rank_def c n
    by (auto split: if_splits) fastforce+
qed

lemma walk_cong: "child t' = child t \<Longrightarrow> walk t' i ks = walk t i ks"
  by (induction ks arbitrary: i) (simp_all split: option.splits)

lemma get_node_mut_map:
  assumes wf: "wf_rank t d" and m: "get_node_mut i f t = Some (Inr (), t')"
    and w: "walk t ROOT_ID ks = Some i"
  shows "tree_map t' = (tree_map t)(ks := map_option f (tree_map t ks))"
proof
  fix ks'
  have c: "child t' = child t" by (rule get_node_mut_child [OF m])
  obtain n where n: "tr_nodes t i = Some n" using walk_root_dom [OF wf w] by blast
  then have n': "tr_nodes t' = (tr_nodes t)(i \<mapsto> n\<lparr>nd_data := f (nd_data n)\<rparr>)"
    using m by (auto simp: get_node_mut_def)
  show "tree_map t' ks' = ((tree_map t)(ks := map_option f (tree_map t ks))) ks'"
  proof (cases "ks' = ks")
    case True
    then show ?thesis using w n by (simp add: tree_map_def walk_cong [OF c] n')
  next
    case False
    then have "walk t ROOT_ID ks' \<noteq> Some i" using walk_unique [OF wf w] by blast
    with False show ?thesis
      by (cases "walk t ROOT_ID ks'") (auto simp: tree_map_def walk_cong [OF c] n')
  qed
qed

section \<open>Adding a child\<close>

lemma child_link:
  assumes wf: "wf_rank t d" and p: "tr_nodes t p = Some pn"
    and l: "link_new p k dt t = Some (r, t')"
  shows "r = Inr (tr_next t)"
    and "child t' j x = (if j = p \<and> x = k then Some (tr_next t)
                         else if j = tr_next t then None else child t j x)"
    and "tr_nodes t' = (tr_nodes t)(tr_next t \<mapsto>
           \<lparr>nd_data = dt, nd_id = tr_next t, nd_parent = p, nd_children = []\<rparr>,
           p \<mapsto> pn\<lparr>nd_children := AList.update k (tr_next t) (nd_children pn)\<rparr>)"
    and "tr_next t' = Suc (tr_next t)"
proof -
  have "p \<noteq> tr_next t" using wf_node [OF wf p] by simp
  then show "r = Inr (tr_next t)"
    and "tr_nodes t' = (tr_nodes t)(tr_next t \<mapsto>
           \<lparr>nd_data = dt, nd_id = tr_next t, nd_parent = p, nd_children = []\<rparr>,
           p \<mapsto> pn\<lparr>nd_children := AList.update k (tr_next t) (nd_children pn)\<rparr>)"
    and "tr_next t' = Suc (tr_next t)"
    and "child t' j x = (if j = p \<and> x = k then Some (tr_next t)
                         else if j = tr_next t then None else child t j x)"
    using l p by (auto simp: link_new_def new_node_def Let_def child_def AList.update_conv')
qed

lemma link_new_wf:
  assumes wf: "wf_rank t d" and p: "tr_nodes t p = Some pn" and fresh: "child t p k = None"
    and l: "link_new p k dt t = Some (r, t')"
  shows "wf_rank t' (d(tr_next t := Suc (d p)))"
proof -
  note L = child_link [OF wf p l]
  have out: "\<And>i n. tr_nodes t i = Some n \<Longrightarrow> i < tr_next t" using wf_node [OF wf] by blast
  have pi: "p \<noteq> tr_next t" using out [OF p] by simp
  have nochild: "child t j x \<noteq> Some (tr_next t)" for j x
    using wf_child [OF wf, of j x "tr_next t"] out by auto
  have src: "child t j x = Some c \<Longrightarrow> j \<noteq> tr_next t" for j x c
    using child_in_dom [of t j x c] out by auto
  show ?thesis
    unfolding wf_rank_def
  proof (intro conjI allI impI, goal_cases)
    case 1
    obtain r0 where "tr_nodes t ROOT_ID = Some r0" "nd_parent r0 = NO_PARENT"
      using wf_root [OF wf] by blast
    with out [of ROOT_ID r0] p show ?case by (auto simp: L(3))
  next
    case (2 i n)
    then show ?case using wf_node [OF wf, of i] wf_node [OF wf p] pi
      by (auto simp: L(3) split: if_splits)
  next
    case (3 i n)
    then show ?case using wf_node [OF wf, of i] wf_node [OF wf p] pi
      by (auto simp: L(3) split: if_splits)
  next
    case (4 i n)
    then show ?case using out [of i] out [OF p] by (auto simp: L(3,4) split: if_splits)
  next
    case (5 i n)
    then show ?case using wf_node [OF wf, of i] wf_node [OF wf p] pi
      by (auto simp: L(3) distinct_update split: if_splits)
  next
    case (6 i x c)
    show ?case
    proof (cases "i = p \<and> x = k")
      case True
      with 6 pi show ?thesis by (auto simp: L(2,3))
    next
      case False
      with 6 have c: "child t i x = Some c" by (auto simp: L(2) split: if_splits)
      then have "c \<noteq> tr_next t" using nochild by blast
      with wf_child [OF wf c] p show ?thesis by (auto simp: L(3))
    qed
  next
    case (7 i x c)
    show ?case
    proof (cases "i = p \<and> x = k")
      case True
      with 7 pi show ?thesis by (auto simp: L(2))
    next
      case False
      with 7 have c: "child t i x = Some c" by (auto simp: L(2) split: if_splits)
      then have "c \<noteq> tr_next t" "i \<noteq> tr_next t" using nochild src by blast+
      with wf_child [OF wf c] show ?thesis by auto
    qed
  next
    case (8 i n)
    show ?case
    proof (cases "i = tr_next t")
      case True
      with 8 pi have "nd_parent n = p" by (auto simp: L(3))
      with True have "child t' (nd_parent n) k = Some i" by (simp add: L(2))
      then show ?thesis by blast
    next
      case False
      with 8 obtain m where m: "tr_nodes t i = Some m" "nd_parent m = nd_parent n"
        using p by (auto simp: L(3) split: if_splits)
      obtain x where x: "child t (nd_parent m) x = Some i" using wf_linked [OF wf m(1)] 8 by blast
      with fresh src have "child t' (nd_parent n) x = Some i" by (auto simp: L(2) m(2))
      then show ?thesis by blast
    qed
  next
    case (9 i x x' c)
    then show ?case using wf_key_unique [OF wf] nochild by (auto simp: L(2) split: if_splits)
  qed
qed

lemma link_new_walk:
  assumes wf: "wf_rank t d" and w: "walk t ROOT_ID ks = Some p" and fresh: "child t p k = None"
    and l: "link_new p k dt t = Some (r, t')"
  shows "walk t' ROOT_ID ks' = (if ks' = ks @ [k] then Some (tr_next t) else walk t ROOT_ID ks')"
proof -
  obtain pn where p: "tr_nodes t p = Some pn" using walk_root_dom [OF wf w] by blast
  note L = child_link [OF wf p l]
  show ?thesis
  proof (induction ks' rule: rev_induct)
    case Nil
    then show ?case by simp
  next
    case (snoc x ys)
    show ?case
    proof (cases "ys = ks @ [k]")
      case True
      have "walk t ROOT_ID (ks @ [k]) = None" using w fresh by (simp add: walk_snoc)
      then have "walk t ROOT_ID (ys @ [x]) = None" unfolding True by (rule walk_prefix_None)
      moreover have "walk t' ROOT_ID ys = Some (tr_next t)" using snoc True by simp
      then have "walk t' ROOT_ID (ys @ [x]) = None"
        using wf_node [OF wf p] by (simp add: walk_snoc L(2))
      ultimately show ?thesis using True by simp
    next
      case False
      with snoc have eq: "walk t' ROOT_ID ys = walk t ROOT_ID ys" by simp
      show ?thesis
      proof (cases "walk t ROOT_ID ys")
        case None
        then show ?thesis using eq w by (auto simp: walk_snoc)
      next
        case (Some j)
        then have j: "j \<noteq> tr_next t" using walk_root_dom [OF wf Some] wf_node [OF wf] by blast
        have "j = p \<longleftrightarrow> ys = ks" by (rule walk_inj_iff [OF wf Some w])
        then show ?thesis using eq Some j by (auto simp: walk_snoc L(2))
      qed
    qed
  qed
qed

lemma link_new_map:
  assumes wf: "wf_rank t d" and w: "walk t ROOT_ID ks = Some p" and fresh: "child t p k = None"
    and l: "link_new p k dt t = Some (r, t')"
  shows "tree_map t' = (tree_map t)(ks @ [k] \<mapsto> dt)"
proof
  fix ks'
  obtain pn where p: "tr_nodes t p = Some pn" using walk_root_dom [OF wf w] by blast
  note L = child_link [OF wf p l]
  have pi: "p \<noteq> tr_next t" using wf_node [OF wf p] by simp
  show "tree_map t' ks' = ((tree_map t)(ks @ [k] \<mapsto> dt)) ks'"
  proof (cases "ks' = ks @ [k]")
    case True
    then show ?thesis using pi by (simp add: tree_map_def link_new_walk [OF wf w fresh l] L(3))
  next
    case False
    have "walk t ROOT_ID ks' = Some j \<Longrightarrow> j \<noteq> tr_next t" for j
      using walk_root_dom [OF wf] wf_node [OF wf] by blast
    then show ?thesis using False p
      by (cases "walk t ROOT_ID ks'")
         (auto simp: tree_map_def link_new_walk [OF wf w fresh l] L(3))
  qed
qed

section \<open>Unlinking and deleting\<close>

lemma find_child:
  assumes wf: "wf_rank t d" and p: "tr_nodes t p = Some pn" and c: "child t p k = Some i"
  shows "find (\<lambda>(k, c). c = i) (nd_children pn) = Some (k, i)"
proof -
  have dk: "distinct (map fst (nd_children pn))" using wf_node [OF wf p] by simp
  have m: "map_of (nd_children pn) k = Some i" using c p by (simp add: child_def)
  then have "(k, i) \<in> set (nd_children pn)" by (rule map_of_SomeD)
  then obtain y where y: "find (\<lambda>(k, c). c = i) (nd_children pn) = Some y"
    by (cases "find (\<lambda>(k, c). c = i) (nd_children pn)") (auto simp: find_None_iff)
  obtain k' c' where kc: "y = (k', c')" by (cases y)
  with y have "c' = i" "(k', c') \<in> set (nd_children pn)"
    by (auto simp: find_Some_iff) (metis nth_mem)
  then have "child t p k' = Some i" using p dk by (simp add: child_def)
  then have "k' = k" using wf_key_unique [OF wf] c by blast
  with y kc \<open>c' = i\<close> show ?thesis by simp
qed

text \<open>Under well-formedness, unlinking a node removes exactly its entry in its parent.\<close>

lemma delete_node_from_parent_eq:
  assumes wf: "wf_rank t d" and n: "tr_nodes t i = Some n" and nr: "i \<noteq> ROOT_ID"
  obtains p k where "tr_nodes t (nd_parent n) = Some p" and "child t (nd_parent n) k = Some i"
    and "delete_node_from_parent i t = Some (Inr (), t\<lparr>tr_nodes := (tr_nodes t)
           (nd_parent n \<mapsto> p\<lparr>nd_children := AList.delete k (nd_children p)\<rparr>)\<rparr>)"
proof -
  obtain k where k: "child t (nd_parent n) k = Some i" using wf_linked [OF wf n nr] by blast
  then obtain p where p: "tr_nodes t (nd_parent n) = Some p" using child_in_dom [OF k] by blast
  have np: "nd_parent n \<noteq> NO_PARENT"
    using wf_parent_ge [OF wf k] by (simp add: ROOT_ID_def NO_PARENT_def)
  show thesis
    using that [OF p k] nr n np p find_child [OF wf p k]
    by (simp add: delete_node_from_parent_def)
qed

text \<open>
  How a tree \<open>t'\<close> relates to \<open>t\<close> when a set of paths was cut off: it is still well formed for the
  same rank, its nodes are old nodes with the same data, and it holds the paths not cut.
\<close>

definition cut_rel :: "(nat \<Rightarrow> nat) \<Rightarrow> ('k, 'd) tree \<Rightarrow> ('k, 'd) tree \<Rightarrow> ('k list \<Rightarrow> bool) \<Rightarrow> bool" where
  "cut_rel d t t' P \<longleftrightarrow> wf_rank t' d \<and> tr_next t' = tr_next t \<and>
     (\<forall>j m'. tr_nodes t' j = Some m' \<longrightarrow> (\<exists>m. tr_nodes t j = Some m \<and> nd_data m' = nd_data m)) \<and>
     (\<forall>ks. walk t' ROOT_ID ks = (if P ks then None else walk t ROOT_ID ks))"

lemma cut_rel_trans:
  "cut_rel d t t1 P \<Longrightarrow> cut_rel d t1 t2 Q \<Longrightarrow> cut_rel d t t2 (\<lambda>ks. P ks \<or> Q ks)"
  unfolding cut_rel_def by fastforce

lemma cut_rel_cong:
  "cut_rel d t t' P \<Longrightarrow> (\<And>ks. walk t ROOT_ID ks \<noteq> None \<Longrightarrow> P ks = Q ks) \<Longrightarrow> cut_rel d t t' Q"
  unfolding cut_rel_def by (metis (no_types, lifting))

lemma cut_rel_refl: "wf_rank t d \<Longrightarrow> (\<And>ks. walk t ROOT_ID ks \<noteq> None \<Longrightarrow> \<not> P ks) \<Longrightarrow> cut_rel d t t P"
  by (simp add: cut_rel_def) (metis not_None_eq)

lemma cut_rel_map:
  assumes "cut_rel d t t' P"
  shows "tree_map t' ks = (if P ks then None else tree_map t ks)"
proof (cases "walk t' ROOT_ID ks")
  case None
  then show ?thesis using assms by (auto simp: cut_rel_def tree_map_def split: if_splits)
next
  case (Some j)
  have wf': "wf_rank t' d" using assms by (simp add: cut_rel_def)
  obtain m' where m': "tr_nodes t' j = Some m'" using walk_root_dom [OF wf' Some] by blast
  obtain m where "tr_nodes t j = Some m" "nd_data m' = nd_data m"
    using assms m' unfolding cut_rel_def by blast
  moreover have "\<not> P ks" "walk t ROOT_ID ks = Some j"
    using assms Some by (auto simp: cut_rel_def split: if_splits)
  ultimately show ?thesis using Some m' by (simp add: tree_map_def)
qed

lemma cut_leaf:
  assumes wf: "wf_rank t d" and n: "tr_nodes t i = Some n" and nr: "i \<noteq> ROOT_ID"
    and leaf: "\<And>x. child t i x = None" and w: "walk t ROOT_ID path = Some i"
    and p: "tr_nodes t (nd_parent n) = Some p" and k: "child t (nd_parent n) k = Some i"
    and t': "t' = remove_node i (t\<lparr>tr_nodes := (tr_nodes t)
           (nd_parent n \<mapsto> p\<lparr>nd_children := AList.delete k (nd_children p)\<rparr>)\<rparr>)"
  shows "cut_rel d t t' (\<lambda>ks. ks = path)"
proof -
  have pi: "nd_parent n \<noteq> i" using wf_child [OF wf k] by auto
  have ch: "child t' j x = (if j = nd_parent n \<and> x = k then None else child t j x)" for j x
    using pi p leaf [of x] by (auto simp: t' remove_node_def child_def map_of_delete)
  have nodes: "tr_nodes t' = (tr_nodes t)(nd_parent n \<mapsto>
      p\<lparr>nd_children := AList.delete k (nd_children p)\<rparr>, i := None)" "tr_next t' = tr_next t"
    by (simp_all add: t' remove_node_def)
  have other: "child t j x = Some i \<Longrightarrow> j = nd_parent n \<and> x = k" for j x
    using wf_child_parent_unique [OF wf _ k] by blast
  have wf': "wf_rank t' d"
    unfolding wf_rank_def
  proof (intro conjI allI impI, goal_cases)
    case 1
    obtain r0 where "tr_nodes t ROOT_ID = Some r0" "nd_parent r0 = NO_PARENT"
      using wf_root [OF wf] by blast
    with nr p show ?case by (auto simp: nodes)
  next
    case (2 j m)
    then show ?case using wf_node [OF wf, of j] wf_node [OF wf p] by (auto simp: nodes split: if_splits)
  next
    case (3 j m)
    then show ?case using wf_node [OF wf, of j] wf_node [OF wf p] by (auto simp: nodes split: if_splits)
  next
    case (4 j m)
    then show ?case using wf_node [OF wf, of j] wf_node [OF wf p] by (auto simp: nodes split: if_splits)
  next
    case (5 j m)
    then show ?case using wf_node [OF wf, of j] wf_node [OF wf p]
      by (auto simp: nodes distinct_delete split: if_splits)
  next
    case (6 j x c)
    then have c: "child t j x = Some c" "\<not> (j = nd_parent n \<and> x = k)" by (auto simp: ch split: if_splits)
    then have "c \<noteq> i" using other by blast
    with wf_child [OF wf c(1)] p show ?case by (auto simp: nodes)
  next
    case (7 j x c)
    then show ?case using wf_child [OF wf, of j x c] by (auto simp: ch split: if_splits)
  next
    case (8 j m)
    then have j: "j \<noteq> i" by (auto simp: nodes split: if_splits)
    with 8 p obtain m0 where m0: "tr_nodes t j = Some m0" "nd_parent m0 = nd_parent m"
      by (auto simp: nodes split: if_splits)
    obtain x where x: "child t (nd_parent m0) x = Some j" using wf_linked [OF wf m0(1)] 8 by blast
    with j k m0 have "child t' (nd_parent m) x = Some j" by (auto simp: ch)
    then show ?case by blast
  next
    case (9 j x x' c)
    then show ?case using wf_key_unique [OF wf] by (auto simp: ch split: if_splits)
  qed
  have wk: "walk t' ROOT_ID ks = (if ks = path then None else walk t ROOT_ID ks)" for ks
  proof (induction ks rule: rev_induct)
    case Nil
    then show ?case using w nr by auto
  next
    case (snoc x ys)
    show ?case
    proof (cases "walk t ROOT_ID (ys @ [x])")
      case None
      then show ?thesis using snoc
        by (cases "walk t ROOT_ID ys") (auto simp: walk_snoc ch split: if_splits)
    next
      case (Some c)
      then obtain j where j: "walk t ROOT_ID ys = Some j" "child t j x = Some c"
        by (auto simp: walk_snoc Option.bind_eq_Some_conv)
      then have "ys \<noteq> path" using w leaf by auto
      with snoc j have wj: "walk t' ROOT_ID ys = Some j" by simp
      have "c = i \<longleftrightarrow> ys @ [x] = path" by (rule walk_inj_iff [OF wf Some w])
      moreover have "c = i \<longleftrightarrow> j = nd_parent n \<and> x = k"
      proof
        assume "c = i"
        with j other [of j x] show "j = nd_parent n \<and> x = k" by simp
      qed (use j k in simp)
      ultimately show ?thesis using wj j Some by (auto simp: walk_snoc ch)
    qed
  qed
  have data: "\<exists>m. tr_nodes t j = Some m \<and> nd_data m' = nd_data m" if "tr_nodes t' j = Some m'" for j m'
    using that p by (auto simp: nodes split: if_splits)
  show ?thesis using wf' wk data nodes(2) by (auto simp: cut_rel_def)
qed

lemma prefix_snoc_strict: "prefix (ks @ [k]) ks' \<Longrightarrow> strict_prefix ks ks'"
  by (auto simp: prefix_def strict_prefix_def)

lemma wf_children_distinct:
  assumes wf: "wf_rank t d" and n: "tr_nodes t i = Some n"
  shows "distinct (map snd (nd_children n))"
proof (rule ccontr)
  have dk: "distinct (map fst (nd_children n))" using wf_node [OF wf n] by simp
  have chi: "child t i k = map_of (nd_children n) k" for k using n by (simp add: child_def)
  assume "\<not> distinct (map snd (nd_children n))"
  then obtain a b where ab: "a < length (nd_children n)" "b < length (nd_children n)" "a \<noteq> b"
    "snd (nd_children n ! a) = snd (nd_children n ! b)"
    by (auto simp: distinct_conv_nth)
  then have "(fst (nd_children n ! a), snd (nd_children n ! a)) \<in> set (nd_children n)"
    "(fst (nd_children n ! b), snd (nd_children n ! a)) \<in> set (nd_children n)"
    by (metis nth_mem prod.collapse)+
  then have "child t i (fst (nd_children n ! a)) = Some (snd (nd_children n ! a))"
    "child t i (fst (nd_children n ! b)) = Some (snd (nd_children n ! a))"
    using dk by (simp_all add: chi)
  then have "fst (nd_children n ! a) = fst (nd_children n ! b)" by (rule wf_key_unique [OF wf])
  with ab dk show False by (simp add: distinct_conv_nth)
qed

lemma wf_children_child:
  assumes wf: "wf_rank t d" and n: "tr_nodes t i = Some n"
  shows "\<forall>c \<in> set (map snd (nd_children n)). \<exists>k. child t i k = Some c"
  using wf_node [OF wf n] n by (auto simp: child_def)

text \<open>Going down to a child lowers the number of nodes that rank higher: the measure of every
  recursion over a subtree.\<close>

lemma rank_card_child:
  assumes wf: "wf_rank t d" and k: "child t i k = Some c"
  shows "card {j \<in> dom (tr_nodes t). d c < d j} < card {j \<in> dom (tr_nodes t). d i < d j}"
proof -
  have "c \<in> dom (tr_nodes t)" "d i < d c" using wf_child [OF wf k] by auto
  then have "{j \<in> dom (tr_nodes t). d c < d j} \<subset> {j \<in> dom (tr_nodes t). d i < d j}" by auto
  then show ?thesis by (rule psubset_card_mono [rotated]) (use wf_finite [OF wf] in auto)
qed

lemma rank_card_bound:
  assumes wf: "wf_rank t d"
  shows "card {j \<in> dom (tr_nodes t). d i < d j} < Suc (tr_next t)"
proof -
  have "card {j \<in> dom (tr_nodes t). d i < d j} \<le> card (dom (tr_nodes t))"
    by (rule card_mono) (use wf_finite [OF wf] in auto)
  also have "\<dots> \<le> tr_next t" by (rule wf_card [OF wf])
  finally show ?thesis by simp
qed

text \<open>Deleting the children of a node, given that deleting one child works.\<close>

lemma delete_list_ok:
  fixes t :: "('k, 'd) tree"
  assumes one: "\<And>(t :: ('k, 'd) tree) c ks. wf_rank t d \<Longrightarrow> walk t ROOT_ID ks = Some c \<Longrightarrow>
       card {j \<in> dom (tr_nodes t). d c < d j} < f \<Longrightarrow>
       \<exists>t'. delete_subtree_fuel f c t = Some (Inr (), t') \<and>
            cut_rel d t t' (\<lambda>ks'. prefix ks ks' \<and> ks' \<noteq> [])"
    and "wf_rank t d" and "walk t ROOT_ID ks = Some i"
    and "distinct cs" and "\<forall>c \<in> set cs. \<exists>k. child t i k = Some c"
    and "card {j \<in> dom (tr_nodes t). d i < d j} \<le> f"
  shows "\<exists>t'. delete_list_fuel f cs t = Some (Inr (), t') \<and>
     cut_rel d t t' (\<lambda>ks'. \<exists>k c. c \<in> set cs \<and> child t i k = Some c \<and> prefix (ks @ [k]) ks')"
  using assms(2-)
proof (induction cs arbitrary: t)
  case Nil
  then show ?case by (auto intro: cut_rel_refl)
next
  case (Cons c cs)
  note wf = Cons.prems(1) and w = Cons.prems(2)
  obtain k where k: "child t i k = Some c" using Cons.prems(4) by auto
  have wc: "walk t ROOT_ID (ks @ [k]) = Some c" using w k by (simp add: walk_snoc)
  from rank_card_child [OF wf k] Cons.prems(5) have "card {j \<in> dom (tr_nodes t). d c < d j} < f" by simp
  from one [OF wf wc this] obtain t1 where t1: "delete_subtree_fuel f c t = Some (Inr (), t1)"
    and c1: "cut_rel d t t1 (\<lambda>ks'. prefix (ks @ [k]) ks' \<and> ks' \<noteq> [])" by blast
  have wf1: "wf_rank t1 d" using c1 by (simp add: cut_rel_def)
  have walk1: "walk t1 ROOT_ID ks' = (if prefix (ks @ [k]) ks' then None else walk t ROOT_ID ks')" for ks'
    using c1 by (auto simp: cut_rel_def)
  have w1: "walk t1 ROOT_ID ks = Some i" using walk1 [of ks] w by (simp add: prefix_def)
  have ch1: "child t1 i x = (if x = k then None else child t i x)" for x
    using walk1 [of "ks @ [x]"] w w1 by (auto simp: walk_snoc prefix_def)
  have sub: "\<forall>c' \<in> set cs. \<exists>k'. child t1 i k' = Some c'"
  proof
    fix c' assume c': "c' \<in> set cs"
    then obtain k' where k': "child t i k' = Some c'" using Cons.prems(4) by auto
    have "k' \<noteq> k" using c' k k' Cons.prems(3) by auto
    then show "\<exists>k'. child t1 i k' = Some c'" using k' by (auto simp: ch1)
  qed
  have "dom (tr_nodes t1) \<subseteq> dom (tr_nodes t)" using c1 by (fastforce simp: cut_rel_def)
  then have "card {j \<in> dom (tr_nodes t1). d i < d j} \<le> card {j \<in> dom (tr_nodes t). d i < d j}"
    by (intro card_mono) (use wf_finite [OF wf] in auto)
  with Cons.prems(5) have m1: "card {j \<in> dom (tr_nodes t1). d i < d j} \<le> f" by simp
  from Cons.IH [OF wf1 w1 _ sub m1] Cons.prems(3)
  obtain t2 where t2: "delete_list_fuel f cs t1 = Some (Inr (), t2)"
    and c2: "cut_rel d t1 t2 (\<lambda>ks'. \<exists>k' c'. c' \<in> set cs \<and> child t1 i k' = Some c' \<and> prefix (ks @ [k']) ks')"
    by auto
  have "cut_rel d t t2 (\<lambda>ks'. \<exists>k' c'. c' \<in> set (c # cs) \<and> child t i k' = Some c' \<and> prefix (ks @ [k']) ks')"
  proof (rule cut_rel_cong [OF cut_rel_trans [OF c1 c2]])
    fix ks'
    have uniq: "child t i k' = Some c \<Longrightarrow> k' = k" for k' by (rule wf_key_unique [OF wf _ k])
    have "(\<exists>k' c'. c' \<in> set cs \<and> child t1 i k' = Some c' \<and> prefix (ks @ [k']) ks') \<longleftrightarrow>
        (\<exists>k' c'. c' \<in> set cs \<and> child t i k' = Some c' \<and> prefix (ks @ [k']) ks')"
    proof -
      have "c' \<in> set cs \<Longrightarrow> child t1 i k' = Some c' \<longleftrightarrow> child t i k' = Some c'" for k' c'
        using Cons.prems(3) k by (auto simp: ch1)
      then show ?thesis by blast
    qed
    moreover have "(\<exists>k'. child t i k' = Some c \<and> prefix (ks @ [k']) ks') \<longleftrightarrow> prefix (ks @ [k]) ks'"
      using uniq k by blast
    moreover have "prefix (ks @ [k]) ks' \<Longrightarrow> ks' \<noteq> []" by (auto simp: prefix_def)
    ultimately show "((prefix (ks @ [k]) ks' \<and> ks' \<noteq> []) \<or>
        (\<exists>k' c'. c' \<in> set cs \<and> child t1 i k' = Some c' \<and> prefix (ks @ [k']) ks')) =
        (\<exists>k' c'. c' \<in> set (c # cs) \<and> child t i k' = Some c' \<and> prefix (ks @ [k']) ks')"
      unfolding list.set insert_iff by blast
  qed
  with t1 t2 show ?case by simp
qed

text \<open>Fuel above the number of nodes of higher rank is enough, and the subtree is cut off; at the
  root, the root itself stays.\<close>

lemma delete_subtree_fuel_ok:
  "wf_rank t d \<Longrightarrow> walk t ROOT_ID ks = Some i \<Longrightarrow>
   card {j \<in> dom (tr_nodes t). d i < d j} < f \<Longrightarrow>
   \<exists>t'. delete_subtree_fuel f i t = Some (Inr (), t') \<and>
        cut_rel d t t' (\<lambda>ks'. prefix ks ks' \<and> ks' \<noteq> [])"
proof (induction f arbitrary: t i ks)
  case 0
  then show ?case by simp
next
  case (Suc f)
  note wf = Suc.prems(1) and w = Suc.prems(2)
  obtain n where n: "tr_nodes t i = Some n" using walk_root_dom [OF wf w] by blast
  have dk: "distinct (map fst (nd_children n))" using wf_node [OF wf n] by simp
  have chi: "child t i k = map_of (nd_children n) k" for k using n by (simp add: child_def)
  note dc = wf_children_distinct [OF wf n] and cs = wf_children_child [OF wf n]
  have m: "card {j \<in> dom (tr_nodes t). d i < d j} \<le> f" using Suc.prems(3) by simp
  from delete_list_ok [OF Suc.IH wf w dc cs m]
  obtain t1 where t1: "delete_list_fuel f (map snd (nd_children n)) t = Some (Inr (), t1)"
    and c1: "cut_rel d t t1 (\<lambda>ks'. \<exists>k c. c \<in> set (map snd (nd_children n)) \<and> child t i k = Some c \<and> prefix (ks @ [k]) ks')"
    by blast
  have c1': "cut_rel d t t1 (\<lambda>ks'. strict_prefix ks ks')"
  proof (rule cut_rel_cong [OF c1])
    fix ks' assume nn: "walk t ROOT_ID ks' \<noteq> None"
    show "(\<exists>k c. c \<in> set (map snd (nd_children n)) \<and> child t i k = Some c \<and> prefix (ks @ [k]) ks') = strict_prefix ks ks'"
    proof
      assume "strict_prefix ks ks'"
      then obtain k ys where ks': "ks' = ks @ k # ys"
        by (metis append_Nil2 neq_Nil_conv prefix_def strict_prefix_def)
      with nn w obtain c where "child t i k = Some c" by (auto simp: walk_append split: option.splits)
      moreover from this have "c \<in> set (map snd (nd_children n))"
        by (auto simp: chi dest: map_of_SomeD intro: rev_image_eqI)
      ultimately show "\<exists>k c. c \<in> set (map snd (nd_children n)) \<and> child t i k = Some c \<and> prefix (ks @ [k]) ks'"
        using ks' by auto
    qed (blast dest: prefix_snoc_strict)
  qed
  have wf1: "wf_rank t1 d" using c1' by (simp add: cut_rel_def)
  have walk1: "walk t1 ROOT_ID ks' = (if strict_prefix ks ks' then None else walk t ROOT_ID ks')" for ks'
    using c1' by (auto simp: cut_rel_def)
  show ?case
  proof (cases "i = ROOT_ID")
    case True
    then have "ks = []" using walk_unique [OF wf w, of "[]"] by simp
    with c1' have "cut_rel d t t1 (\<lambda>ks'. prefix ks ks' \<and> ks' \<noteq> [])"
      by (auto intro: cut_rel_cong simp: strict_prefix_def)
    with True n t1 show ?thesis by (auto simp: delete_node_from_parent_def)
  next
    case False
    have w1: "walk t1 ROOT_ID ks = Some i" using walk1 [of ks] w by simp
    then obtain n1 where n1: "tr_nodes t1 i = Some n1" using walk_root_dom [OF wf1] by blast
    have leaf: "child t1 i x = None" for x
      using walk1 [of "ks @ [x]"] w1 by (simp add: walk_snoc strict_prefix_def)
    obtain p k where p: "tr_nodes t1 (nd_parent n1) = Some p" and k: "child t1 (nd_parent n1) k = Some i"
      and e: "delete_node_from_parent i t1 = Some (Inr (), t1\<lparr>tr_nodes := (tr_nodes t1)
           (nd_parent n1 \<mapsto> p\<lparr>nd_children := AList.delete k (nd_children p)\<rparr>)\<rparr>)"
      by (rule delete_node_from_parent_eq [OF wf1 n1 False])
    note c2 = cut_leaf [OF wf1 n1 False leaf w1 p k refl]
    have "ks \<noteq> []" using w False by auto
    then have "cut_rel d t (remove_node i (t1\<lparr>tr_nodes := (tr_nodes t1)
           (nd_parent n1 \<mapsto> p\<lparr>nd_children := AList.delete k (nd_children p)\<rparr>)\<rparr>))
           (\<lambda>ks'. prefix ks ks' \<and> ks' \<noteq> [])"
      by (intro cut_rel_cong [OF cut_rel_trans [OF c1' c2]]) (auto simp: strict_prefix_def)
    with n t1 e False show ?thesis by auto
  qed
qed

lemma delete_subtree_ok:
  assumes wf: "wf_rank t d" and w: "walk t ROOT_ID ks = Some i"
  shows "\<exists>t'. delete_subtree i t = Some (Inr (), t') \<and>
        cut_rel d t t' (\<lambda>ks'. prefix ks ks' \<and> ks' \<noteq> [])"
proof -
  from delete_subtree_fuel_ok [OF wf w rank_card_bound [OF wf]] show ?thesis by (simp add: delete_subtree_def)
qed

lemma delete_node_ok:
  assumes wf: "wf_rank t d" and w: "walk t ROOT_ID ks = Some i" and nr: "i \<noteq> ROOT_ID"
    and n: "tr_nodes t i = Some n" and leaf: "nd_children n = []"
  shows "\<exists>t'. delete_node i t = Some (Inr n, t') \<and> cut_rel d t t' (\<lambda>ks'. ks' = ks)"
proof -
  have lf: "child t i x = None" for x using n leaf by (simp add: child_def)
  obtain p k where p: "tr_nodes t (nd_parent n) = Some p" and k: "child t (nd_parent n) k = Some i"
    and e: "delete_node_from_parent i t = Some (Inr (), t\<lparr>tr_nodes := (tr_nodes t)
         (nd_parent n \<mapsto> p\<lparr>nd_children := AList.delete k (nd_children p)\<rparr>)\<rparr>)"
    by (rule delete_node_from_parent_eq [OF wf n nr])
  have pi: "nd_parent n \<noteq> i" using wf_child [OF wf k] by auto
  have "delete_node i t = Some (Inr n, remove_node i (t\<lparr>tr_nodes := (tr_nodes t)
         (nd_parent n \<mapsto> p\<lparr>nd_children := AList.delete k (nd_children p)\<rparr>)\<rparr>))"
    using n nr leaf pi e by (simp add: delete_node_def bind_def)
  with cut_leaf [OF wf n nr lf w p k refl] show ?thesis by blast
qed

section \<open>Moving a node\<close>

lemma ancestor_check_returns:
  "wf_rank t d \<Longrightarrow> card {j \<in> dom (tr_nodes t). d j < d a} < f \<Longrightarrow> \<exists>r. ancestor_check f t i a = Some r"
proof (induction f arbitrary: a)
  case 0
  then show ?case by simp
next
  case (Suc f)
  note wf = Suc.prems(1)
  show ?case
  proof (cases "tr_nodes t a")
    case None
    then show ?thesis by simp
  next
    case (Some n)
    show ?thesis
    proof (cases "a = ROOT_ID")
      case True
      then show ?thesis by simp
    next
      case False
      obtain k where k: "child t (nd_parent n) k = Some a" using wf_linked [OF wf Some False] by blast
      then have "nd_parent n \<in> dom (tr_nodes t)" "d (nd_parent n) < d a"
        using child_in_dom [OF k] wf_child [OF wf k] by auto
      then have "{j \<in> dom (tr_nodes t). d j < d (nd_parent n)} \<subset> {j \<in> dom (tr_nodes t). d j < d a}"
        by auto
      then have "card {j \<in> dom (tr_nodes t). d j < d (nd_parent n)} < card {j \<in> dom (tr_nodes t). d j < d a}"
        by (rule psubset_card_mono [rotated]) (use wf_finite [OF wf] in auto)
      with Suc.prems(2) have "card {j \<in> dom (tr_nodes t). d j < d (nd_parent n)} < f" by simp
      from Suc.IH [OF wf this] Some show ?thesis by simp
    qed
  qed
qed

lemma ancestor_check_sound:
  "wf_rank t d \<Longrightarrow> ancestor_check f t i a = Some (Inr ()) \<Longrightarrow> walk t i ks \<noteq> Some a"
proof (induction f arbitrary: a ks)
  case 0
  then show ?case by simp
next
  case (Suc f)
  note wf = Suc.prems(1)
  have ai: "a \<noteq> i" using Suc.prems(2) by auto
  show ?case
  proof
    assume w: "walk t i ks = Some a"
    with ai obtain ys k where ks: "ks = ys @ [k]" by (cases ks rule: rev_cases) auto
    with w obtain b where b: "walk t i ys = Some b" "child t b k = Some a"
      by (auto simp: walk_snoc Option.bind_eq_Some_conv)
    obtain m where m: "tr_nodes t a = Some m" "nd_parent m = b" using wf_child [OF wf b(2)] by blast
    have "a \<noteq> ROOT_ID" by (rule wf_child_not_root [OF wf b(2)])
    moreover have "nd_parent m \<noteq> NO_PARENT"
      using wf_parent_ge [OF wf b(2)] m by (simp add: ROOT_ID_def NO_PARENT_def)
    ultimately have "ancestor_check f t i b = Some (Inr ())" using Suc.prems(2) ai m by simp
    from Suc.IH [OF wf this] b(1) show False by blast
  qed
qed

lemma ancestor_check_complete:
  "wf_rank t d \<Longrightarrow> ancestor_check f t i a = Some r \<Longrightarrow> walk t i ks = Some a \<Longrightarrow> i \<in> dom (tr_nodes t) \<Longrightarrow>
     r = Inl Forbidden"
proof (induction f arbitrary: a ks)
  case 0
  then show ?case by simp
next
  case (Suc f)
  note wf = Suc.prems(1)
  show ?case
  proof (cases "a = i")
    case True
    with Suc.prems(2) show ?thesis by simp
  next
    case ai: False
    with Suc.prems(3) obtain ys k where ks: "ks = ys @ [k]" by (cases ks rule: rev_cases) auto
    with Suc.prems(3) obtain b where b: "walk t i ys = Some b" "child t b k = Some a"
      by (auto simp: walk_snoc Option.bind_eq_Some_conv)
    obtain m where m: "tr_nodes t a = Some m" "nd_parent m = b" using wf_child [OF wf b(2)] by blast
    have "a \<noteq> ROOT_ID" by (rule wf_child_not_root [OF wf b(2)])
    moreover have "nd_parent m \<noteq> NO_PARENT"
      using wf_parent_ge [OF wf b(2)] m by (simp add: ROOT_ID_def NO_PARENT_def)
    ultimately have "ancestor_check f t i b = Some r" using Suc.prems(2) ai m by simp
    from Suc.IH [OF wf this b(1) Suc.prems(4)] show ?thesis .
  qed
qed

lemma ancestor_check_Inr:
  "wf_rank t d \<Longrightarrow> ancestor_check f t i a = Some r \<Longrightarrow> a \<in> dom (tr_nodes t) \<Longrightarrow>
     (\<And>ks. walk t i ks \<noteq> Some a) \<Longrightarrow> r = Inr ()"
proof (induction f arbitrary: a)
  case 0
  then show ?case by simp
next
  case (Suc f)
  note wf = Suc.prems(1)
  obtain m where m: "tr_nodes t a = Some m" using Suc.prems(3) by blast
  have ai: "a \<noteq> i" using Suc.prems(4) [of "[]"] by auto
  show ?case
  proof (cases "a = ROOT_ID \<or> nd_parent m = NO_PARENT")
    case True
    with Suc.prems(2) ai m show ?thesis by (auto split: if_splits)
  next
    case False
    obtain k where k: "child t (nd_parent m) k = Some a" using wf_linked [OF wf m] False by blast
    have "walk t i ks \<noteq> Some (nd_parent m)" for ks
      using Suc.prems(4) [of "ks @ [k]"] k by (auto simp: walk_snoc)
    moreover have "nd_parent m \<in> dom (tr_nodes t)" using child_in_dom [OF k] by blast
    moreover have "ancestor_check f t i (nd_parent m) = Some r" using Suc.prems(2) ai m False by simp
    ultimately show ?thesis using Suc.IH [OF wf] by blast
  qed
qed

end
