(* ===== verification/Dav_Tree_Move.thy ===== *)
theory Dav_Tree_Move
  imports Dav_Tree_Ops
begin

text \<open>
  Moving a node: \<open>move_node\<close> refuses to move the root, to move a node below itself, and to replace
  a non-empty node; otherwise it re-roots the subtree at the new path.  The one case it does not
  handle is a move of a node onto itself (the "replaced" node is then the moved one), which leaves
  a dangling child entry.
\<close>

section \<open>The effect of the last steps\<close>

definition move_pre :: "('k, 'd) tree \<Rightarrow> (nat \<Rightarrow> nat) \<Rightarrow> nat \<Rightarrow> ('k, 'd) node \<Rightarrow> nat \<Rightarrow> 'k \<Rightarrow> nat option \<Rightarrow> bool" where
  "move_pre t d i n np nk dest \<longleftrightarrow> wf_rank t d \<and> tr_nodes t i = Some n \<and> i \<noteq> ROOT_ID \<and>
     np \<in> dom (tr_nodes t) \<and> (\<forall>ks. walk t i ks \<noteq> Some np) \<and> child t np nk = dest \<and>
     (\<forall>c. dest = Some c \<longrightarrow> c \<noteq> i \<and> (\<forall>x. child t c x = None))"

definition move_post :: "('k, 'd) tree \<Rightarrow> nat \<Rightarrow> nat \<Rightarrow> 'k \<Rightarrow> nat \<Rightarrow> 'k \<Rightarrow> nat option \<Rightarrow> ('k, 'd) tree \<Rightarrow> bool" where
  "move_post t i p k np nk dest t' \<longleftrightarrow> tr_next t' = tr_next t \<and>
     (\<forall>j x. child t' j x = (if j = np \<and> x = nk then Some i
        else if j = p \<and> x = k then None else child t j x)) \<and>
     (\<forall>j m'. tr_nodes t' j = Some m' \<longrightarrow> dest \<noteq> Some j \<and> (\<exists>m. tr_nodes t j = Some m \<and>
        nd_data m' = nd_data m \<and> nd_id m' = nd_id m \<and>
        nd_parent m' = (if j = i then np else nd_parent m) \<and> distinct (map fst (nd_children m')))) \<and>
     (\<forall>j. j \<in> dom (tr_nodes t) \<and> dest \<noteq> Some j \<longrightarrow> j \<in> dom (tr_nodes t'))"

lemma move_relink_ok:
  assumes pre: "move_pre t d i n np nk dest" and k: "child t (nd_parent n) k = Some i"
  shows "\<exists>t'. move_relink i np nk dest t = Some (Inr (), t') \<and> move_post t i (nd_parent n) k np nk dest t'"
proof -
  have wf: "wf_rank t d" and n: "tr_nodes t i = Some n" and nr: "i \<noteq> ROOT_ID"
    and anc: "\<And>ks. walk t i ks \<noteq> Some np" and dest: "child t np nk = dest"
    and leaf: "\<And>c x. dest = Some c \<Longrightarrow> c \<noteq> i \<and> child t c x = None"
    using pre by (auto simp: move_pre_def)
  obtain pn where pn: "tr_nodes t np = Some pn" using pre by (auto simp: move_pre_def)
  obtain p k' where p: "tr_nodes t (nd_parent n) = Some p" and k': "child t (nd_parent n) k' = Some i"
    and e: "delete_node_from_parent i t = Some (Inr (), t\<lparr>tr_nodes := (tr_nodes t)
           (nd_parent n \<mapsto> p\<lparr>nd_children := AList.delete k' (nd_children p)\<rparr>)\<rparr>)"
    by (rule delete_node_from_parent_eq [OF wf n nr])
  have kk: "k' = k" by (rule wf_key_unique [OF wf k' k])
  have pi: "nd_parent n \<noteq> i" using wf_child [OF wf k] by auto
  have npi: "np \<noteq> i" using anc [of "[]"] by auto
  have npd: "dest \<noteq> Some np" using wf_child [OF wf, of np nk np] dest by auto
  have pd: "dest \<noteq> Some (nd_parent n)" using leaf k by force
  let ?p' = "p\<lparr>nd_children := AList.delete k (nd_children p)\<rparr>"
  let ?N0 = "(tr_nodes t)(nd_parent n \<mapsto> ?p', i \<mapsto> n\<lparr>nd_parent := np\<rparr>)"
  let ?N1 = "case dest of None \<Rightarrow> ?N0 | Some c \<Rightarrow> ?N0(c := None)"
  define q where "q = (if np = nd_parent n then ?p' else pn)"
  let ?t' = "t\<lparr>tr_nodes := ?N1(np \<mapsto> q\<lparr>nd_children := AList.update nk i (nd_children q)\<rparr>)\<rparr>"
  have q: "?N1 np = Some q" using npi npd pn p by (auto simp: q_def split: option.splits)
  have r: "move_relink i np nk dest t = Some (Inr (), ?t')"
    using e pi q kk n npi npd
    by (cases dest) (auto simp: move_relink_def bind_def Let_def remove_node_def)
  have qc: "map_of (nd_children q) x = (if np = nd_parent n \<and> x = k then None else child t np x)" for x
    using p pn by (auto simp: q_def child_def map_of_delete)
  have qd: "distinct (map fst (nd_children q))"
    using wf_node [OF wf p] wf_node [OF wf pn] by (auto simp: q_def distinct_delete)
  have ch: "child ?t' j x = (if j = np \<and> x = nk then Some i
        else if j = nd_parent n \<and> x = k then None else child t j x)" for j x
  proof (cases "j = np")
    case True
    then show ?thesis by (simp add: child_def [of ?t'] AList.update_conv' qc)
  next
    case False
    show ?thesis
    proof (cases "dest = Some j")
      case True
      then have "j \<noteq> nd_parent n" "child t j x = None" using pd leaf [OF True, of x] by auto
      moreover have "child ?t' j x = None" using True False by (simp add: child_def)
      ultimately show ?thesis using False by simp
    next
      case nd: False
      have "?N1 j = ?N0 j" using nd by (auto split: option.splits)
      then show ?thesis using False pi p n
        by (auto simp: child_def [of ?t'] child_def [of t] map_of_delete)
    qed
  qed
  have nodes: "dest \<noteq> Some j \<and> (\<exists>m. tr_nodes t j = Some m \<and>
        nd_data m' = nd_data m \<and> nd_id m' = nd_id m \<and>
        nd_parent m' = (if j = i then np else nd_parent m) \<and> distinct (map fst (nd_children m')))"
    if "tr_nodes ?t' j = Some m'" for j m'
  proof (cases "j = np")
    case True
    then show ?thesis using that npi npd pn p qd by (auto simp: q_def distinct_update)
  next
    case False
    with that have j: "?N1 j = Some m'" by simp
    then have "dest \<noteq> Some j" "?N0 j = Some m'" by (auto split: option.splits if_splits)
    then show ?thesis using pi p n wf_node [OF wf p] wf_node [OF wf n] wf_node [OF wf, of j]
      by (auto simp: distinct_delete split: if_splits)
  qed
  have "j \<in> dom (tr_nodes ?t')" if "j \<in> dom (tr_nodes t)" "dest \<noteq> Some j" for j
    using that by (auto split: option.splits)
  with ch nodes have "move_post t i (nd_parent n) k np nk dest ?t'" by (simp add: move_post_def)
  with r show ?thesis by blast
qed

section \<open>Moving keeps the tree well formed\<close>

definition moved_rank :: "('k, 'd) tree \<Rightarrow> (nat \<Rightarrow> nat) \<Rightarrow> nat \<Rightarrow> nat \<Rightarrow> nat \<Rightarrow> nat" where
  "moved_rank t d i np j = (if \<exists>ks. walk t i ks = Some j then d j + d np + 1 else d j)"

lemma below_child:
  assumes wf: "wf_rank t d" and c: "child t j x = Some c" and k: "child t p k = Some i"
    and ne: "\<not> (j = p \<and> x = k)"
  shows "(\<exists>ks. walk t i ks = Some c) \<longleftrightarrow> (\<exists>ks. walk t i ks = Some j)"
proof
  assume "\<exists>ks. walk t i ks = Some c"
  then obtain ks where ks: "walk t i ks = Some c" by blast
  show "\<exists>ks. walk t i ks = Some j"
  proof (cases ks rule: rev_cases)
    case Nil
    with ks have "c = i" by simp
    with c have "child t j x = Some i" by simp
    from wf_child_parent_unique [OF wf this k] ne show ?thesis by blast
  next
    case (snoc ys y)
    with ks obtain b where b: "walk t i ys = Some b" "child t b y = Some c"
      by (auto simp: walk_snoc Option.bind_eq_Some_conv)
    from wf_child_parent_unique [OF wf b(2) c] b show ?thesis by blast
  qed
next
  assume "\<exists>ks. walk t i ks = Some j"
  then obtain ks where "walk t i ks = Some j" by blast
  with c have "walk t i (ks @ [x]) = Some c" by (simp add: walk_snoc)
  then show "\<exists>ks. walk t i ks = Some c" by blast
qed

lemma move_wf:
  assumes pre: "move_pre t d i n np nk dest" and k: "child t (nd_parent n) k = Some i"
    and post: "move_post t i (nd_parent n) k np nk dest t'"
  shows "wf_rank t' (moved_rank t d i np)"
proof -
  have wf: "wf_rank t d" and n: "tr_nodes t i = Some n" and nr: "i \<noteq> ROOT_ID"
    and npd: "np \<in> dom (tr_nodes t)"
    and anc: "\<And>ks. walk t i ks \<noteq> Some np" and dest: "child t np nk = dest"
    and leaf: "\<And>c x. dest = Some c \<Longrightarrow> c \<noteq> i \<and> child t c x = None"
    using pre by (auto simp: move_pre_def)
  have nx: "tr_next t' = tr_next t" and ch: "\<And>j x. child t' j x = (if j = np \<and> x = nk then Some i
        else if j = nd_parent n \<and> x = k then None else child t j x)"
    and nod: "\<And>j m'. tr_nodes t' j = Some m' \<Longrightarrow> dest \<noteq> Some j \<and> (\<exists>m. tr_nodes t j = Some m \<and>
        nd_data m' = nd_data m \<and> nd_id m' = nd_id m \<and>
        nd_parent m' = (if j = i then np else nd_parent m) \<and> distinct (map fst (nd_children m')))"
    and ex: "\<And>j. j \<in> dom (tr_nodes t) \<Longrightarrow> dest \<noteq> Some j \<Longrightarrow> j \<in> dom (tr_nodes t')"
    using post unfolding move_post_def by blast+
  have di: "dest \<noteq> Some i" using leaf by blast
  have old: "child t j x = Some c \<and> \<not> (j = np \<and> x = nk) \<and> \<not> (j = nd_parent n \<and> x = k) \<and> c \<noteq> i \<and> dest \<noteq> Some c"
    if "child t' j x = Some c" "\<not> (j = np \<and> x = nk)" for j x c
  proof -
    have a: "child t j x = Some c" "\<not> (j = nd_parent n \<and> x = k)"
      using that by (auto simp: ch split: if_splits)
    then have "c \<noteq> i" using wf_child_parent_unique [OF wf _ k] by blast
    moreover have "dest \<noteq> Some c"
    proof
      assume "dest = Some c"
      with dest have "child t np nk = Some c" by simp
      from wf_child_parent_unique [OF wf this a(1)] that(2) show False by blast
    qed
    ultimately show ?thesis using a that(2) by blast
  qed
  show ?thesis
    unfolding wf_rank_def
  proof (intro conjI allI impI, goal_cases)
    case 1
    obtain r where r: "tr_nodes t ROOT_ID = Some r" "nd_parent r = NO_PARENT"
      using wf_root [OF wf] by blast
    have "dest \<noteq> Some ROOT_ID" using wf_child_not_root [OF wf, of np nk ROOT_ID] dest by blast
    with ex [of ROOT_ID] r obtain r' where "tr_nodes t' ROOT_ID = Some r'" by auto
    with nod [OF this] r nr show ?case by auto
  next
    case (2 j m)
    then show ?case using nod [OF 2] wf_node [OF wf, of j] by auto
  next
    case (3 j m)
    then show ?case using nod [OF 3] wf_node [OF wf, of j] by auto
  next
    case (4 j m)
    then show ?case using nod [OF 4] wf_node [OF wf, of j] nx by auto
  next
    case (5 j m)
    then show ?case using nod [OF 5] by auto
  next
    case (6 j x c)
    show ?case
    proof (cases "j = np \<and> x = nk")
      case True
      with 6 have "c = i" by (simp add: ch)
      with ex [of i] n di obtain m where "tr_nodes t' i = Some m" by auto
      with nod [OF this] True \<open>c = i\<close> show ?thesis by auto
    next
      case False
      note o = old [OF 6 False]
      from wf_child [OF wf] o obtain m where m: "tr_nodes t c = Some m" "nd_parent m = j" by blast
      with ex [of c] o obtain m' where m': "tr_nodes t' c = Some m'" by auto
      with nod [OF this] m o show ?thesis by auto
    qed
  next
    case (7 j x c)
    have np0: "\<not> (\<exists>ks. walk t i ks = Some np)" using anc by blast
    show ?case
    proof (cases "j = np \<and> x = nk")
      case True
      with 7 have "c = i" by (simp add: ch)
      moreover have "\<exists>ks. walk t i ks = Some i" by (rule exI [of _ "[]"]) simp
      ultimately show ?thesis using True np0 by (simp add: moved_rank_def)
    next
      case False
      note o = old [OF 7 False]
      then have "d j < d c" using wf_child [OF wf] by blast
      with below_child [OF wf _ k, of j x c] o show ?thesis by (simp add: moved_rank_def)
    qed
  next
    case (8 j m)
    show ?case
    proof (cases "j = i")
      case True
      with 8 nod [of j m] have "nd_parent m = np" by auto
      with True have "child t' (nd_parent m) nk = Some j" by (simp add: ch)
      then show ?thesis by blast
    next
      case False
      from 8 nod [of j m] False obtain m0 where m0: "tr_nodes t j = Some m0" "nd_parent m0 = nd_parent m"
        and nd: "dest \<noteq> Some j" by auto
      obtain x where x: "child t (nd_parent m0) x = Some j" using wf_linked [OF wf m0(1)] 8 by blast
      have "\<not> (nd_parent m0 = np \<and> x = nk)" using x dest nd by auto
      moreover have "\<not> (nd_parent m0 = nd_parent n \<and> x = k)" using x k False by auto
      ultimately have "child t' (nd_parent m) x = Some j"
        using x m0(2) ch [of "nd_parent m" x] by auto
      then show ?thesis by blast
    qed
  next
    case (9 j x x' c)
    show ?case
    proof (cases "c = i")
      case True
      have "child t' j y = Some c \<Longrightarrow> y = nk" for y
        using old [of j y c] True by blast
      with 9 show ?thesis by blast
    next
      case False
      then have "\<not> (j = np \<and> x = nk)" "\<not> (j = np \<and> x' = nk)" using 9 by (auto simp: ch)
      with old [of j x c] old [of j x' c] 9 wf_key_unique [OF wf] show ?thesis by blast
    qed
  qed
qed

section \<open>The abstract effect of a move\<close>

lemma move_walk:
  assumes pre: "move_pre t d i n np nk dest" and k: "child t (nd_parent n) k = Some i"
    and post: "move_post t i (nd_parent n) k np nk dest t'"
    and wp: "walk t ROOT_ID pp = Some (nd_parent n)" and wn: "walk t ROOT_ID npp = Some np"
  shows "walk t' ROOT_ID ks = (if prefix (npp @ [nk]) ks then walk t i (drop (Suc (length npp)) ks)
      else if prefix (pp @ [k]) ks then None else walk t ROOT_ID ks)"
proof -
  have wf: "wf_rank t d" and anc: "\<And>ks. walk t i ks \<noteq> Some np"
    and dest: "child t np nk = dest" and leaf: "\<And>c x. dest = Some c \<Longrightarrow> c \<noteq> i"
    using pre by (auto simp: move_pre_def)
  have ch: "child t' j x = (if j = np \<and> x = nk then Some i
        else if j = nd_parent n \<and> x = k then None else child t j x)" for j x
    using post by (simp add: move_post_def)
  have wi: "walk t ROOT_ID (pp @ [k]) = Some i" using wp k by (simp add: walk_snoc)
  have nopp: "walk t i ys \<noteq> Some (nd_parent n)" for ys
  proof
    assume "walk t i ys = Some (nd_parent n)"
    moreover have "walk t ROOT_ID ((pp @ [k]) @ ys) = walk t i ys"
      unfolding walk_append [of t ROOT_ID "pp @ [k]"] wi by simp
    ultimately have "walk t ROOT_ID ((pp @ [k]) @ ys) = Some (nd_parent n)" by simp
    from walk_unique [OF wf this wp] show False by simp
  qed
  have notold: "\<not> prefix (pp @ [k]) npp"
  proof
    assume "prefix (pp @ [k]) npp"
    then obtain ys where ys: "npp = (pp @ [k]) @ ys" by (auto simp: prefix_def)
    have "walk t ROOT_ID ((pp @ [k]) @ ys) = walk t i ys"
      unfolding walk_append [of t ROOT_ID "pp @ [k]"] wi by simp
    with wn ys anc [of ys] show False by simp
  qed
  have differ: "\<not> (nd_parent n = np \<and> k = nk)" using k dest leaf by auto
  show ?thesis
  proof (induction ks rule: rev_induct)
    case Nil
    then show ?case by simp
  next
    case (snoc x ys)
    show ?case
    proof (cases "prefix (npp @ [nk]) ys")
      case True
      then obtain zs where zs: "ys = (npp @ [nk]) @ zs" by (auto simp: prefix_def)
      have w: "walk t' ROOT_ID ys = walk t i zs" using snoc True zs by simp
      have "child t' j x = child t j x" if "walk t i zs = Some j" for j
        using that anc [of zs] nopp [of zs] by (auto simp: ch)
      then have "walk t' ROOT_ID (ys @ [x]) = walk t i (zs @ [x])"
        using w by (cases "walk t i zs") (simp_all add: walk_snoc)
      with zs show ?thesis by (simp add: prefix_def)
    next
      case nn: False
      show ?thesis
      proof (cases "ys = npp \<and> x = nk")
        case True
        then have "walk t' ROOT_ID ys = Some np" using snoc nn notold wn by simp
        with True show ?thesis by (simp add: walk_snoc ch)
      next
        case ne: False
        then have npre: "\<not> prefix (npp @ [nk]) (ys @ [x])" using nn by auto
        show ?thesis
        proof (cases "prefix (pp @ [k]) ys")
          case True
          then show ?thesis using snoc nn npre by (simp add: walk_snoc)
        next
          case no: False
          then have eq: "walk t' ROOT_ID ys = walk t ROOT_ID ys" using snoc nn by simp
          show ?thesis
          proof (cases "walk t ROOT_ID ys")
            case None
            then show ?thesis using eq npre by (simp add: walk_snoc)
          next
            case (Some j)
            have "j = nd_parent n \<longleftrightarrow> ys = pp" by (rule walk_inj_iff [OF wf Some wp])
            moreover have "j = np \<longleftrightarrow> ys = npp" by (rule walk_inj_iff [OF wf Some wn])
            ultimately show ?thesis using eq Some npre no ne by (auto simp: walk_snoc ch)
          qed
        qed
      qed
    qed
  qed
qed

text \<open>The abstract move: the subtree at \<open>old\<close> re-rooted at \<open>new\<close>.\<close>

definition map_move :: "'k list \<Rightarrow> 'k list \<Rightarrow> ('k list \<Rightarrow> 'd option) \<Rightarrow> 'k list \<Rightarrow> 'd option" where
  "map_move old new m ks =
     (if prefix new ks then m (old @ drop (length new) ks)
      else if prefix old ks then None else m ks)"

lemma move_walk_abs:
  assumes pre: "move_pre t d i n np nk dest" and k: "child t (nd_parent n) k = Some i"
    and post: "move_post t i (nd_parent n) k np nk dest t'"
    and wp: "walk t ROOT_ID pp = Some (nd_parent n)" and wn: "walk t ROOT_ID npp = Some np"
  shows "walk t' ROOT_ID ks = map_move (pp @ [k]) (npp @ [nk]) (walk t ROOT_ID) ks"
proof -
  have wi: "walk t ROOT_ID (pp @ [k]) = Some i" using wp k by (simp add: walk_snoc)
  show ?thesis unfolding map_move_def
    using move_walk [OF pre k post wp wn, of ks] wi
    by (simp only: walk_append [of t ROOT_ID "pp @ [k]"]) simp
qed

lemma move_map:
  assumes pre: "move_pre t d i n np nk dest" and k: "child t (nd_parent n) k = Some i"
    and post: "move_post t i (nd_parent n) k np nk dest t'"
    and wp: "walk t ROOT_ID pp = Some (nd_parent n)" and wn: "walk t ROOT_ID npp = Some np"
  shows "tree_map t' ks = map_move (pp @ [k]) (npp @ [nk]) (tree_map t) ks"
proof -
  have wf': "wf_rank t' (moved_rank t d i np)" by (rule move_wf [OF pre k post])
  have wi: "walk t ROOT_ID (pp @ [k]) = Some i" using wp k by (simp add: walk_snoc)
  have data: "map_option nd_data (tr_nodes t' j) = map_option nd_data (tr_nodes t j)"
    if w: "walk t' ROOT_ID ks = Some j" for j
  proof -
    obtain m' where m': "tr_nodes t' j = Some m'" using walk_root_dom [OF wf' w] by blast
    then obtain m where "tr_nodes t j = Some m" "nd_data m' = nd_data m"
      using post unfolding move_post_def by blast
    with m' show ?thesis by simp
  qed
  note wk = move_walk_abs [OF pre k post wp wn, of ks]
  have "tree_map t' ks = Option.bind (walk t' ROOT_ID ks) (\<lambda>i. map_option nd_data (tr_nodes t i))"
    unfolding tree_map_def using data by (cases "walk t' ROOT_ID ks") simp_all
  then show ?thesis unfolding wk by (simp add: tree_map_def map_move_def)
qed

text \<open>\<open>move_node\<close> on a well-formed tree: the guards, and the re-rooting when they pass.\<close>

lemma move_node_ok:
  assumes wf: "wf_rank t d" and w: "walk t ROOT_ID old = Some i" and wn: "walk t ROOT_ID npp = Some np"
    and nr: "i \<noteq> ROOT_ID" and below: "\<not> prefix old npp" and ne: "old \<noteq> npp @ [nk]"
  shows "\<exists>r t'. move_node i np nk ow t = Some (r, t') \<and>
    (if child t np nk = None \<or> (ow \<and> (\<forall>x. tree_map t (npp @ [nk, x]) = None))
     then r = Inr () \<and> wf_rank t' (moved_rank t d i np) \<and>
          tree_map t' = map_move old (npp @ [nk]) (tree_map t) \<and>
          walk t' ROOT_ID = map_move old (npp @ [nk]) (walk t ROOT_ID)
     else r = Inl Exists \<and> t' = t)"
proof -
  obtain n where n: "tr_nodes t i = Some n" using walk_root_dom [OF wf w] by blast
  obtain p where p: "tr_nodes t np = Some p" using walk_root_dom [OF wf wn] by blast
  obtain pp k where old: "old = pp @ [k]" using w nr by (cases old rule: rev_cases) auto
  with w obtain q where q: "walk t ROOT_ID pp = Some q" "child t q k = Some i"
    by (auto simp: walk_snoc Option.bind_eq_Some_conv)
  from wf_child [OF wf q(2)] n have qn: "q = nd_parent n" by auto
  have anc: "walk t i ks \<noteq> Some np" for ks
  proof
    assume "walk t i ks = Some np"
    with w have "walk t ROOT_ID (old @ ks) = Some np" by (simp add: walk_append)
    from walk_unique [OF wf this wn] below show False by auto
  qed
  have ai: "i \<noteq> np" using anc [of "[]"] by auto
  have "card {j \<in> dom (tr_nodes t). d j < d np} \<le> card (dom (tr_nodes t))"
    by (rule card_mono) (use wf_finite [OF wf] in auto)
  also have "\<dots> \<le> tr_next t" by (rule wf_card [OF wf])
  finally have "card {j \<in> dom (tr_nodes t). d j < d np} < Suc (tr_next t)" by simp
  from ancestor_check_returns [OF wf this]
  obtain ac where ac: "ancestor_check (Suc (tr_next t)) t i np = Some ac" by blast
  have npdom: "np \<in> dom (tr_nodes t)" using p by blast
  have acok: "ac = Inr ()" using ancestor_check_Inr [OF wf ac npdom anc] .
  have lk: "map_of (nd_children p) nk = child t np nk" using p by (simp add: child_def)
  have main: "\<exists>t'. move_relink i np nk dest t = Some (Inr (), t') \<and> wf_rank t' (moved_rank t d i np) \<and>
      tree_map t' = map_move old (npp @ [nk]) (tree_map t) \<and>
      walk t' ROOT_ID = map_move old (npp @ [nk]) (walk t ROOT_ID)"
    if dest: "child t np nk = dest" and dl: "\<forall>c. dest = Some c \<longrightarrow> (\<forall>x. child t c x = None)" for dest
  proof -
    have "dest \<noteq> Some i"
    proof
      assume "dest = Some i"
      with dest wn have "walk t ROOT_ID (npp @ [nk]) = Some i" by (simp add: walk_snoc)
      from walk_unique [OF wf this w] ne show False by simp
    qed
    with wf n nr npdom anc dest dl have pre: "move_pre t d i n np nk dest"
      by (auto simp: move_pre_def)
    note k = q(2) [unfolded qn]
    obtain t' where t': "move_relink i np nk dest t = Some (Inr (), t')"
      and post: "move_post t i (nd_parent n) k np nk dest t'"
      using move_relink_ok [OF pre k] by blast
    show ?thesis
      using t' move_wf [OF pre k post] move_map [OF pre k post q(1) [unfolded qn] wn]
        move_walk_abs [OF pre k post q(1) [unfolded qn] wn] old by auto
  qed
  show ?thesis
  proof (cases "child t np nk")
    case None
    with main [of None] nr ai ac acok p lk show ?thesis by (auto simp: move_node_def)
  next
    case (Some c)
    obtain cn where cn: "tr_nodes t c = Some cn" using wf_child [OF wf Some] by blast
    have wc: "walk t ROOT_ID (npp @ [nk]) = Some c" using wn Some by (simp add: walk_snoc)
    have tm: "tree_map t (npp @ [nk, x]) = None \<longleftrightarrow> child t c x = None" for x
    proof -
      have "walk t ROOT_ID ((npp @ [nk]) @ [x]) = child t c x" using wc by (simp only: walk_snoc) simp
      then show ?thesis using tree_map_None_iff [OF wf, of "npp @ [nk, x]"] by simp
    qed
    have empty: "(\<forall>x. child t c x = None) \<longleftrightarrow> nd_children cn = []"
      using cn by (cases "nd_children cn") (auto simp: child_def split: if_splits)
    show ?thesis
    proof (cases "ow \<and> nd_children cn = []")
      case True
      with main [of "Some c"] Some nr ai ac acok p lk cn empty tm show ?thesis
        by (auto simp: move_node_def)
    next
      case False
      with Some nr ai ac acok p lk cn empty tm show ?thesis by (auto simp: move_node_def)
    qed
  qed
qed

end
