(* ===== verification/Dav_Tree_Props.thy ===== *)
theory Dav_Tree_Props
  imports Dav_Tree_Move
begin

text \<open>
  The contract of \<^verbatim>\<open>src/tree.rs\<close>: on a well-formed tree every operation returns, keeps the tree
  well-formed, and acts on the abstract view (a map from paths to data) as a map update, the
  removal of a set of paths, or the re-rooting of a subtree.  The in-memory filesystem and the
  in-memory lock system rest on these statements only.
\<close>

section \<open>A new tree, and adding a child\<close>

lemma tree_new_wf: "wf_rank (tree_new dt) (\<lambda>_. 0)"
  by (auto simp: wf_rank_def tree_new_def new_node_def Let_def child_def ROOT_ID_def NO_PARENT_def
      split: if_splits)

lemma tree_new_map: "tree_map (tree_new dt) = [[] \<mapsto> dt]"
proof
  fix ks
  show "tree_map (tree_new dt) ks = [[] \<mapsto> dt] ks"
    by (cases ks) (simp_all add: tree_map_def tree_new_def new_node_def Let_def child_def)
qed

lemma child_eq_map_of: "tr_nodes t i = Some n \<Longrightarrow> child t i k = map_of (nd_children n) k"
  by (simp add: child_def)

lemma link_new_returns:
  assumes "wf_rank t d" and "tr_nodes t p = Some pn"
  shows "\<exists>t'. link_new p k dt t = Some (Inr (tr_next t), t')"
proof -
  have "p \<noteq> tr_next t" using wf_node [OF assms] by auto
  with assms(2) show ?thesis by (simp add: link_new_def new_node_def Let_def)
qed

definition map_cut :: "'k list \<Rightarrow> ('k list \<Rightarrow> 'd option) \<Rightarrow> 'k list \<Rightarrow> 'd option" where
  "map_cut ks m = (\<lambda>ks'. if prefix ks ks' then None else m ks')"

lemma cut_rel_map_cut:
  assumes "cut_rel d t t' (\<lambda>ks'. prefix ks ks' \<and> ks' \<noteq> [])" and "ks \<noteq> []"
  shows "tree_map t' = map_cut ks (tree_map t)"
  using cut_rel_map [OF assms(1)] assms(2) by (auto simp: map_cut_def fun_eq_iff)

lemma add_child_ok:
  assumes wf: "wf_rank t d" and w: "walk t ROOT_ID ks = Some p"
  shows "\<exists>r t' d'. add_child p k dt ow t = Some (r, t') \<and> wf_rank t' d' \<and>
    (if child t p k \<noteq> None \<and> \<not> ow then r = Inl Exists \<and> t' = t
     else \<exists>i. r = Inr i \<and> walk t' ROOT_ID (ks @ [k]) = Some i \<and>
          tree_map t' = (map_cut (ks @ [k]) (tree_map t))(ks @ [k] \<mapsto> dt))"
proof -
  obtain pn where pn: "tr_nodes t p = Some pn" using walk_root_dom [OF wf w] by blast
  have fresh_map: "map_cut (ks @ [k]) (tree_map t) = tree_map t" if "child t p k = None"
  proof
    fix ks'
    show "map_cut (ks @ [k]) (tree_map t) ks' = tree_map t ks'"
    proof (cases "prefix (ks @ [k]) ks'")
      case True
      then obtain zs where zs: "ks' = (ks @ [k]) @ zs" by (auto simp: prefix_def)
      have "walk t ROOT_ID (ks @ [k]) = None" using w that by (simp add: walk_snoc)
      then have "walk t ROOT_ID ((ks @ [k]) @ zs) = None"
        unfolding walk_append [of t ROOT_ID "ks @ [k]"] by simp
      with True zs show ?thesis by (simp add: map_cut_def tree_map_def)
    qed (simp add: map_cut_def)
  qed
  show ?thesis
  proof (cases "child t p k")
    case None
    obtain t' where l: "link_new p k dt t = Some (Inr (tr_next t), t')"
      using link_new_returns [OF wf pn] by blast
    have "add_child p k dt ow t = Some (Inr (tr_next t), t')"
      using None pn l by (simp add: add_child_def child_def)
    moreover have "walk t' ROOT_ID (ks @ [k]) = Some (tr_next t)"
      using link_new_walk [OF wf w None l, of "ks @ [k]"] by simp
    ultimately show ?thesis
      using link_new_wf [OF wf pn None l] link_new_map [OF wf w None l] fresh_map [OF None] None by auto
  next
    case (Some old)
    show ?thesis
    proof (cases ow)
      case False
      with Some pn wf show ?thesis by (auto simp: add_child_def child_def)
    next
      case True
      have wo: "walk t ROOT_ID (ks @ [k]) = Some old" using w Some by (simp add: walk_snoc)
      from delete_subtree_ok [OF wf wo] obtain t1 where t1: "delete_subtree old t = Some (Inr (), t1)"
        and cut: "cut_rel d t t1 (\<lambda>ks'. prefix (ks @ [k]) ks' \<and> ks' \<noteq> [])" by blast
      have wf1: "wf_rank t1 d" using cut by (simp add: cut_rel_def)
      have w1: "walk t1 ROOT_ID ks = Some p" using cut w by (simp add: cut_rel_def)
      have "walk t1 ROOT_ID (ks @ [k]) = None" using cut by (simp add: cut_rel_def)
      then have c1: "child t1 p k = None" using w1 by (simp add: walk_snoc)
      obtain pn1 where pn1: "tr_nodes t1 p = Some pn1" using walk_root_dom [OF wf1 w1] by blast
      obtain t' where l: "link_new p k dt t1 = Some (Inr (tr_next t1), t')"
        using link_new_returns [OF wf1 pn1] by blast
      have "add_child p k dt ow t = Some (Inr (tr_next t1), t')"
        using Some True pn l t1 by (simp add: add_child_def child_def)
      moreover have "walk t' ROOT_ID (ks @ [k]) = Some (tr_next t1)"
        using link_new_walk [OF wf1 w1 c1 l, of "ks @ [k]"] by simp
      moreover have "tree_map t1 = map_cut (ks @ [k]) (tree_map t)"
        by (rule cut_rel_map_cut [OF cut]) simp
      ultimately show ?thesis
        using link_new_wf [OF wf1 pn1 c1 l] link_new_map [OF wf1 w1 c1 l] True by auto
    qed
  qed
qed

section \<open>Properties\<close>

text \<open>\<open>add_child\<close> always returns on a well-formed tree and keeps it well-formed.  An existing
  child is refused without \<open>overwrite\<close> and nothing changes; otherwise whatever was at or below the
  new path is gone, the new data is there, and everything else is untouched.\<close>

theorem add_child_spec:
  assumes "wf_tree t" and "walk t ROOT_ID ks = Some p"
  shows "\<exists>r t'. add_child p k dt ow t = Some (r, t') \<and> wf_tree t' \<and>
    (if tree_map t (ks @ [k]) \<noteq> None \<and> \<not> ow then r = Inl Exists \<and> t' = t
     else \<exists>i. r = Inr i \<and> walk t' ROOT_ID (ks @ [k]) = Some i \<and>
          tree_map t' = (map_cut (ks @ [k]) (tree_map t))(ks @ [k] \<mapsto> dt))"
proof -
  obtain d where wf: "wf_rank t d" using assms(1) by (auto simp: wf_tree_def)
  have "tree_map t (ks @ [k]) = None \<longleftrightarrow> child t p k = None"
    using assms(2) tree_map_None_iff [OF wf, of "ks @ [k]"] by (simp add: walk_snoc)
  with add_child_ok [OF wf assms(2), of k dt ow] show ?thesis unfolding wf_tree_def by metis
qed

definition demo_tree :: "(bytes, nat) tree" where
  "demo_tree = (case add_child ROOT_ID ''a'' 5 False (tree_new 0) of
      Some (Inr i, t) \<Rightarrow> (case add_child i ''b'' 6 False t of Some (_, t') \<Rightarrow> t' | None \<Rightarrow> t)
    | _ \<Rightarrow> tree_new 0)"

lemmas tree_eval = demo_tree_def add_child_def link_new_def new_node_def tree_new_def child_def
  ROOT_ID_def NO_PARENT_def

lemma demo_tree_walk:
  "walk demo_tree ROOT_ID [''a''] = Some 2" "walk demo_tree ROOT_ID [''a'', ''b''] = Some 3"
  "walk demo_tree ROOT_ID [] = Some 1" "walk demo_tree 2 [''b''] = Some 3"
  by (simp_all add: tree_eval)

lemma demo_tree_wf: "wf_tree demo_tree"
proof -
  have "walk (tree_new 0) ROOT_ID [] = Some ROOT_ID" by simp
  from add_child_ok [OF tree_new_wf this, of "''a''" 5 False]
  obtain i t' d' where t': "add_child ROOT_ID ''a'' 5 False (tree_new (0::nat)) = Some (Inr i, t')"
    "wf_rank t' d'" "walk t' ROOT_ID [''a''] = Some i"
    by (auto simp: tree_eval split: if_splits)
  from add_child_ok [OF t'(2,3), of "''b''" 6 False] obtain r t2 d2 where
    "add_child i ''b'' 6 False t' = Some (r, t2)" "wf_rank t2 d2" by blast
  with t'(1) show ?thesis by (auto simp: demo_tree_def wf_tree_def)
qed

lemma add_child_spec_witness:
  "\<exists>r t'. add_child 2 ''c'' 7 False demo_tree = Some (r, t') \<and> wf_tree t' \<and>
    (if tree_map demo_tree ([''a''] @ [''c'']) \<noteq> None \<and> \<not> False then r = Inl Exists \<and> t' = demo_tree
     else \<exists>i. r = Inr i \<and> walk t' ROOT_ID ([''a''] @ [''c'']) = Some i \<and>
          tree_map t' = (map_cut ([''a''] @ [''c'']) (tree_map demo_tree))([''a''] @ [''c''] \<mapsto> 7))"
  by (rule add_child_spec [OF demo_tree_wf demo_tree_walk(1)])

text \<open>Deleting a subtree always returns, and removes exactly the node and what is below it; at
  the root it removes everything but the root itself.\<close>

theorem delete_subtree_spec:
  assumes "wf_tree t" and "walk t ROOT_ID ks = Some i"
  shows "\<exists>t'. delete_subtree i t = Some (Inr (), t') \<and> wf_tree t' \<and>
    tree_map t' = (\<lambda>ks'. if prefix ks ks' \<and> ks' \<noteq> [] then None else tree_map t ks')"
proof -
  obtain d where wf: "wf_rank t d" using assms(1) by (auto simp: wf_tree_def)
  from delete_subtree_ok [OF wf assms(2)] obtain t' where t': "delete_subtree i t = Some (Inr (), t')"
    "cut_rel d t t' (\<lambda>ks'. prefix ks ks' \<and> ks' \<noteq> [])" by blast
  moreover have "wf_tree t'" using t'(2) by (auto simp: cut_rel_def wf_tree_def)
  ultimately show ?thesis using cut_rel_map [OF t'(2)] by blast
qed

lemma delete_subtree_spec_witness:
  "\<exists>t'. delete_subtree 2 demo_tree = Some (Inr (), t') \<and> wf_tree t' \<and>
    tree_map t' = (\<lambda>ks'. if prefix [''a''] ks' \<and> ks' \<noteq> [] then None else tree_map demo_tree ks')"
  by (rule delete_subtree_spec [OF demo_tree_wf demo_tree_walk(1)])

lemma no_children_iff:
  assumes wf: "wf_rank t d" and w: "walk t ROOT_ID ks = Some i" and n: "tr_nodes t i = Some n"
  shows "nd_children n = [] \<longleftrightarrow> (\<forall>k. tree_map t (ks @ [k]) = None)"
proof -
  have "tree_map t (ks @ [k]) = None \<longleftrightarrow> map_of (nd_children n) k = None" for k
    using w n tree_map_None_iff [OF wf, of "ks @ [k]"] by (simp add: walk_snoc child_def)
  then show ?thesis by (cases "nd_children n") (auto split: if_splits)
qed

text \<open>\<open>delete_node\<close> removes the node when it has no children and is not the root, and refuses
  with \<^verbatim>\<open>Forbidden\<close>, changing nothing, in the other cases.\<close>

theorem delete_node_spec:
  assumes "wf_tree t" and "walk t ROOT_ID ks = Some i"
  shows "\<exists>r t'. delete_node i t = Some (r, t') \<and> wf_tree t' \<and>
    (if ks = [] \<or> (\<exists>k. tree_map t (ks @ [k]) \<noteq> None) then r = Inl Forbidden \<and> t' = t
     else (\<exists>n. r = Inr n \<and> tree_map t ks = Some (nd_data n)) \<and> tree_map t' = (tree_map t)(ks := None))"
proof -
  obtain d where wf: "wf_rank t d" using assms(1) by (auto simp: wf_tree_def)
  obtain n where n: "tr_nodes t i = Some n" using walk_root_dom [OF wf assms(2)] by blast
  have root: "i = ROOT_ID \<longleftrightarrow> ks = []"
    using walk_inj_iff [OF wf assms(2), of "[]" ROOT_ID] by auto
  note leaf = no_children_iff [OF wf assms(2) n]
  show ?thesis
  proof (cases "ks = [] \<or> nd_children n \<noteq> []")
    case True
    with n root have "delete_node i t = Some (Inl Forbidden, t)" by (auto simp: delete_node_def)
    with True leaf assms(1) show ?thesis by auto
  next
    case False
    then have "i \<noteq> ROOT_ID" "nd_children n = []" using root by auto
    from delete_node_ok [OF wf assms(2) this(1) n this(2)] obtain t' where
      t': "delete_node i t = Some (Inr n, t')" "cut_rel d t t' (\<lambda>ks'. ks' = ks)" by blast
    moreover have "wf_tree t'" using t'(2) by (auto simp: cut_rel_def wf_tree_def)
    moreover have "tree_map t' = (tree_map t)(ks := None)" using cut_rel_map [OF t'(2)] by auto
    moreover have "tree_map t ks = Some (nd_data n)" using assms(2) n by (simp add: tree_map_def)
    ultimately show ?thesis using False leaf by auto
  qed
qed

lemma delete_node_spec_witness:
  "\<exists>r t'. delete_node 3 demo_tree = Some (r, t') \<and> wf_tree t' \<and>
    (if [''a'', ''b''] = [] \<or> (\<exists>k. tree_map demo_tree ([''a'', ''b''] @ [k]) \<noteq> None)
     then r = Inl Forbidden \<and> t' = demo_tree
     else (\<exists>n. r = Inr n \<and> tree_map demo_tree [''a'', ''b''] = Some (nd_data n)) \<and>
          tree_map t' = (tree_map demo_tree)([''a'', ''b''] := None))"
  by (rule delete_node_spec [OF demo_tree_wf demo_tree_walk(2)])



lemma move_node_below:
  assumes "wf_tree t" and "walk t ROOT_ID old = Some i" and "walk t i ks = Some np"
  shows "move_node i np nk ow t = Some (Inl Forbidden, t)"
proof -
  obtain d where wf: "wf_rank t d" using assms(1) by (auto simp: wf_tree_def)
  have w: "walk t ROOT_ID (old @ ks) = Some np" using assms(2,3) by (simp add: walk_append)
  have "card {j \<in> dom (tr_nodes t). d j < d np} \<le> card (dom (tr_nodes t))"
    by (rule card_mono) (use wf_finite [OF wf] in auto)
  also have "\<dots> \<le> tr_next t" by (rule wf_card [OF wf])
  finally have "card {j \<in> dom (tr_nodes t). d j < d np} < Suc (tr_next t)" by simp
  from ancestor_check_returns [OF wf this]
  obtain ac where ac: "ancestor_check (Suc (tr_next t)) t i np = Some ac" by blast
  have "i \<in> dom (tr_nodes t)" using walk_root_dom [OF wf assms(2)] by blast
  from ancestor_check_complete [OF wf ac assms(3) this] ac show ?thesis
    by (simp add: move_node_def del: ancestor_check.simps)
qed

text \<open>A node cannot be moved into its own subtree.\<close>

theorem move_node_no_cycle:
  assumes "wf_tree t" and "walk t ROOT_ID old = Some i" and "walk t i ks = Some np"
  shows "move_node i np nk ow t = Some (Inl Forbidden, t)"
  using assms by (rule move_node_below)

lemma move_node_no_cycle_witness:
  "move_node 2 3 ''x'' True demo_tree = Some (Inl Forbidden, demo_tree)"
  by (rule move_node_no_cycle [OF demo_tree_wf demo_tree_walk(1) demo_tree_walk(4)])

section \<open>Reachable trees\<close>

text \<open>The operations a client can run: nodes are named by paths, as every backend does, and a node
  is not moved onto itself (the handlers reject equal source and destination).\<close>

inductive tree_step :: "('k, 'd) tree \<Rightarrow> ('k, 'd) tree \<Rightarrow> bool" where
  step_add: "walk t ROOT_ID ks = Some p \<Longrightarrow> add_child p k dt ow t = Some (r, t') \<Longrightarrow> tree_step t t'"
| step_update: "walk t ROOT_ID ks = Some i \<Longrightarrow> get_node_mut i f t = Some (r', t') \<Longrightarrow> tree_step t t'"
| step_delete: "walk t ROOT_ID ks = Some i \<Longrightarrow> delete_node i t = Some (r'', t') \<Longrightarrow> tree_step t t'"
| step_delete_subtree: "walk t ROOT_ID ks = Some i \<Longrightarrow> delete_subtree i t = Some (r', t') \<Longrightarrow> tree_step t t'"
| step_move: "walk t ROOT_ID old = Some i \<Longrightarrow> walk t ROOT_ID npp = Some np \<Longrightarrow> old \<noteq> npp @ [nk] \<Longrightarrow>
    move_node i np nk ow t = Some (r', t') \<Longrightarrow> tree_step t t'"

inductive tree_reachable :: "('k, 'd) tree \<Rightarrow> bool" where
  reach_new: "tree_reachable (tree_new dt)"
| reach_step: "tree_reachable t \<Longrightarrow> tree_step t t' \<Longrightarrow> tree_reachable t'"

lemma tree_step_wf: "tree_step t t' \<Longrightarrow> wf_tree t \<Longrightarrow> wf_tree t'"
proof (induction rule: tree_step.induct)
  case (step_add t ks p k dt ow r t')
  then show ?case using add_child_ok unfolding wf_tree_def by (metis Pair_inject option.inject)
next
  case (step_update t ks i f r' t')
  then show ?case using get_node_mut_wf unfolding wf_tree_def by blast
next
  case (step_delete t ks i r'' t')
  then obtain d where wf: "wf_rank t d" by (auto simp: wf_tree_def)
  obtain n where n: "tr_nodes t i = Some n" using walk_root_dom [OF wf step_delete(1)] by blast
  show ?case
  proof (cases "i = ROOT_ID \<or> nd_children n \<noteq> []")
    case True
    with step_delete n show ?thesis by (auto simp: delete_node_def)
  next
    case False
    with delete_node_ok [OF wf step_delete(1) _ n] step_delete(2) show ?thesis
      by (auto simp: cut_rel_def wf_tree_def)
  qed
next
  case (step_delete_subtree t ks i r' t')
  then obtain d where wf: "wf_rank t d" by (auto simp: wf_tree_def)
  from delete_subtree_ok [OF wf step_delete_subtree(1)] step_delete_subtree(2) show ?case
    by (auto simp: cut_rel_def wf_tree_def)
next
  case (step_move t old i npp np nk ow r' t')
  then obtain d where wf: "wf_rank t d" by (auto simp: wf_tree_def)
  consider "old = []" | "old \<noteq> []" "prefix old npp" | "old \<noteq> []" "\<not> prefix old npp" by blast
  then show ?case
  proof cases
    case 1
    with step_move show ?thesis by (auto simp: move_node_def)
  next
    case 2
    then obtain zs where "npp = old @ zs" by (auto simp: prefix_def)
    with step_move have "walk t i zs = Some np" by (simp add: walk_append)
    from move_node_below [OF step_move(5,1) this] step_move show ?thesis by simp
  next
    case 3
    have "i \<noteq> ROOT_ID" using walk_inj_iff [OF wf step_move(1), of "[]" ROOT_ID] 3 by auto
    from move_node_ok [OF wf step_move(1,2) this 3(2) step_move(3), of ow] step_move(4,5)
    show ?thesis unfolding wf_tree_def by (metis Pair_inject option.inject)
  qed
qed

text \<open>Every tree the backends can build, by any sequence of operations from the empty tree, is
  well-formed: acyclic, with every node linked exactly once under its parent.\<close>

theorem tree_reachable_wf:
  assumes "tree_reachable t"
  shows "wf_tree t"
  using assms
proof (induction rule: tree_reachable.induct)
  case (reach_new dt)
  show ?case unfolding wf_tree_def by (rule exI, rule tree_new_wf)
next
  case (reach_step t t')
  then show ?case using tree_step_wf by blast
qed

lemma tree_reachable_wf_witness: "wf_tree (tree_new (3::nat) :: (bytes, nat) tree)"
  by (rule tree_reachable_wf [OF reach_new])

text \<open>Moving a childless node onto itself with \<open>overwrite\<close> is not refused: it drops the node from
  the table and leaves its parent with a dangling child, so the tree is no longer well-formed.\<close>

theorem move_node_onto_itself:
  "\<exists>t'. move_node 3 2 ''b'' True demo_tree = Some (Inr (), t') \<and>
        child t' 2 ''b'' = Some 3 \<and> tr_nodes t' 3 = None \<and> \<not> wf_tree t'"
proof -
  obtain t' where t': "move_node 3 2 ''b'' True demo_tree = Some (Inr (), t')"
    "child t' 2 ''b'' = Some 3" "tr_nodes t' 3 = None"
    by (simp add: tree_eval move_node_def move_relink_def delete_node_from_parent_def remove_node_def bind_def)
  moreover have "\<not> wf_tree t'" using t'(2,3) wf_child unfolding wf_tree_def by fastforce
  ultimately show ?thesis by blast
qed

end
