(* ===== verification/Dav_Path.thy ===== *)
theory Dav_Path
  imports Dav_Errors "HOL-Library.Sublist"
begin

text \<open>
  \<^verbatim>\<open>src/davpath.rs\<close>: request paths.  A \<^verbatim>\<open>DavPath\<close> is the decoded, normalised path of a URL with the
  length of a prefix that every operation of the backends hides.  Percent-encoding is a library
  call, so the decoder and the encoder are arguments (\<open>dec\<close>, \<open>enc\<close>) of the definitions that use
  them.  The model follows the Unix configuration: path bytes need not be UTF-8.
\<close>

section \<open>Data\<close>

record dav_path =
  fullpath :: bytes
  pfxlen :: "nat option"

datatype parse_error = PInvalidPath | PPrefixMismatch | PForbiddenPath

fun parse_error_to_dav :: "parse_error \<Rightarrow> dav_error" where
  "parse_error_to_dav PInvalidPath = InvalidPath"
| "parse_error_to_dav PPrefixMismatch = IllegalPath"
| "parse_error_to_dav PForbiddenPath = ForbiddenPath"

text \<open>The bytes that \<^verbatim>\<open>encode_path\<close> has escaped: all but ASCII alphanumerics and \<open>- _ . ~ /\<close>.\<close>

definition is_alnum :: "byte \<Rightarrow> bool" where
  "is_alnum c \<longleftrightarrow> is_digit c \<or> in_range 65 90 c \<or> in_range 97 122 c"

definition path_encode_set :: "byte \<Rightarrow> bool" where
  "path_encode_set c \<longleftrightarrow> \<not> (is_alnum c \<or> c \<in> set ''-_.~/'')"

definition encode_path :: "((byte \<Rightarrow> bool) \<Rightarrow> bytes \<Rightarrow> bytes) \<Rightarrow> bytes \<Rightarrow> bytes" where
  "encode_path enc src = enc path_encode_set src"

section \<open>Normalisation\<close>

text \<open>The loop over the decoded segments.  The vector \<open>v\<close> gets a slash and the segment for each
  name; \<^verbatim>\<open>..\<close> pops both.\<close>

definition forbidden_bytes :: "bytes \<Rightarrow> bool" where
  "forbidden_bytes s \<longleftrightarrow> (\<exists>x \<in> set s. of_char x = (0::nat) \<or> x = slash)"

fun norm_loop :: "bytes list \<Rightarrow> bytes list \<Rightarrow> parse_error + bytes list" where
  "norm_loop v [] = Inr v"
| "norm_loop v (s # ss) =
     (if s = ''.'' \<or> s = [] then norm_loop v ss
      else if s = ''..'' then
        (if length v < 2 then Inl PForbiddenPath else norm_loop (butlast (butlast v)) ss)
      else if forbidden_bytes s then Inl PInvalidPath
      else norm_loop (v @ [[slash], s]) ss)"

definition query_start :: "byte \<Rightarrow> bool" where
  "query_start x \<longleftrightarrow> x = CHR ''?'' \<or> x = CHR ''#''"

definition printable :: "byte \<Rightarrow> bool" where
  "printable = in_range 32 126"

definition normalize_path :: "(bytes \<Rightarrow> bytes) \<Rightarrow> bytes \<Rightarrow> parse_error + bytes" where
  "normalize_path dec rp =
     (if \<exists>x \<in> set rp. \<not> printable x then Inl PInvalidPath
      else
        (let rawpath = takeWhile (\<lambda>x. \<not> query_start x) rp
         in if length rawpath < length rp \<and> rp ! length rawpath = CHR ''#'' then Inl PInvalidPath
            else if rawpath = [] \<or> hd rawpath \<noteq> slash then Inl PInvalidPath
            else
              (let isdir = (last rawpath = slash);
                   segments = map dec (split_on slash rawpath)
               in case norm_loop [] segments of
                    Inl e \<Rightarrow> Inl e
                  | Inr v \<Rightarrow> Inr (concat (if isdir \<or> v = [] then v @ [[slash]] else v)))))"

section \<open>Operations on paths\<close>

definition strip_slash :: "bytes \<Rightarrow> bytes" where
  "strip_slash a = (if 1 < length a \<and> ends_with a [slash] then butlast a else a)"

definition path_eq :: "dav_path \<Rightarrow> dav_path \<Rightarrow> bool" where
  "path_eq l r \<longleftrightarrow> strip_slash (fullpath l) = strip_slash (fullpath r)"

definition path_new :: "(bytes \<Rightarrow> bytes) \<Rightarrow> bytes \<Rightarrow> parse_error + dav_path" where
  "path_new dec src =
     (case normalize_path dec src of
        Inl e \<Rightarrow> Inl e
      | Inr path \<Rightarrow> Inr \<lparr>fullpath = path, pfxlen = None\<rparr>)"

text \<open>The indexing in \<^verbatim>\<open>path[pfxlen]\<close> cannot fail: the path starts with the prefix, and is longer
  in the last case.\<close>

definition set_prefix :: "bytes \<Rightarrow> dav_path \<Rightarrow> parse_error + dav_path" where
  "set_prefix pfx p =
     (let path = fullpath p
      in if \<not> starts_with path pfx then Inl PPrefixMismatch
         else if ends_with pfx [slash] then
           (if path ! (length pfx - 1) \<noteq> slash then Inl PPrefixMismatch
            else Inr (p\<lparr>pfxlen := Some (length pfx - 1)\<rparr>))
         else if length path = length pfx then
           Inr \<lparr>fullpath = path @ [slash], pfxlen = Some (length pfx)\<rparr>
         else if path ! length pfx \<noteq> slash then Inl PPrefixMismatch
         else Inr (p\<lparr>pfxlen := Some (length pfx)\<rparr>))"

definition from_str_and_prefix :: "(bytes \<Rightarrow> bytes) \<Rightarrow> bytes \<Rightarrow> bytes \<Rightarrow> parse_error + dav_path" where
  "from_str_and_prefix dec src pfx =
     (case normalize_path dec src of
        Inl e \<Rightarrow> Inl e
      | Inr path \<Rightarrow> set_prefix pfx \<lparr>fullpath = path, pfxlen = None\<rparr>)"

text \<open>The URI is the one of the request; only its path component is used.\<close>

definition from_uri_and_prefix :: "(bytes \<Rightarrow> bytes) \<Rightarrow> bytes \<Rightarrow> bytes \<Rightarrow> parse_error + dav_path" where
  "from_uri_and_prefix dec uri_path pfx =
     (if uri_path = ''*'' then Inr \<lparr>fullpath = ''*'', pfxlen = None\<rparr>
      else if starts_with uri_path [slash] then from_str_and_prefix dec uri_path pfx
      else Inl PInvalidPath)"

definition prefix_len :: "dav_path \<Rightarrow> nat" where
  "prefix_len p = (case pfxlen p of None \<Rightarrow> 0 | Some n \<Rightarrow> n)"

text \<open>\<^verbatim>\<open>Deref\<close>, \<^verbatim>\<open>as_bytes\<close>: the path below the prefix.\<close>

definition as_bytes :: "dav_path \<Rightarrow> bytes" where
  "as_bytes p = drop (prefix_len p) (fullpath p)"

definition get_prefix :: "dav_path \<Rightarrow> bytes" where
  "get_prefix p = take (prefix_len p) (fullpath p)"

definition is_collection :: "dav_path \<Rightarrow> bool" where
  "is_collection p = ends_with (as_bytes p) [slash]"

definition is_star :: "dav_path \<Rightarrow> bool" where
  "is_star p \<longleftrightarrow> as_bytes p = ''*''"

definition add_slash :: "dav_path \<Rightarrow> dav_path" where
  "add_slash p = (if \<not> is_collection p then p\<lparr>fullpath := fullpath p @ [slash]\<rparr> else p)"

definition add_slash_if :: "bool \<Rightarrow> dav_path \<Rightarrow> dav_path" where
  "add_slash_if b p = (if b \<and> \<not> is_collection p then p\<lparr>fullpath := fullpath p @ [slash]\<rparr> else p)"

definition push_segment :: "bytes \<Rightarrow> dav_path \<Rightarrow> dav_path" where
  "push_segment b p = (let q = add_slash p in q\<lparr>fullpath := fullpath q @ b\<rparr>)"

definition path_parent :: "dav_path \<Rightarrow> dav_path" where
  "path_parent p =
     (let segs = path_segs (drop (prefix_len p) (fullpath p))
      in if segs = [] then p
         else \<lparr>fullpath = get_prefix p @ [slash] @ concat (map (\<lambda>s. s @ [slash]) (butlast segs)),
               pfxlen = pfxlen p\<rparr>)"

definition is_in_collection :: "dav_path \<Rightarrow> dav_path \<Rightarrow> bool" where
  "is_in_collection p coll =
     (let href = as_bytes p;
          pfx = (if \<not> ends_with (as_bytes coll) [slash] then as_bytes coll @ [slash] else as_bytes coll)
      in starts_with href pfx \<and> href \<noteq> pfx)"

text \<open>As an OS path, without a trailing slash; and relative, to be pushed on a base directory.\<close>

definition as_pathbuf :: "dav_path \<Rightarrow> bytes" where
  "as_pathbuf p = strip_slash (as_bytes p)"

definition as_rel_ospath :: "dav_path \<Rightarrow> bytes" where
  "as_rel_ospath p =
     (let path = tl (as_bytes p) in if ends_with path [slash] then butlast path else path)"

definition as_url_string :: "((byte \<Rightarrow> bool) \<Rightarrow> bytes \<Rightarrow> bytes) \<Rightarrow> dav_path \<Rightarrow> bytes" where
  "as_url_string enc p = encode_path enc (as_bytes p)"

text \<open>\<^verbatim>\<open>with_prefix().as_url_string()\<close>: the href put in every response.\<close>

definition as_url_string_with_prefix :: "((byte \<Rightarrow> bool) \<Rightarrow> bytes \<Rightarrow> bytes) \<Rightarrow> dav_path \<Rightarrow> bytes" where
  "as_url_string_with_prefix enc p = encode_path enc (fullpath p)"

text \<open>The debug form, prefix and path apart.\<close>

definition as_url_string_with_prefix_debug :: "((byte \<Rightarrow> bool) \<Rightarrow> bytes \<Rightarrow> bytes) \<Rightarrow> dav_path \<Rightarrow> bytes" where
  "as_url_string_with_prefix_debug enc p =
     (if get_prefix p \<noteq> [] then
        encode_path enc (get_prefix p) @ ''['' @ encode_path enc (as_bytes p) @ '']''
      else encode_path enc (as_bytes p))"

text \<open>\<^verbatim>\<open>DavPathRef::parent\<close> on a slice: up to the last slash, or the slash itself at the start.\<close>

fun ref_parent_loop :: "bytes \<Rightarrow> nat \<Rightarrow> nat" where
  "ref_parent_loop path 0 = 0"
| "ref_parent_loop path (Suc e) =
     (if path ! e = slash then (if e = 0 then 1 else e) else ref_parent_loop path e)"

definition ref_parent :: "bytes \<Rightarrow> bytes" where
  "ref_parent path = take (ref_parent_loop path (length path)) path"

definition file_name_bytes :: "dav_path \<Rightarrow> bytes" where
  "file_name_bytes p = (let segs = path_segs (as_bytes p) in if segs \<noteq> [] then last segs else [])"

definition file_name :: "dav_path \<Rightarrow> bytes option" where
  "file_name p =
     (let name = file_name_bytes p
      in if name = [] then None else if utf8_valid name then Some name else None)"

text \<open>The MIME type by the extension after the last dot, from the \<^verbatim>\<open>mime_guess\<close> table \<open>guess\<close>.\<close>

definition mime_type :: "(bytes \<Rightarrow> bytes option) \<Rightarrow> dav_path \<Rightarrow> bytes" where
  "mime_type guess p =
     (let parts = split_on (CHR ''.'') (file_name_bytes p); ext = last parts
      in if 1 < length parts \<and> utf8_valid ext then
           (case guess ext of Some t \<Rightarrow> t | None \<Rightarrow> ''application/octet-stream'')
         else ''application/octet-stream'')"

section \<open>Normal form\<close>

text \<open>A name that is safe to hand to a filesystem: not empty, no slash, no NUL, not a dot segment.\<close>

definition safe_seg :: "bytes \<Rightarrow> bool" where
  "safe_seg s \<longleftrightarrow> good_seg s \<and> s \<noteq> ''.'' \<and> s \<noteq> ''..'' \<and> (\<forall>x \<in> set s. of_char x \<noteq> (0::nat))"

definition join_path :: "bytes list \<Rightarrow> bool \<Rightarrow> bytes" where
  "join_path ss isdir = unsegs ss @ (if isdir \<or> ss = [] then [slash] else [])"

definition pairs :: "bytes list \<Rightarrow> bytes list" where
  "pairs ss = concat (map (\<lambda>s. [[slash], s]) ss)"

text \<open>The reference reading of dot segments: a stack of names.\<close>

fun resolve :: "bytes list \<Rightarrow> bytes list \<Rightarrow> parse_error + bytes list" where
  "resolve st [] = Inr st"
| "resolve st (s # ss) =
     (if s = ''.'' \<or> s = [] then resolve st ss
      else if s = ''..'' then (if st = [] then Inl PForbiddenPath else resolve (butlast st) ss)
      else if safe_seg s then resolve (st @ [s]) ss
      else Inl PInvalidPath)"

lemma pairs_simps [simp]:
  "pairs [] = []" "pairs (ss @ ts) = pairs ss @ pairs ts" "pairs [s] = [[slash], s]"
  by (simp_all add: pairs_def)

lemma length_pairs [simp]: "length (pairs ss) = 2 * length ss"
  by (induction ss) (simp_all add: pairs_def)

lemma pairs_Nil_iff [simp]: "pairs ss = [] \<longleftrightarrow> ss = []"
  by (cases ss) (simp_all add: pairs_def)

lemma butlast_pairs: "ss \<noteq> [] \<Longrightarrow> butlast (butlast (pairs ss)) = pairs (butlast ss)"
  by (cases ss rule: rev_cases) (simp_all add: butlast_append)

lemma concat_pairs: "concat (pairs ss) = unsegs ss"
  by (induction ss) (simp_all add: pairs_def)

lemma norm_loop_resolve: "norm_loop (pairs st) ss = map_sum (\<lambda>e. e) pairs (resolve st ss)"
proof (induction st ss rule: resolve.induct)
  case (1 st)
  then show ?case by simp
next
  case (2 st s ss)
  consider "s = ''.'' \<or> s = []" | "s = ''..''" "st = []" | "s = ''..''" "st \<noteq> []"
    | "\<not> (s = ''.'' \<or> s = [])" "s \<noteq> ''..''" by blast
  then show ?case
  proof cases
    case 1
    with 2 show ?thesis by auto
  next
    case 2
    then show ?thesis by simp
  next
    case 3
    then have "\<not> length (pairs st) < 2" by (cases st) auto
    with 3 2 show ?thesis by (simp add: butlast_pairs)
  next
    case 4
    have safe: "safe_seg s \<longleftrightarrow> \<not> forbidden_bytes s"
      using 4 by (auto simp: safe_seg_def good_seg_def forbidden_bytes_def)
    show ?thesis
    proof (cases "safe_seg s")
      case True
      with 4 2 have "norm_loop (pairs st @ [[slash], s]) ss = map_sum (\<lambda>e. e) pairs (resolve (st @ [s]) ss)"
        by simp
      moreover have "norm_loop (pairs st) (s # ss) = norm_loop (pairs st @ [[slash], s]) ss"
        using 4 True [unfolded safe] by simp
      moreover have "resolve st (s # ss) = resolve (st @ [s]) ss" using 4 True by simp
      ultimately show ?thesis by (simp only:)
    next
      case False
      with 4 safe show ?thesis by auto
    qed
  qed
qed

lemma resolve_safe: "resolve st ss = Inr rs \<Longrightarrow> \<forall>s \<in> set st. safe_seg s \<Longrightarrow> s \<in> set rs \<Longrightarrow> safe_seg s"
proof (induction st ss rule: resolve.induct)
  case (1 st)
  then show ?case by simp
next
  case (2 st s ss)
  then show ?case by (auto split: if_splits dest: in_set_butlastD)
qed

lemma resolve_names: "\<forall>s \<in> set ss. safe_seg s \<Longrightarrow> resolve st ss = Inr (st @ ss)"
proof (induction ss arbitrary: st)
  case Nil
  then show ?case by simp
next
  case (Cons s ss)
  then have "s \<noteq> ''.'' \<and> s \<noteq> [] \<and> s \<noteq> ''..'' \<and> safe_seg s" by (simp add: safe_seg_def good_seg_def)
  with Cons.IH [of "st @ [s]"] Cons.prems show ?case by simp
qed

lemma resolve_skip_empty: "resolve st (filter (\<lambda>s. s \<noteq> []) ss) = resolve st ss"
  by (induction st ss rule: resolve.induct) auto

lemma safe_good: "safe_seg s \<Longrightarrow> good_seg s"
  by (simp add: safe_seg_def)

lemma path_segs_join: "\<forall>s \<in> set ss. good_seg s \<Longrightarrow> path_segs (join_path ss d) = ss"
  by (simp add: join_path_def path_segs_unsegs)

lemma unsegs_hd: "ss \<noteq> [] \<Longrightarrow> unsegs ss \<noteq> [] \<and> hd (unsegs ss) = slash"
  by (cases ss) simp_all

lemma join_path_hd: "join_path ss d \<noteq> [] \<and> hd (join_path ss d) = slash"
  by (cases ss) (simp_all add: join_path_def)

text \<open>The segment view of \<open>normalize_path\<close>.\<close>

definition raw_ok :: "bytes \<Rightarrow> bool" where
  "raw_ok rp \<longleftrightarrow> (\<forall>x \<in> set rp. printable x) \<and>
     \<not> (let r = takeWhile (\<lambda>x. \<not> query_start x) rp
        in (length r < length rp \<and> rp ! length r = CHR ''#'') \<or> r = [] \<or> hd r \<noteq> slash)"

definition raw_path :: "bytes \<Rightarrow> bytes" where
  "raw_path rp = takeWhile (\<lambda>x. \<not> query_start x) rp"

lemma normalize_path_eq:
  "normalize_path dec rp =
     (if \<not> raw_ok rp then Inl PInvalidPath
      else map_sum (\<lambda>e. e) (\<lambda>ss. join_path ss (last (raw_path rp) = slash))
             (resolve [] (map dec (split_on slash (raw_path rp)))))"
proof (cases "raw_ok rp")
  case False
  then show ?thesis by (auto simp: raw_ok_def normalize_path_def Let_def)
next
  case True
  have l: "norm_loop [] ss = map_sum (\<lambda>e. e) pairs (resolve [] ss)" for ss
    using norm_loop_resolve [of "[]" ss] by simp
  show ?thesis
  proof (cases "resolve [] (map dec (split_on slash (raw_path rp)))")
    case (Inl e)
    with True l show ?thesis
      by (auto simp: raw_ok_def normalize_path_def Let_def raw_path_def)
  next
    case (Inr ss)
    with True l show ?thesis
      by (auto simp: raw_ok_def normalize_path_def Let_def raw_path_def join_path_def concat_pairs)
  qed
qed

lemma normalize_path_Inr:
  "normalize_path dec rp = Inr p \<longleftrightarrow> raw_ok rp \<and>
     (\<exists>ss. resolve [] (map dec (split_on slash (raw_path rp))) = Inr ss \<and>
           p = join_path ss (last (raw_path rp) = slash))"
proof (cases "resolve [] (map dec (split_on slash (raw_path rp)))")
  case (Inl e)
  then show ?thesis by (simp add: normalize_path_eq)
next
  case (Inr ss)
  then show ?thesis by (auto simp: normalize_path_eq)
qed

text \<open>A path in normal form: what the backends see.\<close>

definition normal_path :: "bytes \<Rightarrow> bool" where
  "normal_path p \<longleftrightarrow> (\<exists>d. p = join_path (path_segs p) d) \<and> (\<forall>s \<in> set (path_segs p). safe_seg s)"

lemma normal_path_join: "\<forall>s \<in> set ss. safe_seg s \<Longrightarrow> normal_path (join_path ss d)"
  unfolding normal_path_def using path_segs_join [of ss d] safe_good by auto

lemma normal_pathE:
  assumes "normal_path p"
  obtains ss d where "p = join_path ss d" "\<forall>s \<in> set ss. safe_seg s" "path_segs p = ss"
  using assms unfolding normal_path_def by blast

lemma normalize_normal: "normalize_path dec rp = Inr p \<Longrightarrow> normal_path p"
  unfolding normalize_path_Inr
  using resolve_safe [of "[]"] normal_path_join by fastforce

lemma normal_path_hd: "normal_path p \<Longrightarrow> p \<noteq> [] \<and> hd p = slash"
  by (erule normal_pathE) (simp add: join_path_hd)

lemma split_unsegs:
  "\<forall>s \<in> set ss. good_seg s \<Longrightarrow> ss \<noteq> [] \<Longrightarrow> split_on slash (unsegs ss) = [] # ss"
proof (induction ss)
  case Nil
  then show ?case by simp
next
  case (Cons s ss)
  then have s: "slash \<notin> set s" by (simp add: good_seg_def)
  show ?case
  proof (cases ss)
    case Nil
    with s show ?thesis by (simp add: split_on_id)
  next
    case (Cons s' ss')
    then have "split_on slash (unsegs ss) = [] # ss" using Cons.IH Cons.prems by simp
    with Cons have "split_on slash (s' @ unsegs ss') = ss" by simp
    with Cons s show ?thesis by (simp add: split_on_prefix_free)
  qed
qed

lemma split_join_path:
  assumes "\<forall>s \<in> set ss. good_seg s"
  shows "filter (\<lambda>s. s \<noteq> []) (split_on slash (join_path ss d)) = ss"
  using path_segs_join [OF assms, of d] by (simp add: path_segs_def)

lemma last_join_path:
  assumes "\<forall>s \<in> set ss. good_seg s"
  shows "(last (join_path ss d) = slash) = (d \<or> ss = [])"
proof (cases "d \<or> ss = []")
  case True
  then show ?thesis by (simp add: join_path_def)
next
  case False
  then obtain xs s where ss: "ss = xs @ [s]" by (cases ss rule: rev_cases) auto
  with assms have "s \<noteq> [] \<and> last s \<in> set s \<and> slash \<notin> set s" by (simp add: good_seg_def)
  moreover have "join_path ss d = unsegs xs @ slash # s" using False ss by (simp add: join_path_def)
  ultimately show ?thesis using False by auto
qed

lemma takeWhile_no_query: "\<forall>c \<in> set p. \<not> query_start c \<Longrightarrow> raw_path p = p"
  by (simp add: raw_path_def)

text \<open>Dropping a prefix that ends at a slash leaves a normal path.\<close>

lemma drop_unsegs:
  "\<forall>s \<in> set ss. good_seg s \<Longrightarrow> n < length (unsegs ss @ t) \<Longrightarrow> (unsegs ss @ t) ! n = slash \<Longrightarrow>
     t = [] \<or> t = [slash] \<Longrightarrow>
     \<exists>k. drop n (unsegs ss @ t) = unsegs (drop k ss) @ t \<and> take n (unsegs ss @ t) = unsegs (take k ss)"
proof (induction ss arbitrary: n)
  case Nil
  then show ?case by (intro exI [of _ 0]) auto
next
  case (Cons s ss)
  then have s: "slash \<notin> set s" by (simp add: good_seg_def)
  show ?case
  proof (cases n)
    case 0
    then show ?thesis by (intro exI [of _ 0]) simp
  next
    case (Suc m)
    have nth: "(s @ unsegs ss @ t) ! m = slash" using Cons.prems(3) Suc by simp
    have ge: "length s \<le> m"
    proof (rule ccontr)
      assume "\<not> length s \<le> m"
      with nth have "s ! m = slash" "m < length s" by (simp_all add: nth_append)
      with s show False using nth_mem by metis
    qed
    from nth ge have "(unsegs ss @ t) ! (m - length s) = slash" by (simp add: nth_append)
    moreover have "m - length s < length (unsegs ss @ t)" using Cons.prems(2) Suc ge by simp
    ultimately obtain k where "drop (m - length s) (unsegs ss @ t) = unsegs (drop k ss) @ t"
      "take (m - length s) (unsegs ss @ t) = unsegs (take k ss)"
      using Cons.IH [of "m - length s"] Cons.prems by auto
    with Suc ge show ?thesis by (intro exI [of _ "Suc k"]) simp
  qed
qed

lemma join_path_unsegs: "join_path ss d = unsegs ss @ (if d \<or> ss = [] then [slash] else [])"
  by (simp add: join_path_def)

lemma drop_join_path:
  assumes g: "\<forall>s \<in> set ss. good_seg s" and n: "n < length (join_path ss d)" "join_path ss d ! n = slash"
  shows "\<exists>k. drop n (join_path ss d) = join_path (drop k ss) d \<and> take n (join_path ss d) = unsegs (take k ss)"
proof -
  let ?t = "if d \<or> ss = [] then [slash] else []"
  have t: "?t = [] \<or> ?t = [slash]" by auto
  obtain k where k: "drop n (join_path ss d) = unsegs (drop k ss) @ ?t"
      "take n (join_path ss d) = unsegs (take k ss)"
    using drop_unsegs [OF g _ _ t, of n] n unfolding join_path_unsegs by auto
  have "drop k ss \<noteq> [] \<or> d \<or> ss = []"
  proof (rule ccontr)
    assume "\<not> ?thesis"
    with k(1) have "drop n (join_path ss d) = []" by simp
    with n(1) show False by simp
  qed
  then have "unsegs (drop k ss) @ ?t = join_path (drop k ss) d" by (auto simp: join_path_def)
  with k show ?thesis by auto
qed

lemma set_prefix_segs:
  assumes p: "fullpath p = join_path ss d" "\<forall>s \<in> set ss. safe_seg s" and q: "set_prefix pfx p = Inr q"
  shows "\<exists>k d'. as_bytes q = join_path (drop k ss) d' \<and> get_prefix q = unsegs (take k ss) \<and>
           fullpath q = join_path ss d' \<and> (d \<longrightarrow> d') \<and>
           get_prefix q = (if ends_with pfx [slash] then butlast pfx else pfx)"
proof -
  have g: "\<forall>s \<in> set ss. good_seg s" using p(2) safe_good by blast
  from q have sw: "starts_with (fullpath p) pfx" by (auto simp: set_prefix_def Let_def split: if_splits)
  then obtain r where r: "fullpath p = pfx @ r" by (auto simp: starts_with_iff)
  show ?thesis
  proof (cases "ends_with pfx [slash]")
    case True
    then obtain pf where pf: "pfx = pf @ [slash]" by (auto simp: ends_with_iff)
    then have q': "q = p\<lparr>pfxlen := Some (length pf)\<rparr>"
      using q True r by (auto simp: set_prefix_def Let_def split: if_splits)
    have "length pf < length (join_path ss d)" "join_path ss d ! length pf = slash"
      using r pf p(1) by (metis append_assoc length_append less_add_same_cancel1 length_greater_0_conv
          append_Cons list.distinct(1), metis append_assoc append_Cons nth_append_length)
    from drop_join_path [OF g this] obtain k where
      "drop (length pf) (join_path ss d) = join_path (drop k ss) d"
      "take (length pf) (join_path ss d) = unsegs (take k ss)" by blast
    moreover have "take (length pf) (join_path ss d) = pf" using r pf p(1) by (metis append_assoc append_eq_conv_conj)
    ultimately show ?thesis using q' p(1) pf r True
      by (intro exI [of _ k] exI [of _ d]) (simp add: as_bytes_def get_prefix_def prefix_len_def)
  next
    case False
    show ?thesis
    proof (cases "length (fullpath p) = length pfx")
      case True
      then have q': "q = \<lparr>fullpath = fullpath p @ [slash], pfxlen = Some (length pfx)\<rparr>"
        using q False sw by (auto simp: set_prefix_def Let_def split: if_splits)
      have pf: "fullpath p = pfx" using True r by simp
      have "\<not> (d \<or> ss = [])"
        using False pf p(1) last_join_path [OF g, of d] join_path_hd [of ss d] by (auto simp: ends_with_single)
      then have "join_path ss d @ [slash] = join_path ss True" "join_path ss d = unsegs ss"
        by (simp_all add: join_path_def)
      with q' p(1) pf False show ?thesis
        by (intro exI [of _ "length ss"] exI [of _ True])
          (simp add: as_bytes_def get_prefix_def prefix_len_def join_path_def)
    next
      case ne: False
      then have q': "q = p\<lparr>pfxlen := Some (length pfx)\<rparr>" and nth: "fullpath p ! length pfx = slash"
        using q False sw by (auto simp: set_prefix_def Let_def split: if_splits)
      have "length pfx < length (join_path ss d)" using ne r p(1) by simp
      moreover have "join_path ss d ! length pfx = slash" using nth p(1) by simp
      ultimately obtain k where
        "drop (length pfx) (join_path ss d) = join_path (drop k ss) d"
        "take (length pfx) (join_path ss d) = unsegs (take k ss)" using drop_join_path [OF g] by blast
      moreover have "take (length pfx) (join_path ss d) = pfx" using r p(1) by (metis append_eq_conv_conj)
      ultimately show ?thesis using q' p(1) r False
        by (intro exI [of _ k] exI [of _ d]) (simp add: as_bytes_def get_prefix_def prefix_len_def)
    qed
  qed
qed

lemma from_str_and_prefix_segs:
  assumes "from_str_and_prefix dec src pfx = Inr q"
  shows "\<exists>ss k d'. (\<forall>s \<in> set ss. safe_seg s) \<and> as_bytes q = join_path (drop k ss) d' \<and>
           get_prefix q = unsegs (take k ss) \<and> fullpath q = join_path ss d' \<and>
           get_prefix q = (if ends_with pfx [slash] then butlast pfx else pfx)"
proof -
  from assms obtain p where p: "normalize_path dec src = Inr p"
    and q: "set_prefix pfx \<lparr>fullpath = p, pfxlen = None\<rparr> = Inr q"
    by (auto simp: from_str_and_prefix_def split: sum.splits)
  from normalize_normal [OF p] obtain ss d where "p = join_path ss d" "\<forall>s \<in> set ss. safe_seg s"
    by (rule normal_pathE)
  with set_prefix_segs [OF _ _ q, of ss d] show ?thesis
    by (metis dav_path.select_convs(1))
qed

lemma parent_join:
  "concat (map (\<lambda>s. s @ [slash]) ss) = tl (join_path ss True)"
proof -
  have "slash # concat (map (\<lambda>s. s @ [slash]) ss) = unsegs ss @ [slash]" by (induction ss) simp_all
  then show ?thesis by (simp add: join_path_def) (metis list.sel(3))
qed

section \<open>Properties\<close>

text \<open>C37: a path that comes out of \<open>normalize_path\<close> is safe to hand to a filesystem whatever the
  percent-decoder does: it is absolute, has no empty, \<^verbatim>\<open>.\<close> or \<^verbatim>\<open>..\<close> segment and no NUL, and is exactly
  the spelling of its segments.\<close>

theorem normalize_path_safe:
  assumes "normalize_path dec rp = Inr p"
  shows "hd p = slash \<and> (\<forall>s \<in> set (path_segs p). s \<noteq> [] \<and> s \<noteq> ''.'' \<and> s \<noteq> ''..'' \<and>
           slash \<notin> set s \<and> (\<forall>c \<in> set s. of_char c \<noteq> (0::nat))) \<and>
         (p = unsegs (path_segs p) \<or> p = unsegs (path_segs p) @ [slash])"
proof -
  have n: "normal_path p" by (rule normalize_normal [OF assms])
  then obtain ss d where p: "p = join_path ss d" and ss: "\<forall>s \<in> set ss. safe_seg s" "path_segs p = ss"
    by (rule normal_pathE)
  have "p = unsegs ss \<or> p = unsegs ss @ [slash]" unfolding p join_path_def by simp
  moreover have "\<forall>s \<in> set ss. s \<noteq> [] \<and> s \<noteq> ''.'' \<and> s \<noteq> ''..'' \<and> slash \<notin> set s \<and>
      (\<forall>c \<in> set s. of_char c \<noteq> (0::nat))"
    using ss(1) unfolding safe_seg_def good_seg_def by blast
  ultimately show ?thesis using normal_path_hd [OF n] unfolding ss(2) by (intro conjI) simp_all
qed

lemmas path_eval = normalize_path_def printable_def in_range_def query_start_def forbidden_bytes_def
  safe_seg_def good_seg_def ends_with_def as_bytes_def get_prefix_def prefix_len_def join_path_def unsegs_def

lemma normalize_demo: "normalize_path (\<lambda>s. s) ''/a/..//b/./c/?q=1'' = Inr ''/b/c/''"
  by (simp add: path_eval)

lemma normalize_path_safe_witness:
  "normalize_path (\<lambda>s. s) ''/a/..//b/./c/?q=1'' = Inr ''/b/c/'' \<and> hd ''/b/c/'' = slash"
  using normalize_path_safe [OF normalize_demo] normalize_demo by (intro conjI) simp_all

text \<open>The path is refused as climbing out of the root exactly when reading the segments left to
  right meets a \<^verbatim>\<open>..\<close> with no name left to drop, and the loop over the vector of slices computes
  the stack semantics of dot segments.\<close>

theorem norm_loop_refines_stack:
  "norm_loop [] ss = (case resolve [] ss of Inl e \<Rightarrow> Inl e | Inr st \<Rightarrow> Inr (concat (map (\<lambda>s. [[slash], s]) st)))"
  using norm_loop_resolve [of "[]" ss] by (cases "resolve [] ss") (simp_all add: pairs_def)

lemma slash_ok: "printable slash \<and> \<not> query_start slash"
  by (simp add: printable_def in_range_def query_start_def)

text \<open>A normalised path survives the trip to a URL and back, for every encoder that works
  segment by segment and that the decoder inverts.\<close>

theorem encode_normalize_roundtrip:
  assumes "\<forall>s \<in> set ss. safe_seg s"
    and "encode_path enc (join_path ss d) = join_path (map es ss) d"
    and "\<forall>s \<in> set ss. good_seg (es s) \<and> dec (es s) = s \<and> (\<forall>c \<in> set (es s). printable c \<and> \<not> query_start c)"
    and "dec [] = []"
  shows "normalize_path dec (encode_path enc (join_path ss d)) = Inr (join_path ss d)"
proof -
  let ?r = "join_path (map es ss) d"
  have g: "\<forall>s \<in> set (map es ss). good_seg s" using assms(3) by auto
  have chars: "\<forall>c \<in> set ?r. printable c \<and> \<not> query_start c"
  proof
    fix c assume "c \<in> set ?r"
    then have "c = slash \<or> (\<exists>s \<in> set ss. c \<in> set (es s))"
      by (auto simp: join_path_def unsegs_def split: if_splits)
    with assms(3) slash_ok show "printable c \<and> \<not> query_start c" by blast
  qed
  then have rp: "raw_path ?r = ?r" by (intro takeWhile_no_query) blast
  have ok: "raw_ok ?r"
    unfolding raw_ok_def Let_def rp [unfolded raw_path_def]
    using chars join_path_hd [of "map es ss" d] by blast
  have dec_ne: "dec s = [] \<longleftrightarrow> s = []" if "s \<in> set (split_on slash ?r)" for s
  proof
    assume "dec s = []"
    show "s = []"
    proof (rule ccontr)
      assume "s \<noteq> []"
      with that have "s \<in> set (path_segs ?r)" by (simp add: path_segs_def)
      then have "s \<in> es ` set ss" using path_segs_join [OF g, of d] by simp
      with assms(1,3) \<open>dec s = []\<close> show False by (auto simp: safe_seg_def good_seg_def)
    qed
  qed (simp add: assms(4))
  have "filter (\<lambda>s. s \<noteq> []) (map dec (split_on slash ?r)) = map dec (path_segs ?r)"
    using dec_ne by (simp add: path_segs_def filter_map comp_def cong: filter_cong)
  also have "\<dots> = ss" using path_segs_join [OF g, of d] assms(3) by (simp add: map_idI)
  finally have "resolve [] (map dec (split_on slash ?r)) = Inr ss"
    using resolve_skip_empty [of "[]" "map dec (split_on slash ?r)"] resolve_names [OF assms(1), of "[]"]
    by simp
  moreover have "join_path ss (last ?r = slash) = join_path ss d"
    using last_join_path [OF g, of d] by (simp add: join_path_def)
  ultimately show ?thesis unfolding assms(2) normalize_path_eq rp using ok by simp
qed

definition esc_space :: "bytes \<Rightarrow> bytes" where
  "esc_space s = concat (map (\<lambda>c. if c = CHR '' '' then ''%20'' else [c]) s)"

fun unesc_space :: "bytes \<Rightarrow> bytes" where
  "unesc_space [] = []"
| "unesc_space (c # s) = (if starts_with (c # s) ''%20'' then CHR '' '' # unesc_space (drop 2 s)
     else c # unesc_space s)"

lemma encode_normalize_roundtrip_witness:
  "normalize_path unesc_space (encode_path (\<lambda>_. esc_space) (join_path [''a'', ''b c''] True)) =
     Inr (join_path [''a'', ''b c''] True)"
  by (rule encode_normalize_roundtrip [where es = esc_space])
    (simp_all add: path_eval esc_space_def encode_path_def)

text \<open>A request path accepted under a prefix starts with it at a segment boundary, and what the
  backends see below the prefix is again an absolute normal path.\<close>

theorem from_uri_and_prefix_ok:
  assumes "from_uri_and_prefix dec uri pfx = Inr q" and "uri \<noteq> ''*''"
  shows "fullpath q = get_prefix q @ as_bytes q \<and> normal_path (as_bytes q) \<and>
         get_prefix q = (if ends_with pfx [slash] then butlast pfx else pfx) \<and>
         path_segs (fullpath q) = path_segs pfx @ path_segs (as_bytes q)"
proof -
  from assms have "from_str_and_prefix dec uri pfx = Inr q"
    by (auto simp: from_uri_and_prefix_def split: if_splits)
  from from_str_and_prefix_segs [OF this] obtain ss k d' where
    ss: "\<forall>s \<in> set ss. safe_seg s" "as_bytes q = join_path (drop k ss) d'"
      "get_prefix q = unsegs (take k ss)" "fullpath q = join_path ss d'"
      "get_prefix q = (if ends_with pfx [slash] then butlast pfx else pfx)" by blast
  have g: "\<forall>s \<in> set ss. good_seg s" using ss(1) safe_good by blast
  have "normal_path (as_bytes q)" using ss(1,2) by (auto intro!: normal_path_join dest: in_set_dropD)
  moreover have "path_segs pfx = take k ss"
  proof -
    have "path_segs pfx = path_segs (get_prefix q)"
      using ss(5) by (cases "ends_with pfx [slash]") (auto simp: ends_with_iff)
    also have "\<dots> = take k ss" using g ss(3) by (auto intro!: path_segs_unsegs dest: in_set_takeD)
    finally show ?thesis .
  qed
  moreover have "path_segs (as_bytes q) = drop k ss"
    using g ss(2) by (auto intro!: path_segs_join dest: in_set_dropD)
  moreover have "path_segs (fullpath q) = ss" using g ss(4) by (simp add: path_segs_join)
  moreover have "fullpath q = get_prefix q @ as_bytes q" by (simp add: as_bytes_def get_prefix_def)
  ultimately show ?thesis using ss(5) by simp
qed

definition demo_path :: dav_path where
  "demo_path = \<lparr>fullpath = ''/dav/x/y'', pfxlen = Some 4\<rparr>"

lemma from_uri_and_prefix_ok_witness:
  "fullpath demo_path = get_prefix demo_path @ as_bytes demo_path \<and> normal_path (as_bytes demo_path) \<and>
         get_prefix demo_path = (if ends_with ''/dav/'' [slash] then butlast ''/dav/'' else ''/dav/'') \<and>
         path_segs (fullpath demo_path) = path_segs ''/dav/'' @ path_segs (as_bytes demo_path)"
  by (rule from_uri_and_prefix_ok [of "\<lambda>s. s" "''/dav//x/./y''"])
    (simp_all add: path_eval from_uri_and_prefix_def from_str_and_prefix_def set_prefix_def demo_path_def)

text \<open>\<open>parent\<close> drops the last segment below the prefix, keeps the prefix and denotes a
  collection; the parent of the prefixed root is the root itself.\<close>

theorem path_parent_spec:
  assumes "normal_path (as_bytes p)"
  shows "path_segs (as_bytes (path_parent p)) = butlast (path_segs (as_bytes p)) \<and>
         get_prefix (path_parent p) = get_prefix p \<and>
         normal_path (as_bytes (path_parent p)) \<and>
         (path_segs (as_bytes p) \<noteq> [] \<longrightarrow> is_collection (path_parent p)) \<and>
         (path_segs (as_bytes p) = [] \<longrightarrow> path_parent p = p)"
proof (cases "path_segs (as_bytes p) = []")
  case True
  then show ?thesis using assms by (simp add: path_parent_def as_bytes_def Let_def)
next
  case False
  let ?bs = "butlast (path_segs (as_bytes p))"
  have safe: "\<forall>s \<in> set ?bs. safe_seg s" using assms by (auto simp: normal_path_def dest: in_set_butlastD)
  have "prefix_len p \<le> length (fullpath p)" using False
    by (cases "prefix_len p \<le> length (fullpath p)") (simp_all add: as_bytes_def)
  moreover have "join_path ?bs True = slash # concat (map (\<lambda>s. s @ [slash]) ?bs)"
    using parent_join [of ?bs] join_path_hd [of ?bs True] by (metis list.collapse)
  ultimately have b: "as_bytes (path_parent p) = join_path ?bs True"
    and pf: "get_prefix (path_parent p) = get_prefix p"
    using False by (simp_all add: path_parent_def as_bytes_def get_prefix_def Let_def prefix_len_def)
  have g: "\<forall>s \<in> set ?bs. good_seg s" using safe safe_good by blast
  show ?thesis
    using False pf normal_path_join [OF safe] path_segs_join [OF g] last_join_path [OF g, of True]
      join_path_hd [of ?bs True]
    by (simp add: b is_collection_def ends_with_single)
qed

definition demo_path2 :: dav_path where
  "demo_path2 = \<lparr>fullpath = ''/dav/x/y/'', pfxlen = Some 4\<rparr>"

lemma demo_path2_normal: "normal_path (as_bytes demo_path2)" "path_segs (as_bytes demo_path2) = [''x'', ''y'']"
proof -
  have b: "as_bytes demo_path2 = join_path [''x'', ''y''] True"
    by (simp add: demo_path2_def path_eval)
  have g: "\<forall>s \<in> set [''x'', ''y'']. safe_seg s" by (simp add: safe_seg_def good_seg_def)
  then show "normal_path (as_bytes demo_path2)" using b normal_path_join by simp
  have "\<forall>s \<in> set [''x'', ''y'']. good_seg s" by (simp add: good_seg_def)
  then show "path_segs (as_bytes demo_path2) = [''x'', ''y'']" unfolding b by (rule path_segs_join)
qed

lemma path_parent_spec_witness:
  "path_segs (as_bytes (path_parent demo_path2)) = [''x''] \<and>
   get_prefix (path_parent demo_path2) = ''/dav'' \<and> is_collection (path_parent demo_path2)"
proof -
  have "get_prefix demo_path2 = ''/dav''" by (simp add: demo_path2_def path_eval)
  with path_parent_spec [OF demo_path2_normal(1)] show ?thesis by (simp add: demo_path2_normal(2))
qed

lemma unsegs_snoc_slash: "join_path ss True = unsegs ss @ [slash]"
  by (simp add: join_path_def)

lemma dir_prefix_iff:
  assumes g: "\<forall>s \<in> set xs. good_seg s" "\<forall>s \<in> set ys. good_seg s"
  shows "(\<exists>t. join_path xs d = join_path ys True @ t) \<longleftrightarrow>
           (\<exists>zs. xs = ys @ zs \<and> (zs = [] \<longrightarrow> d \<or> ys = []))"
proof
  assume "\<exists>t. join_path xs d = join_path ys True @ t"
  then obtain t where t: "join_path xs d = unsegs ys @ slash # t" by (auto simp: join_path_def)
  have "path_segs (join_path xs d) = path_segs (unsegs ys) @ path_segs t"
    unfolding t by (rule path_segs_append_slash)
  then have xs: "xs = ys @ path_segs t" using g by (simp add: path_segs_join path_segs_unsegs)
  moreover have "d \<or> ys = []" if "path_segs t = []"
  proof (rule ccontr)
    assume "\<not> (d \<or> ys = [])"
    with xs that have "join_path xs d = unsegs ys" by (simp add: join_path_def)
    with t show False by simp
  qed
  ultimately show "\<exists>zs. xs = ys @ zs \<and> (zs = [] \<longrightarrow> d \<or> ys = [])" by blast
next
  assume "\<exists>zs. xs = ys @ zs \<and> (zs = [] \<longrightarrow> d \<or> ys = [])"
  then obtain zs where zs: "xs = ys @ zs" "zs = [] \<longrightarrow> d \<or> ys = []" by blast
  show "\<exists>t. join_path xs d = join_path ys True @ t"
  proof (cases zs)
    case Nil
    with zs show ?thesis by (auto simp: join_path_def)
  next
    case (Cons z zs')
    with zs show ?thesis by (auto simp: join_path_def)
  qed
qed

text \<open>\<open>is_in_collection\<close> is true exactly for the paths strictly below the collection, segment by
  segment, whether or not the collection path has its trailing slash.\<close>

theorem is_in_collection_iff:
  assumes p: "normal_path (as_bytes p)" and c: "normal_path (as_bytes c)"
  shows "is_in_collection p c \<longleftrightarrow>
           strict_prefix (path_segs (as_bytes c)) (path_segs (as_bytes p))"
proof -
  obtain xs d where xs: "as_bytes p = join_path xs d" "\<forall>s \<in> set xs. safe_seg s" "path_segs (as_bytes p) = xs"
    using p by (rule normal_pathE)
  obtain ys e where ys: "as_bytes c = join_path ys e" "\<forall>s \<in> set ys. safe_seg s" "path_segs (as_bytes c) = ys"
    using c by (rule normal_pathE)
  have g: "\<forall>s \<in> set xs. good_seg s" "\<forall>s \<in> set ys. good_seg s" using xs(2) ys(2) safe_good by blast+
  have pre: "(if \<not> ends_with (as_bytes c) [slash] then as_bytes c @ [slash] else as_bytes c) = join_path ys True"
    using last_join_path [OF g(2), of e] join_path_hd [of ys e]
    by (auto simp: ys(1) ends_with_single) (auto simp: join_path_def split: if_splits)
  have eq: "join_path xs d = join_path ys True \<longleftrightarrow> xs = ys \<and> (d \<or> ys = [])"
  proof
    assume e: "join_path xs d = join_path ys True"
    then have "xs = ys" using path_segs_join [OF g(1), of d] path_segs_join [OF g(2), of True] by simp
    moreover have "d \<or> xs = []" using last_join_path [OF g(1), of d] last_join_path [OF g(2), of True] e by simp
    ultimately show "xs = ys \<and> (d \<or> ys = [])" by simp
  qed (auto simp: join_path_def)
  have "is_in_collection p c \<longleftrightarrow>
      (\<exists>zs. xs = ys @ zs \<and> (zs = [] \<longrightarrow> d \<or> ys = [])) \<and> \<not> (xs = ys \<and> (d \<or> ys = []))"
    unfolding is_in_collection_def Let_def pre xs(1) starts_with_iff dir_prefix_iff [OF g] eq ..
  also have "\<dots> \<longleftrightarrow> strict_prefix ys xs" by (auto simp: strict_prefix_def prefix_def)
  finally show ?thesis unfolding xs(3) ys(3) .
qed

lemma is_in_collection_iff_witness:
  "is_in_collection demo_path2 \<lparr>fullpath = ''/dav/x'', pfxlen = Some 4\<rparr> \<longleftrightarrow>
     strict_prefix (path_segs (as_bytes \<lparr>fullpath = ''/dav/x'', pfxlen = Some 4\<rparr>))
       (path_segs (as_bytes demo_path2))"
proof (rule is_in_collection_iff)
  show "normal_path (as_bytes demo_path2)" by (rule demo_path2_normal(1))
  have "as_bytes \<lparr>fullpath = ''/dav/x'', pfxlen = Some 4\<rparr> = join_path [''x''] False"
    by (simp add: path_eval)
  moreover have "\<forall>s \<in> set [''x'']. safe_seg s" by (simp add: safe_seg_def good_seg_def)
  ultimately show "normal_path (as_bytes \<lparr>fullpath = ''/dav/x'', pfxlen = Some 4\<rparr>)"
    using normal_path_join by simp
qed

end
