(* ===== verification/Dav_Xml.thy ===== *)
theory Dav_Xml
  imports Dav_Errors
begin

text \<open>
  XML elements and the extension trait of \<^verbatim>\<open>src/xmltree_ext.rs\<close>.  The types are the public fields of
  the \<^verbatim>\<open>xmltree\<close> crate; its parser is an argument of \<open>parse2\<close>, and the writer of the \<^verbatim>\<open>xml\<close> crate is the
  list of the events it is given.
\<close>

datatype xml_elem = Elem
    (el_prefix: "bytes option") (el_ns: "bytes option") (el_namespaces: "(bytes \<times> bytes) list option")
    (el_name: bytes) (el_attributes: "(bytes \<times> bytes) list") (el_children: "xml_node list")
  and xml_node = XElement xml_elem | XText bytes | XComment bytes | XCData bytes | XInstruction bytes "bytes option"

datatype xml_parse_error = XmlMalformed | XmlOther

definition elem_new :: "bytes \<Rightarrow> xml_elem" where
  "elem_new name = Elem None None None name [] []"

text \<open>\<^verbatim>\<open>new2\<close>: splits the name at its first colon.\<close>

definition new2 :: "bytes \<Rightarrow> xml_elem" where
  "new2 n =
     (let p = takeWhile (\<lambda>c. c \<noteq> CHR '':'') n; r = dropWhile (\<lambda>c. c \<noteq> CHR '':'') n
      in if r = [] then elem_new n else Elem (Some p) None None (tl r) [] [])"

definition new3 :: "bytes \<Rightarrow> bytes \<Rightarrow> xml_elem list \<Rightarrow> xml_elem" where
  "new3 pfx name children = Elem (Some pfx) None None name [] (map XElement children)"

fun elem_with_ns :: "bytes \<Rightarrow> bytes \<Rightarrow> xml_elem \<Rightarrow> xml_elem" where
  "elem_with_ns pfx uri (Elem p n nss name attrs ch) =
     Elem p n (Some (AList.update pfx uri (case nss of None \<Rightarrow> [] | Some m \<Rightarrow> m))) name attrs ch"

definition is_text :: "xml_node \<Rightarrow> bool" where
  "is_text x = (case x of XText _ \<Rightarrow> True | _ \<Rightarrow> False)"

fun elem_text :: "bytes \<Rightarrow> xml_elem \<Rightarrow> xml_elem" where
  "elem_text t (Elem p n nss name attrs ch) =
     Elem p n nss name attrs (filter (\<lambda>x. \<not> is_text x) ch @ [XText t])"

fun push_element :: "xml_elem \<Rightarrow> xml_elem \<Rightarrow> xml_elem" where
  "push_element e (Elem p n nss name attrs ch) = Elem p n nss name attrs (ch @ [XElement e])"

fun elems_of :: "xml_node list \<Rightarrow> xml_elem list" where
  "elems_of [] = []"
| "elems_of (XElement e # ns) = e # elems_of ns"
| "elems_of (_ # ns) = elems_of ns"

definition child_elems :: "xml_elem \<Rightarrow> xml_elem list" where
  "child_elems e = elems_of (el_children e)"

definition has_child_elems :: "xml_elem \<Rightarrow> bool" where
  "has_child_elems e \<longleftrightarrow> child_elems e \<noteq> []"

text \<open>\<^verbatim>\<open>parse2\<close>: the first element of the document that \<^verbatim>\<open>Element::parse_all\<close> returns.\<close>

definition parse2 :: "(bytes \<Rightarrow> xml_parse_error + xml_node list) \<Rightarrow> bytes \<Rightarrow> dav_error + xml_elem" where
  "parse2 parse_all r =
     (case parse_all r of
        Inr nodes \<Rightarrow> (case elems_of nodes of e # _ \<Rightarrow> Inr e | [] \<Rightarrow> Inl XmlParseError)
      | Inl XmlMalformed \<Rightarrow> Inl XmlParseError
      | Inl XmlOther \<Rightarrow> Inl XmlReadError)"

text \<open>The events of \<^verbatim>\<open>write_ev\<close>.\<close>

datatype xml_event =
    EvStart "bytes option" "bytes option" bytes "(bytes \<times> bytes) list" "(bytes \<times> bytes) list"
  | EvText bytes | EvComment bytes | EvCData bytes | EvInstruction bytes "bytes option" | EvEnd bytes

fun write_ev :: "xml_elem \<Rightarrow> xml_event list"
  and write_nodes :: "xml_node list \<Rightarrow> xml_event list" where
  "write_ev (Elem p n nss name attrs ch) =
     EvStart p n name attrs (case nss of None \<Rightarrow> [] | Some m \<Rightarrow> m) # write_nodes ch @ [EvEnd name]"
| "write_nodes [] = []"
| "write_nodes (x # xs) =
     (case x of
        XElement e \<Rightarrow> write_ev e
      | XText t \<Rightarrow> [EvText t]
      | XComment c \<Rightarrow> [EvComment c]
      | XCData c \<Rightarrow> [EvCData c]
      | XInstruction n d \<Rightarrow> [EvInstruction n d]) @ write_nodes xs"

section \<open>What is written is well nested\<close>

text \<open>The names of the open elements, innermost first; an end event must name the innermost.\<close>

fun nest :: "bytes list \<Rightarrow> xml_event list \<Rightarrow> bytes list option" where
  "nest st [] = Some st"
| "nest st (EvStart _ _ name _ _ # evs) = nest (name # st) evs"
| "nest st (EvEnd name # evs) = (case st of [] \<Rightarrow> None | n # st' \<Rightarrow> if n = name then nest st' evs else None)"
| "nest st (_ # evs) = nest st evs"

lemma nest_append: "nest st (xs @ ys) = Option.bind (nest st xs) (\<lambda>st'. nest st' ys)"
  by (induction st xs rule: nest.induct) (auto split: list.splits)

lemma write_nested:
  "nest st (write_ev e) = Some st"
  "nest st (write_nodes ns) = Some st"
  by (induction e and ns arbitrary: st and st rule: write_ev_write_nodes.induct)
     (auto simp: nest_append split: xml_node.splits)

lemma parse2_error: "parse2 pa r = Inl e \<Longrightarrow> statuscode e = 400"
  by (auto simp: parse2_def split: sum.splits list.splits xml_parse_error.splits)

end
