(* ===== verification/Dav_Ls.thy ===== *)
theory Dav_Ls
  imports Dav_Path Dav_Xml
begin

text \<open>
  The lock system interface, \<^verbatim>\<open>src/ls.rs\<close>: the lock record and the operations of the
  \<^verbatim>\<open>DavLockSystem\<close> trait as a record of actions on the state of the implementation.  Instants are
  nanoseconds since the epoch and durations nanoseconds, both natural numbers.
\<close>

record dav_lock =
  lk_token :: bytes
  lk_path :: dav_path
  lk_principal :: "bytes option"
  lk_owner :: "xml_elem option"
  lk_timeout_at :: "nat option"
  lk_timeout :: "nat option"
  lk_shared :: bool
  lk_deep :: bool

record 's ls_ops =
  ls_lock :: "dav_path \<Rightarrow> bytes option \<Rightarrow> xml_elem option \<Rightarrow> nat option \<Rightarrow> bool \<Rightarrow> bool \<Rightarrow>
    ('s, dav_lock, dav_lock) act"
  ls_unlock :: "dav_path \<Rightarrow> bytes \<Rightarrow> ('s, unit, unit) act"
  ls_refresh :: "dav_path \<Rightarrow> bytes \<Rightarrow> nat option \<Rightarrow> ('s, unit, dav_lock) act"
  ls_check :: "dav_path \<Rightarrow> bytes option \<Rightarrow> bool \<Rightarrow> bool \<Rightarrow> bytes list \<Rightarrow> ('s, dav_lock, unit) act"
  ls_discover :: "dav_path \<Rightarrow> ('s, unit, dav_lock list) act"
  ls_delete :: "dav_path \<Rightarrow> ('s, unit, unit) act"

text \<open>The segments of a path below its prefix: what a lock is filed under.\<close>

definition lock_segs :: "dav_path \<Rightarrow> bytes list" where
  "lock_segs p = path_segs (as_bytes p)"

end
