(* ===== verification/Mem_Ls.thy ===== *)
theory Mem_Ls
  imports Dav_Ls Dav_Tree_Props
begin

text \<open>
  The in-memory lock system, \<^verbatim>\<open>src/memls.rs\<close>: a tree whose nodes hold the locks of one path.  The
  system clock and the UUID source are part of the state: \<open>ml_clock\<close> is what \<^verbatim>\<open>SystemTime::now()\<close>
  returns during an operation, and \<open>ml_uuid\<close> gives the successive values of \<^verbatim>\<open>Uuid::new_v4().urn()\<close>.
\<close>

section \<open>State and operations\<close>

type_synonym lock_tree = "(bytes, dav_lock list) tree"

record mem_ls =
  ml_tree :: lock_tree
  ml_clock :: nat
  ml_uuid :: "nat \<Rightarrow> bytes"
  ml_drawn :: nat

definition memls_new :: "nat \<Rightarrow> (nat \<Rightarrow> bytes) \<Rightarrow> mem_ls" where
  "memls_new now uuid = \<lparr>ml_tree = tree_new [], ml_clock = now, ml_uuid = uuid, ml_drawn = 0\<rparr>"

definition path_to_segs :: "dav_path \<Rightarrow> bool \<Rightarrow> bytes list" where
  "path_to_segs p include_root =
     (if include_root then [] # path_segs (as_bytes p) else path_segs (as_bytes p))"

definition ls_get_child :: "lock_tree \<Rightarrow> nat \<Rightarrow> bytes \<Rightarrow> fs_error + nat" where
  "ls_get_child t i seg = (if seg = [] then Inr i else get_child t i seg)"

definition lock_expired :: "nat \<Rightarrow> dav_lock \<Rightarrow> bool" where
  "lock_expired now l = (case lk_timeout_at l of None \<Rightarrow> False | Some t \<Rightarrow> t \<le> now)"

text \<open>\<^verbatim>\<open>prune_expired_at\<close>: children first, then the locks of the node, then the node when it is
  empty.  Errors of the tree operations end the call (\<^verbatim>\<open>return\<close>) or are dropped (\<^verbatim>\<open>.ok()\<close>).\<close>

fun prune_fuel :: "nat \<Rightarrow> nat \<Rightarrow> nat \<Rightarrow> lock_tree \<Rightarrow> lock_tree option"
  and prune_list_fuel :: "nat \<Rightarrow> nat \<Rightarrow> nat list \<Rightarrow> lock_tree \<Rightarrow> lock_tree option" where
  "prune_fuel 0 now i t = None"
| "prune_fuel (Suc f) now i t =
     (case get_children t i of
        Inl _ \<Rightarrow> Some t
      | Inr cs \<Rightarrow> (case prune_list_fuel f now (map snd cs) t of
          None \<Rightarrow> None
        | Some t1 \<Rightarrow>
           (case get_node_mut i (filter (\<lambda>l. \<not> lock_expired now l)) t1 of
              None \<Rightarrow> None
            | Some (Inl _, t2) \<Rightarrow> Some t2
            | Some (Inr _, t2) \<Rightarrow>
               (if get_node t2 i = Inr [] then map_option snd (delete_node i t2) else Some t2))))"
| "prune_list_fuel f now [] t = Some t"
| "prune_list_fuel f now (c # cs) t =
     (case prune_fuel f now c t of None \<Rightarrow> None | Some t1 \<Rightarrow> prune_list_fuel f now cs t1)"

definition prune_expired_locks :: "nat \<Rightarrow> lock_tree \<Rightarrow> lock_tree option" where
  "prune_expired_locks now t = prune_fuel (Suc (tr_next t)) now ROOT_ID t"

text \<open>\<open>holds\<close>: the lock is ours, its token submitted and, unless ignored, its principal the same.\<close>

definition holds :: "bytes option \<Rightarrow> bool \<Rightarrow> bytes list \<Rightarrow> dav_lock \<Rightarrow> bool" where
  "holds pr ign toks l \<longleftrightarrow> lk_token l \<in> set toks \<and> (ign \<or> pr = lk_principal l)"

text \<open>One pass over the locks of a node; \<open>anc\<close> is \<^verbatim>\<open>i < last_seg\<close>.\<close>

fun scan_locks :: "(dav_lock \<Rightarrow> bool) \<Rightarrow> bool \<Rightarrow> bool \<Rightarrow> dav_lock list \<Rightarrow> bool \<times> dav_lock option \<Rightarrow>
    dav_lock + bool \<times> dav_lock option" where
  "scan_locks mine shok anc [] (h, f) = Inr (h, f)"
| "scan_locks mine shok anc (l # ls) (h, f) =
     (if anc \<and> \<not> lk_deep l then scan_locks mine shok anc ls (h, f)
      else if mine l then scan_locks mine shok anc ls (True, f)
      else if \<not> lk_shared l then Inl l
      else scan_locks mine shok anc ls
             (h, if \<not> shok then (case f of None \<Rightarrow> Some l | Some _ \<Rightarrow> f) else f))"

fun to_path_loop :: "(dav_lock \<Rightarrow> bool) \<Rightarrow> bool \<Rightarrow> lock_tree \<Rightarrow> nat \<Rightarrow> bytes list \<Rightarrow> bool \<times> dav_lock option \<Rightarrow>
    dav_lock + bool \<times> dav_lock option" where
  "to_path_loop mine shok t i [] st = Inr st"
| "to_path_loop mine shok t i (seg # segs) st =
     (case ls_get_child t i seg of
        Inl _ \<Rightarrow> Inr st
      | Inr n \<Rightarrow> (case get_node t n of
           Inl _ \<Rightarrow> Inr st
         | Inr ls \<Rightarrow> (case scan_locks mine shok (segs \<noteq> []) ls st of
              Inl l \<Rightarrow> Inl l
            | Inr st' \<Rightarrow> to_path_loop mine shok t n segs st')))"

definition check_locks_to_path :: "lock_tree \<Rightarrow> dav_path \<Rightarrow> bytes option \<Rightarrow> bool \<Rightarrow> bytes list \<Rightarrow> bool \<Rightarrow>
    dav_lock + unit" where
  "check_locks_to_path t path pr ign toks shok =
     (case to_path_loop (holds pr ign toks) shok t ROOT_ID (path_to_segs path True) (False, None) of
        Inl l \<Rightarrow> Inl l
      | Inr (h, f) \<Rightarrow> (if \<not> h then (case f of Some l \<Rightarrow> Inl l | None \<Rightarrow> Inr ()) else Inr ()))"

text \<open>The walk of \<^verbatim>\<open>lookup_node\<close>.\<close>

fun lookup_loop :: "lock_tree \<Rightarrow> nat \<Rightarrow> bytes list \<Rightarrow> nat option" where
  "lookup_loop t i [] = Some i"
| "lookup_loop t i (seg # segs) =
     (case get_child t i seg of Inl _ \<Rightarrow> None | Inr n \<Rightarrow> lookup_loop t n segs)"

definition lookup_node :: "lock_tree \<Rightarrow> dav_path \<Rightarrow> nat option" where
  "lookup_node t path = lookup_loop t ROOT_ID (path_to_segs path False)"

text \<open>\<^verbatim>\<open>check_locks_from_node\<close>: the first lock at or below the node that is in the way.\<close>

definition blocks :: "(dav_lock \<Rightarrow> bool) \<Rightarrow> bool \<Rightarrow> dav_lock \<Rightarrow> bool" where
  "blocks mine shok l \<longleftrightarrow> (\<not> lk_shared l \<or> \<not> shok) \<and> \<not> mine l"

fun from_node_fuel :: "nat \<Rightarrow> (dav_lock \<Rightarrow> bool) \<Rightarrow> bool \<Rightarrow> lock_tree \<Rightarrow> nat \<Rightarrow> (dav_lock + unit) option"
  and from_list_fuel :: "nat \<Rightarrow> (dav_lock \<Rightarrow> bool) \<Rightarrow> bool \<Rightarrow> lock_tree \<Rightarrow> nat list \<Rightarrow> (dav_lock + unit) option" where
  "from_node_fuel 0 mine shok t i = None"
| "from_node_fuel (Suc f) mine shok t i =
     (case get_node t i of
        Inl _ \<Rightarrow> Some (Inr ())
      | Inr ls \<Rightarrow> (case find (blocks mine shok) ls of
           Some l \<Rightarrow> Some (Inl l)
         | None \<Rightarrow> (case get_children t i of
              Inl _ \<Rightarrow> Some (Inr ())
            | Inr cs \<Rightarrow> from_list_fuel f mine shok t (map snd cs))))"
| "from_list_fuel f mine shok t [] = Some (Inr ())"
| "from_list_fuel f mine shok t (c # cs) =
     (case from_node_fuel f mine shok t c of
        None \<Rightarrow> None
      | Some (Inl l) \<Rightarrow> Some (Inl l)
      | Some (Inr _) \<Rightarrow> from_list_fuel f mine shok t cs)"

definition check_locks_from_path :: "lock_tree \<Rightarrow> dav_path \<Rightarrow> bytes option \<Rightarrow> bool \<Rightarrow> bytes list \<Rightarrow> bool \<Rightarrow>
    (dav_lock + unit) option" where
  "check_locks_from_path t path pr ign toks shok =
     (case lookup_node t path of
        None \<Rightarrow> Some (Inr ())
      | Some i \<Rightarrow> from_node_fuel (Suc (tr_next t)) (holds pr ign toks) shok t i)"

text \<open>\<^verbatim>\<open>get_or_create_path_node\<close>; \<^verbatim>\<open>unwrap\<close> of a failed \<^verbatim>\<open>add_child\<close> would panic.\<close>

fun create_loop :: "nat \<Rightarrow> bytes list \<Rightarrow> lock_tree \<Rightarrow> (nat \<times> lock_tree) option" where
  "create_loop i [] t = Some (i, t)"
| "create_loop i (seg # segs) t =
     (case get_child t i seg of
        Inr n \<Rightarrow> create_loop n segs t
      | Inl _ \<Rightarrow> (case add_child i seg [] False t of
           Some (Inr n, t1) \<Rightarrow> create_loop n segs t1
         | _ \<Rightarrow> None))"

definition get_or_create_path_node :: "dav_path \<Rightarrow> lock_tree \<Rightarrow> (nat \<times> lock_tree) option" where
  "get_or_create_path_node path t = create_loop ROOT_ID (path_to_segs path False) t"

text \<open>\<^verbatim>\<open>lookup_lock\<close>: the first node on the way to the path that has a lock with the token.\<close>

fun lookup_lock_loop :: "lock_tree \<Rightarrow> bytes \<Rightarrow> nat \<Rightarrow> bytes list \<Rightarrow> nat option option" where
  "lookup_lock_loop t tok i [] = Some None"
| "lookup_lock_loop t tok i (seg # segs) =
     (case ls_get_child t i seg of
        Inl _ \<Rightarrow> Some None
      | Inr n \<Rightarrow> (case get_node t n of
           Inl _ \<Rightarrow> None
         | Inr ls \<Rightarrow> if \<exists>l \<in> set ls. lk_token l = tok then Some (Some n)
                    else lookup_lock_loop t tok n segs))"

definition lookup_lock :: "lock_tree \<Rightarrow> dav_path \<Rightarrow> bytes \<Rightarrow> nat option option" where
  "lookup_lock t path tok = lookup_lock_loop t tok ROOT_ID (path_to_segs path True)"

fun list_loop :: "lock_tree \<Rightarrow> nat \<Rightarrow> bytes list \<Rightarrow> dav_lock list" where
  "list_loop t i [] = []"
| "list_loop t i (seg # segs) =
     (case ls_get_child t i seg of
        Inl _ \<Rightarrow> []
      | Inr n \<Rightarrow> (case get_node t n of
           Inl _ \<Rightarrow> []
         | Inr ls \<Rightarrow> filter (\<lambda>l. \<not> (segs \<noteq> [] \<and> \<not> lk_deep l)) ls @ list_loop t n segs))"

definition list_locks :: "lock_tree \<Rightarrow> dav_path \<Rightarrow> dav_lock list" where
  "list_locks t path = list_loop t ROOT_ID (path_to_segs path True)"

section \<open>The operations of the trait\<close>

text \<open>Every operation but \<open>delete\<close> starts by dropping the expired locks.\<close>

definition pruned :: "(mem_ls, 'e, 'a) act \<Rightarrow> (mem_ls, 'e, 'a) act" where
  "pruned k = (\<lambda>s. case prune_expired_locks (ml_clock s) (ml_tree s) of
       None \<Rightarrow> None
     | Some t \<Rightarrow> k (s\<lparr>ml_tree := t\<rparr>))"

definition memls_lock :: "dav_path \<Rightarrow> bytes option \<Rightarrow> xml_elem option \<Rightarrow> nat option \<Rightarrow> bool \<Rightarrow> bool \<Rightarrow>
    (mem_ls, dav_lock, dav_lock) act" where
  "memls_lock path pr owner tmo shared deep = pruned (\<lambda>s.
     case check_locks_to_path (ml_tree s) path None True [] shared of
       Inl l \<Rightarrow> Some (Inl l, s)
     | Inr _ \<Rightarrow>
        (case (if deep then check_locks_from_path (ml_tree s) path None True [] shared
               else Some (Inr ())) of
           None \<Rightarrow> None
         | Some (Inl l) \<Rightarrow> Some (Inl l, s)
         | Some (Inr _) \<Rightarrow>
            (case get_or_create_path_node path (ml_tree s) of
               None \<Rightarrow> None
             | Some (n, t1) \<Rightarrow>
                let lock = \<lparr>lk_token = ml_uuid s (ml_drawn s), lk_path = path, lk_principal = pr,
                             lk_owner = owner, lk_timeout_at = map_option (\<lambda>d. ml_clock s + d) tmo,
                             lk_timeout = tmo, lk_shared = shared, lk_deep = deep\<rparr>
                in (case get_node_mut n (\<lambda>ls. ls @ [lock]) t1 of
                      Some (Inr _, t2) \<Rightarrow>
                        Some (Inr lock, s\<lparr>ml_tree := t2, ml_drawn := ml_drawn s + 1\<rparr>)
                    | _ \<Rightarrow> None))))"

text \<open>Removes the first lock with the token; \<^verbatim>\<open>position(..).unwrap()\<close> is safe after the lookup.\<close>

fun remove_token :: "bytes \<Rightarrow> dav_lock list \<Rightarrow> dav_lock list" where
  "remove_token tok [] = []"
| "remove_token tok (l # ls) = (if lk_token l = tok then ls else l # remove_token tok ls)"

fun update_token :: "bytes \<Rightarrow> (dav_lock \<Rightarrow> dav_lock) \<Rightarrow> dav_lock list \<Rightarrow> dav_lock list" where
  "update_token tok g [] = []"
| "update_token tok g (l # ls) = (if lk_token l = tok then g l # ls else l # update_token tok g ls)"

definition memls_unlock :: "dav_path \<Rightarrow> bytes \<Rightarrow> (mem_ls, unit, unit) act" where
  "memls_unlock path tok = pruned (\<lambda>s.
     case lookup_lock (ml_tree s) path tok of
       None \<Rightarrow> None
     | Some None \<Rightarrow> Some (Inl (), s)
     | Some (Some n) \<Rightarrow>
        (case get_node_mut n (remove_token tok) (ml_tree s) of
           Some (Inr _, t1) \<Rightarrow>
             (if get_node t1 n = Inr [] then
                (case delete_node n t1 of
                   None \<Rightarrow> None
                 | Some (_, t2) \<Rightarrow> Some (Inr (), s\<lparr>ml_tree := t2\<rparr>))
              else Some (Inr (), s\<lparr>ml_tree := t1\<rparr>))
         | _ \<Rightarrow> None))"

definition refresh_lock :: "nat \<Rightarrow> nat option \<Rightarrow> dav_lock \<Rightarrow> dav_lock" where
  "refresh_lock now tmo l = l\<lparr>lk_timeout := tmo, lk_timeout_at := map_option (\<lambda>d. now + d) tmo\<rparr>"

definition memls_refresh :: "dav_path \<Rightarrow> bytes \<Rightarrow> nat option \<Rightarrow> (mem_ls, unit, dav_lock) act" where
  "memls_refresh path tok tmo = pruned (\<lambda>s.
     case lookup_lock (ml_tree s) path tok of
       None \<Rightarrow> None
     | Some None \<Rightarrow> Some (Inl (), s)
     | Some (Some n) \<Rightarrow>
        (case get_node_mut n (update_token tok (refresh_lock (ml_clock s) tmo)) (ml_tree s) of
           Some (Inr _, t1) \<Rightarrow>
             (case get_node t1 n of
                Inr ls \<Rightarrow> (case find (\<lambda>l. lk_token l = tok) ls of
                    Some l \<Rightarrow> Some (Inr l, s\<lparr>ml_tree := t1\<rparr>)
                  | None \<Rightarrow> None)
              | Inl _ \<Rightarrow> None)
         | _ \<Rightarrow> None))"

definition memls_check :: "dav_path \<Rightarrow> bytes option \<Rightarrow> bool \<Rightarrow> bool \<Rightarrow> bytes list \<Rightarrow>
    (mem_ls, dav_lock, unit) act" where
  "memls_check path pr ign deep toks = pruned (\<lambda>s.
     case check_locks_to_path (ml_tree s) path pr ign toks False of
       Inl l \<Rightarrow> Some (Inl l, s)
     | Inr _ \<Rightarrow>
        (case (if deep then check_locks_from_path (ml_tree s) path pr ign toks False
               else Some (Inr ())) of
           None \<Rightarrow> None
         | Some r \<Rightarrow> Some (r, s)))"

definition memls_discover :: "dav_path \<Rightarrow> (mem_ls, unit, dav_lock list) act" where
  "memls_discover path = pruned (\<lambda>s. Some (Inr (list_locks (ml_tree s) path), s))"

definition memls_delete :: "dav_path \<Rightarrow> (mem_ls, unit, unit) act" where
  "memls_delete path = (\<lambda>s.
     case lookup_node (ml_tree s) path of
       None \<Rightarrow> Some (Inr (), s)
     | Some n \<Rightarrow> (case delete_subtree n (ml_tree s) of
          None \<Rightarrow> None
        | Some (_, t) \<Rightarrow> Some (Inr (), s\<lparr>ml_tree := t\<rparr>)))"

definition memls_ops :: "mem_ls ls_ops" where
  "memls_ops = \<lparr>ls_lock = memls_lock, ls_unlock = memls_unlock, ls_refresh = memls_refresh,
                ls_check = memls_check, ls_discover = memls_discover, ls_delete = memls_delete\<rparr>"

end
