(* ===== verification/Mem_Ls_Props.thy ===== *)
theory Mem_Ls_Props
  imports Mem_Ls
begin

text \<open>
  The abstract lock table behind \<^verbatim>\<open>src/memls.rs\<close>: the list of locks filed under each path.  Every
  operation refines an operation on that table; the empty nodes it leaves or drops do not show.
\<close>

section \<open>The lock table of a tree\<close>

type_synonym lock_table = "bytes list \<Rightarrow> dav_lock list"

definition locks_at :: "lock_tree \<Rightarrow> lock_table" where
  "locks_at t ks = (case tree_map t ks of None \<Rightarrow> [] | Some ls \<Rightarrow> ls)"

lemma locks_at_walk: "walk t ROOT_ID ks = Some i \<Longrightarrow> tr_nodes t i = Some n \<Longrightarrow> locks_at t ks = nd_data n"
  by (simp add: locks_at_def tree_map_def)

lemma locks_at_None: "walk t ROOT_ID ks = None \<Longrightarrow> locks_at t ks = []"
  by (simp add: locks_at_def tree_map_def)

lemma get_child_child: "get_child t i k = (case child t i k of None \<Rightarrow> Inl NotFound | Some c \<Rightarrow> Inr c)"
  by (simp add: get_child_def child_def split: option.splits)

lemma lookup_loop_walk: "lookup_loop t i segs = walk t i segs"
  by (induction segs arbitrary: i) (simp_all add: get_child_child split: option.splits)

lemma lookup_node_walk: "lookup_node t path = walk t ROOT_ID (lock_segs path)"
  by (simp add: lookup_node_def lookup_loop_walk path_to_segs_def lock_segs_def)

lemma lock_segs_good: "s \<in> set (lock_segs p) \<Longrightarrow> s \<noteq> []"
  using path_segs_good by (auto simp: lock_segs_def good_seg_def)

text \<open>The locks that cover a path: all those on it, and the deep ones of its ancestors.\<close>

fun cover :: "lock_table \<Rightarrow> bytes list \<Rightarrow> bytes list \<Rightarrow> dav_lock list" where
  "cover v pre [] = v pre"
| "cover v pre (s # ss) = filter lk_deep (v pre) @ cover v (pre @ [s]) ss"

definition covering :: "lock_table \<Rightarrow> dav_path \<Rightarrow> dav_lock list" where
  "covering v path = cover v [] (lock_segs path)"

lemma cover_mem:
  "l \<in> set (cover v pre ss) \<longleftrightarrow>
     (\<exists>xs. prefix xs ss \<and> l \<in> set (v (pre @ xs)) \<and> (xs \<noteq> ss \<longrightarrow> lk_deep l))"
proof (induction ss arbitrary: pre)
  case Nil
  then show ?case by auto
next
  case (Cons s ss)
  have "(\<exists>xs. prefix xs (s # ss) \<and> l \<in> set (v (pre @ xs)) \<and> (xs \<noteq> s # ss \<longrightarrow> lk_deep l)) \<longleftrightarrow>
      (l \<in> set (v pre) \<and> lk_deep l) \<or>
      (\<exists>ys. prefix ys ss \<and> l \<in> set (v (pre @ s # ys)) \<and> (ys \<noteq> ss \<longrightarrow> lk_deep l))"
    (is "?l \<longleftrightarrow> ?r")
  proof
    assume ?l
    then obtain xs where xs: "prefix xs (s # ss)" "l \<in> set (v (pre @ xs))" "xs \<noteq> s # ss \<longrightarrow> lk_deep l" by blast
    then show ?r by (cases xs) auto
  next
    assume ?r
    then show ?l
    proof
      assume "l \<in> set (v pre) \<and> lk_deep l"
      then show ?l by (intro exI [of _ "[]"]) simp
    next
      assume "\<exists>ys. prefix ys ss \<and> l \<in> set (v (pre @ s # ys)) \<and> (ys \<noteq> ss \<longrightarrow> lk_deep l)"
      then obtain ys where "prefix ys ss" "l \<in> set (v (pre @ s # ys))" "ys \<noteq> ss \<longrightarrow> lk_deep l" by blast
      then show ?l by (intro exI [of _ "s # ys"]) simp
    qed
  qed
  then show ?case using Cons.IH [of "pre @ [s]"] by auto
qed

lemma cover_none:
  assumes "\<And>xs. v (pre @ xs) = []"
  shows "cover v pre ss = []"
proof (cases "cover v pre ss")
  case (Cons l ls)
  then have "l \<in> set (cover v pre ss)" by simp
  then show ?thesis using assms unfolding cover_mem by auto
qed simp

lemma list_loop_cover:
  assumes "\<forall>s \<in> set ss. s \<noteq> []" and "walk t ROOT_ID pre = Some i" and "i \<in> dom (tr_nodes t)"
    and "\<And>i k c. child t i k = Some c \<Longrightarrow> c \<in> dom (tr_nodes t)"
  shows "list_loop t i ([] # ss) = cover (locks_at t) pre ss"
  using assms
proof (induction ss arbitrary: i pre)
  case Nil
  then obtain n where "tr_nodes t i = Some n" by blast
  with Nil show ?case by (simp add: ls_get_child_def get_node_def locks_at_walk)
next
  case (Cons s ss)
  then obtain n where n: "tr_nodes t i = Some n" by blast
  have head: "list_loop t i ([] # s # ss) = filter lk_deep (locks_at t pre) @ list_loop t i (s # ss)"
    using n Cons.prems(2) by (simp add: ls_get_child_def get_node_def locks_at_walk)
  have sne: "s \<noteq> []" using Cons.prems(1) by simp
  have "list_loop t i (s # ss) = cover (locks_at t) (pre @ [s]) ss"
  proof (cases "child t i s")
    case None
    have "walk t ROOT_ID ((pre @ [s]) @ xs) = None" for xs
      unfolding walk_append [of t ROOT_ID "pre @ [s]"] using Cons.prems(2) None by (simp add: walk_snoc)
    then have "cover (locks_at t) (pre @ [s]) ss = []" by (intro cover_none locks_at_None)
    with None sne show ?thesis by (simp add: ls_get_child_def get_child_child)
  next
    case (Some c)
    have w: "walk t ROOT_ID (pre @ [s]) = Some c" using Cons.prems(2) Some by (simp add: walk_snoc)
    have "list_loop t i (s # ss) = list_loop t c ([] # ss)"
      using Some sne by (simp add: ls_get_child_def get_child_child)
    also have "\<dots> = cover (locks_at t) (pre @ [s]) ss"
      using Cons.IH [OF _ w Cons.prems(4) [OF Some] Cons.prems(4)] Cons.prems(1) by simp
    finally show ?thesis .
  qed
  with head show ?case by simp
qed

lemma list_locks_covering:
  assumes "wf_rank t d"
  shows "list_locks t path = covering (locks_at t) path"
proof -
  obtain r where "tr_nodes t ROOT_ID = Some r" using wf_root [OF assms] by blast
  moreover have "\<And>i k c. child t i k = Some c \<Longrightarrow> c \<in> dom (tr_nodes t)" using wf_child [OF assms] by blast
  ultimately have "list_loop t ROOT_ID ([] # lock_segs path) = cover (locks_at t) [] (lock_segs path)"
    by (intro list_loop_cover) (auto dest: lock_segs_good)
  then show ?thesis by (simp add: list_locks_def covering_def path_to_segs_def lock_segs_def)
qed

section \<open>The checks\<close>

lemma scan_locks_filter:
  "scan_locks mine shok anc ls st = scan_locks mine shok False (filter (\<lambda>l. \<not> (anc \<and> \<not> lk_deep l)) ls) st"
  by (induction ls arbitrary: st) auto

lemma scan_locks_append:
  "scan_locks mine shok False (xs @ ys) st =
     (case scan_locks mine shok False xs st of Inl l \<Rightarrow> Inl l | Inr st' \<Rightarrow> scan_locks mine shok False ys st')"
  by (induction xs arbitrary: st) auto

lemma to_path_loop_scan:
  "to_path_loop mine shok t i segs st = scan_locks mine shok False (list_loop t i segs) st"
proof (induction segs arbitrary: i st)
  case Nil
  then show ?case by (cases st) simp
next
  case (Cons seg segs)
  show ?case
  proof (cases "ls_get_child t i seg")
    case (Inl e)
    then show ?thesis by (cases st) simp
  next
    case (Inr n)
    show ?thesis
    proof (cases "get_node t n")
      case (Inl e)
      with \<open>ls_get_child t i seg = Inr n\<close> show ?thesis by (cases st) simp
    next
      case (Inr ls)
      with \<open>ls_get_child t i seg = Inr n\<close> Cons.IH show ?thesis
        by (simp add: scan_locks_append scan_locks_filter [of mine shok "segs \<noteq> []"] split: sum.splits)
    qed
  qed
qed

text \<open>What the scan decides: the first foreign exclusive lock is in the way; failing that, when
  shared locks are not acceptable and none of the locks is ours, the first lock is.\<close>

definition first_bad :: "(dav_lock \<Rightarrow> bool) \<Rightarrow> bool \<Rightarrow> dav_lock list \<Rightarrow> dav_lock option" where
  "first_bad mine shok L =
     (case find (\<lambda>l. \<not> mine l \<and> \<not> lk_shared l) L of
        Some l \<Rightarrow> Some l
      | None \<Rightarrow> if shok \<or> (\<exists>l \<in> set L. mine l) then None else find (\<lambda>l. True) L)"

lemma scan_locks_spec:
  "scan_locks mine shok False L (h, f) =
     (case find (\<lambda>l. \<not> mine l \<and> \<not> lk_shared l) L of
        Some l \<Rightarrow> Inl l
      | None \<Rightarrow> Inr (h \<or> (\<exists>l \<in> set L. mine l),
                     if shok then f else case f of Some l \<Rightarrow> Some l | None \<Rightarrow> find (\<lambda>l. \<not> mine l) L))"
  by (induction L arbitrary: h f) (auto split: option.splits)

lemma find_not_mine: "\<forall>l \<in> set L. \<not> mine l \<Longrightarrow> find (\<lambda>l. \<not> mine l) L = find (\<lambda>l. True) L"
  by (cases L) auto

lemma check_locks_to_path_eq:
  "check_locks_to_path t path pr ign toks shok =
     (case first_bad (holds pr ign toks) shok (list_locks t path) of Some l \<Rightarrow> Inl l | None \<Rightarrow> Inr ())"
  by (auto simp: check_locks_to_path_def to_path_loop_scan scan_locks_spec first_bad_def list_locks_def
      find_not_mine split: option.splits)

lemma find_Some_mem: "find P xs = Some x \<Longrightarrow> x \<in> set xs \<and> P x"
  by (induction xs) (auto split: if_splits)

lemma first_bad_None:
  "first_bad mine shok L = None \<longleftrightarrow>
     (\<forall>l \<in> set L. mine l \<or> lk_shared l) \<and> (shok \<or> L = [] \<or> (\<exists>l \<in> set L. mine l))"
proof (cases "find (\<lambda>l. \<not> mine l \<and> \<not> lk_shared l) L")
  case None
  then have "\<forall>l \<in> set L. mine l \<or> lk_shared l" by (auto simp: find_None_iff)
  moreover have "find (\<lambda>l. True) L = None \<longleftrightarrow> L = []" by (cases L) simp_all
  moreover have "first_bad mine shok L =
      (if shok \<or> (\<exists>l \<in> set L. mine l) then None else find (\<lambda>l. True) L)" by (simp add: first_bad_def None)
  ultimately show ?thesis by auto
next
  case (Some l)
  from find_Some_mem [OF this] Some show ?thesis by (auto simp: first_bad_def)
qed

lemma first_bad_Some: "first_bad mine shok L = Some l \<Longrightarrow> l \<in> set L \<and> \<not> mine l"
  by (auto simp: first_bad_def split: option.splits if_splits dest!: find_Some_mem)

section \<open>Pruning\<close>

text \<open>The effect of a change to the locks in the region \<open>P\<close>: the rest of the tree keeps its shape.\<close>

definition lock_rel :: "(nat \<Rightarrow> nat) \<Rightarrow> lock_tree \<Rightarrow> lock_tree \<Rightarrow> (bytes list \<Rightarrow> bool) \<Rightarrow> bool" where
  "lock_rel d t t' P \<longleftrightarrow> wf_rank t' d \<and> tr_next t' = tr_next t \<and> dom (tr_nodes t') \<subseteq> dom (tr_nodes t) \<and>
     (\<forall>ks. \<not> P ks \<longrightarrow> walk t' ROOT_ID ks = walk t ROOT_ID ks)"

lemma lock_relD:
  assumes "lock_rel d t t' P"
  shows "wf_rank t' d" and "tr_next t' = tr_next t" and "dom (tr_nodes t') \<subseteq> dom (tr_nodes t)"
    and "\<And>ks. \<not> P ks \<Longrightarrow> walk t' ROOT_ID ks = walk t ROOT_ID ks"
  using assms by (auto simp: lock_rel_def)

lemma lock_rel_refl: "wf_rank t d \<Longrightarrow> lock_rel d t t P"
  by (simp add: lock_rel_def)

lemma lock_rel_trans:
  assumes "lock_rel d t t1 P" and "lock_rel d t1 t2 Q" and "\<And>ks. P ks \<or> Q ks \<Longrightarrow> R ks"
  shows "lock_rel d t t2 R"
proof -
  have "dom (tr_nodes t2) \<subseteq> dom (tr_nodes t)" using lock_relD(3) [OF assms(1)] lock_relD(3) [OF assms(2)] by blast
  moreover have "walk t2 ROOT_ID ks = walk t ROOT_ID ks" if "\<not> R ks" for ks
  proof -
    have "\<not> P ks" "\<not> Q ks" using assms(3) that by blast+
    then show ?thesis using lock_relD(4) [OF assms(1)] lock_relD(4) [OF assms(2)] by simp
  qed
  ultimately show ?thesis using assms(1,2) by (simp add: lock_rel_def)
qed

lemma lock_rel_card:
  assumes "lock_rel d t t' P" and "wf_rank t d"
  shows "card {j \<in> dom (tr_nodes t'). d i < d j} \<le> card {j \<in> dom (tr_nodes t). d i < d j}"
  by (intro card_mono) (use wf_finite [OF assms(2)] lock_relD(3) [OF assms(1)] in auto)

text \<open>Changing the locks of one node.\<close>

lemma update_locks:
  assumes wf: "wf_rank t d" and w: "walk t ROOT_ID ks = Some i"
  shows "\<exists>t'. get_node_mut i f t = Some (Inr (), t') \<and> lock_rel d t t' (\<lambda>_. False) \<and>
    locks_at t' = (locks_at t)(ks := f (locks_at t ks)) \<and> get_node t' i = Inr (f (locks_at t ks))"
proof -
  obtain n where n: "tr_nodes t i = Some n" using walk_root_dom [OF wf w] by blast
  then obtain t' where t': "get_node_mut i f t = Some (Inr (), t')"
    "t' = t\<lparr>tr_nodes := (tr_nodes t)(i \<mapsto> n\<lparr>nd_data := f (nd_data n)\<rparr>)\<rparr>"
    by (simp add: get_node_mut_def)
  have wk: "walk t' = walk t" by (rule walk_child_cong [OF get_node_mut_child [OF t'(1)]])
  have tm: "tree_map t ks = Some (nd_data n)" using w n by (simp add: tree_map_def)
  have "locks_at t' = (locks_at t)(ks := f (locks_at t ks))"
    using get_node_mut_map [OF wf t'(1) w] tm by (auto simp: locks_at_def fun_eq_iff)
  moreover have "wf_rank t' d" by (rule get_node_mut_wf [OF wf t'(1)])
  moreover have "get_node t' i = Inr (f (locks_at t ks))"
    using t'(2) w n by (simp add: get_node_def locks_at_walk)
  moreover have "dom (tr_nodes t') \<subseteq> dom (tr_nodes t)" using t'(2) n by auto
  moreover have "tr_next t' = tr_next t" using t'(2) by simp
  ultimately show ?thesis using t' wk by (auto simp: lock_rel_def)
qed

text \<open>Dropping an empty node changes no lock.\<close>

lemma drop_empty:
  assumes wf: "wf_rank t d" and w: "walk t ROOT_ID ks = Some i" and e: "get_node t i = Inr []"
  shows "\<exists>r t'. delete_node i t = Some (r, t') \<and> lock_rel d t t' (\<lambda>ks'. ks' = ks) \<and> locks_at t' = locks_at t"
proof -
  obtain n where n: "tr_nodes t i = Some n" using walk_root_dom [OF wf w] by blast
  show ?thesis
  proof (cases "i = ROOT_ID \<or> nd_children n \<noteq> []")
    case True
    with n wf show ?thesis by (auto simp: delete_node_def lock_rel_def)
  next
    case False
    then have "i \<noteq> ROOT_ID" "nd_children n = []" by auto
    from delete_node_ok [OF wf w this(1) n this(2)] obtain t' where t': "delete_node i t = Some (Inr n, t')"
      and c: "cut_rel d t t' (\<lambda>ks'. ks' = ks)" by blast
    have empty: "locks_at t ks = []" using w n e by (simp add: get_node_def locks_at_walk)
    have "locks_at t' = locks_at t"
      using cut_rel_map [OF c] empty by (auto simp: locks_at_def fun_eq_iff)
    moreover have "dom (tr_nodes t') \<subseteq> dom (tr_nodes t)" using c by (fastforce simp: cut_rel_def)
    ultimately show ?thesis using t' c by (auto simp: lock_rel_def cut_rel_def)
  qed
qed

text \<open>The table after pruning the region \<open>P\<close>.\<close>

definition prune_table :: "nat \<Rightarrow> (bytes list \<Rightarrow> bool) \<Rightarrow> lock_table \<Rightarrow> lock_table" where
  "prune_table now P v ks = (if P ks then filter (\<lambda>l. \<not> lock_expired now l) (v ks) else v ks)"

lemma prune_table_twice:
  "prune_table now P (prune_table now Q v) = prune_table now (\<lambda>ks. P ks \<or> Q ks) v"
  by (auto simp: prune_table_def fun_eq_iff)

lemma prune_table_cong:
  assumes "\<And>ks. v ks \<noteq> [] \<Longrightarrow> P ks = Q ks"
  shows "prune_table now P v = prune_table now Q v"
proof
  fix ks
  show "prune_table now P v ks = prune_table now Q v ks"
    using assms [of ks] by (cases "v ks = []") (auto simp: prune_table_def)
qed

lemma prune_list_ok:
  assumes one: "\<And>(t :: lock_tree) c ks. wf_rank t d \<Longrightarrow> walk t ROOT_ID ks = Some c \<Longrightarrow>
       card {j \<in> dom (tr_nodes t). d c < d j} < f \<Longrightarrow>
       \<exists>t'. prune_fuel f now c t = Some t' \<and> lock_rel d t t' (prefix ks) \<and>
            locks_at t' = prune_table now (prefix ks) (locks_at t)"
    and "wf_rank t d" and "walk t ROOT_ID ks = Some i"
    and "distinct cs" and "\<forall>c \<in> set cs. \<exists>k. walk t ROOT_ID (ks @ [k]) = Some c"
    and "card {j \<in> dom (tr_nodes t). d i < d j} \<le> f"
  shows "\<exists>t'. prune_list_fuel f now cs t = Some t' \<and> lock_rel d t t' (strict_prefix ks) \<and>
     locks_at t' = prune_table now
       (\<lambda>ks'. \<exists>k c. c \<in> set cs \<and> walk t ROOT_ID (ks @ [k]) = Some c \<and> prefix (ks @ [k]) ks') (locks_at t)"
  using assms(2-)
proof (induction cs arbitrary: t)
  case Nil
  then show ?case by (simp add: lock_rel_refl prune_table_def fun_eq_iff)
next
  case (Cons c cs)
  note wf = Cons.prems(1) and w = Cons.prems(2)
  obtain k where wc: "walk t ROOT_ID (ks @ [k]) = Some c" using Cons.prems(4) by auto
  then have k: "child t i k = Some c" using w by (simp add: walk_snoc)
  from rank_card_child [OF wf k] Cons.prems(5) have "card {j \<in> dom (tr_nodes t). d c < d j} < f" by simp
  from one [OF wf wc this] obtain t1 where t1: "prune_fuel f now c t = Some t1"
    and r1: "lock_rel d t t1 (prefix (ks @ [k]))"
    and l1: "locks_at t1 = prune_table now (prefix (ks @ [k])) (locks_at t)" by blast
  have wf1: "wf_rank t1 d" by (rule lock_relD(1) [OF r1])
  have w1: "walk t1 ROOT_ID ks = Some i" using lock_relD(4) [OF r1, of ks] w by (simp add: prefix_def)
  have other: "walk t1 ROOT_ID (ks @ [k']) = walk t ROOT_ID (ks @ [k'])" if "k' \<noteq> k" for k'
    using lock_relD(4) [OF r1, of "ks @ [k']"] that by (simp add: prefix_def)
  have same: "(walk t1 ROOT_ID (ks @ [k']) = Some c') = (walk t ROOT_ID (ks @ [k']) = Some c')"
    if "c' \<in> set cs" for k' c'
  proof (cases "k' = k")
    case True
    have cc: "c' \<noteq> c" using that Cons.prems(3) by auto
    have "walk t1 ROOT_ID (ks @ [k]) \<noteq> Some c'"
    proof
      assume a: "walk t1 ROOT_ID (ks @ [k]) = Some c'"
      obtain k2 where k2: "walk t ROOT_ID (ks @ [k2]) = Some c'"
        using bspec [OF Cons.prems(4), of c'] \<open>c' \<in> set cs\<close> by auto
      with wc cc have "k2 \<noteq> k" by auto
      with other k2 have "walk t1 ROOT_ID (ks @ [k2]) = Some c'" by simp
      from walk_unique [OF wf1 this a] \<open>k2 \<noteq> k\<close> show False by simp
    qed
    with True wc cc show ?thesis by auto
  qed (simp add: other)
  have sub: "\<forall>c' \<in> set cs. \<exists>k'. walk t1 ROOT_ID (ks @ [k']) = Some c'"
    using Cons.prems(4) same by auto
  from lock_rel_card [OF r1 wf, of i] Cons.prems(5)
  have m1: "card {j \<in> dom (tr_nodes t1). d i < d j} \<le> f" by simp
  from Cons.IH [OF wf1 w1 _ sub m1] Cons.prems(3)
  obtain t2 where t2: "prune_list_fuel f now cs t1 = Some t2" and r2: "lock_rel d t1 t2 (strict_prefix ks)"
    and l2: "locks_at t2 = prune_table now (\<lambda>ks'. \<exists>k' c'. c' \<in> set cs \<and>
        walk t1 ROOT_ID (ks @ [k']) = Some c' \<and> prefix (ks @ [k']) ks') (locks_at t1)" by auto
  have "lock_rel d t t2 (strict_prefix ks)"
    by (rule lock_rel_trans [OF r1 r2]) (blast dest: prefix_snoc_strict)
  moreover have "locks_at t2 = prune_table now (\<lambda>ks'. \<exists>k' c'. c' \<in> set (c # cs) \<and>
      walk t ROOT_ID (ks @ [k']) = Some c' \<and> prefix (ks @ [k']) ks') (locks_at t)"
  proof -
    have uniq: "walk t ROOT_ID (ks @ [k']) = Some c \<longleftrightarrow> k' = k" for k'
      using walk_unique [OF wf wc] wc by auto
    have "(\<exists>k' c'. c' \<in> set (c # cs) \<and> walk t ROOT_ID (ks @ [k']) = Some c' \<and> prefix (ks @ [k']) ks') \<longleftrightarrow>
       (\<exists>k' c'. c' \<in> set cs \<and> walk t1 ROOT_ID (ks @ [k']) = Some c' \<and> prefix (ks @ [k']) ks') \<or>
       prefix (ks @ [k]) ks'" for ks'
    proof -
      have "(\<exists>k' c'. c' \<in> set cs \<and> walk t1 ROOT_ID (ks @ [k']) = Some c' \<and> prefix (ks @ [k']) ks') \<longleftrightarrow>
          (\<exists>k' c'. c' \<in> set cs \<and> walk t ROOT_ID (ks @ [k']) = Some c' \<and> prefix (ks @ [k']) ks')"
        by (simp add: same cong: conj_cong)
      moreover have "(\<exists>k'. walk t ROOT_ID (ks @ [k']) = Some c \<and> prefix (ks @ [k']) ks') \<longleftrightarrow>
          prefix (ks @ [k]) ks'" by (simp add: uniq)
      ultimately show ?thesis by (simp add: conj_disj_distribR ex_disj_distrib disj_commute)
    qed
    then show ?thesis unfolding l2 l1 prune_table_twice by presburger
  qed
  ultimately show ?case using t1 t2 by simp
qed

lemma prune_fuel_ok:
  "wf_rank t d \<Longrightarrow> walk t ROOT_ID ks = Some i \<Longrightarrow> card {j \<in> dom (tr_nodes t). d i < d j} < f \<Longrightarrow>
   \<exists>t'. prune_fuel f now i t = Some t' \<and> lock_rel d t t' (prefix ks) \<and>
        locks_at t' = prune_table now (prefix ks) (locks_at t)"
proof (induction f arbitrary: t i ks)
  case 0
  then show ?case by simp
next
  case (Suc f)
  note wf = Suc.prems(1) and w = Suc.prems(2)
  obtain n where n: "tr_nodes t i = Some n" using walk_root_dom [OF wf w] by blast
  have chi: "child t i k = map_of (nd_children n) k" for k using n by (simp add: child_def)
  have cs: "\<forall>c \<in> set (map snd (nd_children n)). \<exists>k. walk t ROOT_ID (ks @ [k]) = Some c"
    using wf_children_child [OF wf n] w by (auto simp: walk_snoc)
  have m: "card {j \<in> dom (tr_nodes t). d i < d j} \<le> f" using Suc.prems(3) by simp
  from prune_list_ok [OF Suc.IH wf w wf_children_distinct [OF wf n] cs m]
  obtain t1 where t1: "prune_list_fuel f now (map snd (nd_children n)) t = Some t1"
    and r1: "lock_rel d t t1 (strict_prefix ks)"
    and l1: "locks_at t1 = prune_table now (\<lambda>ks'. \<exists>k c. c \<in> set (map snd (nd_children n)) \<and>
        walk t ROOT_ID (ks @ [k]) = Some c \<and> prefix (ks @ [k]) ks') (locks_at t)" by blast
  have l1': "locks_at t1 = prune_table now (strict_prefix ks) (locks_at t)"
    unfolding l1
  proof (rule prune_table_cong)
    fix ks' assume "locks_at t ks' \<noteq> []"
    then have nn: "walk t ROOT_ID ks' \<noteq> None" using locks_at_None by blast
    show "(\<exists>k c. c \<in> set (map snd (nd_children n)) \<and> walk t ROOT_ID (ks @ [k]) = Some c \<and>
        prefix (ks @ [k]) ks') = strict_prefix ks ks'"
    proof
      assume "strict_prefix ks ks'"
      then obtain k ys where ks': "ks' = ks @ k # ys"
        by (metis append_Nil2 neq_Nil_conv prefix_def strict_prefix_def)
      with nn w obtain c where c: "child t i k = Some c" by (auto simp: walk_append split: option.splits)
      moreover from this have "c \<in> set (map snd (nd_children n))"
        by (auto simp: chi dest: map_of_SomeD intro: rev_image_eqI)
      moreover have "walk t ROOT_ID (ks @ [k]) = Some c" using w c by (simp add: walk_snoc)
      ultimately show "\<exists>k c. c \<in> set (map snd (nd_children n)) \<and> walk t ROOT_ID (ks @ [k]) = Some c \<and>
          prefix (ks @ [k]) ks'" using ks' by (auto simp: prefix_def)
    qed (blast dest: prefix_snoc_strict)
  qed
  have wf1: "wf_rank t1 d" and w1: "walk t1 ROOT_ID ks = Some i"
    using lock_relD(1) [OF r1] lock_relD(4) [OF r1, of ks] w by simp_all
  from update_locks [OF wf1 w1, of "filter (\<lambda>l. \<not> lock_expired now l)"]
  obtain t2 where t2: "get_node_mut i (filter (\<lambda>l. \<not> lock_expired now l)) t1 = Some (Inr (), t2)"
    and r2: "lock_rel d t1 t2 (\<lambda>_. False)"
    and l2: "locks_at t2 = (locks_at t1)(ks := filter (\<lambda>l. \<not> lock_expired now l) (locks_at t1 ks))" by blast
  have r12: "lock_rel d t t2 (prefix ks)" by (rule lock_rel_trans [OF r1 r2]) auto
  have l12: "locks_at t2 = prune_table now (prefix ks) (locks_at t)"
    unfolding l2 l1' by (auto simp: prune_table_def fun_eq_iff strict_prefix_def)
  have wf2: "wf_rank t2 d" and w2: "walk t2 ROOT_ID ks = Some i"
    using lock_relD(1) [OF r2] lock_relD(4) [OF r2, of ks] w1 by simp_all
  show ?case
  proof (cases "get_node t2 i = Inr []")
    case True
    from drop_empty [OF wf2 w2 True] obtain r t3 where t3: "delete_node i t2 = Some (r, t3)"
      and r3: "lock_rel d t2 t3 (\<lambda>ks'. ks' = ks)" and l3: "locks_at t3 = locks_at t2" by blast
    have "lock_rel d t t3 (prefix ks)" by (rule lock_rel_trans [OF r12 r3]) auto
    with n t1 t2 t3 l3 l12 True show ?thesis by (simp add: get_children_def)
  next
    case False
    with n t1 t2 r12 l12 show ?thesis by (simp add: get_children_def)
  qed
qed

lemma prune_ok:
  assumes wf: "wf_rank t d"
  shows "\<exists>t'. prune_expired_locks now t = Some t' \<and> wf_rank t' d \<and>
    locks_at t' = (\<lambda>ks. filter (\<lambda>l. \<not> lock_expired now l) (locks_at t ks))"
proof -
  have "walk t ROOT_ID [] = Some ROOT_ID" by simp
  from prune_fuel_ok [OF wf this rank_card_bound [OF wf], of now] obtain t' where
    "prune_fuel (Suc (tr_next t)) now ROOT_ID t = Some t'" "lock_rel d t t' (prefix [])"
    "locks_at t' = prune_table now (prefix []) (locks_at t)" by blast
  then show ?thesis
    by (auto simp: prune_expired_locks_def prune_table_def fun_eq_iff dest: lock_relD(1))
qed

section \<open>Below a path\<close>

lemma from_node_ok:
  "wf_rank t d \<Longrightarrow> walk t ROOT_ID ks = Some i \<Longrightarrow> card {j \<in> dom (tr_nodes t). d i < d j} < f \<Longrightarrow>
   \<exists>r. from_node_fuel f mine shok t i = Some r \<and>
     (case r of Inl l \<Rightarrow> blocks mine shok l \<and> (\<exists>ks'. prefix ks ks' \<and> l \<in> set (locks_at t ks'))
      | Inr _ \<Rightarrow> \<forall>ks'. prefix ks ks' \<longrightarrow> (\<forall>l \<in> set (locks_at t ks'). \<not> blocks mine shok l))"
proof (induction f arbitrary: i ks)
  case 0
  then show ?case by simp
next
  case (Suc f)
  note wf = Suc.prems(1) and w = Suc.prems(2)
  obtain n where n: "tr_nodes t i = Some n" using walk_root_dom [OF wf w] by blast
  have chi: "child t i k = map_of (nd_children n) k" for k using n by (simp add: child_def)
  have here: "locks_at t ks = nd_data n" by (rule locks_at_walk [OF w n])
  have list: "\<exists>r. from_list_fuel f mine shok t cs = Some r \<and>
     (case r of Inl l \<Rightarrow> blocks mine shok l \<and> (\<exists>ks'. prefix ks ks' \<and> l \<in> set (locks_at t ks'))
      | Inr _ \<Rightarrow> \<forall>k c ks'. c \<in> set cs \<longrightarrow> child t i k = Some c \<longrightarrow> prefix (ks @ [k]) ks' \<longrightarrow>
          (\<forall>l \<in> set (locks_at t ks'). \<not> blocks mine shok l))"
    if "\<forall>c \<in> set cs. \<exists>k. child t i k = Some c" for cs
    using that
  proof (induction cs)
    case Nil
    then show ?case by simp
  next
    case (Cons c cs)
    obtain k where k: "child t i k = Some c" using Cons.prems by auto
    have wc: "walk t ROOT_ID (ks @ [k]) = Some c" using w k by (simp add: walk_snoc)
    have "card {j \<in> dom (tr_nodes t). d c < d j} < f"
      using rank_card_child [OF wf k] Suc.prems(3) by simp
    from Suc.IH [OF wf wc this] obtain r where r: "from_node_fuel f mine shok t c = Some r"
      "case r of Inl l \<Rightarrow> blocks mine shok l \<and> (\<exists>ks'. prefix (ks @ [k]) ks' \<and> l \<in> set (locks_at t ks'))
       | Inr _ \<Rightarrow> \<forall>ks'. prefix (ks @ [k]) ks' \<longrightarrow> (\<forall>l \<in> set (locks_at t ks'). \<not> blocks mine shok l)" by blast
    show ?case
    proof (cases r)
      case (Inl l)
      with r(2) have "\<exists>ks'. prefix ks ks' \<and> l \<in> set (locks_at t ks')"
        using prefix_snoc_strict unfolding strict_prefix_def by fastforce
      with Inl r show ?thesis by simp
    next
      case (Inr u)
      have uniq: "child t i k' = Some c \<Longrightarrow> k' = k" for k' by (rule wf_key_unique [OF wf _ k])
      from Cons obtain r' where r': "from_list_fuel f mine shok t cs = Some r'"
        "case r' of Inl l \<Rightarrow> blocks mine shok l \<and> (\<exists>ks'. prefix ks ks' \<and> l \<in> set (locks_at t ks'))
         | Inr _ \<Rightarrow> \<forall>k c ks'. c \<in> set cs \<longrightarrow> child t i k = Some c \<longrightarrow> prefix (ks @ [k]) ks' \<longrightarrow>
            (\<forall>l \<in> set (locks_at t ks'). \<not> blocks mine shok l)" by auto
      with Inr r uniq show ?thesis by (cases r') fastforce+
    qed
  qed
  from list [OF wf_children_child [OF wf n]] obtain r where
    r: "from_list_fuel f mine shok t (map snd (nd_children n)) = Some r"
     "case r of Inl l \<Rightarrow> blocks mine shok l \<and> (\<exists>ks'. prefix ks ks' \<and> l \<in> set (locks_at t ks'))
      | Inr _ \<Rightarrow> \<forall>k c ks'. c \<in> set (map snd (nd_children n)) \<longrightarrow> child t i k = Some c \<longrightarrow>
          prefix (ks @ [k]) ks' \<longrightarrow> (\<forall>l \<in> set (locks_at t ks'). \<not> blocks mine shok l)" by blast
  show ?case
  proof (cases "find (blocks mine shok) (nd_data n)")
    case (Some l)
    from find_Some_mem [OF this] here have "blocks mine shok l \<and> l \<in> set (locks_at t ks)" by simp
    with Some n show ?thesis by (auto simp: get_node_def)
  next
    case None
    then have none: "\<forall>l \<in> set (locks_at t ks). \<not> blocks mine shok l" using here by (simp add: find_None_iff)
    have run: "from_node_fuel (Suc f) mine shok t i = Some r"
      using None n r(1) by (simp add: get_node_def get_children_def)
    show ?thesis
    proof (cases r)
      case (Inl l)
      with run r show ?thesis by simp
    next
      case (Inr u)
      have "\<forall>l \<in> set (locks_at t ks'). \<not> blocks mine shok l" if p: "prefix ks ks'" for ks'
      proof (cases "ks' = ks \<or> walk t ROOT_ID ks' = None")
        case True
        with none locks_at_None show ?thesis by auto
      next
        case False
        with p obtain k ys where ks': "ks' = ks @ k # ys"
          by (metis append_Nil2 neq_Nil_conv prefix_def)
        with False w obtain c where c: "child t i k = Some c" by (auto simp: walk_append split: option.splits)
        moreover from this have "c \<in> set (map snd (nd_children n))"
          by (auto simp: chi dest: map_of_SomeD intro: rev_image_eqI)
        ultimately show ?thesis using r(2) Inr ks' by (auto simp: prefix_def)
      qed
      with Inr run show ?thesis by simp
    qed
  qed
qed

lemma check_from_path_ok:
  assumes wf: "wf_rank t d"
  shows "\<exists>r. check_locks_from_path t path pr ign toks shok = Some r \<and>
     (case r of Inl l \<Rightarrow> blocks (holds pr ign toks) shok l \<and>
          (\<exists>ks. prefix (lock_segs path) ks \<and> l \<in> set (locks_at t ks))
      | Inr _ \<Rightarrow> \<forall>ks. prefix (lock_segs path) ks \<longrightarrow>
          (\<forall>l \<in> set (locks_at t ks). \<not> blocks (holds pr ign toks) shok l))"
proof (cases "walk t ROOT_ID (lock_segs path)")
  case None
  have "locks_at t ks = []" if p: "prefix (lock_segs path) ks" for ks
  proof -
    obtain zs where "ks = lock_segs path @ zs" using p by (auto simp: prefix_def)
    with None have "walk t ROOT_ID ks = None" by (simp add: walk_append)
    then show ?thesis by (rule locks_at_None)
  qed
  with None show ?thesis by (auto simp: check_locks_from_path_def lookup_node_walk)
next
  case (Some i)
  with from_node_ok [OF wf Some rank_card_bound [OF wf]] show ?thesis
    by (simp add: check_locks_from_path_def lookup_node_walk)
qed

end
