(* ===== verification/Mem_Ls_Spec.thy ===== *)
theory Mem_Ls_Spec
  imports Mem_Ls_Props
begin

text \<open>
  The operations of \<^verbatim>\<open>src/memls.rs\<close> on the lock table: each one returns on a well-formed tree, keeps
  it well-formed and acts on the table of live locks as its specification says.
\<close>

section \<open>The live table\<close>

definition lock_view :: "mem_ls \<Rightarrow> lock_table" where
  "lock_view s = (\<lambda>ks. filter (\<lambda>l. \<not> lock_expired (ml_clock s) l) (locks_at (ml_tree s) ks))"

text \<open>The state with its expired locks dropped: what every pruning operation works on.\<close>

definition fresh :: "mem_ls \<Rightarrow> lock_tree \<Rightarrow> bool" where
  "fresh s t \<longleftrightarrow> wf_tree t \<and> locks_at t = lock_view s"

lemma pruned_run:
  assumes "wf_tree (ml_tree s)"
  obtains t where "fresh s t" and "prune_expired_locks (ml_clock s) (ml_tree s) = Some t"
proof -
  obtain d where "wf_rank (ml_tree s) d" using assms by (auto simp: wf_tree_def)
  from prune_ok [OF this, of "ml_clock s"] obtain t where
    "prune_expired_locks (ml_clock s) (ml_tree s) = Some t" "wf_rank t d" "locks_at t = lock_view s"
    unfolding lock_view_def by blast
  with that show ?thesis by (auto simp: fresh_def wf_tree_def)
qed

lemma lock_view_fresh: "fresh s t \<Longrightarrow> lock_view (s\<lparr>ml_tree := t\<rparr>) = lock_view s"
  by (simp add: lock_view_def fresh_def)

text \<open>A lock of the given kind can be taken: every lock that covers the path, and for a deep lock
  every lock below it, is shared, and so is the new one unless there is none.\<close>

definition free_for :: "lock_table \<Rightarrow> dav_path \<Rightarrow> bool \<Rightarrow> bool \<Rightarrow> bool" where
  "free_for v path shared deep \<longleftrightarrow>
     (\<forall>l \<in> set (covering v path). shared \<and> lk_shared l) \<and>
     (deep \<longrightarrow> (\<forall>ks. prefix (lock_segs path) ks \<longrightarrow> (\<forall>l \<in> set (v ks). shared \<and> lk_shared l)))"

text \<open>The locks a request must hold: those that cover the path, and for a deep request those at and
  below it.  Holding one of the shared covering locks is enough for all of them; below the path
  every lock must be held.\<close>

definition may_write :: "lock_table \<Rightarrow> dav_path \<Rightarrow> (dav_lock \<Rightarrow> bool) \<Rightarrow> bool \<Rightarrow> bool" where
  "may_write v path mine deep \<longleftrightarrow>
     (\<forall>l \<in> set (covering v path). mine l \<or> lk_shared l) \<and>
     (covering v path = [] \<or> (\<exists>l \<in> set (covering v path). mine l)) \<and>
     (deep \<longrightarrow> (\<forall>ks. prefix (lock_segs path) ks \<longrightarrow> (\<forall>l \<in> set (v ks). mine l)))"

lemma holds_nothing: "holds None True [] = (\<lambda>_. False)"
  by (simp add: holds_def fun_eq_iff)

lemma to_path_view:
  assumes "fresh s t"
  shows "check_locks_to_path t path pr ign toks shok =
    (case first_bad (holds pr ign toks) shok (covering (lock_view s) path) of Some l \<Rightarrow> Inl l | None \<Rightarrow> Inr ())"
proof -
  obtain d where "wf_rank t d" using assms by (auto simp: wf_tree_def fresh_def)
  with assms show ?thesis by (simp add: check_locks_to_path_eq list_locks_covering fresh_def)
qed

lemma from_path_view:
  assumes "fresh s t"
  shows "\<exists>r. check_locks_from_path t path pr ign toks shok = Some r \<and>
     (case r of Inl l \<Rightarrow> blocks (holds pr ign toks) shok l \<and>
          (\<exists>ks. prefix (lock_segs path) ks \<and> l \<in> set (lock_view s ks))
      | Inr _ \<Rightarrow> \<forall>ks. prefix (lock_segs path) ks \<longrightarrow>
          (\<forall>l \<in> set (lock_view s ks). \<not> blocks (holds pr ign toks) shok l))"
proof -
  obtain d where "wf_rank t d" using assms by (auto simp: wf_tree_def fresh_def)
  note r = check_from_path_ok [OF this, of path pr ign toks shok]
  have "locks_at t = lock_view s" using assms by (simp add: fresh_def)
  with r show ?thesis by (simp only:)
qed

section \<open>Creating the node of a path\<close>

lemma create_loop_ok:
  assumes "wf_rank t d" and "walk t ROOT_ID pre = Some i"
  shows "\<exists>n t' d'. create_loop i segs t = Some (n, t') \<and> wf_rank t' d' \<and>
    walk t' ROOT_ID (pre @ segs) = Some n \<and> locks_at t' = locks_at t"
  using assms
proof (induction segs arbitrary: i t d pre)
  case Nil
  then show ?case by auto
next
  case (Cons seg segs)
  note wf = Cons.prems(1) and w = Cons.prems(2)
  show ?case
  proof (cases "child t i seg")
    case (Some c)
    have "walk t ROOT_ID (pre @ [seg]) = Some c" using w Some by (simp add: walk_snoc)
    from Cons.IH [OF wf this] Some show ?thesis by (simp add: get_child_child)
  next
    case None
    from add_child_ok [OF wf w, of seg "[]" False] None obtain n t1 d1 where
      t1: "add_child i seg [] False t = Some (Inr n, t1)" "wf_rank t1 d1" "walk t1 ROOT_ID (pre @ [seg]) = Some n"
      and m1: "tree_map t1 = (map_cut (pre @ [seg]) (tree_map t))(pre @ [seg] \<mapsto> [])" by auto
    have "locks_at t1 ks = locks_at t ks" for ks
    proof (cases "prefix (pre @ [seg]) ks")
      case True
      then obtain zs where zs: "ks = (pre @ [seg]) @ zs" by (auto simp: prefix_def)
      have "walk t ROOT_ID ks = None"
        unfolding zs walk_append [of t ROOT_ID "pre @ [seg]"] using w None by (simp add: walk_snoc)
      then show ?thesis using True m1 by (simp add: locks_at_def tree_map_def [of t] map_cut_def)
    next
      case False
      then show ?thesis using m1 by (auto simp: locks_at_def map_cut_def)
    qed
    then have l1: "locks_at t1 = locks_at t" by blast
    from Cons.IH [OF t1(2,3)] t1(1) None l1 show ?thesis by (simp add: get_child_child)
  qed
qed

lemma get_or_create_ok:
  assumes "fresh s t"
  shows "\<exists>n t'. get_or_create_path_node path t = Some (n, t') \<and> fresh s t' \<and>
    walk t' ROOT_ID (lock_segs path) = Some n"
proof -
  obtain d where wf: "wf_rank t d" using assms by (auto simp: wf_tree_def fresh_def)
  have "walk t ROOT_ID [] = Some ROOT_ID" by simp
  from create_loop_ok [OF wf this, of "lock_segs path"] assms show ?thesis
    by (auto simp: get_or_create_path_node_def path_to_segs_def lock_segs_def fresh_def wf_tree_def)
qed

section \<open>Looking up a token\<close>

definition find_token :: "lock_table \<Rightarrow> bytes \<Rightarrow> bytes list \<Rightarrow> bytes list option" where
  "find_token v tok segs = find (\<lambda>ks. \<exists>l \<in> set (v ks). lk_token l = tok) (prefixes segs)"

lemma find_map_conv: "find P (map g xs) = map_option g (find (\<lambda>x. P (g x)) xs)"
  by (induction xs) auto

lemma lookup_lock_loop_ok:
  assumes "wf_rank t d" and "walk t ROOT_ID pre = Some i" and "\<forall>s \<in> set segs. s \<noteq> []"
  shows "lookup_lock_loop t tok i ([] # segs) =
    Some (case find (\<lambda>ks. \<exists>l \<in> set (locks_at t (pre @ ks)). lk_token l = tok) (prefixes segs) of
       None \<Rightarrow> None | Some ks \<Rightarrow> walk t ROOT_ID (pre @ ks))"
  using assms
proof (induction segs arbitrary: i pre)
  case Nil
  then obtain n where "tr_nodes t i = Some n" using walk_root_dom by blast
  with Nil show ?case by (simp add: ls_get_child_def get_node_def locks_at_walk)
next
  case (Cons s ss)
  note wf = Cons.prems(1) and w = Cons.prems(2)
  obtain n where n: "tr_nodes t i = Some n" using walk_root_dom [OF wf w] by blast
  show ?case
  proof (cases "\<exists>l \<in> set (locks_at t pre). lk_token l = tok")
    case True
    with n w show ?thesis by (simp add: ls_get_child_def get_node_def locks_at_walk)
  next
    case False
    have head: "lookup_lock_loop t tok i ([] # s # ss) = lookup_lock_loop t tok i (s # ss)"
      using False n w by (simp add: ls_get_child_def get_node_def locks_at_walk)
    have tl: "find (\<lambda>ks. \<exists>l \<in> set (locks_at t (pre @ ks)). lk_token l = tok) (prefixes (s # ss)) =
        map_option (Cons s) (find (\<lambda>ks. \<exists>l \<in> set (locks_at t ((pre @ [s]) @ ks)). lk_token l = tok) (prefixes ss))"
      using False by (simp add: find_map_conv)
    have sne: "s \<noteq> []" using Cons.prems(3) by simp
    show ?thesis
    proof (cases "child t i s")
      case (Some c)
      have wc: "walk t ROOT_ID (pre @ [s]) = Some c" using w Some by (simp add: walk_snoc)
      have "lookup_lock_loop t tok i (s # ss) = lookup_lock_loop t tok c ([] # ss)"
        using Some sne by (simp add: ls_get_child_def get_child_child)
      with head Cons.IH [OF wf wc] Cons.prems(3) show ?thesis unfolding tl by (simp split: option.splits)
    next
      case None
      have "locks_at t ((pre @ [s]) @ xs) = []" for xs
        by (rule locks_at_None, unfold walk_append [of t ROOT_ID "pre @ [s]"])
          (simp add: walk_snoc w None)
      then have "find (\<lambda>ks. \<exists>l \<in> set (locks_at t ((pre @ [s]) @ ks)). lk_token l = tok) (prefixes ss) = None"
        by (simp add: find_None_iff)
      with head None sne show ?thesis unfolding tl by (simp add: ls_get_child_def get_child_child)
    qed
  qed
qed

lemma find_token_mem: "find_token v tok segs = Some ks \<Longrightarrow> prefix ks segs \<and> (\<exists>l \<in> set (v ks). lk_token l = tok)"
  unfolding find_token_def by (auto dest!: find_Some_mem simp: in_set_prefixes)

lemma lookup_lock_ok:
  assumes "fresh s t"
  shows "case find_token (lock_view s) tok (lock_segs path) of
      None \<Rightarrow> lookup_lock t path tok = Some None
    | Some ks \<Rightarrow> \<exists>n. lookup_lock t path tok = Some (Some n) \<and> walk t ROOT_ID ks = Some n"
proof -
  obtain d where wf: "wf_rank t d" using assms by (auto simp: wf_tree_def fresh_def)
  have "lookup_lock t path tok = Some (case find_token (locks_at t) tok (lock_segs path) of
      None \<Rightarrow> None | Some ks \<Rightarrow> walk t ROOT_ID ks)"
    using lookup_lock_loop_ok [OF wf, of "[]" ROOT_ID "lock_segs path" tok, unfolded append_Nil] lock_segs_good
    by (simp add: lookup_lock_def path_to_segs_def lock_segs_def find_token_def del: lookup_lock_loop.simps)
  moreover have "locks_at t = lock_view s" using assms by (simp add: fresh_def)
  moreover have "walk t ROOT_ID ks \<noteq> None" if "find_token (locks_at t) tok (lock_segs path) = Some ks" for ks
    using find_token_mem [OF that] locks_at_None [of t ks] by (cases "walk t ROOT_ID ks") auto
  ultimately show ?thesis by (auto split: option.splits)
qed

section \<open>The operations\<close>

definition new_lock :: "mem_ls \<Rightarrow> dav_path \<Rightarrow> bytes option \<Rightarrow> xml_elem option \<Rightarrow> nat option \<Rightarrow> bool \<Rightarrow> bool \<Rightarrow> dav_lock" where
  "new_lock s path pr owner tmo shared deep =
     \<lparr>lk_token = ml_uuid s (ml_drawn s), lk_path = path, lk_principal = pr, lk_owner = owner,
      lk_timeout_at = map_option (\<lambda>d. ml_clock s + d) tmo, lk_timeout = tmo, lk_shared = shared, lk_deep = deep\<rparr>"

definition in_the_way :: "lock_table \<Rightarrow> dav_path \<Rightarrow> bool \<Rightarrow> dav_lock \<Rightarrow> bool" where
  "in_the_way v path deep l \<longleftrightarrow> l \<in> set (covering v path) \<or>
     (deep \<and> (\<exists>ks. prefix (lock_segs path) ks \<and> l \<in> set (v ks)))"

lemma memls_lock_ok:
  assumes wf: "wf_tree (ml_tree s)"
  shows "\<exists>r s'. memls_lock path pr owner tmo shared deep s = Some (r, s') \<and> wf_tree (ml_tree s') \<and>
    ml_clock s' = ml_clock s \<and> ml_uuid s' = ml_uuid s \<and>
    (if free_for (lock_view s) path shared deep
     then r = Inr (new_lock s path pr owner tmo shared deep) \<and> ml_drawn s' = ml_drawn s + 1 \<and>
          locks_at (ml_tree s') = (lock_view s)(lock_segs path :=
            lock_view s (lock_segs path) @ [new_lock s path pr owner tmo shared deep])
     else (\<exists>l. r = Inl l \<and> in_the_way (lock_view s) path deep l \<and> (\<not> shared \<or> \<not> lk_shared l)) \<and>
          ml_drawn s' = ml_drawn s \<and> locks_at (ml_tree s') = lock_view s)"
proof -
  let ?v = "lock_view s"
  obtain t where t: "fresh s t" and run: "prune_expired_locks (ml_clock s) (ml_tree s) = Some t"
    using pruned_run [OF wf] by metis
  have tw: "wf_tree t" "locks_at t = ?v" using t by (simp_all add: fresh_def)
  show ?thesis
  proof (cases "first_bad (\<lambda>_. False) shared (covering ?v path)")
    case (Some l)
    then have r: "memls_lock path pr owner tmo shared deep s = Some (Inl l, s\<lparr>ml_tree := t\<rparr>)"
      using to_path_view [OF t] by (simp add: memls_lock_def pruned_def run holds_nothing)
    have l: "l \<in> set (covering ?v path)" "\<not> shared \<or> \<not> lk_shared l"
      using first_bad_Some [OF Some] Some
      by (auto simp: first_bad_def split: option.splits if_splits dest!: find_Some_mem)
    then have "\<not> free_for ?v path shared deep" unfolding free_for_def by blast
    with r tw l show ?thesis by (auto simp: in_the_way_def)
  next
    case None
    then have up: "\<forall>l \<in> set (covering ?v path). shared \<and> lk_shared l" by (auto simp: first_bad_None)
    obtain r where r: "check_locks_from_path t path None True [] shared = Some r"
      "case r of Inl l \<Rightarrow> blocks (\<lambda>_. False) shared l \<and> (\<exists>ks. prefix (lock_segs path) ks \<and> l \<in> set (?v ks))
       | Inr _ \<Rightarrow> \<forall>ks. prefix (lock_segs path) ks \<longrightarrow> (\<forall>l \<in> set (?v ks). \<not> blocks (\<lambda>_. False) shared l)"
      using from_path_view [OF t, of path None True "[]" shared] unfolding holds_nothing by blast
    show ?thesis
    proof (cases "deep \<and> (\<exists>l. r = Inl l)")
      case True
      then obtain l where l: "r = Inl l" by blast
      then have run': "memls_lock path pr owner tmo shared deep s = Some (Inl l, s\<lparr>ml_tree := t\<rparr>)"
        using to_path_view [OF t] None r True by (simp add: memls_lock_def pruned_def run holds_nothing)
      have bad: "\<not> shared \<or> \<not> lk_shared l" "\<exists>ks. prefix (lock_segs path) ks \<and> l \<in> set (?v ks)"
        using r(2) l by (auto simp: blocks_def)
      then have "\<not> free_for ?v path shared deep" using True unfolding free_for_def by blast
      with run' tw bad True show ?thesis by (auto simp: in_the_way_def)
    next
      case False
      have free: "free_for ?v path shared deep"
        using up False r(2) by (cases r) (auto simp: free_for_def blocks_def)
      obtain n t1 where t1: "get_or_create_path_node path t = Some (n, t1)" "fresh s t1"
        "walk t1 ROOT_ID (lock_segs path) = Some n" using get_or_create_ok [OF t] by blast
      let ?l = "new_lock s path pr owner tmo shared deep"
      obtain d where "wf_rank t1 d" using t1(2) by (auto simp: fresh_def wf_tree_def)
      from update_locks [OF this t1(3), of "\<lambda>ls. ls @ [?l]"] obtain t2 where
        t2: "get_node_mut n (\<lambda>ls. ls @ [?l]) t1 = Some (Inr (), t2)" "wf_tree t2"
        "locks_at t2 = (locks_at t1)(lock_segs path := locks_at t1 (lock_segs path) @ [?l])"
        by (auto simp: wf_tree_def dest: lock_relD(1))
      have "deep \<Longrightarrow> check_locks_from_path t path None True [] shared = Some (Inr ())"
        using False r(1) by (cases r) auto
      then have "memls_lock path pr owner tmo shared deep s =
          Some (Inr ?l, s\<lparr>ml_tree := t2, ml_drawn := ml_drawn s + 1\<rparr>)"
        using to_path_view [OF t] None t1(1) t2(1)
        by (cases deep) (simp_all add: memls_lock_def pruned_def run holds_nothing new_lock_def Let_def)
      with t2(2,3) t1(2) free show ?thesis by (simp add: fresh_def)
    qed
  qed
qed

lemma first_bad_may_write:
  "may_write v path mine deep \<longleftrightarrow> first_bad mine False (covering v path) = None \<and>
     (deep \<longrightarrow> (\<forall>ks. prefix (lock_segs path) ks \<longrightarrow> (\<forall>l \<in> set (v ks). \<not> blocks mine False l)))"
  by (auto simp: may_write_def first_bad_None blocks_def)

lemma memls_check_ok:
  assumes wf: "wf_tree (ml_tree s)"
  shows "\<exists>r s'. memls_check path pr ign deep toks s = Some (r, s') \<and> wf_tree (ml_tree s') \<and>
    s' = s\<lparr>ml_tree := ml_tree s'\<rparr> \<and> locks_at (ml_tree s') = lock_view s \<and>
    (if may_write (lock_view s) path (holds pr ign toks) deep then r = Inr ()
     else \<exists>l. r = Inl l \<and> in_the_way (lock_view s) path deep l \<and> \<not> holds pr ign toks l)"
proof -
  let ?v = "lock_view s" and ?m = "holds pr ign toks"
  obtain t where t: "fresh s t" and run: "prune_expired_locks (ml_clock s) (ml_tree s) = Some t"
    using pruned_run [OF wf] by metis
  have tw: "wf_tree t" "locks_at t = ?v" using t by (simp_all add: fresh_def)
  show ?thesis
  proof (cases "first_bad ?m False (covering ?v path)")
    case (Some l)
    then have r: "memls_check path pr ign deep toks s = Some (Inl l, s\<lparr>ml_tree := t\<rparr>)"
      using to_path_view [OF t] by (simp add: memls_check_def pruned_def run)
    moreover have "\<not> may_write ?v path ?m deep" using Some by (simp add: first_bad_may_write)
    moreover have "in_the_way ?v path deep l \<and> \<not> ?m l" using first_bad_Some [OF Some] by (simp add: in_the_way_def)
    ultimately show ?thesis using tw by auto
  next
    case None
    obtain r where r: "check_locks_from_path t path pr ign toks False = Some r"
      "case r of Inl l \<Rightarrow> blocks ?m False l \<and> (\<exists>ks. prefix (lock_segs path) ks \<and> l \<in> set (?v ks))
       | Inr _ \<Rightarrow> \<forall>ks. prefix (lock_segs path) ks \<longrightarrow> (\<forall>l \<in> set (?v ks). \<not> blocks ?m False l)"
      using from_path_view [OF t] by blast
    have run': "memls_check path pr ign deep toks s = Some (if deep then r else Inr (), s\<lparr>ml_tree := t\<rparr>)"
      using to_path_view [OF t] None r(1) by (simp add: memls_check_def pruned_def run)
    show ?thesis
    proof (cases "deep \<and> (\<exists>l. r = Inl l)")
      case True
      then obtain l where l: "r = Inl l" "deep" by blast
      then have "in_the_way ?v path deep l \<and> \<not> ?m l" "\<not> may_write ?v path ?m deep"
        using r(2) by (auto simp: in_the_way_def first_bad_may_write blocks_def)
      with run' tw l show ?thesis by auto
    next
      case False
      then have "(if deep then r else Inr ()) = Inr ()" by (cases r) auto
      moreover have "may_write ?v path ?m deep"
        using None False r(2) by (cases r) (auto simp: first_bad_may_write)
      ultimately show ?thesis using run' tw by auto
    qed
  qed
qed

lemma memls_discover_ok:
  assumes wf: "wf_tree (ml_tree s)"
  shows "\<exists>s'. memls_discover path s = Some (Inr (covering (lock_view s) path), s') \<and> wf_tree (ml_tree s') \<and>
    s' = s\<lparr>ml_tree := ml_tree s'\<rparr> \<and> locks_at (ml_tree s') = lock_view s"
proof -
  obtain t where t: "fresh s t" and run: "prune_expired_locks (ml_clock s) (ml_tree s) = Some t"
    using pruned_run [OF wf] by metis
  obtain d where "wf_rank t d" using t by (auto simp: fresh_def wf_tree_def)
  with list_locks_covering [OF this] t show ?thesis by (simp add: memls_discover_def pruned_def run fresh_def)
qed

lemma memls_unlock_ok:
  assumes wf: "wf_tree (ml_tree s)"
  shows "\<exists>r s'. memls_unlock path tok s = Some (r, s') \<and> wf_tree (ml_tree s') \<and> s' = s\<lparr>ml_tree := ml_tree s'\<rparr> \<and>
    (case find_token (lock_view s) tok (lock_segs path) of
       None \<Rightarrow> r = Inl () \<and> locks_at (ml_tree s') = lock_view s
     | Some ks \<Rightarrow> r = Inr () \<and>
         locks_at (ml_tree s') = (lock_view s)(ks := remove_token tok (lock_view s ks)))"
proof -
  obtain t where t: "fresh s t" and run: "prune_expired_locks (ml_clock s) (ml_tree s) = Some t"
    using pruned_run [OF wf] by metis
  have tw: "wf_tree t" "locks_at t = lock_view s" using t by (simp_all add: fresh_def)
  obtain d where wft: "wf_rank t d" using tw by (auto simp: wf_tree_def)
  show ?thesis
  proof (cases "find_token (lock_view s) tok (lock_segs path)")
    case None
    with lookup_lock_ok [OF t, of path tok] tw show ?thesis by (simp add: memls_unlock_def pruned_def run)
  next
    case (Some ks)
    with lookup_lock_ok [OF t, of path tok] obtain n where n: "lookup_lock t path tok = Some (Some n)"
      "walk t ROOT_ID ks = Some n" by auto
    from update_locks [OF wft n(2), of "remove_token tok"] obtain t1 where
      t1: "get_node_mut n (remove_token tok) t = Some (Inr (), t1)" "lock_rel d t t1 (\<lambda>_. False)"
      "locks_at t1 = (lock_view s)(ks := remove_token tok (lock_view s ks))" using tw by auto
    have wf1: "wf_rank t1 d" and w1: "walk t1 ROOT_ID ks = Some n"
      using lock_relD(1,4) [OF t1(2)] n(2) by simp_all
    show ?thesis
    proof (cases "get_node t1 n = Inr []")
      case True
      from drop_empty [OF wf1 w1 True] obtain r t2 where t2: "delete_node n t1 = Some (r, t2)"
        "lock_rel d t1 t2 (\<lambda>ks'. ks' = ks)" "locks_at t2 = locks_at t1" by blast
      then have "wf_tree t2" by (auto simp: wf_tree_def dest: lock_relD(1))
      with True Some n(1) t1(1,3) t2 show ?thesis by (simp add: memls_unlock_def pruned_def run)
    next
      case False
      have "wf_tree t1" using wf1 by (auto simp: wf_tree_def)
      with False Some n(1) t1(1,3) show ?thesis by (simp add: memls_unlock_def pruned_def run)
    qed
  qed
qed

lemma find_update_token:
  assumes "\<exists>l \<in> set ls. lk_token l = tok" and "\<And>l. lk_token (g l) = lk_token l"
  shows "find (\<lambda>l. lk_token l = tok) (update_token tok g ls) = map_option g (find (\<lambda>l. lk_token l = tok) ls)"
  using assms(1) by (induction ls) (auto simp: assms(2))

lemma memls_refresh_ok:
  assumes wf: "wf_tree (ml_tree s)"
  shows "\<exists>r s'. memls_refresh path tok tmo s = Some (r, s') \<and> wf_tree (ml_tree s') \<and> s' = s\<lparr>ml_tree := ml_tree s'\<rparr> \<and>
    (case find_token (lock_view s) tok (lock_segs path) of
       None \<Rightarrow> r = Inl () \<and> locks_at (ml_tree s') = lock_view s
     | Some ks \<Rightarrow> (\<exists>l \<in> set (lock_view s ks). lk_token l = tok \<and> r = Inr (refresh_lock (ml_clock s) tmo l)) \<and>
         locks_at (ml_tree s') = (lock_view s)
           (ks := update_token tok (refresh_lock (ml_clock s) tmo) (lock_view s ks)))"
proof -
  let ?g = "refresh_lock (ml_clock s) tmo"
  obtain t where t: "fresh s t" and run: "prune_expired_locks (ml_clock s) (ml_tree s) = Some t"
    using pruned_run [OF wf] by metis
  have tw: "wf_tree t" "locks_at t = lock_view s" using t by (simp_all add: fresh_def)
  obtain d where wft: "wf_rank t d" using tw by (auto simp: wf_tree_def)
  show ?thesis
  proof (cases "find_token (lock_view s) tok (lock_segs path)")
    case None
    with lookup_lock_ok [OF t, of path tok] tw show ?thesis by (simp add: memls_refresh_def pruned_def run)
  next
    case (Some ks)
    with lookup_lock_ok [OF t, of path tok] obtain n where n: "lookup_lock t path tok = Some (Some n)"
      "walk t ROOT_ID ks = Some n" by auto
    from update_locks [OF wft n(2), of "update_token tok ?g"] obtain t1 where
      t1: "get_node_mut n (update_token tok ?g) t = Some (Inr (), t1)" "wf_tree t1"
      "locks_at t1 = (lock_view s)(ks := update_token tok ?g (lock_view s ks))"
      "get_node t1 n = Inr (update_token tok ?g (lock_view s ks))"
      using tw by (auto simp: wf_tree_def dest: lock_relD(1))
    from find_token_mem [OF Some] have ex: "\<exists>l \<in> set (lock_view s ks). lk_token l = tok" by blast
    then obtain l where l: "find (\<lambda>l. lk_token l = tok) (lock_view s ks) = Some l"
      by (cases "find (\<lambda>l. lk_token l = tok) (lock_view s ks)") (auto simp: find_None_iff)
    from find_Some_mem [OF l] have lm: "l \<in> set (lock_view s ks)" "lk_token l = tok" by simp_all
    have "find (\<lambda>l. lk_token l = tok) (update_token tok ?g (lock_view s ks)) = Some (?g l)"
      using find_update_token [OF ex, of ?g] l by (simp add: refresh_lock_def)
    with Some n(1) t1 lm show ?thesis by (auto simp: memls_refresh_def pruned_def run)
  qed
qed

lemma memls_delete_ok:
  assumes wf: "wf_tree (ml_tree s)"
  shows "\<exists>s'. memls_delete path s = Some (Inr (), s') \<and> wf_tree (ml_tree s') \<and> s' = s\<lparr>ml_tree := ml_tree s'\<rparr> \<and>
    locks_at (ml_tree s') = (\<lambda>ks. if prefix (lock_segs path) ks \<and> ks \<noteq> [] then [] else locks_at (ml_tree s) ks)"
proof -
  obtain d where wft: "wf_rank (ml_tree s) d" using wf by (auto simp: wf_tree_def)
  show ?thesis
  proof (cases "walk (ml_tree s) ROOT_ID (lock_segs path)")
    case None
    have "locks_at (ml_tree s) ks = []" if "prefix (lock_segs path) ks" for ks
    proof -
      from that obtain zs where "ks = lock_segs path @ zs" by (auto simp: prefix_def)
      with None show ?thesis by (intro locks_at_None) (simp add: walk_append)
    qed
    with None wf show ?thesis by (auto simp: memls_delete_def lookup_node_walk fun_eq_iff)
  next
    case (Some n)
    from delete_subtree_ok [OF wft Some] obtain t where t: "delete_subtree n (ml_tree s) = Some (Inr (), t)"
      "cut_rel d (ml_tree s) t (\<lambda>ks. prefix (lock_segs path) ks \<and> ks \<noteq> [])" by blast
    have "wf_tree t" using t(2) by (auto simp: cut_rel_def wf_tree_def)
    moreover have "locks_at t = (\<lambda>ks. if prefix (lock_segs path) ks \<and> ks \<noteq> [] then [] else locks_at (ml_tree s) ks)"
      using cut_rel_map [OF t(2)] by (auto simp: locks_at_def fun_eq_iff)
    ultimately show ?thesis using Some t(1) by (simp add: memls_delete_def lookup_node_walk)
  qed
qed

end
