(* ===== verification/Mem_Ls_Safe.thy ===== *)
theory Mem_Ls_Safe
  imports Mem_Ls_Spec
begin

text \<open>
  The promise of the lock system, \<^verbatim>\<open>src/ls.rs\<close> and \<^verbatim>\<open>src/memls.rs\<close>: an exclusive lock excludes every
  other lock on what it covers, in every state that any sequence of operations and of clock ticks
  can reach; and a request that does not hold the locks in force is told so.  The contract the
  handlers rely on is the locale \<open>lock_contract\<close>, which the in-memory lock system fulfils.
\<close>

section \<open>Exclusion on the table\<close>

definition no_conflict :: "lock_table \<Rightarrow> bool" where
  "no_conflict v \<longleftrightarrow>
     (\<forall>ks. \<forall>l \<in> set (v ks). \<not> lk_shared l \<longrightarrow> length (v ks) = 1) \<and>
     (\<forall>ks1 ks2. strict_prefix ks1 ks2 \<longrightarrow> (\<forall>l1 \<in> set (v ks1). \<forall>l2 \<in> set (v ks2).
         lk_deep l1 \<longrightarrow> lk_shared l1 \<and> lk_shared l2))"

lemma no_conflict_shrink:
  assumes "no_conflict v"
    and "\<And>ks. set (v' ks) \<subseteq> set (v ks)" and "\<And>ks. length (v' ks) \<le> length (v ks)"
  shows "no_conflict v'"
  unfolding no_conflict_def
proof (intro conjI allI ballI impI)
  fix ks l assume l: "l \<in> set (v' ks)" "\<not> lk_shared l"
  then have "length (v ks) = 1" using assms(1,2) by (auto simp: no_conflict_def)
  moreover have "length (v' ks) \<noteq> 0" using l by auto
  ultimately show "length (v' ks) = 1" using assms(3) [of ks] by linarith
next
  fix ks1 ks2 l1 l2
  assume "strict_prefix ks1 ks2" "l1 \<in> set (v' ks1)" "l2 \<in> set (v' ks2)" "lk_deep l1"
  then show "lk_shared l1" "lk_shared l2" using assms(1,2) unfolding no_conflict_def by blast+
qed

lemma covering_mem:
  "l \<in> set (covering v path) \<longleftrightarrow>
     (\<exists>ks. prefix ks (lock_segs path) \<and> l \<in> set (v ks) \<and> (ks \<noteq> lock_segs path \<longrightarrow> lk_deep l))"
  by (simp add: covering_def cover_mem)

lemma no_conflict_add:
  assumes nc: "no_conflict v" and free: "free_for v path (lk_shared l) (lk_deep l)"
  shows "no_conflict (v(lock_segs path := v (lock_segs path) @ [l]))"
proof -
  let ?p = "lock_segs path"
  have here: "lk_shared l \<and> lk_shared l'" if "l' \<in> set (v ?p)" for l'
  proof -
    have "l' \<in> set (covering v path)" using that unfolding covering_mem by blast
    with free show ?thesis unfolding free_for_def by blast
  qed
  have above: "lk_shared l \<and> lk_shared l'" if "strict_prefix ks ?p" "l' \<in> set (v ks)" "lk_deep l'" for ks l'
  proof -
    have "l' \<in> set (covering v path)" using that unfolding covering_mem strict_prefix_def by blast
    with free show ?thesis unfolding free_for_def by blast
  qed
  have below: "lk_shared l \<and> lk_shared l'" if "lk_deep l" "prefix ?p ks" "l' \<in> set (v ks)" for ks l'
    using free that unfolding free_for_def by blast
  have len: "length ((v(?p := v ?p @ [l])) ks) = 1"
    if m: "l' \<in> set ((v(?p := v ?p @ [l])) ks)" "\<not> lk_shared l'" for ks l'
  proof (cases "ks = ?p")
    case False
    with m nc show ?thesis by (auto simp: no_conflict_def)
  next
    case True
    with m have "l' \<in> set (v ?p) \<or> l' = l" by auto
    have "v ?p = []"
    proof (rule ccontr)
      assume "v ?p \<noteq> []"
      then have "hd (v ?p) \<in> set (v ?p)" by simp
      then have "lk_shared l" using here by blast
      with \<open>l' \<in> set (v ?p) \<or> l' = l\<close> here m(2) show False by blast
    qed
    with True show ?thesis by simp
  qed
  have pair: "lk_shared l1 \<and> lk_shared l2"
    if sp: "strict_prefix ks1 ks2" and m1: "l1 \<in> set ((v(?p := v ?p @ [l])) ks1)"
      and m2: "l2 \<in> set ((v(?p := v ?p @ [l])) ks2)" and dp: "lk_deep l1" for ks1 ks2 l1 l2
  proof -
    have old: "l1 \<in> set (v ks1) \<Longrightarrow> l2 \<in> set (v ks2) \<Longrightarrow> lk_shared l1 \<and> lk_shared l2"
      using nc sp dp unfolding no_conflict_def by blast
    from m1 have c1: "l1 \<in> set (v ks1) \<or> (l1 = l \<and> ks1 = ?p)" by (auto split: if_splits)
    from m2 have c2: "l2 \<in> set (v ks2) \<or> (l2 = l \<and> ks2 = ?p)" by (auto split: if_splits)
    from sp have ne: "ks1 \<noteq> ks2" by (simp add: strict_prefix_def)
    from c1 c2 show ?thesis
    proof (elim disjE conjE)
      assume "l1 = l" "ks1 = ?p" "l2 \<in> set (v ks2)"
      with below dp sp show ?thesis by (auto simp: strict_prefix_def)
    next
      assume "l1 \<in> set (v ks1)" "l2 = l" "ks2 = ?p"
      with above dp sp show ?thesis by blast
    qed (use old ne in auto)
  qed
  show ?thesis unfolding no_conflict_def using len pair by blast
qed

lemma no_conflict_covering:
  assumes nc: "no_conflict v" and l: "l \<in> set (covering v path)" "\<not> lk_shared l"
  shows "set (covering v path) = {l}"
proof -
  from l(1) obtain ks where ks: "prefix ks (lock_segs path)" "l \<in> set (v ks)"
    "ks \<noteq> lock_segs path \<longrightarrow> lk_deep l" unfolding covering_mem by blast
  have one: "length (v ks) = 1" using nc ks(2) l(2) unfolding no_conflict_def by blast
  have "l' = l" if l': "l' \<in> set (covering v path)" for l'
  proof -
    from l' obtain ks' where ks': "prefix ks' (lock_segs path)" "l' \<in> set (v ks')"
      "ks' \<noteq> lock_segs path \<longrightarrow> lk_deep l'" unfolding covering_mem by blast
    consider "ks' = ks" | "strict_prefix ks ks'" | "strict_prefix ks' ks"
      using prefix_same_cases [OF ks(1) ks'(1)] by (auto simp: strict_prefix_def)
    then show ?thesis
    proof cases
      case 1
      with one ks(2) ks'(2) show ?thesis by (cases "v ks") auto
    next
      case 2
      then have "ks \<noteq> lock_segs path" using ks'(1) by (auto simp: strict_prefix_def)
      with ks(3) nc 2 ks(2) ks'(2) have "lk_shared l" unfolding no_conflict_def by blast
      with l(2) show ?thesis by simp
    next
      case 3
      then have "ks' \<noteq> lock_segs path" using ks(1) by (auto simp: strict_prefix_def)
      with ks'(3) nc 3 ks(2) ks'(2) have "lk_shared l" unfolding no_conflict_def by blast
      with l(2) show ?thesis by simp
    qed
  qed
  with l(1) show ?thesis by blast
qed

section \<open>Reachable states\<close>

inductive ml_step :: "mem_ls \<Rightarrow> mem_ls \<Rightarrow> bool" where
  tick: "ml_clock s \<le> now \<Longrightarrow> ml_step s (s\<lparr>ml_clock := now\<rparr>)"
| do_lock: "memls_lock path pr owner tmo shared deep s = Some (r, s') \<Longrightarrow> ml_step s s'"
| do_unlock: "memls_unlock path tok s = Some (r', s') \<Longrightarrow> ml_step s s'"
| do_refresh: "memls_refresh path tok tmo s = Some (r'', s') \<Longrightarrow> ml_step s s'"
| do_check: "memls_check path pr ign deep toks s = Some (rc, s') \<Longrightarrow> ml_step s s'"
| do_discover: "memls_discover path s = Some (rd, s') \<Longrightarrow> ml_step s s'"
| do_delete: "memls_delete path s = Some (r', s') \<Longrightarrow> ml_step s s'"

inductive ml_reach :: "(nat \<Rightarrow> bytes) \<Rightarrow> mem_ls \<Rightarrow> bool" for uuid where
  reach_init: "ml_reach uuid (memls_new now uuid)"
| reach_more: "ml_reach uuid s \<Longrightarrow> ml_step s s' \<Longrightarrow> ml_reach uuid s'"

text \<open>The invariant: a well-formed tree, no conflicting locks, each lock filed under its own path, and
  tokens that were drawn from the UUID source and name one lock each.\<close>

definition filed :: "lock_table \<Rightarrow> bool" where
  "filed v \<longleftrightarrow> (\<forall>ks. \<forall>l \<in> set (v ks). lock_segs (lk_path l) = ks)"

definition unique_tokens :: "lock_table \<Rightarrow> bytes set \<Rightarrow> bool" where
  "unique_tokens v toks \<longleftrightarrow> (\<forall>ks. distinct (map lk_token (v ks))) \<and>
     (\<forall>ks1 ks2. \<forall>l1 \<in> set (v ks1). \<forall>l2 \<in> set (v ks2). lk_token l1 = lk_token l2 \<longrightarrow> ks1 = ks2) \<and>
     (\<forall>ks. \<forall>l \<in> set (v ks). lk_token l \<in> toks)"

definition ml_inv :: "mem_ls \<Rightarrow> bool" where
  "ml_inv s \<longleftrightarrow> wf_tree (ml_tree s) \<and> no_conflict (locks_at (ml_tree s)) \<and> filed (locks_at (ml_tree s)) \<and>
     unique_tokens (locks_at (ml_tree s)) (ml_uuid s ` {..<ml_drawn s})"

text \<open>A table each of whose lists is a sublist, up to changes of the time-outs.\<close>

definition lock_key :: "dav_lock \<Rightarrow> bytes \<times> bytes list \<times> bool \<times> bool" where
  "lock_key l = (lk_token l, lock_segs (lk_path l), lk_shared l, lk_deep l)"

definition thinned :: "lock_table \<Rightarrow> lock_table \<Rightarrow> bool" where
  "thinned v v' \<longleftrightarrow> (\<forall>ks. subseq (map lock_key (v' ks)) (map lock_key (v ks)))"

lemma subseq_set: "subseq xs ys \<Longrightarrow> set xs \<subseteq> set ys"
  by (induction rule: list_emb.induct) auto

lemma subseq_distinct: "subseq xs ys \<Longrightarrow> distinct ys \<Longrightarrow> distinct xs"
proof (induction rule: list_emb.induct)
  case (list_emb_Cons2 x y xs ys)
  then show ?case using subseq_set [of xs ys] by auto
qed auto

lemma thinned_refl: "thinned v v"
  by (simp add: thinned_def)

lemma thinned_trans: "thinned v v1 \<Longrightarrow> thinned v1 v2 \<Longrightarrow> thinned v v2"
  unfolding thinned_def by (meson subseq_order.order_trans)

lemma thinned_filter: "thinned v (\<lambda>ks. filter P (v ks))"
  by (simp add: thinned_def subseq_map)

lemma thinned_upd: "subseq (map lock_key xs) (map lock_key (v ks)) \<Longrightarrow> thinned v (v(ks := xs))"
  by (simp add: thinned_def)

lemma thinned_cut: "thinned v (\<lambda>ks. if P ks then [] else v ks)"
  by (simp add: thinned_def)

lemma subseq_remove_token: "subseq (remove_token tok ls) ls"
  by (induction ls) auto

lemma map_key_update:
  assumes "\<And>l. lock_key (g l) = lock_key l"
  shows "map lock_key (update_token tok g ls) = map lock_key ls"
  by (induction ls) (simp_all add: assms)

lemma refresh_key: "lock_key (refresh_lock now tmo l) = lock_key l"
  by (simp add: lock_key_def refresh_lock_def)

lemma thinned_mem:
  assumes "thinned v v'" and "l' \<in> set (v' ks)"
  shows "\<exists>l \<in> set (v ks). lock_key l = lock_key l'"
proof -
  have "lock_key l' \<in> set (map lock_key (v' ks))" using assms(2) by simp
  then have "lock_key l' \<in> set (map lock_key (v ks))"
    using assms(1) unfolding thinned_def by (meson subseq_set subsetD)
  then show ?thesis by (metis imageE list.set_map)
qed

lemma thinned_tokens: "thinned v v' \<Longrightarrow> subseq (map lk_token (v' ks)) (map lk_token (v ks))"
proof -
  assume "thinned v v'"
  then have "subseq (map fst (map lock_key (v' ks))) (map fst (map lock_key (v ks)))"
    unfolding thinned_def by (blast intro: subseq_map)
  then show ?thesis by (simp add: lock_key_def comp_def)
qed

lemma thinned_no_conflict:
  assumes nc: "no_conflict v" and th: "thinned v v'"
  shows "no_conflict v'"
  unfolding no_conflict_def
proof (intro conjI allI ballI impI)
  fix ks l assume l: "l \<in> set (v' ks)" "\<not> lk_shared l"
  from thinned_mem [OF th l(1)] obtain m where "m \<in> set (v ks)" "\<not> lk_shared m"
    using l(2) by (auto simp: lock_key_def)
  then have "length (v ks) = 1" using nc unfolding no_conflict_def by blast
  moreover have "length (v' ks) \<le> length (v ks)"
    using th list_emb_length [of _ "map lock_key (v' ks)" "map lock_key (v ks)"]
    unfolding thinned_def by (metis length_map)
  moreover have "length (v' ks) \<noteq> 0" using l by auto
  ultimately show "length (v' ks) = 1" by linarith
next
  fix ks1 ks2 l1 l2
  assume a: "strict_prefix ks1 ks2" "l1 \<in> set (v' ks1)" "l2 \<in> set (v' ks2)" "lk_deep l1"
  from thinned_mem [OF th a(2)] obtain m1 where m1: "m1 \<in> set (v ks1)" "lock_key m1 = lock_key l1" by blast
  from thinned_mem [OF th a(3)] obtain m2 where m2: "m2 \<in> set (v ks2)" "lock_key m2 = lock_key l2" by blast
  have "lk_deep m1" using m1 a(4) by (simp add: lock_key_def)
  then have "lk_shared m1 \<and> lk_shared m2" using nc a(1) m1 m2 unfolding no_conflict_def by blast
  then show "lk_shared l1" "lk_shared l2" using m1 m2 by (simp_all add: lock_key_def)
qed

lemma thinned_filed: "filed v \<Longrightarrow> thinned v v' \<Longrightarrow> filed v'"
  unfolding filed_def lock_key_def using thinned_mem unfolding lock_key_def by (metis Pair_inject)

lemma thinned_unique:
  assumes u: "unique_tokens v toks" and th: "thinned v v'"
  shows "unique_tokens v' toks"
  unfolding unique_tokens_def
proof (intro conjI allI ballI impI)
  fix ks show "distinct (map lk_token (v' ks))"
    using thinned_tokens [OF th, of ks] u unfolding unique_tokens_def by (meson subseq_distinct)
next
  fix ks1 ks2 l1 l2
  assume a: "l1 \<in> set (v' ks1)" "l2 \<in> set (v' ks2)" "lk_token l1 = lk_token l2"
  from thinned_mem [OF th a(1)] thinned_mem [OF th a(2)] a(3) obtain m1 m2 where
    "m1 \<in> set (v ks1)" "m2 \<in> set (v ks2)" "lk_token m1 = lk_token m2" by (auto simp: lock_key_def)
  with u show "ks1 = ks2" unfolding unique_tokens_def by blast
next
  fix ks l assume "l \<in> set (v' ks)"
  from thinned_mem [OF th this] u show "lk_token l \<in> toks"
    unfolding unique_tokens_def lock_key_def by (metis Pair_inject)
qed

lemma ml_inv_thinned:
  assumes "ml_inv s" and "wf_tree (ml_tree s')" and "thinned (locks_at (ml_tree s)) (locks_at (ml_tree s'))"
    and "ml_uuid s' = ml_uuid s" and "ml_drawn s' = ml_drawn s"
  shows "ml_inv s'"
  using assms thinned_no_conflict thinned_filed thinned_unique unfolding ml_inv_def by metis

lemma thinned_view: "thinned (locks_at (ml_tree s)) (lock_view s)"
  unfolding lock_view_def by (rule thinned_filter)

lemma view_facts:
  assumes "ml_inv s"
  shows "no_conflict (lock_view s)" and "filed (lock_view s)"
    and "unique_tokens (lock_view s) (ml_uuid s ` {..<ml_drawn s})"
  using assms thinned_no_conflict [OF _ thinned_view] thinned_filed [OF _ thinned_view]
    thinned_unique [OF _ thinned_view] unfolding ml_inv_def by blast+

lemma lock_inv:
  assumes inv: "ml_inv s" and inj: "inj (ml_uuid s)"
    and run: "memls_lock path pr owner tmo shared deep s = Some (r, s')"
  shows "ml_inv s'"
proof (cases "free_for (lock_view s) path shared deep")
  case False
  from inv have "wf_tree (ml_tree s)" by (simp add: ml_inv_def)
  from memls_lock_ok [OF this, of path pr owner tmo shared deep] run False
  have "wf_tree (ml_tree s') \<and> ml_uuid s' = ml_uuid s \<and> ml_drawn s' = ml_drawn s \<and>
      locks_at (ml_tree s') = lock_view s" by auto
  then show ?thesis using ml_inv_thinned [OF inv] thinned_view by simp
next
  case True
  let ?l = "new_lock s path pr owner tmo shared deep" and ?v = "lock_view s"
  from inv have "wf_tree (ml_tree s)" by (simp add: ml_inv_def)
  from memls_lock_ok [OF this, of path pr owner tmo shared deep] run True
  have s': "wf_tree (ml_tree s')" "ml_uuid s' = ml_uuid s" "ml_drawn s' = ml_drawn s + 1"
      "locks_at (ml_tree s') = ?v(lock_segs path := ?v (lock_segs path) @ [?l])" by auto
  note v = view_facts [OF inv]
  have fl: "lk_shared ?l = shared" "lk_deep ?l = deep" "lk_path ?l = path"
    "lk_token ?l = ml_uuid s (ml_drawn s)" by (simp_all add: new_lock_def)
  have new: "lk_token m \<noteq> lk_token ?l" if "m \<in> set (?v ks)" for m ks
  proof -
    have "lk_token m \<in> ml_uuid s ` {..<ml_drawn s}" using v(3) that unfolding unique_tokens_def by blast
    then show ?thesis using inj fl(4) by (auto dest: injD)
  qed
  have "no_conflict (locks_at (ml_tree s'))"
    unfolding s'(4) using no_conflict_add [OF v(1), of path ?l] True fl by simp
  moreover have "filed (locks_at (ml_tree s'))" unfolding s'(4) using v(2) fl by (auto simp: filed_def)
  moreover have "unique_tokens (locks_at (ml_tree s')) (ml_uuid s' ` {..<ml_drawn s'})"
    unfolding unique_tokens_def
  proof (intro conjI allI ballI impI)
    fix ks show "distinct (map lk_token (locks_at (ml_tree s') ks))"
      using v(3) new unfolding s'(4) unique_tokens_def by (auto; metis)
  next
    fix ks1 ks2 l1 l2
    assume "l1 \<in> set (locks_at (ml_tree s') ks1)" "l2 \<in> set (locks_at (ml_tree s') ks2)"
      and eq: "lk_token l1 = lk_token l2"
    then have c: "l1 \<in> set (?v ks1) \<or> (l1 = ?l \<and> ks1 = lock_segs path)"
      "l2 \<in> set (?v ks2) \<or> (l2 = ?l \<and> ks2 = lock_segs path)" unfolding s'(4) by (auto split: if_splits)
    show "ks1 = ks2"
    proof (cases "l1 = ?l \<or> l2 = ?l")
      case True
      then have "l1 = ?l \<and> l2 = ?l \<or> l1 \<in> set (?v ks1) \<and> l2 = ?l \<or> l1 = ?l \<and> l2 \<in> set (?v ks2)" using c by blast
      then show ?thesis using c new eq by metis
    next
      case False
      then have "l1 \<in> set (?v ks1)" "l2 \<in> set (?v ks2)" using c by blast+
      with v(3) eq show ?thesis unfolding unique_tokens_def by blast
    qed
  next
    fix ks l assume "l \<in> set (locks_at (ml_tree s') ks)"
    then have "l \<in> set (?v ks) \<or> l = ?l" unfolding s'(4) by (auto split: if_splits)
    then show "lk_token l \<in> ml_uuid s' ` {..<ml_drawn s'}"
    proof
      assume "l \<in> set (?v ks)"
      with v(3) have "lk_token l \<in> ml_uuid s ` {..<ml_drawn s}" unfolding unique_tokens_def by blast
      then show ?thesis using s'(2,3) by auto
    qed (simp add: fl s'(2,3))
  qed
  ultimately show ?thesis using s'(1) by (simp add: ml_inv_def)
qed

lemma ml_step_inv:
  assumes st: "ml_step s s'" and inv: "ml_inv s" and inj: "inj (ml_uuid s)"
  shows "ml_inv s' \<and> ml_uuid s' = ml_uuid s"
proof -
  from inv have wf: "wf_tree (ml_tree s)" by (simp add: ml_inv_def)
  note thin = ml_inv_thinned [OF inv]
  from st show ?thesis
  proof cases
    case (tick now)
    with inv show ?thesis by (simp add: ml_inv_def)
  next
    case (do_lock path pr owner tmo shared deep r)
    have "ml_uuid s' = ml_uuid s" using memls_lock_ok [OF wf, of path pr owner tmo shared deep] do_lock by auto
    with lock_inv [OF inv inj do_lock] show ?thesis by blast
  next
    case (do_unlock path tok r)
    from memls_unlock_ok [OF wf, of path tok] do_unlock have
      u: "wf_tree (ml_tree s')" "s' = s\<lparr>ml_tree := ml_tree s'\<rparr>"
      "case find_token (lock_view s) tok (lock_segs path) of
         None \<Rightarrow> locks_at (ml_tree s') = lock_view s
       | Some ks \<Rightarrow> locks_at (ml_tree s') = (lock_view s)(ks := remove_token tok (lock_view s ks))"
      by (auto split: option.splits)
    have "thinned (lock_view s) (locks_at (ml_tree s'))"
      using u(3) thinned_refl thinned_upd [OF subseq_map [OF subseq_remove_token]] by (auto split: option.splits)
    moreover have "ml_uuid s' = ml_uuid s" "ml_drawn s' = ml_drawn s" by (subst u(2), simp)+
    ultimately show ?thesis using thin u(1) thinned_trans [OF thinned_view] by blast
  next
    case (do_refresh path tok tmo r)
    from memls_refresh_ok [OF wf, of path tok tmo] do_refresh have
      u: "wf_tree (ml_tree s')" "s' = s\<lparr>ml_tree := ml_tree s'\<rparr>"
      "case find_token (lock_view s) tok (lock_segs path) of
         None \<Rightarrow> locks_at (ml_tree s') = lock_view s
       | Some ks \<Rightarrow> locks_at (ml_tree s') =
           (lock_view s)(ks := update_token tok (refresh_lock (ml_clock s) tmo) (lock_view s ks))"
      by (auto split: option.splits)
    have "thinned (lock_view s) ((lock_view s)(ks := update_token tok (refresh_lock (ml_clock s) tmo) (lock_view s ks)))" for ks
      by (rule thinned_upd) (simp add: map_key_update [OF refresh_key])
    then have "thinned (lock_view s) (locks_at (ml_tree s'))"
      using u(3) thinned_refl by (auto split: option.splits)
    moreover have "ml_uuid s' = ml_uuid s" "ml_drawn s' = ml_drawn s" by (subst u(2), simp)+
    ultimately show ?thesis using thin u(1) thinned_trans [OF thinned_view] by blast
  next
    case (do_check path pr ign deep toks r)
    from memls_check_ok [OF wf, of path pr ign deep toks] do_check have
      u: "wf_tree (ml_tree s')" "s' = s\<lparr>ml_tree := ml_tree s'\<rparr>" "locks_at (ml_tree s') = lock_view s" by auto
    moreover have "ml_uuid s' = ml_uuid s" "ml_drawn s' = ml_drawn s" by (subst u(2), simp)+
    ultimately show ?thesis using thin thinned_view by simp
  next
    case (do_discover path r)
    from memls_discover_ok [OF wf, of path] do_discover have
      u: "wf_tree (ml_tree s')" "s' = s\<lparr>ml_tree := ml_tree s'\<rparr>" "locks_at (ml_tree s') = lock_view s" by auto
    moreover have "ml_uuid s' = ml_uuid s" "ml_drawn s' = ml_drawn s" by (subst u(2), simp)+
    ultimately show ?thesis using thin thinned_view by simp
  next
    case (do_delete path r)
    from memls_delete_ok [OF wf, of path] do_delete have
      u: "wf_tree (ml_tree s')" "s' = s\<lparr>ml_tree := ml_tree s'\<rparr>"
      "locks_at (ml_tree s') = (\<lambda>ks. if prefix (lock_segs path) ks \<and> ks \<noteq> [] then [] else locks_at (ml_tree s) ks)" by auto
    moreover have "ml_uuid s' = ml_uuid s" "ml_drawn s' = ml_drawn s" by (subst u(2), simp)+
    ultimately show ?thesis using thin thinned_cut by simp
  qed
qed

lemma memls_new_inv: "ml_inv (memls_new now uuid)"
proof -
  have "locks_at (tree_new []) = (\<lambda>_. [])" by (auto simp: locks_at_def tree_new_map fun_eq_iff)
  moreover have "wf_tree (tree_new [])" unfolding wf_tree_def by (rule exI, rule tree_new_wf)
  ultimately show ?thesis
    by (simp add: ml_inv_def memls_new_def no_conflict_def filed_def unique_tokens_def)
qed

lemma ml_reach_inv: "ml_reach uuid s \<Longrightarrow> inj uuid \<Longrightarrow> ml_inv s \<and> ml_uuid s = uuid"
proof (induction rule: ml_reach.induct)
  case (reach_init now)
  then show ?case using memls_new_inv by (simp add: memls_new_def)
next
  case (reach_more s s')
  then show ?case using ml_step_inv [of s s'] by simp
qed

end
