(* ===== verification/Mem_Ls_Contract.thy ===== *)
theory Mem_Ls_Contract
  imports Mem_Ls_Safe
begin

text \<open>
  The contract of a lock system that enforces its locks, as the handlers use it, the proof that the
  in-memory lock system fulfils it, and the properties of \<^verbatim>\<open>src/memls.rs\<close>.
\<close>

section \<open>The contract\<close>

text \<open>\<open>view\<close> is the table of the locks in force and \<open>inv\<close> the representation invariant.  Locking
  succeeds exactly when the path is free, checking exactly when the locks in force allow it.\<close>

locale lock_contract =
  fixes ops :: "'s ls_ops" and view :: "'s \<Rightarrow> lock_table" and inv :: "'s \<Rightarrow> bool"
  assumes lock_law: "inv s \<Longrightarrow> \<exists>r s'. ls_lock ops path pr owner tmo shared deep s = Some (r, s') \<and> inv s' \<and>
      (case r of
         Inl l \<Rightarrow> \<not> free_for (view s) path shared deep \<and> view s' = view s
       | Inr l \<Rightarrow> free_for (view s) path shared deep \<and> lk_principal l = pr \<and> lk_shared l = shared \<and>
           lk_deep l = deep \<and> lk_path l = path \<and>
           (tmo \<noteq> Some 0 \<longrightarrow> view s' = (view s)(lock_segs path := view s (lock_segs path) @ [l])))"
    and check_law: "inv s \<Longrightarrow> \<exists>r s'. ls_check ops path pr ign deep toks s = Some (r, s') \<and> inv s' \<and>
      view s' = view s \<and> (r = Inr () \<longleftrightarrow> may_write (view s) path (holds pr ign toks) deep)"
    and discover_law: "inv s \<Longrightarrow> \<exists>s'. ls_discover ops path s = Some (Inr (covering (view s) path), s') \<and>
      inv s' \<and> view s' = view s"
begin

text \<open>A lock just taken bars every request that does not hold it, at its path and, when it is deep,
  below its path.\<close>

lemma covering_added:
  assumes "lock_segs q = lock_segs path \<or> lk_deep l \<and> prefix (lock_segs path) (lock_segs q)"
  shows "l \<in> set (covering (v(lock_segs path := v (lock_segs path) @ [l])) q)"
  unfolding covering_mem using assms by (intro exI [of _ "lock_segs path"]) auto

lemma locked_out:
  assumes inv: "inv s" and lk: "ls_lock ops path pr owner tmo False deep s = Some (Inr l, s1)"
    and tmo: "tmo \<noteq> Some 0"
    and q: "lock_segs q = lock_segs path \<or> deep \<and> prefix (lock_segs path) (lock_segs q)"
    and no: "\<not> holds pr' ign toks l"
  shows "\<exists>l' s2. ls_check ops q pr' ign dp toks s1 = Some (Inl l', s2) \<and> inv s2 \<and> view s2 = view s1"
proof -
  from lock_law [OF inv, of path pr owner tmo False deep] lk tmo
  have s1: "inv s1" "lk_shared l = False" "lk_deep l = deep"
    "view s1 = (view s)(lock_segs path := view s (lock_segs path) @ [l])" by auto
  have "l \<in> set (covering (view s1) q)" unfolding s1(4) by (rule covering_added) (use q s1(3) in auto)
  then have "\<not> may_write (view s1) q (holds pr' ign toks) dp" using no s1(2) unfolding may_write_def by blast
  with check_law [OF s1(1), of q pr' ign dp toks] show ?thesis
    by (metis (full_types) old.sum.exhaust old.unit.exhaust)
qed

text \<open>The holder of an exclusive lock passes the shallow check at the locked path.\<close>

lemma holder_passes:
  assumes inv: "inv s" and lk: "ls_lock ops path pr owner tmo False deep s = Some (Inr l, s1)"
    and tmo: "tmo \<noteq> Some 0" and mine: "lk_token l \<in> set toks"
  shows "\<exists>s2. ls_check ops path pr ign False toks s1 = Some (Inr (), s2) \<and> inv s2 \<and> view s2 = view s1"
proof -
  from lock_law [OF inv, of path pr owner tmo False deep] lk tmo
  have s1: "inv s1" "lk_principal l = pr" "free_for (view s) path False deep"
    "view s1 = (view s)(lock_segs path := view s (lock_segs path) @ [l])" by auto
  have holds: "holds pr ign toks l" using mine s1(2) by (simp add: holds_def)
  have "set (covering (view s) path) = {}" using s1(3) unfolding free_for_def by auto
  then have "m \<notin> set (covering (view s) path)" for m by simp
  then have none: "\<not> (\<exists>ks. prefix ks (lock_segs path) \<and> m \<in> set (view s ks) \<and> (ks \<noteq> lock_segs path \<longrightarrow> lk_deep m))" for m
    unfolding covering_mem .
  have only: "m = l" if "m \<in> set (covering (view s1) path)" for m
  proof -
    from that obtain ks where ks: "prefix ks (lock_segs path)" "m \<in> set (view s1 ks)"
      "ks \<noteq> lock_segs path \<longrightarrow> lk_deep m" unfolding covering_mem by blast
    then have "m \<in> set (view s ks) \<or> m = l" unfolding s1(4) by (auto split: if_splits)
    with none [of m] ks(1,3) show ?thesis by blast
  qed
  have "l \<in> set (covering (view s1) path)" unfolding s1(4) by (rule covering_added) simp
  then have "may_write (view s1) path (holds pr ign toks) False"
    using only holds unfolding may_write_def by metis
  with check_law [OF s1(1), of path pr ign False toks] show ?thesis by auto
qed

end

section \<open>The in-memory lock system fulfils the contract\<close>

definition memls_ok :: "mem_ls \<Rightarrow> bool" where
  "memls_ok s = wf_tree (ml_tree s)"

lemma view_eq_locks:
  assumes "locks_at (ml_tree s') = v" and "\<And>ks l. l \<in> set (v ks) \<Longrightarrow> \<not> lock_expired (ml_clock s') l"
  shows "lock_view s' = v"
  using assms by (auto simp: lock_view_def fun_eq_iff intro!: filter_True)

lemma view_live: "l \<in> set (lock_view s ks) \<Longrightarrow> \<not> lock_expired (ml_clock s) l"
  by (simp add: lock_view_def)

interpretation memls: lock_contract memls_ops lock_view memls_ok
proof
  fix s path pr owner tmo shared deep
  assume "memls_ok s"
  then have wf: "wf_tree (ml_tree s)" by (simp add: memls_ok_def)
  let ?l = "new_lock s path pr owner tmo shared deep"
  from memls_lock_ok [OF wf, of path pr owner tmo shared deep] obtain r s' where
    s': "memls_lock path pr owner tmo shared deep s = Some (r, s')" "wf_tree (ml_tree s')" "ml_clock s' = ml_clock s"
    and res: "if free_for (lock_view s) path shared deep
      then r = Inr ?l \<and> locks_at (ml_tree s') = (lock_view s)(lock_segs path := lock_view s (lock_segs path) @ [?l])
      else (\<exists>l. r = Inl l) \<and> locks_at (ml_tree s') = lock_view s" by (auto split: if_splits)
  have live: "tmo \<noteq> Some 0 \<Longrightarrow> \<not> lock_expired (ml_clock s) ?l"
    by (cases tmo) (auto simp: lock_expired_def new_lock_def)
  have "case r of
      Inl l \<Rightarrow> \<not> free_for (lock_view s) path shared deep \<and> lock_view s' = lock_view s
    | Inr l \<Rightarrow> free_for (lock_view s) path shared deep \<and> lk_principal l = pr \<and> lk_shared l = shared \<and>
        lk_deep l = deep \<and> lk_path l = path \<and> (tmo \<noteq> Some 0 \<longrightarrow>
          lock_view s' = (lock_view s)(lock_segs path := lock_view s (lock_segs path) @ [l]))"
  proof (cases "free_for (lock_view s) path shared deep")
    case True
    have "lock_view s' = (lock_view s)(lock_segs path := lock_view s (lock_segs path) @ [?l])" if "tmo \<noteq> Some 0"
      by (rule view_eq_locks) (use True res live [OF that] s'(3) view_live in \<open>auto split: if_splits\<close>)
    with True res show ?thesis by (auto simp: new_lock_def)
  next
    case False
    have "lock_view s' = lock_view s" by (rule view_eq_locks) (use False res s'(3) view_live in auto)
    with False res show ?thesis by auto
  qed
  with s' show "\<exists>r s'. ls_lock memls_ops path pr owner tmo shared deep s = Some (r, s') \<and> memls_ok s' \<and>
      (case r of
         Inl l \<Rightarrow> \<not> free_for (lock_view s) path shared deep \<and> lock_view s' = lock_view s
       | Inr l \<Rightarrow> free_for (lock_view s) path shared deep \<and> lk_principal l = pr \<and> lk_shared l = shared \<and>
           lk_deep l = deep \<and> lk_path l = path \<and> (tmo \<noteq> Some 0 \<longrightarrow>
             lock_view s' = (lock_view s)(lock_segs path := lock_view s (lock_segs path) @ [l])))"
    by (simp add: memls_ops_def memls_ok_def)
next
  fix s path pr ign deep toks
  assume "memls_ok s"
  then have wf: "wf_tree (ml_tree s)" by (simp add: memls_ok_def)
  from memls_check_ok [OF wf, of path pr ign deep toks] obtain r s' where
    s': "memls_check path pr ign deep toks s = Some (r, s')" "wf_tree (ml_tree s')"
      "s' = s\<lparr>ml_tree := ml_tree s'\<rparr>" "locks_at (ml_tree s') = lock_view s"
      "r = Inr () \<longleftrightarrow> may_write (lock_view s) path (holds pr ign toks) deep" by (auto split: if_splits)
  have "ml_clock s' = ml_clock s" by (subst s'(3)) simp
  then have "lock_view s' = lock_view s" by (intro view_eq_locks [OF s'(4)]) (simp add: view_live)
  with s' show "\<exists>r s'. ls_check memls_ops path pr ign deep toks s = Some (r, s') \<and> memls_ok s' \<and>
      lock_view s' = lock_view s \<and> (r = Inr () \<longleftrightarrow> may_write (lock_view s) path (holds pr ign toks) deep)"
    by (auto simp: memls_ops_def memls_ok_def)
next
  fix s path
  assume "memls_ok s"
  then have wf: "wf_tree (ml_tree s)" by (simp add: memls_ok_def)
  from memls_discover_ok [OF wf, of path] obtain s' where
    s': "memls_discover path s = Some (Inr (covering (lock_view s) path), s')" "wf_tree (ml_tree s')"
      "s' = s\<lparr>ml_tree := ml_tree s'\<rparr>" "locks_at (ml_tree s') = lock_view s" by blast
  have "ml_clock s' = ml_clock s" by (subst s'(3)) simp
  then have "lock_view s' = lock_view s" by (intro view_eq_locks [OF s'(4)]) (simp add: view_live)
  with s' show "\<exists>s'. ls_discover memls_ops path s = Some (Inr (covering (lock_view s) path), s') \<and>
      memls_ok s' \<and> lock_view s' = lock_view s"
    by (auto simp: memls_ops_def memls_ok_def)
qed

end
