(* ===== verification/Mem_Ls_Main.thy ===== *)
theory Mem_Ls_Main
  imports Mem_Ls_Contract
begin

text \<open>The properties of the in-memory lock system, with a concrete reachable state to run them on.\<close>

section \<open>A state with one lock\<close>

definition demo_uuid :: "nat \<Rightarrow> bytes" where
  "demo_uuid n = replicate n (CHR ''t'')"

lemma demo_uuid_inj: "inj demo_uuid"
  by (rule injI) (simp add: demo_uuid_def replicate_eq_replicate)

definition demo_a :: dav_path where "demo_a = \<lparr>fullpath = ''/a'', pfxlen = None\<rparr>"
definition demo_ab :: dav_path where "demo_ab = \<lparr>fullpath = ''/a/b'', pfxlen = None\<rparr>"

lemma demo_segs [simp]: "lock_segs demo_a = [''a'']" "lock_segs demo_ab = [''a'', ''b'']"
  by (simp_all add: lock_segs_def demo_a_def demo_ab_def as_bytes_def prefix_len_def path_segs_def)

definition demo_ls0 :: mem_ls where "demo_ls0 = memls_new 100 demo_uuid"

definition demo_ls :: mem_ls where
  "demo_ls = (case memls_lock demo_a (Some ''joe'') None (Some 60) False True demo_ls0 of
      Some (_, s) \<Rightarrow> s | None \<Rightarrow> demo_ls0)"

definition demo_lock :: dav_lock where
  "demo_lock = new_lock demo_ls0 demo_a (Some ''joe'') None (Some 60) False True"

lemma demo_ls0_facts: "ml_inv demo_ls0" "lock_view demo_ls0 = (\<lambda>_. [])" "memls_ok demo_ls0"
proof -
  show i: "ml_inv demo_ls0" by (simp add: demo_ls0_def memls_new_inv)
  then show "memls_ok demo_ls0" by (simp add: ml_inv_def memls_ok_def)
  show "lock_view demo_ls0 = (\<lambda>_. [])"
    by (auto simp: lock_view_def demo_ls0_def memls_new_def locks_at_def tree_new_map fun_eq_iff)
qed

lemma demo_run:
  "memls_lock demo_a (Some ''joe'') None (Some 60) False True demo_ls0 = Some (Inr demo_lock, demo_ls)"
  "locks_at (ml_tree demo_ls) = (\<lambda>_. [])([''a''] := [demo_lock])"
  "ml_clock demo_ls = 100" "ml_uuid demo_ls = demo_uuid"
proof -
  have wf: "wf_tree (ml_tree demo_ls0)" using demo_ls0_facts(1) by (simp add: ml_inv_def)
  have "covering (\<lambda>_. []) demo_a = []" by (simp add: covering_def)
  then have "free_for (lock_view demo_ls0) demo_a False True"
    by (simp add: free_for_def demo_ls0_facts(2))
  with memls_lock_ok [OF wf, of demo_a "Some ''joe''" None "Some 60" False True]
  obtain s' where s': "memls_lock demo_a (Some ''joe'') None (Some 60) False True demo_ls0 = Some (Inr demo_lock, s')"
    "locks_at (ml_tree s') = (\<lambda>_. [])([''a''] := [demo_lock])" "ml_clock s' = ml_clock demo_ls0"
    "ml_uuid s' = ml_uuid demo_ls0" by (auto simp: demo_ls0_facts(2) demo_lock_def)
  moreover from s'(1) have "demo_ls = s'" by (simp add: demo_ls_def)
  ultimately show
    "memls_lock demo_a (Some ''joe'') None (Some 60) False True demo_ls0 = Some (Inr demo_lock, demo_ls)"
    "locks_at (ml_tree demo_ls) = (\<lambda>_. [])([''a''] := [demo_lock])"
    "ml_clock demo_ls = 100" "ml_uuid demo_ls = demo_uuid" by (simp_all add: demo_ls0_def memls_new_def)
qed

lemma demo_lock_fields [simp]:
  "lk_shared demo_lock = False" "lk_deep demo_lock = True" "lk_token demo_lock = []"
  "lk_path demo_lock = demo_a" "lk_timeout_at demo_lock = Some 160" "lk_principal demo_lock = Some ''joe''"
  by (simp_all add: demo_lock_def new_lock_def demo_ls0_def memls_new_def demo_uuid_def)

lemma demo_view: "lock_view demo_ls = (\<lambda>_. [])([''a''] := [demo_lock])"
  by (auto simp: lock_view_def demo_run lock_expired_def fun_eq_iff)

lemma demo_reach: "ml_reach demo_uuid demo_ls"
proof (rule reach_more)
  show "ml_reach demo_uuid demo_ls0" unfolding demo_ls0_def by (rule reach_init)
  show "ml_step demo_ls0 demo_ls" by (rule do_lock [OF demo_run(1)])
qed

lemma demo_covering: "covering (lock_view demo_ls) demo_ab = [demo_lock]"
  by (simp add: covering_def demo_view)

section \<open>Properties\<close>

text \<open>C33: in every state that the operations and the clock can reach, an exclusive lock in force on a
  path is the only lock in force on it, counting the deep locks of its ancestors; and when it is
  deep, nothing below it is locked.\<close>

theorem memls_exclusion:
  assumes "ml_reach uuid s" and "inj uuid"
    and "l \<in> set (covering (lock_view s) path)" and "\<not> lk_shared l"
  shows "set (covering (lock_view s) path) = {l} \<and>
    (lk_deep l \<longrightarrow> (\<forall>ks. strict_prefix (lock_segs (lk_path l)) ks \<longrightarrow> lock_view s ks = []))"
proof -
  have inv: "ml_inv s" using ml_reach_inv [OF assms(1,2)] by simp
  note v = view_facts [OF inv]
  from assms(3) obtain ks0 where k0: "l \<in> set (lock_view s ks0)" unfolding covering_mem by blast
  have fl: "ks0 = lock_segs (lk_path l)" by (rule v(2) [unfolded filed_def, rule_format, OF k0, symmetric])
  have "lock_view s ks = []" if d: "lk_deep l" and sp: "strict_prefix (lock_segs (lk_path l)) ks" for ks
  proof (rule ccontr)
    assume "lock_view s ks \<noteq> []"
    then have "hd (lock_view s ks) \<in> set (lock_view s ks)" by simp
    with v(1) sp k0 d fl have "lk_shared l" unfolding no_conflict_def by blast
    with assms(4) show False by simp
  qed
  with no_conflict_covering [OF v(1) assms(3,4)] show ?thesis by blast
qed

lemma memls_exclusion_witness:
  "set (covering (lock_view demo_ls) demo_ab) = {demo_lock} \<and> lock_view demo_ls [''a'', ''b'', ''c''] = []"
proof -
  have m: "demo_lock \<in> set (covering (lock_view demo_ls) demo_ab)" by (simp add: demo_covering)
  have "strict_prefix (lock_segs (lk_path demo_lock)) [''a'', ''b'', ''c'']" by (simp add: strict_prefix_def)
  with memls_exclusion [OF demo_reach demo_uuid_inj m] show ?thesis by simp
qed

text \<open>C34: \<open>lock\<close> always returns.  It grants the lock exactly when every lock that covers the path, and
  for a deep lock every lock below it, is shared along with the new one; then the table gains that
  lock.  Otherwise it reports one of the locks in the way, and no lock is gained or lost.\<close>

theorem memls_lock_spec:
  assumes "wf_tree (ml_tree s)"
  shows "\<exists>r s'. memls_lock path pr owner tmo shared deep s = Some (r, s') \<and> wf_tree (ml_tree s') \<and>
    (if free_for (lock_view s) path shared deep
     then r = Inr (new_lock s path pr owner tmo shared deep) \<and>
          locks_at (ml_tree s') = (lock_view s)(lock_segs path :=
            lock_view s (lock_segs path) @ [new_lock s path pr owner tmo shared deep])
     else (\<exists>l. r = Inl l \<and> in_the_way (lock_view s) path deep l \<and> (\<not> shared \<or> \<not> lk_shared l)) \<and>
          locks_at (ml_tree s') = lock_view s)"
  using memls_lock_ok [OF assms, of path pr owner tmo shared deep] by (auto split: if_splits)

lemma memls_lock_spec_witness:
  "\<exists>r s'. memls_lock demo_ab None None None True False demo_ls0 = Some (r, s') \<and> wf_tree (ml_tree s') \<and>
    (if free_for (lock_view demo_ls0) demo_ab True False
     then r = Inr (new_lock demo_ls0 demo_ab None None None True False) \<and>
          locks_at (ml_tree s') = (lock_view demo_ls0)(lock_segs demo_ab :=
            lock_view demo_ls0 (lock_segs demo_ab) @ [new_lock demo_ls0 demo_ab None None None True False])
     else (\<exists>l. r = Inl l \<and> in_the_way (lock_view demo_ls0) demo_ab False l \<and> (\<not> True \<or> \<not> lk_shared l)) \<and>
          locks_at (ml_tree s') = lock_view demo_ls0)"
  by (rule memls_lock_spec) (use demo_ls0_facts(1) in \<open>simp add: ml_inv_def\<close>)



text \<open>\<open>discover\<close> returns the locks in force on the path itself and the deep ones on its
  ancestors, and no other; expired locks and depth-0 locks of ancestors are left out.\<close>

theorem memls_discover_spec:
  assumes "wf_tree (ml_tree s)"
  shows "\<exists>ls s'. memls_discover path s = Some (Inr ls, s') \<and> locks_at (ml_tree s') = lock_view s \<and>
    (\<forall>l. l \<in> set ls \<longleftrightarrow> \<not> lock_expired (ml_clock s) l \<and>
       (\<exists>ks. prefix ks (lock_segs path) \<and> l \<in> set (locks_at (ml_tree s) ks) \<and>
             (ks \<noteq> lock_segs path \<longrightarrow> lk_deep l)))"
  using memls_discover_ok [OF assms, of path] by (auto simp: covering_mem lock_view_def)

lemma memls_discover_spec_witness:
  "\<exists>ls s'. memls_discover demo_ab demo_ls = Some (Inr ls, s') \<and> locks_at (ml_tree s') = lock_view demo_ls \<and>
    (\<forall>l. l \<in> set ls \<longleftrightarrow> \<not> lock_expired (ml_clock demo_ls) l \<and>
       (\<exists>ks. prefix ks (lock_segs demo_ab) \<and> l \<in> set (locks_at (ml_tree demo_ls) ks) \<and>
             (ks \<noteq> lock_segs demo_ab \<longrightarrow> lk_deep l)))"
  by (rule memls_discover_spec)
    (use ml_reach_inv [OF demo_reach demo_uuid_inj] in \<open>simp add: ml_inv_def\<close>)

lemma remove_token_filter:
  "distinct (map lk_token ls) \<Longrightarrow> remove_token tok ls = filter (\<lambda>l. lk_token l \<noteq> tok) ls"
proof (induction ls)
  case (Cons l ls)
  show ?case
  proof (cases "lk_token l = tok")
    case True
    with Cons.prems have "\<forall>m \<in> set ls. lk_token m \<noteq> tok" by (auto simp: image_iff)
    with True show ?thesis by (simp add: filter_True)
  qed (use Cons in simp)
qed simp

text \<open>\<open>unlock\<close> of a token found on the path or one of its ancestors removes exactly the lock with
  that token, wherever the caller points below it; otherwise it fails.  No other lock in force
  changes.\<close>

theorem memls_unlock_spec:
  assumes "ml_reach uuid s" and "inj uuid"
  shows "\<exists>r s'. memls_unlock path tok s = Some (r, s') \<and>
    (if \<exists>ks. prefix ks (lock_segs path) \<and> (\<exists>l \<in> set (lock_view s ks). lk_token l = tok)
     then r = Inr () \<and> locks_at (ml_tree s') = (\<lambda>ks. filter (\<lambda>l. lk_token l \<noteq> tok) (lock_view s ks))
     else r = Inl () \<and> locks_at (ml_tree s') = lock_view s)"
proof -
  have inv: "ml_inv s" using ml_reach_inv [OF assms] by simp
  note u = view_facts(3) [OF inv]
  have ex: "(\<exists>ks. prefix ks (lock_segs path) \<and> (\<exists>l \<in> set (lock_view s ks). lk_token l = tok)) \<longleftrightarrow>
      find_token (lock_view s) tok (lock_segs path) \<noteq> None"
    by (auto simp: find_token_def find_None_iff in_set_prefixes)
  have same: "(lock_view s)(ks := remove_token tok (lock_view s ks)) =
      (\<lambda>ks. filter (\<lambda>l. lk_token l \<noteq> tok) (lock_view s ks))"
    if "\<exists>l \<in> set (lock_view s ks). lk_token l = tok" for ks
  proof
    fix ks'
    have "distinct (map lk_token (lock_view s ks))" using u unfolding unique_tokens_def by blast
    moreover have "filter (\<lambda>l. lk_token l \<noteq> tok) (lock_view s ks') = lock_view s ks'" if "ks' \<noteq> ks"
    proof (rule filter_True, intro ballI notI)
      fix l assume "l \<in> set (lock_view s ks')" "lk_token l = tok"
      with u \<open>\<exists>l \<in> set (lock_view s ks). lk_token l = tok\<close> have "ks' = ks"
        unfolding unique_tokens_def by metis
      with that show False by simp
    qed
    ultimately show "((lock_view s)(ks := remove_token tok (lock_view s ks))) ks' =
        filter (\<lambda>l. lk_token l \<noteq> tok) (lock_view s ks')" by (simp add: remove_token_filter)
  qed
  have "wf_tree (ml_tree s)" using inv by (simp add: ml_inv_def)
  from memls_unlock_ok [OF this, of path tok] obtain r s' where run: "memls_unlock path tok s = Some (r, s')"
    "case find_token (lock_view s) tok (lock_segs path) of
       None \<Rightarrow> r = Inl () \<and> locks_at (ml_tree s') = lock_view s
     | Some ks \<Rightarrow> r = Inr () \<and> locks_at (ml_tree s') = (lock_view s)(ks := remove_token tok (lock_view s ks))" by blast
  show ?thesis
  proof (cases "find_token (lock_view s) tok (lock_segs path)")
    case None
    with run ex show ?thesis by auto
  next
    case (Some ks)
    with same find_token_mem [OF Some] have e: "(lock_view s)(ks := remove_token tok (lock_view s ks)) =
      (\<lambda>ks. filter (\<lambda>l. lk_token l \<noteq> tok) (lock_view s ks))" by blast
    from run(2) Some have "r = Inr ()" "locks_at (ml_tree s') = (\<lambda>ks. filter (\<lambda>l. lk_token l \<noteq> tok) (lock_view s ks))"
      by (simp_all add: e)
    with run(1) Some ex show ?thesis by auto
  qed
qed

lemma memls_unlock_spec_witness:
  "\<exists>r s'. memls_unlock demo_ab [] demo_ls = Some (r, s') \<and>
    (if \<exists>ks. prefix ks (lock_segs demo_ab) \<and> (\<exists>l \<in> set (lock_view demo_ls ks). lk_token l = [])
     then r = Inr () \<and> locks_at (ml_tree s') = (\<lambda>ks. filter (\<lambda>l. lk_token l \<noteq> []) (lock_view demo_ls ks))
     else r = Inl () \<and> locks_at (ml_tree s') = lock_view demo_ls)"
  by (rule memls_unlock_spec [OF demo_reach demo_uuid_inj])

text \<open>After an exclusive lock with a non-zero time-out is granted, no request that does not hold it
  passes the check at its path or, when it is deep, anywhere below; the holder does pass.\<close>

theorem memls_lock_bars_others:
  assumes "wf_tree (ml_tree s)" and "memls_lock path pr owner tmo False deep s = Some (Inr l, s1)"
    and "tmo \<noteq> Some 0"
  shows "(\<forall>q pr' ign toks dp. (lock_segs q = lock_segs path \<or> deep \<and> prefix (lock_segs path) (lock_segs q)) \<longrightarrow>
      \<not> holds pr' ign toks l \<longrightarrow> (\<exists>l' s2. memls_check q pr' ign dp toks s1 = Some (Inl l', s2))) \<and>
    (\<forall>ign toks. lk_token l \<in> set toks \<longrightarrow>
      (\<exists>s2. memls_check path pr ign False toks s1 = Some (Inr (), s2)))"
proof -
  have ok: "memls_ok s" using assms(1) by (simp add: memls_ok_def)
  have lk: "ls_lock memls_ops path pr owner tmo False deep s = Some (Inr l, s1)"
    using assms(2) by (simp add: memls_ops_def)
  have ops: "memls_check = ls_check memls_ops" by (simp add: memls_ops_def)
  show ?thesis unfolding ops
    using memls.locked_out [OF ok lk assms(3)] memls.holder_passes [OF ok lk assms(3)] by blast
qed

lemma memls_lock_bars_others_witness:
  "(\<exists>l' s2. memls_check demo_ab (Some ''ann'') False False [[]] demo_ls = Some (Inl l', s2)) \<and>
   (\<exists>s2. memls_check demo_a (Some ''joe'') False False [[]] demo_ls = Some (Inr (), s2))"
proof -
  have wf: "wf_tree (ml_tree demo_ls0)" using demo_ls0_facts(1) by (simp add: ml_inv_def)
  have "\<not> holds (Some ''ann'') False [[]] demo_lock" by (simp add: holds_def)
  with memls_lock_bars_others [OF wf demo_run(1)] show ?thesis by simp
qed

text \<open>\<open>delete\<close> drops every lock below the path and, unless the path is the root, on it.  At the
  root it keeps the locks of the root itself, which the interface says it deletes.\<close>

theorem memls_delete_spec:
  assumes "wf_tree (ml_tree s)"
  shows "\<exists>s'. memls_delete path s = Some (Inr (), s') \<and> wf_tree (ml_tree s') \<and>
    locks_at (ml_tree s') [] = locks_at (ml_tree s) [] \<and>
    (\<forall>ks. ks \<noteq> [] \<longrightarrow> locks_at (ml_tree s') ks =
       (if prefix (lock_segs path) ks then [] else locks_at (ml_tree s) ks))"
  using memls_delete_ok [OF assms, of path] by auto

lemma memls_delete_spec_witness:
  "\<exists>s'. memls_delete demo_a demo_ls = Some (Inr (), s') \<and> wf_tree (ml_tree s') \<and>
    locks_at (ml_tree s') [] = locks_at (ml_tree demo_ls) [] \<and>
    (\<forall>ks. ks \<noteq> [] \<longrightarrow> locks_at (ml_tree s') ks =
       (if prefix (lock_segs demo_a) ks then [] else locks_at (ml_tree demo_ls) ks))"
  by (rule memls_delete_spec)
    (use ml_reach_inv [OF demo_reach demo_uuid_inj] in \<open>simp add: ml_inv_def\<close>)

end
