(* ===== verification/Dav_Fs.thy ===== *)
theory Dav_Fs
  imports Dav_Path
begin

text \<open>
  The filesystem interface, \<^verbatim>\<open>src/fs.rs\<close>: properties, metadata, open options, the kind of a
  collection, and the operations of the traits \<^verbatim>\<open>DavFileSystem\<close>, \<^verbatim>\<open>DavFile\<close> and \<^verbatim>\<open>DavDirEntry\<close> as
  records of actions on the state of the implementation.  \<^verbatim>\<open>GuardedFileSystem\<close> adds credentials
  that every method passes on unread; they are part of the implementation's actions here.
  \<^verbatim>\<open>SystemTime\<close> is an integer, nanoseconds relative to the epoch.
\<close>

section \<open>Properties\<close>

type_synonym systime = int

record dav_prop =
  pr_name :: bytes
  pr_prefix :: "bytes option"
  pr_ns :: "bytes option"
  pr_xml :: "bytes option"

definition dav_prop_new :: "bytes \<Rightarrow> bytes \<Rightarrow> bytes \<Rightarrow> bytes \<Rightarrow> dav_prop" where
  "dav_prop_new name prefx nspace val =
     \<lparr>pr_name = name, pr_prefix = Some prefx, pr_ns = Some nspace,
      pr_xml = Some (''<'' @ prefx @ '':'' @ name @ '' xmlns:'' @ prefx @ ''='' @ [CHR 0x22] @ nspace @
        [CHR 0x22] @ ''>'' @ val @ ''</'' @ prefx @ '':'' @ name @ ''>'')\<rparr>"

definition NS_CALDAV :: bytes where "NS_CALDAV = ''urn:ietf:params:xml:ns:caldav''"
definition NS_CARDDAV :: bytes where "NS_CARDDAV = ''urn:ietf:params:xml:ns:carddav''"

definition collection_type_marker :: "bytes \<Rightarrow> bytes \<Rightarrow> bytes \<Rightarrow> dav_prop" where
  "collection_type_marker prefx nspace name =
     \<lparr>pr_name = name, pr_prefix = Some prefx, pr_ns = Some nspace,
      pr_xml = Some (''<'' @ prefx @ '':'' @ name @ '' xmlns:'' @ prefx @ ''='' @ [CHR 0x22] @ nspace @
        [CHR 0x22] @ ''/>'')\<rparr>"

definition calendar_type_marker :: dav_prop where
  "calendar_type_marker = collection_type_marker ''C'' NS_CALDAV ''calendar''"

definition addressbook_type_marker :: dav_prop where
  "addressbook_type_marker = collection_type_marker ''CARD'' NS_CARDDAV ''addressbook''"

definition is_calendar_type_marker :: "dav_prop \<Rightarrow> bool" where
  "is_calendar_type_marker p \<longleftrightarrow> pr_name p = ''calendar'' \<and> pr_ns p = Some NS_CALDAV"

definition is_addressbook_type_marker :: "dav_prop \<Rightarrow> bool" where
  "is_addressbook_type_marker p \<longleftrightarrow> pr_name p = ''addressbook'' \<and> pr_ns p = Some NS_CARDDAV"

definition is_protected_type_marker :: "dav_prop \<Rightarrow> bool" where
  "is_protected_type_marker p =
     (if is_calendar_type_marker p then True else if is_addressbook_type_marker p then True else False)"

section \<open>Metadata\<close>

text \<open>What a \<^verbatim>\<open>DavMetaData\<close> object answers.  \<open>md_etag\<close> is the backend's own answer; the default one
  is \<open>default_etag\<close> below.\<close>

record dav_meta =
  md_len :: nat
  md_modified :: "fs_error + systime"
  md_is_dir :: bool
  md_is_file :: bool
  md_is_symlink :: bool
  md_is_calendar :: "dav_path \<Rightarrow> bool"
  md_is_addressbook :: "dav_path \<Rightarrow> bool"
  md_etag :: "bytes option"
  md_accessed :: "fs_error + systime"
  md_created :: "fs_error + systime"
  md_status_changed :: "fs_error + systime"
  md_executable :: "fs_error + bool"

text \<open>The default \<^verbatim>\<open>is_file()\<close>.\<close>

definition default_is_file :: "bool \<Rightarrow> bool" where
  "default_is_file is_dir = (\<not> is_dir)"

text \<open>The default \<^verbatim>\<open>etag()\<close>: length and time in microseconds, in hexadecimal.\<close>

definition default_etag :: "nat \<Rightarrow> bool \<Rightarrow> fs_error + systime \<Rightarrow> bytes option" where
  "default_etag len is_file modified =
     (case modified of
        Inl _ \<Rightarrow> None
      | Inr t \<Rightarrow>
         if t < 0 then None
         else (let n = nat t; us = (n div 1000000000) * 1000000 + (n mod 1000000000) div 1000
               in Some (if is_file \<and> 0 < len then show_hex len @ ''-'' @ show_hex us else show_hex us)))"

datatype collection_kind = CkNone | CkCalendar | CkAddressbook

definition kind_from_meta :: "dav_path \<Rightarrow> dav_meta \<Rightarrow> collection_kind" where
  "kind_from_meta path meta =
     (if md_is_calendar meta path then CkCalendar
      else if md_is_addressbook meta path then CkAddressbook else CkNone)"

definition kind_from_props :: "dav_prop list \<Rightarrow> collection_kind" where
  "kind_from_props props =
     (if \<exists>p \<in> set props. is_calendar_type_marker p then CkCalendar
      else if \<exists>p \<in> set props. is_addressbook_type_marker p then CkAddressbook else CkNone)"

definition kind_from_meta_or_props :: "dav_path \<Rightarrow> dav_meta \<Rightarrow> dav_prop list \<Rightarrow> collection_kind" where
  "kind_from_meta_or_props path meta props =
     (case kind_from_meta path meta of
        CkNone \<Rightarrow> if md_is_dir meta then kind_from_props props else CkNone
      | k \<Rightarrow> k)"

section \<open>Open options\<close>

record open_options =
  oo_read :: bool
  oo_write :: bool
  oo_append :: bool
  oo_truncate :: bool
  oo_create :: bool
  oo_create_new :: bool
  oo_size :: "nat option"
  oo_checksum :: "bytes option"

definition oo_new :: open_options where
  "oo_new = \<lparr>oo_read = False, oo_write = False, oo_append = False, oo_truncate = False, oo_create = False,
     oo_create_new = False, oo_size = None, oo_checksum = None\<rparr>"

definition oo_for_read :: open_options where
  "oo_for_read = \<lparr>oo_read = True, oo_write = False, oo_append = False, oo_truncate = False, oo_create = False,
     oo_create_new = False, oo_size = None, oo_checksum = None\<rparr>"

definition oo_for_write :: open_options where
  "oo_for_write = \<lparr>oo_read = False, oo_write = True, oo_append = False, oo_truncate = False, oo_create = False,
     oo_create_new = False, oo_size = None, oo_checksum = None\<rparr>"

datatype seek_from = SeekStart nat | SeekCurrent int | SeekEnd int

datatype read_dir_meta = RdData | RdDataSymlink | RdNone

section \<open>The traits\<close>

text \<open>A directory entry; its three type tests default to its metadata.\<close>

record 's dirent =
  de_name :: bytes
  de_metadata :: "('s, fs_error, dav_meta) act"
  de_is_dir :: "('s, fs_error, bool) act"
  de_is_symlink :: "('s, fs_error, bool) act"

definition default_de_is_dir :: "('s, fs_error, dav_meta) act \<Rightarrow> ('s, fs_error, bool) act" where
  "default_de_is_dir md = bind md (\<lambda>m. ok (md_is_dir m))"

definition default_de_is_symlink :: "('s, fs_error, dav_meta) act \<Rightarrow> ('s, fs_error, bool) act" where
  "default_de_is_symlink md = bind md (\<lambda>m. ok (md_is_symlink m))"

text \<open>\<open>'s\<close> is the state of the backend, \<open>'h\<close> an open file.  File operations return the handle as
  they leave it.  A directory stream is the list of its items.\<close>

record ('s, 'h) fs_ops =
  fs_open :: "dav_path \<Rightarrow> open_options \<Rightarrow> ('s, fs_error, 'h) act"
  fs_read_dir :: "dav_path \<Rightarrow> read_dir_meta \<Rightarrow> ('s, fs_error, (fs_error + 's dirent) list) act"
  fs_metadata :: "dav_path \<Rightarrow> ('s, fs_error, dav_meta) act"
  fs_symlink_metadata :: "dav_path \<Rightarrow> ('s, fs_error, dav_meta) act"
  fs_create_dir :: "dav_path \<Rightarrow> ('s, fs_error, unit) act"
  fs_remove_dir :: "dav_path \<Rightarrow> ('s, fs_error, unit) act"
  fs_remove_file :: "dav_path \<Rightarrow> ('s, fs_error, unit) act"
  fs_same_resource :: "dav_path \<Rightarrow> dav_path \<Rightarrow> ('s, fs_error, bool) act"
  fs_rename :: "dav_path \<Rightarrow> dav_path \<Rightarrow> ('s, fs_error, unit) act"
  fs_copy :: "dav_path \<Rightarrow> dav_path \<Rightarrow> ('s, fs_error, unit) act"
  fs_set_accessed :: "dav_path \<Rightarrow> systime \<Rightarrow> ('s, fs_error, unit) act"
  fs_set_modified :: "dav_path \<Rightarrow> systime \<Rightarrow> ('s, fs_error, unit) act"
  fs_set_created :: "dav_path \<Rightarrow> systime \<Rightarrow> ('s, fs_error, unit) act"
  fs_have_props :: "dav_path \<Rightarrow> 's \<Rightarrow> (bool \<times> 's) option"
  fs_patch_props :: "dav_path \<Rightarrow> (bool \<times> dav_prop) list \<Rightarrow> ('s, fs_error, (status \<times> dav_prop) list) act"
  fs_get_props :: "dav_path \<Rightarrow> bool \<Rightarrow> ('s, fs_error, dav_prop list) act"
  fs_get_prop :: "dav_path \<Rightarrow> dav_prop \<Rightarrow> ('s, fs_error, bytes) act"
  fs_get_quota :: "('s, fs_error, nat \<times> nat option) act"
  fs_mark_calendar :: "dav_path \<Rightarrow> ('s, fs_error, unit) act"
  fs_mark_addressbook :: "dav_path \<Rightarrow> ('s, fs_error, unit) act"
  f_metadata :: "'h \<Rightarrow> ('s, fs_error, dav_meta \<times> 'h) act"
  f_write_bytes :: "'h \<Rightarrow> bytes \<Rightarrow> ('s, fs_error, 'h) act"
  f_write_buf :: "'h \<Rightarrow> bytes list \<Rightarrow> ('s, fs_error, 'h) act"
  f_read_bytes :: "'h \<Rightarrow> nat \<Rightarrow> ('s, fs_error, bytes \<times> 'h) act"
  f_seek :: "'h \<Rightarrow> seek_from \<Rightarrow> ('s, fs_error, nat \<times> 'h) act"
  f_flush :: "'h \<Rightarrow> ('s, fs_error, 'h) act"
  f_redirect_url :: "'h \<Rightarrow> ('s, fs_error, bytes option \<times> 'h) act"

section \<open>Defaults and helpers of the traits\<close>

definition not_implemented :: "('s, fs_error, 'a) act" where
  "not_implemented = fail NotImplemented"

definition default_same_resource :: "dav_path \<Rightarrow> dav_path \<Rightarrow> ('s, fs_error, bool) act" where
  "default_same_resource a b = ok (path_eq a b)"

text \<open>\<^verbatim>\<open>mark_with_prop\<close>: how the defaults of \<^verbatim>\<open>mark_calendar\<close> and \<^verbatim>\<open>mark_addressbook\<close> store the mark.\<close>

definition mark_with_prop :: "('s \<Rightarrow> (bool \<times> 's) option) \<Rightarrow>
    ((bool \<times> dav_prop) list \<Rightarrow> ('s, fs_error, (status \<times> dav_prop) list) act) \<Rightarrow> dav_prop \<Rightarrow> ('s, fs_error, unit) act" where
  "mark_with_prop have_props patch_props marker = (\<lambda>s.
     case have_props s of
       None \<Rightarrow> None
     | Some (False, s') \<Rightarrow> Some (Inr (), s')
     | Some (True, s') \<Rightarrow>
         bind (patch_props [(True, marker)])
           (\<lambda>res. if \<exists>(st, _) \<in> set res. \<not> is_success st then fail Forbidden else ok ()) s')"

definition default_mark_calendar :: "('s \<Rightarrow> (bool \<times> 's) option) \<Rightarrow>
    ((bool \<times> dav_prop) list \<Rightarrow> ('s, fs_error, (status \<times> dav_prop) list) act) \<Rightarrow> ('s, fs_error, unit) act" where
  "default_mark_calendar hp pp = mark_with_prop hp pp calendar_type_marker"

definition default_mark_addressbook :: "('s \<Rightarrow> (bool \<times> 's) option) \<Rightarrow>
    ((bool \<times> dav_prop) list \<Rightarrow> ('s, fs_error, (status \<times> dav_prop) list) act) \<Rightarrow> ('s, fs_error, unit) act" where
  "default_mark_addressbook hp pp = mark_with_prop hp pp addressbook_type_marker"

definition resolve_collection_kind :: "('s, 'h) fs_ops \<Rightarrow> dav_path \<Rightarrow> dav_meta \<Rightarrow> 's \<Rightarrow> (collection_kind \<times> 's) option" where
  "resolve_collection_kind fs path meta = (\<lambda>s.
     case kind_from_meta path meta of
       CkNone \<Rightarrow>
         if md_is_dir meta then
           (case fs_get_props fs path False s of
              None \<Rightarrow> None
            | Some (Inr props, s') \<Rightarrow> Some (kind_from_props props, s')
            | Some (Inl _, s') \<Rightarrow> Some (CkNone, s'))
         else Some (CkNone, s)
     | k \<Rightarrow> Some (k, s))"

text \<open>\<^verbatim>\<open>read_file_to_end\<close>: loops over short reads.  Each round reads at least one byte or stops, so
  \<open>len\<close> rounds are enough.\<close>

fun read_to_end_fuel :: "nat \<Rightarrow> ('s, 'h) fs_ops \<Rightarrow> 'h \<Rightarrow> nat \<Rightarrow> bytes \<Rightarrow> ('s, fs_error, bytes \<times> 'h) act" where
  "read_to_end_fuel 0 fs h len dat = (if length dat < len then diverge else ok (dat, h))"
| "read_to_end_fuel (Suc f) fs h len dat =
     (if length dat < len then
        bind (f_read_bytes fs h (len - length dat)) (\<lambda>(chunk, h').
          if chunk = [] then ok (dat, h') else read_to_end_fuel f fs h' len (dat @ chunk))
      else ok (dat, h))"

definition read_file_to_end :: "('s, 'h) fs_ops \<Rightarrow> 'h \<Rightarrow> nat \<Rightarrow> ('s, fs_error, bytes \<times> 'h) act" where
  "read_file_to_end fs h len = read_to_end_fuel len fs h len []"

end
