(* ===== verification/Mem_Fs.thy ===== *)
theory Mem_Fs
  imports Dav_Fs Dav_Tree_Props
begin

text \<open>
  The in-memory filesystem, \<^verbatim>\<open>src/memfs.rs\<close>: a tree of directory and file nodes.  \<open>mf_clock\<close> is what
  \<^verbatim>\<open>SystemTime::now()\<close> returns during an operation.  Property maps are association lists, in an
  order that \<^verbatim>\<open>HashMap\<close> may produce.
\<close>

section \<open>Nodes\<close>

record dir_node =
  dn_props :: "(bytes \<times> dav_prop) list"
  dn_mtime :: systime
  dn_crtime :: systime
  dn_is_calendar :: bool
  dn_is_addressbook :: bool

record file_node =
  fl_props :: "(bytes \<times> dav_prop) list"
  fl_mtime :: systime
  fl_crtime :: systime
  fl_data :: bytes

datatype mem_node = MDir dir_node | MFile file_node

type_synonym fs_tree = "(bytes, mem_node) tree"

record mem_fs =
  mf_tree :: fs_tree
  mf_clock :: systime

record mem_file =
  mh_node :: nat
  mh_pos :: nat
  mh_append :: bool

definition new_dir :: "systime \<Rightarrow> mem_node" where
  "new_dir now = MDir \<lparr>dn_props = [], dn_mtime = now, dn_crtime = now, dn_is_calendar = False,
     dn_is_addressbook = False\<rparr>"

definition new_file :: "systime \<Rightarrow> mem_node" where
  "new_file now = MFile \<lparr>fl_props = [], fl_mtime = now, fl_crtime = now, fl_data = []\<rparr>"

definition memfs_new :: "systime \<Rightarrow> mem_fs" where
  "memfs_new now = \<lparr>mf_tree = tree_new (new_dir now), mf_clock = now\<rparr>"

fun node_is_dir :: "mem_node \<Rightarrow> bool" where
  "node_is_dir (MDir _) = True"
| "node_is_dir (MFile _) = False"

fun as_file :: "mem_node \<Rightarrow> fs_error + file_node" where
  "as_file (MFile n) = Inr n"
| "as_file (MDir _) = Inl Forbidden"

fun update_mtime :: "systime \<Rightarrow> mem_node \<Rightarrow> mem_node" where
  "update_mtime tm (MDir d) = MDir (d\<lparr>dn_mtime := tm\<rparr>)"
| "update_mtime tm (MFile f) = MFile (f\<lparr>fl_mtime := tm\<rparr>)"

fun update_crtime :: "systime \<Rightarrow> mem_node \<Rightarrow> mem_node" where
  "update_crtime tm (MDir d) = MDir (d\<lparr>dn_crtime := tm\<rparr>)"
| "update_crtime tm (MFile f) = MFile (f\<lparr>fl_crtime := tm\<rparr>)"

fun node_props :: "mem_node \<Rightarrow> (bytes \<times> dav_prop) list" where
  "node_props (MFile n) = fl_props n"
| "node_props (MDir d) = dn_props d"

fun set_node_props :: "(bytes \<times> dav_prop) list \<Rightarrow> mem_node \<Rightarrow> mem_node" where
  "set_node_props ps (MFile n) = MFile (n\<lparr>fl_props := ps\<rparr>)"
| "set_node_props ps (MDir d) = MDir (d\<lparr>dn_props := ps\<rparr>)"

text \<open>\<^verbatim>\<open>as_dirent\<close> and the \<^verbatim>\<open>DavMetaData\<close> methods of the result.\<close>

definition mem_meta :: "bool \<Rightarrow> nat \<Rightarrow> systime \<Rightarrow> systime \<Rightarrow> bool \<Rightarrow> bool \<Rightarrow> dav_meta" where
  "mem_meta is_dir sz mtime crtime cal abook =
     \<lparr>md_len = sz, md_modified = Inr mtime, md_is_dir = is_dir, md_is_file = default_is_file is_dir, md_is_symlink = False,
      md_is_calendar = (\<lambda>_. cal), md_is_addressbook = (\<lambda>_. abook),
      md_etag = default_etag sz (default_is_file is_dir) (Inr mtime), md_accessed = Inl NotImplemented,
      md_created = Inr crtime, md_status_changed = Inl NotImplemented, md_executable = Inl NotImplemented\<rparr>"

fun as_dirent :: "mem_node \<Rightarrow> dav_meta" where
  "as_dirent (MFile f) = mem_meta False (length (fl_data f)) (fl_mtime f) (fl_crtime f) False False"
| "as_dirent (MDir d) = mem_meta True 0 (dn_mtime d) (dn_crtime d) (dn_is_calendar d) (dn_is_addressbook d)"

section \<open>Paths in the tree\<close>

fun lookup_segs_from :: "fs_tree \<Rightarrow> nat \<Rightarrow> bytes list \<Rightarrow> fs_error + nat" where
  "lookup_segs_from t i [] = Inr i"
| "lookup_segs_from t i (seg # segs) =
     (case get_node t i of
        Inl e \<Rightarrow> Inl e
      | Inr n \<Rightarrow>
          if \<not> node_is_dir n then Inl Forbidden
          else (case get_child t i seg of Inl e \<Rightarrow> Inl e | Inr c \<Rightarrow> lookup_segs_from t c segs))"

definition lookup_segs :: "fs_tree \<Rightarrow> bytes list \<Rightarrow> fs_error + nat" where
  "lookup_segs t segs = lookup_segs_from t ROOT_ID segs"

definition fs_lookup :: "fs_tree \<Rightarrow> bytes \<Rightarrow> fs_error + nat" where
  "fs_lookup t path = lookup_segs t (path_segs path)"

definition lookup_parent :: "fs_tree \<Rightarrow> bytes \<Rightarrow> fs_error + nat" where
  "lookup_parent t path =
     (case lookup_segs t (butlast (path_segs path)) of
        Inl e \<Rightarrow> Inl e
      | Inr i \<Rightarrow> (case get_node t i of
           Inl e \<Rightarrow> Inl e
         | Inr n \<Rightarrow> if \<not> node_is_dir n then Inl Forbidden else Inr i))"

definition mem_file_name :: "bytes \<Rightarrow> bytes" where
  "mem_file_name path = (let segs = path_segs path in if segs = [] then [] else last segs)"

section \<open>Actions on the tree\<close>

text \<open>The tree under the lock, with the clock to hand.\<close>

definition on_tree :: "(systime \<Rightarrow> (fs_tree, 'e, 'a) act) \<Rightarrow> (mem_fs, 'e, 'a) act" where
  "on_tree a = (\<lambda>s. case a (mf_clock s) (mf_tree s) of
       None \<Rightarrow> None
     | Some (r, t) \<Rightarrow> Some (r, s\<lparr>mf_tree := t\<rparr>))"

definition lift_lookup :: "(fs_tree \<Rightarrow> fs_error + 'a) \<Rightarrow> (fs_tree, fs_error, 'a) act" where
  "lift_lookup f = reads f"

definition do_open :: "systime \<Rightarrow> bytes \<Rightarrow> open_options \<Rightarrow> (fs_tree, fs_error, mem_file) act" where
  "do_open now path opts =
     bind (\<lambda>t. case fs_lookup t path of
             Inr n \<Rightarrow> if oo_create_new opts then Some (Inl Exists, t) else Some (Inr n, t)
           | Inl NotFound \<Rightarrow>
               if \<not> oo_create opts then Some (Inl NotFound, t)
               else bind (lift_lookup (\<lambda>t. lookup_parent t path))
                      (\<lambda>parent_id. add_child parent_id (mem_file_name path) (new_file now) True) t
           | Inl e \<Rightarrow> Some (Inl e, t))
       (\<lambda>node_id t. case get_node t node_id of
             Inl _ \<Rightarrow> None
           | Inr node \<Rightarrow>
               if node_is_dir node then Some (Inl Forbidden, t)
               else bind (if oo_truncate opts then
                            get_node_mut node_id (\<lambda>n. case n of
                               MFile f \<Rightarrow> MFile (f\<lparr>fl_data := [], fl_mtime := now\<rparr>) | MDir d \<Rightarrow> MDir d)
                          else ok ())
                     (\<lambda>_. ok \<lparr>mh_node = node_id, mh_pos = 0, mh_append = oo_append opts\<rparr>) t)"

definition memfs_open :: "dav_path \<Rightarrow> open_options \<Rightarrow> (mem_fs, fs_error, mem_file) act" where
  "memfs_open path opts = on_tree (\<lambda>now. do_open now (as_bytes path) opts)"

definition memfs_metadata :: "dav_path \<Rightarrow> (mem_fs, fs_error, dav_meta) act" where
  "memfs_metadata path = on_tree (\<lambda>_.
     bind (lift_lookup (\<lambda>t. fs_lookup t (as_bytes path))) (\<lambda>i.
     bind (lift_lookup (\<lambda>t. get_node t i)) (\<lambda>n. ok (as_dirent n))))"

definition mem_dirent :: "bytes \<Rightarrow> mem_node \<Rightarrow> mem_fs dirent" where
  "mem_dirent name n = \<lparr>de_name = name, de_metadata = ok (as_dirent n),
     de_is_dir = default_de_is_dir (ok (as_dirent n)), de_is_symlink = default_de_is_symlink (ok (as_dirent n))\<rparr>"

definition memfs_read_dir :: "dav_path \<Rightarrow> read_dir_meta \<Rightarrow> (mem_fs, fs_error, (fs_error + mem_fs dirent) list) act" where
  "memfs_read_dir path rdm = on_tree (\<lambda>_.
     bind (lift_lookup (\<lambda>t. fs_lookup t (as_bytes path))) (\<lambda>i.
     bind (lift_lookup (\<lambda>t. get_node t i)) (\<lambda>n.
       if \<not> node_is_dir n then fail Forbidden
       else bind (lift_lookup (\<lambda>t. get_children t i)) (\<lambda>cs.
         lift_lookup (\<lambda>t. Inr (concat (map (\<lambda>(name, c).
           case get_node t c of Inr nd \<Rightarrow> [Inr (mem_dirent name nd)] | Inl _ \<Rightarrow> []) cs)))))))"

definition memfs_create_dir :: "dav_path \<Rightarrow> (mem_fs, fs_error, unit) act" where
  "memfs_create_dir path = on_tree (\<lambda>now.
     bind (lift_lookup (\<lambda>t. lookup_parent t (as_bytes path))) (\<lambda>parent_id.
     bind (add_child parent_id (mem_file_name (as_bytes path)) (new_dir now) False) (\<lambda>_.
     get_node_mut parent_id (update_mtime now))))"

definition memfs_remove_file :: "dav_path \<Rightarrow> (mem_fs, fs_error, unit) act" where
  "memfs_remove_file path = on_tree (\<lambda>now.
     bind (lift_lookup (\<lambda>t. lookup_parent t (as_bytes path))) (\<lambda>parent_id.
     bind (lift_lookup (\<lambda>t. fs_lookup t (as_bytes path))) (\<lambda>node_id.
     bind (delete_node node_id) (\<lambda>_.
     get_node_mut parent_id (update_mtime now)))))"

definition memfs_remove_dir :: "dav_path \<Rightarrow> (mem_fs, fs_error, unit) act" where
  "memfs_remove_dir path = on_tree (\<lambda>now.
     bind (lift_lookup (\<lambda>t. lookup_parent t (as_bytes path))) (\<lambda>parent_id.
     bind (lift_lookup (\<lambda>t. fs_lookup t (as_bytes path))) (\<lambda>node_id.
     bind (delete_node node_id) (\<lambda>_.
     get_node_mut parent_id (update_mtime now)))))"

text \<open>The guard of \<^verbatim>\<open>rename\<close>: an existing collection is not replaced.\<close>

definition refuse_dir :: "bytes \<Rightarrow> (fs_tree, fs_error, unit) act" where
  "refuse_dir path = (\<lambda>t. case fs_lookup t path of
       Inl _ \<Rightarrow> Some (Inr (), t)
     | Inr existing \<Rightarrow> (case get_node t existing of
          Inl e \<Rightarrow> Some (Inl e, t)
        | Inr n \<Rightarrow> if node_is_dir n then Some (Inl Exists, t) else Some (Inr (), t)))"

definition memfs_rename :: "dav_path \<Rightarrow> dav_path \<Rightarrow> (mem_fs, fs_error, unit) act" where
  "memfs_rename source dest = on_tree (\<lambda>now.
     bind (lift_lookup (\<lambda>t. fs_lookup t (as_bytes source))) (\<lambda>node_id.
     bind (lift_lookup (\<lambda>t. lookup_parent t (as_bytes source))) (\<lambda>parent_id.
     bind (lift_lookup (\<lambda>t. lookup_parent t (as_bytes dest))) (\<lambda>dst_id.
     bind (refuse_dir (as_bytes dest)) (\<lambda>_.
     bind (move_node node_id dst_id (mem_file_name (as_bytes dest)) True) (\<lambda>_.
     bind (get_node_mut parent_id (update_mtime now)) (\<lambda>_.
     get_node_mut dst_id (update_mtime now))))))))"

definition memfs_copy :: "dav_path \<Rightarrow> dav_path \<Rightarrow> (mem_fs, fs_error, unit) act" where
  "memfs_copy source dest = on_tree (\<lambda>now.
     bind (lift_lookup (\<lambda>t. fs_lookup t (as_bytes source))) (\<lambda>snode_id.
     bind (lift_lookup (\<lambda>t. get_node t snode_id)) (\<lambda>n.
       if node_is_dir n then fail Forbidden
       else
         bind (do_open now (as_bytes dest) (oo_for_write\<lparr>oo_create := True\<rparr>)) (\<lambda>_.
         bind (lift_lookup (\<lambda>t. fs_lookup t (as_bytes dest))) (\<lambda>dnode_id.
         bind (lift_lookup (\<lambda>t. get_node t snode_id)) (\<lambda>sn.
         bind (lift_lookup (\<lambda>_. as_file sn)) (\<lambda>src.
         bind (lift_lookup (\<lambda>t. get_node t dnode_id)) (\<lambda>dn.
         bind (lift_lookup (\<lambda>_. as_file dn)) (\<lambda>dst.
           get_node_mut dnode_id (\<lambda>_. MFile (dst\<lparr>fl_props := fl_props src, fl_data := fl_data src,
             fl_mtime := now\<rparr>)))))))))))"

definition memfs_set_modified :: "dav_path \<Rightarrow> systime \<Rightarrow> (mem_fs, fs_error, unit) act" where
  "memfs_set_modified path tm = on_tree (\<lambda>_.
     bind (lift_lookup (\<lambda>t. fs_lookup t (as_bytes path))) (\<lambda>i. get_node_mut i (update_mtime tm)))"

definition memfs_set_created :: "dav_path \<Rightarrow> systime \<Rightarrow> (mem_fs, fs_error, unit) act" where
  "memfs_set_created path tm = on_tree (\<lambda>_.
     bind (lift_lookup (\<lambda>t. fs_lookup t (as_bytes path))) (\<lambda>i. get_node_mut i (update_crtime tm)))"

section \<open>Properties\<close>

definition propkey :: "bytes option \<Rightarrow> bytes \<Rightarrow> bytes" where
  "propkey ns name = (case ns of None \<Rightarrow> [] | Some n \<Rightarrow> n) @ name"

definition cloneprop :: "dav_prop \<Rightarrow> dav_prop" where
  "cloneprop p = p\<lparr>pr_xml := None\<rparr>"

fun patch_loop :: "(bool \<times> dav_prop) list \<Rightarrow> (bytes \<times> dav_prop) list \<Rightarrow>
    (bytes \<times> dav_prop) list \<times> (status \<times> dav_prop) list" where
  "patch_loop [] props = (props, [])"
| "patch_loop ((st, p) # ps) props =
     (let props' = (if st then AList.update (propkey (pr_ns p) (pr_name p)) p props
                    else AList.delete (propkey (pr_ns p) (pr_name p)) props);
          (final, res) = patch_loop ps props'
      in (final, (200, cloneprop p) # res))"

definition memfs_patch_props :: "dav_path \<Rightarrow> (bool \<times> dav_prop) list \<Rightarrow>
    (mem_fs, fs_error, (status \<times> dav_prop) list) act" where
  "memfs_patch_props path patch = on_tree (\<lambda>_.
     bind (lift_lookup (\<lambda>t. fs_lookup t (as_bytes path))) (\<lambda>i.
     bind (lift_lookup (\<lambda>t. get_node t i)) (\<lambda>n.
     bind (get_node_mut i (set_node_props (fst (patch_loop patch (node_props n))))) (\<lambda>_.
       ok (snd (patch_loop patch (node_props n)))))))"

definition memfs_get_props :: "dav_path \<Rightarrow> bool \<Rightarrow> (mem_fs, fs_error, dav_prop list) act" where
  "memfs_get_props path do_content = on_tree (\<lambda>_.
     bind (lift_lookup (\<lambda>t. fs_lookup t (as_bytes path))) (\<lambda>i.
     bind (lift_lookup (\<lambda>t. get_node t i)) (\<lambda>n.
       ok (map (\<lambda>(_, p). if do_content then p else cloneprop p) (node_props n)))))"

definition memfs_get_prop :: "dav_path \<Rightarrow> dav_prop \<Rightarrow> (mem_fs, fs_error, bytes) act" where
  "memfs_get_prop path prop = on_tree (\<lambda>_.
     bind (lift_lookup (\<lambda>t. fs_lookup t (as_bytes path))) (\<lambda>i.
     bind (lift_lookup (\<lambda>t. get_node t i)) (\<lambda>n.
       case map_of (node_props n) (propkey (pr_ns prop) (pr_name prop)) of
         None \<Rightarrow> fail NotFound
       | Some p \<Rightarrow> (case pr_xml p of None \<Rightarrow> fail NotFound | Some x \<Rightarrow> ok x))))"

definition memfs_mark :: "(dir_node \<Rightarrow> dir_node) \<Rightarrow> dav_path \<Rightarrow> (mem_fs, fs_error, unit) act" where
  "memfs_mark g path = on_tree (\<lambda>_.
     bind (lift_lookup (\<lambda>t. fs_lookup t (as_bytes path))) (\<lambda>i.
     bind (lift_lookup (\<lambda>t. get_node t i)) (\<lambda>n.
       case n of
         MDir d \<Rightarrow> get_node_mut i (\<lambda>_. MDir (g d))
       | MFile _ \<Rightarrow> fail Forbidden)))"

definition memfs_mark_calendar :: "dav_path \<Rightarrow> (mem_fs, fs_error, unit) act" where
  "memfs_mark_calendar = memfs_mark (\<lambda>d. d\<lparr>dn_is_calendar := True\<rparr>)"

definition memfs_mark_addressbook :: "dav_path \<Rightarrow> (mem_fs, fs_error, unit) act" where
  "memfs_mark_addressbook = memfs_mark (\<lambda>d. d\<lparr>dn_is_addressbook := True\<rparr>)"

section \<open>Open files\<close>

definition file_of :: "fs_tree \<Rightarrow> nat \<Rightarrow> fs_error + file_node" where
  "file_of t i = (case get_node t i of Inl e \<Rightarrow> Inl e | Inr n \<Rightarrow> as_file n)"

definition memf_metadata :: "mem_file \<Rightarrow> (mem_fs, fs_error, dav_meta \<times> mem_file) act" where
  "memf_metadata h = on_tree (\<lambda>_.
     bind (lift_lookup (\<lambda>t. get_node t (mh_node h))) (\<lambda>n. ok (as_dirent n, h)))"

definition memf_read_bytes :: "mem_file \<Rightarrow> nat \<Rightarrow> (mem_fs, fs_error, bytes \<times> mem_file) act" where
  "memf_read_bytes h count = on_tree (\<lambda>_.
     bind (lift_lookup (\<lambda>t. file_of t (mh_node h))) (\<lambda>file.
       let curlen = length (fl_data file);
           start = (if curlen < mh_pos h then curlen else mh_pos h);
           end0 = saturating_add (mh_pos h) count;
           endp = (if curlen < end0 then curlen else end0);
           cnt = endp - start
       in ok (take cnt (drop start (fl_data file)), h\<lparr>mh_pos := mh_pos h + cnt\<rparr>)))"

text \<open>\<^verbatim>\<open>grow_to\<close>; \<open>avail\<close> is the largest buffer the allocator grants.\<close>

definition grow_to :: "nat \<Rightarrow> nat \<Rightarrow> bytes \<Rightarrow> fs_error + bytes" where
  "grow_to avail endp dat =
     (if length dat < endp then
        (if avail < endp then Inl InsufficientStorage
         else Inr (dat @ replicate (endp - length dat) (CHR 0x00)))
      else Inr dat)"

definition splice :: "nat \<Rightarrow> bytes \<Rightarrow> bytes \<Rightarrow> bytes" where
  "splice pos buf dat = take pos dat @ buf @ drop (pos + length buf) dat"

definition memf_write_bytes :: "nat \<Rightarrow> mem_file \<Rightarrow> bytes \<Rightarrow> (mem_fs, fs_error, mem_file) act" where
  "memf_write_bytes avail h buf = on_tree (\<lambda>now.
     bind (lift_lookup (\<lambda>t. file_of t (mh_node h))) (\<lambda>file.
       let pos = (if mh_append h then length (fl_data file) else mh_pos h)
       in case checked_add pos (length buf) of
            None \<Rightarrow> fail TooLarge
          | Some endp \<Rightarrow> (case grow_to avail endp (fl_data file) of
               Inl e \<Rightarrow> fail e
             | Inr dat \<Rightarrow> bind (get_node_mut (mh_node h)
                   (\<lambda>_. MFile (file\<lparr>fl_data := splice pos buf dat, fl_mtime := now\<rparr>)))
                 (\<lambda>_. ok (h\<lparr>mh_pos := endp\<rparr>)))))"

text \<open>\<^verbatim>\<open>write_buf\<close>: the buffer comes in chunks.\<close>

fun write_chunks :: "bytes list \<Rightarrow> nat \<Rightarrow> bytes \<Rightarrow> nat \<times> bytes" where
  "write_chunks [] pos dat = (pos, dat)"
| "write_chunks (b # bs) pos dat = write_chunks bs (pos + length b) (splice pos b dat)"

definition memf_write_buf :: "nat \<Rightarrow> mem_file \<Rightarrow> bytes list \<Rightarrow> (mem_fs, fs_error, mem_file) act" where
  "memf_write_buf avail h buf = on_tree (\<lambda>now.
     bind (lift_lookup (\<lambda>t. file_of t (mh_node h))) (\<lambda>file.
       let pos = (if mh_append h then length (fl_data file) else mh_pos h)
       in case checked_add pos (length (concat buf)) of
            None \<Rightarrow> fail TooLarge
          | Some endp \<Rightarrow> (case grow_to avail endp (fl_data file) of
               Inl e \<Rightarrow> fail e
             | Inr dat \<Rightarrow>
                 let (pos', dat') = write_chunks buf pos dat
                 in bind (get_node_mut (mh_node h) (\<lambda>_. MFile (file\<lparr>fl_data := dat', fl_mtime := now\<rparr>)))
                      (\<lambda>_. ok (h\<lparr>mh_pos := pos'\<rparr>)))))"

definition memf_flush :: "mem_file \<Rightarrow> (mem_fs, fs_error, mem_file) act" where
  "memf_flush h = ok h"

definition invalid_seek :: fs_error where
  "invalid_seek = ioerror_to_fserror \<lparr>io_raw = None, io_kind = KInvalidInput\<rparr>"

definition memf_seek :: "mem_file \<Rightarrow> seek_from \<Rightarrow> (mem_fs, fs_error, nat \<times> mem_file) act" where
  "memf_seek h sp =
     bind (case sp of
             SeekStart n \<Rightarrow> ok (Inl n)
           | SeekCurrent off \<Rightarrow> ok (Inr (mh_pos h, off))
           | SeekEnd off \<Rightarrow> on_tree (\<lambda>_. bind (lift_lookup (\<lambda>t. file_of t (mh_node h)))
                (\<lambda>file. ok (Inr (length (fl_data file), off)))))
       (\<lambda>r. case r of
          Inl n \<Rightarrow> ok (n, h\<lparr>mh_pos := n\<rparr>)
        | Inr (start, off) \<Rightarrow>
           (case (if off < 0 then checked_sub start (nat (- off)) else checked_add start (nat off)) of
              None \<Rightarrow> fail invalid_seek
            | Some n \<Rightarrow> ok (n, h\<lparr>mh_pos := n\<rparr>)))"

definition memfs_ops :: "nat \<Rightarrow> (mem_fs, mem_file) fs_ops" where
  "memfs_ops avail =
     \<lparr>fs_open = memfs_open, fs_read_dir = memfs_read_dir, fs_metadata = memfs_metadata,
      fs_symlink_metadata = memfs_metadata, fs_create_dir = memfs_create_dir, fs_remove_dir = memfs_remove_dir,
      fs_remove_file = memfs_remove_file, fs_same_resource = default_same_resource, fs_rename = memfs_rename,
      fs_copy = memfs_copy, fs_set_accessed = (\<lambda>_ _. not_implemented), fs_set_modified = memfs_set_modified,
      fs_set_created = memfs_set_created, fs_have_props = (\<lambda>_ s. Some (True, s)),
      fs_patch_props = memfs_patch_props, fs_get_props = memfs_get_props, fs_get_prop = memfs_get_prop,
      fs_get_quota = not_implemented, fs_mark_calendar = memfs_mark_calendar,
      fs_mark_addressbook = memfs_mark_addressbook, f_metadata = memf_metadata,
      f_write_bytes = memf_write_bytes avail, f_write_buf = memf_write_buf avail, f_read_bytes = memf_read_bytes,
      f_seek = memf_seek, f_flush = memf_flush, f_redirect_url = (\<lambda>h. ok (None, h))\<rparr>"

end
