(* ===== verification/Mem_Fs_Props.thy ===== *)
theory Mem_Fs_Props
  imports Mem_Fs
begin

text \<open>
  The abstract view of the in-memory filesystem: a map from paths (segment lists) to nodes in which
  every non-root node has a directory above it.  The lemmas compute each tree action of
  \<^verbatim>\<open>src/memfs.rs\<close> on that view.
\<close>

section \<open>The map view\<close>

type_synonym fs_map = "bytes list \<Rightarrow> mem_node option"

definition is_dir_at :: "fs_map \<Rightarrow> bytes list \<Rightarrow> bool" where
  "is_dir_at m ks \<longleftrightarrow> (\<exists>d. m ks = Some (MDir d))"

definition dirs_above :: "fs_map \<Rightarrow> bool" where
  "dirs_above m \<longleftrightarrow> is_dir_at m [] \<and> (\<forall>ks k. m (ks @ [k]) \<noteq> None \<longrightarrow> is_dir_at m ks)"

definition fs_wf :: "fs_tree \<Rightarrow> bool" where
  "fs_wf t \<longleftrightarrow> wf_tree t \<and> dirs_above (tree_map t)"

text \<open>Why a path cannot be resolved: a file on the way, or nothing there.\<close>

definition lookup_err :: "fs_map \<Rightarrow> bytes list \<Rightarrow> fs_error" where
  "lookup_err m ks = (if \<exists>p f. strict_prefix p ks \<and> m p = Some (MFile f) then Forbidden else NotFound)"

lemma fs_wfE:
  assumes "fs_wf t"
  obtains d where "wf_rank t d" and "dirs_above (tree_map t)"
  using assms by (auto simp: fs_wf_def wf_tree_def)

lemma dir_above_prefix:
  assumes "dirs_above m" and "m ks \<noteq> None" and "strict_prefix p ks"
  shows "is_dir_at m p"
proof -
  from assms(3) obtain k zs where ks: "ks = (p @ [k]) @ zs"
    by (metis append.assoc append_Cons append_Nil neq_Nil_conv prefix_def strict_prefix_def self_append_conv)
  have "m ((p @ [k]) @ zs) \<noteq> None \<Longrightarrow> m (p @ [k]) \<noteq> None" for zs
  proof (induction zs rule: rev_induct)
    case (snoc z zs)
    then have "is_dir_at m ((p @ [k]) @ zs)" using assms(1) unfolding dirs_above_def by (metis append.assoc)
    then show ?case using snoc.IH by (auto simp: is_dir_at_def)
  qed simp
  with assms(2) ks have "m (p @ [k]) \<noteq> None" by simp
  with assms(1) show ?thesis unfolding dirs_above_def by blast
qed

lemma get_node_map:
  assumes "wf_rank t d" and "walk t ROOT_ID ks = Some i"
  shows "\<exists>n. get_node t i = Inr n \<and> tree_map t ks = Some n"
proof -
  obtain n where "tr_nodes t i = Some n" using walk_root_dom [OF assms] by blast
  with assms(2) show ?thesis by (simp add: get_node_def tree_map_def)
qed

lemma get_child_walk:
  "walk t ROOT_ID pre = Some i \<Longrightarrow> get_child t i k = (case walk t ROOT_ID (pre @ [k]) of None \<Rightarrow> Inl NotFound | Some c \<Rightarrow> Inr c)"
  by (simp add: walk_snoc get_child_def child_def split: option.splits)

lemma lookup_segs_from_ok:
  assumes wf: "wf_rank t d" and da: "dirs_above (tree_map t)" and w: "walk t ROOT_ID pre = Some i"
  shows "lookup_segs_from t i ks =
    (case walk t ROOT_ID (pre @ ks) of
       Some c \<Rightarrow> Inr c
     | None \<Rightarrow> Inl (lookup_err (tree_map t) (pre @ ks)))"
  using w
proof (induction ks arbitrary: i pre)
  case Nil
  then show ?case by simp
next
  case (Cons k ks)
  obtain n where n: "get_node t i = Inr n" "tree_map t pre = Some n" using get_node_map [OF wf Cons.prems] by blast
  show ?case
  proof (cases n)
    case (MFile f)
    have none: "tree_map t (pre @ k # ks) = None"
    proof (rule ccontr)
      assume "tree_map t (pre @ k # ks) \<noteq> None"
      moreover have "strict_prefix pre (pre @ k # ks)" by (simp add: strict_prefix_def)
      ultimately have "is_dir_at (tree_map t) pre" using dir_above_prefix [OF da] by blast
      with n MFile show False by (simp add: is_dir_at_def)
    qed
    then have "walk t ROOT_ID (pre @ k # ks) = None" using tree_map_None_iff [OF wf] by blast
    moreover have "strict_prefix pre (pre @ k # ks)" by (simp add: strict_prefix_def)
    then have "lookup_err (tree_map t) (pre @ k # ks) = Forbidden"
      unfolding lookup_err_def using n MFile by auto
    ultimately show ?thesis using n MFile by simp
  next
    case (MDir dn)
    show ?thesis
    proof (cases "walk t ROOT_ID (pre @ [k])")
      case (Some c)
      then have "get_child t i k = Inr c" using get_child_walk [OF Cons.prems] by simp
      with n MDir Cons.IH [OF Some, unfolded append.assoc append_Cons append_Nil] show ?thesis by simp
    next
      case None
      have wn: "walk t ROOT_ID (pre @ k # ks) = None"
        using None walk_append [of t ROOT_ID "pre @ [k]" ks] by simp
      have "\<not> (strict_prefix p (pre @ k # ks) \<and> tree_map t p = Some (MFile f))" for p f
      proof
        assume p: "strict_prefix p (pre @ k # ks) \<and> tree_map t p = Some (MFile f)"
        then have "prefix p pre \<or> prefix (pre @ [k]) p"
          by (auto simp: strict_prefix_def prefix_append prefix_Cons)
        then show False
        proof
          assume "prefix (pre @ [k]) p"
          then obtain zs where "p = (pre @ [k]) @ zs" by (auto simp: prefix_def)
          then have "walk t ROOT_ID p = None" using None walk_append [of t ROOT_ID "pre @ [k]" zs] by simp
          then have "tree_map t p = None" using tree_map_None_iff [OF wf, of p] by simp
          with p show False by simp
        next
          assume "prefix p pre"
          with n p MDir have "strict_prefix p pre" by (auto simp: strict_prefix_def)
          with dir_above_prefix [OF da _ this] n p show False by (auto simp: is_dir_at_def)
        qed
      qed
      then have "lookup_err (tree_map t) (pre @ k # ks) = NotFound" unfolding lookup_err_def by auto
      with n MDir None wn get_child_walk [OF Cons.prems] show ?thesis by simp
    qed
  qed
qed

lemma lookup_segs_ok:
  assumes "fs_wf t"
  shows "lookup_segs t ks = (case walk t ROOT_ID ks of Some c \<Rightarrow> Inr c | None \<Rightarrow> Inl (lookup_err (tree_map t) ks))"
proof -
  obtain d where d: "wf_rank t d" "dirs_above (tree_map t)" using assms by (rule fs_wfE)
  have "walk t ROOT_ID [] = Some ROOT_ID" by simp
  from lookup_segs_from_ok [OF d this, of ks, unfolded append_Nil] show ?thesis by (simp add: lookup_segs_def)
qed

text \<open>The two lookups of the code on the view.\<close>

lemma fs_lookup_ok:
  assumes "fs_wf t"
  shows "case fs_lookup t path of
      Inr i \<Rightarrow> walk t ROOT_ID (path_segs path) = Some i \<and> tree_map t (path_segs path) \<noteq> None
    | Inl e \<Rightarrow> tree_map t (path_segs path) = None \<and> e = lookup_err (tree_map t) (path_segs path)"
proof -
  obtain d where d: "wf_rank t d" using assms by (rule fs_wfE)
  show ?thesis using lookup_segs_ok [OF assms, of "path_segs path"] tree_map_None_iff [OF d, of "path_segs path"]
    by (auto simp: fs_lookup_def split: option.splits)
qed

lemma lookup_parent_ok:
  assumes "fs_wf t"
  shows "case lookup_parent t path of
      Inr i \<Rightarrow> walk t ROOT_ID (butlast (path_segs path)) = Some i \<and> is_dir_at (tree_map t) (butlast (path_segs path))
    | Inl e \<Rightarrow> \<not> is_dir_at (tree_map t) (butlast (path_segs path)) \<and>
        e = (if tree_map t (butlast (path_segs path)) = None then lookup_err (tree_map t) (butlast (path_segs path))
             else Forbidden)"
proof -
  let ?ks = "butlast (path_segs path)"
  obtain d where d: "wf_rank t d" using assms by (rule fs_wfE)
  show ?thesis
  proof (cases "walk t ROOT_ID ?ks")
    case None
    then have "tree_map t ?ks = None" using tree_map_None_iff [OF d] by blast
    with None show ?thesis using lookup_segs_ok [OF assms, of ?ks] by (simp add: lookup_parent_def is_dir_at_def)
  next
    case (Some i)
    from get_node_map [OF d Some] obtain n where "get_node t i = Inr n" "tree_map t ?ks = Some n" by blast
    with Some show ?thesis using lookup_segs_ok [OF assms, of ?ks]
      by (cases n) (simp_all add: lookup_parent_def is_dir_at_def)
  qed
qed

section \<open>Changing one node\<close>

lemma set_node_ok:
  assumes wf: "wf_tree t" and w: "walk t ROOT_ID ks = Some i"
  shows "\<exists>t'. get_node_mut i f t = Some (Inr (), t') \<and> wf_tree t' \<and> walk t' = walk t \<and>
    tree_map t' = (tree_map t)(ks := map_option f (tree_map t ks))"
proof -
  obtain d where d: "wf_rank t d" using wf by (auto simp: wf_tree_def)
  obtain n where n: "tr_nodes t i = Some n" using walk_root_dom [OF d w] by blast
  then obtain t' where t': "get_node_mut i f t = Some (Inr (), t')" by (simp add: get_node_mut_def)
  have "child t' = child t" by (rule get_node_mut_child [OF t'])
  then have "walk t' = walk t" by (rule walk_child_cong)
  with t' get_node_mut_wf [OF d t'] get_node_mut_map [OF d t' w] show ?thesis
    by (auto simp: wf_tree_def)
qed

lemma dirs_above_update:
  assumes "dirs_above m" and "m ks = Some n" and "node_is_dir n' = node_is_dir n"
  shows "dirs_above (m(ks \<mapsto> n'))"
proof -
  have same: "is_dir_at (m(ks \<mapsto> n')) xs = is_dir_at m xs" for xs
    using assms(2,3) by (cases n; cases n') (auto simp: is_dir_at_def)
  have dom: "(m(ks \<mapsto> n')) xs \<noteq> None \<longleftrightarrow> m xs \<noteq> None" for xs using assms(2) by auto
  show ?thesis using assms(1) unfolding dirs_above_def same dom .
qed

lemma dirs_above_add:
  assumes "dirs_above m" and "is_dir_at m ks" and "\<forall>zs. prefix (ks @ [k]) zs \<longrightarrow> m zs = None"
  shows "dirs_above (m(ks @ [k] \<mapsto> n))"
  unfolding dirs_above_def
proof (intro conjI allI impI)
  show "is_dir_at (m(ks @ [k] \<mapsto> n)) []" using assms(1) by (simp add: dirs_above_def is_dir_at_def)
  fix xs x assume a: "(m(ks @ [k] \<mapsto> n)) (xs @ [x]) \<noteq> None"
  show "is_dir_at (m(ks @ [k] \<mapsto> n)) xs"
  proof (cases "xs @ [x] = ks @ [k]")
    case True
    with assms(2) show ?thesis by (simp add: is_dir_at_def)
  next
    case False
    with a have mx: "m (xs @ [x]) \<noteq> None" by (auto split: if_splits)
    then have "xs \<noteq> ks @ [k]" using assms(3) by (auto simp: prefix_def)
    with mx assms(1) show ?thesis by (auto simp: dirs_above_def is_dir_at_def)
  qed
qed

lemma dirs_above_remove:
  assumes "dirs_above m" and "ks \<noteq> []" and "\<forall>k. m (ks @ [k]) = None"
  shows "dirs_above (m(ks := None))"
  unfolding dirs_above_def
proof (intro conjI allI impI)
  show "is_dir_at (m(ks := None)) []" using assms(1,2) by (simp add: dirs_above_def is_dir_at_def)
  fix xs x assume "(m(ks := None)) (xs @ [x]) \<noteq> None"
  then have mx: "m (xs @ [x]) \<noteq> None" by (auto split: if_splits)
  then have "is_dir_at m xs" using assms(1) unfolding dirs_above_def by blast
  moreover have "xs \<noteq> ks" using mx assms(3) by auto
  ultimately show "is_dir_at (m(ks := None)) xs" by (simp add: is_dir_at_def)
qed

lemma update_mtime_dir [simp]: "node_is_dir (update_mtime now n) = node_is_dir n"
  by (cases n) simp_all

lemma update_crtime_dir [simp]: "node_is_dir (update_crtime now n) = node_is_dir n"
  by (cases n) simp_all

lemma set_node_props_dir [simp]: "node_is_dir (set_node_props ps n) = node_is_dir n"
  by (cases n) simp_all

text \<open>A directory whose modification time is set.\<close>

definition touch :: "systime \<Rightarrow> bytes list \<Rightarrow> fs_map \<Rightarrow> fs_map" where
  "touch now ks m = m(ks := map_option (update_mtime now) (m ks))"

lemma touch_dirs: "dirs_above m \<Longrightarrow> dirs_above (touch now ks m)"
proof (cases "m ks")
  case (Some n)
  moreover assume "dirs_above m"
  ultimately show ?thesis using dirs_above_update [of m ks n "update_mtime now n"] by (simp add: touch_def)
qed (simp add: touch_def fun_upd_idem)

lemma touch_ok:
  assumes "fs_wf t" and "walk t ROOT_ID ks = Some i"
  shows "\<exists>t'. get_node_mut i (update_mtime now) t = Some (Inr (), t') \<and> fs_wf t' \<and> walk t' = walk t \<and>
    tree_map t' = touch now ks (tree_map t)"
proof -
  have "wf_tree t" "dirs_above (tree_map t)" using assms(1) by (simp_all add: fs_wf_def)
  with set_node_ok [OF this(1) assms(2), of "update_mtime now"] touch_dirs [OF this(2), of now ks]
  show ?thesis by (auto simp: fs_wf_def touch_def)
qed

end
