(* ===== verification/Mem_Fs_Spec.thy ===== *)
theory Mem_Fs_Spec
  imports Mem_Fs_Props
begin

text \<open>
  The operations of \<^verbatim>\<open>src/memfs.rs\<close> on the map view: every branch of every operation that changes
  the tree, errors included.  Each operation returns, and keeps the filesystem well-formed.
\<close>

section \<open>States\<close>

definition fs_map :: "mem_fs \<Rightarrow> fs_map" where
  "fs_map s = tree_map (mf_tree s)"

definition fs_ok :: "mem_fs \<Rightarrow> bool" where
  "fs_ok s = fs_wf (mf_tree s)"

definition segs_of :: "dav_path \<Rightarrow> bytes list" where
  "segs_of path = path_segs (as_bytes path)"

definition parent_err :: "fs_map \<Rightarrow> bytes list \<Rightarrow> fs_error" where
  "parent_err m ps = (if m ps = None then lookup_err m ps else Forbidden)"

text \<open>Running a step of the tree: the state with the tree replaced.\<close>

lemma on_tree_run:
  "a (mf_clock s) (mf_tree s) = Some (r, t) \<Longrightarrow> on_tree a s = Some (r, s\<lparr>mf_tree := t\<rparr>)"
  by (simp add: on_tree_def)

lemma lift_lookup_run: "lift_lookup f t = Some (f t, t)"
  by (simp add: lift_lookup_def)

lemma fs_ok_wf: "fs_ok s \<Longrightarrow> fs_wf (mf_tree s)"
  by (simp add: fs_ok_def)

lemma mem_file_name_last: "path_segs p \<noteq> [] \<Longrightarrow> butlast (path_segs p) @ [mem_file_name p] = path_segs p"
  by (simp add: mem_file_name_def Let_def)

text \<open>The two lookups, as facts to rewrite with.\<close>

lemma fs_lookup_cases:
  assumes "fs_wf t"
  obtains (found) i n where "fs_lookup t path = Inr i" and "walk t ROOT_ID (path_segs path) = Some i"
      and "get_node t i = Inr n" and "tree_map t (path_segs path) = Some n"
  | (missing) "fs_lookup t path = Inl (lookup_err (tree_map t) (path_segs path))"
      and "tree_map t (path_segs path) = None"
proof -
  obtain d where d: "wf_rank t d" using assms by (rule fs_wfE)
  show ?thesis
  proof (cases "fs_lookup t path")
    case (Inl e)
    with fs_lookup_ok [OF assms, of path] missing show ?thesis by auto
  next
    case (Inr i)
    with fs_lookup_ok [OF assms, of path] have w: "walk t ROOT_ID (path_segs path) = Some i" by simp
    from get_node_map [OF d w] found Inr w show ?thesis by blast
  qed
qed

lemma lookup_parent_cases:
  assumes "fs_wf t"
  obtains (found) i dn where "lookup_parent t path = Inr i"
      and "walk t ROOT_ID (butlast (path_segs path)) = Some i"
      and "tree_map t (butlast (path_segs path)) = Some (MDir dn)"
  | (missing) "lookup_parent t path = Inl (parent_err (tree_map t) (butlast (path_segs path)))"
      and "\<not> is_dir_at (tree_map t) (butlast (path_segs path))"
proof (cases "lookup_parent t path")
  case (Inl e)
  with lookup_parent_ok [OF assms, of path] missing show ?thesis by (auto simp: parent_err_def)
next
  case (Inr i)
  with lookup_parent_ok [OF assms, of path] found show ?thesis by (auto simp: is_dir_at_def)
qed

section \<open>Adding a node\<close>

lemma add_fresh:
  assumes wf: "fs_wf t" and w: "walk t ROOT_ID ps = Some p" and dir: "is_dir_at (tree_map t) ps"
    and none: "tree_map t (ps @ [k]) = None"
  shows "\<exists>i t'. add_child p k n ow t = Some (Inr i, t') \<and> fs_wf t' \<and>
    tree_map t' = (tree_map t)(ps @ [k] \<mapsto> n) \<and>
    walk t' ROOT_ID = (walk t ROOT_ID)(ps @ [k] \<mapsto> i)"
proof -
  obtain d where d: "wf_rank t d" and da: "dirs_above (tree_map t)" using wf by (rule fs_wfE)
  have nw: "walk t ROOT_ID (ps @ [k]) = None" using none tree_map_None_iff [OF d] by blast
  then have c: "child t p k = None" using w by (simp add: walk_snoc)
  obtain pn where pn: "tr_nodes t p = Some pn" using walk_root_dom [OF d w] by blast
  obtain t' where l: "link_new p k n t = Some (Inr (tr_next t), t')" using link_new_returns [OF d pn] by blast
  have m: "tree_map t' = (tree_map t)(ps @ [k] \<mapsto> n)" by (rule link_new_map [OF d w c l])
  have "\<forall>zs. prefix (ps @ [k]) zs \<longrightarrow> tree_map t zs = None"
  proof (intro allI impI)
    fix zs assume "prefix (ps @ [k]) zs"
    then obtain us where "zs = (ps @ [k]) @ us" by (auto simp: prefix_def)
    then have "walk t ROOT_ID zs = None" using nw walk_append [of t ROOT_ID "ps @ [k]" us] by simp
    then show "tree_map t zs = None" using tree_map_None_iff [OF d] by blast
  qed
  from dirs_above_add [OF da dir this, of n] have "dirs_above (tree_map t')" unfolding m .
  moreover have "wf_tree t'" using link_new_wf [OF d pn c l] by (auto simp: wf_tree_def)
  moreover have "add_child p k n ow t = Some (Inr (tr_next t), t')"
    using c pn l by (simp add: add_child_def child_def)
  moreover have "walk t' ROOT_ID = (walk t ROOT_ID)(ps @ [k] \<mapsto> tr_next t)"
    using link_new_walk [OF d w c l] by auto
  ultimately show ?thesis using m by (auto simp: fs_wf_def)
qed

lemma add_exists:
  assumes wf: "fs_wf t" and w: "walk t ROOT_ID ps = Some p" and some: "tree_map t (ps @ [k]) \<noteq> None"
  shows "add_child p k n False t = Some (Inl Exists, t)"
proof -
  obtain d where d: "wf_rank t d" using wf by (rule fs_wfE)
  have "walk t ROOT_ID (ps @ [k]) \<noteq> None" using some tree_map_None_iff [OF d, of "ps @ [k]"] by simp
  then obtain c where "child t p k = Some c" using w by (auto simp: walk_snoc)
  moreover obtain pn where "tr_nodes t p = Some pn" using walk_root_dom [OF d w] by blast
  ultimately show ?thesis by (simp add: add_child_def child_def)
qed

section \<open>Creating a directory\<close>

text \<open>\<open>new_target\<close>: where a new entry goes, the parent directory and the last name.\<close>

definition new_target :: "dav_path \<Rightarrow> bytes list" where
  "new_target path = butlast (segs_of path) @ [mem_file_name (as_bytes path)]"

lemma new_target_segs: "segs_of path \<noteq> [] \<Longrightarrow> new_target path = segs_of path"
  by (simp add: new_target_def segs_of_def mem_file_name_last)

lemma memfs_create_dir_ok:
  assumes ok: "fs_ok s"
  shows "\<exists>r s'. memfs_create_dir path s = Some (r, s') \<and> fs_ok s' \<and> mf_clock s' = mf_clock s \<and>
    (if \<not> is_dir_at (fs_map s) (butlast (segs_of path)) then
       r = Inl (parent_err (fs_map s) (butlast (segs_of path))) \<and> s' = s
     else if fs_map s (new_target path) \<noteq> None then r = Inl Exists \<and> s' = s
     else r = Inr () \<and> fs_map s' = touch (mf_clock s) (butlast (segs_of path))
            ((fs_map s)(new_target path \<mapsto> new_dir (mf_clock s))))"
proof -
  let ?t = "mf_tree s" and ?now = "mf_clock s" and ?ps = "butlast (segs_of path)"
  note wf = fs_ok_wf [OF ok]
  show ?thesis
  proof (cases rule: lookup_parent_cases [OF wf, of "as_bytes path"])
    case 2
    note missing = 2
    have "memfs_create_dir path s = Some (Inl (parent_err (tree_map ?t) (butlast (path_segs (as_bytes path)))), s)"
      by (simp add: memfs_create_dir_def on_tree_def lift_lookup_def missing)
    with missing(2) ok show ?thesis by (simp add: fs_map_def segs_of_def)
  next
    case (1 i dn)
    note found = 1
    have dir: "is_dir_at (tree_map ?t) ?ps" using found(3) by (simp add: is_dir_at_def segs_of_def)
    have w: "walk ?t ROOT_ID ?ps = Some i" using found(2) by (simp add: segs_of_def)
    show ?thesis
    proof (cases "fs_map s (new_target path) = None")
      case False
      then have "add_child i (mem_file_name (as_bytes path)) (new_dir ?now) False ?t = Some (Inl Exists, ?t)"
        using add_exists [OF wf w] by (simp add: fs_map_def new_target_def)
      then have "memfs_create_dir path s = Some (Inl Exists, s)"
        by (simp add: memfs_create_dir_def on_tree_def lift_lookup_def found(1))
      with False dir ok show ?thesis by (simp add: fs_map_def)
    next
      case True
      then have "tree_map ?t (?ps @ [mem_file_name (as_bytes path)]) = None"
        by (simp add: fs_map_def new_target_def)
      from add_fresh [OF wf w dir this, of "new_dir ?now" False] obtain c t1 where
        t1: "add_child i (mem_file_name (as_bytes path)) (new_dir ?now) False ?t = Some (Inr c, t1)"
          "fs_wf t1" "tree_map t1 = (fs_map s)(new_target path \<mapsto> new_dir ?now)"
          "walk t1 ROOT_ID = (walk ?t ROOT_ID)(new_target path \<mapsto> c)"
        by (auto simp: fs_map_def new_target_def)
      have "walk t1 ROOT_ID ?ps = Some i" using t1(4) w by (simp add: new_target_def)
      from touch_ok [OF t1(2) this, of ?now] obtain t2 where
        t2: "get_node_mut i (update_mtime ?now) t1 = Some (Inr (), t2)" "fs_wf t2"
          "tree_map t2 = touch ?now ?ps (tree_map t1)" by blast
      have "memfs_create_dir path s = Some (Inr (), s\<lparr>mf_tree := t2\<rparr>)"
        by (simp add: memfs_create_dir_def on_tree_def lift_lookup_def found(1) t1(1) t2(1))
      with True dir t2(2,3) t1(3) show ?thesis by (simp add: fs_map_def fs_ok_def)
    qed
  qed
qed

section \<open>Removing\<close>

lemma delete_ok:
  assumes wf: "fs_wf t" and w: "walk t ROOT_ID ks = Some i"
  shows "\<exists>r t'. delete_node i t = Some (r, t') \<and> fs_wf t' \<and>
    (if ks = [] \<or> (\<exists>k. tree_map t (ks @ [k]) \<noteq> None) then r = Inl Forbidden \<and> t' = t
     else (\<exists>n. r = Inr n) \<and> tree_map t' = (tree_map t)(ks := None) \<and>
          walk t' ROOT_ID = (walk t ROOT_ID)(ks := None))"
proof -
  obtain d where d: "wf_rank t d" and da: "dirs_above (tree_map t)" using wf by (rule fs_wfE)
  obtain n where n: "tr_nodes t i = Some n" using walk_root_dom [OF d w] by blast
  have root: "i = ROOT_ID \<longleftrightarrow> ks = []" using walk_inj_iff [OF d w, of "[]" ROOT_ID] by auto
  note leaf = no_children_iff [OF d w n]
  show ?thesis
  proof (cases "ks = [] \<or> nd_children n \<noteq> []")
    case True
    with n root have "delete_node i t = Some (Inl Forbidden, t)" by (auto simp: delete_node_def)
    with True leaf wf show ?thesis by auto
  next
    case False
    then have "i \<noteq> ROOT_ID" "nd_children n = []" using root by auto
    from delete_node_ok [OF d w this(1) n this(2)] obtain t' where
      t': "delete_node i t = Some (Inr n, t')" "cut_rel d t t' (\<lambda>ks'. ks' = ks)" by blast
    have m: "tree_map t' = (tree_map t)(ks := None)" using cut_rel_map [OF t'(2)] by auto
    have "dirs_above (tree_map t')" unfolding m using da False leaf by (intro dirs_above_remove) auto
    moreover have "wf_tree t'" "walk t' ROOT_ID = (walk t ROOT_ID)(ks := None)"
      using t'(2) by (auto simp: cut_rel_def wf_tree_def)
    ultimately show ?thesis using m t'(1) False leaf by (auto simp: fs_wf_def)
  qed
qed

lemma memfs_remove_ok:
  assumes ok: "fs_ok s"
  shows "\<exists>r s'. memfs_remove_file path s = Some (r, s') \<and> memfs_remove_dir path s = Some (r, s') \<and> fs_ok s' \<and>
    mf_clock s' = mf_clock s \<and>
    (if \<not> is_dir_at (fs_map s) (butlast (segs_of path)) then
       r = Inl (parent_err (fs_map s) (butlast (segs_of path))) \<and> s' = s
     else if fs_map s (segs_of path) = None then r = Inl (lookup_err (fs_map s) (segs_of path)) \<and> s' = s
     else if segs_of path = [] \<or> (\<exists>k. fs_map s (segs_of path @ [k]) \<noteq> None) then r = Inl Forbidden \<and> s' = s
     else r = Inr () \<and> fs_map s' = touch (mf_clock s) (butlast (segs_of path)) ((fs_map s)(segs_of path := None)))"
proof -
  let ?t = "mf_tree s" and ?now = "mf_clock s" and ?ps = "butlast (segs_of path)"
  have same: "memfs_remove_dir path s = memfs_remove_file path s"
    by (simp add: memfs_remove_dir_def memfs_remove_file_def)
  note wf = fs_ok_wf [OF ok]
  show ?thesis
  proof (cases rule: lookup_parent_cases [OF wf, of "as_bytes path"])
    case 2
    note missing = 2
    have "memfs_remove_file path s = Some (Inl (parent_err (tree_map ?t) (butlast (path_segs (as_bytes path)))), s)"
      by (simp add: memfs_remove_file_def on_tree_def lift_lookup_def missing)
    with missing(2) ok same show ?thesis by (simp add: fs_map_def segs_of_def)
  next
    case (1 p dn)
    note found = 1
    have dir: "is_dir_at (tree_map ?t) ?ps" using found(3) by (simp add: is_dir_at_def segs_of_def)
    have wp: "walk ?t ROOT_ID ?ps = Some p" using found(2) by (simp add: segs_of_def)
    note parent = found(1)
    show ?thesis
    proof (cases rule: fs_lookup_cases [OF wf, of "as_bytes path"])
      case 2
      note missing = 2
      have "memfs_remove_file path s = Some (Inl (lookup_err (tree_map ?t) (path_segs (as_bytes path))), s)"
        by (simp add: memfs_remove_file_def on_tree_def lift_lookup_def missing parent)
      with missing(2) dir ok same show ?thesis by (simp add: fs_map_def segs_of_def)
    next
      case (1 i n)
      note found = 1
      have wi: "walk ?t ROOT_ID (segs_of path) = Some i" using found(2) by (simp add: segs_of_def)
      from delete_ok [OF wf wi] obtain r t1 where t1: "delete_node i ?t = Some (r, t1)" "fs_wf t1"
        and res: "if segs_of path = [] \<or> (\<exists>k. tree_map ?t (segs_of path @ [k]) \<noteq> None) then r = Inl Forbidden \<and> t1 = ?t
          else (\<exists>n. r = Inr n) \<and> tree_map t1 = (tree_map ?t)(segs_of path := None) \<and>
            walk t1 ROOT_ID = (walk ?t ROOT_ID)(segs_of path := None)" by blast
      show ?thesis
      proof (cases "segs_of path = [] \<or> (\<exists>k. tree_map ?t (segs_of path @ [k]) \<noteq> None)")
        case True
        with res have "r = Inl Forbidden" "t1 = ?t" by auto
        then have "memfs_remove_file path s = Some (Inl Forbidden, s)"
          using t1 by (simp add: memfs_remove_file_def on_tree_def lift_lookup_def parent found(1))
        with True dir ok same found(4) show ?thesis by (auto simp: fs_map_def segs_of_def)
      next
        case False
        with res obtain m where m: "r = Inr m" "tree_map t1 = (tree_map ?t)(segs_of path := None)"
          "walk t1 ROOT_ID = (walk ?t ROOT_ID)(segs_of path := None)" by auto
        have "?ps \<noteq> segs_of path"
          using False by (metis append_butlast_last_id append_self_conv not_Cons_self2)
        then have "walk t1 ROOT_ID ?ps = Some p" using m(3) wp by simp
        from touch_ok [OF t1(2) this, of ?now] obtain t2 where
          t2: "get_node_mut p (update_mtime ?now) t1 = Some (Inr (), t2)" "fs_wf t2"
            "tree_map t2 = touch ?now ?ps (tree_map t1)" by blast
        have "memfs_remove_file path s = Some (Inr (), s\<lparr>mf_tree := t2\<rparr>)"
          using t1(1) m(1) t2(1) by (simp add: memfs_remove_file_def on_tree_def lift_lookup_def parent found(1))
        with False dir same found(4) t2(2,3) m(2) show ?thesis by (auto simp: fs_map_def fs_ok_def segs_of_def)
      qed
    qed
  qed
qed

end
