(* ===== verification/Mem_Fs_Move.thy ===== *)
theory Mem_Fs_Move
  imports Mem_Fs_Spec
begin

text \<open>Renaming, opening and copying in the in-memory filesystem, \<^verbatim>\<open>src/memfs.rs\<close>.\<close>

section \<open>Renaming\<close>

lemma map_move_dirs:
  assumes da: "dirs_above m" and old: "m old \<noteq> None" "old \<noteq> []" and par: "is_dir_at m npp"
    and below: "\<not> prefix old npp" and leaf: "\<forall>k. m (npp @ [nk, k]) = None"
  shows "dirs_above (map_move old (npp @ [nk]) m)"
proof -
  let ?new = "npp @ [nk]" and ?m = "map_move old (npp @ [nk]) m"
  have nn: "prefix ?new npp \<longleftrightarrow> False" by (auto simp: prefix_def)
  show ?thesis
    unfolding dirs_above_def
  proof (intro conjI allI impI)
    show "is_dir_at ?m []"
      using da old(2) by (auto simp: map_move_def dirs_above_def is_dir_at_def prefix_def)
    fix ks k assume a: "?m (ks @ [k]) \<noteq> None"
    show "is_dir_at ?m ks"
    proof (cases "prefix ?new (ks @ [k])")
      case True
      then have mk: "m (old @ drop (length ?new) (ks @ [k])) \<noteq> None" using a by (simp add: map_move_def)
      show ?thesis
      proof (cases "prefix ?new ks")
        case pre: True
        then obtain zs where zs: "ks = ?new @ zs" by (auto simp: prefix_def)
        have "m ((old @ zs) @ [k]) \<noteq> None" using mk zs by simp
        then have "is_dir_at m (old @ zs)" using da unfolding dirs_above_def by blast
        then show ?thesis using pre zs by (simp add: map_move_def is_dir_at_def)
      next
        case False
        with True have "ks = npp" by (auto simp: prefix_snoc)
        then show ?thesis using par below nn by (simp add: map_move_def is_dir_at_def)
      qed
    next
      case False
      then have npre: "\<not> prefix ?new ks" by auto
      from False a have mk: "\<not> prefix old (ks @ [k])" "m (ks @ [k]) \<noteq> None"
        by (auto simp: map_move_def split: if_splits)
      have "is_dir_at m ks" using da mk(2) unfolding dirs_above_def by blast
      moreover have "\<not> prefix old ks" using mk(1) by auto
      ultimately show ?thesis using npre by (simp add: map_move_def is_dir_at_def)
    qed
  qed
qed

text \<open>The outcome of a rename, as a function of the view.\<close>

definition rename_result :: "systime \<Rightarrow> fs_map \<Rightarrow> dav_path \<Rightarrow> dav_path \<Rightarrow> (fs_error + fs_map)" where
  "rename_result now m source dest =
     (let a = segs_of source; b = segs_of dest
      in if m a = None then Inl (lookup_err m a)
         else if \<not> is_dir_at m (butlast b) then Inl (parent_err m (butlast b))
         else if is_dir_at m b then Inl Exists
         else if a = [] \<or> prefix a (butlast b) then Inl Forbidden
         else Inr (touch now (butlast b) (touch now (butlast a) (map_move a b m))))"

lemma memfs_rename_ok:
  assumes ok: "fs_ok s" and ne: "segs_of source \<noteq> segs_of dest"
  shows "\<exists>r s'. memfs_rename source dest s = Some (r, s') \<and> fs_ok s' \<and> mf_clock s' = mf_clock s \<and>
    (case rename_result (mf_clock s) (fs_map s) source dest of
       Inl e \<Rightarrow> r = Inl e \<and> s' = s
     | Inr m \<Rightarrow> r = Inr () \<and> fs_map s' = m)"
proof -
  let ?t = "mf_tree s" and ?now = "mf_clock s" and ?a = "segs_of source" and ?b = "segs_of dest"
  let ?m = "tree_map ?t"
  note wf = fs_ok_wf [OF ok]
  obtain d where d: "wf_rank ?t d" and da: "dirs_above ?m" using wf by (rule fs_wfE)
  show ?thesis
  proof (cases rule: fs_lookup_cases [OF wf, of "as_bytes source"])
    case 2
    have "memfs_rename source dest s = Some (Inl (lookup_err ?m (path_segs (as_bytes source))), s)"
      by (simp add: memfs_rename_def on_tree_def lift_lookup_def 2)
    with 2(2) ok show ?thesis by (simp add: fs_map_def segs_of_def rename_result_def)
  next
    case (1 i n)
    note src = 1
    have wi: "walk ?t ROOT_ID ?a = Some i" "?m ?a = Some n" using 1 by (simp_all add: segs_of_def)
    have par: "is_dir_at ?m (butlast ?a)"
    proof (cases "?a = []")
      case True
      with da show ?thesis by (simp add: dirs_above_def)
    next
      case False
      then have "?m (butlast ?a @ [last ?a]) \<noteq> None" using wi by simp
      with da show ?thesis unfolding dirs_above_def by blast
    qed
    obtain p where p: "lookup_parent ?t (as_bytes source) = Inr p" "walk ?t ROOT_ID (butlast ?a) = Some p"
      using lookup_parent_ok [OF wf, of "as_bytes source"] par
      by (cases "lookup_parent ?t (as_bytes source)") (auto simp: segs_of_def)
    show ?thesis
    proof (cases rule: lookup_parent_cases [OF wf, of "as_bytes dest"])
      case 2
      have "memfs_rename source dest s = Some (Inl (parent_err ?m (butlast (path_segs (as_bytes dest)))), s)"
        by (simp add: memfs_rename_def on_tree_def lift_lookup_def 2 src p)
      with 2(2) ok wi show ?thesis by (simp add: fs_map_def rename_result_def segs_of_def [of dest])
    next
      case (1 q dn)
      note dstp = 1
      have wq: "walk ?t ROOT_ID (butlast ?b) = Some q" "is_dir_at ?m (butlast ?b)"
        using 1 by (simp_all add: segs_of_def is_dir_at_def)
      show ?thesis
      proof (cases "is_dir_at ?m ?b")
        case True
        have "\<exists>j nd. fs_lookup ?t (as_bytes dest) = Inr j \<and> get_node ?t j = Inr nd \<and> node_is_dir nd"
          using True by (cases rule: fs_lookup_cases [OF wf, of "as_bytes dest"])
            (auto simp: is_dir_at_def segs_of_def)
        then have "memfs_rename source dest s = Some (Inl Exists, s)"
          by (auto simp: memfs_rename_def on_tree_def lift_lookup_def src p dstp refuse_dir_def bind_def)
        with True wq wi ok show ?thesis by (simp add: fs_map_def rename_result_def)
      next
        case False
        then have bne: "?b \<noteq> []" using da by (auto simp: dirs_above_def)
        define nk where "nk = mem_file_name (as_bytes dest)"
        have b: "butlast ?b @ [nk] = ?b" using bne by (simp add: nk_def segs_of_def mem_file_name_last)
        have pass: "refuse_dir (as_bytes dest) ?t = Some (Inr (), ?t)"
        proof (cases rule: fs_lookup_cases [OF wf, of "as_bytes dest"])
          case (1 j nd)
          with False have "\<not> node_is_dir nd" by (cases nd) (auto simp: is_dir_at_def segs_of_def)
          with 1 show ?thesis by (simp add: refuse_dir_def)
        qed (simp add: refuse_dir_def)
        have step: "memfs_rename source dest s = on_tree (\<lambda>now.
            bind (move_node i q nk True) (\<lambda>_. bind (get_node_mut p (update_mtime now)) (\<lambda>_.
            get_node_mut q (update_mtime now)))) s"
          by (simp add: memfs_rename_def on_tree_def lift_lookup_def src p dstp nk_def pass)
        show ?thesis
        proof (cases "?a = [] \<or> prefix ?a (butlast ?b)")
          case True
          have "move_node i q nk True ?t = Some (Inl Forbidden, ?t)"
          proof (cases "?a = []")
            case True
            then show ?thesis using wi(1) by (simp add: move_node_def)
          next
            case False
            with True obtain zs where "butlast ?b = ?a @ zs" by (auto simp: prefix_def)
            with wq wi have "walk ?t i zs = Some q" by (simp add: walk_append)
            with wf wi(1) show ?thesis by (intro move_node_below) (auto simp: fs_wf_def)
          qed
          then have "memfs_rename source dest s = Some (Inl Forbidden, s)" unfolding step by (simp add: on_tree_def)
          with True \<open>\<not> is_dir_at ?m ?b\<close> wq wi ok show ?thesis by (auto simp: fs_map_def rename_result_def)
        next
          case nb: False
          have ir: "i \<noteq> ROOT_ID" using walk_inj_iff [OF d wi(1), of "[]" ROOT_ID] nb by auto
          have nbp: "\<not> prefix ?a (butlast ?b)" using nb by simp
          have ane: "?a \<noteq> butlast ?b @ [nk]" using ne b by simp
          have leaf: "?m (butlast ?b @ [nk, x]) = None" for x
          proof (rule ccontr)
            assume "?m (butlast ?b @ [nk, x]) \<noteq> None"
            then have "?m ((butlast ?b @ [nk]) @ [x]) \<noteq> None" by simp
            then have "is_dir_at ?m (butlast ?b @ [nk])" using da unfolding dirs_above_def by blast
            with b \<open>\<not> is_dir_at ?m ?b\<close> show False by simp
          qed
          from move_node_ok [OF d wi(1) wq(1) ir nbp ane, of True] leaf obtain t1 where
            t1: "move_node i q nk True ?t = Some (Inr (), t1)" "wf_rank t1 (moved_rank ?t d i q)"
              "tree_map t1 = map_move ?a ?b ?m" "walk t1 ROOT_ID = map_move ?a ?b (walk ?t ROOT_ID)"
            by (auto simp: b)
          have "dirs_above (map_move ?a (butlast ?b @ [nk]) ?m)"
            by (rule map_move_dirs [OF da _ _ wq(2) nbp]) (use wi(2) nb leaf in auto)
          then have "dirs_above (tree_map t1)" by (simp only: t1(3) b)
          then have wf1: "fs_wf t1" using t1(2) by (auto simp: fs_wf_def wf_tree_def)
          have "\<not> prefix ?b (butlast ?a)"
          proof
            assume "prefix ?b (butlast ?a)"
            then have "strict_prefix ?b ?a" using nb
              by (metis append_butlast_last_id prefix_snoc strict_prefix_def same_prefix_prefix prefix_order.dual_order.trans
                  append_Nil2 not_Cons_self2 prefix_order.antisym prefixI)
            with dir_above_prefix [OF da _ this] wi(2) \<open>\<not> is_dir_at ?m ?b\<close> show False by simp
          qed
          moreover have "\<not> prefix ?a (butlast ?a)"
            using nb by (metis length_butlast prefix_length_le diff_less length_greater_0_conv not_le zero_less_one)
          ultimately have "walk t1 ROOT_ID (butlast ?a) = Some p" using t1(4) p(2) by (simp add: map_move_def)
          from touch_ok [OF wf1 this, of ?now] obtain t2 where
            t2: "get_node_mut p (update_mtime ?now) t1 = Some (Inr (), t2)" "fs_wf t2" "walk t2 = walk t1"
              "tree_map t2 = touch ?now (butlast ?a) (tree_map t1)" by blast
          have "\<not> prefix ?b (butlast ?b)"
            using bne by (metis length_butlast prefix_length_le diff_less length_greater_0_conv not_le zero_less_one)
          then have "walk t2 ROOT_ID (butlast ?b) = Some q" using t1(4) t2(3) wq nbp by (simp add: map_move_def)
          from touch_ok [OF t2(2) this, of ?now] obtain t3 where
            t3: "get_node_mut q (update_mtime ?now) t2 = Some (Inr (), t3)" "fs_wf t3"
              "tree_map t3 = touch ?now (butlast ?b) (tree_map t2)" by blast
          have "memfs_rename source dest s = Some (Inr (), s\<lparr>mf_tree := t3\<rparr>)"
            unfolding step using t1(1) t2(1) t3(1) by (simp add: on_tree_def)
          with nb \<open>\<not> is_dir_at ?m ?b\<close> wq wi t3(2,3) t2(4) t1(3) show ?thesis
            by (simp add: fs_map_def rename_result_def fs_ok_def Let_def)
        qed
      qed
    qed
  qed
qed

section \<open>Opening\<close>

text \<open>The outcome of \<open>do_open\<close>: the view afterwards, with the file at the path.\<close>

definition empty_file :: "systime \<Rightarrow> file_node \<Rightarrow> file_node" where
  "empty_file now f = f\<lparr>fl_data := [], fl_mtime := now\<rparr>"

definition blank_file :: "systime \<Rightarrow> file_node" where
  "blank_file now = \<lparr>fl_props = [], fl_mtime = now, fl_crtime = now, fl_data = []\<rparr>"

definition open_result :: "systime \<Rightarrow> fs_map \<Rightarrow> bytes list \<Rightarrow> open_options \<Rightarrow> fs_error + file_node" where
  "open_result now m ks opts =
     (case m ks of
        Some n \<Rightarrow>
          if oo_create_new opts then Inl Exists
          else (case n of
             MDir _ \<Rightarrow> Inl Forbidden
           | MFile f \<Rightarrow> Inr (if oo_truncate opts then empty_file now f else f))
      | None \<Rightarrow>
          if lookup_err m ks \<noteq> NotFound then Inl (lookup_err m ks)
          else if \<not> oo_create opts then Inl NotFound
          else if \<not> is_dir_at m (butlast ks) then Inl (parent_err m (butlast ks))
          else Inr (blank_file now))"

lemma lookup_err_cases: "lookup_err m ks = NotFound \<or> lookup_err m ks = Forbidden"
  by (simp add: lookup_err_def)

lemma set_file_ok:
  assumes wf: "fs_wf t" and w: "walk t ROOT_ID ks = Some i" and f: "tree_map t ks = Some (MFile f)"
    and g: "g (MFile f) = MFile f'"
  shows "\<exists>t'. get_node_mut i g t = Some (Inr (), t') \<and> fs_wf t' \<and> walk t' = walk t \<and>
    tree_map t' = (tree_map t)(ks \<mapsto> MFile f')"
proof -
  have "wf_tree t" and da: "dirs_above (tree_map t)" using wf by (simp_all add: fs_wf_def)
  from set_node_ok [OF this(1) w, of g] f g obtain t' where
    "get_node_mut i g t = Some (Inr (), t')" "wf_tree t'" "walk t' = walk t"
    "tree_map t' = (tree_map t)(ks \<mapsto> MFile f')" by auto
  with dirs_above_update [OF da f, of "MFile f'"] show ?thesis by (auto simp: fs_wf_def)
qed

lemma do_open_finish:
  assumes wf: "fs_wf t" and w: "walk t ROOT_ID ks = Some i" and f: "tree_map t ks = Some (MFile f)"
  shows "\<exists>t'. bind (if oo_truncate opts then
             get_node_mut i (\<lambda>n. case n of MFile f \<Rightarrow> MFile (f\<lparr>fl_data := [], fl_mtime := now\<rparr>) | MDir d \<Rightarrow> MDir d)
           else ok ()) (\<lambda>_. ok \<lparr>mh_node = i, mh_pos = 0, mh_append = oo_append opts\<rparr>) t =
      Some (Inr \<lparr>mh_node = i, mh_pos = 0, mh_append = oo_append opts\<rparr>, t') \<and> fs_wf t' \<and> walk t' = walk t \<and>
    tree_map t' = (tree_map t)(ks \<mapsto> MFile (if oo_truncate opts then empty_file now f else f))"
proof (cases "oo_truncate opts")
  case True
  from set_file_ok [OF wf w f, of "\<lambda>n. case n of MFile f \<Rightarrow> MFile (f\<lparr>fl_data := [], fl_mtime := now\<rparr>) | MDir d \<Rightarrow> MDir d"]
  obtain t' where "get_node_mut i (\<lambda>n. case n of MFile f \<Rightarrow> MFile (f\<lparr>fl_data := [], fl_mtime := now\<rparr>) | MDir d \<Rightarrow> MDir d) t =
      Some (Inr (), t')" "fs_wf t'" "walk t' = walk t"
    "tree_map t' = (tree_map t)(ks \<mapsto> MFile (f\<lparr>fl_data := [], fl_mtime := now\<rparr>))" by auto
  with True show ?thesis by (simp add: empty_file_def)
next
  case False
  have "(tree_map t)(ks \<mapsto> MFile f) = tree_map t" using f by auto
  with False wf show ?thesis by simp
qed

lemma do_open_ok:
  assumes wf: "fs_wf t"
  shows "\<exists>r t'. do_open now path opts t = Some (r, t') \<and> fs_wf t' \<and>
    (case open_result now (tree_map t) (path_segs path) opts of
       Inl e \<Rightarrow> r = Inl e \<and> t' = t
     | Inr f \<Rightarrow> (\<exists>i. r = Inr \<lparr>mh_node = i, mh_pos = 0, mh_append = oo_append opts\<rparr> \<and>
           walk t' ROOT_ID (path_segs path) = Some i \<and>
           (\<forall>ks j. walk t ROOT_ID ks = Some j \<longrightarrow> walk t' ROOT_ID ks = Some j)) \<and>
         tree_map t' = (tree_map t)(path_segs path \<mapsto> MFile f))"
proof (cases rule: fs_lookup_cases [OF wf, of path])
  case (1 i n)
  show ?thesis
  proof (cases "oo_create_new opts \<or> node_is_dir n")
    case True
    with 1 wf show ?thesis by (cases n) (auto simp: do_open_def open_result_def)
  next
    case False
    then obtain f where n: "n = MFile f" by (cases n) auto
    with 1 have f: "tree_map t (path_segs path) = Some (MFile f)" by simp
    from do_open_finish [OF wf 1(2) f, of opts now] obtain t' where
      "do_open now path opts t = Some (Inr \<lparr>mh_node = i, mh_pos = 0, mh_append = oo_append opts\<rparr>, t')"
      "fs_wf t'" "walk t' = walk t"
      "tree_map t' = (tree_map t)(path_segs path \<mapsto> MFile (if oo_truncate opts then empty_file now f else f))"
      using 1 n False by (auto simp: do_open_def)
    with 1 n False show ?thesis by (auto simp: open_result_def)
  qed
next
  case 2
  note missing = 2
  show ?thesis
  proof (cases "lookup_err (tree_map t) (path_segs path) = NotFound \<and> oo_create opts")
    case False
    with 2 wf lookup_err_cases [of "tree_map t" "path_segs path"] show ?thesis
      by (auto simp: do_open_def open_result_def)
  next
    case True
    show ?thesis
    proof (cases rule: lookup_parent_cases [OF wf, of path])
      case 2
      with True missing wf show ?thesis by (simp add: do_open_def open_result_def lift_lookup_def)
    next
      case (1 p dn)
      have dir: "is_dir_at (tree_map t) (butlast (path_segs path))" using 1(3) by (simp add: is_dir_at_def)
      have "path_segs path \<noteq> []"
      proof
        assume "path_segs path = []"
        with 1(3) missing(2) show False by simp
      qed
      then have segs: "butlast (path_segs path) @ [mem_file_name path] = path_segs path"
        by (rule mem_file_name_last)
      have none: "tree_map t (butlast (path_segs path) @ [mem_file_name path]) = None"
        using missing(2) segs by simp
      from add_fresh [OF wf 1(2) dir none, of "new_file now" True] obtain i t1 where
        t1: "add_child p (mem_file_name path) (new_file now) True t = Some (Inr i, t1)" "fs_wf t1"
          "tree_map t1 = (tree_map t)(path_segs path \<mapsto> new_file now)"
          "walk t1 ROOT_ID = (walk t ROOT_ID)(path_segs path \<mapsto> i)" unfolding segs by blast
      have w1: "walk t1 ROOT_ID (path_segs path) = Some i" using t1(4) by simp
      have f1: "tree_map t1 (path_segs path) = Some (MFile (blank_file now))"
        using t1(3) by (simp add: new_file_def blank_file_def)
      obtain d1 where "wf_rank t1 d1" using t1(2) by (rule fs_wfE)
      from get_node_map [OF this w1] f1 have g1: "get_node t1 i = Inr (MFile (blank_file now))" by auto
      from do_open_finish [OF t1(2) w1 f1, of opts now] obtain t2 where
        t2: "do_open now path opts t = Some (Inr \<lparr>mh_node = i, mh_pos = 0, mh_append = oo_append opts\<rparr>, t2)"
          "fs_wf t2" "walk t2 = walk t1"
          "tree_map t2 = (tree_map t1)(path_segs path \<mapsto> MFile (if oo_truncate opts then empty_file now (blank_file now) else blank_file now))"
        using True missing 1 t1(1) g1 by (auto simp: do_open_def lift_lookup_def)
      have e: "empty_file now (blank_file now) = blank_file now" by (simp add: empty_file_def blank_file_def)
      obtain d where d: "wf_rank t d" using wf by (rule fs_wfE)
      have "walk t ROOT_ID (path_segs path) = None" using missing(2) tree_map_None_iff [OF d] by blast
      then have "\<forall>ks j. walk t ROOT_ID ks = Some j \<longrightarrow> walk t2 ROOT_ID ks = Some j"
        using t1(4) t2(3) by auto
      with True missing dir t1(3) t2 w1 e show ?thesis by (simp add: open_result_def)
    qed
  qed
qed

end
