(* ===== verification/Mem_Fs_Files.thy ===== *)
theory Mem_Fs_Files
  imports Mem_Fs_Move
begin

text \<open>Copying, and reading and writing open files, in the in-memory filesystem, \<^verbatim>\<open>src/memfs.rs\<close>.\<close>

section \<open>Copying\<close>

definition copy_result :: "systime \<Rightarrow> fs_map \<Rightarrow> bytes list \<Rightarrow> bytes list \<Rightarrow> fs_error + fs_map" where
  "copy_result now m a b =
     (case m a of
        None \<Rightarrow> Inl (lookup_err m a)
      | Some (MDir _) \<Rightarrow> Inl Forbidden
      | Some (MFile src) \<Rightarrow> (case open_result now m b (oo_for_write\<lparr>oo_create := True\<rparr>) of
           Inl e \<Rightarrow> Inl e
         | Inr dst \<Rightarrow> Inr (m(b \<mapsto> MFile (dst\<lparr>fl_props := fl_props src, fl_data := fl_data src, fl_mtime := now\<rparr>)))))"

lemma memfs_copy_ok:
  assumes ok: "fs_ok s"
  shows "\<exists>r s'. memfs_copy source dest s = Some (r, s') \<and> fs_ok s' \<and> mf_clock s' = mf_clock s \<and>
    (case copy_result (mf_clock s) (fs_map s) (segs_of source) (segs_of dest) of
       Inl e \<Rightarrow> r = Inl e \<and> s' = s
     | Inr m \<Rightarrow> r = Inr () \<and> fs_map s' = m)"
proof -
  let ?t = "mf_tree s" and ?now = "mf_clock s" and ?a = "segs_of source" and ?b = "segs_of dest"
  let ?oo = "oo_for_write\<lparr>oo_create := True\<rparr>"
  note wf = fs_ok_wf [OF ok]
  show ?thesis
  proof (cases rule: fs_lookup_cases [OF wf, of "as_bytes source"])
    case 2
    have "memfs_copy source dest s = Some (Inl (lookup_err (tree_map ?t) (path_segs (as_bytes source))), s)"
      by (simp add: memfs_copy_def on_tree_def lift_lookup_def 2)
    with 2(2) ok show ?thesis by (simp add: fs_map_def segs_of_def copy_result_def)
  next
    case (1 i n)
    note src = 1
    have wi: "walk ?t ROOT_ID ?a = Some i" "tree_map ?t ?a = Some n" using 1 by (simp_all add: segs_of_def)
    show ?thesis
    proof (cases n)
      case (MDir dn)
      then have "memfs_copy source dest s = Some (Inl Forbidden, s)"
        by (simp add: memfs_copy_def on_tree_def lift_lookup_def src)
      with MDir ok wi show ?thesis by (simp add: fs_map_def copy_result_def)
    next
      case (MFile sf)
      from do_open_ok [OF wf, of ?now "as_bytes dest" ?oo] obtain r t1 where
        t1: "do_open ?now (as_bytes dest) ?oo ?t = Some (r, t1)" "fs_wf t1"
        and res: "case open_result ?now (tree_map ?t) ?b ?oo of
           Inl e \<Rightarrow> r = Inl e \<and> t1 = ?t
         | Inr f \<Rightarrow> (\<exists>i. r = Inr \<lparr>mh_node = i, mh_pos = 0, mh_append = oo_append ?oo\<rparr> \<and>
               walk t1 ROOT_ID ?b = Some i \<and>
               (\<forall>ks j. walk ?t ROOT_ID ks = Some j \<longrightarrow> walk t1 ROOT_ID ks = Some j)) \<and>
             tree_map t1 = (tree_map ?t)(?b \<mapsto> MFile f)" unfolding segs_of_def by blast
      show ?thesis
      proof (cases "open_result ?now (tree_map ?t) ?b ?oo")
        case (Inl e)
        with res t1 have "memfs_copy source dest s = Some (Inl e, s)"
          by (simp add: memfs_copy_def on_tree_def lift_lookup_def src MFile)
        with Inl MFile ok wi show ?thesis by (simp add: fs_map_def copy_result_def)
      next
        case (Inr f)
        with res obtain j where j: "r = Inr \<lparr>mh_node = j, mh_pos = 0, mh_append = oo_append ?oo\<rparr>"
          "walk t1 ROOT_ID ?b = Some j" "walk t1 ROOT_ID ?a = Some i"
          "tree_map t1 = (tree_map ?t)(?b \<mapsto> MFile f)" using wi(1) by auto
        obtain d1 where d1: "wf_rank t1 d1" using t1(2) by (rule fs_wfE)
        have fb: "tree_map t1 ?b = Some (MFile f)" using j(4) by simp
        have fa: "tree_map t1 ?a = Some (MFile sf)"
        proof (cases "?a = ?b")
          case True
          then have "tree_map ?t ?b = Some (MFile sf)" using wi(2) MFile by simp
          then have "f = sf" using Inr by (simp add: open_result_def oo_for_write_def)
          with fb True show ?thesis by simp
        qed (use j(4) wi(2) MFile in simp)
        have ga: "get_node t1 i = Inr (MFile sf)" using get_node_map [OF d1 j(3)] fa by auto
        have gb: "get_node t1 j = Inr (MFile f)" using get_node_map [OF d1 j(2)] fb by auto
        have lb: "fs_lookup t1 (as_bytes dest) = Inr j"
          using j(2) lookup_segs_ok [OF t1(2), of ?b] by (simp add: fs_lookup_def segs_of_def)
        let ?f' = "f\<lparr>fl_props := fl_props sf, fl_data := fl_data sf, fl_mtime := ?now\<rparr>"
        from set_file_ok [OF t1(2) j(2) fb, of "\<lambda>_. MFile ?f'" ?f'] obtain t2 where
          t2: "get_node_mut j (\<lambda>_. MFile ?f') t1 = Some (Inr (), t2)" "fs_wf t2"
            "tree_map t2 = (tree_map t1)(?b \<mapsto> MFile ?f')" by auto
        have "memfs_copy source dest s = Some (Inr (), s\<lparr>mf_tree := t2\<rparr>)"
          using t1(1) j(1) t2(1)
          by (simp add: memfs_copy_def on_tree_def lift_lookup_def src(1,3) MFile ga gb lb)
        with Inr MFile wi t2 j(4) show ?thesis by (simp add: fs_map_def copy_result_def fs_ok_def)
      qed
    qed
  qed
qed

section \<open>Open files\<close>

text \<open>A handle is on the file \<open>f\<close> at \<open>ks\<close>.\<close>

definition handle_on :: "mem_fs \<Rightarrow> mem_file \<Rightarrow> bytes list \<Rightarrow> file_node \<Rightarrow> bool" where
  "handle_on s h ks f \<longleftrightarrow> walk (mf_tree s) ROOT_ID ks = Some (mh_node h) \<and> fs_map s ks = Some (MFile f)"

lemma handle_file:
  assumes "fs_ok s" and "handle_on s h ks f"
  shows "file_of (mf_tree s) (mh_node h) = Inr f"
proof -
  obtain d where "wf_rank (mf_tree s) d" using fs_ok_wf [OF assms(1)] by (rule fs_wfE)
  from get_node_map [OF this, of ks] assms(2) show ?thesis
    by (auto simp: handle_on_def fs_map_def file_of_def)
qed

lemma memf_read_ok:
  assumes "fs_ok s" and "handle_on s h ks f"
    and "length (fl_data f) \<le> u64_max"
  shows "memf_read_bytes h count s =
    Some (Inr (take count (drop (mh_pos h) (fl_data f)),
               h\<lparr>mh_pos := mh_pos h + length (take count (drop (mh_pos h) (fl_data f)))\<rparr>), s)"
proof -
  note f = handle_file [OF assms(1,2)]
  let ?n = "length (fl_data f)" and ?p = "mh_pos h"
  have s: "s\<lparr>mf_tree := mf_tree s\<rparr> = s" by simp
  define e where "e = (if ?n < saturating_add ?p count then ?n else saturating_add ?p count)"
  have e: "e = min ?n (?p + count)" using assms(3) by (auto simp: e_def saturating_add_def)
  define st where "st = (if ?n < ?p then ?n else ?p)"
  have cnt: "e - st = min count (?n - ?p)" by (auto simp: e st_def)
  have "take (e - st) (drop st (fl_data f)) = take count (drop ?p (fl_data f))"
  proof (cases "?n < ?p")
    case True
    then show ?thesis by (simp add: st_def)
  next
    case False
    then show ?thesis by (simp add: cnt) (simp add: st_def min_def)
  qed
  moreover have "e - st = length (take count (drop ?p (fl_data f)))" by (simp add: cnt min.commute)
  ultimately show ?thesis
    by (simp add: memf_read_bytes_def on_tree_def lift_lookup_def f Let_def e_def [symmetric] st_def [symmetric])
qed

lemma length_splice: "pos + length buf \<le> length dat \<Longrightarrow> length (splice pos buf dat) = length dat"
  by (simp add: splice_def)

lemma splice_nth:
  assumes "pos + length buf \<le> length dat" and "i < length dat"
  shows "splice pos buf dat ! i = (if pos \<le> i \<and> i < pos + length buf then buf ! (i - pos) else dat ! i)"
  using assms by (auto simp: splice_def nth_append)

lemma splice_append:
  assumes "pos + length a + length b \<le> length dat"
  shows "splice (pos + length a) b (splice pos a dat) = splice pos (a @ b) dat"
  using assms by (intro nth_equalityI) (auto simp: length_splice splice_nth nth_append)

lemma write_chunks_splice:
  "pos + length (concat bs) \<le> length dat \<Longrightarrow>
     write_chunks bs pos dat = (pos + length (concat bs), splice pos (concat bs) dat)"
proof (induction bs arbitrary: pos dat)
  case Nil
  then show ?case by (simp add: splice_def)
next
  case (Cons b bs)
  then show ?case by (simp add: length_splice splice_append add.assoc)
qed

text \<open>What a write leaves: the old data, zero-filled up to the end of the write, with the buffer on
  top.\<close>

definition written :: "nat \<Rightarrow> bytes \<Rightarrow> bytes \<Rightarrow> bytes" where
  "written pos buf dat = splice pos buf (dat @ replicate (pos + length buf - length dat) (CHR 0x00))"

lemma grow_written:
  "grow_to avail (pos + length buf) dat = Inr dat' \<Longrightarrow> splice pos buf dat' = written pos buf dat"
  by (auto simp: grow_to_def written_def split: if_splits)

lemma grow_length: "grow_to avail e dat = Inr dat' \<Longrightarrow> length dat' = max e (length dat)"
  by (auto simp: grow_to_def split: if_splits)

lemma length_written: "length (written pos buf dat) = max (length dat) (pos + length buf)"
  by (simp add: written_def length_splice)

lemma written_nth:
  assumes "i < length (written pos buf dat)"
  shows "written pos buf dat ! i =
    (if pos \<le> i \<and> i < pos + length buf then buf ! (i - pos)
     else if i < length dat then dat ! i else CHR 0x00)"
  using assms unfolding written_def
  by (subst splice_nth) (auto simp: length_written [unfolded written_def] nth_append)

lemma take_drop_written: "take (length buf) (drop pos (written pos buf dat)) = buf"
  by (rule nth_equalityI) (auto simp: length_written written_nth)

text \<open>The outcome of a write.\<close>

definition write_pos :: "mem_file \<Rightarrow> file_node \<Rightarrow> nat" where
  "write_pos h f = (if mh_append h then length (fl_data f) else mh_pos h)"

definition write_fail :: "nat \<Rightarrow> nat \<Rightarrow> nat \<Rightarrow> nat \<Rightarrow> fs_error option" where
  "write_fail avail pos len old =
     (if u64_max < pos + len then Some TooLarge
      else if old < pos + len \<and> avail < pos + len then Some InsufficientStorage else None)"

lemma memf_write_ok:
  assumes ok: "fs_ok s" and h: "handle_on s h ks f"
  shows "\<exists>r s'. memf_write_bytes avail h buf s = Some (r, s') \<and> fs_ok s' \<and> mf_clock s' = mf_clock s \<and>
    (case write_fail avail (write_pos h f) (length buf) (length (fl_data f)) of
       Some e \<Rightarrow> r = Inl e \<and> s' = s
     | None \<Rightarrow> r = Inr (h\<lparr>mh_pos := write_pos h f + length buf\<rparr>) \<and>
         fs_map s' = (fs_map s)(ks \<mapsto> MFile (f\<lparr>fl_data := written (write_pos h f) buf (fl_data f),
                                               fl_mtime := mf_clock s\<rparr>)) \<and>
         walk (mf_tree s') = walk (mf_tree s))"
proof -
  note f = handle_file [OF ok h]
  let ?p = "write_pos h f"
  show ?thesis
  proof (cases "write_fail avail ?p (length buf) (length (fl_data f))")
    case (Some e)
    then have "memf_write_bytes avail h buf s = Some (Inl e, s)"
      by (auto simp: memf_write_bytes_def on_tree_def lift_lookup_def f write_fail_def checked_add_def
          write_pos_def grow_to_def Let_def split: if_splits)
    with Some ok show ?thesis by simp
  next
    case None
    then have c: "checked_add ?p (length buf) = Some (?p + length buf)"
      by (simp add: write_fail_def checked_add_def split: if_splits)
    have "\<exists>dat. grow_to avail (?p + length buf) (fl_data f) = Inr dat"
      using None by (auto simp: write_fail_def grow_to_def split: if_splits)
    then obtain dat where g: "grow_to avail (?p + length buf) (fl_data f) = Inr dat" ..
    note wr = grow_written [OF g]
    let ?f' = "f\<lparr>fl_data := written ?p buf (fl_data f), fl_mtime := mf_clock s\<rparr>"
    have w: "walk (mf_tree s) ROOT_ID ks = Some (mh_node h)" "tree_map (mf_tree s) ks = Some (MFile f)"
      using h by (simp_all add: handle_on_def fs_map_def)
    from set_file_ok [OF fs_ok_wf [OF ok] w, of "\<lambda>_. MFile ?f'" ?f'] obtain t' where
      t': "get_node_mut (mh_node h) (\<lambda>_. MFile ?f') (mf_tree s) = Some (Inr (), t')" "fs_wf t'"
        "walk t' = walk (mf_tree s)" "tree_map t' = (tree_map (mf_tree s))(ks \<mapsto> MFile ?f')" by auto
    have "memf_write_bytes avail h buf s = Some (Inr (h\<lparr>mh_pos := ?p + length buf\<rparr>), s\<lparr>mf_tree := t'\<rparr>)"
      using t'(1) c g by (simp add: memf_write_bytes_def on_tree_def lift_lookup_def f wr
          write_pos_def [symmetric] Let_def)
    with None t' show ?thesis by (simp add: fs_map_def fs_ok_def)
  qed
qed

lemma write_buf_eq: "memf_write_buf avail h bs = memf_write_bytes avail h (concat bs)"
proof
  fix s
  have "write_chunks bs pos dat = (pos + length (concat bs), splice pos (concat bs) dat)"
    if "grow_to avail (pos + length (concat bs)) d = Inr dat" for pos d dat
    using grow_length [OF that] by (intro write_chunks_splice) simp
  then show "memf_write_buf avail h bs s = memf_write_bytes avail h (concat bs) s"
    unfolding memf_write_buf_def memf_write_bytes_def on_tree_def
    by (cases "file_of (mf_tree s) (mh_node h)")
      (auto simp: lift_lookup_def Let_def checked_add_def split: sum.splits if_splits)
qed

end
