(* ===== verification/Mem_Fs_Main.thy ===== *)
theory Mem_Fs_Main
  imports Mem_Fs_Files
begin

text \<open>The properties of the in-memory filesystem, with concrete states to run them on.\<close>

section \<open>Concrete states\<close>

definition fs_demo0 :: mem_fs where "fs_demo0 = memfs_new 7"

lemma memfs_new_ok: "fs_ok (memfs_new now)" "fs_map (memfs_new now) = [[] \<mapsto> new_dir now]"
proof -
  have "dirs_above [[] \<mapsto> new_dir now]" by (auto simp: dirs_above_def is_dir_at_def new_dir_def)
  moreover have "wf_tree (tree_new (new_dir now))" unfolding wf_tree_def by (rule exI, rule tree_new_wf)
  ultimately show "fs_ok (memfs_new now)" by (simp add: fs_ok_def fs_wf_def memfs_new_def tree_new_map)
  show "fs_map (memfs_new now) = [[] \<mapsto> new_dir now]" by (simp add: fs_map_def memfs_new_def tree_new_map)
qed

lemma memfs_new_clock: "mf_clock (memfs_new now) = now"
  by (simp add: memfs_new_def)

definition fp_root :: dav_path where "fp_root = \<lparr>fullpath = ''/'', pfxlen = None\<rparr>"
definition fp_d :: dav_path where "fp_d = \<lparr>fullpath = ''/d/'', pfxlen = None\<rparr>"
definition fp_df :: dav_path where "fp_df = \<lparr>fullpath = ''/d/f'', pfxlen = None\<rparr>"
definition fp_g :: dav_path where "fp_g = \<lparr>fullpath = ''/g'', pfxlen = None\<rparr>"

lemma fp_segs [simp]: "segs_of fp_root = []" "segs_of fp_d = [''d'']" "segs_of fp_df = [''d'', ''f'']"
  "segs_of fp_g = [''g'']"
  by (simp_all add: segs_of_def fp_root_def fp_d_def fp_df_def fp_g_def as_bytes_def prefix_len_def path_segs_def)

definition run_st :: "('s, 'e, 'a) act \<Rightarrow> 's \<Rightarrow> 's" where
  "run_st a s = (case a s of Some (_, s') \<Rightarrow> s' | None \<Rightarrow> s)"

definition fs_demo1 :: mem_fs where "fs_demo1 = run_st (memfs_create_dir fp_d) fs_demo0"
definition fs_demo :: mem_fs where
  "fs_demo = run_st (memfs_open fp_df (oo_for_write\<lparr>oo_create := True\<rparr>)) fs_demo1"

lemma memfs_open_ok:
  assumes ok: "fs_ok s"
  shows "\<exists>r s'. memfs_open path opts s = Some (r, s') \<and> fs_ok s' \<and> mf_clock s' = mf_clock s \<and>
    (case open_result (mf_clock s) (fs_map s) (segs_of path) opts of
       Inl e \<Rightarrow> r = Inl e \<and> s' = s
     | Inr f \<Rightarrow> (\<exists>h. r = Inr h \<and> mh_pos h = 0 \<and> mh_append h = oo_append opts \<and> handle_on s' h (segs_of path) f) \<and>
         fs_map s' = (fs_map s)(segs_of path \<mapsto> MFile f))"
proof -
  from do_open_ok [OF fs_ok_wf [OF ok], of "mf_clock s" "as_bytes path" opts] obtain r t' where
    "do_open (mf_clock s) (as_bytes path) opts (mf_tree s) = Some (r, t')" "fs_wf t'"
    and res: "case open_result (mf_clock s) (tree_map (mf_tree s)) (path_segs (as_bytes path)) opts of
       Inl e \<Rightarrow> r = Inl e \<and> t' = mf_tree s
     | Inr f \<Rightarrow> (\<exists>i. r = Inr \<lparr>mh_node = i, mh_pos = 0, mh_append = oo_append opts\<rparr> \<and>
           walk t' ROOT_ID (path_segs (as_bytes path)) = Some i \<and>
           (\<forall>ks j. walk (mf_tree s) ROOT_ID ks = Some j \<longrightarrow> walk t' ROOT_ID ks = Some j)) \<and>
         tree_map t' = (tree_map (mf_tree s))(path_segs (as_bytes path) \<mapsto> MFile f)" by blast
  then have "memfs_open path opts s = Some (r, s\<lparr>mf_tree := t'\<rparr>)" by (simp add: memfs_open_def on_tree_def)
  with res \<open>fs_wf t'\<close> show ?thesis
    by (cases "open_result (mf_clock s) (tree_map (mf_tree s)) (path_segs (as_bytes path)) opts")
      (auto simp: fs_map_def fs_ok_def segs_of_def handle_on_def)
qed

lemma fs_demo1_facts:
  "fs_ok fs_demo1" "mf_clock fs_demo1 = 7"
  "fs_map fs_demo1 = [[] \<mapsto> new_dir 7, [''d''] \<mapsto> new_dir 7]"
proof -
  have "\<exists>s'. memfs_create_dir fp_d fs_demo0 = Some (Inr (), s') \<and> fs_ok s' \<and> mf_clock s' = 7 \<and>
      fs_map s' = touch 7 [] ([[] \<mapsto> new_dir 7, [''d''] \<mapsto> new_dir 7])"
    using memfs_create_dir_ok [OF memfs_new_ok(1) [of 7], of fp_d]
    by (auto simp: fs_demo0_def memfs_new_ok(2) new_target_segs is_dir_at_def new_dir_def memfs_new_clock
        split: if_splits)
  then obtain s' where s': "fs_demo1 = s'" "fs_ok s'" "mf_clock s' = 7"
    "fs_map s' = touch 7 [] ([[] \<mapsto> new_dir 7, [''d''] \<mapsto> new_dir 7])"
    by (auto simp: fs_demo1_def run_st_def)
  then show "fs_ok fs_demo1" "mf_clock fs_demo1 = 7"
    "fs_map fs_demo1 = [[] \<mapsto> new_dir 7, [''d''] \<mapsto> new_dir 7]"
    by (auto simp: touch_def new_dir_def fun_eq_iff)
qed

lemma fs_demo_facts:
  "fs_ok fs_demo" "mf_clock fs_demo = 7"
  "fs_map fs_demo = [[] \<mapsto> new_dir 7, [''d''] \<mapsto> new_dir 7, [''d'', ''f''] \<mapsto> MFile (blank_file 7)]"
  "\<exists>h. handle_on fs_demo h [''d'', ''f''] (blank_file 7) \<and> mh_pos h = 0 \<and> \<not> mh_append h \<and>
     memfs_open fp_df (oo_for_write\<lparr>oo_create := True\<rparr>) fs_demo1 = Some (Inr h, fs_demo)"
proof -
  have le: "lookup_err (fs_map fs_demo1) [''d'', ''f''] = NotFound"
    by (auto simp: lookup_err_def fs_demo1_facts(3) new_dir_def split: if_splits)
  have "open_result 7 (fs_map fs_demo1) [''d'', ''f''] (oo_for_write\<lparr>oo_create := True\<rparr>) = Inr (blank_file 7)"
    using le by (simp add: open_result_def fs_demo1_facts(3) is_dir_at_def new_dir_def)
  with memfs_open_ok [OF fs_demo1_facts(1), of fp_df "oo_for_write\<lparr>oo_create := True\<rparr>"]
  obtain s' h where s': "memfs_open fp_df (oo_for_write\<lparr>oo_create := True\<rparr>) fs_demo1 = Some (Inr h, s')"
    "fs_ok s'" "mf_clock s' = 7" "mh_pos h = 0" "\<not> mh_append h" "handle_on s' h [''d'', ''f''] (blank_file 7)"
    "fs_map s' = (fs_map fs_demo1)([''d'', ''f''] \<mapsto> MFile (blank_file 7))"
    by (auto simp: fs_demo1_facts(2) oo_for_write_def)
  moreover have "fs_demo = s'" using s'(1) by (simp add: fs_demo_def run_st_def)
  ultimately show "fs_ok fs_demo" "mf_clock fs_demo = 7"
    "fs_map fs_demo = [[] \<mapsto> new_dir 7, [''d''] \<mapsto> new_dir 7, [''d'', ''f''] \<mapsto> MFile (blank_file 7)]"
    "\<exists>h. handle_on fs_demo h [''d'', ''f''] (blank_file 7) \<and> mh_pos h = 0 \<and> \<not> mh_append h \<and>
       memfs_open fp_df (oo_for_write\<lparr>oo_create := True\<rparr>) fs_demo1 = Some (Inr h, fs_demo)"
    by (auto simp: fs_demo1_facts(3))
qed

section \<open>Reachable filesystems\<close>

inductive fs_step :: "mem_fs \<Rightarrow> mem_fs \<Rightarrow> bool" where
  fs_tick: "fs_step s (s\<lparr>mf_clock := now\<rparr>)"
| fs_do_open: "memfs_open path opts s = Some (ro, s') \<Longrightarrow> fs_step s s'"
| fs_do_create_dir: "memfs_create_dir path s = Some (r, s') \<Longrightarrow> fs_step s s'"
| fs_do_remove_file: "memfs_remove_file path s = Some (r, s') \<Longrightarrow> fs_step s s'"
| fs_do_remove_dir: "memfs_remove_dir path s = Some (r, s') \<Longrightarrow> fs_step s s'"
| fs_do_rename: "segs_of source \<noteq> segs_of dest \<Longrightarrow> memfs_rename source dest s = Some (r, s') \<Longrightarrow> fs_step s s'"
| fs_do_copy: "memfs_copy source dest s = Some (r, s') \<Longrightarrow> fs_step s s'"
| fs_do_set_modified: "memfs_set_modified path tm s = Some (r, s') \<Longrightarrow> fs_step s s'"
| fs_do_set_created: "memfs_set_created path tm s = Some (r, s') \<Longrightarrow> fs_step s s'"
| fs_do_patch_props: "memfs_patch_props path patch s = Some (rp, s') \<Longrightarrow> fs_step s s'"
| fs_do_mark: "memfs_mark g path s = Some (r, s') \<Longrightarrow> fs_step s s'"
| fs_do_write: "memf_write_bytes avail h buf s = Some (rh, s') \<Longrightarrow> fs_step s s'"
| fs_do_write_buf: "memf_write_buf avail h bufs s = Some (rh, s') \<Longrightarrow> fs_step s s'"

inductive fs_reachable :: "mem_fs \<Rightarrow> bool" where
  fs_init: "fs_reachable (memfs_new now)"
| fs_next: "fs_reachable s \<Longrightarrow> fs_step s s' \<Longrightarrow> fs_reachable s'"

text \<open>Updating the node of any id, found through any handle, keeps the filesystem well-formed as long
  as it does not turn a directory into a file.\<close>

lemma upd_any:
  assumes wf: "fs_wf t" and u: "get_node_mut i f t = Some (r, t')"
    and keep: "\<And>n. get_node t i = Inr n \<Longrightarrow> node_is_dir (f n) = node_is_dir n"
  shows "fs_wf t'"
proof (cases "tr_nodes t i")
  case None
  with wf u show ?thesis by (simp add: get_node_mut_def)
next
  case (Some nd)
  obtain d where d: "wf_rank t d" and da: "dirs_above (tree_map t)" using wf by (rule fs_wfE)
  obtain ks where w: "walk t ROOT_ID ks = Some i" using walk_exists [OF d] Some by blast
  from get_node_map [OF d w] obtain n where n: "get_node t i = Inr n" "tree_map t ks = Some n" by blast
  from set_node_ok [OF _ w, of f] wf u n obtain t'' where
    "get_node_mut i f t = Some (Inr (), t'')" "wf_tree t''" "tree_map t'' = (tree_map t)(ks \<mapsto> f n)"
    by (auto simp: fs_wf_def)
  with dirs_above_update [OF da n(2) keep [OF n(1)]] u show ?thesis by (simp add: fs_wf_def)
qed

lemma on_tree_wf:
  assumes "on_tree a s = Some (r, s')" and "fs_ok s"
    and "\<And>t'. a (mf_clock s) (mf_tree s) = Some (r, t') \<Longrightarrow> fs_wf t'"
  shows "fs_ok s'"
  using assms by (auto simp: on_tree_def fs_ok_def split: option.splits)

lemma lookup_upd_ok:
  assumes "on_tree (\<lambda>now. bind (lift_lookup (g now)) (\<lambda>i. get_node_mut i f)) s = Some (r, s')"
    and "fs_ok s" and "\<And>n. node_is_dir (f n) = node_is_dir n"
  shows "fs_ok s'"
proof (rule on_tree_wf [OF assms(1,2)])
  fix t' assume "bind (lift_lookup (g (mf_clock s))) (\<lambda>i. get_node_mut i f) (mf_tree s) = Some (r, t')"
  then show "fs_wf t'"
    using upd_any [OF fs_ok_wf [OF assms(2)], of _ f] assms(3) fs_ok_wf [OF assms(2)]
    by (cases "g (mf_clock s) (mf_tree s)") (auto simp: lift_lookup_def)
qed

lemma patch_ok:
  assumes "memfs_patch_props path patch s = Some (r, s')" and "fs_ok s"
  shows "fs_ok s'"
proof (rule on_tree_wf [OF assms(1) [unfolded memfs_patch_props_def] assms(2)], goal_cases)
  case (1 t')
  note wf = fs_ok_wf [OF assms(2)]
  show ?case
  proof (cases "fs_lookup (mf_tree s) (as_bytes path)")
    case (Inl e)
    with 1 wf show ?thesis by (simp add: lift_lookup_def)
  next
    case (Inr i)
    show ?thesis
    proof (cases "get_node (mf_tree s) i")
      case (Inl e)
      with 1 wf \<open>fs_lookup (mf_tree s) (as_bytes path) = Inr i\<close> show ?thesis by (simp add: lift_lookup_def)
    next
      case (Inr n)
      let ?f = "set_node_props (fst (patch_loop patch (node_props n)))"
      obtain r2 where "get_node_mut i ?f (mf_tree s) = Some (r2, t')"
        using 1 Inr \<open>fs_lookup (mf_tree s) (as_bytes path) = Inr i\<close>
        by (auto simp: lift_lookup_def bind_def split: option.splits sum.splits)
      from upd_any [OF wf this] show ?thesis by simp
    qed
  qed
qed

lemma mark_ok:
  assumes "memfs_mark g path s = Some (r, s')" and "fs_ok s"
  shows "fs_ok s'"
proof (rule on_tree_wf [OF assms(1) [unfolded memfs_mark_def] assms(2)], goal_cases)
  case (1 t')
  note wf = fs_ok_wf [OF assms(2)]
  show ?case
  proof (cases "fs_lookup (mf_tree s) (as_bytes path)")
    case (Inl e)
    with 1 wf show ?thesis by (simp add: lift_lookup_def)
  next
    case (Inr i)
    show ?thesis
    proof (cases "get_node (mf_tree s) i")
      case (Inl e)
      with 1 wf \<open>fs_lookup (mf_tree s) (as_bytes path) = Inr i\<close> show ?thesis by (simp add: lift_lookup_def)
    next
      case (Inr n)
      show ?thesis
      proof (cases n)
        case (MFile f)
        with 1 wf Inr \<open>fs_lookup (mf_tree s) (as_bytes path) = Inr i\<close> show ?thesis by (simp add: lift_lookup_def)
      next
        case (MDir dn)
        with 1 Inr \<open>fs_lookup (mf_tree s) (as_bytes path) = Inr i\<close>
        have "get_node_mut i (\<lambda>_. MDir (g dn)) (mf_tree s) = Some (r, t')" by (simp add: lift_lookup_def)
        from upd_any [OF wf this] Inr MDir show ?thesis by simp
      qed
    qed
  qed
qed

lemma write_ok:
  assumes "memf_write_bytes avail h buf s = Some (r, s')" and "fs_ok s"
  shows "fs_ok s'"
proof -
  note wf = fs_ok_wf [OF assms(2)]
  show ?thesis
  proof (cases "file_of (mf_tree s) (mh_node h)")
    case (Inl e)
    with assms show ?thesis by (auto simp: memf_write_bytes_def on_tree_def lift_lookup_def)
  next
    case (Inr f)
    then have n: "get_node (mf_tree s) (mh_node h) = Inr (MFile f)"
      by (auto simp: file_of_def split: sum.splits elim: as_file.elims)
    obtain d where d: "wf_rank (mf_tree s) d" using wf by (rule fs_wfE)
    from n obtain nd where "tr_nodes (mf_tree s) (mh_node h) = Some nd"
      by (auto simp: get_node_def split: option.splits)
    then obtain ks where w: "walk (mf_tree s) ROOT_ID ks = Some (mh_node h)" using walk_exists [OF d] by blast
    from get_node_map [OF d w] n have "handle_on s h ks f" using w by (auto simp: handle_on_def fs_map_def)
    from memf_write_ok [OF assms(2) this, of avail buf] assms(1) show ?thesis by auto
  qed
qed

lemma fs_step_ok: "fs_step s s' \<Longrightarrow> fs_ok s \<Longrightarrow> fs_ok s'"
proof (induction rule: fs_step.induct)
  case (fs_tick s now)
  then show ?case by (simp add: fs_ok_def)
next
  case (fs_do_open path opts s ro s')
  with memfs_open_ok [of s path opts] show ?case by auto
next
  case (fs_do_create_dir path s r s')
  with memfs_create_dir_ok [of s path] show ?case by auto
next
  case (fs_do_remove_file path s r s')
  with memfs_remove_ok [of s path] show ?case by auto
next
  case (fs_do_remove_dir path s r s')
  with memfs_remove_ok [of s path] show ?case by auto
next
  case (fs_do_rename source dest s r s')
  with memfs_rename_ok [of s source dest] show ?case by auto
next
  case (fs_do_copy source dest s r s')
  with memfs_copy_ok [of s source dest] show ?case by auto
next
  case (fs_do_set_modified path tm s r s')
  from lookup_upd_ok [OF fs_do_set_modified(1) [unfolded memfs_set_modified_def]] fs_do_set_modified(2)
  show ?case by simp
next
  case (fs_do_set_created path tm s r s')
  from lookup_upd_ok [OF fs_do_set_created(1) [unfolded memfs_set_created_def]] fs_do_set_created(2)
  show ?case by simp
next
  case (fs_do_patch_props path patch s rp s')
  then show ?case by (rule patch_ok)
next
  case (fs_do_mark g path s r s')
  then show ?case by (rule mark_ok)
next
  case (fs_do_write avail h buf s rh s')
  then show ?case by (rule write_ok)
next
  case (fs_do_write_buf avail h bufs s rh s')
  then show ?case unfolding write_buf_eq by (rule write_ok)
qed

section \<open>Properties\<close>

text \<open>Every filesystem that the operations can build is well-formed: its tree is acyclic and every
  entry but the root lies in a directory, never below a file.  Renaming a path to itself is the one
  call left out; the handlers make it only for the request target \<^verbatim>\<open>*\<close>.\<close>

theorem memfs_reachable_ok:
  assumes "fs_reachable s"
  shows "wf_tree (mf_tree s) \<and> is_dir_at (fs_map s) [] \<and>
    (\<forall>ks k n. fs_map s (ks @ [k]) = Some n \<longrightarrow> is_dir_at (fs_map s) ks)"
proof -
  have "fs_ok s" using assms
  proof (induction rule: fs_reachable.induct)
    case (fs_init now)
    then show ?case by (rule memfs_new_ok(1))
  next
    case (fs_next s s')
    then show ?case using fs_step_ok by blast
  qed
  then show ?thesis by (auto simp: fs_ok_def fs_wf_def dirs_above_def fs_map_def)
qed

lemma memfs_reachable_ok_witness: "wf_tree (mf_tree fs_demo1) \<and> is_dir_at (fs_map fs_demo1) []"
proof -
  have r0: "fs_reachable fs_demo0" unfolding fs_demo0_def by (rule fs_init)
  obtain r s' where "memfs_create_dir fp_d fs_demo0 = Some (r, s')"
    using memfs_create_dir_ok [OF memfs_new_ok(1) [of 7], of fp_d] by (auto simp: fs_demo0_def)
  then have "fs_step fs_demo0 fs_demo1" by (auto simp: fs_demo1_def run_st_def intro: fs_do_create_dir)
  from memfs_reachable_ok [OF fs_next [OF r0 this]] show ?thesis by blast
qed

text \<open>\<open>create_dir\<close>, every branch.  It refuses a missing or non-directory parent and an existing
  target and then changes nothing; otherwise it adds an empty directory and stamps the parent.\<close>

theorem memfs_create_dir_spec:
  assumes "fs_ok s"
  shows "\<exists>r s'. memfs_create_dir path s = Some (r, s') \<and> fs_ok s' \<and>
    (if \<not> is_dir_at (fs_map s) (butlast (segs_of path)) then
       r = Inl (parent_err (fs_map s) (butlast (segs_of path))) \<and> s' = s
     else if fs_map s (new_target path) \<noteq> None then r = Inl Exists \<and> s' = s
     else r = Inr () \<and> fs_map s' = touch (mf_clock s) (butlast (segs_of path))
            ((fs_map s)(new_target path \<mapsto> new_dir (mf_clock s))))"
  using memfs_create_dir_ok [OF assms, of path] by blast

lemma memfs_create_dir_spec_witness:
  "\<exists>r s'. memfs_create_dir fp_d fs_demo0 = Some (r, s') \<and> fs_ok s' \<and>
    (if \<not> is_dir_at (fs_map fs_demo0) (butlast (segs_of fp_d)) then
       r = Inl (parent_err (fs_map fs_demo0) (butlast (segs_of fp_d))) \<and> s' = fs_demo0
     else if fs_map fs_demo0 (new_target fp_d) \<noteq> None then r = Inl Exists \<and> s' = fs_demo0
     else r = Inr () \<and> fs_map s' = touch (mf_clock fs_demo0) (butlast (segs_of fp_d))
            ((fs_map fs_demo0)(new_target fp_d \<mapsto> new_dir (mf_clock fs_demo0))))"
  by (rule memfs_create_dir_spec) (simp add: fs_demo0_def memfs_new_ok)

text \<open>Creating the root directory is not refused: it succeeds and leaves in the root an entry with
  the empty name, which no path can address.\<close>

theorem memfs_create_root_unreachable:
  "\<exists>s'. memfs_create_dir fp_root fs_demo0 = Some (Inr (), s') \<and> fs_map s' [[]] = Some (new_dir 7) \<and>
    (\<nexists>p. segs_of p = [[]])"
proof -
  have nt: "new_target fp_root = [[]]"
    using fp_segs(1) by (simp add: new_target_def mem_file_name_def segs_of_def Let_def)
  have "\<exists>s'. memfs_create_dir fp_root fs_demo0 = Some (Inr (), s') \<and> fs_map s' [[]] = Some (new_dir 7)"
    using memfs_create_dir_ok [OF memfs_new_ok(1) [of 7], of fp_root]
    by (auto simp: fs_demo0_def memfs_new_ok(2) nt is_dir_at_def new_dir_def memfs_new_clock touch_def
        split: if_splits)
  moreover have "segs_of p \<noteq> [[]]" for p
    using path_segs_good [of "[]" "as_bytes p"] by (auto simp: segs_of_def good_seg_def)
  ultimately show ?thesis by blast
qed

text \<open>\<open>remove_file\<close> and \<open>remove_dir\<close> do the same: they remove a childless entry other than the root
  and stamp its parent; in every other case they report why and change nothing.\<close>

theorem memfs_remove_spec:
  assumes "fs_ok s"
  shows "\<exists>r s'. memfs_remove_file path s = Some (r, s') \<and> memfs_remove_dir path s = Some (r, s') \<and> fs_ok s' \<and>
    (if \<not> is_dir_at (fs_map s) (butlast (segs_of path)) then
       r = Inl (parent_err (fs_map s) (butlast (segs_of path))) \<and> s' = s
     else if fs_map s (segs_of path) = None then r = Inl (lookup_err (fs_map s) (segs_of path)) \<and> s' = s
     else if segs_of path = [] \<or> (\<exists>k. fs_map s (segs_of path @ [k]) \<noteq> None) then r = Inl Forbidden \<and> s' = s
     else r = Inr () \<and> fs_map s' = touch (mf_clock s) (butlast (segs_of path)) ((fs_map s)(segs_of path := None)))"
  using memfs_remove_ok [OF assms, of path] by blast

lemma memfs_remove_spec_witness:
  "\<exists>r s'. memfs_remove_file fp_d fs_demo = Some (r, s') \<and> memfs_remove_dir fp_d fs_demo = Some (r, s') \<and> fs_ok s' \<and>
    (if \<not> is_dir_at (fs_map fs_demo) (butlast (segs_of fp_d)) then
       r = Inl (parent_err (fs_map fs_demo) (butlast (segs_of fp_d))) \<and> s' = fs_demo
     else if fs_map fs_demo (segs_of fp_d) = None then r = Inl (lookup_err (fs_map fs_demo) (segs_of fp_d)) \<and> s' = fs_demo
     else if segs_of fp_d = [] \<or> (\<exists>k. fs_map fs_demo (segs_of fp_d @ [k]) \<noteq> None) then r = Inl Forbidden \<and> s' = fs_demo
     else r = Inr () \<and> fs_map s' = touch (mf_clock fs_demo) (butlast (segs_of fp_d)) ((fs_map fs_demo)(segs_of fp_d := None)))"
  by (rule memfs_remove_spec [OF fs_demo_facts(1)])



text \<open>\<open>copy\<close> gives the destination the data and the properties of the source file, creating it when
  it is missing, and changes nothing else; a collection, a missing source and a destination that
  cannot be opened are refused and change nothing.\<close>

theorem memfs_copy_spec:
  assumes "fs_ok s"
  shows "\<exists>r s'. memfs_copy source dest s = Some (r, s') \<and> fs_ok s' \<and>
    (case copy_result (mf_clock s) (fs_map s) (segs_of source) (segs_of dest) of
       Inl e \<Rightarrow> r = Inl e \<and> s' = s
     | Inr m \<Rightarrow> r = Inr () \<and> fs_map s' = m)"
  using memfs_copy_ok [OF assms, of source dest] by blast

lemma memfs_copy_spec_witness:
  "\<exists>r s'. memfs_copy fp_df fp_g fs_demo = Some (r, s') \<and> fs_ok s' \<and>
    (case copy_result (mf_clock fs_demo) (fs_map fs_demo) (segs_of fp_df) (segs_of fp_g) of
       Inl e \<Rightarrow> r = Inl e \<and> s' = fs_demo
     | Inr m \<Rightarrow> r = Inr () \<and> fs_map s' = m)"
  by (rule memfs_copy_spec [OF fs_demo_facts(1)])

text \<open>\<open>open\<close> computes \<open>open_result\<close>: \<^verbatim>\<open>create_new\<close> refuses an existing path, a directory cannot be
  opened, a missing file is created only on request and only inside a directory, \<^verbatim>\<open>truncate\<close> empties
  the file, and the handle returned is on that file at position 0.\<close>

theorem memfs_open_spec:
  assumes "fs_ok s"
  shows "\<exists>r s'. memfs_open path opts s = Some (r, s') \<and> fs_ok s' \<and>
    (case open_result (mf_clock s) (fs_map s) (segs_of path) opts of
       Inl e \<Rightarrow> r = Inl e \<and> s' = s
     | Inr f \<Rightarrow> (\<exists>h. r = Inr h \<and> mh_pos h = 0 \<and> mh_append h = oo_append opts \<and> handle_on s' h (segs_of path) f) \<and>
         fs_map s' = (fs_map s)(segs_of path \<mapsto> MFile f))"
  using memfs_open_ok [OF assms, of path opts] by blast

lemma memfs_open_spec_witness:
  "\<exists>r s'. memfs_open fp_g oo_for_write fs_demo = Some (r, s') \<and> fs_ok s' \<and>
    (case open_result (mf_clock fs_demo) (fs_map fs_demo) (segs_of fp_g) oo_for_write of
       Inl e \<Rightarrow> r = Inl e \<and> s' = fs_demo
     | Inr f \<Rightarrow> (\<exists>h. r = Inr h \<and> mh_pos h = 0 \<and> mh_append h = oo_append oo_for_write \<and> handle_on s' h (segs_of fp_g) f) \<and>
         fs_map s' = (fs_map fs_demo)(segs_of fp_g \<mapsto> MFile f))"
  by (rule memfs_open_spec [OF fs_demo_facts(1)])

text \<open>What a successful write puts at its position reads back; bytes of the old file outside the
  written range keep their values, a gap past the old end is zero-filled, and no other entry of the
  filesystem changes.  A write past \<^verbatim>\<open>u64::MAX\<close> or past the allocator's limit fails and changes
  nothing.\<close>

theorem memf_write_read:
  assumes "fs_ok s" and "handle_on s h ks f" and "length (fl_data f) \<le> u64_max"
  shows "case write_fail avail (write_pos h f) (length buf) (length (fl_data f)) of
      Some e \<Rightarrow> memf_write_bytes avail h buf s = Some (Inl e, s)
    | None \<Rightarrow> (\<exists>h' s' f'. memf_write_bytes avail h buf s = Some (Inr h', s') \<and> fs_ok s' \<and>
        mh_pos h' = write_pos h f + length buf \<and>
        fs_map s' = (fs_map s)(ks \<mapsto> MFile f') \<and>
        (\<exists>h2. memf_read_bytes (h'\<lparr>mh_pos := write_pos h f\<rparr>) (length buf) s' = Some (Inr (buf, h2), s')) \<and>
        length (fl_data f') = max (length (fl_data f)) (write_pos h f + length buf) \<and>
        (\<forall>i < length (fl_data f'). \<not> (write_pos h f \<le> i \<and> i < write_pos h f + length buf) \<longrightarrow>
           fl_data f' ! i = (if i < length (fl_data f) then fl_data f ! i else CHR 0x00)))"
proof -
  let ?p = "write_pos h f"
  from memf_write_ok [OF assms(1,2), of avail buf] obtain r s' where
    run: "memf_write_bytes avail h buf s = Some (r, s')" "fs_ok s'"
    and res: "case write_fail avail ?p (length buf) (length (fl_data f)) of
       Some e \<Rightarrow> r = Inl e \<and> s' = s
     | None \<Rightarrow> r = Inr (h\<lparr>mh_pos := ?p + length buf\<rparr>) \<and>
         fs_map s' = (fs_map s)(ks \<mapsto> MFile (f\<lparr>fl_data := written ?p buf (fl_data f), fl_mtime := mf_clock s\<rparr>)) \<and>
         walk (mf_tree s') = walk (mf_tree s)" by blast
  show ?thesis
  proof (cases "write_fail avail ?p (length buf) (length (fl_data f))")
    case (Some e)
    with run res show ?thesis by simp
  next
    case None
    let ?f' = "f\<lparr>fl_data := written ?p buf (fl_data f), fl_mtime := mf_clock s\<rparr>"
    let ?h = "h\<lparr>mh_pos := ?p + length buf, mh_pos := ?p\<rparr>"
    from None res have r: "r = Inr (h\<lparr>mh_pos := ?p + length buf\<rparr>)" "fs_map s' = (fs_map s)(ks \<mapsto> MFile ?f')"
      "walk (mf_tree s') = walk (mf_tree s)" by simp_all
    have on: "handle_on s' ?h ks ?f'" using assms(2) r(2,3) by (simp add: handle_on_def)
    have "length (fl_data ?f') \<le> u64_max"
      using None assms(3) by (auto simp: length_written write_fail_def split: if_splits)
    from memf_read_ok [OF run(2) on this, of "length buf"]
    have "\<exists>h2. memf_read_bytes ?h (length buf) s' = Some (Inr (buf, h2), s')"
      by (simp add: take_drop_written)
    with None run r show ?thesis by (auto simp: length_written written_nth)
  qed
qed

lemma memf_write_read_witness:
  "\<exists>h. handle_on fs_demo h [''d'', ''f''] (blank_file 7) \<and>
    (case write_fail 1000 (write_pos h (blank_file 7)) (length ''hi'') (length (fl_data (blank_file 7))) of
      Some e \<Rightarrow> memf_write_bytes 1000 h ''hi'' fs_demo = Some (Inl e, fs_demo)
    | None \<Rightarrow> (\<exists>h' s' f'. memf_write_bytes 1000 h ''hi'' fs_demo = Some (Inr h', s') \<and> fs_ok s' \<and>
        mh_pos h' = write_pos h (blank_file 7) + length ''hi'' \<and>
        fs_map s' = (fs_map fs_demo)([''d'', ''f''] \<mapsto> MFile f') \<and>
        (\<exists>h2. memf_read_bytes (h'\<lparr>mh_pos := write_pos h (blank_file 7)\<rparr>) (length ''hi'') s' = Some (Inr (''hi'', h2), s'))))"
proof -
  obtain h where h: "handle_on fs_demo h [''d'', ''f''] (blank_file 7)" using fs_demo_facts(4) by blast
  have "length (fl_data (blank_file 7)) \<le> u64_max" by (simp add: blank_file_def)
  from memf_write_read [OF fs_demo_facts(1) h this, of 1000 "''hi''"] h show ?thesis
    by (intro exI [of _ h]) (auto split: option.splits)
qed

text \<open>A chunked write leaves exactly what one write of the concatenated chunks leaves.\<close>

theorem memf_write_buf_eq: "memf_write_buf avail h bs s = memf_write_bytes avail h (concat bs) s"
  by (simp add: write_buf_eq)

text \<open>\<open>seek\<close> never leaves the range of \<^verbatim>\<open>u64\<close>: it moves to the exact target when that lies between
  0 and \<^verbatim>\<open>u64::MAX\<close> and fails with \<^verbatim>\<open>GeneralFailure\<close> otherwise, and it changes no file.\<close>

theorem memf_seek_bounds:
  assumes "fs_ok s" and "handle_on s h ks f"
  shows "memf_seek h sp s =
    (let target = (case sp of SeekStart n \<Rightarrow> int n
                            | SeekCurrent off \<Rightarrow> int (mh_pos h) + off
                            | SeekEnd off \<Rightarrow> int (length (fl_data f)) + off)
     in if (\<exists>n. sp = SeekStart n) \<or> ((case sp of SeekCurrent off \<Rightarrow> off < 0 | SeekEnd off \<Rightarrow> off < 0 | _ \<Rightarrow> False) \<and> 0 \<le> target)
           \<or> ((case sp of SeekCurrent off \<Rightarrow> 0 \<le> off | SeekEnd off \<Rightarrow> 0 \<le> off | _ \<Rightarrow> False) \<and> target \<le> int u64_max)
        then Some (Inr (nat target, h\<lparr>mh_pos := nat target\<rparr>), s)
        else Some (Inl GeneralFailure, s))"
proof -
  note fo = handle_file [OF assms]
  have "invalid_seek = GeneralFailure" by (simp add: invalid_seek_def ioerror_to_fserror_def)
  then show ?thesis
    by (cases sp) (auto simp: memf_seek_def on_tree_def lift_lookup_def fo bind_def checked_sub_def
        checked_add_def Let_def nat_diff_distrib nat_add_distrib split: option.splits)
qed

lemma memf_seek_bounds_witness:
  "\<exists>h. handle_on fs_demo h [''d'', ''f''] (blank_file 7) \<and>
     memf_seek h (SeekEnd (- 1)) fs_demo = Some (Inl GeneralFailure, fs_demo)"
proof -
  obtain h where h: "handle_on fs_demo h [''d'', ''f''] (blank_file 7)" using fs_demo_facts(4) by blast
  from memf_seek_bounds [OF fs_demo_facts(1) h, of "SeekEnd (- 1)"] h show ?thesis
    by (intro exI [of _ h]) (simp add: blank_file_def Let_def)
qed

end
