(* ===== verification/Dav_Headers.thy ===== *)
theory Dav_Headers
  imports Dav_Fs Dav_Xml
begin

text \<open>
  The typed request headers, \<^verbatim>\<open>src/davheaders.rs\<close>.  A \<^verbatim>\<open>HeaderValue\<close> is its bytes and a header map the
  list of its name and value pairs.  The record \<open>http_env\<close> holds what the code calls of other crates:
  conversion of header values to and from text, the URL parser and percent-encoding, the decoders
  of the headers that the \<^verbatim>\<open>headers\<close> crate defines, the parsers of XML, calendar objects and vCards, the
  accessors and the writer of the XML crates, the date formats and the table of MIME types.  \<^verbatim>\<open>headers::Error\<close>
  carries nothing, so decoders return options.
\<close>

section \<open>Requests\<close>

text \<open>What the accessors of a parsed \<^verbatim>\<open>url::Url\<close> return.\<close>

record url =
  ur_scheme :: bytes
  ur_host :: "bytes option"
  ur_port :: "nat option"
  ur_path :: bytes

record request =
  rq_method :: bytes
  rq_scheme :: "bytes option"
  rq_host :: "bytes option"
  rq_port :: "nat option"
  rq_path :: bytes
  rq_headers :: "(bytes \<times> bytes) list"

text \<open>\<^verbatim>\<open>std::ops::Bound\<close>, in which \<^verbatim>\<open>headers::Range\<close> gives its ranges.\<close>

datatype range_bound = Included nat | Excluded nat | Unbounded

record http_env =
  hv_to_str :: "bytes \<Rightarrow> bytes option"
  hv_from_str :: "bytes \<Rightarrow> bytes option"
  url_parse :: "bytes \<Rightarrow> url option"
  date_decode :: "bytes list \<Rightarrow> systime option"
  date_encode :: "systime \<Rightarrow> bytes"
  host_decode :: "bytes list \<Rightarrow> (bytes \<times> nat option) option"
  modified_since_decode :: "bytes list \<Rightarrow> systime option"
  unmodified_since_decode :: "bytes list \<Rightarrow> systime option"
  status_text :: "nat \<Rightarrow> bytes"
  content_length_decode :: "bytes list \<Rightarrow> nat option"
  content_range_decode :: "bytes list \<Rightarrow> (nat \<times> nat) option option"
  pct_decode :: "bytes \<Rightarrow> bytes"
  pct_encode :: "(byte \<Rightarrow> bool) \<Rightarrow> bytes \<Rightarrow> bytes"
  xml_parse_all :: "bytes \<Rightarrow> xml_parse_error + xml_node list"
  calendar_parses :: "bytes \<Rightarrow> bool"
  vcard_parses :: "bytes \<Rightarrow> bool"
  xml_bytes :: "xml_event list \<Rightarrow> bytes"
  el_get_text :: "xml_elem \<Rightarrow> bytes option"
  el_take_child :: "bytes \<Rightarrow> xml_elem \<Rightarrow> (xml_elem \<times> xml_elem) option"
  rfc3339 :: "systime \<Rightarrow> bytes"
  mime_guess :: "bytes \<Rightarrow> bytes option"
  range_decode :: "bytes list \<Rightarrow> (nat \<Rightarrow> (range_bound \<times> range_bound) list) option"

definition header_values :: "request \<Rightarrow> bytes \<Rightarrow> bytes list" where
  "header_values rq name = map snd (filter (\<lambda>(n, _). n = name) (rq_headers rq))"

text \<open>\<^verbatim>\<open>typed_get\<close>: absent and undecodable headers are both \<^verbatim>\<open>None\<close>.\<close>

definition typed_get :: "request \<Rightarrow> bytes \<Rightarrow> (bytes list \<Rightarrow> 'a option) \<Rightarrow> 'a option" where
  "typed_get rq name dec = (let vs = header_values rq name in if vs = [] then None else dec vs)"

fun one :: "bytes list \<Rightarrow> bytes option" where
  "one [v] = Some v"
| "one _ = None"

section \<open>Plain and numeric headers\<close>

definition text_decode :: "http_env \<Rightarrow> bytes list \<Rightarrow> bytes option" where
  "text_decode env vs = Option.bind (one vs) (hv_to_str env)"

definition decode_unix_timestamp :: "http_env \<Rightarrow> bytes list \<Rightarrow> systime option" where
  "decode_unix_timestamp env vs =
     Option.bind (one vs) (\<lambda>v. Option.bind (hv_to_str env v) (\<lambda>raw.
       if raw = [] \<or> \<not> list_all is_digit raw then None
       else Option.bind (parse_uint u64_max raw) (\<lambda>secs.
         if secs \<le> i64_max then Some (int secs * 1000000000) else None)))"

definition encode_unix_timestamp :: "http_env \<Rightarrow> systime \<Rightarrow> bytes option" where
  "encode_unix_timestamp env t =
     hv_from_str env (show_nat (if t < 0 then 0 else nat (t div 1000000000)))"

datatype depth = DepthZero | DepthOne | DepthInfinity

definition depth_decode :: "bytes list \<Rightarrow> depth option" where
  "depth_decode vs = Option.bind (one vs) (\<lambda>v.
     if v = ''0'' then Some DepthZero
     else if v = ''1'' then Some DepthOne
     else if v = ''infinity'' \<or> v = ''Infinity'' then Some DepthInfinity
     else None)"

fun depth_encode :: "depth \<Rightarrow> bytes" where
  "depth_encode DepthZero = ''0''"
| "depth_encode DepthOne = ''1''"
| "depth_encode DepthInfinity = ''Infinity''"

definition valid_content_language :: "http_env \<Rightarrow> bytes \<Rightarrow> bool" where
  "valid_content_language env s =
     (if hv_from_str env s = None then False
      else list_all (\<lambda>l. let lang = str_trim l in
             length lang = 2 \<or> (4 < length lang \<and> lang ! 2 = CHR ''-'')) (split_on (CHR '','') s))"

definition overwrite_decode :: "bytes list \<Rightarrow> bool option" where
  "overwrite_decode vs = Option.bind (one vs) (\<lambda>v.
     if v = ''F'' then Some False else if v = ''T'' then Some True else None)"

definition overwrite_encode :: "bool \<Rightarrow> bytes" where
  "overwrite_encode b = (if b then ''T'' else ''F'')"

section \<open>Timeout\<close>

datatype dav_timeout = Seconds nat | Infinite

fun timeout_words :: "bytes list \<Rightarrow> dav_timeout list option" where
  "timeout_words [] = Some []"
| "timeout_words (word # words) =
     Option.bind
       (if word = ''Infinite'' then Some Infinite
        else if starts_with word ''Second-'' then map_option Seconds (parse_uint u32_max (drop 7 word))
        else None)
       (\<lambda>w. map_option ((#) w) (timeout_words words))"

definition timeout_decode :: "http_env \<Rightarrow> bytes list \<Rightarrow> dav_timeout list option" where
  "timeout_decode env vs =
     Option.bind (one vs) (\<lambda>v. Option.bind (hv_to_str env v) (\<lambda>s. timeout_words (split_on (CHR '','') s)))"

fun show_timeout :: "dav_timeout \<Rightarrow> bytes" where
  "show_timeout (Seconds n) = ''Second-'' @ show_nat n"
| "show_timeout Infinite = ''Infinite''"

text \<open>The loop of \<^verbatim>\<open>encode\<close>; the flag \<^verbatim>\<open>first\<close> is passed along as the code sets it.\<close>

fun timeout_encode_loop :: "bool \<Rightarrow> dav_timeout list \<Rightarrow> bytes \<Rightarrow> bytes" where
  "timeout_encode_loop is_first [] val = val"
| "timeout_encode_loop is_first (s # ss) val =
     timeout_encode_loop False ss ((if \<not> is_first then val @ '', '' else val) @ show_timeout s)"

definition timeout_encode :: "http_env \<Rightarrow> dav_timeout list \<Rightarrow> bytes option" where
  "timeout_encode env ts = hv_from_str env (timeout_encode_loop False ts [])"

section \<open>Destination\<close>

record destination =
  ds_path :: bytes
  ds_url :: "url option"

definition destination_decode :: "http_env \<Rightarrow> bytes list \<Rightarrow> destination option" where
  "destination_decode env vs =
     Option.bind (one vs) (\<lambda>v. Option.bind (hv_to_str env v) (\<lambda>s.
       if starts_with s ''/'' then Some \<lparr>ds_path = s, ds_url = None\<rparr>
       else (case url_parse env s of
               Some u \<Rightarrow> Some \<lparr>ds_path = ur_path u, ds_url = Some u\<rparr>
             | None \<Rightarrow> None)))"

definition destination_encode :: "http_env \<Rightarrow> destination \<Rightarrow> bytes option" where
  "destination_encode env d = hv_from_str env (ds_path d)"

definition effective_port :: "bytes option \<Rightarrow> nat option \<Rightarrow> nat option" where
  "effective_port scheme port =
     (case port of
        Some p \<Rightarrow> Some p
      | None \<Rightarrow> (case scheme of
           None \<Rightarrow> None
         | Some s \<Rightarrow> if eq_ignore_ascii_case s ''http'' then Some 80
                     else if eq_ignore_ascii_case s ''https'' then Some 443 else None))"

definition same_server :: "bytes option \<Rightarrow> bytes option \<Rightarrow> nat option \<Rightarrow> url \<Rightarrow> bool" where
  "same_server req_scheme req_host req_port u =
     (if \<not> (case (req_host, ur_host u) of
              (Some a, Some b) \<Rightarrow> eq_ignore_ascii_case a b
            | (None, None) \<Rightarrow> True
            | _ \<Rightarrow> False) then False
      else if (case req_scheme of Some s \<Rightarrow> \<not> eq_ignore_ascii_case s (ur_scheme u) | None \<Rightarrow> False) then False
      else (case (effective_port req_scheme req_port, effective_port (Some (ur_scheme u)) (ur_port u)) of
              (Some a, Some b) \<Rightarrow> a = b
            | _ \<Rightarrow> True))"

definition url_is_same_server :: "request \<Rightarrow> url \<Rightarrow> bool" where
  "url_is_same_server rq u = same_server (rq_scheme rq) (rq_host rq) (rq_port rq) u"

definition request_is_same_server :: "http_env \<Rightarrow> request \<Rightarrow> url \<Rightarrow> bool" where
  "request_is_same_server env rq u =
     (if rq_host rq \<noteq> None then url_is_same_server rq u
      else (case typed_get rq ''host'' (host_decode env) of
              Some (h, p) \<Rightarrow> same_server (rq_scheme rq) (Some h) p u
            | None \<Rightarrow> url_is_same_server rq u))"

definition is_same_server :: "http_env \<Rightarrow> destination \<Rightarrow> request \<Rightarrow> bool" where
  "is_same_server env d rq =
     (case ds_url d of None \<Rightarrow> True | Some u \<Rightarrow> request_is_same_server env rq u)"

section \<open>Entity tags\<close>

record etag =
  et_tag :: bytes
  et_weak :: bool

abbreviation dquote :: byte where "dquote \<equiv> CHR 0x22"

definition etag_new :: "bool \<Rightarrow> bytes \<Rightarrow> etag option" where
  "etag_new weak t = (if dquote \<in> set t then None else Some \<lparr>et_tag = t, et_weak = weak\<rparr>)"

definition etag_from_meta :: "dav_meta \<Rightarrow> etag option" where
  "etag_from_meta meta = map_option (\<lambda>t. \<lparr>et_tag = t, et_weak = False\<rparr>) (md_etag meta)"

definition strong_eq :: "etag \<Rightarrow> etag \<Rightarrow> bool" where
  "strong_eq a b \<longleftrightarrow> \<not> et_weak a \<and> \<not> et_weak b \<and> et_tag a = et_tag b"

definition weak_eq :: "etag \<Rightarrow> etag \<Rightarrow> bool" where
  "weak_eq a b \<longleftrightarrow> et_tag a = et_tag b"

definition etag_from_str :: "bytes \<Rightarrow> etag option" where
  "etag_from_str t =
     (let (weak, s) = (if starts_with t ''W/'' then (True, drop 2 t) else (False, t));
          inner = take (length s - 2) (drop 1 s)
      in if 2 \<le> length s \<and> starts_with s [dquote] \<and> ends_with s [dquote] \<and> dquote \<notin> set inner
         then Some \<lparr>et_tag = inner, et_weak = weak\<rparr>
         else if s \<noteq> [] \<and> dquote \<notin> set s then Some \<lparr>et_tag = s, et_weak = weak\<rparr>
         else None)"

definition etag_to_string :: "etag \<Rightarrow> bytes" where
  "etag_to_string e = (if et_weak e then ''W/'' else []) @ [dquote] @ et_tag e @ [dquote]"

definition etag_decode :: "http_env \<Rightarrow> bytes list \<Rightarrow> etag option" where
  "etag_decode env vs = Option.bind (one vs) (\<lambda>v. Option.bind (hv_to_str env v) etag_from_str)"

definition etag_encode :: "http_env \<Rightarrow> etag \<Rightarrow> bytes option" where
  "etag_encode env e = hv_from_str env (etag_to_string e)"

datatype if_range = IrETag etag | IrDate systime

definition ifrange_decode :: "http_env \<Rightarrow> bytes list \<Rightarrow> if_range option" where
  "ifrange_decode env vs = Option.bind (one vs) (\<lambda>v.
     case date_decode env [v] of
       Some tm \<Rightarrow> Some (IrDate tm)
     | None \<Rightarrow> (case etag_decode env [v] of Some et \<Rightarrow> Some (IrETag et) | None \<Rightarrow> None))"

datatype etag_list = Tags "etag list" | Star

definition split_etags :: "bytes \<Rightarrow> etag list" where
  "split_etags s = List.map_filter (\<lambda>t. etag_from_str (trim t)) (split_on (CHR '','') s)"

fun etaglist_loop :: "http_env \<Rightarrow> bytes list \<Rightarrow> etag list \<Rightarrow> nat \<Rightarrow> etag_list option" where
  "etaglist_loop env [] v count = (if count \<noteq> 0 then Some (Tags v) else None)"
| "etaglist_loop env (x # xs) v count =
     (case hv_to_str env x of
        None \<Rightarrow> None
      | Some s \<Rightarrow> if trim s = ''*'' then Some Star
                  else etaglist_loop env xs (v @ split_etags s) (count + 1))"

definition decode_etaglist :: "http_env \<Rightarrow> bytes list \<Rightarrow> etag_list option" where
  "decode_etaglist env vs = etaglist_loop env vs [] 0"

fun join_comma :: "bytes list \<Rightarrow> bytes" where
  "join_comma [] = []"
| "join_comma [x] = x"
| "join_comma (x # y # ys) = x @ '', '' @ join_comma (y # ys)"

definition encode_etaglist :: "http_env \<Rightarrow> etag_list \<Rightarrow> bytes option" where
  "encode_etaglist env m = hv_from_str env
     (case m of Star \<Rightarrow> ''*'' | Tags t \<Rightarrow> join_comma (map etag_to_string t))"

section \<open>X-Update-Range\<close>

datatype x_update_range = FromTo nat nat | AllFrom nat | LastBytes nat | Append

definition xupdate_decode :: "http_env \<Rightarrow> bytes list \<Rightarrow> x_update_range option" where
  "xupdate_decode env vs =
     Option.bind (one vs) (\<lambda>v. Option.bind (hv_to_str env v) (\<lambda>s.
       if s = ''append'' then Some Append
       else if \<not> starts_with s ''bytes='' then None
       else (let nums = split_on (CHR ''-'') (drop 6 s)
             in if length nums \<noteq> 2 then None
                else if nums ! 0 \<noteq> [] \<and> nums ! 1 \<noteq> [] then
                  Option.bind (parse_uint u64_max (nums ! 0)) (\<lambda>a.
                  Option.bind (parse_uint u64_max (nums ! 1)) (\<lambda>b. Some (FromTo a b)))
                else if nums ! 0 \<noteq> [] then map_option AllFrom (parse_uint u64_max (nums ! 0))
                else if nums ! 1 \<noteq> [] then map_option LastBytes (parse_uint u64_max (nums ! 1))
                else None)))"

fun show_xupdate :: "x_update_range \<Rightarrow> bytes" where
  "show_xupdate Append = ''append''"
| "show_xupdate (FromTo b e) = show_nat b @ ''-'' @ show_nat e"
| "show_xupdate (AllFrom b) = show_nat b @ ''-''"
| "show_xupdate (LastBytes e) = ''-'' @ show_nat e"

definition xupdate_encode :: "http_env \<Rightarrow> x_update_range \<Rightarrow> bytes option" where
  "xupdate_encode env r = hv_from_str env (show_xupdate r)"

section \<open>The If header\<close>

datatype if_item = StateToken bytes | IfETag etag

record if_condition =
  ic_not :: bool
  ic_item :: if_item

record if_list =
  il_tag :: "url option"
  il_conditions :: "if_condition list"

definition iflist_new :: if_list where
  "iflist_new = \<lparr>il_tag = None, il_conditions = []\<rparr>"

definition iflist_add :: "bool \<Rightarrow> if_item \<Rightarrow> if_list \<Rightarrow> if_list" where
  "iflist_add neg item l = l\<lparr>il_conditions := il_conditions l @ [\<lparr>ic_not = neg, ic_item = item\<rparr>]\<rparr>"

datatype if_token = TListOpen | TListClose | TNot | TWord bytes | TPointy bytes | TETag etag | TEnd

datatype if_state = SStart | SRTag | SList | SNot | SBad

definition is_whitespace :: "byte \<Rightarrow> bool" where
  "is_whitespace c \<longleftrightarrow> c \<in> {CHR '' '', CHR 0x09, CHR 0x0D, CHR 0x0A}"

definition is_special :: "byte \<Rightarrow> bool" where
  "is_special c \<longleftrightarrow> c \<in> {CHR ''<'', CHR ''>'', CHR ''('', CHR '')'', CHR ''['', CHR '']''}"

definition trim_left :: "bytes \<Rightarrow> bytes" where
  "trim_left = dropWhile is_whitespace"

text \<open>The loop of \<^verbatim>\<open>scan_until\<close>: \<open>tok\<close> is \<^verbatim>\<open>buf[1..i]\<close> and the list the rest \<^verbatim>\<open>buf[i..]\<close>.\<close>

fun scan_until_loop :: "byte \<Rightarrow> bool \<Rightarrow> bytes \<Rightarrow> bytes \<Rightarrow> (bytes \<times> bytes) option" where
  "scan_until_loop c quote tok [] = None"
| "scan_until_loop c quote tok (x # xs) =
     (if quote \<or> x \<noteq> c then
        (if is_whitespace x then None
         else scan_until_loop c (if x = dquote then \<not> quote else quote) (tok @ [x]) xs)
      else Some (tok, xs))"

definition scan_until :: "bytes \<Rightarrow> byte \<Rightarrow> (bytes \<times> bytes) option" where
  "scan_until buf c = scan_until_loop c False [] (drop 1 buf)"

definition word_stop :: "byte \<Rightarrow> bool" where
  "word_stop c \<longleftrightarrow> is_whitespace c \<or> is_special c \<or> (of_char c :: nat) < 32"

definition scan_word :: "bytes \<Rightarrow> (bytes \<times> bytes) option" where
  "scan_word buf =
     (let w = takeWhile (\<lambda>c. \<not> word_stop c) buf; r = dropWhile (\<lambda>c. \<not> word_stop c) buf
      in if w = [] \<and> r \<noteq> [] then None else Some (w, r))"

definition get_token :: "bytes \<Rightarrow> (if_token \<times> bytes) option" where
  "get_token buf0 =
     (case trim_left buf0 of
        [] \<Rightarrow> Some (TEnd, [])
      | c # cs \<Rightarrow>
         let buf = c # cs in
         if c = CHR ''('' then Some (TListOpen, cs)
         else if c = CHR '')'' then Some (TListClose, cs)
         else if c = CHR ''N'' \<and> starts_with buf ''Not'' then Some (TNot, drop 3 buf)
         else if c = CHR ''<'' then
           Option.bind (scan_until buf (CHR ''>'')) (\<lambda>(tok, rest).
             if utf8_valid tok then Some (TPointy tok, rest) else None)
         else if c = CHR ''['' then
           Option.bind (scan_until buf (CHR '']'')) (\<lambda>(tok, rest).
             if utf8_valid tok then Option.bind (etag_from_str tok) (\<lambda>e. Some (TETag e, rest)) else None)
         else Option.bind (scan_word buf) (\<lambda>(tok, rest).
             if tok = ''Not'' then Some (TNot, rest)
             else if utf8_valid tok then Some (TWord tok, rest) else None))"

text \<open>One round of the state machine: leave the loop, return an error, or go on with the lists so
  far, the current list and the next state.\<close>

datatype if_outcome = IfBreak | IfFail | IfNext "if_list list" if_list if_state

fun if_step :: "http_env \<Rightarrow> if_list list \<Rightarrow> if_list \<Rightarrow> if_state \<Rightarrow> if_token \<Rightarrow> if_outcome" where
  "if_step env acc cur SStart tok =
     (case tok of
        TListOpen \<Rightarrow> IfNext acc cur SList
      | TPointy u \<Rightarrow> (case url_parse env u of
           None \<Rightarrow> IfFail
         | Some r \<Rightarrow> IfNext acc (cur\<lparr>il_tag := Some r\<rparr>) SRTag)
      | TEnd \<Rightarrow> if acc \<noteq> [] then IfBreak else IfNext acc cur SBad
      | _ \<Rightarrow> IfNext acc cur SBad)"
| "if_step env acc cur SRTag tok =
     (case tok of TListOpen \<Rightarrow> IfNext acc cur SList | _ \<Rightarrow> IfNext acc cur SBad)"
| "if_step env acc cur SBad tok = IfFail"
| "if_step env acc cur st tok =
     (let neg = (st = SNot) in
      case tok of
        TNot \<Rightarrow> if neg then IfNext acc cur SBad else IfNext acc cur SNot
      | TPointy stok \<Rightarrow>
          if CHR '':'' \<notin> set stok then IfNext acc cur SBad
          else IfNext acc (iflist_add neg (StateToken stok) cur) SList
      | TWord stok \<Rightarrow>
          if CHR '':'' \<notin> set stok then IfNext acc cur SBad
          else IfNext acc (iflist_add neg (StateToken stok) cur) SList
      | TETag e \<Rightarrow> IfNext acc (iflist_add neg (IfETag e) cur) SList
      | TListClose \<Rightarrow>
          if il_conditions cur = [] then IfNext acc cur SBad
          else IfNext (acc @ [cur]) iflist_new SStart
      | _ \<Rightarrow> IfNext acc cur SBad)"

section \<open>The tokenizer makes progress\<close>

lemma scan_until_loop_shorter: "scan_until_loop c q tok xs = Some (t, r) \<Longrightarrow> length r < length xs"
  by (induction c q tok xs rule: scan_until_loop.induct) (auto split: if_splits)

lemma scan_until_shorter: "scan_until buf c = Some (t, r) \<Longrightarrow> length r < length buf"
  by (auto simp: scan_until_def dest!: scan_until_loop_shorter)

lemma scan_word_shorter:
  assumes "scan_word buf = Some (t, r)" and "buf \<noteq> []"
  shows "length r < length buf"
proof -
  let ?p = "\<lambda>c. \<not> word_stop c"
  have a: "(if takeWhile ?p buf = [] \<and> dropWhile ?p buf \<noteq> [] then None
            else Some (takeWhile ?p buf, dropWhile ?p buf)) = Some (t, r)"
    using assms(1) unfolding scan_word_def Let_def .
  then have d: "takeWhile ?p buf \<noteq> [] \<or> dropWhile ?p buf = []" by (metis option.distinct(1))
  with a have r: "r = dropWhile ?p buf" by (metis option.inject prod.inject)
  have sum: "length (takeWhile ?p buf) + length (dropWhile ?p buf) = length buf"
    by (metis length_append takeWhile_dropWhile_id)
  from d show ?thesis
  proof
    assume "takeWhile ?p buf \<noteq> []"
    then have "0 < length (takeWhile ?p buf)" by simp
    with sum show ?thesis unfolding r by linarith
  next
    assume "dropWhile ?p buf = []"
    with r assms(2) show ?thesis by simp
  qed
qed

lemma trim_left_shorter: "length (trim_left buf) \<le> length buf"
  by (simp add: trim_left_def length_dropWhile_le)

lemma get_token_shorter:
  assumes "get_token buf = Some (tok, rest)"
  shows "tok = TEnd \<and> rest = [] \<or> length rest < length buf"
proof (cases "trim_left buf")
  case Nil
  then show ?thesis using assms by (simp add: get_token_def)
next
  case (Cons c cs)
  then have l: "length (c # cs) \<le> length buf" using trim_left_shorter [of buf] by simp
  have "length rest < length (c # cs)"
    using assms Cons
    by (auto simp: get_token_def Let_def bind_eq_Some_conv split: if_splits dest!: scan_until_shorter)
       (auto dest!: scan_word_shorter split: if_splits)
  with l show ?thesis by simp
qed

lemma if_step_end: "if_step env acc cur st TEnd = IfNext acc' cur' st' \<Longrightarrow> st \<noteq> SBad \<and> st' = SBad"
  by (cases st) (auto split: if_splits)

text \<open>The loop.  Each round consumes a byte, or sees the end and leaves within one more round.\<close>

function if_loop :: "http_env \<Rightarrow> if_list list \<Rightarrow> if_list \<Rightarrow> if_state \<Rightarrow> bytes \<Rightarrow> if_list list option" where
  "if_loop env acc cur st input =
     (case get_token input of
        None \<Rightarrow> None
      | Some (tok, rest) \<Rightarrow>
         (case if_step env acc cur st tok of
            IfBreak \<Rightarrow> Some acc
          | IfFail \<Rightarrow> None
          | IfNext acc' cur' st' \<Rightarrow> if_loop env acc' cur' st' rest))"
  by pat_completeness auto

termination
proof (relation "measure (\<lambda>(env, acc, cur, st, input). 2 * length input + (if st = SBad then 0 else 1))",
    goal_cases)
  case 1
  then show ?case by simp
next
  case (2 env acc cur st input p tok rest acc' cur' st')
  then have "tok = TEnd \<and> rest = [] \<or> length rest < length input"
    using get_token_shorter [of input tok rest] by simp
  then show ?case
  proof
    assume e: "tok = TEnd \<and> rest = []"
    then have "st \<noteq> SBad \<and> st' = SBad" using 2 if_step_end [of env acc cur st] by simp
    with e show ?thesis by simp
  next
    assume "length rest < length input"
    then show ?thesis by simp
  qed
qed

declare if_loop.simps [simp del]

definition if_decode :: "http_env \<Rightarrow> bytes list \<Rightarrow> if_list list option" where
  "if_decode env vs = Option.bind (one vs) (if_loop env [] iflist_new SStart)"

end
