(* ===== verification/Dav_Headers_Props.thy ===== *)
theory Dav_Headers_Props
  imports Dav_Headers
begin

text \<open>
  Facts about the headers: the \<^verbatim>\<open>If\<close> parser against a reference grammar over its tokens, the round
  trips of the headers that have one, and those that lack one.
\<close>

section \<open>The If parser, token by token\<close>

text \<open>All tokens of the value, up to its end.\<close>

function tokenize :: "bytes \<Rightarrow> if_token list option" where
  "tokenize buf =
     (case get_token buf of
        None \<Rightarrow> None
      | Some (tok, rest) \<Rightarrow> if tok = TEnd then Some [] else map_option ((#) tok) (tokenize rest))"
  by pat_completeness auto

termination
  by (relation "measure length") (auto dest: get_token_shorter)

declare tokenize.simps [simp del]

fun if_run :: "http_env \<Rightarrow> if_list list \<Rightarrow> if_list \<Rightarrow> if_state \<Rightarrow> if_token list \<Rightarrow> if_list list option" where
  "if_run env acc cur st [] =
     (case if_step env acc cur st TEnd of IfBreak \<Rightarrow> Some acc | _ \<Rightarrow> None)"
| "if_run env acc cur st (tok # toks) =
     (case if_step env acc cur st tok of
        IfBreak \<Rightarrow> Some acc
      | IfFail \<Rightarrow> None
      | IfNext acc' cur' st' \<Rightarrow> if_run env acc' cur' st' toks)"

lemma tokenize_no_end: "tokenize buf = Some toks \<Longrightarrow> TEnd \<notin> set toks"
proof (induction buf arbitrary: toks rule: tokenize.induct)
  case (1 buf)
  show ?case
  proof (cases "get_token buf")
    case None
    with "1.prems" show ?thesis by (subst (asm) tokenize.simps) simp
  next
    case (Some p)
    obtain tok rest where p: "p = (tok, rest)" by (cases p)
    show ?thesis
    proof (cases "tok = TEnd")
      case True
      with Some p "1.prems" show ?thesis by (subst (asm) tokenize.simps) simp
    next
      case False
      with Some p "1.prems" obtain ts where "tokenize rest = Some ts" "toks = tok # ts"
        by (subst (asm) tokenize.simps) (simp, blast)
      with "1.IH" [OF Some p [symmetric] False] False show ?thesis by simp
    qed
  qed
qed

lemma if_loop_bad: "if_loop env acc cur SBad input = None"
  by (subst if_loop.simps) (simp split: option.splits)

lemma if_step_break: "if_step env acc cur st tok = IfBreak \<Longrightarrow> tok = TEnd"
  by (cases st; cases tok) (auto split: option.splits if_splits simp: Let_def)

lemma if_loop_run:
  "if_loop env acc cur st input = Option.bind (tokenize input) (if_run env acc cur st)"
proof (induction env acc cur st input rule: if_loop.induct)
  case (1 env acc cur st input)
  show ?case
  proof (cases "get_token input")
    case None
    then show ?thesis by (subst if_loop.simps, subst tokenize.simps) simp
  next
    case (Some p)
    obtain tok rest where p: "p = (tok, rest)" by (cases p)
    show ?thesis
    proof (cases "tok = TEnd")
      case True
      show ?thesis
      proof (cases "if_step env acc cur st TEnd")
        case (IfNext acc' cur' st')
        then have "st' = SBad" using if_step_end by blast
        with IfNext Some p True show ?thesis
          by (subst if_loop.simps, subst tokenize.simps) (simp add: if_loop_bad)
      qed (use Some p True in \<open>subst if_loop.simps, subst tokenize.simps, simp\<close>)+
    next
      case False
      have b: "if_step env acc cur st tok \<noteq> IfBreak" using if_step_break False by blast
      show ?thesis
      proof (cases "if_step env acc cur st tok")
        case IfBreak
        with b show ?thesis by simp
      next
        case IfFail
        with Some p False show ?thesis
          by (subst if_loop.simps, subst tokenize.simps) (cases "tokenize rest", simp_all)
      next
        case (IfNext acc' cur' st')
        have "if_loop env acc' cur' st' rest = Option.bind (tokenize rest) (if_run env acc' cur' st')"
          using "1.IH" [OF Some p [symmetric] IfNext] .
        with IfNext Some p False show ?thesis
          by (subst if_loop.simps, subst tokenize.simps) (cases "tokenize rest", simp_all)
      qed
    qed
  qed
qed

section \<open>The grammar\<close>

fun item_of :: "if_token \<Rightarrow> if_item option" where
  "item_of (TPointy s) = (if CHR '':'' \<in> set s then Some (StateToken s) else None)"
| "item_of (TWord s) = (if CHR '':'' \<in> set s then Some (StateToken s) else None)"
| "item_of (TETag e) = Some (IfETag e)"
| "item_of _ = None"

text \<open>Conditions, each with at most one \<^verbatim>\<open>Not\<close>; the parser also takes a \<^verbatim>\<open>Not\<close> with nothing after it
  before the closing parenthesis.\<close>

inductive if_conds :: "if_token list \<Rightarrow> if_condition list \<Rightarrow> bool" where
  conds_nil: "if_conds [] []"
| conds_dangling: "if_conds [TNot] []"
| conds_plain: "item_of t = Some i \<Longrightarrow> if_conds ts cs \<Longrightarrow> if_conds (t # ts) (\<lparr>ic_not = False, ic_item = i\<rparr> # cs)"
| conds_not: "item_of t = Some i \<Longrightarrow> if_conds ts cs \<Longrightarrow>
    if_conds (TNot # t # ts) (\<lparr>ic_not = True, ic_item = i\<rparr> # cs)"

text \<open>Lists of at least one condition, each with the URL in front of it, if any.\<close>

inductive if_lists :: "http_env \<Rightarrow> if_token list \<Rightarrow> if_list list \<Rightarrow> bool" for env where
  lists_nil: "if_lists env [] []"
| lists_untagged: "if_conds ts cs \<Longrightarrow> cs \<noteq> [] \<Longrightarrow> if_lists env rest ls \<Longrightarrow>
    if_lists env (TListOpen # ts @ TListClose # rest) (\<lparr>il_tag = None, il_conditions = cs\<rparr> # ls)"
| lists_tagged: "url_parse env u = Some r \<Longrightarrow> if_conds ts cs \<Longrightarrow> cs \<noteq> [] \<Longrightarrow> if_lists env rest ls \<Longrightarrow>
    if_lists env (TPointy u # TListOpen # ts @ TListClose # rest) (\<lparr>il_tag = Some r, il_conditions = cs\<rparr> # ls)"

lemma if_step_item:
  "item_of t = Some i \<Longrightarrow> if_step env acc cur SList t = IfNext acc (iflist_add False i cur) SList"
  "item_of t = Some i \<Longrightarrow> if_step env acc cur SNot t = IfNext acc (iflist_add True i cur) SList"
  by (cases t; auto split: if_splits)+

lemma if_step_not: "if_step env acc cur SList TNot = IfNext acc cur SNot"
  by simp

lemma if_step_close:
  "il_conditions cur \<noteq> [] \<Longrightarrow> if_step env acc cur SList TListClose = IfNext (acc @ [cur]) iflist_new SStart"
  "il_conditions cur \<noteq> [] \<Longrightarrow> if_step env acc cur SNot TListClose = IfNext (acc @ [cur]) iflist_new SStart"
  by simp_all

lemmas if_step_list = if_step_item if_step_not if_step_close

lemma conds_run:
  "if_conds ts cs \<Longrightarrow> il_conditions cur @ cs \<noteq> [] \<Longrightarrow>
   if_run env acc cur SList (ts @ TListClose # rest) =
     if_run env (acc @ [cur\<lparr>il_conditions := il_conditions cur @ cs\<rparr>]) iflist_new SStart rest"
  by (induction ts cs arbitrary: cur rule: if_conds.induct)
     (simp_all add: if_step_list iflist_add_def del: if_step.simps)

lemma lists_run: "if_lists env ts ls \<Longrightarrow> acc @ ls \<noteq> [] \<Longrightarrow> if_run env acc iflist_new SStart ts = Some (acc @ ls)"
  by (induction ts ls arbitrary: acc rule: if_lists.induct)
     (simp_all add: conds_run, simp_all add: iflist_new_def)

lemma iflist_new_conditions [simp]: "il_conditions iflist_new = []"
  by (simp add: iflist_new_def)

text \<open>What the machine has still to read, in each state.\<close>

fun if_reads :: "http_env \<Rightarrow> if_list list \<Rightarrow> if_list \<Rightarrow> if_state \<Rightarrow> if_token list \<Rightarrow> if_list list \<Rightarrow> bool" where
  "if_reads env acc cur SStart ts r \<longleftrightarrow> (\<exists>ls. r = acc @ ls \<and> if_lists env ts ls)"
| "if_reads env acc cur SRTag ts r \<longleftrightarrow>
     (\<exists>ts' cs rest ls. ts = TListOpen # ts' @ TListClose # rest \<and> if_conds ts' cs \<and> il_conditions cur @ cs \<noteq> [] \<and>
        r = acc @ cur\<lparr>il_conditions := il_conditions cur @ cs\<rparr> # ls \<and> if_lists env rest ls)"
| "if_reads env acc cur SList ts r \<longleftrightarrow>
     (\<exists>ts' cs rest ls. ts = ts' @ TListClose # rest \<and> if_conds ts' cs \<and> il_conditions cur @ cs \<noteq> [] \<and>
        r = acc @ cur\<lparr>il_conditions := il_conditions cur @ cs\<rparr> # ls \<and> if_lists env rest ls)"
| "if_reads env acc cur SNot ts r \<longleftrightarrow>
     (\<exists>ts' cs rest ls. ts = ts' @ TListClose # rest \<and> if_conds (TNot # ts') cs \<and> il_conditions cur @ cs \<noteq> [] \<and>
        r = acc @ cur\<lparr>il_conditions := il_conditions cur @ cs\<rparr> # ls \<and> if_lists env rest ls)"
| "if_reads env acc cur SBad ts r \<longleftrightarrow> False"

lemma if_run_bad [simp]: "if_run env acc cur SBad ts = None"
  by (cases ts) simp_all

lemma reads_listI:
  assumes "if_conds ts' cs" "il_conditions cur @ cs \<noteq> []" "if_lists env rest ls"
  shows "if_reads env acc cur SList (ts' @ TListClose # rest) (acc @ cur\<lparr>il_conditions := il_conditions cur @ cs\<rparr> # ls)"
    and "ts' = TNot # ts'' \<Longrightarrow>
      if_reads env acc cur SNot (ts'' @ TListClose # rest) (acc @ cur\<lparr>il_conditions := il_conditions cur @ cs\<rparr> # ls)"
  using assms unfolding if_reads.simps by blast+

lemma reads_item:
  assumes "if_reads env acc (iflist_add neg i cur) SList ts r" and "item_of t = Some i"
  shows "if_reads env acc cur (if neg then SNot else SList) (t # ts) r"
proof -
  let ?c = "\<lparr>ic_not = neg, ic_item = i\<rparr>"
  obtain ts' cs rest ls where s: "ts = ts' @ TListClose # rest" "if_conds ts' cs" "if_lists env rest ls"
    and r: "r = acc @ cur\<lparr>il_conditions := il_conditions cur @ ?c # cs\<rparr> # ls"
    using assms(1) by (auto simp: iflist_add_def)
  show ?thesis
  proof (cases neg)
    case True
    then have "if_conds (TNot # t # ts') (?c # cs)" using conds_not [OF assms(2) s(2)] by simp
    from reads_listI(2) [OF this _ s(3) refl, where cur = cur and acc = acc] True show ?thesis
      unfolding s(1) r by simp
  next
    case False
    then have "if_conds (t # ts') (?c # cs)" using conds_plain [OF assms(2) s(2)] by simp
    from reads_listI(1) [OF this _ s(3), where cur = cur and acc = acc] False show ?thesis
      unfolding s(1) r by simp
  qed
qed

lemmas reads_plain = reads_item [where neg = False, simplified if_False]
lemmas reads_negated = reads_item [where neg = True, simplified if_True]

lemma reads_not:
  assumes "if_reads env acc cur SNot ts r"
  shows "if_reads env acc cur SList (TNot # ts) r"
proof -
  obtain ts' cs rest ls where s: "ts = ts' @ TListClose # rest" "if_conds (TNot # ts') cs"
    "il_conditions cur @ cs \<noteq> []" "if_lists env rest ls"
    and r: "r = acc @ cur\<lparr>il_conditions := il_conditions cur @ cs\<rparr> # ls"
    using assms by auto
  from reads_listI(1) [OF s(2-4), where acc = acc] show ?thesis unfolding s(1) r by simp
qed

lemma reads_close:
  assumes "if_reads env (acc @ [cur]) iflist_new SStart ts r" and "il_conditions cur \<noteq> []" and "st = SList \<or> st = SNot"
  shows "if_reads env acc cur st (TListClose # ts) r"
proof -
  obtain ls where ls: "r = acc @ cur # ls" "if_lists env ts ls" using assms(1) by auto
  have "if_reads env acc cur SList (TListClose # ts) (acc @ cur # ls)"
    using reads_listI(1) [OF conds_nil _ ls(2), where cur = cur and acc = acc] assms(2)
    by (simp del: if_reads.simps)
  moreover have "if_reads env acc cur SNot (TListClose # ts) (acc @ cur # ls)"
    using reads_listI(2) [OF conds_dangling _ ls(2), where cur = cur and acc = acc and ts'' = "[]"] assms(2)
    by (simp del: if_reads.simps)
  ultimately show ?thesis using assms(3) ls(1) by blast
qed

lemma reads_open:
  assumes "if_reads env acc cur SList ts r" and "il_conditions cur = []"
  shows "if_reads env acc cur SRTag (TListOpen # ts) r"
  using assms by auto

lemma reads_tag:
  assumes "if_reads env acc (iflist_new\<lparr>il_tag := Some u\<rparr>) SRTag ts r" and "url_parse env b = Some u"
  shows "if_reads env acc iflist_new SStart (TPointy b # ts) r"
  using assms by (fastforce simp: iflist_new_def intro: lists_tagged)

lemma reads_untagged:
  assumes "if_reads env acc iflist_new SList ts r"
  shows "if_reads env acc iflist_new SStart (TListOpen # ts) r"
  using assms by (fastforce simp: iflist_new_def intro: lists_untagged)

lemma if_run_reads:
  "if_run env acc cur st ts = Some r \<Longrightarrow> TEnd \<notin> set ts \<Longrightarrow> (st = SStart \<Longrightarrow> cur = iflist_new) \<Longrightarrow>
   (st = SRTag \<Longrightarrow> il_conditions cur = []) \<Longrightarrow> r \<noteq> [] \<and> if_reads env acc cur st ts r"
proof (induction ts arbitrary: acc cur st)
  case Nil
  then show ?case by (cases st) (auto split: if_splits intro: lists_nil)
next
  case (Cons t ts)
  from Cons.prems obtain acc' cur' st' where n: "if_step env acc cur st t = IfNext acc' cur' st'"
    and run: "if_run env acc' cur' st' ts = Some r"
    using if_step_break [of env acc cur st t] by (auto split: if_outcome.splits)
  have IH: "(st' = SStart \<Longrightarrow> cur' = iflist_new) \<Longrightarrow> (st' = SRTag \<Longrightarrow> il_conditions cur' = []) \<Longrightarrow>
    r \<noteq> [] \<and> if_reads env acc' cur' st' ts r"
    using Cons.IH [OF run] Cons.prems(2) by simp
  have nb: "st' \<noteq> SBad" using run by auto
  have te: "t \<noteq> TEnd" using Cons.prems(2) by auto
  show ?case
  proof (cases st)
    case SStart
    with Cons.prems(3) n nb te IH show ?thesis
      by (cases t) (auto split: option.splits simp del: if_reads.simps
        intro: reads_tag reads_untagged)
  next
    case SRTag
    with Cons.prems(4) have c: "il_conditions cur = []" by simp
    from SRTag n nb have "t = TListOpen" "acc' = acc" "cur' = cur" "st' = SList"
      by (auto split: if_token.splits)
    with IH c SRTag show ?thesis by (simp add: reads_open del: if_reads.simps)
  next
    case SList
    with n nb te IH show ?thesis
      by (cases t) (auto split: if_splits simp del: if_reads.simps
        intro: reads_not reads_close reads_plain)
  next
    case SNot
    with n nb te IH show ?thesis
      by (cases t) (auto split: if_splits simp del: if_reads.simps
        intro: reads_close reads_negated)
  next
    case SBad
    with n show ?thesis by simp
  qed
qed

section \<open>Properties of the If header\<close>

text \<open>C39: The parser of the \<^verbatim>\<open>If\<close> header accepts a value exactly when it splits into tokens that form one
  or more parenthesised lists of at least one condition each, and returns those lists, each with the
  URL directly in front of it and with its conditions and their negations in order.  A resource tag
  therefore reaches only the one list it precedes.\<close>

theorem if_decode_grammar:
  "if_decode env [v] = Some ls \<longleftrightarrow> ls \<noteq> [] \<and> (\<exists>toks. tokenize v = Some toks \<and> if_lists env toks ls)"
proof
  assume "if_decode env [v] = Some ls"
  then obtain toks where t: "tokenize v = Some toks" "if_run env [] iflist_new SStart toks = Some ls"
    by (auto simp: if_decode_def if_loop_run bind_eq_Some_conv)
  from if_run_reads [OF t(2) tokenize_no_end [OF t(1)]] t(1)
  show "ls \<noteq> [] \<and> (\<exists>toks. tokenize v = Some toks \<and> if_lists env toks ls)" by auto
next
  assume "ls \<noteq> [] \<and> (\<exists>toks. tokenize v = Some toks \<and> if_lists env toks ls)"
  then show "if_decode env [v] = Some ls"
    by (auto simp: if_decode_def if_loop_run lists_run)
qed

section \<open>Round trips of the other headers\<close>

lemma depth_roundtrip: "depth_decode [depth_encode d] = Some d"
  by (cases d) (simp_all add: depth_decode_def)

lemma overwrite_roundtrip: "overwrite_decode [overwrite_encode b] = Some b"
  by (cases b) (simp_all add: overwrite_decode_def overwrite_encode_def)

text \<open>Every entity tag the constructor accepts prints to a text that parses back to it; every text
  that parses holds no quote inside the tag, so that printing and parsing again changes nothing.\<close>

theorem etag_roundtrip:
  assumes "etag_new weak t = Some e \<or> etag_from_str s = Some e"
  shows "etag_from_str (etag_to_string e) = Some e"
proof -
  have "dquote \<notin> set (et_tag e)"
    using assms by (auto simp: etag_new_def etag_from_str_def Let_def split: if_splits)
  then show ?thesis
    by (cases e) (auto simp: etag_from_str_def etag_to_string_def Let_def ends_with_single split: if_splits)
qed

lemma etag_roundtrip_witness:
  "etag_from_str (etag_to_string \<lparr>et_tag = ''1a'', et_weak = True\<rparr>) = Some \<lparr>et_tag = ''1a'', et_weak = True\<rparr>"
  by (rule etag_roundtrip [of True "''1a''" _ "[]"]) (simp add: etag_new_def)

text \<open>Two encoders write what their own decoders refuse.\<close>

lemma timeout_encode_undecodable:
  assumes "ts \<noteq> []" and "timeout_encode env ts = Some v" and "hv_to_str env v = Some (timeout_encode_loop False ts [])"
  shows "timeout_decode env [v] = None"
proof -
  have pre: "\<exists>r. timeout_encode_loop f ss val = val @ r" for f ss val
    by (induction f ss val rule: timeout_encode_loop.induct) auto
  obtain s ss where "ts = s # ss" using assms(1) by (cases ts) auto
  then obtain r where "timeout_encode_loop False ts [] = CHR '','' # r"
    using pre [of False ss "'', '' @ show_timeout s"] by auto
  then show ?thesis using assms(3) by (simp add: timeout_decode_def)
qed

lemma show_nat_no: "\<not> is_digit c \<Longrightarrow> c \<notin> set (show_nat n)"
  using show_nat_digits [of n] by (auto simp: list_all_iff)

lemma xupdate_encode_undecodable:
  assumes "r \<noteq> Append" and "xupdate_encode env r = Some v" and "hv_to_str env v = Some (show_xupdate r)"
  shows "xupdate_decode env [v] = None"
proof -
  have "CHR ''b'' \<notin> set (show_xupdate r)" "CHR ''a'' \<notin> set (show_xupdate r)"
    using assms(1) by (cases r; simp add: show_nat_no is_digit_def)+
  then have "show_xupdate r \<noteq> ''append''" "\<not> starts_with (show_xupdate r) ''bytes=''"
    by (auto simp: starts_with_iff)
  then show ?thesis using assms(3) by (simp add: xupdate_decode_def)
qed

text \<open>The ranges the decoder does read.\<close>

lemma xupdate_decode_from_to:
  assumes "hv_to_str env v = Some (''bytes='' @ show_nat a @ ''-'' @ show_nat b)" "a \<le> u64_max" "b \<le> u64_max"
  shows "xupdate_decode env [v] = Some (FromTo a b)"
proof -
  have "split_on (CHR ''-'') (show_nat a @ CHR ''-'' # show_nat b) = [show_nat a, show_nat b]"
    by (simp add: split_on_prefix_free split_on_id show_nat_no is_digit_def)
  then show ?thesis
    using assms by (simp add: xupdate_decode_def parse_show_nat)
qed

end
