(* ===== verification/Dav_Util.thy ===== *)
theory Dav_Util
  imports Dav_Errors "HOL-Library.Word"
begin

text \<open>
  \<^verbatim>\<open>src/util.rs\<close>: the methods a handler supports and sets of them, a 32-bit mask.
  \<^verbatim>\<open>str::to_lowercase\<close> is an argument of \<open>methods_from_vec\<close>: outside ASCII it follows the Unicode tables.
\<close>

datatype dav_method = MHead | MGet | MPut | MPatch | MOptions | MPropFind | MPropPatch | MMkCol | MCopy
  | MMove | MDelete | MLock | MUnlock | MReport | MMkCalendar | MMkAddressbook

fun method_bit :: "dav_method \<Rightarrow> 32 word" where
  "method_bit MHead = 0x0001"
| "method_bit MGet = 0x0002"
| "method_bit MPut = 0x0004"
| "method_bit MPatch = 0x0008"
| "method_bit MOptions = 0x0010"
| "method_bit MPropFind = 0x0020"
| "method_bit MPropPatch = 0x0040"
| "method_bit MMkCol = 0x0080"
| "method_bit MCopy = 0x0100"
| "method_bit MMove = 0x0200"
| "method_bit MDelete = 0x0400"
| "method_bit MLock = 0x0800"
| "method_bit MUnlock = 0x1000"
| "method_bit MReport = 0x2000"
| "method_bit MMkCalendar = 0x4000"
| "method_bit MMkAddressbook = 0x8000"

definition method_table :: "(bytes \<times> dav_method) list" where
  "method_table = [(''HEAD'', MHead), (''GET'', MGet), (''PUT'', MPut), (''PATCH'', MPatch),
     (''DELETE'', MDelete), (''OPTIONS'', MOptions), (''PROPFIND'', MPropFind), (''PROPPATCH'', MPropPatch),
     (''MKCOL'', MMkCol), (''COPY'', MCopy), (''MOVE'', MMove), (''LOCK'', MLock), (''UNLOCK'', MUnlock),
     (''REPORT'', MReport), (''MKCALENDAR'', MMkCalendar), (''MKADDRESSBOOK'', MMkAddressbook)]"

definition dav_method_of :: "bytes \<Rightarrow> dav_error + dav_method" where
  "dav_method_of m = (case map_of method_table m of Some d \<Rightarrow> Inr d | None \<Rightarrow> Inl UnknownDavMethod)"

type_synonym method_set = "32 word"

unbundle bit_operations_syntax

definition HTTP_RO :: method_set where
  "HTTP_RO = method_bit MGet OR method_bit MHead OR method_bit MOptions"

definition HTTP_RW :: method_set where
  "HTTP_RW = HTTP_RO OR method_bit MPut"

definition WEBDAV_RO :: method_set where
  "WEBDAV_RO = HTTP_RO OR method_bit MPropFind"

definition WEBDAV_RW :: method_set where
  "WEBDAV_RW = 0xffffffff"

definition methods_all :: method_set where
  "methods_all = 0xffffffff"

definition methods_none :: method_set where
  "methods_none = 0"

definition methods_add :: "dav_method \<Rightarrow> method_set \<Rightarrow> method_set" where
  "methods_add m s = s OR method_bit m"

definition methods_remove :: "dav_method \<Rightarrow> method_set \<Rightarrow> method_set" where
  "methods_remove m s = s AND NOT (method_bit m)"

definition methods_contains :: "method_set \<Rightarrow> dav_method \<Rightarrow> bool" where
  "methods_contains s m \<longleftrightarrow> s AND method_bit m > 0"

definition word_table :: "(bytes \<times> method_set) list" where
  "word_table = [(''head'', method_bit MHead), (''get'', method_bit MGet), (''put'', method_bit MPut),
     (''patch'', method_bit MPatch), (''delete'', method_bit MDelete), (''options'', method_bit MOptions),
     (''propfind'', method_bit MPropFind), (''proppatch'', method_bit MPropPatch), (''mkcol'', method_bit MMkCol),
     (''copy'', method_bit MCopy), (''move'', method_bit MMove), (''lock'', method_bit MLock),
     (''unlock'', method_bit MUnlock), (''report'', method_bit MReport), (''mkcalendar'', method_bit MMkCalendar),
     (''mkaddressbook'', method_bit MMkAddressbook), (''http-ro'', HTTP_RO), (''http-rw'', HTTP_RW),
     (''webdav-ro'', WEBDAV_RO), (''webdav-rw'', WEBDAV_RW)]"

fun from_vec_loop :: "(bytes \<Rightarrow> bytes) \<Rightarrow> bytes list \<Rightarrow> method_set \<Rightarrow> method_set option" where
  "from_vec_loop lower [] m = Some m"
| "from_vec_loop lower (w # ws) m =
     (case map_of word_table (lower w) of
        Some b \<Rightarrow> from_vec_loop lower ws (m OR b)
      | None \<Rightarrow> None)"

definition methods_from_vec :: "(bytes \<Rightarrow> bytes) \<Rightarrow> bytes list \<Rightarrow> method_set option" where
  "methods_from_vec lower v = from_vec_loop lower v 0"

section \<open>The mask is a set\<close>

definition method_index :: "dav_method \<Rightarrow> nat" where
  "method_index m = (case m of MHead \<Rightarrow> 0 | MGet \<Rightarrow> 1 | MPut \<Rightarrow> 2 | MPatch \<Rightarrow> 3 | MOptions \<Rightarrow> 4 | MPropFind \<Rightarrow> 5
     | MPropPatch \<Rightarrow> 6 | MMkCol \<Rightarrow> 7 | MCopy \<Rightarrow> 8 | MMove \<Rightarrow> 9 | MDelete \<Rightarrow> 10 | MLock \<Rightarrow> 11 | MUnlock \<Rightarrow> 12
     | MReport \<Rightarrow> 13 | MMkCalendar \<Rightarrow> 14 | MMkAddressbook \<Rightarrow> 15)"

lemma method_index_less: "method_index m < 32"
  by (cases m) (simp_all add: method_index_def)

lemma method_index_inj: "method_index a = method_index b \<longleftrightarrow> a = b"
  by (cases a; cases b) (simp_all add: method_index_def)

lemma method_bit_push: "method_bit m = push_bit (method_index m) 1"
  by (cases m) (simp_all add: method_index_def)

lemma bit_method_bit: "bit (method_bit m) n \<longleftrightarrow> n = method_index m"
  using method_index_less [of m] by (auto simp: method_bit_push bit_exp_iff possible_bit_word)

lemma contains_bit: "methods_contains s m \<longleftrightarrow> bit s (method_index m)"
proof -
  have b: "bit (s AND method_bit m) n \<longleftrightarrow> n = method_index m \<and> bit s n" for n
    by (auto simp: bit_and_iff bit_method_bit)
  have "s AND method_bit m \<noteq> 0 \<longleftrightarrow> bit s (method_index m)"
  proof
    assume "s AND method_bit m \<noteq> 0"
    then obtain n where "bit (s AND method_bit m) n" by (auto simp: bit_eq_iff [of _ 0])
    then show "bit s (method_index m)" unfolding b by blast
  next
    assume "bit s (method_index m)"
    then have "bit (s AND method_bit m) (method_index m)" by (simp add: b)
    then show "s AND method_bit m \<noteq> 0" by auto
  qed
  then show ?thesis by (simp add: methods_contains_def word_greater_zero_iff)
qed

lemma contains_add: "methods_contains (methods_add a s) m \<longleftrightarrow> m = a \<or> methods_contains s m"
  by (auto simp: contains_bit methods_add_def bit_or_iff bit_method_bit method_index_inj)

lemma contains_remove: "methods_contains (methods_remove a s) m \<longleftrightarrow> m \<noteq> a \<and> methods_contains s m"
  using method_index_less [of m]
  by (auto simp: contains_bit methods_remove_def bit_and_iff bit_not_iff bit_method_bit method_index_inj)

lemma contains_none: "\<not> methods_contains methods_none m"
  by (simp add: contains_bit methods_none_def)

lemma contains_all: "methods_contains methods_all m"
  by (cases m) (simp_all add: methods_contains_def methods_all_def)

lemma from_vec_contains:
  "from_vec_loop lower ws s = Some t \<Longrightarrow>
   methods_contains t m \<longleftrightarrow> methods_contains s m \<or> (\<exists>w \<in> set ws. \<exists>b. map_of word_table (lower w) = Some b \<and> methods_contains b m)"
  by (induction lower ws s rule: from_vec_loop.induct)
     (auto simp: contains_bit bit_or_iff split: option.splits)

text \<open>The 32-bit mask behaves as the set of the methods in it.\<close>

lemmas method_set_ops = contains_add contains_remove contains_none contains_all

end
