(* ===== verification/Dav_Server.thy ===== *)
theory Dav_Server
  imports Dav_Headers Dav_Ls Dav_Util
begin

text \<open>
  What every request handler is given, from \<^verbatim>\<open>src/davhandler.rs\<close> and \<^verbatim>\<open>src/handle_gethead.rs\<close>: the
  configuration, with the two backends as records of operations, and the checks that hide paths.
  The \<^verbatim>\<open>world\<close> a handler acts on holds the states of the backends and the channel into which a
  multi-status handler sends its results (\<^verbatim>\<open>MultiError\<close>).  Handlers run their operations one after
  the other, as the code awaits each; other requests act between two requests.
\<close>

section \<open>World and configuration\<close>

record ('s, 'l) world =
  w_fs :: 's
  w_ls :: 'l
  w_items :: "(dav_path \<times> status) list"

type_synonym ('s, 'l, 'a) handler = "(('s, 'l) world, dav_error, 'a) act"

datatype hide_option = HideNever | HideInAutoIndexListings | HideInListings | HideForDirectPaths | HideAlways

record ('s, 'h, 'l) server =
  sv_http :: http_env
  sv_prefix :: bytes
  sv_fs :: "('s, 'h) fs_ops"
  sv_ls :: "'l ls_ops option"
  sv_allow :: "method_set option"
  sv_principal :: "bytes option"
  sv_hide_symlinks :: bool
  sv_allow_infinity_depth :: bool
  sv_hide_dot_prefix :: hide_option
  sv_autoindex :: "bool option"
  sv_probe :: bool
  sv_indexfile :: "bytes option"
  sv_read_buf_size :: "nat option"
  sv_redirect :: "bool option"

text \<open>An action of a backend inside a handler.\<close>

definition on_fs :: "('s, 'e, 'a) act \<Rightarrow> (('s, 'l) world, 'e, 'a) act" where
  "on_fs a = (\<lambda>w. case a (w_fs w) of None \<Rightarrow> None | Some (r, s) \<Rightarrow> Some (r, w\<lparr>w_fs := s\<rparr>))"

definition on_ls :: "('l, 'e, 'a) act \<Rightarrow> (('s, 'l) world, 'e, 'a) act" where
  "on_ls a = (\<lambda>w. case a (w_ls w) of None \<Rightarrow> None | Some (r, l) \<Rightarrow> Some (r, w\<lparr>w_ls := l\<rparr>))"

text \<open>The \<^verbatim>\<open>?\<close> operator on a filesystem result.\<close>

definition fs_try :: "('s, fs_error, 'a) act \<Rightarrow> ('s, 'l, 'a) handler" where
  "fs_try a = map_err FsErr (on_fs a)"

definition send_item :: "dav_path \<Rightarrow> status \<Rightarrow> (('s, 'l) world, 'e, unit) act" where
  "send_item path st = (\<lambda>w. Some (Inr (), w\<lparr>w_items := w_items w @ [(path, st)]\<rparr>))"

text \<open>Responses.  A body is empty, an XML document, as the events written, a text, or the pieces of a
  file with the error that cut the transfer short, if any.\<close>

datatype body = BEmpty | BXml "xml_event list" | BText bytes | BStream "bytes list" "dav_error option"

record response =
  rs_status :: status
  rs_headers :: "(bytes \<times> bytes) list"
  rs_body :: body

definition response_new :: response where
  "response_new = \<lparr>rs_status = 200, rs_headers = [], rs_body = BEmpty\<rparr>"

definition set_header :: "bytes \<Rightarrow> bytes \<Rightarrow> response \<Rightarrow> response" where
  "set_header name val r = r\<lparr>rs_headers := AList.update name val (rs_headers r)\<rparr>"

section \<open>Helpers of the handlers\<close>

text \<open>\<^verbatim>\<open>path\<close>: the dispatcher has parsed the same path before.\<close>

definition req_path :: "('s, 'h, 'l) server \<Rightarrow> request \<Rightarrow> (dav_path \<Rightarrow> ('s, 'l, 'a) handler) \<Rightarrow> ('s, 'l, 'a) handler" where
  "req_path sv rq k =
     (case from_uri_and_prefix (pct_decode (sv_http sv)) (rq_path rq) (sv_prefix sv) of
        Inr p \<Rightarrow> k p
      | Inl _ \<Rightarrow> diverge)"

definition has_parent :: "('s, 'h, 'l) server \<Rightarrow> dav_path \<Rightarrow> ('s, 'l, bool) handler" where
  "has_parent sv path =
     bind (attempt (on_fs (fs_metadata (sv_fs sv) (path_parent path))))
       (\<lambda>r. case r of Inr m \<Rightarrow> ok (md_is_dir m) | Inl _ \<Rightarrow> ok False)"

definition collection_kind_of :: "('s, 'h, 'l) server \<Rightarrow> dav_path \<Rightarrow> dav_meta \<Rightarrow> ('s, 'l, collection_kind) handler" where
  "collection_kind_of sv path meta = on_fs (\<lambda>s.
     case resolve_collection_kind (sv_fs sv) path meta s of None \<Rightarrow> None | Some (k, s') \<Rightarrow> Some (Inr k, s'))"

definition fixpath :: "('s, 'h, 'l) server \<Rightarrow> response \<Rightarrow> dav_path \<Rightarrow> dav_meta \<Rightarrow> response \<times> dav_path" where
  "fixpath sv res path meta =
     (if md_is_dir meta \<and> \<not> is_collection path then
        (let p = add_slash path
         in (set_header ''content-location'' (as_url_string_with_prefix (pct_encode (sv_http sv)) p) res, p))
      else (res, path))"

section \<open>Hidden paths\<close>

definition is_collection_marker :: "bytes \<Rightarrow> bool" where
  "is_collection_marker name =
     (if eq_ignore_ascii_case name ''.dav-calendar'' then True
      else if eq_ignore_ascii_case name ''.dav-addressbook'' then True else False)"

text \<open>The walk from the path to the root; the fuel is the length of the path, and each parent is
  shorter.  Paths are compared with \<^verbatim>\<open>DavPath\<close>'s own equality.\<close>

fun symlink_walk :: "nat \<Rightarrow> ('s, 'h, 'l) server \<Rightarrow> dav_path \<Rightarrow> ('s, 'l, unit) handler" where
  "symlink_walk 0 sv current = diverge"
| "symlink_walk (Suc f) sv current =
     bind (attempt (on_fs (fs_symlink_metadata (sv_fs sv) current))) (\<lambda>r.
       bind (case r of
               Inr meta \<Rightarrow> if md_is_symlink meta then fail (Status 404) else ok ()
             | Inl e \<Rightarrow> if e = NotFound then ok () else fail (FsErr e))
         (\<lambda>_. if path_eq (path_parent current) current then ok ()
              else symlink_walk f sv (path_parent current)))"

definition ensure_visible :: "('s, 'h, 'l) server \<Rightarrow> dav_path \<Rightarrow> ('s, 'l, unit) handler" where
  "ensure_visible sv path =
     (if list_ex is_collection_marker (split_on slash (as_bytes path)) then fail (Status 404)
      else if (sv_hide_dot_prefix sv = HideAlways \<or> sv_hide_dot_prefix sv = HideForDirectPaths)
              \<and> list_ex (\<lambda>name. starts_with name ''.'') (split_on slash (as_bytes path))
      then fail (Status 404)
      else if sv_hide_symlinks sv then symlink_walk (length (fullpath path) + 1) sv path
      else ok ())"

definition visible_metadata :: "('s, 'h, 'l) server \<Rightarrow> dav_path \<Rightarrow> ('s, 'l, dav_meta) handler" where
  "visible_metadata sv path =
     bind (ensure_visible sv path) (\<lambda>_.
       if sv_hide_symlinks sv then fs_try (fs_symlink_metadata (sv_fs sv) path)
       else fs_try (fs_metadata (sv_fs sv) path))"

definition get_read_dir_meta :: "('s, 'h, 'l) server \<Rightarrow> read_dir_meta" where
  "get_read_dir_meta sv = (if sv_hide_symlinks sv then RdDataSymlink else RdData)"

section \<open>Client timestamps\<close>

text \<open>\<^verbatim>\<open>typed_try_get\<close>: an undecodable header is an error.\<close>

definition typed_try_get :: "request \<Rightarrow> bytes \<Rightarrow> (bytes list \<Rightarrow> 'a option) \<Rightarrow> unit + 'a option" where
  "typed_try_get rq name dec =
     (let vs = header_values rq name
      in if vs = [] then Inr None else (case dec vs of Some x \<Rightarrow> Inr (Some x) | None \<Rightarrow> Inl ()))"

definition oc_timestamps :: "http_env \<Rightarrow> request \<Rightarrow> bool \<Rightarrow> dav_error + systime option \<times> systime option" where
  "oc_timestamps env rq cl =
     (let bad = (if cl then StatusClose 400 else Status 400)
      in case typed_try_get rq ''x-oc-mtime'' (decode_unix_timestamp env) of
           Inl _ \<Rightarrow> Inl bad
         | Inr mtime \<Rightarrow> (case typed_try_get rq ''x-oc-ctime'' (decode_unix_timestamp env) of
              Inl _ \<Rightarrow> Inl bad
            | Inr ctime \<Rightarrow> Inr (mtime, ctime)))"

definition apply_one_timestamp :: "bytes \<Rightarrow> (systime \<Rightarrow> ('s, fs_error, unit) act) \<Rightarrow> systime option \<Rightarrow> response \<Rightarrow>
    ('s, 'l, response) handler" where
  "apply_one_timestamp name setter t res =
     (case t of
        None \<Rightarrow> ok res
      | Some tm \<Rightarrow> bind (attempt (on_fs (setter tm)))
          (\<lambda>r. case r of Inr _ \<Rightarrow> ok (set_header name ''accepted'' res) | Inl _ \<Rightarrow> ok res))"

definition apply_oc_timestamps :: "('s, 'h, 'l) server \<Rightarrow> dav_path \<Rightarrow> systime option \<Rightarrow> systime option \<Rightarrow> response \<Rightarrow>
    ('s, 'l, response) handler" where
  "apply_oc_timestamps sv path mtime ctime res =
     bind (apply_one_timestamp ''x-oc-mtime'' (fs_set_modified (sv_fs sv) path) mtime res)
       (apply_one_timestamp ''x-oc-ctime'' (fs_set_created (sv_fs sv) path) ctime)"

end
