(* ===== verification/Dav_Conditional.thy ===== *)
theory Dav_Conditional
  imports Dav_Server
begin

text \<open>
  Conditional requests, \<^verbatim>\<open>src/conditional.rs\<close>: the HTTP headers \<^verbatim>\<open>If-Match\<close>, \<^verbatim>\<open>If-None-Match\<close>,
  \<^verbatim>\<open>If-Modified-Since\<close>, \<^verbatim>\<open>If-Unmodified-Since\<close> and \<^verbatim>\<open>If-Range\<close>, and the WebDAV \<^verbatim>\<open>If\<close> header with the
  lock tokens it submits.
\<close>

section \<open>HTTP conditions\<close>

definition round_time :: "systime \<Rightarrow> systime" where
  "round_time tm = (if 0 \<le> tm then (tm div 1000000000) * 1000000000 else tm)"

fun ifrange_match :: "if_range \<Rightarrow> etag option \<Rightarrow> systime option \<Rightarrow> bool" where
  "ifrange_match (IrDate d) tag date =
     (case date of Some dt \<Rightarrow> round_time dt = round_time d | None \<Rightarrow> False)"
| "ifrange_match (IrETag t) tag date = (case tag of Some tg \<Rightarrow> strong_eq t tg | None \<Rightarrow> False)"

fun etaglist_match :: "etag_list \<Rightarrow> bool \<Rightarrow> etag option \<Rightarrow> (etag \<Rightarrow> etag \<Rightarrow> bool) \<Rightarrow> bool" where
  "etaglist_match Star exists tag cmp = exists"
| "etaglist_match (Tags t) exists tag cmp =
     (case tag of Some tg \<Rightarrow> list_ex (\<lambda>x. cmp x tg) t | None \<Rightarrow> False)"

definition get_or_head :: "request \<Rightarrow> bool" where
  "get_or_head rq \<longleftrightarrow> rq_method rq = ''GET'' \<or> rq_method rq = ''HEAD''"

definition http_if_match :: "http_env \<Rightarrow> request \<Rightarrow> dav_meta option \<Rightarrow> status option" where
  "http_if_match env rq meta =
     (let file_modified = Option.bind meta (\<lambda>m. case md_modified m of Inr t \<Rightarrow> Some t | Inl _ \<Rightarrow> None);
          etag = Option.bind meta etag_from_meta;
          first = (case typed_get rq ''if-match'' (decode_etaglist env) of
              Some r \<Rightarrow> if \<not> etaglist_match r (meta \<noteq> None) etag strong_eq then Some 412 else None
            | None \<Rightarrow> (case typed_get rq ''if-unmodified-since'' (unmodified_since_decode env) of
                 None \<Rightarrow> None
               | Some r \<Rightarrow> (case file_modified of
                    None \<Rightarrow> Some 412
                  | Some fm \<Rightarrow> if round_time fm > round_time r then Some 412 else None)))
      in if first \<noteq> None then first
         else (case typed_get rq ''if-none-match'' (decode_etaglist env) of
              Some r \<Rightarrow>
                if etaglist_match r (meta \<noteq> None) etag weak_eq
                then (if get_or_head rq then Some 304 else Some 412) else None
            | None \<Rightarrow> (case typed_get rq ''if-modified-since'' (modified_since_decode env) of
                 None \<Rightarrow> None
               | Some r \<Rightarrow> (case file_modified of
                    None \<Rightarrow> None
                  | Some fm \<Rightarrow> if get_or_head rq \<and> round_time fm \<le> round_time r then Some 304 else None))))"

section \<open>The If header\<close>

definition davpath_key :: "dav_path \<Rightarrow> bytes" where
  "davpath_key path =
     (let b = as_bytes path in if 1 < length b \<and> ends_with b [slash] then take (length b - 1) b else b)"

definition lock_covers_path :: "dav_lock \<Rightarrow> dav_path \<Rightarrow> bool" where
  "lock_covers_path l path =
     (let lock_key = davpath_key (lk_path l); path_key = davpath_key path
      in if lock_key = path_key then True
         else if \<not> lk_deep l then False
         else if lock_key = [slash] then True
         else starts_with path_key lock_key
              \<and> length lock_key < length path_key \<and> path_key ! length lock_key = slash)"

text \<open>\<^verbatim>\<open>discover\<close> of the lock system, which always returns.\<close>

definition discover_locks :: "'l ls_ops \<Rightarrow> dav_path \<Rightarrow> (('s, 'l) world, 'e, dav_lock list) act" where
  "discover_locks ls path =
     bind (attempt (on_ls (ls_discover ls path))) (\<lambda>r. case r of Inr ls \<Rightarrow> ok ls | Inl _ \<Rightarrow> ok [])"

definition cond_holds :: "('s, 'h, 'l) server \<Rightarrow> dav_path \<Rightarrow> bool \<Rightarrow> if_item \<Rightarrow> (('s, 'l) world, 'e, bool) act" where
  "cond_holds sv p valid item =
     (case item of
        StateToken s \<Rightarrow>
          if \<not> valid \<or> starts_with s ''DAV:'' then ok False
          else (case sv_ls sv of
                  Some ls \<Rightarrow> bind (discover_locks ls p)
                    (\<lambda>locks. ok (list_ex (\<lambda>l. lk_token l = s \<and> lock_covers_path l p) locks))
                | None \<Rightarrow> ok False)
      | IfETag tag \<Rightarrow>
          if \<not> valid then ok False
          else bind (attempt (on_fs (fs_metadata (sv_fs sv) p)))
            (\<lambda>r. case r of
               Inr meta \<Rightarrow> (case etag_from_meta meta of Some mtag \<Rightarrow> ok (strong_eq tag mtag) | None \<Rightarrow> ok False)
             | Inl _ \<Rightarrow> ok False))"

text \<open>The conditions of a list: all must hold, and there must be one.\<close>

fun conds_loop :: "('s, 'h, 'l) server \<Rightarrow> dav_path \<Rightarrow> bool \<Rightarrow> if_condition list \<Rightarrow> bool \<Rightarrow> (('s, 'l) world, 'e, bool) act" where
  "conds_loop sv p valid [] list_ok = ok list_ok"
| "conds_loop sv p valid (c # cs) list_ok =
     bind (cond_holds sv p valid (ic_item c))
       (\<lambda>cond_ok. if cond_ok = ic_not c then ok False else conds_loop sv p valid cs True)"

definition state_tokens :: "if_list \<Rightarrow> bytes list" where
  "state_tokens l = List.map_filter (\<lambda>c. case ic_item c of StateToken t \<Rightarrow> Some t | _ \<Rightarrow> None) (il_conditions l)"

text \<open>The resource a list is about, and whether its location is valid.\<close>

definition list_target :: "('s, 'h, 'l) server \<Rightarrow> request \<Rightarrow> dav_path \<Rightarrow> if_list \<Rightarrow> dav_path \<times> bool" where
  "list_target sv rq path l =
     (case il_tag l of
        None \<Rightarrow> (path, True)
      | Some u \<Rightarrow> (case from_str_and_prefix (pct_decode (sv_http sv)) (ur_path u) (get_prefix path) of
           Inr p \<Rightarrow> if request_is_same_server (sv_http sv) rq u then (p, True) else (path, False)
         | Inl _ \<Rightarrow> (path, False)))"

fun if_lists_loop :: "('s, 'h, 'l) server \<Rightarrow> request \<Rightarrow> dav_path \<Rightarrow> if_list list \<Rightarrow> bool \<Rightarrow> bytes list \<Rightarrow>
    (('s, 'l) world, 'e, bool \<times> bytes list) act" where
  "if_lists_loop sv rq path [] any_ok tokens = ok (any_ok, tokens)"
| "if_lists_loop sv rq path (l # ls) any_ok tokens =
     (let tokens' = tokens @ state_tokens l
      in if any_ok then if_lists_loop sv rq path ls any_ok tokens'
         else (let (p, valid) = list_target sv rq path l
               in bind (conds_loop sv p valid (il_conditions l) False)
                    (\<lambda>list_ok. if_lists_loop sv rq path ls list_ok tokens')))"

definition dav_if_match :: "('s, 'h, 'l) server \<Rightarrow> request \<Rightarrow> dav_path \<Rightarrow> (('s, 'l) world, 'e, bool \<times> bytes list) act" where
  "dav_if_match sv rq path =
     (case typed_get rq ''if'' (if_decode (sv_http sv)) of
        None \<Rightarrow> ok (True, [])
      | Some r \<Rightarrow> if_lists_loop sv rq path r False [])"

definition if_match :: "('s, 'h, 'l) server \<Rightarrow> request \<Rightarrow> dav_meta option \<Rightarrow> dav_path \<Rightarrow>
    (('s, 'l) world, 'e, status option) act" where
  "if_match sv rq meta path =
     bind (dav_if_match sv rq path)
       (\<lambda>(b, _). if b then ok (http_if_match (sv_http sv) rq meta) else ok (Some 412))"

definition if_match_get_tokens :: "('s, 'h, 'l) server \<Rightarrow> request \<Rightarrow> dav_meta option \<Rightarrow> dav_path \<Rightarrow>
    (('s, 'l) world, status, bytes list) act" where
  "if_match_get_tokens sv rq meta path =
     (case http_if_match (sv_http sv) rq meta of
        Some code \<Rightarrow> fail code
      | None \<Rightarrow> bind (dav_if_match sv rq path) (\<lambda>(b, v). if b then ok v else fail 412))"

end
