(* ===== verification/Fake_Ls.thy ===== *)
theory Fake_Ls
  imports Dav_Conditional
begin

text \<open>
  The fake lock system, \<^verbatim>\<open>src/fakels.rs\<close>, for clients that insist on \<^verbatim>\<open>LOCK\<close>: every lock is granted and
  every check succeeds.  The table of issued locks is an association list, in an order the
  \<^verbatim>\<open>HashMap\<close> may produce.  \<open>fk_uuid\<close> gives the successive hyphenated UUIDs.
\<close>

record fake_ls =
  fk_locks :: "(bytes \<times> dav_lock) list"
  fk_clock :: nat
  fk_uuid :: "nat \<Rightarrow> bytes"
  fk_drawn :: nat

definition fakels_new :: "nat \<Rightarrow> (nat \<Rightarrow> bytes) \<Rightarrow> fake_ls" where
  "fakels_new now uuid = \<lparr>fk_locks = [], fk_clock = now, fk_uuid = uuid, fk_drawn = 0\<rparr>"

text \<open>Durations are nanoseconds; the limit compares whole seconds.\<close>

definition tm_limit :: "nat option \<Rightarrow> nat" where
  "tm_limit d =
     (case d of
        None \<Rightarrow> 120 * 1000000000
      | Some n \<Rightarrow> if 120 < n div 1000000000 then 120 * 1000000000 else n)"

definition fake_path_key :: "dav_path \<Rightarrow> bytes" where
  "fake_path_key path =
     (let b = as_bytes path in if 1 < length b \<and> ends_with b [slash] then take (length b - 1) b else b)"

definition fake_covers_path :: "dav_lock \<Rightarrow> dav_path \<Rightarrow> bool" where
  "fake_covers_path l path =
     (let lock_key = fake_path_key (lk_path l); path_key = fake_path_key path
      in if lock_key = path_key then True
         else if \<not> lk_deep l then False
         else if lock_key = [slash] then True
         else starts_with path_key lock_key
              \<and> length lock_key < length path_key \<and> path_key ! length lock_key = slash)"

definition fakels_lock :: "dav_path \<Rightarrow> bytes option \<Rightarrow> xml_elem option \<Rightarrow> nat option \<Rightarrow> bool \<Rightarrow> bool \<Rightarrow>
    (fake_ls, dav_lock, dav_lock) act" where
  "fakels_lock path pr owner tmo shared deep = (\<lambda>s.
     let limit = tm_limit tmo;
         token = ''opaquetoken:'' @ fk_uuid s (fk_drawn s) @ ''/'' @ (if deep then ''I'' else ''0'')
                 @ ''/'' @ (if shared then ''S'' else ''E'');
         lock = \<lparr>lk_token = token, lk_path = path, lk_principal = pr, lk_owner = owner,
                 lk_timeout_at = Some (fk_clock s + limit), lk_timeout = Some limit, lk_shared = shared, lk_deep = deep\<rparr>
     in Some (Inr lock, s\<lparr>fk_locks := AList.update token lock (fk_locks s), fk_drawn := fk_drawn s + 1\<rparr>))"

definition fakels_unlock :: "dav_path \<Rightarrow> bytes \<Rightarrow> (fake_ls, unit, unit) act" where
  "fakels_unlock path token = (\<lambda>s. Some (Inr (), s\<lparr>fk_locks := AList.delete token (fk_locks s)\<rparr>))"

definition fakels_refresh :: "dav_path \<Rightarrow> bytes \<Rightarrow> nat option \<Rightarrow> (fake_ls, unit, dav_lock) act" where
  "fakels_refresh path token tmo = (\<lambda>s.
     let limit = tm_limit tmo
     in case map_of (fk_locks s) token of
          Some l \<Rightarrow>
            (let l' = l\<lparr>lk_timeout := Some limit, lk_timeout_at := Some (fk_clock s + limit)\<rparr>
             in Some (Inr l', s\<lparr>fk_locks := AList.update token l' (fk_locks s)\<rparr>))
        | None \<Rightarrow>
            (let v = split_on slash token
             in Some (Inr \<lparr>lk_token = token, lk_path = path, lk_principal = None, lk_owner = None,
                          lk_timeout_at = Some (fk_clock s + limit), lk_timeout = Some limit,
                          lk_shared = (2 < length v \<and> v ! 2 = ''S''), lk_deep = (1 < length v \<and> v ! 1 = ''I'')\<rparr>, s)))"

definition fakels_check :: "dav_path \<Rightarrow> bytes option \<Rightarrow> bool \<Rightarrow> bool \<Rightarrow> bytes list \<Rightarrow> (fake_ls, dav_lock, unit) act" where
  "fakels_check path pr ign deep tokens = ok ()"

definition fakels_discover :: "dav_path \<Rightarrow> (fake_ls, unit, dav_lock list) act" where
  "fakels_discover path = (\<lambda>s. Some (Inr (filter (\<lambda>l. fake_covers_path l path) (map snd (fk_locks s))), s))"

definition fakels_delete :: "dav_path \<Rightarrow> (fake_ls, unit, unit) act" where
  "fakels_delete path = (\<lambda>s.
     let del_key = fake_path_key path
     in Some (Inr (), s\<lparr>fk_locks := filter (\<lambda>(_, l).
          let lock_key = fake_path_key (lk_path l)
          in if lock_key = del_key then False
             else if del_key = [slash] then False
             else \<not> (starts_with lock_key del_key
                     \<and> length del_key < length lock_key \<and> lock_key ! length del_key = slash)) (fk_locks s)\<rparr>))"

definition fakels_ops :: "fake_ls ls_ops" where
  "fakels_ops = \<lparr>ls_lock = fakels_lock, ls_unlock = fakels_unlock, ls_refresh = fakels_refresh,
                 ls_check = fakels_check, ls_discover = fakels_discover, ls_delete = fakels_delete\<rparr>"

lemma fake_key [simp]: "fake_path_key = davpath_key" "fake_covers_path = lock_covers_path"
  by (simp_all add: fun_eq_iff fake_path_key_def davpath_key_def fake_covers_path_def lock_covers_path_def)

section \<open>Facts\<close>

text \<open>A lock just issued is discovered on its own path, and below it when it is deep, until its token
  is unlocked.\<close>

lemma covers_own: "lk_path l = p \<Longrightarrow> lock_covers_path l p"
  by (simp add: lock_covers_path_def)

lemma fakels_lock_discover:
  assumes "fakels_lock path pr owner tmo shared deep s = Some (Inr l, s1)"
  shows "\<exists>ls. fakels_discover path s1 = Some (Inr ls, s1) \<and> l \<in> set ls"
proof -
  have u: "(lk_token l, l) \<in> set (AList.update (lk_token l) l (fk_locks s))"
    using map_of_SomeD [of "AList.update (lk_token l) l (fk_locks s)"] by (simp add: update_conv)
  have "s1 = s\<lparr>fk_locks := AList.update (lk_token l) l (fk_locks s), fk_drawn := fk_drawn s + 1\<rparr>" "lk_path l = path"
    using assms by (auto simp: fakels_lock_def Let_def)
  with u show ?thesis by (force simp: fakels_discover_def covers_own)
qed

lemma fakels_unlock_gone:
  "fakels_unlock path tok s = Some (r, s1) \<Longrightarrow> map_of (fk_locks s1) tok = None"
  by (auto simp: fakels_unlock_def map_of_delete)

end
