(* ===== verification/Multi_Error.thy ===== *)
theory Multi_Error
  imports Dav_Conditional
begin

text \<open>
  Multi-status answers, \<^verbatim>\<open>src/multierror.rs\<close> with the channel of \<^verbatim>\<open>src/async_stream.rs\<close>: an operation
  sends the paths and statuses of its results, and the response is a plain one when there is a
  single result for the path of the request.  The code runs the operation while the client reads the
  response; the model follows it to its end.
\<close>

section \<open>The channel\<close>

text \<open>The items an operation sends, in order; the operations given to it end without an error.\<close>

definition collect :: "(('s, 'l) world, dav_error, unit) act \<Rightarrow> ('s, 'l, (dav_path \<times> status) list) handler" where
  "collect m = (\<lambda>w. case m (w\<lparr>w_items := []\<rparr>) of
       None \<Rightarrow> None
     | Some (_, w') \<Rightarrow> Some (Inr (w_items w'), w'\<lparr>w_items := w_items w\<rparr>))"

section \<open>The response\<close>

definition write_elem :: "bytes \<Rightarrow> bytes \<Rightarrow> xml_event list" where
  "write_elem name text =
     EvStart (Some ''D'') None name [] [] # (if text \<noteq> [] then [EvText text] else []) @ [EvEnd name]"

definition write_response :: "http_env \<Rightarrow> dav_path \<Rightarrow> status \<Rightarrow> xml_event list" where
  "write_response env path sc =
     [EvStart (Some ''D'') None ''response'' [] []]
     @ write_elem ''href'' (as_url_string_with_prefix (pct_encode env) path)
     @ write_elem ''status'' (''HTTP/1.1 '' @ status_text env sc)
     @ [EvEnd ''response'']"

definition multi_events :: "http_env \<Rightarrow> (dav_path \<times> status) list \<Rightarrow> xml_event list" where
  "multi_events env items =
     [EvStart (Some ''D'') None ''multistatus'' [] [(''D'', ''DAV:'')]]
     @ concat (map (\<lambda>(p, st). write_response env p (if st = 204 then 200 else st)) items)
     @ [EvEnd ''multistatus'']"

definition multi_error :: "http_env \<Rightarrow> dav_path \<Rightarrow> (dav_path \<times> status) list \<Rightarrow> ('s, 'l, response) handler" where
  "multi_error env rpath items =
     (case items of
        [] \<Rightarrow> fail ChanError
      | (path, st) # rest \<Rightarrow>
          if path_eq path rpath \<and> rest = [] then ok \<lparr>rs_status = st, rs_headers = [], rs_body = BEmpty\<rparr>
          else ok \<lparr>rs_status = 207, rs_headers = [(''content-type'', ''application/xml; charset=utf-8'')],
                   rs_body = BXml (multi_events env items)\<rparr>)"

lemma write_elem_nested: "nest st (write_elem n t) = Some st"
  by (simp add: write_elem_def)

lemma write_response_nested: "nest st (write_response env p sc) = Some st"
  by (simp add: write_response_def nest_append write_elem_nested)

lemma multi_events_nested: "nest [] (multi_events env items) = Some []"
proof -
  have "nest st (concat (map (\<lambda>(p, s). write_response env p (if s = 204 then 200 else s)) items)) = Some st" for st
    by (induction items) (simp_all add: nest_append write_response_nested split_beta)
  then show ?thesis by (simp add: multi_events_def nest_append)
qed

end
