(* ===== verification/Handle_Delete.thy ===== *)
theory Handle_Delete
  imports Multi_Error
begin

text \<open>
  \<^verbatim>\<open>DELETE\<close>, \<^verbatim>\<open>src/handle_delete.rs\<close>.  The recursion follows the directories of the backend, so its
  depth has no bound of its own: \<open>n\<close> is the depth the model follows, and \<open>None\<close> the result when the
  tree is deeper.
\<close>

definition add_status :: "dav_path \<Rightarrow> fs_error \<Rightarrow> ('s, 'l, 'a) handler" where
  "add_status path e =
     bind (send_item path (statuscode (FsErr e))) (\<lambda>_. fail (Status (statuscode (FsErr e))))"

definition dir_status :: "dav_path \<Rightarrow> fs_error \<Rightarrow> ('s, 'l, 'a) handler" where
  "dir_status path e =
     (let status = (if e = Exists then 409 else statuscode (FsErr e))
      in bind (send_item path status) (\<lambda>_. fail (Status status)))"

text \<open>\<open>result\<close> is the last error, if any; the loop goes on after an error that has been reported.\<close>

function delete_items :: "nat \<Rightarrow> ('s, 'h, 'l) server \<Rightarrow> depth \<Rightarrow> dav_meta \<Rightarrow> dav_path \<Rightarrow> ('s, 'l, unit) handler"
  and delete_entries :: "nat \<Rightarrow> ('s, 'h, 'l) server \<Rightarrow> depth \<Rightarrow> dav_path \<Rightarrow> (fs_error + 's dirent) list \<Rightarrow>
    dav_error option \<Rightarrow> ('s, 'l, unit) handler" where
  "delete_items 0 sv depth meta path = diverge"
| "delete_items (Suc n) sv depth meta path =
     (if \<not> md_is_dir meta then
        bind (attempt (on_fs (fs_remove_file (sv_fs sv) path)))
          (\<lambda>r. case r of Inr x \<Rightarrow> ok x | Inl e \<Rightarrow> add_status path e)
      else if depth = DepthZero then
        bind (attempt (on_fs (fs_remove_dir (sv_fs sv) path)))
          (\<lambda>r. case r of Inr x \<Rightarrow> ok x | Inl e \<Rightarrow> add_status path e)
      else
        bind (attempt (on_fs (fs_read_dir (sv_fs sv) path RdDataSymlink)))
          (\<lambda>r. case r of
             Inl e \<Rightarrow> add_status path e
           | Inr entries \<Rightarrow>
               bind (delete_entries n sv depth path entries None) (\<lambda>_.
               bind (attempt (on_fs (fs_remove_dir (sv_fs sv) path)))
                 (\<lambda>r. case r of Inr x \<Rightarrow> ok x | Inl e \<Rightarrow> dir_status path e))))"
| "delete_entries n sv depth path [] result = (case result of None \<Rightarrow> ok () | Some e \<Rightarrow> fail e)"
| "delete_entries n sv depth path (Inl e # es) result =
     bind (attempt (add_status path e)) (\<lambda>r. case r of
         Inl e' \<Rightarrow> delete_entries n sv depth path es (Some e')
       | Inr () \<Rightarrow> delete_entries n sv depth path es result)"
| "delete_entries n sv depth path (Inr de # es) result =
     bind (attempt (on_fs (de_metadata de))) (\<lambda>r. case r of
         Inl e \<Rightarrow> bind (attempt (add_status path e)) (\<lambda>r. case r of
             Inl e' \<Rightarrow> delete_entries n sv depth path es (Some e')
           | Inr () \<Rightarrow> delete_entries n sv depth path es result)
       | Inr meta \<Rightarrow>
           bind (attempt (delete_items n sv depth meta
                   (add_slash_if (md_is_dir meta) (push_segment (de_name de) path))))
             (\<lambda>r. case r of
                Inr _ \<Rightarrow> delete_entries n sv depth path es result
              | Inl (Status st) \<Rightarrow> delete_entries n sv depth path es (Some (Status st))
              | Inl e \<Rightarrow> fail e))"
  by pat_completeness auto

termination
  by (relation "measures [\<lambda>x. case x of Inl (n, _) \<Rightarrow> n | Inr (n, _) \<Rightarrow> n,
        \<lambda>x. case x of Inl _ \<Rightarrow> 0 | Inr (_, _, _, _, es, _) \<Rightarrow> Suc (length es)]") auto

text \<open>The check of the locks that \<^verbatim>\<open>DELETE\<close>, \<^verbatim>\<open>COPY\<close>, \<^verbatim>\<open>MOVE\<close>, \<^verbatim>\<open>PUT\<close>, \<^verbatim>\<open>MKCOL\<close> and \<^verbatim>\<open>PROPPATCH\<close> share;
  \<open>locked\<close> is the error they return.\<close>

definition check_locks :: "('s, 'h, 'l) server \<Rightarrow> dav_path \<Rightarrow> bool \<Rightarrow> bytes list \<Rightarrow> dav_error \<Rightarrow> ('s, 'l, unit) handler" where
  "check_locks sv path deep tokens locked =
     (case sv_ls sv of
        None \<Rightarrow> ok ()
      | Some ls \<Rightarrow> map_err (\<lambda>_. locked) (on_ls (ls_check ls path (sv_principal sv) False deep tokens)))"

definition delete_depth :: "request \<Rightarrow> dav_error + depth" where
  "delete_depth rq =
     (case typed_get rq ''depth'' depth_decode of
        Some DepthInfinity \<Rightarrow> Inr DepthInfinity
      | None \<Rightarrow> Inr DepthInfinity
      | Some DepthZero \<Rightarrow> Inr DepthZero
      | _ \<Rightarrow> Inl (Status 400))"

definition unlock_path :: "('s, 'h, 'l) server \<Rightarrow> dav_path \<Rightarrow> ('s, 'l, unit) handler" where
  "unlock_path sv path =
     (case sv_ls sv of
        None \<Rightarrow> ok ()
      | Some ls \<Rightarrow> bind (attempt (on_ls (ls_delete ls path))) (\<lambda>_. ok ()))"

text \<open>What runs behind the response.\<close>

definition delete_stream :: "nat \<Rightarrow> ('s, 'h, 'l) server \<Rightarrow> depth \<Rightarrow> dav_meta \<Rightarrow> dav_path \<Rightarrow> ('s, 'l, unit) handler" where
  "delete_stream n sv depth meta path =
     bind (attempt (delete_items n sv depth meta path)) (\<lambda>r. case r of
         Inr _ \<Rightarrow> bind (unlock_path sv path) (\<lambda>_. send_item path 204)
       | Inl _ \<Rightarrow> ok ())"

definition delete_at :: "nat \<Rightarrow> ('s, 'h, 'l) server \<Rightarrow> request \<Rightarrow> depth \<Rightarrow> dav_meta \<Rightarrow> dav_path \<Rightarrow> ('s, 'l, response) handler" where
  "delete_at n sv rq depth meta path =
     bind (map_err Status (if_match_get_tokens sv rq (Some meta) path)) (\<lambda>tokens.
     bind (check_locks sv path True tokens (Status 423)) (\<lambda>_.
     bind (collect (delete_stream n sv depth meta path)) (multi_error (sv_http sv) path)))"

definition handle_delete :: "nat \<Rightarrow> ('s, 'h, 'l) server \<Rightarrow> request \<Rightarrow> ('s, 'l, response) handler" where
  "handle_delete n sv rq =
     (case delete_depth rq of
        Inl e \<Rightarrow> fail e
      | Inr depth \<Rightarrow>
         req_path sv rq (\<lambda>path0.
         bind (ensure_visible sv path0) (\<lambda>_.
         bind (fs_try (fs_symlink_metadata (sv_fs sv) path0)) (\<lambda>meta.
         bind (if md_is_symlink meta then
                 bind (attempt (on_fs (fs_metadata (sv_fs sv) path0)))
                   (\<lambda>r. case r of Inr m2 \<Rightarrow> ok (add_slash_if (md_is_dir m2) path0) | Inl _ \<Rightarrow> ok path0)
               else ok path0) (\<lambda>path1.
         delete_at n sv rq depth meta (add_slash_if (md_is_dir meta) path1))))))"

end
