(* ===== verification/Handle_Lock.thy ===== *)
theory Handle_Lock
  imports Handle_Delete
begin

text \<open>
  \<^verbatim>\<open>LOCK\<close> and \<^verbatim>\<open>UNLOCK\<close>, \<^verbatim>\<open>src/handle_lock.rs\<close>, with the lock properties they and \<^verbatim>\<open>PROPFIND\<close> report.
  Durations are nanoseconds.
\<close>

section \<open>Lock properties\<close>

definition seconds :: "nat \<Rightarrow> nat" where "seconds n = n * 1000000000"

definition build_lock_prop :: "http_env \<Rightarrow> dav_lock \<Rightarrow> bool \<Rightarrow> xml_elem" where
  "build_lock_prop env l full =
     (let actlock = fold push_element
            ([push_element (if lk_shared l then new2 ''D:shared'' else new2 ''D:exclusive'') (new2 ''D:lockscope''),
              push_element (new2 ''D:write'') (new2 ''D:locktype''),
              elem_text (if lk_deep l then ''Infinity'' else ''0'') (new2 ''D:depth''),
              elem_text (case lk_timeout l of
                  None \<Rightarrow> ''Infinite''
                | Some d \<Rightarrow> ''Second-'' @ show_nat (d div 1000000000)) (new2 ''D:timeout''),
              push_element (elem_text (lk_token l) (new2 ''D:href'')) (new2 ''D:locktoken''),
              push_element (elem_text (as_url_string_with_prefix (pct_encode env) (lk_path l)) (new2 ''D:href''))
                (new2 ''D:lockroot'')]
             @ (case lk_owner l of None \<Rightarrow> [] | Some ow \<Rightarrow> [ow]))
            (new2 ''D:activelock'')
      in if \<not> full then actlock
         else push_element (push_element actlock (new2 ''D:lockdiscovery'')) (elem_with_ns ''D'' ''DAV:'' (new2 ''D:prop'')))"

definition list_lockdiscovery :: "('s, 'h, 'l) server \<Rightarrow> dav_path \<Rightarrow> ('s, 'l, xml_elem) handler" where
  "list_lockdiscovery sv path =
     (case sv_ls sv of
        None \<Rightarrow> ok (new2 ''D:lockdiscovery'')
      | Some ls \<Rightarrow> bind (discover_locks ls path) (\<lambda>locks.
          ok (fold push_element (map (\<lambda>l. build_lock_prop (sv_http sv) l False) locks) (new2 ''D:lockdiscovery''))))"

definition lock_entry :: "bytes \<Rightarrow> xml_elem" where
  "lock_entry scope =
     push_element (push_element (new2 ''D:write'') (new2 ''D:locktype''))
       (push_element (push_element (new2 scope) (new2 ''D:lockscope'')) (new2 ''D:lockentry''))"

definition list_supportedlock :: "'l ls_ops option \<Rightarrow> xml_elem" where
  "list_supportedlock ls =
     (case ls of
        None \<Rightarrow> new2 ''D:supportedlock''
      | Some _ \<Rightarrow> push_element (lock_entry ''D:shared'')
          (push_element (lock_entry ''D:exclusive'') (new2 ''D:supportedlock'')))"

section \<open>Request decoding\<close>

definition get_timeout :: "http_env \<Rightarrow> request \<Rightarrow> bool \<Rightarrow> bool \<Rightarrow> nat option" where
  "get_timeout env rq refresh shared =
     (let max_timeout = (if shared then seconds 86400 else seconds 600)
      in case typed_get rq ''timeout'' (timeout_decode env) of
           Some (Infinite # _) \<Rightarrow> if refresh then None else Some max_timeout
         | Some (Seconds n # _) \<Rightarrow> Some (min max_timeout (seconds n))
         | _ \<Rightarrow> None)"

fun first_child_name :: "xml_elem list \<Rightarrow> bytes option" where
  "first_child_name [] = None"
| "first_child_name (e # _) = Some (el_name e)"

definition as_owner :: "xml_elem \<Rightarrow> xml_elem" where
  "as_owner e = Elem (Some ''D'') (el_ns e) (el_namespaces e) (el_name e) (el_attributes e) (el_children e)"

text \<open>The loop over the children of \<^verbatim>\<open>lockinfo\<close>; the state is the scope, the owner and whether the lock
  type was seen.\<close>

fun lockinfo_loop :: "xml_elem list \<Rightarrow> bool option \<times> xml_elem option \<times> bool \<Rightarrow>
    dav_error + bool option \<times> xml_elem option \<times> bool" where
  "lockinfo_loop [] st = Inr st"
| "lockinfo_loop (e # es) (shared, owner, locktype) =
     (if el_name e = ''lockscope'' then
        (case first_child_name (child_elems e) of
           Some n \<Rightarrow> if n = ''exclusive'' then lockinfo_loop es (Some False, owner, locktype)
                     else if n = ''shared'' then lockinfo_loop es (Some True, owner, locktype)
                     else Inl XmlParseError
         | None \<Rightarrow> Inl XmlParseError)
      else if el_name e = ''locktype'' then
        (if first_child_name (child_elems e) = Some ''write'' then lockinfo_loop es (shared, owner, True)
         else Inl XmlParseError)
      else if el_name e = ''owner'' then lockinfo_loop es (shared, Some (as_owner e), locktype)
      else Inl XmlParseError)"

definition parse_lockinfo :: "http_env \<Rightarrow> bytes \<Rightarrow> dav_error + bool \<times> xml_elem option" where
  "parse_lockinfo env xmldata =
     (case parse2 (xml_parse_all env) xmldata of
        Inl e \<Rightarrow> Inl e
      | Inr tree \<Rightarrow>
          if el_name tree \<noteq> ''lockinfo'' then Inl XmlParseError
          else (case lockinfo_loop (child_elems tree) (None, None, False) of
                  Inl e \<Rightarrow> Inl e
                | Inr (shared, owner, locktype) \<Rightarrow>
                   (case shared of
                      None \<Rightarrow> Inl XmlParseError
                    | Some sh \<Rightarrow> if \<not> locktype then Inl XmlParseError else Inr (sh, owner))))"

text \<open>The depth of the lock: whether it is deep.\<close>

definition lock_depth :: "request \<Rightarrow> dav_error + bool" where
  "lock_depth rq =
     (case typed_get rq ''depth'' depth_decode of
        Some DepthInfinity \<Rightarrow> Inr True
      | None \<Rightarrow> Inr True
      | Some DepthZero \<Rightarrow> Inr False
      | _ \<Rightarrow> Inl (Status 400))"

text \<open>The open options of \<^verbatim>\<open>LOCK\<close> and \<^verbatim>\<open>PUT\<close> that depend on \<^verbatim>\<open>If-Match: *\<close> and \<^verbatim>\<open>If-None-Match: *\<close>.\<close>

definition star_options :: "http_env \<Rightarrow> request \<Rightarrow> open_options \<Rightarrow> open_options" where
  "star_options env rq oo =
     (let oo1 = (if typed_get rq ''if-match'' (decode_etaglist env) = Some Star then oo\<lparr>oo_create := False\<rparr> else oo)
      in if typed_get rq ''if-none-match'' (decode_etaglist env) = Some Star then oo1\<lparr>oo_create_new := True\<rparr> else oo1)"

section \<open>LOCK\<close>

definition lock_response :: "http_env \<Rightarrow> dav_lock \<Rightarrow> response \<Rightarrow> response" where
  "lock_response env l res =
     (set_header ''content-type'' ''application/xml; charset=utf-8'' res)
       \<lparr>rs_body := BXml (write_ev (build_lock_prop env l True))\<rparr>"

text \<open>The metadata of the path, if any, with the response and the path as \<^verbatim>\<open>fixpath\<close> leaves them.\<close>

definition lock_target :: "('s, 'h, 'l) server \<Rightarrow> dav_path \<Rightarrow> ('s, 'l, dav_meta option \<times> response \<times> dav_path) handler" where
  "lock_target sv path =
     bind (attempt (on_fs (fs_metadata (sv_fs sv) path))) (\<lambda>r. case r of
         Inr meta \<Rightarrow> (let (res, p) = fixpath sv response_new path meta in ok (Some meta, res, p))
       | Inl _ \<Rightarrow> ok (None, response_new, path))"

definition refresh_at :: "('s, 'h, 'l) server \<Rightarrow> 'l ls_ops \<Rightarrow> request \<Rightarrow> response \<Rightarrow> dav_path \<Rightarrow> ('s, 'l, response) handler" where
  "refresh_at sv ls rq res path =
     bind (dav_if_match sv rq path) (\<lambda>(if_ok, tokens).
       if \<not> if_ok then fail (Status 412)
       else
         (case filter (\<lambda>t. \<not> starts_with t ''DAV:'') tokens of
            [tok] \<Rightarrow>
              bind (attempt (on_ls (ls_check ls path (sv_principal sv) False False [tok]))) (\<lambda>r. case r of
                  Inr _ \<Rightarrow>
                    bind (map_err (\<lambda>_. Status 412)
                            (on_ls (ls_refresh ls path tok (get_timeout (sv_http sv) rq True False))))
                      (\<lambda>l. ok (lock_response (sv_http sv) l res))
                | Inl _ \<Rightarrow> fail (Status 412))
          | _ \<Rightarrow> fail (Status 400)))"

text \<open>Creates the file a lock on an unmapped URL stands for; when that fails, the lock is given back.\<close>

definition lock_create :: "('s, 'h, 'l) server \<Rightarrow> 'l ls_ops \<Rightarrow> dav_path \<Rightarrow> open_options \<Rightarrow> bytes \<Rightarrow> ('s, 'l, unit) handler" where
  "lock_create sv ls path oo tok =
     bind (attempt (on_fs (fs_open (sv_fs sv) path oo))) (\<lambda>r. case r of
         Inr _ \<Rightarrow> ok ()
       | Inl e \<Rightarrow> bind (attempt (on_ls (ls_unlock ls path tok))) (\<lambda>_.
           fail (if e = NotFound \<or> e = Exists
                 then Status (if \<not> oo_create oo \<or> oo_create_new oo then 412 else 409)
                 else FsErr e)))"

definition lock_finish :: "('s, 'h, 'l) server \<Rightarrow> 'l ls_ops \<Rightarrow> request \<Rightarrow> dav_meta option \<Rightarrow> response \<Rightarrow> dav_path \<Rightarrow> dav_lock \<Rightarrow>
    ('s, 'l, response) handler" where
  "lock_finish sv ls rq meta res path l =
     bind (if meta = None then
             lock_create sv ls path (star_options (sv_http sv) rq (oo_for_write\<lparr>oo_create := True\<rparr>)) (lk_token l)
           else ok ()) (\<lambda>_.
       ok (lock_response (sv_http sv) l
             ((set_header ''lock-token'' (''<'' @ lk_token l @ ''>'') res)
                \<lparr>rs_status := (if meta = None then 201 else 200)\<rparr>)))"

definition lock_at :: "('s, 'h, 'l) server \<Rightarrow> 'l ls_ops \<Rightarrow> request \<Rightarrow> bytes \<Rightarrow> dav_meta option \<Rightarrow> response \<Rightarrow> dav_path \<Rightarrow>
    ('s, 'l, response) handler" where
  "lock_at sv ls rq xmldata meta res path =
     (case lock_depth rq of
        Inl e \<Rightarrow> fail e
      | Inr deep \<Rightarrow>
         bind (if_match sv rq meta path) (\<lambda>s. case s of
             Some st \<Rightarrow> fail (Status st)
           | None \<Rightarrow> (case parse_lockinfo (sv_http sv) xmldata of
                Inl e \<Rightarrow> fail e
              | Inr (shared, owner) \<Rightarrow>
                 bind (map_err (\<lambda>_. Status 423) (on_ls (ls_lock ls path (sv_principal sv) owner
                         (get_timeout (sv_http sv) rq False shared) shared deep)))
                   (lock_finish sv ls rq meta res path))))"

definition handle_lock :: "('s, 'h, 'l) server \<Rightarrow> request \<Rightarrow> bytes \<Rightarrow> ('s, 'l, response) handler" where
  "handle_lock sv rq xmldata =
     (case sv_ls sv of
        None \<Rightarrow> fail (Status 405)
      | Some ls \<Rightarrow>
         req_path sv rq (\<lambda>path0.
         bind (ensure_visible sv path0) (\<lambda>_.
         bind (lock_target sv path0) (\<lambda>(meta, res, path).
           if xmldata = [] then refresh_at sv ls rq res path
           else lock_at sv ls rq xmldata meta res path))))"

section \<open>UNLOCK\<close>

definition is_angle :: "byte \<Rightarrow> bool" where
  "is_angle c \<longleftrightarrow> c = CHR ''<'' \<or> c = CHR ''>''"

definition handle_unlock :: "('s, 'h, 'l) server \<Rightarrow> request \<Rightarrow> ('s, 'l, response) handler" where
  "handle_unlock sv rq =
     (case sv_ls sv of
        None \<Rightarrow> fail (Status 405)
      | Some ls \<Rightarrow> (case typed_get rq ''lock-token'' (text_decode (sv_http sv)) of
           None \<Rightarrow> fail (Status 400)
         | Some t \<Rightarrow>
             req_path sv rq (\<lambda>path0.
             bind (ensure_visible sv path0) (\<lambda>_.
             bind (lock_target sv path0) (\<lambda>(_, res, path).
             bind (map_err (\<lambda>_. Status 409) (on_ls (ls_unlock ls path (trim_matches is_angle t))))
               (\<lambda>_. ok (res\<lparr>rs_status := 204\<rparr>)))))))"

end
