(* ===== verification/Handle_Copymove.thy ===== *)
theory Handle_Copymove
  imports Handle_Delete
begin

text \<open>
  \<^verbatim>\<open>COPY\<close> and \<^verbatim>\<open>MOVE\<close>, \<^verbatim>\<open>src/handle_copymove.rs\<close>.  As for \<^verbatim>\<open>DELETE\<close>, \<open>n\<close> is the depth of the
  directory tree the model follows.
\<close>

text \<open>\<^verbatim>\<open>add_status\<close> of this file: it returns the error itself.\<close>

definition copy_status :: "dav_path \<Rightarrow> dav_error \<Rightarrow> ('s, 'l, 'a) handler" where
  "copy_status path e = bind (send_item path (statuscode e)) (\<lambda>_. fail e)"

text \<open>The first status of a property patch that is not a success.\<close>

definition first_failure :: "(status \<times> dav_prop) list \<Rightarrow> dav_error option" where
  "first_failure res = map_option (\<lambda>(st, _). Status st) (find (\<lambda>(st, _). \<not> is_success st) res)"

definition copy_collection_properties :: "('s, 'h, 'l) server \<Rightarrow> dav_path \<Rightarrow> dav_path \<Rightarrow> dav_meta \<Rightarrow> ('s, 'l, unit) handler" where
  "copy_collection_properties sv source dest meta =
     bind (collection_kind_of sv source meta) (\<lambda>kind.
     bind (on_fs (\<lambda>s. case fs_have_props (sv_fs sv) source s of None \<Rightarrow> None | Some (b, s') \<Rightarrow> Some (Inr b, s')))
       (\<lambda>have_props.
     bind (if \<not> have_props then ok ()
           else bind (fs_try (fs_get_props (sv_fs sv) source True)) (\<lambda>source_props.
                bind (fs_try (fs_get_props (sv_fs sv) dest False)) (\<lambda>dest_props.
                  let patch = map (\<lambda>p. (False, p)) dest_props @ map (\<lambda>p. (True, p)) source_props
                  in if patch = [] then ok ()
                     else bind (fs_try (fs_patch_props (sv_fs sv) dest patch)) (\<lambda>res.
                       case first_failure res of Some e \<Rightarrow> fail e | None \<Rightarrow> ok ()))))
       (\<lambda>_. case kind of
          CkCalendar \<Rightarrow> fs_try (fs_mark_calendar (sv_fs sv) dest)
        | CkAddressbook \<Rightarrow> fs_try (fs_mark_addressbook (sv_fs sv) dest)
        | CkNone \<Rightarrow> ok ())))"

function do_copy :: "nat \<Rightarrow> ('s, 'h, 'l) server \<Rightarrow> dav_path \<Rightarrow> dav_path \<Rightarrow> dav_path \<Rightarrow> depth \<Rightarrow> ('s, 'l, unit) handler"
  and copy_entries :: "nat \<Rightarrow> ('s, 'h, 'l) server \<Rightarrow> dav_path \<Rightarrow> dav_path \<Rightarrow> dav_path \<Rightarrow> depth \<Rightarrow>
    (fs_error + 's dirent) list \<Rightarrow> dav_error option \<Rightarrow> ('s, 'l, unit) handler" where
  "do_copy 0 sv source topdest dest depth = diverge"
| "do_copy (Suc n) sv source topdest dest depth =
     (if path_eq source topdest then ok ()
      else bind (attempt (on_fs (fs_metadata (sv_fs sv) source))) (\<lambda>r. case r of
          Inl e \<Rightarrow> copy_status source (FsErr e)
        | Inr meta \<Rightarrow>
            if \<not> md_is_dir meta then
              bind (attempt (on_fs (fs_copy (sv_fs sv) source dest)))
                (\<lambda>r. case r of Inr _ \<Rightarrow> ok () | Inl e \<Rightarrow> copy_status source (FsErr e))
            else
              bind (attempt (on_fs (fs_create_dir (sv_fs sv) dest))) (\<lambda>r.
              bind (case r of
                      Inl e \<Rightarrow> if depth \<noteq> DepthZero \<or> e \<noteq> Exists then copy_status dest (FsErr e) else ok ()
                    | Inr _ \<Rightarrow> ok ()) (\<lambda>_.
              bind (attempt (copy_collection_properties sv source dest meta)) (\<lambda>r.
              bind (case r of Inl e \<Rightarrow> copy_status dest e | Inr _ \<Rightarrow> ok ()) (\<lambda>_.
              if depth = DepthZero then ok ()
              else bind (attempt (on_fs (fs_read_dir (sv_fs sv) source RdDataSymlink))) (\<lambda>r. case r of
                  Inl e \<Rightarrow> copy_status source (FsErr e)
                | Inr entries \<Rightarrow> copy_entries n sv source topdest dest depth entries None)))))))"
| "copy_entries n sv source topdest dest depth [] retval =
     (case retval of None \<Rightarrow> ok () | Some e \<Rightarrow> fail e)"
| "copy_entries n sv source topdest dest depth (Inl e # es) retval = copy_status source (FsErr e)"
| "copy_entries n sv source topdest dest depth (Inr de # es) retval =
     bind (attempt (on_fs (de_metadata de))) (\<lambda>r. case r of
         Inl e \<Rightarrow> copy_status source (FsErr e)
       | Inr meta \<Rightarrow>
          (let nsrc = add_slash_if (md_is_dir meta) (push_segment (de_name de) source);
               ndest = add_slash_if (md_is_dir meta) (push_segment (de_name de) dest)
           in bind (attempt (ensure_visible sv nsrc)) (\<lambda>r. case r of
                Inl e \<Rightarrow>
                  if statuscode e \<noteq> 404 then
                    bind (attempt (copy_status nsrc e)) (\<lambda>r. case r of
                        Inl e' \<Rightarrow> copy_entries n sv source topdest dest depth es (Some e')
                      | Inr () \<Rightarrow> copy_entries n sv source topdest dest depth es None)
                  else copy_entries n sv source topdest dest depth es retval
              | Inr _ \<Rightarrow>
                  bind (attempt (do_copy n sv nsrc topdest ndest depth)) (\<lambda>r. case r of
                      Inl e \<Rightarrow> copy_entries n sv source topdest dest depth es (Some e)
                    | Inr _ \<Rightarrow> copy_entries n sv source topdest dest depth es retval))))"
  by pat_completeness auto

termination
  by (relation "measures [\<lambda>x. case x of Inl (n, _) \<Rightarrow> n | Inr (n, _) \<Rightarrow> n,
        \<lambda>x. case x of Inl _ \<Rightarrow> 0 | Inr (_, _, _, _, _, _, es, _) \<Rightarrow> Suc (length es)]") auto

definition do_move :: "('s, 'h, 'l) server \<Rightarrow> dav_path \<Rightarrow> dav_path \<Rightarrow> ('s, 'l, unit) handler" where
  "do_move sv source dest =
     bind (attempt (on_fs (fs_rename (sv_fs sv) source dest)))
       (\<lambda>r. case r of Inl e \<Rightarrow> copy_status source (FsErr e) | Inr _ \<Rightarrow> ok ())"

section \<open>Objects copied into calendars and address books\<close>

definition MAX_RESOURCE_SIZE :: nat where "MAX_RESOURCE_SIZE = 1024 * 1024"

definition object_valid :: "http_env \<Rightarrow> collection_kind \<Rightarrow> bytes \<Rightarrow> bool" where
  "object_valid env kind dat \<longleftrightarrow> utf8_valid dat \<and>
     (case kind of CkCalendar \<Rightarrow> calendar_parses env dat | CkAddressbook \<Rightarrow> vcard_parses env dat | CkNone \<Rightarrow> True)"

definition validate_copy_destination :: "('s, 'h, 'l) server \<Rightarrow> dav_path \<Rightarrow> dav_path \<Rightarrow> ('s, 'l, unit) handler" where
  "validate_copy_destination sv source dest =
     bind (fs_try (fs_metadata (sv_fs sv) (path_parent dest))) (\<lambda>pmeta.
     bind (collection_kind_of sv (path_parent dest) pmeta) (\<lambda>kind.
       if kind = CkNone then ok ()
       else
         bind (fs_try (fs_metadata (sv_fs sv) source)) (\<lambda>meta.
           if md_is_dir meta \<or> MAX_RESOURCE_SIZE < md_len meta then fail (Status 403)
           else
             bind (fs_try (fs_open (sv_fs sv) source oo_for_read)) (\<lambda>file.
             bind (fs_try (read_file_to_end (sv_fs sv) file (MAX_RESOURCE_SIZE + 1))) (\<lambda>(dat, _).
               if length dat \<le> MAX_RESOURCE_SIZE \<and> object_valid (sv_http sv) kind dat then ok ()
               else fail (Status 403))))))"

section \<open>The handler\<close>

definition copymove_depth :: "request \<Rightarrow> dav_method \<Rightarrow> dav_error + depth" where
  "copymove_depth rq method =
     (case typed_get rq ''depth'' depth_decode of
        Some DepthInfinity \<Rightarrow> Inr DepthInfinity
      | None \<Rightarrow> Inr DepthInfinity
      | Some DepthZero \<Rightarrow> if method = MCopy then Inr DepthZero else Inl (Status 400)
      | _ \<Rightarrow> Inl (Status 400))"

definition copymove_dest :: "('s, 'h, 'l) server \<Rightarrow> request \<Rightarrow> dav_error + dav_path" where
  "copymove_dest sv rq =
     (case typed_get rq ''destination'' (destination_decode (sv_http sv)) of
        None \<Rightarrow> Inl (Status 400)
      | Some d \<Rightarrow>
          if \<not> is_same_server (sv_http sv) d rq then Inl (Status 502)
          else (case from_str_and_prefix (pct_decode (sv_http sv)) (ds_path d) (sv_prefix sv) of
                  Inl e \<Rightarrow> Inl (parse_error_to_dav e)
                | Inr p \<Rightarrow> Inr p))"

text \<open>The metadata of the source and its path, with a slash when it is a collection.\<close>

definition copymove_source :: "('s, 'h, 'l) server \<Rightarrow> dav_method \<Rightarrow> dav_path \<Rightarrow> ('s, 'l, dav_meta \<times> dav_path) handler" where
  "copymove_source sv method path =
     (if method = MMove then
        bind (fs_try (fs_symlink_metadata (sv_fs sv) path)) (\<lambda>meta.
        bind (if md_is_symlink meta then
                bind (fs_try (fs_metadata (sv_fs sv) path)) (\<lambda>m2. ok (add_slash_if (md_is_dir m2) path))
              else ok path) (\<lambda>path1.
        ok (meta, add_slash_if (md_is_dir meta) path1)))
      else
        bind (fs_try (fs_metadata (sv_fs sv) path)) (\<lambda>meta. ok (meta, add_slash_if (md_is_dir meta) path)))"

text \<open>Whether the destination is a file, and its own metadata, when it exists.\<close>

definition copymove_target :: "('s, 'h, 'l) server \<Rightarrow> dav_path \<Rightarrow> ('s, 'l, bool \<times> dav_meta option) handler" where
  "copymove_target sv dest =
     bind (attempt (on_fs (fs_symlink_metadata (sv_fs sv) dest))) (\<lambda>r. case r of
         Inl _ \<Rightarrow> ok (False, None)
       | Inr meta \<Rightarrow>
           bind (if md_is_symlink meta then
                   bind (attempt (on_fs (fs_metadata (sv_fs sv) dest)))
                     (\<lambda>r. case r of Inr m \<Rightarrow> ok (md_is_file m) | Inl _ \<Rightarrow> ok False)
                 else ok False)
             (\<lambda>is_file. ok (if md_is_file meta then True else is_file, Some meta)))"

definition same_or_nested :: "('s, 'h, 'l) server \<Rightarrow> dav_path \<Rightarrow> dav_path \<Rightarrow> bool \<Rightarrow> ('s, 'l, bool) handler" where
  "same_or_nested sv path dest exists =
     (if path_eq path dest \<or> is_in_collection dest path \<or> is_in_collection path dest then ok True
      else if exists then fs_try (fs_same_resource (sv_fs sv) path dest)
      else ok False)"

definition copymove_locks :: "('s, 'h, 'l) server \<Rightarrow> dav_method \<Rightarrow> dav_path \<Rightarrow> dav_path \<Rightarrow> bytes list \<Rightarrow> ('s, 'l, unit) handler" where
  "copymove_locks sv method path dest tokens =
     bind (if method = MMove then check_locks sv path True tokens (Status 423) else ok ())
       (\<lambda>_. check_locks sv dest True tokens (Status 423))"

text \<open>A copy with \<^verbatim>\<open>Depth: 0\<close> onto a collection of another kind is refused.\<close>

definition check_kinds :: "('s, 'h, 'l) server \<Rightarrow> dav_path \<Rightarrow> dav_meta \<Rightarrow> dav_path \<Rightarrow> ('s, 'l, unit) handler" where
  "check_kinds sv path meta dest =
     bind (fs_try (fs_metadata (sv_fs sv) dest)) (\<lambda>dest_meta.
     bind (collection_kind_of sv path meta) (\<lambda>k1.
     bind (collection_kind_of sv dest dest_meta) (\<lambda>k2. if k1 \<noteq> k2 then fail (Status 403) else ok ())))"

definition copymove_stream :: "nat \<Rightarrow> ('s, 'h, 'l) server \<Rightarrow> dav_method \<Rightarrow> depth \<Rightarrow> bool \<Rightarrow> dav_path \<Rightarrow> dav_path \<Rightarrow> bool \<Rightarrow>
    dav_meta option \<Rightarrow> ('s, 'l, unit) handler" where
  "copymove_stream n sv method depth overwrite path dest dest_is_file dmeta =
     bind (case dmeta of
             Some dm \<Rightarrow>
               if overwrite \<and> (depth \<noteq> DepthZero \<or> dest_is_file) then
                 bind (attempt (delete_items n sv DepthInfinity dm dest)) (\<lambda>r. case r of
                     Inl _ \<Rightarrow> ok False
                   | Inr _ \<Rightarrow> bind (unlock_path sv dest) (\<lambda>_. ok True))
               else ok True
           | None \<Rightarrow> ok True)
       (\<lambda>go. if \<not> go then ok ()
             else
               let st = (if dmeta \<noteq> None then 204 else 201)
               in if method = MCopy then
                    bind (attempt (do_copy n sv path dest dest depth)) (\<lambda>r. case r of
                        Inr _ \<Rightarrow> send_item path st
                      | Inl _ \<Rightarrow> ok ())
                  else
                    bind (attempt (do_move sv path dest)) (\<lambda>r. case r of
                        Inr _ \<Rightarrow> bind (unlock_path sv path) (\<lambda>_. send_item path st)
                      | Inl _ \<Rightarrow> ok ()))"

text \<open>From the resolved source and destination on.\<close>

definition copymove_at :: "nat \<Rightarrow> ('s, 'h, 'l) server \<Rightarrow> request \<Rightarrow> dav_method \<Rightarrow> depth \<Rightarrow> bool \<Rightarrow> dav_path \<Rightarrow> dav_meta \<Rightarrow>
    dav_path \<Rightarrow> ('s, 'l, response) handler" where
  "copymove_at n sv rq method depth overwrite path meta dest =
     bind (copymove_target sv dest) (\<lambda>(dest_is_file, dmeta).
       if \<not> overwrite \<and> dmeta \<noteq> None then fail (Status 412)
       else
         bind (same_or_nested sv path dest (dmeta \<noteq> None)) (\<lambda>same.
           if same then fail (Status 403)
           else
             bind (map_err Status (if_match_get_tokens sv rq (Some meta) path)) (\<lambda>tokens.
             bind (copymove_locks sv method path dest tokens) (\<lambda>_.
             bind (if method = MCopy \<and> depth = DepthZero \<and> md_is_dir meta \<and> dmeta \<noteq> None \<and> \<not> dest_is_file
                   then check_kinds sv path meta dest else ok ()) (\<lambda>_.
             bind (validate_copy_destination sv path dest) (\<lambda>_.
             bind (collect (copymove_stream n sv method depth overwrite path dest dest_is_file dmeta))
               (multi_error (sv_http sv) path)))))))"

definition handle_copymove :: "nat \<Rightarrow> ('s, 'h, 'l) server \<Rightarrow> request \<Rightarrow> dav_method \<Rightarrow> ('s, 'l, response) handler" where
  "handle_copymove n sv rq method =
     (let overwrite = (case typed_get rq ''overwrite'' overwrite_decode of None \<Rightarrow> True | Some b \<Rightarrow> b)
      in case copymove_depth rq method of
           Inl e \<Rightarrow> fail e
         | Inr depth \<Rightarrow> (case copymove_dest sv rq of
              Inl e \<Rightarrow> fail e
            | Inr dest \<Rightarrow>
                req_path sv rq (\<lambda>path0.
                bind (ensure_visible sv path0) (\<lambda>_.
                bind (ensure_visible sv dest) (\<lambda>_.
                bind (copymove_source sv method path0) (\<lambda>(meta, path).
                bind (has_parent sv dest) (\<lambda>hp.
                  if \<not> hp then fail (Status 409)
                  else copymove_at n sv rq method depth overwrite path meta dest)))))))"

end
