(* ===== verification/Handle_Put.thy ===== *)
theory Handle_Put
  imports Handle_Lock Handle_Copymove
begin

text \<open>
  \<^verbatim>\<open>PUT\<close> and partial \<^verbatim>\<open>PATCH\<close>, \<^verbatim>\<open>src/handle_put.rs\<close>.  The request body is the list of its frames:
  data in one piece (\<^verbatim>\<open>Bytes\<close>) or in several, trailers, or an error of the transport.
\<close>

section \<open>The request body\<close>

datatype body_error = BodyIo io_error | BodyDav dav_error | BodyOther

fun to_ioerror :: "body_error \<Rightarrow> io_error" where
  "to_ioerror (BodyIo e) = e"
| "to_ioerror (BodyDav e) = dav_error_to_ioerror e"
| "to_ioerror BodyOther = \<lparr>io_raw = None, io_kind = OtherKind\<rparr>"

datatype frame = FBytes bytes | FBuf "bytes list" | FTrailers | FError body_error

fun frame_data :: "frame \<Rightarrow> bytes" where
  "frame_data (FBytes b) = b"
| "frame_data (FBuf bs) = concat bs"
| "frame_data _ = []"

section \<open>The range\<close>

record put_range =
  pt_start :: nat
  pt_count :: nat
  pt_have_count :: bool
  pt_range :: bool
  pt_oo :: open_options

definition SABRE :: bytes where "SABRE = ''application/x-sabredav-partialupdate''"

text \<open>The first value of a header, as text.\<close>

definition header_text :: "http_env \<Rightarrow> request \<Rightarrow> bytes \<Rightarrow> bytes option" where
  "header_text env rq name = (case header_values rq name of v # _ \<Rightarrow> hv_to_str env v | [] \<Rightarrow> None)"

definition put_init :: "http_env \<Rightarrow> request \<Rightarrow> put_range" where
  "put_init env rq =
     (let oo = oo_for_write\<lparr>oo_create := True, oo_truncate := True,
                 oo_checksum := header_text env rq ''oc-checksum''\<rparr>;
          none = \<lparr>pt_start = 0, pt_count = 0, pt_have_count = False, pt_range = False, pt_oo = oo\<rparr>;
          sized = (\<lambda>n. none\<lparr>pt_count := n, pt_have_count := True, pt_oo := oo\<lparr>oo_size := Some n\<rparr>\<rparr>)
      in case typed_get rq ''content-length'' (content_length_decode env) of
           Some n \<Rightarrow> sized n
         | None \<Rightarrow> (case header_text env rq ''x-expected-entity-length'' of
              Some s \<Rightarrow> (case parse_uint u64_max s of Some n \<Rightarrow> sized n | None \<Rightarrow> none)
            | None \<Rightarrow> none))"

text \<open>The number of bytes from \<open>b\<close> to \<open>e\<close>, both included, when there are any and it fits.\<close>

definition range_len :: "nat \<Rightarrow> nat \<Rightarrow> nat option" where
  "range_len b e = Option.bind (checked_sub e b) (\<lambda>n. checked_add n 1)"

definition patch_range :: "http_env \<Rightarrow> request \<Rightarrow> dav_meta option \<Rightarrow> put_range \<Rightarrow> dav_error + put_range" where
  "patch_range env rq meta pt =
     (if rq_method rq \<noteq> ''PATCH'' then Inr pt
      else if typed_get rq ''content-type'' (text_decode env) \<noteq> Some SABRE then Inl (StatusClose 415)
      else if \<not> pt_have_count pt then Inl (StatusClose 411)
      else
        (let set = (\<lambda>b. Inr (pt\<lparr>pt_start := b, pt_range := True, pt_oo := (pt_oo pt)\<lparr>oo_truncate := False\<rparr>\<rparr>))
         in case typed_get rq ''x-update-range'' (xupdate_decode env) of
              None \<Rightarrow> Inl (StatusClose 400)
            | Some (FromTo b e) \<Rightarrow> if range_len b e \<noteq> Some (pt_count pt) then Inl (StatusClose 416) else set b
            | Some (AllFrom b) \<Rightarrow> set b
            | Some (LastBytes n) \<Rightarrow> (case meta of
                 Some m \<Rightarrow> if md_len m < n then Inl (StatusClose 416) else set (md_len m - n)
               | None \<Rightarrow> Inl (StatusClose 416))
            | Some Append \<Rightarrow> Inr (pt\<lparr>pt_range := True,
                 pt_oo := (pt_oo pt)\<lparr>oo_append := True, oo_truncate := False\<rparr>\<rparr>)))"

definition content_range :: "http_env \<Rightarrow> request \<Rightarrow> put_range \<Rightarrow> dav_error + put_range" where
  "content_range env rq pt =
     (case typed_try_get rq ''content-range'' (content_range_decode env) of
        Inl _ \<Rightarrow> Inl (StatusClose 400)
      | Inr None \<Rightarrow> Inr pt
      | Inr (Some None) \<Rightarrow> Inr pt
      | Inr (Some (Some (b, e))) \<Rightarrow>
          (case range_len b e of
             None \<Rightarrow> Inl (StatusClose 416)
           | Some n \<Rightarrow>
               if pt_have_count pt \<and> n \<noteq> pt_count pt then Inl (StatusClose 416)
               else Inr (pt\<lparr>pt_count := n, pt_have_count := True, pt_start := b, pt_range := True,
                           pt_oo := (pt_oo pt)\<lparr>oo_truncate := False\<rparr>\<rparr>)))"

text \<open>The end of the range must fit in 64 bits, and its start lie within the file or at its end.\<close>

definition check_range :: "dav_meta option \<Rightarrow> put_range \<Rightarrow> dav_error + put_range" where
  "check_range meta pt =
     (if pt_range pt \<and> \<not> oo_append (pt_oo pt) \<and> checked_add (pt_start pt) (pt_count pt) = None
      then Inl (StatusClose 416)
      else if pt_range pt \<and> \<not> oo_append (pt_oo pt) \<and>
              (case meta of Some m \<Rightarrow> md_len m < pt_start pt | None \<Rightarrow> False)
      then Inl (StatusClose 416)
      else Inr pt)"

definition put_ranges :: "http_env \<Rightarrow> request \<Rightarrow> dav_meta option \<Rightarrow> dav_error + put_range" where
  "put_ranges env rq meta =
     (case patch_range env rq meta (put_init env rq) of
        Inl e \<Rightarrow> Inl e
      | Inr p1 \<Rightarrow> (case content_range env rq p1 of Inl e \<Rightarrow> Inl e | Inr p2 \<Rightarrow> check_range meta p2))"

section \<open>Calendar and address book objects\<close>

definition typed_parent_collection :: "('s, 'h, 'l) server \<Rightarrow> dav_path \<Rightarrow> ('s, 'l, collection_kind) handler" where
  "typed_parent_collection sv path =
     bind (attempt (on_fs (fs_metadata (sv_fs sv) (path_parent path)))) (\<lambda>r. case r of
         Inl _ \<Rightarrow> ok CkNone
       | Inr meta \<Rightarrow> collection_kind_of sv (path_parent path) meta)"

definition resulting_resource_size :: "bool \<Rightarrow> bool \<Rightarrow> nat \<Rightarrow> nat \<Rightarrow> nat \<Rightarrow> nat" where
  "resulting_resource_size do_range apnd existing start written =
     (if do_range then
        (if apnd then saturating_add existing written else max existing (saturating_add start written))
      else written)"

definition read_resource_bytes :: "('s, 'h, 'l) server \<Rightarrow> dav_path \<Rightarrow> nat \<Rightarrow> ('s, fs_error, bytes) act" where
  "read_resource_bytes sv path mx =
     bind (fs_open (sv_fs sv) path oo_for_read) (\<lambda>file.
     bind (f_metadata (sv_fs sv) file) (\<lambda>(meta, file').
     bind (read_file_to_end (sv_fs sv) file' (min (md_len meta) mx)) (\<lambda>(dat, _). ok dat)))"

definition restore_resource_bytes :: "('s, 'h, 'l) server \<Rightarrow> dav_path \<Rightarrow> bytes \<Rightarrow> ('s, fs_error, unit) act" where
  "restore_resource_bytes sv path bs =
     bind (fs_open (sv_fs sv) path (oo_for_write\<lparr>oo_create := True, oo_truncate := True\<rparr>)) (\<lambda>file.
     bind (f_write_bytes (sv_fs sv) file bs) (\<lambda>file'.
     bind (f_flush (sv_fs sv) file') (\<lambda>_. ok ())))"

definition restore_or_remove_typed :: "('s, 'h, 'l) server \<Rightarrow> dav_path \<Rightarrow> bytes option \<Rightarrow> ('s, 'l, unit) handler" where
  "restore_or_remove_typed sv path restore =
     (case restore of
        Some prev \<Rightarrow> bind (attempt (on_fs (restore_resource_bytes sv path prev))) (\<lambda>_. ok ())
      | None \<Rightarrow> bind (attempt (on_fs (fs_remove_file (sv_fs sv) path))) (\<lambda>_. ok ()))"

text \<open>The body of a full \<^verbatim>\<open>PUT\<close> into a typed collection is read and validated before anything is
  written.\<close>

fun staged_loop :: "put_range \<Rightarrow> frame list \<Rightarrow> bytes \<Rightarrow> dav_error + bytes" where
  "staged_loop pt [] bs = Inr bs"
| "staged_loop pt (FError e # fs) bs = Inl (IoErr (to_ioerror e))"
| "staged_loop pt (FTrailers # fs) bs = staged_loop pt fs bs"
| "staged_loop pt (fr # fs) bs =
     (let seen = length bs + length (frame_data fr)
      in if MAX_RESOURCE_SIZE < seen then Inl (StatusClose 403)
         else if pt_have_count pt \<and> pt_count pt < seen then Inl (StatusClose 400)
         else staged_loop pt fs (bs @ frame_data fr))"

definition stage_body :: "http_env \<Rightarrow> collection_kind \<Rightarrow> put_range \<Rightarrow> frame list \<Rightarrow> dav_error + bytes option" where
  "stage_body env kind pt body =
     (if pt_range pt \<or> kind = CkNone then Inr None
      else (case staged_loop pt body [] of
              Inl e \<Rightarrow> Inl e
            | Inr bs \<Rightarrow>
                if pt_have_count pt \<and> length bs \<noteq> pt_count pt then Inl (StatusClose 400)
                else if \<not> object_valid env kind bs then Inl (StatusClose 403)
                else Inr (Some bs)))"

section \<open>Writing the body\<close>

text \<open>One round per frame; the result is the handle and the number of bytes seen.\<close>

fun write_loop :: "('s, 'h, 'l) server \<Rightarrow> collection_kind \<Rightarrow> nat \<Rightarrow> put_range \<Rightarrow> frame list \<Rightarrow> 'h \<Rightarrow> nat \<Rightarrow>
    ('s, 'l, 'h \<times> nat) handler" where
  "write_loop sv kind elen pt [] h seen = ok (h, seen)"
| "write_loop sv kind elen pt (FError e # fs) h seen = fail (IoErr (to_ioerror e))"
| "write_loop sv kind elen pt (FTrailers # fs) h seen = write_loop sv kind elen pt fs h seen"
| "write_loop sv kind elen pt (fr # fs) h seen =
     (let seen1 = seen + length (frame_data fr)
      in if kind \<noteq> CkNone \<and>
            MAX_RESOURCE_SIZE < resulting_resource_size (pt_range pt) (oo_append (pt_oo pt)) elen (pt_start pt) seen1
         then fail (StatusClose 403)
         else if pt_have_count pt \<and> pt_count pt < seen1 then ok (h, seen1)
         else bind (fs_try (case fr of
                      FBuf bs \<Rightarrow> f_write_buf (sv_fs sv) h bs
                    | _ \<Rightarrow> f_write_bytes (sv_fs sv) h (frame_data fr)))
                (\<lambda>h'. write_loop sv kind elen pt fs h' seen1))"

definition write_body :: "('s, 'h, 'l) server \<Rightarrow> collection_kind \<Rightarrow> nat \<Rightarrow> put_range \<Rightarrow> frame list \<Rightarrow> bytes option \<Rightarrow> 'h \<Rightarrow>
    ('s, 'l, unit) handler" where
  "write_body sv kind elen pt body staged h =
     (case staged of
        Some bs \<Rightarrow>
          bind (fs_try (f_write_bytes (sv_fs sv) h bs)) (\<lambda>h1.
          bind (fs_try (f_flush (sv_fs sv) h1)) (\<lambda>_. ok ()))
      | None \<Rightarrow>
          bind (write_loop sv kind elen pt body h 0) (\<lambda>(h1, seen).
          bind (fs_try (f_flush (sv_fs sv) h1)) (\<lambda>_.
            if pt_have_count pt \<and> pt_count pt < seen then fail (StatusClose 400)
            else if pt_have_count pt \<and> seen < pt_count pt then fail (StatusClose 400)
            else ok ())))"

section \<open>The handler\<close>

text \<open>Opens the file and writes; on an error in a typed collection the old object is put back.\<close>

definition put_write :: "('s, 'h, 'l) server \<Rightarrow> request \<Rightarrow> collection_kind \<Rightarrow> nat \<Rightarrow> put_range \<Rightarrow> frame list \<Rightarrow> bytes option \<Rightarrow>
    bytes option \<Rightarrow> dav_path \<Rightarrow> ('s, 'l, unit) handler" where
  "put_write sv rq kind elen pt body staged restore path =
     (let oo = star_options (sv_http sv) rq (pt_oo pt)
      in bind (attempt (on_fs (fs_open (sv_fs sv) path oo))) (\<lambda>r. case r of
           Inl e \<Rightarrow>
             fail (if e = NotFound \<or> e = Exists
                   then StatusClose (if \<not> oo_create oo \<or> oo_create_new oo then 412 else 409)
                   else FsErr e)
         | Inr file \<Rightarrow>
             bind (if pt_range pt then
                     bind (attempt (on_fs (f_seek (sv_fs sv) file (SeekStart (pt_start pt))))) (\<lambda>r. case r of
                         Inl _ \<Rightarrow> fail (StatusClose 416)
                       | Inr (_, file') \<Rightarrow> ok file')
                   else ok file) (\<lambda>file1.
             bind (attempt (write_body sv kind elen pt body staged file1)) (\<lambda>written. case written of
                 Inl e \<Rightarrow> bind (if kind \<noteq> CkNone then restore_or_remove_typed sv path restore else ok ()) (\<lambda>_. fail e)
               | Inr _ \<Rightarrow>
                   if pt_range pt \<and> kind \<noteq> CkNone then
                     bind (attempt (on_fs (read_resource_bytes sv path MAX_RESOURCE_SIZE))) (\<lambda>r.
                       if (case r of Inr b \<Rightarrow> object_valid (sv_http sv) kind b | Inl _ \<Rightarrow> False) then ok ()
                       else bind (restore_or_remove_typed sv path restore) (\<lambda>_. fail (StatusClose 403)))
                   else ok ()))))"

text \<open>The headers of a success: the tag and the time of the file as it is now.  The tag goes through
  \<^verbatim>\<open>HeaderValue::from_str(..).unwrap()\<close>.\<close>

definition put_validators :: "('s, 'h, 'l) server \<Rightarrow> dav_path \<Rightarrow> response \<Rightarrow> ('s, 'l, response) handler" where
  "put_validators sv path res =
     bind (attempt (on_fs (fs_metadata (sv_fs sv) path))) (\<lambda>r. case r of
         Inl _ \<Rightarrow> ok res
       | Inr meta \<Rightarrow>
           bind (case etag_from_meta meta of
                   None \<Rightarrow> ok res
                 | Some e \<Rightarrow> (case etag_encode (sv_http sv) e of
                      None \<Rightarrow> diverge
                    | Some v \<Rightarrow> ok (set_header ''etag'' v res))) (\<lambda>res1.
             ok (case md_modified meta of
                   Inl _ \<Rightarrow> res1
                 | Inr t \<Rightarrow> set_header ''last-modified'' (date_encode (sv_http sv) t) res1)))"

definition put_response :: "bool \<Rightarrow> response" where
  "put_response existed =
     (let res = set_header ''accept-ranges'' ''bytes'' response_new
      in if existed then res\<lparr>rs_status := 204\<rparr>
         else (set_header ''content-length'' ''0'' res)\<lparr>rs_status := 201\<rparr>)"

text \<open>From the checked range on: preconditions, locks, limits, validation, writing, answer.\<close>

definition put_at :: "('s, 'h, 'l) server \<Rightarrow> request \<Rightarrow> frame list \<Rightarrow> systime option \<times> systime option \<Rightarrow> dav_meta option \<Rightarrow>
    put_range \<Rightarrow> dav_path \<Rightarrow> ('s, 'l, response) handler" where
  "put_at sv rq body stamps meta pt path =
     bind (map_err StatusClose (if_match_get_tokens sv rq meta path)) (\<lambda>tokens.
     bind (check_locks sv path False tokens (StatusClose 423)) (\<lambda>_.
     bind (typed_parent_collection sv path) (\<lambda>kind.
       let elen = (case meta of Some m \<Rightarrow> md_len m | None \<Rightarrow> 0)
       in if kind \<noteq> CkNone \<and> pt_have_count pt \<and>
             MAX_RESOURCE_SIZE < resulting_resource_size (pt_range pt) (oo_append (pt_oo pt)) elen (pt_start pt) (pt_count pt)
          then fail (StatusClose 403)
          else (case stage_body (sv_http sv) kind pt body of
                  Inl e \<Rightarrow> fail e
                | Inr staged \<Rightarrow>
                   bind (if kind \<noteq> CkNone \<and> meta \<noteq> None
                         then bind (fs_try (read_resource_bytes sv path elen)) (\<lambda>b. ok (Some b)) else ok None) (\<lambda>restore.
                   bind (put_write sv rq kind elen pt body staged restore path) (\<lambda>_.
                   bind (apply_oc_timestamps sv path (fst stamps) (snd stamps) (put_response (meta \<noteq> None))) (\<lambda>res.
                   put_validators sv path res)))))))"

definition handle_put :: "('s, 'h, 'l) server \<Rightarrow> request \<Rightarrow> frame list \<Rightarrow> ('s, 'l, response) handler" where
  "handle_put sv rq body =
     (case oc_timestamps (sv_http sv) rq True of
        Inl e \<Rightarrow> fail e
      | Inr stamps \<Rightarrow>
         req_path sv rq (\<lambda>path.
         bind (ensure_visible sv path) (\<lambda>_.
         bind (attempt (on_fs (fs_metadata (sv_fs sv) path))) (\<lambda>r.
           let meta = (case r of Inr m \<Rightarrow> Some m | Inl _ \<Rightarrow> None)
           in if (case meta of Some m \<Rightarrow> md_is_dir m | None \<Rightarrow> False) then fail (StatusClose 405)
              else (case put_ranges (sv_http sv) rq meta of
                      Inl e \<Rightarrow> fail e
                    | Inr pt \<Rightarrow> put_at sv rq body stamps meta pt path)))))"

end
