(* ===== verification/Handle_Safe.thy ===== *)
theory Handle_Safe
  imports Handle_Put Mem_Ls_Contract
begin

text \<open>
  Locks bar the handlers: a request that changes what a lock covers, without holding the lock, is
  refused and leaves the filesystem as it was.  The locale states what this needs of the backends:
  the contract of a lock system that enforces its locks, and a filesystem whose reading operations
  do not write.
\<close>

section \<open>Actions that change nothing\<close>

named_theorems quiet_rules "actions that leave the filesystem and the locks in force alone"

definition fs_pure :: "('s, 'e, 'a) act \<Rightarrow> bool" where
  "fs_pure a \<longleftrightarrow> (\<forall>s. \<exists>r. a s = Some (r, s))"

text \<open>They return, with a value or an error.\<close>

definition quiet :: "('l \<Rightarrow> bool) \<Rightarrow> ('l \<Rightarrow> lock_table) \<Rightarrow> (('s, 'l) world, 'e, 'a) act \<Rightarrow> bool" where
  "quiet okl view m \<longleftrightarrow> (\<forall>w. okl (w_ls w) \<longrightarrow> (\<exists>r w'. m w = Some (r, w') \<and>
     w_fs w' = w_fs w \<and> okl (w_ls w') \<and> view (w_ls w') = view (w_ls w)))"

text \<open>Actions that return an error and change nothing, when \<open>V\<close> are the locks in force.\<close>

definition bars :: "('l \<Rightarrow> bool) \<Rightarrow> ('l \<Rightarrow> lock_table) \<Rightarrow> lock_table \<Rightarrow> (('s, 'l) world, 'e, 'a) act \<Rightarrow> bool" where
  "bars okl view V m \<longleftrightarrow> (\<forall>w. okl (w_ls w) \<longrightarrow> view (w_ls w) = V \<longrightarrow> (\<exists>e w'. m w = Some (Inl e, w') \<and>
     w_fs w' = w_fs w \<and> okl (w_ls w') \<and> view (w_ls w') = V))"

lemma on_fs_SomeD: "on_fs a w = Some (r, w') \<Longrightarrow> \<exists>s. a (w_fs w) = Some (r, s) \<and> w' = w\<lparr>w_fs := s\<rparr>"
  by (auto simp: on_fs_def split: option.splits)

lemma on_ls_SomeD: "on_ls a w = Some (r, w') \<Longrightarrow> \<exists>l. a (w_ls w) = Some (r, l) \<and> w' = w\<lparr>w_ls := l\<rparr>"
  by (auto simp: on_ls_def split: option.splits)

lemma attempt_SomeD: "attempt m w = Some (r, w') \<Longrightarrow> \<exists>q. m w = Some (q, w')"
  by (auto simp: attempt_def split: option.splits)

lemma bind_cases:
  assumes "bind m f w = Some (r, w')"
  obtains (err) e where "m w = Some (Inl e, w')" "r = Inl e"
    | (val) x w1 where "m w = Some (Inr x, w1)" "f x w1 = Some (r, w')"
  using assms by (auto simp: bind_def split: option.splits sum.splits)

lemma bind_InrE:
  assumes "bind m f w = Some (Inr y, w')"
  obtains x w1 where "m w = Some (Inr x, w1)" "f x w1 = Some (Inr y, w')"
  using assms by (cases rule: bind_cases) auto

lemma quietE:
  assumes "quiet okl view m" "okl (w_ls w)"
  obtains r w' where "m w = Some (r, w')" "w_fs w' = w_fs w" "okl (w_ls w')" "view (w_ls w') = view (w_ls w)"
  using assms unfolding quiet_def by blast

lemma quietD:
  assumes "quiet okl view m" "okl (w_ls w)" "m w = Some (r, w')"
  shows "w_fs w' = w_fs w" "okl (w_ls w')" "view (w_ls w') = view (w_ls w)"
  using quietE [OF assms(1,2)] assms(3) by (metis option.inject prod.inject)+

lemma barsE:
  assumes "bars okl view V m" "okl (w_ls w)" "view (w_ls w) = V"
  obtains e w' where "m w = Some (Inl e, w')" "w_fs w' = w_fs w" "okl (w_ls w')" "view (w_ls w') = V"
  using assms unfolding bars_def by blast

lemma quietI:
  assumes "\<And>w. okl (w_ls w) \<Longrightarrow> \<exists>r w'. m w = Some (r, w') \<and> w_fs w' = w_fs w \<and> okl (w_ls w') \<and> view (w_ls w') = view (w_ls w)"
  shows "quiet okl view m"
  using assms by (simp add: quiet_def)

lemma barsI:
  assumes "\<And>w. okl (w_ls w) \<Longrightarrow> view (w_ls w) = V \<Longrightarrow>
    \<exists>e w'. m w = Some (Inl e, w') \<and> w_fs w' = w_fs w \<and> okl (w_ls w') \<and> view (w_ls w') = V"
  shows "bars okl view V m"
  using assms by (simp add: bars_def)

lemma quiet_ok [quiet_rules]: "quiet okl view (ok x)"
  by (simp add: quiet_def)

lemma quiet_fail [quiet_rules]: "quiet okl view (fail e)"
  by (simp add: quiet_def)

lemma quiet_bind_strong:
  fixes m :: "(('s, 'l) world, 'e, 'a) act"
  assumes "quiet okl view m" and "\<And>x w w'. m w = Some (Inr x, w') \<Longrightarrow> quiet okl view (f x)"
  shows "quiet okl view (bind m f)"
proof (rule quietI)
  fix w :: "('s, 'l) world"
  assume i: "okl (w_ls w)"
  obtain r w1 where m: "m w = Some (r, w1)" and q: "w_fs w1 = w_fs w" "okl (w_ls w1)" "view (w_ls w1) = view (w_ls w)"
    by (rule quietE [OF assms(1) i])
  show "\<exists>r w'. bind m f w = Some (r, w') \<and> w_fs w' = w_fs w \<and> okl (w_ls w') \<and> view (w_ls w') = view (w_ls w)"
  proof (cases r)
    case (Inl e)
    with m q show ?thesis by simp
  next
    case (Inr x)
    with m have "quiet okl view (f x)" by (intro assms(2)) simp
    from quietE [OF this q(2)] show ?thesis using m Inr q by simp metis
  qed
qed

lemma quiet_bind [quiet_rules]: "quiet okl view m \<Longrightarrow> (\<And>x. quiet okl view (f x)) \<Longrightarrow> quiet okl view (bind m f)"
  by (rule quiet_bind_strong)

lemma quiet_attempt [quiet_rules]:
  fixes m :: "(('s, 'l) world, 'e, 'a) act"
  assumes "quiet okl view m"
  shows "quiet okl view (attempt m)"
proof (rule quietI)
  fix w :: "('s, 'l) world"
  assume i: "okl (w_ls w)"
  from quietE [OF assms i] show "\<exists>r w'. attempt m w = Some (r, w') \<and> w_fs w' = w_fs w \<and> okl (w_ls w') \<and>
    view (w_ls w') = view (w_ls w)" by (metis attempt_Some)
qed

lemma map_err_Some: "m w = Some (r, w') \<Longrightarrow> map_err g m w = Some (map_sum g (\<lambda>x. x) r, w')"
  by (cases r) simp_all

lemma quiet_map_err [quiet_rules]:
  fixes m :: "(('s, 'l) world, 'e, 'a) act"
  assumes "quiet okl view m"
  shows "quiet okl view (map_err g m)"
proof (rule quietI)
  fix w :: "('s, 'l) world"
  assume i: "okl (w_ls w)"
  from quietE [OF assms i] show "\<exists>r w'. map_err g m w = Some (r, w') \<and> w_fs w' = w_fs w \<and> okl (w_ls w') \<and>
    view (w_ls w') = view (w_ls w)" by (metis map_err_Some)
qed

lemma quiet_on_fs [quiet_rules]:
  fixes okl :: "'l \<Rightarrow> bool" and a :: "('s, 'e, 'a) act"
  assumes "fs_pure a"
  shows "quiet okl view (on_fs a)"
proof (rule quietI)
  fix w :: "('s, 'l) world"
  assume "okl (w_ls w)"
  moreover obtain r where "a (w_fs w) = Some (r, w_fs w)" using assms unfolding fs_pure_def by blast
  ultimately show "\<exists>r w'. on_fs a w = Some (r, w') \<and> w_fs w' = w_fs w \<and> okl (w_ls w') \<and> view (w_ls w') = view (w_ls w)"
    by (simp add: on_fs_def)
qed

lemma quiet_fs_try [quiet_rules]: "fs_pure a \<Longrightarrow> quiet okl view (fs_try a)"
  unfolding fs_try_def by (intro quiet_rules)

lemma bars_fail: "bars okl view V (fail e)"
  by (simp add: bars_def)

lemma bars_bind:
  fixes m :: "(('s, 'l) world, 'e, 'a) act"
  assumes "quiet okl view m" and "\<And>x w w'. m w = Some (Inr x, w') \<Longrightarrow> bars okl view V (f x)"
  shows "bars okl view V (bind m f)"
proof (rule barsI)
  fix w :: "('s, 'l) world"
  assume i: "okl (w_ls w)" "view (w_ls w) = V"
  obtain r w1 where m: "m w = Some (r, w1)" and q: "w_fs w1 = w_fs w" "okl (w_ls w1)" "view (w_ls w1) = view (w_ls w)"
    by (rule quietE [OF assms(1) i(1)])
  show "\<exists>e w'. bind m f w = Some (Inl e, w') \<and> w_fs w' = w_fs w \<and> okl (w_ls w') \<and> view (w_ls w') = V"
  proof (cases r)
    case (Inl e)
    with m q i show ?thesis by simp
  next
    case (Inr x)
    with m have "bars okl view V (f x)" by (intro assms(2)) simp
    from barsE [OF this q(2)] show ?thesis using m Inr q i(2) by simp metis
  qed
qed

lemma bars_bind_first:
  fixes m :: "(('s, 'l) world, 'e, 'a) act"
  assumes "bars okl view V m"
  shows "bars okl view V (bind m f)"
proof (rule barsI)
  fix w :: "('s, 'l) world"
  assume i: "okl (w_ls w)" "view (w_ls w) = V"
  from barsE [OF assms i] show "\<exists>e w'. bind m f w = Some (Inl e, w') \<and> w_fs w' = w_fs w \<and> okl (w_ls w') \<and> view (w_ls w') = V"
    by (metis bind_fail)
qed

lemma bars_map_err:
  fixes m :: "(('s, 'l) world, 'e, 'a) act"
  assumes "bars okl view V m"
  shows "bars okl view V (map_err g m)"
proof (rule barsI)
  fix w :: "('s, 'l) world"
  assume i: "okl (w_ls w)" "view (w_ls w) = V"
  from barsE [OF assms i] show "\<exists>e w'. map_err g m w = Some (Inl e, w') \<and> w_fs w' = w_fs w \<and> okl (w_ls w') \<and> view (w_ls w') = V"
    by (metis map_err_Inl)
qed

lemma bars_if: "(b \<Longrightarrow> bars okl view V m1) \<Longrightarrow> (\<not> b \<Longrightarrow> bars okl view V m2) \<Longrightarrow> bars okl view V (if b then m1 else m2)"
  by simp

lemma bars_req_path:
  "from_uri_and_prefix (pct_decode (sv_http sv)) (rq_path rq) (sv_prefix sv) = Inr p \<Longrightarrow> bars okl view V (k p) \<Longrightarrow>
   bars okl view V (req_path sv rq k)"
  by (simp add: req_path_def)

section \<open>Paths and tokens\<close>

lemma lock_segs_add_slash_if [simp]: "lock_segs (add_slash_if b p) = lock_segs p"
proof -
  have "path_segs (drop n (f @ [slash])) = path_segs (drop n f)" for n :: nat and f
    by (cases "n \<le> length f") simp_all
  then show ?thesis by (simp add: lock_segs_def add_slash_if_def as_bytes_def prefix_len_def)
qed

lemma covering_segs: "lock_segs p = lock_segs q \<Longrightarrow> covering v p = covering v q"
  by (simp add: covering_def)

lemma may_write_segs: "lock_segs p = lock_segs q \<Longrightarrow> may_write v p mine deep = may_write v q mine deep"
  using covering_segs [of p q v] by (simp add: may_write_def)

lemma free_for_segs: "lock_segs p = lock_segs q \<Longrightarrow> free_for v p shared deep = free_for v q shared deep"
  using covering_segs [of p q v] by (simp add: free_for_def)

lemma fixpath_segs: "fixpath sv res path meta = (r, q) \<Longrightarrow> lock_segs q = lock_segs path"
  using lock_segs_add_slash_if [of True path]
  by (auto simp: fixpath_def Let_def add_slash_def add_slash_if_def split: if_splits)

lemma lock_target_segs: "lock_target sv path w = Some (Inr (meta, res, q), w') \<Longrightarrow> lock_segs q = lock_segs path"
proof -
  assume "lock_target sv path w = Some (Inr (meta, res, q), w')"
  then show ?thesis
    unfolding lock_target_def
  proof (cases rule: bind_cases)
    case (val r w1)
    then show ?thesis by (cases r) (auto dest: fixpath_segs split: prod.splits)
  qed simp
qed

lemma lock_segs_parent: "lock_segs (path_parent p) = butlast (lock_segs p)"
proof (cases "lock_segs p = []")
  case True
  then show ?thesis by (simp add: path_parent_def lock_segs_def as_bytes_def Let_def)
next
  case False
  let ?bs = "butlast (lock_segs p)"
  have good: "\<forall>s \<in> set ?bs. good_seg s" using path_segs_good by (auto simp: lock_segs_def dest: in_set_butlastD)
  have len: "prefix_len p \<le> length (fullpath p)"
    using False by (cases "prefix_len p \<le> length (fullpath p)") (simp_all add: lock_segs_def as_bytes_def)
  have cat: "path_segs (concat (map (\<lambda>s. s @ [slash]) ss)) = ss" if "\<forall>s \<in> set ss. good_seg s" for ss
    using that by (induction ss) (simp_all add: path_segs_append_slash path_segs_seg)
  have "as_bytes (path_parent p) = slash # concat (map (\<lambda>s. s @ [slash]) ?bs)"
    using False len by (simp add: path_parent_def lock_segs_def as_bytes_def get_prefix_def Let_def prefix_len_def)
  then have "lock_segs (path_parent p) = path_segs (concat (map (\<lambda>s. s @ [slash]) ?bs))"
    by (subst lock_segs_def) simp
  with cat [OF good] show ?thesis by simp
qed

lemma path_parent_root: "lock_segs p = [] \<Longrightarrow> path_parent p = p"
  by (simp add: path_parent_def lock_segs_def as_bytes_def Let_def)

lemma path_segs_length: "length (path_segs p) \<le> length p"
proof -
  have *: "length (filter (\<lambda>s. s \<noteq> []) (split_on slash p)) \<le> length p"
  proof (induction p)
    case (Cons x xs)
    then show ?case by (cases "split_on slash xs") (auto split: if_splits)
  qed simp
  then show ?thesis by (simp add: path_segs_def)
qed

lemma lock_segs_length: "length (lock_segs p) \<le> length (fullpath p)"
  using path_segs_length [of "as_bytes p"] by (simp add: lock_segs_def as_bytes_def)

text \<open>The tokens a request submits: all state tokens of its \<^verbatim>\<open>If\<close> header.\<close>

definition submitted :: "http_env \<Rightarrow> request \<Rightarrow> bytes list" where
  "submitted env rq =
     (case typed_get rq ''if'' (if_decode env) of None \<Rightarrow> [] | Some ls \<Rightarrow> concat (map state_tokens ls))"

lemma if_lists_loop_tokens:
  "if_lists_loop sv rq path ls any_ok tokens w = Some (Inr (b, v), w') \<Longrightarrow> v = tokens @ concat (map state_tokens ls)"
  by (induction sv rq path ls any_ok tokens arbitrary: w rule: if_lists_loop.induct)
     (fastforce simp: bind_eq_Inr Let_def split: if_splits prod.splits)+

lemma dav_if_match_tokens: "dav_if_match sv rq path w = Some (Inr (b, v), w') \<Longrightarrow> v = submitted (sv_http sv) rq"
  by (auto simp: dav_if_match_def submitted_def dest: if_lists_loop_tokens split: option.splits)

lemma if_match_get_tokens_tokens:
  "if_match_get_tokens sv rq meta path w = Some (Inr v, w') \<Longrightarrow> v = submitted (sv_http sv) rq"
  by (auto simp: if_match_get_tokens_def bind_eq_Inr dest!: dav_if_match_tokens split: option.splits if_splits)

lemma map_err_Inr_iff: "map_err g m w = Some (Inr x, w') \<longleftrightarrow> m w = Some (Inr x, w')"
  by (auto simp: map_err_def split: option.splits sum.splits)

section \<open>Handlers on a guarded server\<close>

locale guarded_server = lock_contract ops view inv
  for ops :: "'l ls_ops" and view :: "'l \<Rightarrow> lock_table" and inv :: "'l \<Rightarrow> bool" +
  fixes fs :: "('s, 'h) fs_ops"
  assumes metadata_pure: "fs_pure (fs_metadata fs p)"
    and symlink_metadata_pure: "fs_pure (fs_symlink_metadata fs p)"
    and same_resource_pure: "fs_pure (fs_same_resource fs p q)"
begin

lemma quiet_check: "quiet inv view (on_ls (ls_check ops path pr ign deep toks))"
proof (rule quietI)
  fix w :: "('x, 'l) world"
  assume i: "inv (w_ls w)"
  from check_law [OF i, of path pr ign deep toks]
  show "\<exists>r w'. on_ls (ls_check ops path pr ign deep toks) w = Some (r, w') \<and>
    w_fs w' = w_fs w \<and> inv (w_ls w') \<and> view (w_ls w') = view (w_ls w)" by (auto simp: on_ls_def)
qed

lemma quiet_discover: "quiet inv view (on_ls (ls_discover ops path))"
proof (rule quietI)
  fix w :: "('x, 'l) world"
  assume i: "inv (w_ls w)"
  from discover_law [OF i, of path]
  show "\<exists>r w'. on_ls (ls_discover ops path) w = Some (r, w') \<and>
    w_fs w' = w_fs w \<and> inv (w_ls w') \<and> view (w_ls w') = view (w_ls w)" by (auto simp: on_ls_def)
qed

lemmas quiet_ls = quiet_check quiet_discover
text \<open>The servers that run on these two backends.\<close>

definition guarded :: "('s, 'h, 'l) server \<Rightarrow> bool" where
  "guarded sv \<longleftrightarrow> sv_fs sv = fs \<and> sv_ls sv = Some ops"

lemma guarded_ls: "guarded sv \<Longrightarrow> sv_ls sv = Some ops"
  by (simp add: guarded_def)

lemma pure_fs:
  "guarded sv \<Longrightarrow> fs_pure (fs_metadata (sv_fs sv) p)"
  "guarded sv \<Longrightarrow> fs_pure (fs_symlink_metadata (sv_fs sv) p)"
  "guarded sv \<Longrightarrow> fs_pure (fs_same_resource (sv_fs sv) p q)"
  using metadata_pure symlink_metadata_pure same_resource_pure by (simp_all add: guarded_def)

lemma quiet_symlink_walk: "guarded sv \<Longrightarrow> length (lock_segs p) < n \<Longrightarrow> quiet inv view (symlink_walk n sv p)"
proof (induction n arbitrary: p)
  case 0
  then show ?case by simp
next
  case (Suc n)
  have "quiet inv view (symlink_walk n sv (path_parent p))" if "\<not> path_eq (path_parent p) p"
  proof (rule Suc.IH [OF Suc.prems(1)])
    have "lock_segs p \<noteq> []" using that path_parent_root [of p] by (auto simp: path_eq_def)
    with Suc.prems(2) show "length (lock_segs (path_parent p)) < n"
      by (cases "lock_segs p") (simp_all add: lock_segs_parent)
  qed
  with Suc.prems(1) show ?case by (auto intro!: quiet_rules pure_fs split: sum.splits)
qed

lemma quiet_ensure_visible: "guarded sv \<Longrightarrow> quiet inv view (ensure_visible sv p)"
  by (auto simp: ensure_visible_def intro!: quiet_rules quiet_symlink_walk
      simp: less_Suc_eq_le lock_segs_length simp del: symlink_walk.simps)

lemma quiet_cond_holds: "guarded sv \<Longrightarrow> quiet inv view (cond_holds sv p valid item)"
  by (cases item) (auto simp: cond_holds_def discover_locks_def guarded_ls intro!: quiet_rules quiet_ls pure_fs
      split: sum.splits option.splits)

lemma quiet_conds_loop: "guarded sv \<Longrightarrow> quiet inv view (conds_loop sv p valid cs b)"
  by (induction cs arbitrary: b) (auto intro!: quiet_rules quiet_cond_holds)

lemma quiet_if_lists_loop:
  "guarded sv \<Longrightarrow> quiet inv view (if_lists_loop sv rq path ls any_ok tokens)"
  by (induction ls arbitrary: any_ok tokens)
     (auto simp: Let_def intro!: quiet_rules quiet_conds_loop split: prod.splits)

lemma quiet_dav_if_match: "guarded sv \<Longrightarrow> quiet inv view (dav_if_match sv rq path)"
  by (auto simp: dav_if_match_def intro!: quiet_rules quiet_if_lists_loop split: option.splits)

lemma quiet_if_match: "guarded sv \<Longrightarrow> quiet inv view (if_match sv rq meta path)"
  by (auto simp: if_match_def intro!: quiet_rules quiet_dav_if_match split: prod.splits)

lemma quiet_if_match_get_tokens:
  "guarded sv \<Longrightarrow> quiet inv view (if_match_get_tokens sv rq meta path)"
  by (auto simp: if_match_get_tokens_def intro!: quiet_rules quiet_dav_if_match split: option.splits prod.splits)

lemmas quiet_handlers = quiet_ensure_visible quiet_if_match_get_tokens quiet_if_match quiet_dav_if_match pure_fs

lemma quiet_check_locks: "guarded sv \<Longrightarrow> quiet inv view (check_locks sv path deep toks e)"
  by (auto simp: check_locks_def guarded_ls intro!: quiet_rules quiet_ls)

lemma bars_check_locks:
  assumes "guarded sv" and "\<not> may_write V path (holds (sv_principal sv) False toks) deep"
  shows "bars inv view V (check_locks sv path deep toks e)"
proof -
  have "(bars inv view V :: (('s, 'l) world, dav_lock, unit) act \<Rightarrow> bool)
      (on_ls (ls_check ops path (sv_principal sv) False deep toks))"
  proof (rule barsI)
    fix w :: "('s, 'l) world"
    assume i: "inv (w_ls w)" "view (w_ls w) = V"
    from check_law [OF i(1), of path "sv_principal sv" False deep toks] obtain r l
      where l: "ls_check ops path (sv_principal sv) False deep toks (w_ls w) = Some (r, l)" "inv l" "view l = view (w_ls w)"
        "r = Inr () \<longleftrightarrow> may_write (view (w_ls w)) path (holds (sv_principal sv) False toks) deep" by blast
    with assms(2) i(2) obtain e where "r = Inl e" by (cases r) auto
    with l i(2) show "\<exists>e w'. on_ls (ls_check ops path (sv_principal sv) False deep toks) w = Some (Inl e, w') \<and>
        w_fs w' = w_fs w \<and> inv (w_ls w') \<and> view (w_ls w') = V" by (simp add: on_ls_def)
  qed
  then show ?thesis using guarded_ls [OF assms(1)] by (simp add: check_locks_def bars_map_err)
qed

lemma symlink_path_segs:
  assumes "(if b then bind (attempt m) (\<lambda>r. case r of Inr m2 \<Rightarrow> ok (add_slash_if (md_is_dir m2) path) | Inl _ \<Rightarrow> ok path)
    else ok path) w = Some (Inr q, w')"
  shows "lock_segs q = lock_segs path"
proof (cases b)
  case True
  show ?thesis
    using assms unfolding if_P [OF True]
  proof (cases rule: bind_cases)
    case (val r w1)
    then show ?thesis by (cases r) auto
  qed simp
qed (use assms in simp)

lemma bars_delete:
  assumes sv: "guarded sv"
    and p: "from_uri_and_prefix (pct_decode (sv_http sv)) (rq_path rq) (sv_prefix sv) = Inr path"
    and no: "\<not> may_write V path (holds (sv_principal sv) False (submitted (sv_http sv) rq)) True"
  shows "bars inv view V (handle_delete n sv rq)"
proof -
  have at: "bars inv view V (delete_at n sv rq depth meta q)" if q: "lock_segs q = lock_segs path" for depth meta q
    unfolding delete_at_def
  proof (rule bars_bind)
    show "quiet inv view (map_err Status (if_match_get_tokens sv rq (Some meta) q))"
      using sv by (intro quiet_rules quiet_handlers)
    fix toks :: "bytes list" and w w'
    assume "map_err Status (if_match_get_tokens sv rq (Some meta) q) w = Some (Inr toks, w')"
    then have t: "toks = submitted (sv_http sv) rq" unfolding map_err_Inr_iff by (rule if_match_get_tokens_tokens)
    have "bars inv view V (check_locks sv q True toks (Status 423))"
      by (rule bars_check_locks [OF sv]) (use no t may_write_segs [OF q] in simp)
    then show "bars inv view V (bind (check_locks sv q True toks (Status 423))
        (\<lambda>_. bind (collect (delete_stream n sv depth meta q)) (multi_error (sv_http sv) q)))"
      by (rule bars_bind_first)
  qed
  show ?thesis
    unfolding handle_delete_def
    using sv p
    by (auto intro!: bars_fail bars_req_path [OF p] bars_bind quiet_rules quiet_handlers at split: sum.splits
        dest!: symlink_path_segs)
qed

lemma bars_put:
  assumes sv: "guarded sv"
    and p: "from_uri_and_prefix (pct_decode (sv_http sv)) (rq_path rq) (sv_prefix sv) = Inr path"
    and no: "\<not> may_write V path (holds (sv_principal sv) False (submitted (sv_http sv) rq)) False"
  shows "bars inv view V (handle_put sv rq body)"
proof -
  have at: "bars inv view V (put_at sv rq body stamps meta pt path)" for stamps meta pt
    unfolding put_at_def
  proof (rule bars_bind)
    show "quiet inv view (map_err StatusClose (if_match_get_tokens sv rq meta path))"
      using sv by (intro quiet_rules quiet_handlers)
  next
    fix toks :: "bytes list" and w w'
    assume "map_err StatusClose (if_match_get_tokens sv rq meta path) w = Some (Inr toks, w')"
    then have "toks = submitted (sv_http sv) rq" unfolding map_err_Inr_iff by (rule if_match_get_tokens_tokens)
    then show "bars inv view V (bind (check_locks sv path False toks (StatusClose 423)) f)" for f
      using no by (intro bars_bind_first bars_check_locks [OF sv]) simp
  qed
  show ?thesis
    unfolding handle_put_def
    using sv p
    by (auto intro!: bars_fail bars_req_path [OF p] bars_bind quiet_rules quiet_handlers at split: sum.splits simp: Let_def)
qed

lemma quiet_copymove_target: "guarded sv \<Longrightarrow> quiet inv view (copymove_target sv dest)"
  unfolding copymove_target_def
  by (auto intro!: quiet_rules pure_fs split: sum.splits)

lemma quiet_same_or_nested: "guarded sv \<Longrightarrow> quiet inv view (same_or_nested sv path dest ex)"
  unfolding same_or_nested_def by (auto intro!: quiet_rules pure_fs)

lemma quiet_copymove_source: "guarded sv \<Longrightarrow> quiet inv view (copymove_source sv method path)"
  unfolding copymove_source_def by (auto intro!: quiet_rules pure_fs)

lemma quiet_has_parent: "guarded sv \<Longrightarrow> quiet inv view (has_parent sv path)"
  unfolding has_parent_def by (auto intro!: quiet_rules pure_fs split: sum.splits)

lemma copymove_source_segs:
  "copymove_source sv method path w = Some (Inr (meta, q), w') \<Longrightarrow> lock_segs q = lock_segs path"
  by (auto simp: copymove_source_def bind_eq_Inr split: if_splits)

text \<open>Both ends of a \<^verbatim>\<open>MOVE\<close>, the destination of a \<^verbatim>\<open>COPY\<close>.\<close>

lemma bars_copymove_locks:
  assumes "guarded sv"
    and "(method = MMove \<and> \<not> may_write V path (holds (sv_principal sv) False toks) True)
         \<or> \<not> may_write V dest (holds (sv_principal sv) False toks) True"
  shows "bars inv view V (copymove_locks sv method path dest toks)"
  using assms(2)
proof
  assume "method = MMove \<and> \<not> may_write V path (holds (sv_principal sv) False toks) True"
  then show ?thesis unfolding copymove_locks_def
    by (auto intro!: bars_bind_first bars_check_locks [OF assms(1)])
next
  assume "\<not> may_write V dest (holds (sv_principal sv) False toks) True"
  then show ?thesis unfolding copymove_locks_def
    by (auto intro!: bars_bind bars_check_locks [OF assms(1)] quiet_rules quiet_check_locks assms(1))
qed

lemma bars_copymove:
  assumes sv: "guarded sv"
    and p: "from_uri_and_prefix (pct_decode (sv_http sv)) (rq_path rq) (sv_prefix sv) = Inr path"
    and d: "copymove_dest sv rq = Inr dest"
    and no: "(method = MMove \<and> \<not> may_write V path (holds (sv_principal sv) False (submitted (sv_http sv) rq)) True)
         \<or> \<not> may_write V dest (holds (sv_principal sv) False (submitted (sv_http sv) rq)) True"
  shows "bars inv view V (handle_copymove n sv rq method)"
proof -
  have at: "bars inv view V (copymove_at n sv rq method depth ov q meta dest)" if q: "lock_segs q = lock_segs path"
    for depth ov q meta
  proof -
    have tk: "bars inv view V (bind (map_err Status (if_match_get_tokens sv rq (Some meta) q))
        (\<lambda>toks. bind (copymove_locks sv method q dest toks) (f toks)))" for f :: "_ \<Rightarrow> _ \<Rightarrow> ('s, 'l, response) handler"
    proof (rule bars_bind)
      show "quiet inv view (map_err Status (if_match_get_tokens sv rq (Some meta) q))"
        using sv by (intro quiet_rules quiet_handlers)
      fix toks :: "bytes list" and w w'
      assume "map_err Status (if_match_get_tokens sv rq (Some meta) q) w = Some (Inr toks, w')"
      then have "toks = submitted (sv_http sv) rq" unfolding map_err_Inr_iff by (rule if_match_get_tokens_tokens)
      with no may_write_segs [OF q, of V]
      show "bars inv view V (bind (copymove_locks sv method q dest toks) (f toks))"
        by (intro bars_bind_first bars_copymove_locks [OF sv]) simp
    qed
    show ?thesis
      unfolding copymove_at_def
      by (rule bars_bind [OF quiet_copymove_target [OF sv]])
         (auto intro!: bars_if bars_fail bars_bind [OF quiet_same_or_nested [OF sv]] tk split del: if_split)
  qed
  show ?thesis
    unfolding handle_copymove_def Let_def
    using sv p d
    by (auto intro!: bars_fail bars_req_path [OF p] bars_bind quiet_rules quiet_handlers quiet_copymove_source quiet_has_parent
        at split: sum.splits dest!: copymove_source_segs)
qed

lemma quiet_lock_target: "guarded sv \<Longrightarrow> quiet inv view (lock_target sv path)"
  unfolding lock_target_def by (auto intro!: quiet_rules pure_fs split: sum.splits prod.splits)

lemma bars_ls_lock:
  assumes "\<not> free_for V path shared deep"
  shows "bars inv view V (on_ls (ls_lock ops path pr owner tmo shared deep))"
proof (rule barsI)
  fix w :: "('x, 'l) world"
  assume i: "inv (w_ls w)" "view (w_ls w) = V"
  from lock_law [OF i(1), of path pr owner tmo shared deep] obtain r l where
    l: "ls_lock ops path pr owner tmo shared deep (w_ls w) = Some (r, l)" "inv l" "case r of
         Inl e \<Rightarrow> \<not> free_for (view (w_ls w)) path shared deep \<and> view l = view (w_ls w)
       | Inr k \<Rightarrow> free_for (view (w_ls w)) path shared deep \<and> lk_principal k = pr \<and> lk_shared k = shared \<and>
           lk_deep k = deep \<and> lk_path k = path \<and>
           (tmo \<noteq> Some 0 \<longrightarrow> view l = (view (w_ls w))(lock_segs path := view (w_ls w) (lock_segs path) @ [k]))" by blast
  with assms i(2) obtain e where "r = Inl e" "view l = V" by (cases r) auto
  with l(1,2) show "\<exists>e w'. on_ls (ls_lock ops path pr owner tmo shared deep) w = Some (Inl e, w') \<and>
    w_fs w' = w_fs w \<and> inv (w_ls w') \<and> view (w_ls w') = V" using i(2) by (auto simp: on_ls_def)
qed

lemma bars_lock:
  assumes sv: "guarded sv"
    and p: "from_uri_and_prefix (pct_decode (sv_http sv)) (rq_path rq) (sv_prefix sv) = Inr path"
    and x: "xmldata \<noteq> []" "lock_depth rq = Inr deep" "parse_lockinfo (sv_http sv) xmldata = Inr (shared, owner)"
    and no: "\<not> free_for V path shared deep"
  shows "bars inv view V (handle_lock sv rq xmldata)"
proof -
  have at: "bars inv view V (lock_at sv ops rq xmldata meta res q)" if q: "lock_segs q = lock_segs path" for meta res q
    using x(2,3) no free_for_segs [OF q, of V shared deep]
    by (auto simp: lock_at_def intro!: bars_bind [OF quiet_if_match [OF sv]] bars_fail
          bars_bind_first [OF bars_map_err [OF bars_ls_lock]] split: option.splits)
  show ?thesis
    unfolding handle_lock_def
    using p x(1) guarded_ls [OF sv]
    by (auto intro!: bars_req_path [OF p] bars_bind [OF quiet_ensure_visible [OF sv]] bars_bind [OF quiet_lock_target [OF sv]]
        at dest!: lock_target_segs)
qed

text \<open>A \<^verbatim>\<open>LOCK\<close> that succeeds has added one lock, at its path, and nothing else.\<close>

lemma lock_create_ls:
  assumes "lock_create sv ls path oo tok w = Some (Inr u, w')"
  shows "w_ls w' = w_ls w"
  using assms unfolding lock_create_def
proof (cases rule: bind_cases)
  case (val r w1)
  then show "w_ls w' = w_ls w" by (cases r) (auto simp: bind_eq_Inr dest!: attempt_SomeD on_fs_SomeD)
qed simp

lemma lock_finish_result:
  assumes "lock_finish sv ls rq meta res q l w = Some (Inr r, w')"
  shows "w_ls w' = w_ls w" "map_of (rs_headers r) ''lock-token'' = Some (''<'' @ lk_token l @ ''>'')"
  using assms unfolding lock_finish_def
  by (auto elim!: bind_InrE dest: lock_create_ls split: if_splits simp: lock_response_def set_header_def update_conv)

lemma lock_success:
  assumes sv: "guarded sv" and i: "inv (w_ls w)"
    and p: "from_uri_and_prefix (pct_decode (sv_http sv)) (rq_path rq) (sv_prefix sv) = Inr path"
    and x: "xmldata \<noteq> []" "lock_depth rq = Inr deep" "parse_lockinfo (sv_http sv) xmldata = Inr (shared, owner)"
    and tmo: "get_timeout (sv_http sv) rq False shared \<noteq> Some 0"
    and run: "handle_lock sv rq xmldata w = Some (Inr res, w')"
  shows "\<exists>l. inv (w_ls w') \<and> lk_principal l = sv_principal sv \<and> lk_shared l = shared \<and> lk_deep l = deep \<and>
    map_of (rs_headers res) ''lock-token'' = Some (''<'' @ lk_token l @ ''>'') \<and>
    view (w_ls w') = (view (w_ls w))(lock_segs path := view (w_ls w) (lock_segs path) @ [l])"
proof -
  from run p x(1) guarded_ls [OF sv] obtain w1 w2 meta res0 q where
    a: "ensure_visible sv path w = Some (Inr (), w1)" and b: "lock_target sv path w1 = Some (Inr (meta, res0, q), w2)"
    and c: "lock_at sv ops rq xmldata meta res0 q w2 = Some (Inr res, w')"
    by (auto simp: handle_lock_def req_path_def bind_eq_Inr)
  obtain so w3 
    where d: "(if_match sv rq meta q :: ('s, 'l, status option) handler) w2 = Some (Inr so, w3)" and c1: "(case so of
      Some st \<Rightarrow> fail (Status st)
    | None \<Rightarrow> bind (map_err (\<lambda>_. Status 423) (on_ls (ls_lock ops q (sv_principal sv) owner
          (get_timeout (sv_http sv) rq False shared) shared deep))) (lock_finish sv ops rq meta res0 q)) w3 = Some (Inr res, w')"
    using c x(2,3) unfolding lock_at_def by (auto elim!: bind_InrE)
  from c1 obtain l w4 where
    e: "on_ls (ls_lock ops q (sv_principal sv) owner (get_timeout (sv_http sv) rq False shared) shared deep) w3
        = Some (Inr l, w4)"
    and f: "lock_finish sv ops rq meta res0 q l w4 = Some (Inr res, w')"
    by (cases so) (auto elim!: bind_InrE simp: map_err_Inr_iff)
  have w3: "inv (w_ls w3)" "view (w_ls w3) = view (w_ls w)"
    using quietD [OF quiet_ensure_visible [OF sv] i a] quietD [OF quiet_lock_target [OF sv] _ b]
      quietD [OF quiet_if_match [OF sv] _ d] by simp_all
  from on_ls_SomeD [OF e] obtain s where
    s: "ls_lock ops q (sv_principal sv) owner (get_timeout (sv_http sv) rq False shared) shared deep (w_ls w3) = Some (Inr l, s)"
      "w4 = w3\<lparr>w_ls := s\<rparr>" by blast
  have w': "w_ls w' = s" and t: "map_of (rs_headers res) ''lock-token'' = Some (''<'' @ lk_token l @ ''>'')"
    using lock_finish_result [OF f] s(2) by simp_all
  from t show ?thesis
    using lock_law [OF w3(1), of q "sv_principal sv" owner "get_timeout (sv_http sv) rq False shared" shared deep]
      s(1) w3(2) w' tmo lock_target_segs [OF b] by auto
qed

text \<open>An exclusive lock bars who does not hold it, at its path and below it when it is deep.\<close>

lemma exclusive_bars_write:
  assumes "view' = v(lock_segs path := v (lock_segs path) @ [l])" and "\<not> lk_shared l"
    and "lock_segs q = lock_segs path \<or> lk_deep l \<and> prefix (lock_segs path) (lock_segs q)" and "\<not> mine l"
  shows "\<not> may_write view' q mine dp"
  using covering_added [OF assms(3), of v] assms(1,2,4) unfolding may_write_def by blast

end

end
