(* ===== verification/Mem_Fs_Read.thy ===== *)
theory Mem_Fs_Read
  imports Handle_Safe Mem_Fs_Main
begin

text \<open>
  What the reading operations of the in-memory filesystem return, on its map view, and the
  condition on names under which the paths a handler builds from a listing lead back to the listed
  nodes.
\<close>

lemma memfs_metadata_ok:
  assumes "fs_ok s"
  shows "memfs_metadata p s = Some (case fs_map s (segs_of p) of
      Some n \<Rightarrow> Inr (as_dirent n) | None \<Rightarrow> Inl (lookup_err (fs_map s) (segs_of p)), s)"
  by (cases rule: fs_lookup_cases [OF fs_ok_wf [OF assms], of "as_bytes p"])
    (simp_all add: memfs_metadata_def on_tree_def lift_lookup_def segs_of_def fs_map_def)

lemma memfs_metadata_pure: "fs_pure (memfs_metadata p)"
  by (auto simp: fs_pure_def memfs_metadata_def on_tree_def bind_def lift_lookup_def reads_def ok_def
      split: sum.splits)

lemma as_dirent_is_dir [simp]: "md_is_dir (as_dirent n) = node_is_dir n"
  by (cases n) (simp_all add: mem_meta_def)

lemma as_dirent_is_file [simp]: "md_is_file (as_dirent n) \<longleftrightarrow> \<not> node_is_dir n"
  by (cases n) (simp_all add: mem_meta_def default_is_file_def)

lemma as_dirent_symlink [simp]: "\<not> md_is_symlink (as_dirent n)"
  by (cases n) (simp_all add: mem_meta_def)

lemma node_is_dir_iff: "node_is_dir n \<longleftrightarrow> (\<exists>d. n = MDir d)"
  by (cases n) simp_all

text \<open>A listing has one entry for each child, in some order.\<close>

lemma memfs_read_dir_ok:
  assumes ok: "fs_ok s" and dir: "is_dir_at (fs_map s) (segs_of p)"
  shows "\<exists>cs. memfs_read_dir p rdm s = Some (Inr (map (\<lambda>(k, n). Inr (mem_dirent k n)) cs), s) \<and>
    distinct (map fst cs) \<and> (\<forall>k n. (k, n) \<in> set cs \<longleftrightarrow> fs_map s (segs_of p @ [k]) = Some n)"
proof (cases rule: fs_lookup_cases [OF fs_ok_wf [OF ok], of "as_bytes p"])
  case 2
  with dir show ?thesis by (simp add: is_dir_at_def fs_map_def segs_of_def)
next
  case (1 i n)
  note found = 1
  let ?t = "mf_tree s"
  obtain d where d: "wf_rank ?t d" using fs_ok_wf [OF ok] by (rule fs_wfE)
  obtain nd where nd: "tr_nodes ?t i = Some nd" using walk_root_dom [OF d found(2)] by blast
  have n: "node_is_dir n" using dir found(4) by (auto simp: is_dir_at_def fs_map_def segs_of_def)
  let ?dat = "\<lambda>c. nd_data (the (tr_nodes ?t c))"
  define cs where "cs = map (\<lambda>(k, c). (k, ?dat c)) (nd_children nd)"
  have ex: "\<exists>m. tr_nodes ?t c = Some m" if "c \<in> snd ` set (nd_children nd)" for c
  proof -
    from that wf_children_child [OF d nd] obtain k where "child ?t i k = Some c" by auto
    with wf_child [OF d this] show ?thesis by blast
  qed
  have "concat (map (\<lambda>(k, c). case get_node ?t c of Inr nd \<Rightarrow> [Inr (mem_dirent k nd) :: fs_error + mem_fs dirent] | Inl _ \<Rightarrow> []) xs)
      = map (\<lambda>(k, n). Inr (mem_dirent k n)) (map (\<lambda>(k, c). (k, ?dat c)) xs)" if "set xs \<subseteq> set (nd_children nd)" for xs
    using that
  proof (induction xs)
    case (Cons x xs)
    obtain m where "tr_nodes ?t (snd x) = Some m" using Cons.prems ex [of "snd x"] by auto
    with Cons show ?case by (cases x) (simp add: get_node_def)
  qed simp
  then have run: "memfs_read_dir p rdm s = Some (Inr (map (\<lambda>(k, n). Inr (mem_dirent k n)) cs), s)"
    using found(1,3) n nd by (simp add: memfs_read_dir_def on_tree_def lift_lookup_def get_children_def cs_def)
  have dist: "distinct (map fst (nd_children nd))" using wf_node [OF d nd] by simp
  have "map fst cs = map fst (nd_children nd)" by (simp add: cs_def case_prod_beta comp_def)
  moreover have "(k, m) \<in> set cs \<longleftrightarrow> fs_map s (segs_of p @ [k]) = Some m" for k m
  proof -
    have "fs_map s (segs_of p @ [k]) = Option.bind (child ?t i k) (\<lambda>c. map_option nd_data (tr_nodes ?t c))"
      using found(2) by (simp add: fs_map_def segs_of_def tree_map_def walk_snoc)
    moreover have "child ?t i k = map_of (nd_children nd) k" using nd by (rule child_eq_map_of)
    moreover have "(k, m) \<in> set cs \<longleftrightarrow> (\<exists>c. (k, c) \<in> set (nd_children nd) \<and> m = ?dat c)" by (auto simp: cs_def)
    ultimately show ?thesis using dist ex by (force simp: bind_eq_Some_conv)
  qed
  ultimately show ?thesis using run dist by auto
qed

section \<open>Stamps\<close>

lemma memfs_stamp_run:
  assumes ok: "fs_ok s" and n: "fs_map s (segs_of path) = Some n" and keep: "\<And>n. node_is_dir (g n) = node_is_dir n"
  shows "\<exists>s'. on_tree (\<lambda>_. bind (lift_lookup (\<lambda>t. fs_lookup t (as_bytes path))) (\<lambda>i. get_node_mut i g)) s = Some (Inr (), s') \<and>
    fs_ok s' \<and> mf_clock s' = mf_clock s \<and> fs_map s' = (fs_map s)(segs_of path \<mapsto> g n)"
proof (cases rule: fs_lookup_cases [OF fs_ok_wf [OF ok], of "as_bytes path"])
  case (1 i n')
  let ?a = "\<lambda>_. bind (lift_lookup (\<lambda>t. fs_lookup t (as_bytes path))) (\<lambda>i. get_node_mut i g)"
  have "wf_tree (mf_tree s)" using fs_ok_wf [OF ok] by (simp add: fs_wf_def)
  from set_node_ok [OF this 1(2), of g] obtain t' where
    t': "get_node_mut i g (mf_tree s) = Some (Inr (), t')"
    "tree_map t' = (tree_map (mf_tree s))(segs_of path := map_option g (tree_map (mf_tree s) (segs_of path)))"
    by (auto simp: segs_of_def)
  have run: "on_tree ?a s = Some (Inr (), s\<lparr>mf_tree := t'\<rparr>)" using 1(1) t'(1) by (simp add: on_tree_def lift_lookup_def)
  from lookup_upd_ok [OF run ok keep] run t'(2) n show ?thesis by (simp add: fs_map_def)
qed (use n in \<open>simp add: fs_map_def segs_of_def\<close>)

lemma update_stamps_dir [simp]: "node_is_dir (update_mtime t n) = node_is_dir n" "node_is_dir (update_crtime t n) = node_is_dir n"
  by (cases n; simp)+

lemma memfs_set_modified_run:
  assumes "fs_ok s" and "fs_map s (segs_of path) = Some n"
  shows "\<exists>s'. memfs_set_modified path tm s = Some (Inr (), s') \<and> fs_ok s' \<and> mf_clock s' = mf_clock s \<and>
    fs_map s' = (fs_map s)(segs_of path \<mapsto> update_mtime tm n)"
  unfolding memfs_set_modified_def by (rule memfs_stamp_run [OF assms]) simp

lemma memfs_set_created_run:
  assumes "fs_ok s" and "fs_map s (segs_of path) = Some n"
  shows "\<exists>s'. memfs_set_created path tm s = Some (Inr (), s') \<and> fs_ok s' \<and> mf_clock s' = mf_clock s \<and>
    fs_map s' = (fs_map s)(segs_of path \<mapsto> update_crtime tm n)"
  unfolding memfs_set_created_def by (rule memfs_stamp_run [OF assms]) simp

section \<open>Names\<close>

text \<open>Every name is a segment of a path: not empty, without a slash.\<close>

definition names_ok :: "fs_map \<Rightarrow> bool" where
  "names_ok m \<longleftrightarrow> (\<forall>ks k. m (ks @ [k]) \<noteq> None \<longrightarrow> good_seg k)"

lemma segs_lock: "segs_of = lock_segs"
  by (simp add: fun_eq_iff segs_of_def lock_segs_def)

lemma segs_add_slash_if [simp]: "segs_of (add_slash_if b p) = segs_of p"
  by (simp add: segs_lock)

text \<open>The prefix of a path is no longer than the path.\<close>

definition path_fits :: "dav_path \<Rightarrow> bool" where
  "path_fits p \<longleftrightarrow> prefix_len p \<le> length (fullpath p)"

lemma path_fits_push [simp]: "path_fits p \<Longrightarrow> path_fits (push_segment k p)"
  by (simp add: path_fits_def push_segment_def add_slash_def Let_def prefix_len_def)

lemma path_fits_slash [simp]: "path_fits p \<Longrightarrow> path_fits (add_slash_if b p)"
  by (simp add: path_fits_def add_slash_if_def prefix_len_def)

lemma segs_push_segment:
  assumes k: "good_seg k" and p: "path_fits p"
  shows "segs_of (push_segment k p) = segs_of p @ [k]"
proof -
  let ?q = "add_slash p"
  have q: "segs_of ?q = segs_of p" using segs_add_slash_if [of True p] by (simp add: add_slash_def add_slash_if_def)
  have "ends_with (as_bytes ?q) [slash]"
    using p by (auto simp: add_slash_def is_collection_def as_bytes_def prefix_len_def path_fits_def ends_with_iff)
  then obtain y where y: "as_bytes ?q = y @ [slash]" by (auto simp: ends_with_iff)
  have "prefix_len ?q \<le> length (fullpath ?q)"
    using p by (simp add: add_slash_def path_fits_def prefix_len_def)
  then have "as_bytes (push_segment k p) = as_bytes ?q @ k"
    by (simp add: push_segment_def Let_def as_bytes_def prefix_len_def)
  with y have "segs_of (push_segment k p) = path_segs y @ path_segs k"
    by (simp add: segs_of_def path_segs_append_slash)
  moreover have "segs_of p = path_segs y" using y q by (simp add: segs_of_def)
  ultimately show ?thesis using path_segs_seg [OF k] by simp
qed

end
