(* ===== verification/Mem_Delete.thy ===== *)
theory Mem_Delete
  imports Mem_Fs_Read
begin

text \<open>
  Recursive removal on the in-memory filesystem: with enough fuel the recursion of
  \<^verbatim>\<open>delete_items\<close> ends, removes exactly the subtree and reports nothing.
\<close>

lemma touch_other: "ks \<noteq> p \<Longrightarrow> touch now p m ks = m ks"
  by (simp add: touch_def)

lemma memfs_ops_simps [simp]:
  "fs_remove_file (memfs_ops a) = memfs_remove_file" "fs_remove_dir (memfs_ops a) = memfs_remove_dir"
  "fs_read_dir (memfs_ops a) = memfs_read_dir" "fs_metadata (memfs_ops a) = memfs_metadata"
  "fs_symlink_metadata (memfs_ops a) = memfs_metadata" "fs_rename (memfs_ops a) = memfs_rename"
  "fs_open (memfs_ops a) = memfs_open" "fs_create_dir (memfs_ops a) = memfs_create_dir"
  "fs_copy (memfs_ops a) = memfs_copy" "fs_same_resource (memfs_ops a) = default_same_resource"
  by (simp_all add: memfs_ops_def)

lemma fs_ok_above: "fs_ok s \<Longrightarrow> dirs_above (fs_map s)"
  by (simp add: fs_ok_def fs_wf_def fs_map_def)

lemma above_butlast:
  assumes "fs_ok s" and "fs_map s ks = Some n" and "ks \<noteq> []"
  shows "is_dir_at (fs_map s) (butlast ks)"
  using fs_ok_above [OF assms(1)] assms(2,3) append_butlast_last_id [OF assms(3)]
  by (metis dirs_above_def option.distinct(1))

lemma file_childless:
  assumes "fs_ok s" and "fs_map s ks = Some n" and "\<not> node_is_dir n"
  shows "strict_prefix ks ks' \<Longrightarrow> fs_map s ks' = None"
  using dir_above_prefix [OF fs_ok_above [OF assms(1)], of ks' ks] assms(2,3) by (cases "fs_map s ks'") (auto simp: is_dir_at_def)

text \<open>Removing a childless node.\<close>

lemma remove_leaf:
  assumes ok: "fs_ok s" and p: "fs_map s (segs_of path) = Some n" "segs_of path \<noteq> []"
    and leaf: "\<And>k. fs_map s (segs_of path @ [k]) = None"
  shows "\<exists>s'. memfs_remove_file path s = Some (Inr (), s') \<and> memfs_remove_dir path s = Some (Inr (), s') \<and> fs_ok s' \<and>
    mf_clock s' = mf_clock s \<and>
    fs_map s' = touch (mf_clock s) (butlast (segs_of path)) ((fs_map s)(segs_of path := None))"
  using memfs_remove_ok [OF ok, of path] above_butlast [OF ok p] p leaf by auto

lemma names_ok_mono: "names_ok m \<Longrightarrow> (\<And>ks. m ks = None \<Longrightarrow> m' ks = None) \<Longrightarrow> names_ok m'"
  unfolding names_ok_def by metis

section \<open>The loop over the entries\<close>

abbreviation mem_entry :: "bytes \<times> mem_node \<Rightarrow> fs_error + mem_fs dirent" where
  "mem_entry \<equiv> \<lambda>(k, n). Inr (mem_dirent k n)"

definition removes :: "nat \<Rightarrow> (mem_fs, mem_file, 'l) server \<Rightarrow> bool" where
  "removes n sv \<longleftrightarrow> (\<forall>w path nd. fs_ok (w_fs w) \<longrightarrow> names_ok (fs_map (w_fs w)) \<longrightarrow> path_fits path \<longrightarrow>
     fs_map (w_fs w) (segs_of path) = Some nd \<longrightarrow> segs_of path \<noteq> [] \<longrightarrow>
     (\<forall>ks. prefix (segs_of path) ks \<longrightarrow> fs_map (w_fs w) ks \<noteq> None \<longrightarrow> length ks < length (segs_of path) + n) \<longrightarrow>
     (\<exists>s'. delete_items n sv DepthInfinity (as_dirent nd) path w = Some (Inr (), w\<lparr>w_fs := s'\<rparr>) \<and> fs_ok s' \<and>
        mf_clock s' = mf_clock (w_fs w) \<and>
        fs_map s' = touch (mf_clock (w_fs w)) (butlast (segs_of path)) (map_cut (segs_of path) (fs_map (w_fs w)))))"

lemma delete_entries_ok:
  fixes sv :: "(mem_fs, mem_file, 'l) server" and w :: "(mem_fs, 'l) world"
  assumes IH: "removes n sv" and path: "path_fits path"
    and ok: "fs_ok (w_fs w)" "names_ok (fs_map (w_fs w))" "is_dir_at (fs_map (w_fs w)) (segs_of path)"
    and cs: "distinct (map fst cs)" "\<forall>(k, nd) \<in> set cs. fs_map (w_fs w) (segs_of path @ [k]) = Some nd"
    and depth: "\<forall>ks. prefix (segs_of path) ks \<longrightarrow> fs_map (w_fs w) ks \<noteq> None \<longrightarrow> length ks < length (segs_of path) + Suc n"
  shows "\<exists>s'. delete_entries n sv DepthInfinity path (map mem_entry cs) None w = Some (Inr (), w\<lparr>w_fs := s'\<rparr>) \<and>
    fs_ok s' \<and> mf_clock s' = mf_clock (w_fs w) \<and> is_dir_at (fs_map s') (segs_of path) \<and>
    (\<forall>ks. \<not> prefix (segs_of path) ks \<longrightarrow> fs_map s' ks = fs_map (w_fs w) ks) \<and>
    (\<forall>ks. strict_prefix (segs_of path) ks \<longrightarrow> fs_map s' ks =
       (if \<exists>k \<in> fst ` set cs. prefix (segs_of path @ [k]) ks then None else fs_map (w_fs w) ks))"
  using ok cs depth
proof (induction cs arbitrary: w)
  case Nil
  then show ?case by (intro exI [of _ "w_fs w"]) simp
next
  case (Cons c cs)
  obtain k nd where c: "c = (k, nd)" by (cases c)
  let ?m = "fs_map (w_fs w)" and ?p = "segs_of path"
  let ?np = "add_slash_if (node_is_dir nd) (push_segment k path)"
  have k: "?m (?p @ [k]) = Some nd" using Cons.prems(5) c by simp
  then have good: "good_seg k" using Cons.prems(2) unfolding names_ok_def by blast
  have np: "segs_of ?np = ?p @ [k]" using segs_push_segment [OF good path] by simp
  have fits: "path_fits ?np" using path by simp
  have dep: "\<forall>ks. prefix (segs_of ?np) ks \<longrightarrow> ?m ks \<noteq> None \<longrightarrow> length ks < length (segs_of ?np) + n"
    using Cons.prems(6) unfolding np by (auto dest: append_prefixD)
  obtain s1 where s1: "delete_items n sv DepthInfinity (as_dirent nd) ?np w = Some (Inr (), w\<lparr>w_fs := s1\<rparr>)" "fs_ok s1"
      "mf_clock s1 = mf_clock (w_fs w)" "fs_map s1 = touch (mf_clock (w_fs w)) ?p (map_cut (?p @ [k]) ?m)"
    using IH [unfolded removes_def, rule_format, of w ?np nd] Cons.prems(1,2) fits k dep unfolding np by auto
  let ?w1 = "w\<lparr>w_fs := s1\<rparr>"
  have m1: "fs_map s1 ks = (if prefix (?p @ [k]) ks then None else ?m ks)" if "ks \<noteq> ?p" for ks
    using that by (simp add: s1(4) touch_other map_cut_def)
  have m1p: "is_dir_at (fs_map s1) ?p"
    using Cons.prems(3) by (auto simp: is_dir_at_def s1(4) touch_def map_cut_def)
  have none: "fs_map s1 ks = None" if "?m ks = None" for ks
    using that by (auto simp: s1(4) touch_def map_cut_def)
  have names: "names_ok (fs_map (w_fs ?w1))" using names_ok_mono [OF Cons.prems(2) none] by simp
  have entries: "\<forall>(k, nd) \<in> set cs. fs_map (w_fs ?w1) (?p @ [k]) = Some nd"
    using Cons.prems(4,5) c by (auto simp: m1 rev_image_eqI)
  have depth1: "\<forall>ks. prefix ?p ks \<longrightarrow> fs_map (w_fs ?w1) ks \<noteq> None \<longrightarrow> length ks < length ?p + Suc n"
    using Cons.prems(6) none by auto
  obtain s2 where s2: "delete_entries n sv DepthInfinity path (map mem_entry cs) None ?w1 = Some (Inr (), w\<lparr>w_fs := s2\<rparr>)"
      "fs_ok s2" "mf_clock s2 = mf_clock s1" "is_dir_at (fs_map s2) ?p"
      "\<And>ks. \<not> prefix ?p ks \<Longrightarrow> fs_map s2 ks = fs_map s1 ks"
      "\<And>ks. strict_prefix ?p ks \<Longrightarrow> fs_map s2 ks =
         (if \<exists>k \<in> fst ` set cs. prefix (?p @ [k]) ks then None else fs_map s1 ks)"
    using Cons.IH [of ?w1] s1(2) names m1p entries Cons.prems(4) depth1 by auto
  have run: "delete_entries n sv DepthInfinity path (map mem_entry (c # cs)) None w = Some (Inr (), w\<lparr>w_fs := s2\<rparr>)"
  proof -
    have "on_fs (de_metadata (mem_dirent k nd)) w = Some (Inr (as_dirent nd), w)"
      by (simp add: on_fs_def mem_dirent_def)
    then show ?thesis using s1(1) s2(1) by (simp add: c mem_dirent_def)
  qed
  show ?case
  proof (intro exI [of _ s2] conjI allI impI)
    show "fs_map s2 ks = fs_map (w_fs w) ks" if "\<not> prefix ?p ks" for ks
      using that s2(5) m1 by (metis append_prefixD prefix_order.refl)
    show "fs_map s2 ks = (if \<exists>k \<in> fst ` set (c # cs). prefix (?p @ [k]) ks then None else fs_map (w_fs w) ks)"
      if "strict_prefix ?p ks" for ks
      using s2(6) [OF that] m1 [of ks] that by (auto simp: c)
  qed (use run s2(2-4) s1(3) in auto)
qed


lemma cut_below:
  assumes "dirs_above m" and "\<And>k. m (p @ [k]) \<noteq> None \<Longrightarrow> k \<in> K" and "strict_prefix p ks"
    and "\<not> (\<exists>k \<in> K. prefix (p @ [k]) ks)"
  shows "m ks = None"
proof (rule ccontr)
  assume ks: "m ks \<noteq> None"
  from assms(3) obtain k zs where zs: "ks = (p @ [k]) @ zs"
    by (metis append.assoc append_Cons append_Nil neq_Nil_conv prefix_def strict_prefix_def self_append_conv)
  have "m (p @ [k]) \<noteq> None"
  proof (cases zs)
    case (Cons a as)
    then have "strict_prefix (p @ [k]) ks" using zs by (simp add: strict_prefix_def prefix_def)
    from dir_above_prefix [OF assms(1) ks this] show ?thesis by (auto simp: is_dir_at_def)
  qed (use ks zs in simp)
  with assms(2,4) zs show False by (metis prefixI)
qed

lemma delete_items_ok:
  fixes sv :: "(mem_fs, mem_file, 'l) server"
  assumes sv: "sv_fs sv = memfs_ops a"
  shows "removes n sv"
proof (induction n)
  case 0
  then show ?case unfolding removes_def by (metis add_0_right less_irrefl option.distinct(1) prefix_order.refl)
next
  case (Suc n)
  show ?case unfolding removes_def
  proof (intro allI impI)
    fix w :: "(mem_fs, 'l) world" and path nd
    let ?s = "w_fs w" and ?p = "segs_of path" and ?now = "mf_clock (w_fs w)"
    assume ok: "fs_ok ?s" "names_ok (fs_map ?s)" "path_fits path" "fs_map ?s ?p = Some nd" "?p \<noteq> []"
      and depth: "\<forall>ks. prefix ?p ks \<longrightarrow> fs_map ?s ks \<noteq> None \<longrightarrow> length ks < length ?p + Suc n"
    show "\<exists>s'. delete_items (Suc n) sv DepthInfinity (as_dirent nd) path w = Some (Inr (), w\<lparr>w_fs := s'\<rparr>) \<and>
      fs_ok s' \<and> mf_clock s' = ?now \<and> fs_map s' = touch ?now (butlast ?p) (map_cut ?p (fs_map ?s))"
    proof (cases "node_is_dir nd")
      case False
      note below = file_childless [OF ok(1,4) False]
      have leaf: "fs_map ?s (?p @ [k]) = None" for k by (rule below) (simp add: strict_prefix_def)
      have "(fs_map ?s)(?p := None) = map_cut ?p (fs_map ?s)"
        using below by (auto simp: fun_eq_iff map_cut_def strict_prefix_def)
      with remove_leaf [OF ok(1,4,5) leaf] False show ?thesis by (auto simp: sv on_fs_def)
    next
      case True
      then have dir: "is_dir_at (fs_map ?s) ?p" using ok(4) by (auto simp: is_dir_at_def node_is_dir_iff)
      from memfs_read_dir_ok [OF ok(1) dir, of RdDataSymlink] obtain cs where
        cs: "memfs_read_dir path RdDataSymlink ?s = Some (Inr (map mem_entry cs), ?s)" "distinct (map fst cs)"
          "\<And>k m. (k, m) \<in> set cs \<longleftrightarrow> fs_map ?s (?p @ [k]) = Some m" by blast
      have mem: "\<forall>(k, m) \<in> set cs. fs_map ?s (?p @ [k]) = Some m" using cs(3) by auto
      from delete_entries_ok [OF Suc.IH ok(3,1,2) dir cs(2) mem depth] obtain s1 where
        s1: "delete_entries n sv DepthInfinity path (map mem_entry cs) None w = Some (Inr (), w\<lparr>w_fs := s1\<rparr>)"
          "fs_ok s1" "mf_clock s1 = ?now" "is_dir_at (fs_map s1) ?p"
          "\<And>ks. \<not> prefix ?p ks \<Longrightarrow> fs_map s1 ks = fs_map ?s ks"
          "\<And>ks. strict_prefix ?p ks \<Longrightarrow> fs_map s1 ks =
             (if \<exists>k \<in> fst ` set cs. prefix (?p @ [k]) ks then None else fs_map ?s ks)" by blast
      have kids: "k \<in> fst ` set cs" if "fs_map ?s (?p @ [k]) \<noteq> None" for k
        using that cs(3) by (metis fst_conv image_eqI not_None_eq)
      have below: "fs_map s1 ks = None" if "strict_prefix ?p ks" for ks
        using s1(6) [OF that] cut_below [OF fs_ok_above [OF ok(1)] kids that] by auto
      have leaf: "fs_map s1 (?p @ [k]) = None" for k by (rule below) (simp add: strict_prefix_def)
      obtain d where d: "fs_map s1 ?p = Some (MDir d)" using s1(4) by (auto simp: is_dir_at_def)
      have "(fs_map s1)(?p := None) = map_cut ?p (fs_map ?s)"
        using below s1(5) by (auto simp: fun_eq_iff map_cut_def strict_prefix_def)
      with remove_leaf [OF s1(2) d ok(5) leaf] True cs(1) s1(1,3) show ?thesis by (auto simp: sv on_fs_def)
    qed
  qed
qed

end
