(* ===== verification/Mem_Handlers.thy ===== *)
theory Mem_Handlers
  imports Mem_Delete
begin

text \<open>
  The steps that the changing handlers share, on the in-memory backends: the visibility check, the
  preconditions of a request without an \<^verbatim>\<open>If\<close> header, the lock check and the removal of locks.
\<close>

section \<open>Steps\<close>

text \<open>No file lies on the way to the path.\<close>

definition open_way :: "fs_map \<Rightarrow> bytes list \<Rightarrow> bool" where
  "open_way m ks \<longleftrightarrow> (\<forall>q f. strict_prefix q ks \<longrightarrow> m q \<noteq> Some (MFile f))"

lemma open_way_exists: "fs_ok s \<Longrightarrow> fs_map s ks \<noteq> None \<Longrightarrow> open_way (fs_map s) ks"
  using dir_above_prefix [OF fs_ok_above] by (fastforce simp: open_way_def is_dir_at_def)

lemma open_way_parent: "fs_ok s \<Longrightarrow> is_dir_at (fs_map s) (butlast ks) \<Longrightarrow> open_way (fs_map s) ks"
proof -
  assume ok: "fs_ok s" and dir: "is_dir_at (fs_map s) (butlast ks)"
  have "fs_map s q \<noteq> Some (MFile f)" if q: "strict_prefix q ks" for q f
  proof (cases "q = butlast ks")
    case False
    have "prefix q (butlast ks)" using q by (metis prefix_snoc strict_prefix_def append_butlast_last_id prefix_Nil)
    with False have "strict_prefix q (butlast ks)" by (simp add: strict_prefix_def)
    with ok dir show ?thesis using open_way_exists [OF ok, of "butlast ks"] by (auto simp: is_dir_at_def open_way_def)
  qed (use dir in \<open>auto simp: is_dir_at_def\<close>)
  then show ?thesis by (simp add: open_way_def)
qed

lemma open_way_err: "open_way m ks \<Longrightarrow> lookup_err m ks = NotFound"
  by (auto simp: open_way_def lookup_err_def)

lemma mem_symlink_walk:
  assumes sv: "sv_fs sv = memfs_ops a" and ok: "fs_ok (w_fs w)"
  shows "open_way (fs_map (w_fs w)) (segs_of p) \<Longrightarrow> length (segs_of p) < n \<Longrightarrow> symlink_walk n sv p w = Some (Inr (), w)"
proof (induction n arbitrary: p)
  case (Suc n)
  let ?s = "w_fs w"
  have meta: "on_fs (memfs_metadata p) w = Some (case fs_map ?s (segs_of p) of
      Some n \<Rightarrow> Inr (as_dirent n) | None \<Rightarrow> Inl NotFound, w)"
    using memfs_metadata_ok [OF ok, of p] open_way_err [OF Suc.prems(1)]
    by (simp add: on_fs_def split: option.splits)
  have rest: "symlink_walk n sv (path_parent p) w = Some (Inr (), w)" if "\<not> path_eq (path_parent p) p"
  proof (rule Suc.IH)
    have ne: "segs_of p \<noteq> []" using that path_parent_root [of p] by (auto simp: path_eq_def segs_lock)
    have seg: "segs_of (path_parent p) = butlast (segs_of p)" by (simp add: segs_lock lock_segs_parent)
    have "strict_prefix q (butlast (segs_of p)) \<Longrightarrow> strict_prefix q (segs_of p)" for q
      by (metis prefixeq_butlast prefix_order.strict_trans2)
    then show "open_way (fs_map ?s) (segs_of (path_parent p))"
      using Suc.prems(1) unfolding seg open_way_def by blast
    show "length (segs_of (path_parent p)) < n" using Suc.prems(2) ne seg by (cases "segs_of p") simp_all
  qed
  show ?case
    using meta rest by (cases "fs_map ?s (segs_of p)") (auto simp: sv)
qed simp

text \<open>A path whose names the server does not hide.\<close>

definition shown :: "('s, 'h, 'l) server \<Rightarrow> dav_path \<Rightarrow> bool" where
  "shown sv path \<longleftrightarrow> \<not> list_ex is_collection_marker (split_on slash (as_bytes path)) \<and>
     ((sv_hide_dot_prefix sv = HideAlways \<or> sv_hide_dot_prefix sv = HideForDirectPaths) \<longrightarrow>
       \<not> list_ex (\<lambda>name. starts_with name ''.'') (split_on slash (as_bytes path)))"

lemma mem_visible:
  assumes "sv_fs sv = memfs_ops a" and "fs_ok (w_fs w)" and "open_way (fs_map (w_fs w)) (segs_of p)" and "shown sv p"
  shows "ensure_visible sv p w = Some (Inr (), w)"
  using mem_symlink_walk [OF assms(1-3), of "length (fullpath p) + 1"] lock_segs_length [of p] assms(4)
  by (auto simp: ensure_visible_def shown_def segs_lock less_Suc_eq_le simp del: symlink_walk.simps)

lemma no_if_tokens:
  assumes "header_values rq ''if'' = []" and "http_if_match (sv_http sv) rq meta = None"
  shows "if_match_get_tokens sv rq meta path w = Some (Inr [], w)"
  using assms by (simp add: if_match_get_tokens_def dav_if_match_def typed_get_def)

text \<open>The lock check passes, and only drops expired locks.\<close>

lemma mem_check:
  assumes "sv_ls sv = Some memls_ops" and "wf_tree (ml_tree (w_ls w))"
    and "may_write (lock_view (w_ls w)) path (holds (sv_principal sv) False toks) deep"
  shows "\<exists>l. check_locks sv path deep toks e w = Some (Inr (), w\<lparr>w_ls := l\<rparr>) \<and> wf_tree (ml_tree l) \<and>
    lock_view l = lock_view (w_ls w)"
proof -
  from memls_check_ok [OF assms(2), of path "sv_principal sv" False deep toks] assms(3) obtain l where
    l: "memls_check path (sv_principal sv) False deep toks (w_ls w) = Some (Inr (), l)" "wf_tree (ml_tree l)"
      "l = (w_ls w)\<lparr>ml_tree := ml_tree l\<rparr>" "locks_at (ml_tree l) = lock_view (w_ls w)" by auto
  have "ml_clock l = ml_clock (w_ls w)" by (subst l(3)) simp
  then have "lock_view l = lock_view (w_ls w)" by (intro view_eq_locks [OF l(4)]) (simp add: view_live)
  with l(1,2) assms(1) show ?thesis
    by (auto simp: check_locks_def on_ls_def memls_ops_def)
qed

definition unlocked :: "bytes list \<Rightarrow> lock_table \<Rightarrow> lock_table" where
  "unlocked p v = (\<lambda>ks. if prefix p ks \<and> ks \<noteq> [] then [] else v ks)"

lemma mem_unlock:
  assumes "sv_ls sv = Some memls_ops" and "wf_tree (ml_tree (w_ls w))"
  shows "\<exists>l. unlock_path sv path w = Some (Inr (), w\<lparr>w_ls := l\<rparr>) \<and> wf_tree (ml_tree l) \<and>
    lock_view l = unlocked (lock_segs path) (lock_view (w_ls w))"
proof -
  from memls_delete_ok [OF assms(2), of path] obtain l where
    l: "memls_delete path (w_ls w) = Some (Inr (), l)" "wf_tree (ml_tree l)" "l = (w_ls w)\<lparr>ml_tree := ml_tree l\<rparr>"
      "locks_at (ml_tree l) = (\<lambda>ks. if prefix (lock_segs path) ks \<and> ks \<noteq> [] then [] else locks_at (ml_tree (w_ls w)) ks)"
    by blast
  have "ml_clock l = ml_clock (w_ls w)" by (subst l(3)) simp
  then have "lock_view l = unlocked (lock_segs path) (lock_view (w_ls w))"
    by (auto simp: lock_view_def l(4) unlocked_def fun_eq_iff)
  with l(1,2) assms(1) show ?thesis by (auto simp: unlock_path_def on_ls_def memls_ops_def)
qed

lemma collect_run:
  assumes "m (w\<lparr>w_items := []\<rparr>) = Some (r, w')"
  shows "collect m w = Some (Inr (w_items w'), w'\<lparr>w_items := w_items w\<rparr>)"
  using assms by (simp add: collect_def)

lemma path_eq_refl [simp]: "path_eq p p"
  by (simp add: path_eq_def)

lemma one_item: "multi_error env p [(p, st)] w = Some (Inr \<lparr>rs_status = st, rs_headers = [], rs_body = BEmpty\<rparr>, w)"
  by (simp add: multi_error_def)

section \<open>DELETE\<close>

definition shallower :: "nat \<Rightarrow> fs_map \<Rightarrow> bytes list \<Rightarrow> bool" where
  "shallower n m p \<longleftrightarrow> (\<forall>ks. prefix p ks \<longrightarrow> m ks \<noteq> None \<longrightarrow> length ks < length p + n)"

lemma mem_delete_stream:
  fixes sv :: "(mem_fs, mem_file, mem_ls) server"
  assumes sv: "sv_fs sv = memfs_ops a" "sv_ls sv = Some memls_ops"
    and ok: "fs_ok (w_fs w)" "names_ok (fs_map (w_fs w))" "path_fits path" "wf_tree (ml_tree (w_ls w))"
    and p: "fs_map (w_fs w) (segs_of path) = Some nd" "segs_of path \<noteq> []" "shallower n (fs_map (w_fs w)) (segs_of path)"
  shows "\<exists>s l. delete_stream n sv DepthInfinity (as_dirent nd) path w =
      Some (Inr (), w\<lparr>w_fs := s, w_ls := l, w_items := w_items w @ [(path, 204)]\<rparr>) \<and>
    fs_ok s \<and> wf_tree (ml_tree l) \<and> lock_view l = unlocked (segs_of path) (lock_view (w_ls w)) \<and>
    fs_map s = touch (mf_clock (w_fs w)) (butlast (segs_of path)) (map_cut (segs_of path) (fs_map (w_fs w)))"
proof -
  from delete_items_ok [OF sv(1), unfolded removes_def, rule_format, OF ok(1-3) p(1,2)] p(3) [unfolded shallower_def]
  obtain s where s: "delete_items n sv DepthInfinity (as_dirent nd) path w = Some (Inr (), w\<lparr>w_fs := s\<rparr>)" "fs_ok s"
    "fs_map s = touch (mf_clock (w_fs w)) (butlast (segs_of path)) (map_cut (segs_of path) (fs_map (w_fs w)))" by blast
  from mem_unlock [OF sv(2), of "w\<lparr>w_fs := s\<rparr>" path] ok(4) obtain l where
    l: "unlock_path sv path (w\<lparr>w_fs := s\<rparr>) = Some (Inr (), w\<lparr>w_fs := s, w_ls := l\<rparr>)" "wf_tree (ml_tree l)"
      "lock_view l = unlocked (lock_segs path) (lock_view (w_ls w))" by auto
  show ?thesis
    using s l by (auto simp: delete_stream_def send_item_def segs_lock)
qed


text \<open>Some fuel is enough, since the tree is finite.\<close>

lemma fs_map_finite: "fs_ok s \<Longrightarrow> finite (dom (fs_map s))"
proof -
  assume "fs_ok s"
  then obtain d where d: "wf_rank (mf_tree s) d" using fs_ok_wf fs_wfE by blast
  let ?w = "\<lambda>ks. the (walk (mf_tree s) ROOT_ID ks)"
  have w: "\<exists>i. walk (mf_tree s) ROOT_ID ks = Some i" if "ks \<in> dom (fs_map s)" for ks
    using that tree_map_None_iff [OF d, of ks] by (auto simp: fs_map_def)
  have "inj_on ?w (dom (fs_map s))"
  proof (rule inj_onI)
    fix ks js
    assume "ks \<in> dom (fs_map s)" "js \<in> dom (fs_map s)" "?w ks = ?w js"
    with w [of ks] w [of js] obtain i where
      "walk (mf_tree s) ROOT_ID ks = Some i" "walk (mf_tree s) ROOT_ID js = Some i" by force
    then show "ks = js" using walk_inj_iff [OF d] by blast
  qed
  moreover have "?w ` dom (fs_map s) \<subseteq> dom (tr_nodes (mf_tree s))"
    using w walk_root_dom [OF d] by force
  ultimately show ?thesis using wf_finite [OF d] by (meson finite_imageD finite_subset)
qed

lemma shallower_exists: "fs_ok s \<Longrightarrow> \<exists>n0. \<forall>n \<ge> n0. shallower n (fs_map s) p"
proof -
  assume "fs_ok s"
  then have "finite (length ` dom (fs_map s))" using fs_map_finite by blast
  then obtain b where b: "\<And>x. x \<in> length ` dom (fs_map s) \<Longrightarrow> x < b"
    by (metis finite_nat_set_iff_bounded)
  have "shallower n (fs_map s) p" if "b \<le> n" for n
    unfolding shallower_def using b that by (metis domI imageI option.exhaust trans_less_add2 order.strict_trans2)
  then show ?thesis by blast
qed

lemma request_path_fits:
  assumes "from_uri_and_prefix dec u pfx = Inr p"
  shows "path_fits p"
  using assms
  by (auto simp: from_uri_and_prefix_def from_str_and_prefix_def set_prefix_def Let_def path_fits_def prefix_len_def
      starts_with_iff split: if_splits sum.splits)

lemma mem_meta_run:
  assumes "sv_fs sv = memfs_ops a" and "fs_ok (w_fs w)" and "fs_map (w_fs w) (segs_of p) = Some nd"
  shows "on_fs (fs_metadata (sv_fs sv) p) w = Some (Inr (as_dirent nd), w)"
    "on_fs (fs_symlink_metadata (sv_fs sv) p) w = Some (Inr (as_dirent nd), w)"
  using memfs_metadata_ok [OF assms(2), of p] assms(1,3) by (simp_all add: on_fs_def)

lemma mem_delete_at:
  fixes sv :: "(mem_fs, mem_file, mem_ls) server"
  assumes sv: "sv_fs sv = memfs_ops a" "sv_ls sv = Some memls_ops"
    and ok: "fs_ok (w_fs w)" "names_ok (fs_map (w_fs w))" "path_fits path" "wf_tree (ml_tree (w_ls w))"
    and p: "fs_map (w_fs w) (segs_of path) = Some nd" "segs_of path \<noteq> []" "shallower n (fs_map (w_fs w)) (segs_of path)"
    and rq: "header_values rq ''if'' = []" "http_if_match (sv_http sv) rq (Some (as_dirent nd)) = None"
    and may: "may_write (lock_view (w_ls w)) path (holds (sv_principal sv) False []) True"
  shows "\<exists>w'. delete_at n sv rq DepthInfinity (as_dirent nd) path w =
      Some (Inr \<lparr>rs_status = 204, rs_headers = [], rs_body = BEmpty\<rparr>, w') \<and>
    fs_ok (w_fs w') \<and> wf_tree (ml_tree (w_ls w')) \<and>
    lock_view (w_ls w') = unlocked (segs_of path) (lock_view (w_ls w)) \<and>
    fs_map (w_fs w') = touch (mf_clock (w_fs w)) (butlast (segs_of path)) (map_cut (segs_of path) (fs_map (w_fs w)))"
proof -
  from mem_check [OF sv(2) ok(4) may, of "Status 423"] obtain l where
    l: "check_locks sv path True [] (Status 423) w = Some (Inr (), w\<lparr>w_ls := l\<rparr>)" "wf_tree (ml_tree l)"
      "lock_view l = lock_view (w_ls w)" by blast
  let ?w1 = "w\<lparr>w_ls := l, w_items := []\<rparr>"
  from mem_delete_stream [OF sv, of ?w1 path nd n] ok(1-3) l(2) p obtain s l' where
    d: "delete_stream n sv DepthInfinity (as_dirent nd) path ?w1 =
        Some (Inr (), ?w1\<lparr>w_fs := s, w_ls := l', w_items := [(path, 204)]\<rparr>)" "fs_ok s" "wf_tree (ml_tree l')"
      "lock_view l' = unlocked (segs_of path) (lock_view l)"
      "fs_map s = touch (mf_clock (w_fs w)) (butlast (segs_of path)) (map_cut (segs_of path) (fs_map (w_fs w)))" by auto
  have "collect (delete_stream n sv DepthInfinity (as_dirent nd) path) (w\<lparr>w_ls := l\<rparr>) =
      Some (Inr [(path, 204)], w\<lparr>w_fs := s, w_ls := l', w_items := w_items w\<rparr>)"
    by (simp add: collect_def d(1))
  then have "delete_at n sv rq DepthInfinity (as_dirent nd) path w =
      Some (Inr \<lparr>rs_status = 204, rs_headers = [], rs_body = BEmpty\<rparr>, w\<lparr>w_fs := s, w_ls := l', w_items := w_items w\<rparr>)"
    using l(1) no_if_tokens [OF rq, of path w] by (simp add: delete_at_def one_item)
  with d(2-5) l(3) show ?thesis by auto
qed

lemma mem_handle_delete:
  fixes sv :: "(mem_fs, mem_file, mem_ls) server"
  assumes sv: "sv_fs sv = memfs_ops a" "sv_ls sv = Some memls_ops"
    and ok: "fs_ok (w_fs w)" "names_ok (fs_map (w_fs w))" "wf_tree (ml_tree (w_ls w))"
    and path: "from_uri_and_prefix (pct_decode (sv_http sv)) (rq_path rq) (sv_prefix sv) = Inr path" "shown sv path"
    and p: "fs_map (w_fs w) (segs_of path) = Some nd" "segs_of path \<noteq> []" "shallower n (fs_map (w_fs w)) (segs_of path)"
    and rq: "delete_depth rq = Inr DepthInfinity" "header_values rq ''if'' = []"
      "http_if_match (sv_http sv) rq (Some (as_dirent nd)) = None"
    and may: "may_write (lock_view (w_ls w)) path (holds (sv_principal sv) False []) True"
  shows "\<exists>w'. handle_delete n sv rq w = Some (Inr \<lparr>rs_status = 204, rs_headers = [], rs_body = BEmpty\<rparr>, w') \<and>
    fs_ok (w_fs w') \<and> wf_tree (ml_tree (w_ls w')) \<and>
    lock_view (w_ls w') = unlocked (segs_of path) (lock_view (w_ls w)) \<and>
    fs_map (w_fs w') = touch (mf_clock (w_fs w)) (butlast (segs_of path)) (map_cut (segs_of path) (fs_map (w_fs w)))"
proof -
  let ?p = "add_slash_if (node_is_dir nd) path"
  have way: "open_way (fs_map (w_fs w)) (segs_of path)" by (rule open_way_exists [OF ok(1)]) (simp add: p(1))
  note vis = mem_visible [OF sv(1) ok(1) way path(2)]
  note meta = mem_meta_run [OF sv(1) ok(1) p(1)]
  have fits: "path_fits ?p" using request_path_fits [OF path(1)] by simp
  have may': "may_write (lock_view (w_ls w)) ?p (holds (sv_principal sv) False []) True"
    using may may_write_segs [of ?p path] by simp
  from mem_delete_at [OF sv ok(1,2) fits ok(3) _ _ _ rq(2,3) may', of n] p show ?thesis
    using vis meta path(1) rq(1) by (simp add: handle_delete_def req_path_def fs_try_def)
qed

end
