(* ===== verification/Handle_Main.thy ===== *)
theory Handle_Main
  imports Mem_Handlers Mem_Ls_Main
begin

text \<open>
  The in-memory backends fulfil what the handlers need, so the guarantees of the guarded server hold
  for the server that runs on them: a locked resource is left alone by whoever does not hold the
  lock.
\<close>

interpretation memsrv: guarded_server memls_ops lock_view memls_ok "memfs_ops avail" for avail
  by unfold_locales (simp_all add: memfs_ops_def memfs_metadata_pure, simp add: fs_pure_def default_same_resource_def)

lemma mem_guarded: "sv_fs sv = memfs_ops avail \<Longrightarrow> sv_ls sv = Some memls_ops \<Longrightarrow> memsrv.guarded avail sv"
  by (simp add: memsrv.guarded_def)


lemma mem_bars:
  assumes "bars memls_ok lock_view (lock_view (w_ls w)) m" and "wf_tree (ml_tree (w_ls w))"
  shows "\<exists>e w'. m w = Some (Inl e, w') \<and> w_fs w' = w_fs w \<and> lock_view (w_ls w') = lock_view (w_ls w)"
  using barsE [OF assms(1) _ refl] assms(2) by (metis memls_ok_def)

section \<open>A server to run requests on\<close>

definition demo_env :: http_env where
  "demo_env = \<lparr>hv_to_str = Some, hv_from_str = Some, url_parse = (\<lambda>_. None), date_decode = (\<lambda>_. None),
     date_encode = (\<lambda>_. []), host_decode = (\<lambda>_. None), modified_since_decode = (\<lambda>_. None),
     unmodified_since_decode = (\<lambda>_. None), status_text = (\<lambda>_. []), content_length_decode = (\<lambda>_. None),
     content_range_decode = (\<lambda>_. None), pct_decode = (\<lambda>b. b), pct_encode = (\<lambda>_ b. b),
     xml_parse_all = (\<lambda>_. Inr [XElement (Elem None None None ''lockinfo'' []
        [XElement (Elem None None None ''lockscope'' [] [XElement (elem_new ''exclusive'')]),
         XElement (Elem None None None ''locktype'' [] [XElement (elem_new ''write'')])])]),
     calendar_parses = (\<lambda>_. True), vcard_parses = (\<lambda>_. True), xml_bytes = (\<lambda>_. []), el_get_text = (\<lambda>_. None),
     el_take_child = (\<lambda>_ _. None), rfc3339 = (\<lambda>_. []), mime_guess = (\<lambda>_. None), range_decode = (\<lambda>_. None)\<rparr>"

definition demo_server :: "bytes option \<Rightarrow> (mem_fs, mem_file, mem_ls) server" where
  "demo_server who = \<lparr>sv_http = demo_env, sv_prefix = [], sv_fs = memfs_ops 1000, sv_ls = Some memls_ops,
     sv_allow = None, sv_principal = who, sv_hide_symlinks = True, sv_allow_infinity_depth = False,
     sv_hide_dot_prefix = HideInAutoIndexListings, sv_autoindex = None, sv_probe = False, sv_indexfile = None,
     sv_read_buf_size = None, sv_redirect = None\<rparr>"

definition demo_request :: "bytes \<Rightarrow> bytes \<Rightarrow> (bytes \<times> bytes) list \<Rightarrow> request" where
  "demo_request method path hs = \<lparr>rq_method = method, rq_scheme = None, rq_host = None, rq_port = None,
     rq_path = path, rq_headers = hs\<rparr>"

definition demo_world :: "(mem_fs, mem_ls) world" where
  "demo_world = \<lparr>w_fs = fs_demo, w_ls = demo_ls, w_items = []\<rparr>"

lemma demo_server_simps [simp]:
  "sv_http (demo_server who) = demo_env" "sv_prefix (demo_server who) = []"
  "sv_fs (demo_server who) = memfs_ops 1000" "sv_ls (demo_server who) = Some memls_ops"
  "sv_principal (demo_server who) = who"
  by (simp_all add: demo_server_def)

definition req_ab :: dav_path where "req_ab = \<lparr>fullpath = ''/a/b'', pfxlen = Some 0\<rparr>"
definition req_g :: dav_path where "req_g = \<lparr>fullpath = ''/g'', pfxlen = Some 0\<rparr>"

lemma demo_path: "from_uri_and_prefix (pct_decode demo_env) ''/a/b'' [] = Inr req_ab"
  "from_uri_and_prefix (pct_decode demo_env) ''/g'' [] = Inr req_g"
  by code_simp+

lemma demo_wf: "wf_tree (ml_tree demo_ls)"
  using ml_reach_inv [OF demo_reach demo_uuid_inj] by (simp add: ml_inv_def)

lemma demo_covering_req: "covering (lock_view demo_ls) req_ab = [demo_lock]"
  using covering_segs [of req_ab demo_ab] demo_covering
  by (simp add: lock_segs_def req_ab_def demo_ab_def as_bytes_def prefix_len_def)

lemma demo_barred: "\<not> may_write (lock_view demo_ls) req_ab (holds (Some ''ann'') False toks) deep"
  by (simp add: may_write_def holds_def demo_covering_req)

lemma demo_submitted: "header_values rq ''if'' = [] \<Longrightarrow> submitted env rq = []"
  by (simp add: submitted_def typed_get_def)

section \<open>Properties\<close>

text \<open>C6: a \<^verbatim>\<open>DELETE\<close> by someone who may not write the resource and all below it, by the locks in force,
  returns an error, and neither the filesystem nor the locks in force change.\<close>

theorem delete_locked:
  assumes "sv_fs sv = memfs_ops avail" and "sv_ls sv = Some memls_ops" and "wf_tree (ml_tree (w_ls w))"
    and "from_uri_and_prefix (pct_decode (sv_http sv)) (rq_path rq) (sv_prefix sv) = Inr path"
    and "\<not> may_write (lock_view (w_ls w)) path (holds (sv_principal sv) False (submitted (sv_http sv) rq)) True"
  shows "\<exists>e w'. handle_delete n sv rq w = Some (Inl e, w') \<and> w_fs w' = w_fs w \<and>
    lock_view (w_ls w') = lock_view (w_ls w)"
  by (rule mem_bars [OF memsrv.bars_delete [OF mem_guarded [OF assms(1,2)] assms(4,5)] assms(3)])

lemma delete_locked_witness:
  "\<exists>e w'. handle_delete 9 (demo_server (Some ''ann'')) (demo_request ''DELETE'' ''/a/b'' []) demo_world = Some (Inl e, w') \<and>
     w_fs w' = fs_demo \<and> lock_view (w_ls w') = lock_view demo_ls"
  using delete_locked [of "demo_server (Some ''ann'')" 1000 demo_world "demo_request ''DELETE'' ''/a/b'' []" req_ab 9]
  by (simp add: demo_world_def demo_request_def demo_path demo_wf demo_barred)

text \<open>C7: a \<^verbatim>\<open>PUT\<close> or \<^verbatim>\<open>PATCH\<close> by someone who may not write the resource, by the locks in force, returns an
  error, and neither the filesystem nor the locks in force change.\<close>

theorem put_locked:
  assumes "sv_fs sv = memfs_ops avail" and "sv_ls sv = Some memls_ops" and "wf_tree (ml_tree (w_ls w))"
    and "from_uri_and_prefix (pct_decode (sv_http sv)) (rq_path rq) (sv_prefix sv) = Inr path"
    and "\<not> may_write (lock_view (w_ls w)) path (holds (sv_principal sv) False (submitted (sv_http sv) rq)) False"
  shows "\<exists>e w'. handle_put sv rq body w = Some (Inl e, w') \<and> w_fs w' = w_fs w \<and>
    lock_view (w_ls w') = lock_view (w_ls w)"
  by (rule mem_bars [OF memsrv.bars_put [OF mem_guarded [OF assms(1,2)] assms(4,5)] assms(3)])

lemma put_locked_witness:
  "\<exists>e w'. handle_put (demo_server (Some ''ann'')) (demo_request ''PUT'' ''/a/b'' []) [FBytes ''x''] demo_world = Some (Inl e, w') \<and>
     w_fs w' = fs_demo \<and> lock_view (w_ls w') = lock_view demo_ls"
  using put_locked [of "demo_server (Some ''ann'')" 1000 demo_world "demo_request ''PUT'' ''/a/b'' []" req_ab "[FBytes ''x'']"]
  by (simp add: demo_world_def demo_request_def demo_path demo_wf demo_barred)

text \<open>C8: a \<^verbatim>\<open>COPY\<close> or \<^verbatim>\<open>MOVE\<close> by someone who may not write the destination and all below it, or a \<^verbatim>\<open>MOVE\<close>
  by someone who may not write the source and all below it, returns an error, and neither the
  filesystem nor the locks in force change.\<close>

theorem copymove_locked:
  assumes "sv_fs sv = memfs_ops avail" and "sv_ls sv = Some memls_ops" and "wf_tree (ml_tree (w_ls w))"
    and "from_uri_and_prefix (pct_decode (sv_http sv)) (rq_path rq) (sv_prefix sv) = Inr path"
    and "copymove_dest sv rq = Inr dest"
    and "(method = MMove \<and>
          \<not> may_write (lock_view (w_ls w)) path (holds (sv_principal sv) False (submitted (sv_http sv) rq)) True)
         \<or> \<not> may_write (lock_view (w_ls w)) dest (holds (sv_principal sv) False (submitted (sv_http sv) rq)) True"
  shows "\<exists>e w'. handle_copymove n sv rq method w = Some (Inl e, w') \<and> w_fs w' = w_fs w \<and>
    lock_view (w_ls w') = lock_view (w_ls w)"
  by (rule mem_bars [OF memsrv.bars_copymove [OF mem_guarded [OF assms(1,2)] assms(4,5,6)] assms(3)])

lemma demo_dest: "copymove_dest (demo_server who) (demo_request ''COPY'' ''/g'' [(''destination'', ''/a/b'')]) = Inr req_ab"
  by code_simp

lemma copymove_locked_witness:
  "\<exists>e w'. handle_copymove 9 (demo_server (Some ''ann'')) (demo_request ''COPY'' ''/g'' [(''destination'', ''/a/b'')]) MCopy demo_world
      = Some (Inl e, w') \<and> w_fs w' = fs_demo \<and> lock_view (w_ls w') = lock_view demo_ls"
  using copymove_locked [of "demo_server (Some ''ann'')" 1000 demo_world
      "demo_request ''COPY'' ''/g'' [(''destination'', ''/a/b'')]" req_g req_ab MCopy 9] demo_dest [of "Some ''ann''"]
  by (simp add: demo_world_def demo_request_def demo_path demo_wf demo_barred)


text \<open>C9: a \<^verbatim>\<open>LOCK\<close> that conflicts with the locks in force returns an error, and neither the filesystem
  nor the locks in force change.\<close>

theorem lock_conflict:
  assumes "sv_fs sv = memfs_ops avail" and "sv_ls sv = Some memls_ops" and "wf_tree (ml_tree (w_ls w))"
    and "from_uri_and_prefix (pct_decode (sv_http sv)) (rq_path rq) (sv_prefix sv) = Inr path"
    and "xmldata \<noteq> []" and "lock_depth rq = Inr deep"
    and "parse_lockinfo (sv_http sv) xmldata = Inr (shared, owner)"
    and "\<not> free_for (lock_view (w_ls w)) path shared deep"
  shows "\<exists>e w'. handle_lock sv rq xmldata w = Some (Inl e, w') \<and> w_fs w' = w_fs w \<and>
    lock_view (w_ls w') = lock_view (w_ls w)"
  by (rule mem_bars [OF memsrv.bars_lock [OF mem_guarded [OF assms(1,2)] assms(4-8)] assms(3)])

lemma demo_lockinfo: "parse_lockinfo demo_env ''x'' = Inr (False, None)"
  by code_simp

lemma demo_depth: "lock_depth (demo_request me p []) = Inr True"
  by (simp add: lock_depth_def typed_get_def header_values_def demo_request_def)

lemma lock_conflict_witness:
  "\<exists>e w'. handle_lock (demo_server (Some ''ann'')) (demo_request ''LOCK'' ''/a/b'' []) ''x'' demo_world = Some (Inl e, w') \<and>
     w_fs w' = fs_demo \<and> lock_view (w_ls w') = lock_view demo_ls"
  using lock_conflict [of "demo_server (Some ''ann'')" 1000 demo_world "demo_request ''LOCK'' ''/a/b'' []" req_ab "''x''"
      True False None] demo_depth [of "''LOCK''" "''/a/b''"]
  by (simp add: demo_world_def demo_request_def demo_path demo_wf demo_lockinfo free_for_def demo_covering_req)

text \<open>C1: once \<^verbatim>\<open>LOCK\<close> has granted an exclusive lock with a time-out that is not zero, a \<^verbatim>\<open>PUT\<close> or \<^verbatim>\<open>DELETE\<close>
  at the locked path, or below it when the lock is deep, that does not hold the lock returns an
  error and leaves filesystem and locks as they are.  The token of the lock is in the response.\<close>

theorem lock_then_write:
  assumes "sv_fs sv = memfs_ops avail" and "sv_ls sv = Some memls_ops" and "wf_tree (ml_tree (w_ls w))"
    and "from_uri_and_prefix (pct_decode (sv_http sv)) (rq_path rq) (sv_prefix sv) = Inr path"
    and "xmldata \<noteq> []" and "lock_depth rq = Inr deep"
    and "parse_lockinfo (sv_http sv) xmldata = Inr (False, owner)"
    and "get_timeout (sv_http sv) rq False False \<noteq> Some 0"
    and "handle_lock sv rq xmldata w = Some (Inr res, w1)"
  shows "\<exists>tok. map_of (rs_headers res) ''lock-token'' = Some (''<'' @ tok @ ''>'') \<and>
    (\<forall>sv2 rq2 path2 n body. sv_fs sv2 = memfs_ops avail \<longrightarrow> sv_ls sv2 = Some memls_ops \<longrightarrow>
      from_uri_and_prefix (pct_decode (sv_http sv2)) (rq_path rq2) (sv_prefix sv2) = Inr path2 \<longrightarrow>
      lock_segs path2 = lock_segs path \<or> deep \<and> prefix (lock_segs path) (lock_segs path2) \<longrightarrow>
      tok \<notin> set (submitted (sv_http sv2) rq2) \<or> sv_principal sv2 \<noteq> sv_principal sv \<longrightarrow>
      (\<exists>e w'. handle_put sv2 rq2 body w1 = Some (Inl e, w') \<and> w_fs w' = w_fs w1 \<and>
         lock_view (w_ls w') = lock_view (w_ls w1)) \<and>
      (\<exists>e w'. handle_delete n sv2 rq2 w1 = Some (Inl e, w') \<and> w_fs w' = w_fs w1 \<and>
         lock_view (w_ls w') = lock_view (w_ls w1)))"
proof -
  from memsrv.lock_success [OF mem_guarded [OF assms(1,2)] _ assms(4-9)] assms(3) obtain l where
    i: "memls_ok (w_ls w1)" and l: "lk_principal l = sv_principal sv" "\<not> lk_shared l" "lk_deep l = deep"
      "map_of (rs_headers res) ''lock-token'' = Some (''<'' @ lk_token l @ ''>'')"
    and v: "lock_view (w_ls w1) = (lock_view (w_ls w))(lock_segs path := lock_view (w_ls w) (lock_segs path) @ [l])"
    by (auto simp: memls_ok_def)
  have no: "\<not> may_write (lock_view (w_ls w1)) path2 (holds (sv_principal sv2) False toks) dp"
    if "lock_segs path2 = lock_segs path \<or> deep \<and> prefix (lock_segs path) (lock_segs path2)"
      "lk_token l \<notin> set toks \<or> sv_principal sv2 \<noteq> sv_principal sv" for path2 toks dp and sv2 :: "(mem_fs, mem_file, mem_ls) server"
    using that l(1,3) by (intro memsrv.exclusive_bars_write [OF v l(2)]) (auto simp: holds_def)
  have wf: "wf_tree (ml_tree (w_ls w1))" using i by (simp add: memls_ok_def)
  show ?thesis
    by (intro exI [of _ "lk_token l"] conjI allI impI l(4) mem_bars [OF memsrv.bars_put wf]
        mem_bars [OF memsrv.bars_delete wf] mem_guarded no)
qed


definition demo_world0 :: "(mem_fs, mem_ls) world" where
  "demo_world0 = \<lparr>w_fs = fs_demo0, w_ls = demo_ls0, w_items = []\<rparr>"

definition req_root :: dav_path where "req_root = \<lparr>fullpath = ''/'', pfxlen = Some 0\<rparr>"

lemma demo_path_root: "from_uri_and_prefix (pct_decode demo_env) ''/'' [] = Inr req_root"
  by code_simp

lemma demo_root_facts: "segs_of req_root = []" "shown (demo_server who) req_root" "is_collection req_root"
proof -
  show "segs_of req_root = []" by (simp add: segs_of_def req_root_def as_bytes_def prefix_len_def)
  show "shown (demo_server who) req_root" by (simp add: shown_def demo_server_def req_root_def as_bytes_def prefix_len_def is_collection_marker_def
        eq_ignore_ascii_case_def)
  show "is_collection req_root" by (simp add: is_collection_def req_root_def as_bytes_def prefix_len_def ends_with_def)
qed

lemma demo_no_headers: "typed_get (demo_request me p []) n d = None"
  by (simp add: typed_get_def header_values_def demo_request_def)

lemma demo_lock_run:
  "\<exists>res w1. handle_lock (demo_server (Some ''joe'')) (demo_request ''LOCK'' ''/'' []) ''x'' demo_world0 = Some (Inr res, w1)"
proof -
  let ?sv = "demo_server (Some ''joe'')" and ?rq = "demo_request ''LOCK'' ''/'' []"
  have ok: "fs_ok (w_fs demo_world0)" "fs_map (w_fs demo_world0) (segs_of req_root) = Some (new_dir 7)"
    by (simp_all add: demo_world0_def fs_demo0_def memfs_new_ok demo_root_facts)
  have sv: "sv_fs ?sv = memfs_ops 1000" by simp
  have way: "open_way (fs_map (w_fs demo_world0)) (segs_of req_root)"
    by (simp add: open_way_def demo_root_facts)
  note vis = mem_visible [OF sv ok(1) way demo_root_facts(2)]
  note meta = mem_meta_run(1) [OF sv ok]
  have target: "lock_target ?sv req_root demo_world0 = Some (Inr (Some (as_dirent (new_dir 7)), response_new, req_root), demo_world0)"
    using meta by (simp add: lock_target_def fixpath_def demo_root_facts)
  have wf: "wf_tree (ml_tree demo_ls0)" using demo_ls0_facts(3) by (simp add: memls_ok_def)
  have "free_for (lock_view demo_ls0) req_root False True"
    using demo_root_facts(1) by (simp add: free_for_def covering_def demo_ls0_facts(2) segs_lock)
  with memls_lock_ok [OF wf, of req_root "Some ''joe''" None None False True] obtain l s where
    "memls_lock req_root (Some ''joe'') None None False True demo_ls0 = Some (Inr l, s)" by auto
  then have lk: "on_ls (ls_lock memls_ops req_root (Some ''joe'') None None False True) demo_world0 = Some (Inr l, demo_world0\<lparr>w_ls := s\<rparr>)"
    by (simp add: on_ls_def demo_world0_def memls_ops_def)
  have cond: "if_match ?sv ?rq m p w = Some (Inr None, w)" for m p w
    by (simp add: if_match_def dav_if_match_def http_if_match_def demo_no_headers)
  have tmo: "get_timeout demo_env ?rq False False = None" by (simp add: get_timeout_def demo_no_headers)
  show ?thesis
    using vis target lk
    by (simp add: handle_lock_def req_path_def demo_request_def [of _ _ "[]"] demo_path_root lock_at_def cond [unfolded demo_request_def]
        demo_depth [unfolded demo_request_def] demo_lockinfo tmo [unfolded demo_request_def] lock_finish_def)
qed

lemma lock_then_write_witness:
  "\<exists>res w1 tok. handle_lock (demo_server (Some ''joe'')) (demo_request ''LOCK'' ''/'' []) ''x'' demo_world0 = Some (Inr res, w1) \<and>
     map_of (rs_headers res) ''lock-token'' = Some (''<'' @ tok @ ''>'') \<and>
     (\<exists>e w'. handle_put (demo_server (Some ''ann'')) (demo_request ''PUT'' ''/a/b'' []) [FBytes ''x''] w1 = Some (Inl e, w') \<and>
        w_fs w' = w_fs w1 \<and> lock_view (w_ls w') = lock_view (w_ls w1))"
proof -
  obtain res w1 where run: "handle_lock (demo_server (Some ''joe'')) (demo_request ''LOCK'' ''/'' []) ''x'' demo_world0 = Some (Inr res, w1)"
    using demo_lock_run by blast
  have tmo: "get_timeout demo_env (demo_request ''LOCK'' ''/'' []) False False \<noteq> Some 0"
    by (simp add: get_timeout_def demo_no_headers)
  have wf: "wf_tree (ml_tree (w_ls demo_world0))" using demo_ls0_facts(3) by (simp add: demo_world0_def memls_ok_def)
  have root: "lock_segs req_root = []" using demo_root_facts(1) by (simp add: segs_lock)
  from lock_then_write [of "demo_server (Some ''joe'')" 1000 demo_world0 "demo_request ''LOCK'' ''/'' []" req_root "''x''" True None res w1]
  obtain tok where tok: "map_of (rs_headers res) ''lock-token'' = Some (''<'' @ tok @ ''>'')"
    and all: "\<And>sv2 rq2 path2 body. sv_fs sv2 = memfs_ops 1000 \<Longrightarrow> sv_ls sv2 = Some memls_ops \<Longrightarrow>
      from_uri_and_prefix (pct_decode (sv_http sv2)) (rq_path rq2) (sv_prefix sv2) = Inr path2 \<Longrightarrow>
      tok \<notin> set (submitted (sv_http sv2) rq2) \<or> sv_principal sv2 \<noteq> Some ''joe'' \<Longrightarrow>
      (\<exists>e w'. handle_put sv2 rq2 body w1 = Some (Inl e, w') \<and> w_fs w' = w_fs w1 \<and>
         lock_view (w_ls w') = lock_view (w_ls w1))"
    using run tmo wf demo_path_root demo_depth [of "''LOCK''" "''/''"] demo_lockinfo
    by (auto simp: root demo_request_def)
  show ?thesis
    using run tok all [of "demo_server (Some ''ann'')" "demo_request ''PUT'' ''/a/b'' []" req_ab "[FBytes ''x'']"]
    by (auto simp: demo_path demo_request_def)
qed

end
