(* ===== verification/Prop_Patch.thy ===== *)
theory Prop_Patch
  imports Multi_Error Handle_Delete
begin

text \<open>
  Changing properties, from \<^verbatim>\<open>src/handle_props.rs\<close>: live properties, \<^verbatim>\<open>PROPPATCH\<close>, and the properties
  that the body of \<^verbatim>\<open>MKCOL\<close> sets.
\<close>

section \<open>Elements and properties\<close>

definition NS_APACHE :: bytes where "NS_APACHE = ''http://apache.org/dav/props/''"
definition NS_DAV :: bytes where "NS_DAV = ''DAV:''"
definition NS_MS :: bytes where "NS_MS = ''urn:schemas-microsoft-com:''"
definition NS_NEXTCLOUD :: bytes where "NS_NEXTCLOUD = ''http://nextcloud.org/ns''"
definition NS_OWNCLOUD :: bytes where "NS_OWNCLOUD = ''http://owncloud.org/ns''"

definition element_to_davprop :: "xml_elem \<Rightarrow> dav_prop" where
  "element_to_davprop e = \<lparr>pr_name = el_name e, pr_prefix = el_prefix e, pr_ns = el_ns e, pr_xml = None\<rparr>"

definition element_to_davprop_full :: "http_env \<Rightarrow> xml_elem \<Rightarrow> dav_prop" where
  "element_to_davprop_full env e =
     \<lparr>pr_name = el_name e, pr_prefix = el_prefix e, pr_ns = el_ns e, pr_xml = Some (xml_bytes env (write_ev e))\<rparr>"

fun set_el_prefix_ns :: "bytes option \<Rightarrow> bytes option \<Rightarrow> xml_elem \<Rightarrow> xml_elem" where
  "set_el_prefix_ns pfx ns (Elem _ _ nss name attrs ch) = Elem pfx ns nss name attrs ch"

definition plain_element :: "dav_prop \<Rightarrow> xml_elem" where
  "plain_element p =
     (let e = elem_new (pr_name p);
          e1 = (case pr_ns p of
                  Some ns \<Rightarrow> elem_with_ns (case pr_prefix p of Some pfx \<Rightarrow> pfx | None \<Rightarrow> []) ns e
                | None \<Rightarrow> e)
      in set_el_prefix_ns (pr_prefix p) (pr_ns p) e1)"

definition davprop_to_element :: "http_env \<Rightarrow> dav_prop \<Rightarrow> xml_elem" where
  "davprop_to_element env p =
     (case pr_xml p of
        Some x \<Rightarrow> (case parse2 (xml_parse_all env) x of Inr e \<Rightarrow> e | Inl _ \<Rightarrow> plain_element p)
      | None \<Rightarrow> plain_element p)"

text \<open>The results grouped by status, in the order in which the statuses first appear.\<close>

definition add_sc_elem :: "(status \<times> xml_elem list) list \<Rightarrow> status \<Rightarrow> xml_elem \<Rightarrow> (status \<times> xml_elem list) list" where
  "add_sc_elem hm sc e =
     AList.update sc ((case map_of hm sc of Some v \<Rightarrow> v | None \<Rightarrow> []) @ [e]) hm"

section \<open>Live properties\<close>

text \<open>The value of a property that must be plain text.\<close>

definition not_plain :: "http_env \<Rightarrow> xml_elem \<Rightarrow> bool" where
  "not_plain env e \<longleftrightarrow> el_get_text env e = None \<or> has_child_elems e"

definition liveprop_set :: "http_env \<Rightarrow> xml_elem \<Rightarrow> bool \<Rightarrow> status" where
  "liveprop_set env prop can_deadprop =
     (if is_protected_type_marker (element_to_davprop prop) then 403
      else if el_ns prop = Some NS_DAV then
        (if el_name prop = ''getcontentlanguage'' then
           (if not_plain env prop then 409
            else if (case el_get_text env prop of Some s \<Rightarrow> \<not> valid_content_language env s | None \<Rightarrow> False) then 409
            else if can_deadprop then 100 else 403)
         else if el_name prop = ''displayname'' then
           (if not_plain env prop then 409 else if can_deadprop then 100 else 403)
         else if el_name prop = ''getlastmodified'' then (if not_plain env prop then 409 else 403)
         else 403)
      else if el_ns prop = Some NS_APACHE then
        (if el_name prop = ''executable'' then (if not_plain env prop then 409 else 403) else 403)
      else if el_ns prop = Some NS_MS then
        (if el_name prop \<in> {''Win32CreationTime'', ''Win32FileAttributes'', ''Win32LastAccessTime''}
         then (if not_plain env prop then 409 else 200) else 403)
      else 100)"

definition liveprop_remove :: "xml_elem \<Rightarrow> bool \<Rightarrow> status" where
  "liveprop_remove prop can_deadprop =
     (if is_protected_type_marker (element_to_davprop prop) then 403
      else if el_ns prop = Some NS_DAV then
        (if el_name prop \<in> {''getcontentlanguage'', ''displayname''} then (if can_deadprop then 100 else 403) else 403)
      else if el_ns prop = Some NS_APACHE \<or> el_ns prop = Some NS_MS then 403
      else 100)"

text \<open>\<^verbatim>\<open>httpdate_to_systemtime\<close> and \<^verbatim>\<open>systemtime_to_httpdate\<close> of \<^verbatim>\<open>src/util.rs\<close>.\<close>

definition httpdate_to_systemtime :: "http_env \<Rightarrow> bytes \<Rightarrow> systime option" where
  "httpdate_to_systemtime env s = Option.bind (hv_from_str env (str_trim s)) (\<lambda>v. date_decode env [v])"

definition systemtime_to_httpdate :: "http_env \<Rightarrow> systime \<Rightarrow> bytes" where
  "systemtime_to_httpdate env t = date_encode env t"

definition apply_win32_last_modified :: "('s, 'h, 'l) server \<Rightarrow> dav_path \<Rightarrow> xml_elem \<Rightarrow> ('s, 'l, status) handler" where
  "apply_win32_last_modified sv path prop =
     (case el_get_text (sv_http sv) prop of
        None \<Rightarrow> ok 409
      | Some text \<Rightarrow>
          if has_child_elems prop then ok 409
          else (case httpdate_to_systemtime (sv_http sv) (str_trim text) of
                  None \<Rightarrow> ok 409
                | Some tm \<Rightarrow> bind (attempt (on_fs (fs_set_modified (sv_fs sv) path tm))) (\<lambda>_. ok 200)))"

text \<open>\<^verbatim>\<open>have_props\<close> of the filesystem, which always answers.\<close>

definition have_props :: "('s, 'h, 'l) server \<Rightarrow> dav_path \<Rightarrow> ('s, 'l, bool) handler" where
  "have_props sv path =
     on_fs (\<lambda>s. case fs_have_props (sv_fs sv) path s of None \<Rightarrow> None | Some (b, s') \<Rightarrow> Some (Inr b, s'))"

section \<open>PROPPATCH\<close>

text \<open>The properties named in the document, each with the operation of the element around it.\<close>

definition props_in :: "xml_elem \<Rightarrow> xml_elem list" where
  "props_in e = concat (map child_elems (filter (\<lambda>e. el_name e = ''prop'') (child_elems e)))"

definition proppatch_updates :: "xml_elem \<Rightarrow> (bytes \<times> xml_elem) list" where
  "proppatch_updates tree = concat (map (\<lambda>e. map (Pair (el_name e)) (props_in e)) (child_elems tree))"

text \<open>The walk: what is left for the property store, and the statuses settled so far.\<close>

fun proppatch_loop :: "('s, 'h, 'l) server \<Rightarrow> dav_path \<Rightarrow> bool \<Rightarrow> (bytes \<times> xml_elem) list \<Rightarrow> (bool \<times> dav_prop) list \<Rightarrow>
    (status \<times> dav_prop) list \<Rightarrow> ('s, 'l, (bool \<times> dav_prop) list \<times> (status \<times> dav_prop) list) handler" where
  "proppatch_loop sv path can [] patch ret = ok (patch, ret)"
| "proppatch_loop sv path can ((op, n) # us) patch ret =
     (if op = ''set'' then
        (if el_ns n = Some NS_MS \<and> el_name n = ''Win32LastModifiedTime'' then
           bind (apply_win32_last_modified sv path n)
             (\<lambda>s. proppatch_loop sv path can us patch (ret @ [(s, element_to_davprop n)]))
         else
           (let s = liveprop_set (sv_http sv) n can
            in if s = 100 then proppatch_loop sv path can us (patch @ [(True, element_to_davprop_full (sv_http sv) n)]) ret
               else proppatch_loop sv path can us patch (ret @ [(s, element_to_davprop n)])))
      else if op = ''remove'' then
        (let s = liveprop_remove n can
         in if s = 100 then proppatch_loop sv path can us (patch @ [(False, element_to_davprop n)]) ret
            else proppatch_loop sv path can us patch (ret @ [(s, element_to_davprop n)]))
      else proppatch_loop sv path can us patch ret)"

text \<open>When anything failed, everything that had not failed is \<^verbatim>\<open>424 Failed Dependency\<close>.\<close>

definition fail_rest :: "(bool \<times> dav_prop) list \<Rightarrow> (status \<times> dav_prop) list \<Rightarrow> (status \<times> dav_prop) list" where
  "fail_rest patch ret =
     map (\<lambda>(s, p). if s = 200 then (424, p) else (s, p)) ret @ map (\<lambda>(_, p). (424, p)) patch"

definition proppatch_apply :: "('s, 'h, 'l) server \<Rightarrow> dav_path \<Rightarrow> (bool \<times> dav_prop) list \<Rightarrow> (status \<times> dav_prop) list \<Rightarrow>
    ('s, 'l, (status \<times> dav_prop) list) handler" where
  "proppatch_apply sv path patch ret =
     (if list_ex (\<lambda>(s, _). s \<noteq> 200) ret then ok (fail_rest patch ret)
      else if patch \<noteq> [] then
        bind (fs_try (fs_patch_props (sv_fs sv) path patch)) (\<lambda>deadret. ok (ret @ deadret))
      else ok ret)"

definition group_by_status :: "http_env \<Rightarrow> (status \<times> dav_prop) list \<Rightarrow> (status \<times> xml_elem list) list" where
  "group_by_status env ret = fold (\<lambda>(code, p) hm. add_sc_elem hm code (davprop_to_element env p)) ret []"

section \<open>Property responses\<close>

text \<open>\<^verbatim>\<open>write_propresponse\<close>: one \<^verbatim>\<open>propstat\<close> for each status, in ascending order.\<close>

definition write_propstat :: "http_env \<Rightarrow> status \<Rightarrow> xml_elem list \<Rightarrow> xml_event list" where
  "write_propstat env st v =
     [EvStart (Some ''D'') None ''propstat'' [] [], EvStart (Some ''D'') None ''prop'' [] []]
     @ concat (map write_ev v) @ [EvEnd ''prop'']
     @ write_ev (elem_text (''HTTP/1.1 '' @ status_text env st) (new2 ''D:status'')) @ [EvEnd ''propstat'']"

definition write_propresponse :: "http_env \<Rightarrow> dav_path \<Rightarrow> (status \<times> xml_elem list) list \<Rightarrow> xml_event list" where
  "write_propresponse env path props =
     [EvStart (Some ''D'') None ''response'' [] []]
     @ write_ev (elem_text (as_url_string_with_prefix (pct_encode env) path) (new2 ''D:href''))
     @ concat (map (\<lambda>st. write_propstat env st (case map_of props st of Some v \<Rightarrow> v | None \<Rightarrow> [])) (sort (map fst props)))
     @ [EvEnd ''response'']"

text \<open>The document of a \<^verbatim>\<open>PROPPATCH\<close> answer: the writer is made for the name \<^verbatim>\<open>propertyupdate\<close>, with no
  properties and only the \<^verbatim>\<open>DAV:\<close> namespace.\<close>

definition proppatch_events :: "http_env \<Rightarrow> dav_path \<Rightarrow> (status \<times> xml_elem list) list \<Rightarrow> xml_event list" where
  "proppatch_events env path hm =
     [EvStart (Some ''D'') None ''multistatus'' [] [(''D'', NS_DAV)]]
     @ write_propresponse env path hm @ [EvEnd ''multistatus'']"

definition multistatus_response :: "xml_event list \<Rightarrow> response \<Rightarrow> response" where
  "multistatus_response evs res =
     (set_header ''content-type'' ''application/xml; charset=utf-8'' res)\<lparr>rs_status := 207, rs_body := BXml evs\<rparr>"

definition proppatch_at :: "('s, 'h, 'l) server \<Rightarrow> response \<Rightarrow> dav_path \<Rightarrow> bytes \<Rightarrow> ('s, 'l, response) handler" where
  "proppatch_at sv res path xmldata =
     (case parse2 (xml_parse_all (sv_http sv)) xmldata of
        Inl e \<Rightarrow> fail e
      | Inr tree \<Rightarrow>
          if el_name tree \<noteq> ''propertyupdate'' then fail XmlParseError
          else
            bind (have_props sv path) (\<lambda>can.
            bind (proppatch_loop sv path can (proppatch_updates tree) [] []) (\<lambda>(patch, ret).
            bind (proppatch_apply sv path patch ret) (\<lambda>ret1.
              ok (multistatus_response (proppatch_events (sv_http sv) path (group_by_status (sv_http sv) ret1)) res)))))"

definition handle_proppatch :: "('s, 'h, 'l) server \<Rightarrow> request \<Rightarrow> bytes \<Rightarrow> ('s, 'l, response) handler" where
  "handle_proppatch sv rq xmldata =
     req_path sv rq (\<lambda>path0.
     bind (ensure_visible sv path0) (\<lambda>_.
     bind (fs_try (fs_metadata (sv_fs sv) path0)) (\<lambda>meta.
       let (res, path) = fixpath sv response_new path0 meta
       in bind (map_err Status (if_match_get_tokens sv rq (Some meta) path)) (\<lambda>tokens.
          bind (check_locks sv path False tokens (Status 423)) (\<lambda>_.
            proppatch_at sv res path xmldata)))))"

section \<open>Properties set by MKCOL\<close>

text \<open>\<^verbatim>\<open>resourcetype\<close> and the type markers are not stored as properties.\<close>

definition settable_props :: "xml_elem \<Rightarrow> xml_elem list" where
  "settable_props tree =
     filter (\<lambda>n. \<not> is_protected_type_marker (element_to_davprop n))
       (filter (\<lambda>n. el_name n \<noteq> ''resourcetype'')
         (concat (map props_in (filter (\<lambda>e. el_name e = ''set'') (child_elems tree)))))"

fun set_props_loop :: "http_env \<Rightarrow> bool \<Rightarrow> xml_elem list \<Rightarrow> (bool \<times> dav_prop) list \<Rightarrow> dav_error + (bool \<times> dav_prop) list" where
  "set_props_loop env can [] patch = Inr patch"
| "set_props_loop env can (n # ns) patch =
     (let s = liveprop_set env n can
      in if s = 100 \<and> can then set_props_loop env can ns (patch @ [(True, element_to_davprop_full env n)])
         else if s = 100 then Inl (Status 403)
         else if s = 200 then set_props_loop env can ns patch
         else Inl (Status s))"

definition apply_set_props :: "('s, 'h, 'l) server \<Rightarrow> dav_path \<Rightarrow> xml_elem \<Rightarrow> ('s, 'l, unit) handler" where
  "apply_set_props sv path tree =
     bind (have_props sv path) (\<lambda>can.
       case set_props_loop (sv_http sv) can (settable_props tree) [] of
         Inl e \<Rightarrow> fail e
       | Inr patch \<Rightarrow>
           if patch = [] then ok ()
           else bind (fs_try (fs_patch_props (sv_fs sv) path patch)) (\<lambda>results.
                  case find (\<lambda>(st, _). \<not> is_success st) results of
                    Some (st, _) \<Rightarrow> fail (Status st)
                  | None \<Rightarrow> ok ()))"

end
