(* ===== verification/Handle_Mkcol.thy ===== *)
theory Handle_Mkcol
  imports Prop_Patch
begin

text \<open>
  \<^verbatim>\<open>MKCOL\<close>, plain and extended, \<^verbatim>\<open>src/handle_mkcol.rs\<close>, and \<^verbatim>\<open>OPTIONS\<close>, \<^verbatim>\<open>src/handle_options.rs\<close>.
\<close>

section \<open>MKCOL\<close>

text \<open>Undoes the creation of a collection; every failure on the way is only logged.\<close>

definition try_remove_marker :: "('s, 'h, 'l) server \<Rightarrow> dav_path \<Rightarrow> bytes \<Rightarrow> ('s, 'l, unit) handler" where
  "try_remove_marker sv path name =
     bind (attempt (on_fs (fs_remove_file (sv_fs sv) (push_segment name path)))) (\<lambda>_. ok ())"

definition rollback_created_collection :: "('s, 'h, 'l) server \<Rightarrow> dav_path \<Rightarrow> ('s, 'l, unit) handler" where
  "rollback_created_collection sv path =
     bind (try_remove_marker sv path ''.dav-calendar'') (\<lambda>_.
     bind (try_remove_marker sv path ''.dav-addressbook'') (\<lambda>_.
     bind (attempt (on_fs (fs_remove_dir (sv_fs sv) path))) (\<lambda>_. ok ())))"

definition is_calendar_resourcetype :: "xml_elem \<Rightarrow> bool" where
  "is_calendar_resourcetype rt \<longleftrightarrow> el_name rt = ''calendar'' \<and> el_ns rt = Some NS_CALDAV"

definition is_addressbook_resourcetype :: "xml_elem \<Rightarrow> bool" where
  "is_addressbook_resourcetype rt \<longleftrightarrow> el_name rt = ''addressbook'' \<and> el_ns rt = Some NS_CARDDAV"

definition elems_named :: "bytes \<Rightarrow> xml_elem list \<Rightarrow> xml_elem list" where
  "elems_named name es = concat (map child_elems (filter (\<lambda>e. el_name e = name) es))"

definition resourcetype_flags :: "xml_elem \<Rightarrow> bool \<times> bool" where
  "resourcetype_flags tree =
     (let rts = elems_named ''resourcetype'' (elems_named ''prop'' (elems_named ''set'' (child_elems tree)))
      in (list_ex is_calendar_resourcetype rts, list_ex is_addressbook_resourcetype rts))"

definition mkcol_body :: "http_env \<Rightarrow> bytes \<Rightarrow> dav_error + xml_elem option" where
  "mkcol_body env body =
     (if body = [] then Inr None
      else (case parse2 (xml_parse_all env) body of
              Inr tree \<Rightarrow>
                if el_name tree = ''mkcol'' \<and> el_ns tree = Some NS_DAV then Inr (Some tree)
                else Inl (StatusClose 415)
            | Inl _ \<Rightarrow> Inl (StatusClose 415)))"

text \<open>A calendar inside a calendar and an address book inside an address book are refused.\<close>

definition check_nested :: "('s, 'h, 'l) server \<Rightarrow> dav_path \<Rightarrow> bool \<Rightarrow> bool \<Rightarrow> ('s, 'l, unit) handler" where
  "check_nested sv path want_cal want_book =
     (if want_cal \<or> want_book then
        bind (attempt (on_fs (fs_metadata (sv_fs sv) (path_parent path)))) (\<lambda>r. case r of
            Inl _ \<Rightarrow> ok ()
          | Inr meta \<Rightarrow>
              bind (collection_kind_of sv (path_parent path) meta) (\<lambda>kind.
                if (case kind of CkCalendar \<Rightarrow> want_cal | CkAddressbook \<Rightarrow> want_book | CkNone \<Rightarrow> False)
                then fail (Status 403) else ok ()))
      else ok ())"

text \<open>One step that undoes the collection when it fails.\<close>

definition or_rollback :: "('s, 'h, 'l) server \<Rightarrow> dav_path \<Rightarrow> ('s, 'l, unit) handler \<Rightarrow> ('s, 'l, unit) handler" where
  "or_rollback sv path m =
     bind (attempt m) (\<lambda>r. case r of
         Inr _ \<Rightarrow> ok ()
       | Inl e \<Rightarrow> bind (rollback_created_collection sv path) (\<lambda>_. fail e))"

text \<open>The answer: the code sets \<^verbatim>\<open>Content-Location\<close> only for a path that already ends in a slash, so
  \<^verbatim>\<open>add_slash\<close> has no effect there.\<close>

definition mkcol_created :: "http_env \<Rightarrow> dav_path \<Rightarrow> response \<times> dav_path" where
  "mkcol_created env path =
     (if is_collection path then
        (let p = add_slash path
         in ((set_header ''content-location'' (as_url_string_with_prefix (pct_encode env) p) response_new)
               \<lparr>rs_status := 201\<rparr>, p))
      else (response_new\<lparr>rs_status := 201\<rparr>, path))"

definition mkcol_at :: "('s, 'h, 'l) server \<Rightarrow> systime option \<times> systime option \<Rightarrow> xml_elem option \<Rightarrow> dav_path \<Rightarrow>
    ('s, 'l, response) handler" where
  "mkcol_at sv stamps doc path0 =
     (let (want_cal, want_book) = (case doc of None \<Rightarrow> (False, False) | Some tree \<Rightarrow> resourcetype_flags tree)
      in bind (check_nested sv path0 want_cal want_book) (\<lambda>_.
         bind (attempt (on_fs (fs_create_dir (sv_fs sv) path0))) (\<lambda>r. case r of
             Inl Exists \<Rightarrow> fail (Status 405)
           | Inl NotFound \<Rightarrow> fail (Status 409)
           | Inl e \<Rightarrow> fail (FsErr e)
           | Inr _ \<Rightarrow>
               (let (res, path) = mkcol_created (sv_http sv) path0
                in bind (if want_cal then or_rollback sv path (fs_try (fs_mark_calendar (sv_fs sv) path)) else ok ()) (\<lambda>_.
                   bind (if want_book then or_rollback sv path (fs_try (fs_mark_addressbook (sv_fs sv) path)) else ok ()) (\<lambda>_.
                   bind (case doc of
                           None \<Rightarrow> ok ()
                         | Some tree \<Rightarrow> or_rollback sv path (apply_set_props sv path tree)) (\<lambda>_.
                   apply_oc_timestamps sv path (fst stamps) (snd stamps) res)))))))"

definition handle_mkcol :: "('s, 'h, 'l) server \<Rightarrow> request \<Rightarrow> bytes \<Rightarrow> ('s, 'l, response) handler" where
  "handle_mkcol sv rq body =
     req_path sv rq (\<lambda>path.
     bind (ensure_visible sv path) (\<lambda>_.
       case oc_timestamps (sv_http sv) rq False of
         Inl e \<Rightarrow> fail e
       | Inr stamps \<Rightarrow>
           bind (attempt (on_fs (fs_metadata (sv_fs sv) path))) (\<lambda>r.
             let meta = (case r of Inr m \<Rightarrow> Some m | Inl _ \<Rightarrow> None)
             in bind (map_err Status (if_match_get_tokens sv rq meta path)) (\<lambda>tokens.
                bind (check_locks sv path False tokens (Status 423)) (\<lambda>_.
                  case mkcol_body (sv_http sv) body of
                    Inl e \<Rightarrow> fail e
                  | Inr doc \<Rightarrow> mkcol_at sv stamps doc path)))))"

section \<open>OPTIONS\<close>

definition dav_features :: bytes where
  "dav_features = ''1,2,3,sabredav-partialupdate,calendar-access,addressbook''"

definition islock :: "dav_method \<Rightarrow> bool" where
  "islock m \<longleftrightarrow> m = MLock \<or> m = MUnlock"

text \<open>Whether a method is listed, \<open>cur\<close> being the method of the request.\<close>

definition listed :: "('s, 'h, 'l) server \<Rightarrow> dav_method \<Rightarrow> dav_method \<Rightarrow> bool" where
  "listed sv cur y \<longleftrightarrow>
     (y = MOptions \<or> (y \<noteq> cur \<or> islock y \<noteq> islock cur)) \<and>
     (\<not> islock y \<or> sv_ls sv \<noteq> None) \<and>
     (case sv_allow sv of Some x \<Rightarrow> methods_contains x y | None \<Rightarrow> True)"

definition mm :: "('s, 'h, 'l) server \<Rightarrow> dav_method \<Rightarrow> (bytes \<times> dav_method) list \<Rightarrow> bytes list" where
  "mm sv cur ms = map fst (filter (\<lambda>(_, y). listed sv cur y) ms)"

definition unmapped_methods :: "(bytes \<times> dav_method) list" where
  "unmapped_methods =
     [(''OPTIONS'', MOptions), (''MKCOL'', MMkCol), (''PUT'', MPut), (''LOCK'', MLock),
      (''MKCALENDAR'', MMkCalendar), (''MKADDRESSBOOK'', MMkAddressbook)]"

definition mapped_methods :: "bool \<Rightarrow> bool \<Rightarrow> bool \<Rightarrow> (bytes \<times> dav_method) list" where
  "mapped_methods file_like is_root is_unmapped =
     (if file_like then [(''HEAD'', MHead), (''GET'', MGet), (''PATCH'', MPatch), (''PUT'', MPut)] else [])
     @ [(''OPTIONS'', MOptions), (''PROPFIND'', MPropFind), (''COPY'', MCopy)]
     @ (if \<not> is_root then [(''MOVE'', MMove), (''DELETE'', MDelete)] else [])
     @ [(''LOCK'', MLock), (''UNLOCK'', MUnlock), (''REPORT'', MReport)]
     @ (if is_unmapped then [(''MKCALENDAR'', MMkCalendar)] else [])
     @ (if is_unmapped then [(''MKADDRESSBOOK'', MMkAddressbook)] else [])"

fun join_with :: "bytes \<Rightarrow> bytes list \<Rightarrow> bytes" where
  "join_with sep [] = []"
| "join_with sep [x] = x"
| "join_with sep (x # xs) = x @ sep @ join_with sep xs"

definition handle_options :: "('s, 'h, 'l) server \<Rightarrow> request \<Rightarrow> ('s, 'l, response) handler" where
  "handle_options sv rq =
     (let res = set_header ''content-length'' ''0'' (set_header ''ms-author-via'' ''DAV''
                  (set_header ''dav'' dav_features response_new));
          cur = (case dav_method_of (rq_method rq) of Inr m \<Rightarrow> m | Inl _ \<Rightarrow> MOptions)
      in req_path sv rq (\<lambda>path.
         bind (attempt (ensure_visible sv path)) (\<lambda>vis.
         bind (case vis of
                 Inr _ \<Rightarrow> attempt (on_fs (fs_metadata (sv_fs sv) path))
               | Inl _ \<Rightarrow> ok (Inl NotFound)) (\<lambda>meta.
           let is_unmapped = (case meta of Inl _ \<Rightarrow> True | Inr _ \<Rightarrow> False);
               is_file = (case meta of Inr m \<Rightarrow> md_is_file m | Inl _ \<Rightarrow> False);
               star = (is_star path \<and> cur = MOptions);
               v = (if is_unmapped \<and> \<not> star then mm sv cur unmapped_methods
                    else mm sv cur (mapped_methods (is_file \<or> star)
                           (as_url_string (pct_encode (sv_http sv)) path = ''/'') is_unmapped))
           in ok (set_header ''allow'' (join_with '','' v) res)))))"

end
