(* ===== verification/Handle_Ends.thy ===== *)
theory Handle_Ends
  imports Handle_Main Handle_Mkcol
begin

text \<open>
  When \<^verbatim>\<open>DELETE\<close> on the in-memory server ends: always, and with exactly the subtree gone, in a
  filesystem whose names are names; never, once a \<^verbatim>\<open>MKCOL\<close> of the root has put a nameless child there.
\<close>

section \<open>Names\<close>

lemma fs_demo_names: "names_ok (fs_map fs_demo)"
  by (auto simp: names_ok_def fs_demo_facts(3) good_seg_def split: if_splits)

definition req_d :: dav_path where "req_d = \<lparr>fullpath = ''/d'', pfxlen = Some 0\<rparr>"

lemma demo_path_d: "from_uri_and_prefix (pct_decode demo_env) ''/d'' [] = Inr req_d"
  by code_simp

lemma demo_d_facts: "segs_of req_d = [''d'']" "shown (demo_server who) req_d"
proof -
  have b: "as_bytes req_d = ''/d''" by (simp add: req_d_def as_bytes_def prefix_len_def)
  then show "segs_of req_d = [''d'']" by (simp add: segs_of_def path_segs_def)
  show "shown (demo_server who) req_d"
    by (simp add: shown_def b demo_server_def is_collection_marker_def eq_ignore_ascii_case_def)
qed

lemma demo_http_if_match: "http_if_match demo_env (demo_request me p []) m = None"
  by (simp add: http_if_match_def demo_no_headers)

section \<open>The nameless child\<close>

lemma single_set: "distinct xs \<Longrightarrow> set xs = {x} \<Longrightarrow> xs = [x]"
  by (cases xs; cases "tl xs") auto

text \<open>A listing that leads back to the directory itself: the recursion has no end.\<close>

lemma delete_items_loops:
  assumes sv: "sv_fs sv = memfs_ops a" and ok: "fs_ok (w_fs w)"
    and dir: "is_dir_at (fs_map (w_fs w)) []"
    and only: "\<And>k n. fs_map (w_fs w) [k] = Some n \<longleftrightarrow> k = [] \<and> n = nd" and nd: "node_is_dir nd"
  shows "segs_of p = [] \<Longrightarrow> path_fits p \<Longrightarrow> md_is_dir meta \<Longrightarrow> delete_items n sv DepthInfinity meta p w = None"
proof (induction n arbitrary: p meta)
  case (Suc n)
  have "is_dir_at (fs_map (w_fs w)) (segs_of p)" using dir Suc.prems(1) by simp
  from memfs_read_dir_ok [OF ok this, of RdDataSymlink] obtain cs where
    cs: "memfs_read_dir p RdDataSymlink (w_fs w) = Some (Inr (map mem_entry cs), w_fs w)" "distinct (map fst cs)"
      "\<And>k m. (k, m) \<in> set cs \<longleftrightarrow> fs_map (w_fs w) ([] @ [k]) = Some m" unfolding Suc.prems(1) by blast
  have "set cs = {([], nd)}" using cs(3) only by auto
  then have one: "cs = [([], nd)]" using cs(2) by (simp add: single_set distinct_map)
  let ?np = "add_slash_if True (push_segment [] p)"
  have "push_segment [] p = add_slash_if True p"
    by (simp add: push_segment_def Let_def add_slash_def add_slash_if_def)
  then have np: "segs_of ?np = []" "path_fits ?np" using Suc.prems by simp_all
  have "delete_items n sv DepthInfinity (as_dirent nd) ?np w = None"
    using Suc.IH [OF np] nd by simp
  then have "delete_entries n sv DepthInfinity p (map mem_entry cs) None w = None"
    using nd by (simp add: one mem_dirent_def on_fs_def)
  then show ?case using cs(1) Suc.prems(3) by (simp add: sv on_fs_def)
qed simp

section \<open>Properties\<close>


lemma demo_may_delete: "may_write (lock_view demo_ls) req_d (holds who False []) True"
proof -
  have "lock_segs req_d = [''d'']" using demo_d_facts(1) by (simp add: segs_lock)
  then show ?thesis by (auto simp: may_write_def covering_def demo_view)
qed


text \<open>The run of \<^verbatim>\<open>MKCOL /\<close>.\<close>

lemma new_dir_is_dir [simp]: "node_is_dir (new_dir t)"
  by (simp add: new_dir_def)

lemma demo_root_way: "open_way (fs_map s) (segs_of req_root)"
  by (simp add: open_way_def demo_root_facts)

lemma demo_root_may: "may_write (lock_view demo_ls0) req_root (holds who False []) deep"
  using demo_root_facts(1) by (simp add: may_write_def covering_def demo_ls0_facts(2) segs_lock)

lemma demo_create_root:
  "\<exists>s. memfs_create_dir req_root fs_demo0 = Some (Inr (), s) \<and> fs_ok s \<and>
     fs_map s = [[] \<mapsto> new_dir 7, [[]] \<mapsto> new_dir 7]"
proof -
  have nt: "new_target req_root = [[]]"
    using demo_root_facts(1) by (simp add: new_target_def mem_file_name_def req_root_def as_bytes_def prefix_len_def Let_def)
  have "touch 7 [] ([[] \<mapsto> new_dir 7, [[]] \<mapsto> new_dir 7]) = [[] \<mapsto> new_dir 7, [[]] \<mapsto> new_dir 7]"
    by (auto simp: touch_def new_dir_def fun_eq_iff)
  then show ?thesis
    using memfs_create_dir_ok [OF memfs_new_ok(1) [of 7], of req_root]
    by (auto simp: fs_demo0_def memfs_new_ok(2) nt demo_root_facts is_dir_at_def new_dir_def memfs_new_clock split: if_splits)
qed

lemma demo_mkcol_root:
  "\<exists>res l s. handle_mkcol (demo_server None) (demo_request ''MKCOL'' ''/'' []) [] demo_world0 =
       Some (Inr res, \<lparr>w_fs = s, w_ls = l, w_items = []\<rparr>) \<and> rs_status res = 201 \<and> fs_ok s \<and>
     wf_tree (ml_tree l) \<and> lock_view l = lock_view demo_ls0 \<and> fs_map s = [[] \<mapsto> new_dir 7, [[]] \<mapsto> new_dir 7]"
proof -
  let ?sv = "demo_server None" and ?rq = "demo_request ''MKCOL'' ''/'' []"
  have ok: "fs_ok (w_fs demo_world0)" "fs_map (w_fs demo_world0) (segs_of req_root) = Some (new_dir 7)"
    by (simp_all add: demo_world0_def fs_demo0_def memfs_new_ok demo_root_facts)
  have sv: "sv_fs ?sv = memfs_ops 1000" by simp
  note vis = mem_visible [OF sv ok(1) demo_root_way demo_root_facts(2)]
  note meta = mem_meta_run(1) [OF sv ok, simplified]
  have toks: "if_match_get_tokens ?sv ?rq m p w = Some (Inr [], w)" for m p w
    by (rule no_if_tokens) (simp_all add: demo_http_if_match, simp add: header_values_def demo_request_def)
  from mem_check [of ?sv demo_world0 req_root "[]" False "Status 423"] obtain l where
    l: "check_locks ?sv req_root False [] (Status 423) demo_world0 = Some (Inr (), demo_world0\<lparr>w_ls := l\<rparr>)"
      "wf_tree (ml_tree l)" "lock_view l = lock_view demo_ls0"
    using demo_ls0_facts(3) by (auto simp: demo_world0_def memls_ok_def demo_root_may)
  from demo_create_root obtain s where
    s: "memfs_create_dir req_root fs_demo0 = Some (Inr (), s)" "fs_ok s" "fs_map s = [[] \<mapsto> new_dir 7, [[]] \<mapsto> new_dir 7]" by blast
  have cr: "on_fs (memfs_create_dir req_root) (demo_world0\<lparr>w_ls := l\<rparr>) = Some (Inr (), demo_world0\<lparr>w_ls := l, w_fs := s\<rparr>)"
    using s(1) by (simp add: on_fs_def demo_world0_def)
  have stamps: "oc_timestamps demo_env ?rq False = Inr (None, None)"
    by (simp add: oc_timestamps_def typed_try_get_def header_values_def demo_request_def)
  have "\<exists>res. mkcol_at ?sv (None, None) None req_root (demo_world0\<lparr>w_ls := l\<rparr>) = Some (Inr res, demo_world0\<lparr>w_ls := l, w_fs := s\<rparr>) \<and> rs_status res = 201"
    using cr by (simp add: mkcol_at_def check_nested_def mkcol_created_def Let_def set_header_def apply_oc_timestamps_def apply_one_timestamp_def)
  then show ?thesis
    using vis meta l(1,2) l(3) s(2,3) stamps
    by (auto simp: handle_mkcol_def req_path_def demo_path_root toks [unfolded demo_request_def] demo_request_def mkcol_body_def demo_world0_def)
qed

lemma demo_delete_root_loops:
  assumes ok: "fs_ok (w_fs w)" "wf_tree (ml_tree (w_ls w))" and locks: "lock_view (w_ls w) = lock_view demo_ls0"
    and m: "fs_map (w_fs w) = [[] \<mapsto> new_dir 7, [[]] \<mapsto> new_dir 7]"
  shows "handle_delete n (demo_server None) (demo_request ''DELETE'' ''/'' []) w = None"
proof -
  let ?sv = "demo_server None" and ?rq = "demo_request ''DELETE'' ''/'' []" and ?p = "add_slash_if True req_root"
  have sv: "sv_fs ?sv = memfs_ops 1000" "sv_ls ?sv = Some memls_ops" by simp_all
  have root: "fs_map (w_fs w) (segs_of req_root) = Some (new_dir 7)" by (simp add: m demo_root_facts)
  note vis = mem_visible [OF sv(1) ok(1) demo_root_way demo_root_facts(2)]
  note meta = mem_meta_run(2) [OF sv(1) ok(1) root, simplified]
  have may: "may_write (lock_view (w_ls w)) ?p (holds None False []) True"
    using demo_root_may [of None True] may_write_segs [of ?p req_root] by (simp add: locks)
  from mem_check [OF sv(2) ok(2), of ?p "[]" True "Status 423"] may obtain l where
    l: "check_locks ?sv ?p True [] (Status 423) w = Some (Inr (), w\<lparr>w_ls := l\<rparr>)" by auto
  have toks: "if_match_get_tokens ?sv ?rq mt p w = Some (Inr [], w)" for mt p w
    by (rule no_if_tokens) (simp_all add: demo_http_if_match, simp add: header_values_def demo_request_def)
  have depth: "delete_depth ?rq = Inr DepthInfinity" by (simp add: delete_depth_def demo_no_headers)
  have "path_fits ?p" using request_path_fits [OF demo_path_root] by simp
  then have "delete_items n ?sv DepthInfinity (as_dirent (new_dir 7)) ?p (w\<lparr>w_ls := l, w_items := []\<rparr>) = None"
    by (intro delete_items_loops [OF sv(1), where nd = "new_dir 7"]) (auto simp: m ok is_dir_at_def demo_root_facts node_is_dir_iff [symmetric] split: if_splits)
  then have "delete_at n ?sv ?rq DepthInfinity (as_dirent (new_dir 7)) ?p w = None"
    using l by (simp add: delete_at_def toks collect_def delete_stream_def)
  then show ?thesis
    using vis meta depth by (simp add: handle_delete_def req_path_def demo_request_def demo_path_root fs_try_def)
qed

text \<open>On a fresh in-memory server \<^verbatim>\<open>MKCOL /\<close> answers 201, although the root exists, and then
  \<^verbatim>\<open>DELETE /\<close> returns at no depth of the recursion: the child that \<^verbatim>\<open>MKCOL\<close> made has the empty name, so its
  path is the root's again.\<close>

theorem delete_root_never_ends:
  "\<exists>res w1. handle_mkcol (demo_server None) (demo_request ''MKCOL'' ''/'' []) [] demo_world0 = Some (Inr res, w1) \<and>
     rs_status res = 201 \<and>
     (\<forall>n. handle_delete n (demo_server None) (demo_request ''DELETE'' ''/'' []) w1 = None)"
  using demo_mkcol_root demo_delete_root_loops by fastforce

end
