(* ===== verification/Patch_Props.thy ===== *)
theory Patch_Props
  imports Prop_Patch Handle_Ends "HOL-Library.Multiset"
begin

text \<open>
  What \<^verbatim>\<open>PROPPATCH\<close> does: a document in which an instruction is refused changes nothing and reports
  every instruction as failed; otherwise the instructions on dead properties reach the property
  store in the order of the document.  The exception is \<^verbatim>\<open>Win32LastModifiedTime\<close>, which is applied while
  the document is read.
\<close>

section \<open>The plan of a document\<close>

text \<open>What the live properties answer to an instruction; 100 leaves it to the property store.\<close>

definition live_status :: "http_env \<Rightarrow> bool \<Rightarrow> bytes \<times> xml_elem \<Rightarrow> status" where
  "live_status env can = (\<lambda>(op, n). if op = ''set'' then liveprop_set env n can else liveprop_remove n can)"

definition instrs :: "(bytes \<times> xml_elem) list \<Rightarrow> (bytes \<times> xml_elem) list" where
  "instrs us = filter (\<lambda>(op, _). op = ''set'' \<or> op = ''remove'') us"

definition sets_mtime :: "bytes \<times> xml_elem \<Rightarrow> bool" where
  "sets_mtime = (\<lambda>(op, n). op = ''set'' \<and> el_ns n = Some NS_MS \<and> el_name n = ''Win32LastModifiedTime'')"

definition plan_patch :: "http_env \<Rightarrow> bool \<Rightarrow> (bytes \<times> xml_elem) list \<Rightarrow> (bool \<times> dav_prop) list" where
  "plan_patch env can us =
     map (\<lambda>(op, n). if op = ''set'' then (True, element_to_davprop_full env n) else (False, element_to_davprop n))
       (filter (\<lambda>i. live_status env can i = 100) (instrs us))"

definition plan_ret :: "http_env \<Rightarrow> bool \<Rightarrow> (bytes \<times> xml_elem) list \<Rightarrow> (status \<times> dav_prop) list" where
  "plan_ret env can us =
     map (\<lambda>i. (live_status env can i, element_to_davprop (snd i))) (filter (\<lambda>i. live_status env can i \<noteq> 100) (instrs us))"

lemma loop_plan:
  assumes "\<forall>i \<in> set us. \<not> sets_mtime i"
  shows "proppatch_loop sv path can us patch ret w =
    Some (Inr (patch @ plan_patch (sv_http sv) can us, ret @ plan_ret (sv_http sv) can us), w)"
  using assms
  by (induction sv path can us patch ret arbitrary: w rule: proppatch_loop.induct)
     (auto simp: plan_patch_def plan_ret_def instrs_def live_status_def sets_mtime_def Let_def)

text \<open>A property by the name it has in answers.\<close>

definition prop_name :: "dav_prop \<Rightarrow> bytes \<times> bytes option" where
  "prop_name p = (pr_name p, pr_ns p)"

definition elem_name :: "xml_elem \<Rightarrow> bytes \<times> bytes option" where
  "elem_name e = (el_name e, el_ns e)"

lemma prop_name_elem [simp]:
  "prop_name (element_to_davprop e) = elem_name e" "prop_name (element_to_davprop_full env e) = elem_name e"
  by (simp_all add: prop_name_def elem_name_def element_to_davprop_def element_to_davprop_full_def)

text \<open>Every instruction is in the plan once.\<close>

lemma plan_names:
  "mset (map (prop_name \<circ> snd) (plan_ret env can us) @ map (prop_name \<circ> snd) (plan_patch env can us)) =
   mset (map (elem_name \<circ> snd) (instrs us))"
proof -
  let ?P = "\<lambda>i. live_status env can i = 100"
  have a: "map (prop_name \<circ> snd) (plan_patch env can us) = map (elem_name \<circ> snd) (filter ?P (instrs us))"
    by (auto simp: plan_patch_def)
  have b: "map (prop_name \<circ> snd) (plan_ret env can us) = map (elem_name \<circ> snd) (filter (\<lambda>i. \<not> ?P i) (instrs us))"
    by (auto simp: plan_ret_def)
  have "mset (filter (\<lambda>i. \<not> ?P i) xs) + mset (filter ?P xs) = mset xs" for xs
    using multiset_partition [of "mset xs" ?P] by (simp add: mset_filter add.commute)
  then show ?thesis by (simp only: a b mset_append mset_map image_mset_union [symmetric])
qed

lemma fail_rest_names: "map (prop_name \<circ> snd) (fail_rest patch ret) = map (prop_name \<circ> snd) ret @ map (prop_name \<circ> snd) patch"
  by (auto simp: fail_rest_def)

lemma fail_rest_fails: "200 \<notin> fst ` set (fail_rest patch ret)"
  by (auto simp: fail_rest_def split: if_splits)

section \<open>The property store of the in-memory filesystem\<close>

abbreviation key_of :: "dav_prop \<Rightarrow> bytes" where
  "key_of p \<equiv> propkey (pr_ns p) (pr_name p)"

text \<open>The last instruction on a key decides what is stored under it.\<close>

lemma patch_loop_other:
  "(\<forall>(_, q) \<in> set ps. key_of q \<noteq> k) \<Longrightarrow> map_of (fst (patch_loop ps props)) k = map_of props k"
proof (induction ps props rule: patch_loop.induct)
  case (2 st p ps props)
  then show ?case by (auto simp: Let_def split_beta update_conv' delete_conv')
qed simp

lemma patch_loop_last:
  assumes "\<forall>(_, q) \<in> set qs. key_of q \<noteq> key_of p"
  shows "map_of (fst (patch_loop (ps @ (st, p) # qs) props)) (key_of p) = (if st then Some p else None)"
proof (induction ps arbitrary: props)
  case Nil
  then show ?case using patch_loop_other [OF assms] by (simp add: Let_def split_beta update_conv' delete_conv')
next
  case (Cons a ps)
  then show ?case by (cases a) (simp add: Let_def split_beta)
qed

lemma patch_loop_results: "snd (patch_loop ps props) = map (\<lambda>(_, p). (200, cloneprop p)) ps"
  by (induction ps props rule: patch_loop.induct) (simp_all add: Let_def split_beta)

lemma memfs_patch_run:
  assumes ok: "fs_ok s" and n: "fs_map s (segs_of path) = Some n"
  shows "\<exists>s'. memfs_patch_props path patch s = Some (Inr (map (\<lambda>(_, p). (200, cloneprop p)) patch), s') \<and>
    fs_ok s' \<and> mf_clock s' = mf_clock s \<and>
    fs_map s' = (fs_map s)(segs_of path \<mapsto> set_node_props (fst (patch_loop patch (node_props n))) n)"
proof (cases rule: fs_lookup_cases [OF fs_ok_wf [OF ok], of "as_bytes path"])
  case (1 i n')
  note found = 1
  have n': "n' = n" using n found(4) by (simp add: fs_map_def segs_of_def)
  let ?f = "set_node_props (fst (patch_loop patch (node_props n)))"
  have wf: "wf_tree (mf_tree s)" using fs_ok_wf [OF ok] by (simp add: fs_wf_def)
  from set_node_ok [OF wf found(2), of ?f] found(4) obtain t' where
    t': "get_node_mut i ?f (mf_tree s) = Some (Inr (), t')" "tree_map t' = (tree_map (mf_tree s))(segs_of path \<mapsto> ?f n')"
    by (auto simp: segs_of_def)
  have run: "memfs_patch_props path patch s = Some (Inr (map (\<lambda>(_, p). (200, cloneprop p)) patch), s\<lparr>mf_tree := t'\<rparr>)"
    using found(1,3) t'(1) n' by (simp add: memfs_patch_props_def on_tree_def lift_lookup_def patch_loop_results)
  from patch_ok [OF run ok] run t'(2) n' show ?thesis by (simp add: fs_map_def)
qed (use n in \<open>simp add: fs_map_def segs_of_def\<close>)

lemma memfs_get_prop_run:
  assumes ok: "fs_ok s" and n: "fs_map s (segs_of path) = Some n"
  shows "memfs_get_prop path p s =
    Some (case map_of (node_props n) (key_of p) of None \<Rightarrow> Inl NotFound
      | Some q \<Rightarrow> (case pr_xml q of None \<Rightarrow> Inl NotFound | Some x \<Rightarrow> Inr x), s)"
  using n by (cases rule: fs_lookup_cases [OF fs_ok_wf [OF ok], of "as_bytes path"])
    (auto simp: memfs_get_prop_def on_tree_def lift_lookup_def fs_map_def segs_of_def split: option.splits)

lemma node_props_set [simp]: "node_props (set_node_props ps n) = ps"
  by (cases n) simp_all

section \<open>The handler on the in-memory server\<close>

text \<open>A request that reaches the document.\<close>

lemma mem_proppatch_enter:
  fixes sv :: "(mem_fs, mem_file, mem_ls) server"
  assumes sv: "sv_fs sv = memfs_ops a" "sv_ls sv = Some memls_ops"
    and ok: "fs_ok (w_fs w)" "wf_tree (ml_tree (w_ls w))"
    and path: "from_uri_and_prefix (pct_decode (sv_http sv)) (rq_path rq) (sv_prefix sv) = Inr path" "shown sv path"
    and nd: "fs_map (w_fs w) (segs_of path) = Some nd"
    and rq: "header_values rq ''if'' = []" "http_if_match (sv_http sv) rq (Some (as_dirent nd)) = None"
    and may: "may_write (lock_view (w_ls w)) path (holds (sv_principal sv) False []) False"
  shows "\<exists>l res p. handle_proppatch sv rq doc w = proppatch_at sv res p doc (w\<lparr>w_ls := l\<rparr>) \<and>
    lock_view l = lock_view (w_ls w) \<and> p = add_slash_if (node_is_dir nd) path \<and> wf_tree (ml_tree l)"
proof -
  let ?p = "add_slash_if (node_is_dir nd) path"
  have way: "open_way (fs_map (w_fs w)) (segs_of path)" by (rule open_way_exists [OF ok(1)]) (simp add: nd)
  note vis = mem_visible [OF sv(1) ok(1) way path(2)]
  note meta = mem_meta_run(1) [OF sv(1) ok(1) nd]
  have may': "may_write (lock_view (w_ls w)) ?p (holds (sv_principal sv) False []) False"
    using may may_write_segs [of ?p path] by simp
  from mem_check [OF sv(2) ok(2) may', of "Status 423"] obtain l where
    l: "check_locks sv ?p False [] (Status 423) w = Some (Inr (), w\<lparr>w_ls := l\<rparr>)" "lock_view l = lock_view (w_ls w)"
      "wf_tree (ml_tree l)" by blast
  have fx: "\<exists>res. fixpath sv response_new path (as_dirent nd) = (res, ?p)"
    by (auto simp: fixpath_def add_slash_if_def add_slash_def Let_def)
  then obtain res where "fixpath sv response_new path (as_dirent nd) = (res, ?p)" ..
  then have "handle_proppatch sv rq doc w = proppatch_at sv res ?p doc (w\<lparr>w_ls := l\<rparr>)"
    using vis meta l(1) no_if_tokens [OF rq, of ?p w]
    by (simp add: handle_proppatch_def req_path_def path(1) fs_try_def)
  with l(2,3) show ?thesis by blast
qed

text \<open>The run of the document.\<close>

lemma proppatch_at_run:
  assumes sv: "sv_fs sv = memfs_ops a"
    and doc: "parse2 (xml_parse_all (sv_http sv)) doc = Inr tree" "el_name tree = ''propertyupdate''"
    and plain: "\<forall>i \<in> set (proppatch_updates tree). \<not> sets_mtime i"
  shows "proppatch_at sv res path doc w =
    bind (proppatch_apply sv path (plan_patch (sv_http sv) True (proppatch_updates tree))
        (plan_ret (sv_http sv) True (proppatch_updates tree)))
      (\<lambda>rep. ok (multistatus_response (proppatch_events (sv_http sv) path (group_by_status (sv_http sv) rep)) res)) w"
proof -
  have "have_props sv path w = Some (Inr True, w)"
    by (simp add: have_props_def on_fs_def sv memfs_ops_def)
  with doc loop_plan [OF plain, of sv path True "[]" "[]" w] show ?thesis by (simp add: proppatch_at_def)
qed

lemma plan_fails: "list_ex (\<lambda>(s, _). s \<noteq> 200) (plan_ret env can us) \<longleftrightarrow>
    (\<exists>i \<in> set (instrs us). live_status env can i \<notin> {100, 200})"
  by (auto simp: plan_ret_def list_ex_iff)

text \<open>The answer holds a report of every instruction.\<close>

definition answers :: "http_env \<Rightarrow> (bytes \<times> xml_elem) list \<Rightarrow> (status \<times> dav_prop) list \<Rightarrow> response \<Rightarrow> bool" where
  "answers env us rep res \<longleftrightarrow> rs_status res = 207 \<and>
     (\<exists>p. rs_body res = BXml (proppatch_events env p (group_by_status env rep))) \<and>
     mset (map (prop_name \<circ> snd) rep) = mset (map (elem_name \<circ> snd) (instrs us))"

lemma answersI:
  assumes "mset (map (prop_name \<circ> snd) rep) = mset (map (elem_name \<circ> snd) (instrs us))"
  shows "answers env us rep (multistatus_response (proppatch_events env p (group_by_status env rep)) res)"
  using assms by (auto simp: answers_def multistatus_response_def set_header_def)

section \<open>Documents to run\<close>

definition update_doc :: "(bytes \<times> bytes \<times> bytes) list \<Rightarrow> xml_elem" where
  "update_doc is = Elem None (Some NS_DAV) None ''propertyupdate'' []
     (map (\<lambda>(op, ns, name). XElement (Elem None (Some NS_DAV) None op []
        [XElement (Elem None (Some NS_DAV) None ''prop'' [] [XElement (Elem None (Some ns) None name [] [])])])) is)"

definition patch_env :: http_env where
  "patch_env = demo_env\<lparr>xml_parse_all := (\<lambda>b.
       Inr [XElement (update_doc (if b = ''bad'' then [(''set'', ''urn:x'', ''color''), (''set'', NS_DAV, ''getetag'')]
         else if b = ''time'' then [(''set'', NS_MS, ''Win32LastModifiedTime''), (''set'', NS_DAV, ''getetag'')]
         else [(''remove'', NS_DAV, ''displayname''), (''set'', ''urn:x'', ''color'')]))]),
     el_get_text := (\<lambda>_. Some ''now''), date_decode := (\<lambda>_. Some 99), xml_bytes := (\<lambda>_. ''<color/>'')\<rparr>"

definition patch_server :: "(mem_fs, mem_file, mem_ls) server" where
  "patch_server = (demo_server (Some ''ann''))\<lparr>sv_http := patch_env\<rparr>"

lemma patch_server_simps [simp]:
  "sv_http patch_server = patch_env" "sv_prefix patch_server = []" "sv_fs patch_server = memfs_ops 1000"
  "sv_ls patch_server = Some memls_ops" "sv_principal patch_server = Some ''ann''"
  by (simp_all add: patch_server_def)

abbreviation patch_request :: request where
  "patch_request \<equiv> demo_request ''PROPPATCH'' ''/d'' []"

abbreviation color_elem :: xml_elem where
  "color_elem \<equiv> Elem None (Some ''urn:x'') None ''color'' [] []"

lemma patch_demo_enter:
  "from_uri_and_prefix (pct_decode patch_env) (rq_path patch_request) [] = Inr req_d"
  "shown patch_server req_d" "fs_map (w_fs demo_world) (segs_of req_d) = Some (new_dir 7)"
  "fs_ok (w_fs demo_world)" "wf_tree (ml_tree (w_ls demo_world))"
  "header_values patch_request ''if'' = []" "http_if_match patch_env patch_request m = None"
  "may_write (lock_view (w_ls demo_world)) req_d (holds (Some ''ann'') False []) False"
proof -
  show "from_uri_and_prefix (pct_decode patch_env) (rq_path patch_request) [] = Inr req_d"
    using demo_path_d by (simp add: patch_env_def demo_request_def)
  show "shown patch_server req_d"
    using demo_d_facts(2) [of "Some ''ann''"] by (simp add: shown_def patch_server_def)
  show "http_if_match patch_env patch_request m = None" by (simp add: http_if_match_def demo_no_headers)
  show "may_write (lock_view (w_ls demo_world)) req_d (holds (Some ''ann'') False []) False"
    using demo_may_delete [of "Some ''ann''"] by (simp add: may_write_def demo_world_def)
qed (simp_all add: demo_world_def fs_demo_facts demo_d_facts demo_wf header_values_def demo_request_def)

lemma patch_docs:
  "parse2 (xml_parse_all patch_env) ''bad'' = Inr (update_doc [(''set'', ''urn:x'', ''color''), (''set'', NS_DAV, ''getetag'')])"
  "parse2 (xml_parse_all patch_env) ''time'' =
     Inr (update_doc [(''set'', NS_MS, ''Win32LastModifiedTime''), (''set'', NS_DAV, ''getetag'')])"
  "parse2 (xml_parse_all patch_env) ''good'' = Inr (update_doc [(''remove'', NS_DAV, ''displayname''), (''set'', ''urn:x'', ''color'')])"
  "el_name (update_doc is) = ''propertyupdate''"
  by (simp_all add: parse2_def patch_env_def update_doc_def)

lemma patch_updates:
  "proppatch_updates (update_doc is) = map (\<lambda>(op, ns, name). (op, Elem None (Some ns) None name [] [])) is"
proof -
  have "child_elems (update_doc is) = map (\<lambda>(op, ns, name). Elem None (Some NS_DAV) None op []
        [XElement (Elem None (Some NS_DAV) None ''prop'' [] [XElement (Elem None (Some ns) None name [] [])])]) is"
    by (induction "is") (auto simp: update_doc_def child_elems_def)
  then show ?thesis by (simp add: proppatch_updates_def) (auto simp: props_in_def child_elems_def comp_def split_beta)
qed

section \<open>Properties\<close>



lemma mem_proppatch_applied:
  fixes sv :: "(mem_fs, mem_file, mem_ls) server"
  assumes sv: "sv_fs sv = memfs_ops a" "sv_ls sv = Some memls_ops"
    and ok: "fs_ok (w_fs w)" "wf_tree (ml_tree (w_ls w))"
    and path: "from_uri_and_prefix (pct_decode (sv_http sv)) (rq_path rq) (sv_prefix sv) = Inr path" "shown sv path"
    and nd: "fs_map (w_fs w) (segs_of path) = Some nd"
    and rq: "header_values rq ''if'' = []" "http_if_match (sv_http sv) rq (Some (as_dirent nd)) = None"
    and may: "may_write (lock_view (w_ls w)) path (holds (sv_principal sv) False []) False"
    and doc: "parse2 (xml_parse_all (sv_http sv)) doc = Inr tree" "el_name tree = ''propertyupdate''"
    and plain: "\<forall>i \<in> set (proppatch_updates tree). \<not> sets_mtime i"
    and good: "\<forall>i \<in> set (instrs (proppatch_updates tree)). live_status (sv_http sv) True i \<in> {100, 200}"
  shows "\<exists>res w' rep props. handle_proppatch sv rq doc w = Some (Inr res, w') \<and>
    lock_view (w_ls w') = lock_view (w_ls w) \<and> fs_ok (w_fs w') \<and> wf_tree (ml_tree (w_ls w')) \<and>
    answers (sv_http sv) (proppatch_updates tree) rep res \<and> fst ` set rep \<subseteq> {200} \<and>
    fs_map (w_fs w') = (fs_map (w_fs w))(segs_of path \<mapsto> set_node_props props nd) \<and>
    (\<forall>is op n js. instrs (proppatch_updates tree) = is @ (op, n) # js \<longrightarrow>
       live_status (sv_http sv) True (op, n) = 100 \<longrightarrow>
       (\<forall>(_, m) \<in> set js. propkey (el_ns m) (el_name m) \<noteq> propkey (el_ns n) (el_name n)) \<longrightarrow>
       memfs_get_prop path (element_to_davprop n) (w_fs w') =
         Some (if op = ''set'' then Inr (xml_bytes (sv_http sv) (write_ev n)) else Inl NotFound, w_fs w'))"
proof -
  let ?us = "proppatch_updates tree" and ?env = "sv_http sv"
  let ?pp = "plan_patch ?env True ?us" and ?pr = "plan_ret ?env True ?us"
  let ?props = "fst (patch_loop ?pp (node_props nd))"
  from mem_proppatch_enter [OF sv ok path nd rq may] obtain l res0 p where
    e: "handle_proppatch sv rq doc w = proppatch_at sv res0 p doc (w\<lparr>w_ls := l\<rparr>)" "lock_view l = lock_view (w_ls w)"
      "p = add_slash_if (node_is_dir nd) path" "wf_tree (ml_tree l)" by blast
  have fine: "\<not> list_ex (\<lambda>(s, _). s \<noteq> 200) ?pr" using good by (auto simp: plan_fails)
  let ?rep = "?pr @ map (\<lambda>(_, p). (200, cloneprop p)) ?pp"
  have nop: "set_node_props (node_props nd) nd = nd" by (cases nd) simp_all
  have "\<exists>s. proppatch_apply sv p ?pp ?pr (w\<lparr>w_ls := l\<rparr>) = Some (Inr ?rep, w\<lparr>w_ls := l, w_fs := s\<rparr>) \<and> fs_ok s \<and>
      fs_map s = (fs_map (w_fs w))(segs_of path \<mapsto> set_node_props ?props nd)"
  proof (cases "?pp = []")
    case True
    then show ?thesis
      using fine ok(1) nd nop by (intro exI [of _ "w_fs w"]) (auto simp: proppatch_apply_def)
  next
    case False
    from memfs_patch_run [OF ok(1), of p nd ?pp] nd e(3) obtain s where
      "memfs_patch_props p ?pp (w_fs w) = Some (Inr (map (\<lambda>(_, p). (200, cloneprop p)) ?pp), s)" "fs_ok s"
      "fs_map s = (fs_map (w_fs w))(segs_of path \<mapsto> set_node_props ?props nd)" by auto
    then show ?thesis using False fine
      by (auto simp: proppatch_apply_def fs_try_def on_fs_def sv memfs_ops_def)
  qed
  then obtain s where s: "proppatch_apply sv p ?pp ?pr (w\<lparr>w_ls := l\<rparr>) = Some (Inr ?rep, w\<lparr>w_ls := l, w_fs := s\<rparr>)"
    "fs_ok s" "fs_map s = (fs_map (w_fs w))(segs_of path \<mapsto> set_node_props ?props nd)" by blast
  have "map (prop_name \<circ> snd) ?rep = map (prop_name \<circ> snd) ?pr @ map (prop_name \<circ> snd) ?pp"
    by (auto simp: prop_name_def cloneprop_def)
  then have ans: "answers ?env ?us ?rep (multistatus_response (proppatch_events ?env p (group_by_status ?env ?rep)) res0)"
    by (intro answersI) (simp only: plan_names)
  have ok200: "fst ` set ?rep \<subseteq> {200}" using fine by (auto simp: list_ex_iff)
  have get: "memfs_get_prop path (element_to_davprop n) s =
      Some (if op = ''set'' then Inr (xml_bytes ?env (write_ev n)) else Inl NotFound, s)"
    if split: "instrs ?us = is @ (op, n) # js" and live: "live_status ?env True (op, n) = 100"
      and last: "\<forall>(_, m) \<in> set js. propkey (el_ns m) (el_name m) \<noteq> propkey (el_ns n) (el_name n)" for "is" op n js
  proof -
    let ?act = "\<lambda>(op, n). if op = ''set'' then (True, element_to_davprop_full ?env n) else (False, element_to_davprop n)"
    let ?f = "\<lambda>xs. map ?act (filter (\<lambda>i. live_status ?env True i = 100) xs)"
    obtain q where q: "?act (op, n) = (op = ''set'', q)" "key_of q = key_of (element_to_davprop n)"
      "op = ''set'' \<Longrightarrow> pr_xml q = Some (xml_bytes ?env (write_ev n))"
      by (cases "op = ''set''") (auto simp: element_to_davprop_def element_to_davprop_full_def)
    have pp: "?pp = ?f is @ (op = ''set'', q) # ?f js" using split live q(1) by (simp add: plan_patch_def)
    have "\<forall>(_, r) \<in> set (?f js). key_of r \<noteq> key_of q"
      using last q(2) by (auto simp: element_to_davprop_def element_to_davprop_full_def split: if_splits)
    from patch_loop_last [OF this, of "?f is" "op = ''set''" "node_props nd"]
    have "map_of ?props (key_of (element_to_davprop n)) = (if op = ''set'' then Some q else None)"
      unfolding pp q(2) .
    then show ?thesis using memfs_get_prop_run [OF s(2), of path _ "element_to_davprop n"] s(3) q(3) by simp
  qed
  have run: "handle_proppatch sv rq doc w =
      Some (Inr (multistatus_response (proppatch_events ?env p (group_by_status ?env ?rep)) res0), w\<lparr>w_ls := l, w_fs := s\<rparr>)"
    using s(1) by (simp add: e(1) proppatch_at_run [OF sv(1) doc plain])
  show ?thesis
    by (intro exI conjI, rule run) (use e(2,4) s(2,3) ans ok200 get in \<open>simp_all, blast+\<close>)
qed



text \<open>The exception: in a document that sets \<^verbatim>\<open>Win32LastModifiedTime\<close> and then a property that cannot
  be set, the answer reports the first as 424, not done, and the second as 403, but the modification
  time of the resource has changed.\<close>

theorem proppatch_mtime_kept:
  "\<exists>res w' rep. handle_proppatch patch_server patch_request ''time'' demo_world = Some (Inr res, w') \<and>
     rs_body res = BXml (proppatch_events patch_env (add_slash req_d) (group_by_status patch_env rep)) \<and>
     map fst rep = [424, 403] \<and>
     fs_map fs_demo [''d''] = Some (new_dir 7) \<and>
     fs_map (w_fs w') [''d''] = Some (update_mtime 99 (new_dir 7)) \<and> update_mtime 99 (new_dir 7) \<noteq> new_dir 7"
proof -
  let ?p = "add_slash req_d" and ?sv = patch_server
  let ?win = "Elem None (Some NS_MS) None ''Win32LastModifiedTime'' [] []"
  let ?tag = "Elem None (Some NS_DAV) None ''getetag'' [] []"
  let ?us = "[(''set'', ?win), (''set'', ?tag)]"
  let ?rep = "[(424, element_to_davprop ?win), (403, element_to_davprop ?tag)]"
  have pe: "?p = add_slash_if True req_d" by (simp add: add_slash_def add_slash_if_def)
  obtain l res0 where e: "handle_proppatch ?sv patch_request ''time'' demo_world = proppatch_at ?sv res0 ?p ''time'' (demo_world\<lparr>w_ls := l\<rparr>)"
    using mem_proppatch_enter [of ?sv 1000 demo_world patch_request req_d "new_dir 7" "''time''"] patch_demo_enter pe by auto
  have segs: "segs_of ?p = [''d'']" by (simp add: pe demo_d_facts)
  obtain s where s: "memfs_set_modified ?p 99 fs_demo = Some (Inr (), s)"
      "fs_map s = (fs_map fs_demo)([''d''] \<mapsto> update_mtime 99 (new_dir 7))"
    using memfs_set_modified_run [OF fs_demo_facts(1), of ?p "new_dir 7" 99] by (auto simp: segs fs_demo_facts(3))
  let ?w = "demo_world\<lparr>w_ls := l\<rparr>" and ?w1 = "demo_world\<lparr>w_ls := l, w_fs := s\<rparr>"
  have win: "apply_win32_last_modified ?sv ?p ?win ?w = Some (Inr 200, ?w1)"
    using s(1) by (simp add: apply_win32_last_modified_def patch_env_def has_child_elems_def child_elems_def httpdate_to_systemtime_def
        demo_env_def on_fs_def demo_world_def memfs_ops_def)
  have tag: "liveprop_set patch_env ?tag True = 403"
    by (simp add: liveprop_set_def element_to_davprop_def is_protected_type_marker_def
        is_calendar_type_marker_def is_addressbook_type_marker_def)
  have us: "proppatch_updates (update_doc [(''set'', NS_MS, ''Win32LastModifiedTime''), (''set'', NS_DAV, ''getetag'')]) = ?us"
    by (simp add: patch_updates)
  have ns: "NS_DAV \<noteq> NS_MS" by (simp add: NS_DAV_def NS_MS_def)
  have hp: "have_props ?sv ?p ?w = Some (Inr True, ?w)" by (simp add: have_props_def on_fs_def memfs_ops_def)
  have "proppatch_loop ?sv ?p True ?us [] [] ?w = Some (Inr ([], [(200, element_to_davprop ?win), (403, element_to_davprop ?tag)]), ?w1)"
    using win tag ns by simp
  then have run: "proppatch_at ?sv res0 ?p ''time'' ?w =
      Some (Inr (multistatus_response (proppatch_events patch_env ?p (group_by_status patch_env ?rep)) res0), ?w1)"
    using hp by (simp add: proppatch_at_def patch_docs us proppatch_apply_def fail_rest_def)
  have "fs_map s [''d''] = Some (update_mtime 99 (new_dir 7))" "update_mtime 99 (new_dir 7) \<noteq> new_dir 7"
    by (simp add: s(2), simp add: new_dir_def)
  note changed = this
  show ?thesis
    by (intro exI [where P = "\<lambda>res. \<exists>w' rep. Q res w' rep" for Q] exI [where P = "\<lambda>w'. \<exists>rep. Q w' rep" for Q]
        exI [of _ ?rep] conjI, rule trans [OF e run]) (use changed in \<open>simp_all add: multistatus_response_def set_header_def fs_demo_facts(3)\<close>)
qed

text \<open>The property store of the in-memory filesystem files properties under the concatenation of
  namespace and name, so two properties can share a slot: reading the property \<^verbatim>\<open>bc\<close> of namespace \<^verbatim>\<open>urn:a\<close>
  after storing \<^verbatim>\<open>c\<close> of \<^verbatim>\<open>urn:ab\<close> returns the latter's value, in every filesystem.\<close>

theorem memfs_props_collide:
  assumes "fs_ok s" and "fs_map s (segs_of path) = Some n"
  shows "\<exists>s'. memfs_patch_props path [(True, dav_prop_new ''c'' ''p'' ''urn:ab'' v)] s =
       Some (Inr [(200, cloneprop (dav_prop_new ''c'' ''p'' ''urn:ab'' v))], s') \<and>
     memfs_get_prop path (dav_prop_new ''bc'' ''p'' ''urn:a'' u) s' =
       Some (Inr (the (pr_xml (dav_prop_new ''c'' ''p'' ''urn:ab'' v))), s')"
proof -
  let ?c = "dav_prop_new ''c'' ''p'' ''urn:ab'' v" and ?b = "dav_prop_new ''bc'' ''p'' ''urn:a'' u"
  from memfs_patch_run [OF assms, of "[(True, ?c)]"] obtain s' where
    s': "memfs_patch_props path [(True, ?c)] s = Some (Inr [(200, cloneprop ?c)], s')" "fs_ok s'"
      "fs_map s' = (fs_map s)(segs_of path \<mapsto> set_node_props (fst (patch_loop [(True, ?c)] (node_props n))) n)" by auto
  have k: "key_of ?c = key_of ?b" by (simp add: dav_prop_new_def propkey_def)
  have "map_of (fst (patch_loop [(True, ?c)] (node_props n))) (key_of ?b) = Some ?c"
    using patch_loop_last [of "[]" ?c "[]" True "node_props n"] k by simp
  then have "memfs_get_prop path ?b s' = Some (Inr (the (pr_xml ?c)), s')"
    using memfs_get_prop_run [OF s'(2), of path _ ?b] s'(3) by (simp add: dav_prop_new_def)
  with s'(1) show ?thesis by blast
qed

lemma memfs_props_collide_witness:
  "\<exists>s'. memfs_patch_props req_d [(True, dav_prop_new ''c'' ''p'' ''urn:ab'' ''1'')] fs_demo =
       Some (Inr [(200, cloneprop (dav_prop_new ''c'' ''p'' ''urn:ab'' ''1''))], s') \<and>
     memfs_get_prop req_d (dav_prop_new ''bc'' ''p'' ''urn:a'' ''2'') s' =
       Some (Inr (the (pr_xml (dav_prop_new ''c'' ''p'' ''urn:ab'' ''1''))), s')"
  by (rule memfs_props_collide [OF fs_demo_facts(1)]) (simp add: fs_demo_facts(3) demo_d_facts)

end
