(* ===== verification/Handle_Get.thy ===== *)
theory Handle_Get
  imports Handle_Put
begin

text \<open>
  \<^verbatim>\<open>GET\<close> and \<^verbatim>\<open>HEAD\<close>, \<^verbatim>\<open>src/handle_gethead.rs\<close>.  The pieces a response streams are the list of them, read
  to the end.  Two things come from outside: the boundary of a multipart answer is made from a fresh
  UUID, and the page of a directory index is the text that \<open>render\<close> makes of the sorted entries
  (\<open>Handle_Index\<close>).
\<close>

section \<open>Ranges\<close>

definition multipart_boundary :: "bytes \<Rightarrow> bytes" where
  "multipart_boundary uuid = ''dav-server-'' @ uuid"

definition READ_BUF_SIZE :: nat where "READ_BUF_SIZE = 16384"

text \<open>First and last byte of a range, and whether its form is one the handler serves.\<close>

fun range_bounds :: "nat \<Rightarrow> range_bound \<times> range_bound \<Rightarrow> nat \<times> nat \<times> bool" where
  "range_bounds len (Included s, Included e) = (if s \<le> e then (s, e, True) else (0, 0, False))"
| "range_bounds len (Included s, Unbounded) = (s, u64_max, True)"
| "range_bounds len (Unbounded, Included n) = (if n \<le> len then (len - n, u64_max, True) else (0, 0, False))"
| "range_bounds len _ = (0, 0, False)"

text \<open>The ranges to send, as start and count; \<open>None\<close> when one cannot be satisfied.\<close>

fun scan_ranges :: "nat \<Rightarrow> (range_bound \<times> range_bound) list \<Rightarrow> (nat \<times> nat) list \<Rightarrow> (nat \<times> nat) list option" where
  "scan_ranges len [] acc = Some acc"
| "scan_ranges len (r # rs) acc =
     (let (start, e, valid) = range_bounds len r
      in if \<not> valid \<or> len \<le> start then None
         else (let e1 = min e (len - 1) in scan_ranges len rs (acc @ [(start, e1 - start + 1)])))"

text \<open>What is known before the body: the response, the ranges, and whether the body is left out.\<close>

type_synonym get_state = "response \<times> (nat \<times> nat) list \<times> bool"

definition not_satisfiable :: "nat \<Rightarrow> response \<Rightarrow> get_state" where
  "not_satisfiable len res =
     ((set_header ''content-range'' (''bytes */'' @ show_nat len) res)\<lparr>rs_status := 416\<rparr>, [], True)"

definition range_phase :: "http_env \<Rightarrow> request \<Rightarrow> nat \<Rightarrow> bool \<Rightarrow> bool \<Rightarrow> response \<Rightarrow> get_state" where
  "range_phase env rq len do_range no_body res =
     (case (if do_range then typed_get rq ''range'' (range_decode env) else None) of
        None \<Rightarrow> (res, [], no_body)
      | Some r \<Rightarrow> (case scan_ranges len (r len) [] of
           None \<Rightarrow> not_satisfiable len res
         | Some ranges \<Rightarrow> (res, ranges, no_body)))"

definition seek_phase :: "('s, 'h, 'l) server \<Rightarrow> nat \<Rightarrow> get_state \<Rightarrow> 'h \<Rightarrow> ('s, 'l, get_state \<times> 'h) handler" where
  "seek_phase sv len st h =
     (case st of
        (res, [], no_body) \<Rightarrow> ok (st, h)
      | (res, (start, _) # _, no_body) \<Rightarrow>
          bind (attempt (on_fs (f_seek (sv_fs sv) h (SeekStart start)))) (\<lambda>r. case r of
              Inl _ \<Rightarrow> ok (not_satisfiable len res, h)
            | Inr (_, h') \<Rightarrow> ok (st, h')))"

definition range_text :: "nat \<Rightarrow> nat \<times> nat \<Rightarrow> bytes" where
  "range_text len r = ''bytes '' @ show_nat (fst r) @ ''-'' @ show_nat (fst r + snd r - 1) @ ''/'' @ show_nat len"

text \<open>The headers about the content; the ranges, when there are none, become the whole file.\<close>

definition content_phase :: "bytes \<Rightarrow> nat \<Rightarrow> bool \<Rightarrow> bytes \<Rightarrow> get_state \<Rightarrow> get_state" where
  "content_phase boundary len head ctype st =
     (let (res, ranges, no_body) = st;
          res1 = (if ranges = [] then res
                  else if length ranges = 1
                  then (set_header ''content-range'' (range_text len (hd ranges)) res)\<lparr>rs_status := 206\<rparr>
                  else (set_header ''content-type'' (''multipart/byteranges; boundary='' @ boundary) res)\<lparr>rs_status := 206\<rparr>);
          ranges1 = (if ranges = [] then [(0, len)] else ranges);
          res2 = (if length ranges1 \<le> 1 then
                    (let r = set_header ''content-type'' ctype res1;
                         n = (if head \<or> \<not> no_body \<or> rs_status r = 304 then snd (hd ranges1) else 0)
                     in set_header ''content-length'' (show_nat n) r)
                  else res1)
      in (res2, ranges1, no_body))"

section \<open>The body\<close>

text \<open>The stream of a body ends with an error of the file, after the pieces sent before it.\<close>

type_synonym ('s, 'l, 'a) stream = "(('s, 'l) world, io_error \<times> bytes list, 'a) act"

text \<open>One range: each round sends at least one byte, so the count bounds the rounds.  A file that has
  become shorter is filled up with zeros.\<close>

fun send_bytes :: "nat \<Rightarrow> ('s, 'h, 'l) server \<Rightarrow> nat \<Rightarrow> nat \<Rightarrow> 'h \<times> nat \<times> bytes list \<Rightarrow>
    ('s, 'l, 'h \<times> nat \<times> bytes list) stream" where
  "send_bytes 0 sv bufsize count st = (if count = 0 then ok st else diverge)"
| "send_bytes (Suc f) sv bufsize count (h, cur, out) =
     (if count = 0 then ok (h, cur, out)
      else bind (map_err (\<lambda>e. (fserror_to_ioerror e, out)) (on_fs (f_read_bytes (sv_fs sv) h (min count bufsize))))
        (\<lambda>(buf, h').
          let buf1 = (if buf = [] then replicate (min count 4096) (CHR 0x00) else buf)
          in send_bytes f sv bufsize (saturating_sub count (length buf1)) (h', cur + length buf1, out @ [buf1])))"

definition part_header :: "bytes \<Rightarrow> bytes \<Rightarrow> nat \<Rightarrow> nat \<times> nat \<Rightarrow> bytes" where
  "part_header boundary ctype len r =
     crlf @ ''--'' @ boundary @ crlf @ ''Content-Range: '' @ range_text len r @ crlf
     @ ''Content-Type: '' @ ctype @ crlf @ crlf"

definition part_end :: "bytes \<Rightarrow> bytes" where
  "part_end boundary = crlf @ ''--'' @ boundary @ ''--'' @ crlf"

text \<open>\<open>part\<close> is the header to send before a range, if any.\<close>

fun send_ranges :: "('s, 'h, 'l) server \<Rightarrow> nat \<Rightarrow> (nat \<times> nat \<Rightarrow> bytes list) \<Rightarrow> (nat \<times> nat) list \<Rightarrow> 'h \<times> nat \<times> bytes list \<Rightarrow>
    ('s, 'l, 'h \<times> nat \<times> bytes list) stream" where
  "send_ranges sv bufsize part [] st = ok st"
| "send_ranges sv bufsize part (r # rs) (h, cur, out) =
     bind (if cur \<noteq> fst r then attempt (on_fs (f_seek (sv_fs sv) h (SeekStart (fst r)))) else ok (Inr (fst r, h)))
       (\<lambda>s. case s of
          Inl _ \<Rightarrow> send_ranges sv bufsize part rs (h, cur, out)
        | Inr (_, h') \<Rightarrow>
            bind (send_bytes (snd r) sv bufsize (snd r) (h', fst r, out @ part r))
              (send_ranges sv bufsize part rs))"

definition get_stream :: "('s, 'h, 'l) server \<Rightarrow> bytes \<Rightarrow> bytes \<Rightarrow> nat \<Rightarrow> (nat \<times> nat) list \<Rightarrow> nat \<Rightarrow> 'h \<Rightarrow> ('s, 'l, body) handler" where
  "get_stream sv boundary ctype len ranges cur h = (\<lambda>w.
     let multipart = 1 < length ranges;
         bufsize = (case sv_read_buf_size sv of Some n \<Rightarrow> n | None \<Rightarrow> READ_BUF_SIZE);
         part = (\<lambda>r. if multipart then [part_header boundary ctype len r] else [])
     in case send_ranges sv bufsize part ranges (h, cur, []) w of
          None \<Rightarrow> None
        | Some (Inl (e, out), w') \<Rightarrow> Some (Inr (BStream out (Some (IoErr e))), w')
        | Some (Inr (_, _, out), w') \<Rightarrow>
            Some (Inr (BStream (out @ (if multipart then [part_end boundary] else [])) None), w'))"

section \<open>Directory index\<close>

text \<open>\<^verbatim>\<open>String::from_utf8_lossy\<close>: each maximal piece that no valid sequence starts with becomes one
  replacement character.\<close>

definition replacement :: bytes where "replacement = [CHR 0xEF, CHR 0xBF, CHR 0xBD]"

text \<open>How many bytes of the input the next character takes, and whether they are valid.\<close>

definition second_ok :: "byte \<Rightarrow> byte \<Rightarrow> bool" where
  "second_ok a b \<longleftrightarrow>
     (if in_range 194 223 a then cont b
      else if in_range 224 239 a then
        in_range (if of_char a = (224::nat) then 160 else 128) (if of_char a = (237::nat) then 159 else 191) b
      else in_range 240 244 a \<and>
        in_range (if of_char a = (240::nat) then 144 else 128) (if of_char a = (244::nat) then 143 else 191) b)"

definition utf8_len :: "byte \<Rightarrow> nat" where
  "utf8_len a = (if in_range 0 127 a then 1 else if in_range 194 223 a then 2
     else if in_range 224 239 a then 3 else if in_range 240 244 a then 4 else 0)"

definition utf8_chunk :: "byte \<Rightarrow> bytes \<Rightarrow> nat \<times> bool" where
  "utf8_chunk a xs =
     (let n = utf8_len a
      in if n = 0 then (1, False)
         else if n = 1 then (1, True)
         else (case xs of
             [] \<Rightarrow> (1, False)
           | b # ys \<Rightarrow>
               if \<not> second_ok a b then (1, False)
               else (let more = length (takeWhile cont (take (n - 2) ys)) in (2 + more, more = n - 2))))"

fun utf8_lossy_fuel :: "nat \<Rightarrow> bytes \<Rightarrow> bytes" where
  "utf8_lossy_fuel 0 s = []"
| "utf8_lossy_fuel (Suc f) [] = []"
| "utf8_lossy_fuel (Suc f) (a # xs) =
     (let (n, valid) = utf8_chunk a xs
      in (if valid then take n (a # xs) else replacement) @ utf8_lossy_fuel f (drop n (a # xs)))"

definition utf8_lossy :: "bytes \<Rightarrow> bytes" where
  "utf8_lossy s = utf8_lossy_fuel (length s) s"

text \<open>An entry of the index: its address, the name shown, and its metadata.  Directories come first,
  then names in byte order; the sort is stable.\<close>

type_synonym index_entry = "bytes \<times> bytes \<times> dav_meta"

fun bytes_le :: "bytes \<Rightarrow> bytes \<Rightarrow> bool" where
  "bytes_le [] b = True"
| "bytes_le (x # xs) [] = False"
| "bytes_le (x # xs) (y # ys) = (of_char x < (of_char y :: nat) \<or> x = y \<and> bytes_le xs ys)"

definition entry_le :: "index_entry \<Rightarrow> index_entry \<Rightarrow> bool" where
  "entry_le a b =
     (let adir = md_is_dir (snd (snd a)); bdir = md_is_dir (snd (snd b))
      in if adir \<and> \<not> bdir then True else if bdir \<and> \<not> adir then False
         else bytes_le (fst (snd a)) (fst (snd b)))"

fun entry_insert :: "index_entry \<Rightarrow> index_entry list \<Rightarrow> index_entry list" where
  "entry_insert e [] = [e]"
| "entry_insert e (x # xs) = (if entry_le e x then e # x # xs else x # entry_insert e xs)"

definition sort_entries :: "index_entry list \<Rightarrow> index_entry list" where
  "sort_entries es = foldr entry_insert es []"

fun index_entries :: "('s, 'h, 'l) server \<Rightarrow> dav_path \<Rightarrow> (fs_error + 's dirent) list \<Rightarrow> ('s, 'l, index_entry list) handler" where
  "index_entries sv path [] = ok []"
| "index_entries sv path (Inl e # es) = index_entries sv path es"
| "index_entries sv path (Inr de # es) =
     (if is_collection_marker (de_name de) then index_entries sv path es
      else if sv_hide_dot_prefix sv \<in> {HideInAutoIndexListings, HideInListings, HideAlways}
              \<and> starts_with (de_name de) ''.''
      then index_entries sv path es
      else bind (attempt (on_fs (de_metadata de))) (\<lambda>r. case r of
          Inl _ \<Rightarrow> index_entries sv path es
        | Inr meta \<Rightarrow>
            if md_is_symlink meta then index_entries sv path es
            else (let npath = add_slash_if (md_is_dir meta) (push_segment (de_name de) path);
                      name = (if md_is_dir meta then de_name de @ [slash] else de_name de)
                  in bind (index_entries sv path es) (\<lambda>rest.
                       ok ((as_url_string_with_prefix (pct_encode (sv_http sv)) npath, utf8_lossy name, meta) # rest)))))"

definition handle_autoindex :: "(dav_path \<Rightarrow> index_entry list \<Rightarrow> bytes) \<Rightarrow> ('s, 'h, 'l) server \<Rightarrow> request \<Rightarrow> bool \<Rightarrow>
    ('s, 'l, response) handler" where
  "handle_autoindex render sv rq head =
     req_path sv rq (\<lambda>path.
       let allow_propfind = (case sv_allow sv of Some x \<Rightarrow> methods_contains x MPropFind | None \<Rightarrow> False)
       in if \<not> (case sv_autoindex sv of Some b \<Rightarrow> b | None \<Rightarrow> allow_propfind) then fail (StatusClose 405)
          else bind (fs_try (fs_read_dir (sv_fs sv) path (get_read_dir_meta sv))) (\<lambda>entries.
            let res = (set_header ''content-type'' ''text/html; charset=utf-8'' response_new)\<lparr>rs_status := 200\<rparr>
            in if head then ok res
               else bind (index_entries sv path entries) (\<lambda>es.
                 ok (res\<lparr>rs_body := BText (render path (sort_entries es))\<rparr>))))"

section \<open>The handler\<close>

text \<open>A value that \<^verbatim>\<open>parse().unwrap()\<close> puts in a header.\<close>

definition header_unwrap :: "bytes option \<Rightarrow> bytes \<Rightarrow> response \<Rightarrow> ('s, 'l, response) handler" where
  "header_unwrap v name res = (case v of None \<Rightarrow> diverge | Some x \<Rightarrow> ok (set_header name x res))"

definition get_do_range :: "http_env \<Rightarrow> request \<Rightarrow> dav_meta \<Rightarrow> bool" where
  "get_do_range env rq meta =
     (case typed_try_get rq ''if-range'' (ifrange_decode env) of
        Inr (Some r) \<Rightarrow> ifrange_match r (etag_from_meta meta) (case md_modified meta of Inr t \<Rightarrow> Some t | Inl _ \<Rightarrow> None)
      | Inr None \<Rightarrow> True
      | Inl _ \<Rightarrow> False)"

definition get_validators :: "http_env \<Rightarrow> dav_meta \<Rightarrow> ('s, 'l, response) handler" where
  "get_validators env meta =
     (let res = (case md_modified meta of
                   Inr t \<Rightarrow> set_header ''last-modified'' (date_encode env t) response_new | Inl _ \<Rightarrow> response_new)
      in case etag_from_meta meta of
           None \<Rightarrow> ok res
         | Some e \<Rightarrow> header_unwrap (etag_encode env e) ''etag'' res)"

text \<open>The redirect a file may ask for.\<close>

definition get_redirect :: "('s, 'h, 'l) server \<Rightarrow> 'h \<Rightarrow> ('s, 'l, bytes option \<times> 'h) handler" where
  "get_redirect sv h =
     (if sv_redirect sv = Some True then fs_try (f_redirect_url (sv_fs sv) h) else ok (None, h))"

text \<open>From the metadata of the open file on.\<close>

definition get_file :: "bytes \<Rightarrow> ('s, 'h, 'l) server \<Rightarrow> request \<Rightarrow> bool \<Rightarrow> dav_path \<Rightarrow> dav_meta \<Rightarrow> 'h \<Rightarrow> ('s, 'l, response) handler" where
  "get_file uuid sv rq head path meta h =
     bind (get_validators (sv_http sv) meta) (\<lambda>res0.
     bind (get_redirect sv h) (\<lambda>(url, h1). case url of
         Some u \<Rightarrow> bind (header_unwrap (hv_from_str (sv_http sv) u) ''location'' res0) (\<lambda>res. ok (res\<lparr>rs_status := 302\<rparr>))
       | None \<Rightarrow>
           (let res1 = set_header ''accept-ranges'' ''bytes'' res0; len = md_len meta
            in bind (if_match sv rq (Some meta) path) (\<lambda>cond.
               let (res2, no_body, do_range) = (case cond of
                     Some s \<Rightarrow> (res1\<lparr>rs_status := s\<rparr>, True, False)
                   | None \<Rightarrow> (res1, False, get_do_range (sv_http sv) rq meta))
               in bind (seek_phase sv len (range_phase (sv_http sv) rq len do_range no_body res2) h1) (\<lambda>(st, h2).
                  let boundary = multipart_boundary uuid;
                      ctype = mime_type (mime_guess (sv_http sv)) path;
                      (res3, ranges, no_body1) = content_phase boundary len head ctype st
                  in if head \<or> no_body1 then ok res3
                     else bind (get_stream sv boundary ctype len ranges (fst (hd ranges)) h2)
                            (\<lambda>b. ok (res3\<lparr>rs_body := b\<rparr>)))))))"

definition handle_get :: "bytes \<Rightarrow> (dav_path \<Rightarrow> index_entry list \<Rightarrow> bytes) \<Rightarrow> ('s, 'h, 'l) server \<Rightarrow> request \<Rightarrow>
    ('s, 'l, response) handler" where
  "handle_get uuid render sv rq =
     (let head = (rq_method rq = ''HEAD'')
      in req_path sv rq (\<lambda>path.
         if sv_probe sv \<and> sv_autoindex sv \<noteq> Some True \<and> \<not> head \<and> as_bytes path = ''/remote.php/webdav/'' then
           ok (set_header ''accept-ranges'' ''bytes'' (set_header ''content-length'' ''0'' response_new))
         else bind (visible_metadata sv path) (\<lambda>meta0.
           if md_is_dir meta0 \<and> \<not> is_collection path then
             ok ((set_header ''content-length'' ''0'' (set_header ''location''
                    (as_url_string_with_prefix (pct_encode (sv_http sv)) (add_slash path)) response_new))\<lparr>rs_status := 302\<rparr>)
           else if md_is_dir meta0 \<and> sv_indexfile sv = None then handle_autoindex render sv rq head
           else (let path1 = (case sv_indexfile sv of
                        Some f \<Rightarrow> if md_is_dir meta0 then push_segment f path else path | None \<Rightarrow> path)
                 in bind (fs_try (fs_open (sv_fs sv) path1 oo_for_read)) (\<lambda>h.
                    bind (fs_try (f_metadata (sv_fs sv) h)) (\<lambda>(meta, h1).
                      if \<not> md_is_file meta then fail (Status 405)
                      else get_file uuid sv rq head path1 meta h1))))))"

end
