(* ===== verification/Mem_Get.thy ===== *)
theory Mem_Get
  imports Handle_Get Mem_Handlers
begin

text \<open>
  \<^verbatim>\<open>GET\<close> on the in-memory filesystem: what the stream of a body sends, and the ranges it is asked for.
\<close>

section \<open>Ranges lie within the file\<close>

definition in_file :: "nat \<Rightarrow> nat \<times> nat \<Rightarrow> bool" where
  "in_file len r \<longleftrightarrow> fst r + snd r \<le> len"

lemma scan_ranges_in_file:
  assumes "scan_ranges len rs acc = Some ranges" and "\<forall>r \<in> set acc. in_file len r"
  shows "\<forall>r \<in> set ranges. in_file len r"
  using assms
proof (induction len rs acc rule: scan_ranges.induct)
  case (2 len r rs acc)
  obtain s e v where r: "range_bounds len r = (s, e, v)" by (metis prod_cases3)
  with 2(2) have s: "v" "s < len" "scan_ranges len rs (acc @ [(s, min e (len - 1) - s + 1)]) = Some ranges"
    by (simp_all add: Let_def split: if_splits)
  show ?case
  proof (rule 2(1) [OF r [symmetric] refl refl _ refl s(3)])
    show "\<not> (\<not> v \<or> len \<le> s)" using s by simp
    show "\<forall>r \<in> set (acc @ [(s, min e (len - 1) - s + 1)]). in_file len r"
      using 2(3) s(2) by (auto simp: in_file_def)
  qed
qed simp

section \<open>Reading and sending\<close>

lemma handle_on_pos [simp]: "handle_on s (h\<lparr>mh_pos := p\<rparr>) ks f = handle_on s h ks f"
  by (simp add: handle_on_def)

lemma mem_read_op [simp]: "f_read_bytes (memfs_ops a) = memf_read_bytes" "f_seek (memfs_ops a) = memf_seek"
  "f_metadata (memfs_ops a) = memf_metadata" "f_redirect_url (memfs_ops a) = (\<lambda>h. ok (None, h))"
  by (simp_all add: memfs_ops_def)

lemma memf_seek_start: "memf_seek h (SeekStart n) s = Some (Inr (n, h\<lparr>mh_pos := n\<rparr>), s)"
  by (simp add: memf_seek_def)

lemma mem_send_bytes:
  fixes sv :: "(mem_fs, mem_file, 'l) server"
  assumes sv: "sv_fs sv = memfs_ops a" and ok: "fs_ok (w_fs w)" and f: "length (fl_data f) \<le> u64_max" and bs: "0 < bufsize"
  shows "handle_on (w_fs w) h ks f \<Longrightarrow> mh_pos h = cur \<Longrightarrow> cur + count \<le> length (fl_data f) \<Longrightarrow> count \<le> n \<Longrightarrow>
    \<exists>out'. send_bytes n sv bufsize count (h, cur, out) w = Some (Inr (h\<lparr>mh_pos := cur + count\<rparr>, cur + count, out @ out'), w) \<and>
      concat out' = take count (drop cur (fl_data f))"
proof (induction n arbitrary: h cur count out)
  case (Suc n)
  show ?case
  proof (cases "count = 0")
    case True
    have "h\<lparr>mh_pos := cur\<rparr> = h" using Suc.prems(2) by auto
    with True show ?thesis by simp
  next
    case False
    let ?k = "min count bufsize"
    define b where "b = take ?k (drop cur (fl_data f))"
    have len: "length b = ?k" using Suc.prems(3) by (simp add: b_def)
    then have ne: "b \<noteq> []" using False bs by (metis length_greater_0_conv min_less_iff_conj neq0_conv)
    have read: "memf_read_bytes h ?k (w_fs w) = Some (Inr (b, h\<lparr>mh_pos := cur + ?k\<rparr>), w_fs w)"
      using memf_read_ok [OF ok Suc.prems(1) f, of ?k] Suc.prems(2) len by (simp add: b_def)
    have sub: "saturating_sub count (length b) = count - ?k" by (simp only: saturating_sub_def len) simp
    have "\<exists>out'. send_bytes n sv bufsize (count - ?k) (h\<lparr>mh_pos := cur + ?k\<rparr>, cur + ?k, out @ [b]) w =
        Some (Inr (h\<lparr>mh_pos := cur + ?k\<rparr>\<lparr>mh_pos := cur + ?k + (count - ?k)\<rparr>, cur + ?k + (count - ?k), (out @ [b]) @ out'), w) \<and>
        concat out' = take (count - ?k) (drop (cur + ?k) (fl_data f))"
      using Suc.prems False bs by (intro Suc.IH) auto
    then obtain out' where o: "send_bytes n sv bufsize (count - ?k) (h\<lparr>mh_pos := cur + ?k\<rparr>, cur + ?k, out @ [b]) w =
        Some (Inr (h\<lparr>mh_pos := cur + count\<rparr>, cur + count, out @ b # out'), w)"
      "concat out' = take (count - ?k) (drop (cur + ?k) (fl_data f))" by auto
    have "b @ take (count - ?k) (drop (cur + ?k) (fl_data f)) = take count (drop cur (fl_data f))"
      using take_add [of ?k "count - ?k" "drop cur (fl_data f)"] by (simp add: add.commute b_def)
    then show ?thesis
      using read o ne sub False len
      by (intro exI [of _ "b # out'"]) (simp add: on_fs_def sv Let_def)
  qed
qed (auto intro!: exI [of _ "[]"])

lemma mem_send_ranges:
  fixes sv :: "(mem_fs, mem_file, 'l) server"
  assumes sv: "sv_fs sv = memfs_ops a" and ok: "fs_ok (w_fs w)" and f: "length (fl_data f) \<le> u64_max" and b: "0 < bufsize"
  shows "handle_on (w_fs w) h ks f \<Longrightarrow> mh_pos h = cur \<Longrightarrow> \<forall>r \<in> set ranges. in_file (length (fl_data f)) r \<Longrightarrow>
    \<exists>h' cur' out'. send_ranges sv bufsize part ranges (h, cur, out) w = Some (Inr (h', cur', out @ out'), w) \<and>
      concat out' = concat (map (\<lambda>r. concat (part r) @ take (snd r) (drop (fst r) (fl_data f))) ranges)"
proof (induction ranges arbitrary: h cur out)
  case (Cons r rs)
  let ?h = "h\<lparr>mh_pos := fst r\<rparr>"
  have seek: "bind (if cur \<noteq> fst r then attempt (on_fs (f_seek (sv_fs sv) h (SeekStart (fst r)))) else ok (Inr (fst r, h))) k w =
      k (Inr (fst r, ?h)) w" for k :: "fs_error + nat \<times> mem_file \<Rightarrow> (mem_fs, 'l, mem_file \<times> nat \<times> bytes list) stream"
    using Cons.prems(2) by (auto simp: sv on_fs_def memf_seek_start)
  have "fst r + snd r \<le> length (fl_data f)" using Cons.prems(3) by (simp add: in_file_def)
  from mem_send_bytes [OF sv ok f b, of ?h ks "fst r" "snd r" "snd r" "out @ part r"] Cons.prems(1) this obtain o1 where
    o1: "send_bytes (snd r) sv bufsize (snd r) (?h, fst r, out @ part r) w =
        Some (Inr (?h\<lparr>mh_pos := fst r + snd r\<rparr>, fst r + snd r, (out @ part r) @ o1), w)"
      "concat o1 = take (snd r) (drop (fst r) (fl_data f))" by auto
  from Cons.IH [of "?h\<lparr>mh_pos := fst r + snd r\<rparr>" "fst r + snd r" "(out @ part r) @ o1"] Cons.prems(1,3)
  obtain h' cur' o2 where o2: "send_ranges sv bufsize part rs (?h\<lparr>mh_pos := fst r + snd r\<rparr>, fst r + snd r, (out @ part r) @ o1) w =
      Some (Inr (h', cur', ((out @ part r) @ o1) @ o2), w)"
    "concat o2 = concat (map (\<lambda>r. concat (part r) @ take (snd r) (drop (fst r) (fl_data f))) rs)" by auto
  show ?case
    by (rule exI [of _ h'], rule exI [of _ cur'], rule exI [of _ "part r @ o1 @ o2"])
      (use o1 o2 in \<open>simp add: seek\<close>)
qed (auto intro!: exI [of _ "[]"])

section \<open>The handler\<close>

text \<open>The bytes a client receives, when the transfer is not cut short.\<close>

fun content :: "body \<Rightarrow> bytes option" where
  "content BEmpty = Some []"
| "content (BStream ps None) = Some (concat ps)"
| "content (BText t) = Some t"
| "content _ = None"

text \<open>The ranges a request is served: \<open>None\<close> when one cannot be satisfied, the empty list for the whole
  file.\<close>

definition served_ranges :: "http_env \<Rightarrow> request \<Rightarrow> dav_meta \<Rightarrow> (nat \<times> nat) list option" where
  "served_ranges env rq meta =
     (case (if get_do_range env rq meta then typed_get rq ''range'' (range_decode env) else None) of
        None \<Rightarrow> Some []
      | Some r \<Rightarrow> scan_ranges (md_len meta) (r (md_len meta)) [])"

lemma range_phase_served:
  "range_phase env rq (md_len meta) (get_do_range env rq meta) b res =
     (case served_ranges env rq meta of None \<Rightarrow> not_satisfiable (md_len meta) res | Some rs \<Rightarrow> (res, rs, b))"
  by (simp add: range_phase_def served_ranges_def split: option.splits)

lemma served_in_file:
  "served_ranges env rq meta = Some rs \<Longrightarrow> \<forall>r \<in> set rs. in_file (md_len meta) r"
  using scan_ranges_in_file [of "md_len meta" _ "[]"] by (fastforce simp: served_ranges_def split: option.splits if_splits)

lemma mem_get_stream:
  fixes sv :: "(mem_fs, mem_file, 'l) server"
  assumes sv: "sv_fs sv = memfs_ops a" and ok: "fs_ok (w_fs w)" and f: "length (fl_data f) \<le> u64_max"
    and b: "sv_read_buf_size sv \<noteq> Some 0" and h: "handle_on (w_fs w) h ks f" and pos: "mh_pos h = cur"
    and rs: "\<forall>r \<in> set ranges. in_file (length (fl_data f)) r"
  shows "\<exists>ps. get_stream sv boundary ctype len ranges cur h w = Some (Inr (BStream ps None), w) \<and>
    concat ps = concat (map (\<lambda>r. (if 1 < length ranges then part_header boundary ctype len r else []) @
        take (snd r) (drop (fst r) (fl_data f))) ranges) @
      (if 1 < length ranges then part_end boundary else [])"
proof -
  let ?bs = "case sv_read_buf_size sv of Some n \<Rightarrow> n | None \<Rightarrow> READ_BUF_SIZE"
  let ?part = "\<lambda>r. if 1 < length ranges then [part_header boundary ctype len r] else []"
  have "0 < ?bs" using b by (auto simp: READ_BUF_SIZE_def split: option.splits)
  from mem_send_ranges [OF sv ok f this h pos rs, of ?part "[]"] obtain h' cur' out where
    o: "send_ranges sv ?bs ?part ranges (h, cur, []) w = Some (Inr (h', cur', out), w)"
      "concat out = concat (map (\<lambda>r. concat (?part r) @ take (snd r) (drop (fst r) (fl_data f))) ranges)" by auto
  have "(\<lambda>r. concat (?part r) @ take (snd r) (drop (fst r) (fl_data f))) =
      (\<lambda>r. (if 1 < length ranges then part_header boundary ctype len r else []) @ take (snd r) (drop (fst r) (fl_data f)))"
    by auto
  then show ?thesis
    using o by (intro exI [of _ "out @ (if 1 < length ranges then [part_end boundary] else [])"])
      (simp add: get_stream_def Let_def)
qed

lemma memf_metadata_run:
  assumes "fs_ok s" and "handle_on s h ks f"
  shows "memf_metadata h s = Some (Inr (as_dirent (MFile f), h), s)"
proof -
  obtain d where "wf_rank (mf_tree s) d" using fs_ok_wf [OF assms(1)] by (rule fs_wfE)
  from get_node_map [OF this, of ks] assms(2) show ?thesis
    by (auto simp: handle_on_def fs_map_def memf_metadata_def on_tree_def lift_lookup_def)
qed

lemma mem_read_open:
  assumes "fs_ok s" and "fs_map s (segs_of path) = Some (MFile f)"
  shows "\<exists>h s'. memfs_open path oo_for_read s = Some (Inr h, s') \<and> fs_ok s' \<and> fs_map s' = fs_map s \<and>
    mf_clock s' = mf_clock s \<and> handle_on s' h (segs_of path) f \<and> mh_pos h = 0"
  using memfs_open_ok [OF assms(1), of path oo_for_read] assms(2)
  by (auto simp: open_result_def oo_for_read_def fun_upd_idem)

text \<open>What a client is told and given, for a file with the bytes \<open>dat\<close>.\<close>

definition slice :: "bytes \<Rightarrow> nat \<times> nat \<Rightarrow> bytes" where
  "slice dat r = take (snd r) (drop (fst r) dat)"

definition header_of :: "bytes \<Rightarrow> response \<Rightarrow> bytes option" where
  "header_of name res = map_of (rs_headers res) name"

lemma header_of_set [simp]:
  "header_of n (set_header m v res) = (if n = m then Some v else header_of n res)"
  "header_of n response_new = None"
  by (simp_all add: header_of_def set_header_def response_new_def update_conv')

lemma header_of_upd [simp]:
  "header_of n (res\<lparr>rs_status := st\<rparr>) = header_of n res" "header_of n (res\<lparr>rs_body := b\<rparr>) = header_of n res"
  by (simp_all add: header_of_def)

lemma set_header_fields [simp]:
  "rs_status (set_header m v res) = rs_status res" "rs_body (set_header m v res) = rs_body res"
  by (simp_all add: set_header_def)

definition get_answer :: "bytes \<Rightarrow> bytes \<Rightarrow> bytes \<Rightarrow> (nat \<times> nat) list option \<Rightarrow> response \<Rightarrow> bool" where
  "get_answer boundary ctype dat served res \<longleftrightarrow>
     (served \<noteq> None \<longrightarrow> (\<exists>ps. rs_body res = BStream ps None)) \<and>
     (case served of
        None \<Rightarrow> rs_status res = 416 \<and> content (rs_body res) = Some [] \<and>
          header_of ''content-range'' res = Some (''bytes */'' @ show_nat (length dat))
      | Some [] \<Rightarrow> rs_status res = 200 \<and> content (rs_body res) = Some dat \<and>
          header_of ''content-length'' res = Some (show_nat (length dat)) \<and> header_of ''content-range'' res = None
      | Some [r] \<Rightarrow> rs_status res = 206 \<and> content (rs_body res) = Some (slice dat r) \<and>
          header_of ''content-length'' res = Some (show_nat (length (slice dat r))) \<and>
          header_of ''content-range'' res = Some (range_text (length dat) r)
      | Some rs \<Rightarrow> rs_status res = 206 \<and>
          header_of ''content-type'' res = Some (''multipart/byteranges; boundary='' @ boundary) \<and>
          content (rs_body res) =
            Some (concat (map (\<lambda>r. part_header boundary ctype (length dat) r @ slice dat r) rs) @ part_end boundary))"

lemma mem_get_file:
  fixes sv :: "(mem_fs, mem_file, 'l) server"
  assumes sv: "sv_fs sv = memfs_ops a" and ok: "fs_ok (w_fs w)" and f: "length (fl_data f) \<le> u64_max"
    and b: "sv_read_buf_size sv \<noteq> Some 0" and h: "handle_on (w_fs w) h ks f" and pos: "mh_pos h = 0"
    and cond: "header_values rq ''if'' = []" "http_if_match (sv_http sv) rq (Some (as_dirent (MFile f))) = None"
    and tag: "\<And>e. etag_from_meta (as_dirent (MFile f)) = Some e \<Longrightarrow> etag_encode (sv_http sv) e \<noteq> None"
  shows "\<exists>res. get_file uuid sv rq False path (as_dirent (MFile f)) h w = Some (Inr res, w) \<and>
    get_answer (multipart_boundary uuid) (mime_type (mime_guess (sv_http sv)) path) (fl_data f)
      (served_ranges (sv_http sv) rq (as_dirent (MFile f))) res"
proof -
  let ?env = "sv_http sv" and ?m = "as_dirent (MFile f)" and ?len = "length (fl_data f)"
  let ?b = "multipart_boundary uuid" and ?ct = "mime_type (mime_guess (sv_http sv)) path"
  have len: "md_len ?m = ?len" by (simp add: mem_meta_def)
  have "\<exists>res0. get_validators ?env ?m w = Some (Inr res0, w) \<and> rs_status res0 = 200 \<and> rs_body res0 = BEmpty \<and>
      header_of ''content-range'' res0 = None"
    using tag by (auto simp: get_validators_def header_unwrap_def mem_meta_def Let_def response_new_def header_of_def set_header_def
        update_conv' split: option.splits)
  then obtain res0 where v: "get_validators ?env ?m w = Some (Inr res0, w)" "rs_status res0 = 200" "rs_body res0 = BEmpty"
      "header_of ''content-range'' res0 = None" by blast
  note [simp del] = as_dirent.simps
  have rd: "get_redirect sv h w = Some (Inr (None, h), w)"
    by (simp add: get_redirect_def sv fs_try_def on_fs_def)
  have im: "(if_match sv rq (Some ?m) path :: ((mem_fs, 'l) world, dav_error, status option) act) w = Some (Inr None, w)"
    using cond by (simp add: if_match_def dav_if_match_def typed_get_def)
  let ?res1 = "set_header ''accept-ranges'' ''bytes'' res0"
  have rp: "range_phase ?env rq ?len (get_do_range ?env rq ?m) False ?res1 =
      (case served_ranges ?env rq ?m of None \<Rightarrow> not_satisfiable ?len ?res1 | Some rs \<Rightarrow> (?res1, rs, False))"
    using range_phase_served [of ?env rq ?m False ?res1] by (simp add: len split: option.splits)
  show ?thesis
  proof (cases "served_ranges ?env rq ?m")
    case None
    then show ?thesis
      using v rd im rp by (simp add: get_file_def Let_def len not_satisfiable_def seek_phase_def content_phase_def get_answer_def)
  next
    case (Some rs)
    note inf = served_in_file [OF Some, unfolded len]
    let ?rs = "if rs = [] then [(0, ?len)] else rs"
    let ?cur = "fst (hd ?rs)" and ?h = "if rs = [] then h else h\<lparr>mh_pos := fst (hd rs)\<rparr>"
    have seek: "seek_phase sv ?len (?res1, rs, False) h w = Some (Inr ((?res1, rs, False), ?h), w)"
      by (cases rs) (auto simp: seek_phase_def sv on_fs_def memf_seek_start split_beta)
    have inf': "\<forall>r \<in> set ?rs. in_file ?len r" using inf by (auto simp: in_file_def)
    have h': "handle_on (w_fs w) ?h ks f" "mh_pos ?h = ?cur" using h pos by auto
    from mem_get_stream [OF sv ok f b h' inf', of ?b ?ct ?len] obtain ps where
      ps: "get_stream sv ?b ?ct ?len ?rs ?cur ?h w = Some (Inr (BStream ps None), w)"
        "concat ps = concat (map (\<lambda>r. (if 1 < length ?rs then part_header ?b ?ct ?len r else []) @
          take (snd r) (drop (fst r) (fl_data f))) ?rs) @ (if 1 < length ?rs then part_end ?b else [])" by blast
    define res3 where "res3 = fst (content_phase ?b ?len False ?ct (?res1, rs, False))"
    have cp: "content_phase ?b ?len False ?ct (?res1, rs, False) = (res3, ?rs, False)"
      by (simp add: content_phase_def res3_def Let_def)
    have run: "get_file uuid sv rq False path ?m h w = Some (Inr (res3\<lparr>rs_body := BStream ps None\<rparr>), w)"
      using v rd im rp seek ps(1) cp by (simp add: get_file_def Let_def len Some)
    have "get_answer ?b ?ct (fl_data f) (Some rs) (res3\<lparr>rs_body := BStream ps None\<rparr>)"
    proof (cases rs)
      case Nil
      then show ?thesis using v ps(2) by (auto simp: get_answer_def content_phase_def res3_def)
    next
      case (Cons r rs')
      show ?thesis
      proof (cases rs')
        case Nil
        with Cons inf have "length (slice (fl_data f) r) = snd r" by (simp add: slice_def in_file_def)
        with Nil Cons show ?thesis using v ps(2) by (auto simp: get_answer_def content_phase_def slice_def res3_def)
      next
        case (Cons r2 rs2)
        with \<open>rs = r # rs'\<close> show ?thesis using v ps(2) by (auto simp: get_answer_def content_phase_def slice_def res3_def)
      qed
    qed
    with run Some show ?thesis by auto
  qed
qed

lemma mem_visible_metadata:
  fixes sv :: "(mem_fs, mem_file, 'l) server"
  assumes "sv_fs sv = memfs_ops a" and "fs_ok (w_fs w)" and "shown sv p" and "fs_map (w_fs w) (segs_of p) = Some nd"
  shows "visible_metadata sv p w = Some (Inr (as_dirent nd), w)"
  using mem_visible [OF assms(1,2) open_way_exists [OF assms(2)] assms(3)] mem_meta_run [OF assms(1,2,4)] assms(4)
  by (simp add: visible_metadata_def fs_try_def)

lemma mem_handle_get:
  fixes sv :: "(mem_fs, mem_file, 'l) server"
  assumes sv: "sv_fs sv = memfs_ops a" "sv_read_buf_size sv \<noteq> Some 0" "\<not> sv_probe sv"
    and ok: "fs_ok (w_fs w)"
    and path: "from_uri_and_prefix (pct_decode (sv_http sv)) (rq_path rq) (sv_prefix sv) = Inr path" "shown sv path"
    and f: "fs_map (w_fs w) (segs_of path) = Some (MFile f)" "length (fl_data f) \<le> u64_max"
    and rq: "rq_method rq = ''GET''" "header_values rq ''if'' = []"
      "http_if_match (sv_http sv) rq (Some (as_dirent (MFile f))) = None"
    and tag: "\<And>e. etag_from_meta (as_dirent (MFile f)) = Some e \<Longrightarrow> etag_encode (sv_http sv) e \<noteq> None"
  shows "\<exists>res s. handle_get uuid render sv rq w = Some (Inr res, w\<lparr>w_fs := s\<rparr>) \<and> fs_ok s \<and> fs_map s = fs_map (w_fs w) \<and>
    get_answer (multipart_boundary uuid) (mime_type (mime_guess (sv_http sv)) path) (fl_data f)
      (served_ranges (sv_http sv) rq (as_dirent (MFile f))) res"
proof -
  note [simp del] = as_dirent.simps
  let ?m = "as_dirent (MFile f)"
  note vm = mem_visible_metadata [OF sv(1) ok path(2) f(1)]
  from mem_read_open [OF ok f(1)] obtain h s where
    s: "memfs_open path oo_for_read (w_fs w) = Some (Inr h, s)" "fs_ok s" "fs_map s = fs_map (w_fs w)"
      "handle_on s h (segs_of path) f" "mh_pos h = 0" by blast
  have op: "fs_try (memfs_open path oo_for_read) w = Some (Inr h, w\<lparr>w_fs := s\<rparr>)"
    using s(1) by (simp add: fs_try_def on_fs_def)
  have md: "fs_try (memf_metadata h) (w\<lparr>w_fs := s\<rparr>) = Some (Inr (?m, h), w\<lparr>w_fs := s\<rparr>)"
    using memf_metadata_run [OF s(2,4)] by (simp add: fs_try_def on_fs_def)
  from mem_get_file [OF sv(1), of "w\<lparr>w_fs := s\<rparr>" f h "segs_of path" rq uuid path] s sv(2) f(2) rq(2,3) tag obtain res where
    "get_file uuid sv rq False path ?m h (w\<lparr>w_fs := s\<rparr>) = Some (Inr res, w\<lparr>w_fs := s\<rparr>)"
    "get_answer (multipart_boundary uuid) (mime_type (mime_guess (sv_http sv)) path) (fl_data f)
      (served_ranges (sv_http sv) rq ?m) res" by auto
  then show ?thesis
    using s vm op md sv rq(1) path(1)
    by (intro exI [of _ res] exI [of _ s]) (cases "sv_indexfile sv", simp_all add: handle_get_def Let_def req_path_def)
qed

end
