(* ===== verification/Mem_Put.thy ===== *)
theory Mem_Put
  imports Mem_Get
begin

text \<open>
  \<^verbatim>\<open>PUT\<close> of a whole resource on the in-memory filesystem: the file that is there afterwards.
\<close>

section \<open>Entity tags\<close>

text \<open>The documented behaviour of \<^verbatim>\<open>HeaderValue::from_str\<close> that matters: it takes the characters a tag of the
  in-memory filesystem is made of.\<close>

definition tag_chars :: "byte set" where
  "tag_chars = set ''0123456789abcdef-'' \<union> {CHR 0x22}"

definition takes_tags :: "http_env \<Rightarrow> bool" where
  "takes_tags env \<longleftrightarrow> (\<forall>t. set t \<subseteq> tag_chars \<longrightarrow> hv_from_str env t \<noteq> None)"

lemma hex_digits: "digit_char ` {..<16} \<subseteq> tag_chars"
  by code_simp

lemma hex_digit: "d < 16 \<Longrightarrow> digit_char d \<in> tag_chars"
  using hex_digits by auto

lemma show_hex_chars: "set (show_hex n) \<subseteq> tag_chars"
proof (induction "16::nat" n rule: show_base.induct)
  case (1 n)
  show ?case
  proof (cases "n < 16")
    case True
    then show ?thesis by (subst show_base.simps) (simp add: hex_digit)
  next
    case False
    with 1 show ?thesis by (subst show_base.simps) (simp add: hex_digit)
  qed
qed

lemma mem_tag_encodes:
  assumes "takes_tags env" and "etag_from_meta (as_dirent n) = Some e"
  shows "etag_encode env e \<noteq> None"
proof -
  have dash: "CHR ''-'' \<in> tag_chars" "CHR 0x22 \<in> tag_chars" by (simp_all add: tag_chars_def)
  from assms(2) have "set (et_tag e) \<subseteq> tag_chars" "\<not> et_weak e"
    using show_hex_chars dash
    by (cases n; auto simp: etag_from_meta_def mem_meta_def default_etag_def Let_def split: if_splits)+
  then show ?thesis
    using assms(1) dash by (auto simp: takes_tags_def etag_encode_def etag_to_string_def)
qed

section \<open>Writing the frames\<close>

definition whole_body :: "frame list \<Rightarrow> bytes" where
  "whole_body frames = concat (map frame_data frames)"

definition clean_body :: "frame list \<Rightarrow> bool" where
  "clean_body frames \<longleftrightarrow> (\<forall>e. FError e \<notin> set frames)"

text \<open>The same file up to its bytes and its time of modification.\<close>

definition same_file :: "file_node \<Rightarrow> file_node \<Rightarrow> bool" where
  "same_file f g \<longleftrightarrow> fl_props g = fl_props f \<and> fl_crtime g = fl_crtime f"

lemma same_file_trans: "same_file f g \<Longrightarrow> same_file g h \<Longrightarrow> same_file f h"
  by (simp add: same_file_def)

lemma written_end: "written (length d) b d = d @ b"
  by (simp add: written_def splice_def)

lemma handle_on_step:
  assumes "handle_on s h ks f" and "walk (mf_tree s') = walk (mf_tree s)" and "fs_map s' = (fs_map s)(ks \<mapsto> MFile g)"
  shows "handle_on s' h ks g"
  using assms by (simp add: handle_on_def)

lemma mem_append_run:
  assumes ok: "fs_ok s" and h: "handle_on s h ks f" "mh_pos h = length (fl_data f)" "\<not> mh_append h"
    and room: "length (fl_data f) + length b \<le> avail" "length (fl_data f) + length b \<le> u64_max"
  shows "\<exists>s' g. memf_write_bytes avail h b s = Some (Inr (h\<lparr>mh_pos := length (fl_data f) + length b\<rparr>), s') \<and> fs_ok s' \<and>
    mf_clock s' = mf_clock s \<and> fl_data g = fl_data f @ b \<and> same_file f g \<and>
    fs_map s' = (fs_map s)(ks \<mapsto> MFile g) \<and> handle_on s' h ks g"
proof -
  have pos: "write_pos h f = length (fl_data f)" using h by (simp add: write_pos_def)
  have fine: "write_fail avail (write_pos h f) (length b) (length (fl_data f)) = None"
    using room by (simp add: write_fail_def pos)
  let ?g = "f\<lparr>fl_data := fl_data f @ b, fl_mtime := mf_clock s\<rparr>"
  from memf_write_ok [OF ok h(1), of avail b] obtain s' where
    s': "memf_write_bytes avail h b s = Some (Inr (h\<lparr>mh_pos := length (fl_data f) + length b\<rparr>), s')" "fs_ok s'"
      "mf_clock s' = mf_clock s" "fs_map s' = (fs_map s)(ks \<mapsto> MFile ?g)" "walk (mf_tree s') = walk (mf_tree s)"
    unfolding fine by (auto simp: pos written_end)
  then show ?thesis
    using handle_on_step [OF h(1) s'(5,4)] by (intro exI [of _ s'] exI [of _ ?g]) (simp add: same_file_def)
qed

lemma mem_write_op [simp]:
  "f_write_bytes (memfs_ops a) = memf_write_bytes a" "f_write_buf (memfs_ops a) h bs = memf_write_bytes a h (concat bs)"
  "f_flush (memfs_ops a) = memf_flush" "fs_set_modified (memfs_ops a) = memfs_set_modified"
  "fs_set_created (memfs_ops a) = memfs_set_created" "fs_get_props (memfs_ops a) = memfs_get_props"
  by (simp_all add: memfs_ops_def write_buf_eq)

lemma mem_write_loop:
  fixes sv :: "(mem_fs, mem_file, 'l) server"
  assumes sv: "sv_fs sv = memfs_ops avail" and count: "pt_have_count pt \<Longrightarrow> pt_count pt = tot"
    and room: "tot \<le> avail" "tot \<le> u64_max"
  shows "clean_body frames \<Longrightarrow> fs_ok (w_fs w) \<Longrightarrow> handle_on (w_fs w) h ks f \<Longrightarrow> mh_pos h = length (fl_data f) \<Longrightarrow>
    \<not> mh_append h \<Longrightarrow> length (fl_data f) + length (whole_body frames) = tot \<Longrightarrow>
    \<exists>s' h' g. write_loop sv CkNone elen pt frames h (length (fl_data f)) w = Some (Inr (h', tot), w\<lparr>w_fs := s'\<rparr>) \<and>
      fs_ok s' \<and> mf_clock s' = mf_clock (w_fs w) \<and> fl_data g = fl_data f @ whole_body frames \<and> same_file f g \<and>
      fs_map s' = (fs_map (w_fs w))(ks \<mapsto> MFile g)"
proof (induction frames arbitrary: w h f)
  case Nil
  then show ?case
    by (intro exI [of _ "w_fs w"] exI [of _ h] exI [of _ f]) (auto simp: whole_body_def same_file_def handle_on_def)
next
  case (Cons fr frames)
  have clean: "clean_body frames" using Cons.prems(1) by (simp add: clean_body_def)
  have sum: "length (fl_data f) + length (frame_data fr) + length (whole_body frames) = tot"
    using Cons.prems(6) by (simp add: whole_body_def)
  have step: "\<exists>s' h' g. write_loop sv CkNone elen pt (fr # frames) h (length (fl_data f)) w = Some (Inr (h', tot), w\<lparr>w_fs := s'\<rparr>) \<and>
      fs_ok s' \<and> mf_clock s' = mf_clock (w_fs w) \<and> fl_data g = fl_data f @ whole_body (fr # frames) \<and> same_file f g \<and>
      fs_map s' = (fs_map (w_fs w))(ks \<mapsto> MFile g)"
    if unf: "\<And>w. write_loop sv CkNone elen pt (fr # frames) h (length (fl_data f)) w =
        bind (fs_try (memf_write_bytes avail h (frame_data fr)))
          (\<lambda>h'. write_loop sv CkNone elen pt frames h' (length (fl_data f) + length (frame_data fr))) w"
  proof -
    have "length (fl_data f) + length (frame_data fr) \<le> avail" "length (fl_data f) + length (frame_data fr) \<le> u64_max"
      using sum room by simp_all
    from mem_append_run [OF Cons.prems(2-5) this] obtain s1 g1 where
      s1: "memf_write_bytes avail h (frame_data fr) (w_fs w) =
          Some (Inr (h\<lparr>mh_pos := length (fl_data f) + length (frame_data fr)\<rparr>), s1)" "fs_ok s1"
        "mf_clock s1 = mf_clock (w_fs w)" "fl_data g1 = fl_data f @ frame_data fr" "same_file f g1"
        "fs_map s1 = (fs_map (w_fs w))(ks \<mapsto> MFile g1)" "handle_on s1 h ks g1" by blast
    let ?h1 = "h\<lparr>mh_pos := length (fl_data f) + length (frame_data fr)\<rparr>"
    from Cons.IH [of "w\<lparr>w_fs := s1\<rparr>" ?h1 g1] clean s1(2-5,7) sum Cons.prems(5) obtain s2 h2 g2 where
      s2: "write_loop sv CkNone elen pt frames ?h1 (length (fl_data f) + length (frame_data fr)) (w\<lparr>w_fs := s1\<rparr>) =
          Some (Inr (h2, tot), w\<lparr>w_fs := s2\<rparr>)" "fs_ok s2" "mf_clock s2 = mf_clock s1"
        "fl_data g2 = fl_data g1 @ whole_body frames" "same_file g1 g2" "fs_map s2 = (fs_map s1)(ks \<mapsto> MFile g2)"
      by (auto simp: fun_upd_def)
    have "write_loop sv CkNone elen pt (fr # frames) h (length (fl_data f)) w = Some (Inr (h2, tot), w\<lparr>w_fs := s2\<rparr>)"
      using s1(1) s2(1) by (simp add: unf fs_try_def on_fs_def)
    with s1 s2 same_file_trans [OF s1(5) s2(5)] show ?thesis
      by (intro exI [of _ s2] exI [of _ h2] exI [of _ g2]) (simp add: whole_body_def)
  qed
  have fits: "\<not> (pt_have_count pt \<and> pt_count pt < length (fl_data f) + length (frame_data fr))"
    using count sum by auto
  show ?case
  proof (cases fr)
    case (FBytes b)
    with fits show ?thesis by (intro step) (auto simp: sv Let_def)
  next
    case (FBuf bs)
    with fits show ?thesis by (intro step) (auto simp: sv Let_def)
  next
    case FTrailers
    with Cons.IH [OF clean Cons.prems(2-5)] sum show ?thesis by (simp add: whole_body_def)
  next
    case (FError e)
    with Cons.prems(1) show ?thesis by (auto simp: clean_body_def)
  qed
qed

section \<open>The steps of the handler\<close>

text \<open>The directory of the resource is neither a calendar nor an address book.\<close>

definition plain_parent :: "fs_map \<Rightarrow> bytes list \<Rightarrow> bool" where
  "plain_parent m ks \<longleftrightarrow> (\<exists>d. m (butlast ks) = Some (MDir d) \<and> \<not> dn_is_calendar d \<and> \<not> dn_is_addressbook d \<and>
     (\<forall>p \<in> snd ` set (dn_props d). \<not> is_protected_type_marker p))"

lemma memfs_get_props_run:
  assumes ok: "fs_ok s" and n: "fs_map s (segs_of path) = Some n"
  shows "memfs_get_props path c s = Some (Inr (map (\<lambda>(_, p). if c then p else cloneprop p) (node_props n)), s)"
  using n by (cases rule: fs_lookup_cases [OF fs_ok_wf [OF ok], of "as_bytes path"])
    (auto simp: memfs_get_props_def on_tree_def lift_lookup_def fs_map_def segs_of_def)

lemma marker_clone [simp]:
  "is_calendar_type_marker (cloneprop p) = is_calendar_type_marker p"
  "is_addressbook_type_marker (cloneprop p) = is_addressbook_type_marker p"
  by (simp_all add: is_calendar_type_marker_def is_addressbook_type_marker_def cloneprop_def)

lemma mem_plain_kind:
  fixes sv :: "(mem_fs, mem_file, 'l) server"
  assumes sv: "sv_fs sv = memfs_ops a" and ok: "fs_ok (w_fs w)" and par: "plain_parent (fs_map (w_fs w)) (segs_of path)"
  shows "typed_parent_collection sv path w = Some (Inr CkNone, w)"
proof -
  let ?p = "path_parent path"
  have seg: "segs_of ?p = butlast (segs_of path)" by (simp add: segs_lock lock_segs_parent)
  from par obtain d where d: "fs_map (w_fs w) (segs_of ?p) = Some (MDir d)" "\<not> dn_is_calendar d" "\<not> dn_is_addressbook d"
    "\<forall>p \<in> snd ` set (dn_props d). \<not> is_protected_type_marker p" unfolding plain_parent_def seg by blast
  have "kind_from_props (map (\<lambda>(_, p). if False then p else cloneprop p) (dn_props d)) = CkNone"
    using d(4) by (fastforce simp: kind_from_props_def is_protected_type_marker_def split: if_splits)
  then have "resolve_collection_kind (memfs_ops a) ?p (as_dirent (MDir d)) (w_fs w) = Some (CkNone, w_fs w)"
    using d(2,3) memfs_get_props_run [OF ok d(1), of False]
    by (simp add: resolve_collection_kind_def kind_from_meta_def mem_meta_def)
  then show ?thesis
    using mem_meta_run(1) [OF sv ok d(1)] sv
    by (simp add: typed_parent_collection_def collection_kind_of_def on_fs_def)
qed

text \<open>The open options after the \<^verbatim>\<open>*\<close> conditions fit what is there.\<close>

lemma star_options_fit:
  assumes "http_if_match env rq meta = None" and "oo_create oo" and "\<not> oo_create_new oo"
  shows "(meta \<noteq> None \<longrightarrow> \<not> oo_create_new (star_options env rq oo)) \<and> (meta = None \<longrightarrow> oo_create (star_options env rq oo)) \<and>
    oo_append (star_options env rq oo) = oo_append oo \<and> oo_truncate (star_options env rq oo) = oo_truncate oo"
  using assms by (auto simp: star_options_def http_if_match_def Let_def split: option.splits if_splits)

text \<open>A \<^verbatim>\<open>PUT\<close> that is no range request.\<close>

lemma put_plain:
  assumes "put_ranges env rq meta = Inr pt" and "\<not> pt_range pt"
  shows "pt = put_init env rq"
proof -
  from assms(1) obtain p1 p2 where p: "patch_range env rq meta (put_init env rq) = Inr p1" "content_range env rq p1 = Inr p2"
    "check_range meta p2 = Inr pt" by (auto simp: put_ranges_def split: sum.splits)
  have "p2 = pt" using p(3) by (auto simp: check_range_def split: if_splits)
  moreover have "p2 = p1" using p(2) assms(2) \<open>p2 = pt\<close>
    by (auto simp: content_range_def split: sum.splits option.splits if_splits)
  moreover have "p1 = put_init env rq" using p(1) assms(2) \<open>p2 = pt\<close> \<open>p2 = p1\<close>
    by (auto simp: patch_range_def Let_def split: if_splits option.splits x_update_range.splits)
  ultimately show ?thesis by simp
qed

lemma put_init_options:
  "oo_create (pt_oo (put_init env rq))" "oo_truncate (pt_oo (put_init env rq))"
  "\<not> oo_create_new (pt_oo (put_init env rq))" "\<not> oo_append (pt_oo (put_init env rq))"
  by (auto simp: put_init_def Let_def oo_for_write_def split: option.splits)

section \<open>The run of the handler\<close>

definition no_dir :: "mem_node option \<Rightarrow> bool" where
  "no_dir n \<longleftrightarrow> (case n of Some m \<Rightarrow> \<not> node_is_dir m | None \<Rightarrow> True)"

definition meta_of :: "mem_node option \<Rightarrow> dav_meta option" where
  "meta_of = map_option as_dirent"

lemma mem_put_open:
  assumes ok: "fs_ok s" and par: "is_dir_at (fs_map s) (butlast (segs_of path))" and tgt: "no_dir (fs_map s (segs_of path))"
    and cond: "http_if_match env rq (meta_of (fs_map s (segs_of path))) = None"
    and oo: "oo_create oo" "\<not> oo_create_new oo" "oo_truncate oo" "\<not> oo_append oo"
  shows "\<exists>h s' f. memfs_open path (star_options env rq oo) s = Some (Inr h, s') \<and> fs_ok s' \<and> mf_clock s' = mf_clock s \<and>
    mh_pos h = 0 \<and> \<not> mh_append h \<and> handle_on s' h (segs_of path) f \<and> fl_data f = [] \<and>
    fs_map s' = (fs_map s)(segs_of path \<mapsto> MFile f)"
proof -
  let ?oo = "star_options env rq oo" and ?m = "fs_map s" and ?ks = "segs_of path"
  note fit = star_options_fit [OF cond oo(1,2)]
  have "\<exists>f. open_result (mf_clock s) ?m ?ks ?oo = Inr f \<and> fl_data f = []"
  proof (cases "?m ?ks")
    case None
    have "lookup_err ?m ?ks = NotFound" by (rule open_way_err [OF open_way_parent [OF ok par]])
    with None fit par show ?thesis by (simp add: open_result_def meta_of_def blank_file_def)
  next
    case (Some n)
    with tgt obtain f where "n = MFile f" by (cases n) (auto simp: no_dir_def)
    with Some fit oo show ?thesis by (simp add: open_result_def meta_of_def empty_file_def)
  qed
  then obtain f where "open_result (mf_clock s) ?m ?ks ?oo = Inr f" "fl_data f = []" by blast
  with memfs_open_ok [OF ok, of path ?oo] fit oo(4) show ?thesis by auto
qed

lemma mem_put_write:
  fixes sv :: "(mem_fs, mem_file, 'l) server"
  assumes sv: "sv_fs sv = memfs_ops avail" and ok: "fs_ok (w_fs w)"
    and par: "is_dir_at (fs_map (w_fs w)) (butlast (segs_of path))" and tgt: "no_dir (fs_map (w_fs w) (segs_of path))"
    and cond: "http_if_match (sv_http sv) rq (meta_of (fs_map (w_fs w) (segs_of path))) = None"
    and pt: "pt = put_init (sv_http sv) rq" "\<not> pt_range pt" "pt_have_count pt \<Longrightarrow> pt_count pt = length (whole_body body)"
    and body: "clean_body body" "length (whole_body body) \<le> avail" "length (whole_body body) \<le> u64_max"
  shows "\<exists>s' g. put_write sv rq CkNone elen pt body None None path w = Some (Inr (), w\<lparr>w_fs := s'\<rparr>) \<and> fs_ok s' \<and>
    mf_clock s' = mf_clock (w_fs w) \<and> fl_data g = whole_body body \<and> fs_map s' = (fs_map (w_fs w))(segs_of path \<mapsto> MFile g)"
proof -
  let ?oo = "star_options (sv_http sv) rq (pt_oo pt)"
  from mem_put_open [OF ok par tgt cond put_init_options(1,3,2,4) [of "sv_http sv" rq, folded pt(1)]] obtain h s f where
    o: "memfs_open path ?oo (w_fs w) = Some (Inr h, s)" "fs_ok s" "mf_clock s = mf_clock (w_fs w)" "mh_pos h = 0" "\<not> mh_append h"
      "handle_on s h (segs_of path) f" "fl_data f = []" "fs_map s = (fs_map (w_fs w))(segs_of path \<mapsto> MFile f)" by blast
  from mem_write_loop [OF sv pt(3) body(2,3,1), of "w\<lparr>w_fs := s\<rparr>" h "segs_of path" f elen] o(2,4-7) obtain s' h' g where
    l: "write_loop sv CkNone elen pt body h 0 (w\<lparr>w_fs := s\<rparr>) = Some (Inr (h', length (whole_body body)), w\<lparr>w_fs := s'\<rparr>)"
      "fs_ok s'" "mf_clock s' = mf_clock s" "fl_data g = whole_body body" "fs_map s' = (fs_map s)(segs_of path \<mapsto> MFile g)"
    by (auto simp: fun_upd_def)
  have "on_fs (memf_flush h') (w\<lparr>w_fs := s'\<rparr>) = Some (Inr h', w\<lparr>w_fs := s'\<rparr>)"
    by (simp add: on_fs_def memf_flush_def)
  moreover have "on_fs (memfs_open path ?oo) w = Some (Inr h, w\<lparr>w_fs := s\<rparr>)" using o(1) by (simp add: on_fs_def)
  moreover have "write_body sv CkNone elen pt body None h (w\<lparr>w_fs := s\<rparr>) = Some (Inr (), w\<lparr>w_fs := s'\<rparr>)"
    using l(1) pt(3) calculation(1) by (cases "pt_have_count pt") (simp_all add: write_body_def sv fs_try_def)
  ultimately have "put_write sv rq CkNone elen pt body None None path w = Some (Inr (), w\<lparr>w_fs := s'\<rparr>)"
    using pt(2) by (simp add: put_write_def sv Let_def)
  with l(2-5) o(3,8) show ?thesis by auto
qed

text \<open>Time stamps leave the bytes alone.\<close>

lemma mem_stamps:
  fixes sv :: "(mem_fs, mem_file, 'l) server"
  assumes sv: "sv_fs sv = memfs_ops a" and ok: "fs_ok (w_fs w)" and f: "fs_map (w_fs w) (segs_of path) = Some (MFile f)"
  shows "\<exists>res' s' g. apply_oc_timestamps sv path mt ct res w = Some (Inr res', w\<lparr>w_fs := s'\<rparr>) \<and> rs_status res' = rs_status res \<and>
    fs_ok s' \<and> fl_data g = fl_data f \<and> fs_map s' = (fs_map (w_fs w))(segs_of path \<mapsto> MFile g)"
proof -
  have one: "\<exists>res' s' g. apply_one_timestamp nm set t r v = Some (Inr res', v\<lparr>w_fs := s'\<rparr>) \<and> rs_status res' = rs_status r \<and>
      fs_ok s' \<and> fl_data g = fl_data f1 \<and> fs_map s' = (fs_map (w_fs v))(segs_of path \<mapsto> MFile g)"
    if "fs_ok (w_fs v)" "fs_map (w_fs v) (segs_of path) = Some (MFile f1)"
      "\<And>tm. \<exists>s' g. set tm (w_fs v) = Some (Inr (), s') \<and> fs_ok s' \<and> fl_data g = fl_data f1 \<and>
         fs_map s' = (fs_map (w_fs v))(segs_of path \<mapsto> MFile g)"
    for nm set t r v f1
  proof (cases t)
    case None
    with that(1,2) show ?thesis
      by (intro exI [of _ r] exI [of _ "w_fs v"] exI [of _ f1]) (auto simp: apply_one_timestamp_def)
  next
    case (Some tm)
    from that(3) [of tm] obtain s' g where s': "set tm (w_fs v) = Some (Inr (), s')" "fs_ok s'" "fl_data g = fl_data f1"
      "fs_map s' = (fs_map (w_fs v))(segs_of path \<mapsto> MFile g)" by blast
    then show ?thesis
      by (intro exI [of _ "set_header nm ''accepted'' r"] exI [of _ s'] exI [of _ g])
        (simp add: Some apply_one_timestamp_def on_fs_def set_header_def)
  qed
  have m: "\<exists>s' g. memfs_set_modified path tm s = Some (Inr (), s') \<and> fs_ok s' \<and> fl_data g = fl_data f1 \<and>
      fs_map s' = (fs_map s)(segs_of path \<mapsto> MFile g)"
    if "fs_ok s" "fs_map s (segs_of path) = Some (MFile f1)" for s f1 tm
  proof -
    from memfs_set_modified_run [OF that, of tm] obtain s' where
      "memfs_set_modified path tm s = Some (Inr (), s')" "fs_ok s'" "fs_map s' = (fs_map s)(segs_of path \<mapsto> MFile (f1\<lparr>fl_mtime := tm\<rparr>))"
      by auto
    then show ?thesis by (intro exI [of _ s'] exI [of _ "f1\<lparr>fl_mtime := tm\<rparr>"]) simp
  qed
  have c: "\<exists>s' g. memfs_set_created path tm s = Some (Inr (), s') \<and> fs_ok s' \<and> fl_data g = fl_data f1 \<and>
      fs_map s' = (fs_map s)(segs_of path \<mapsto> MFile g)"
    if "fs_ok s" "fs_map s (segs_of path) = Some (MFile f1)" for s f1 tm
  proof -
    from memfs_set_created_run [OF that, of tm] obtain s' where
      "memfs_set_created path tm s = Some (Inr (), s')" "fs_ok s'" "fs_map s' = (fs_map s)(segs_of path \<mapsto> MFile (f1\<lparr>fl_crtime := tm\<rparr>))"
      by auto
    then show ?thesis by (intro exI [of _ s'] exI [of _ "f1\<lparr>fl_crtime := tm\<rparr>"]) simp
  qed
  from one [of w f "memfs_set_modified path" "''x-oc-mtime''" mt res, OF ok f m [OF ok f]] obtain r1 s1 g1 where
    1: "apply_one_timestamp ''x-oc-mtime'' (memfs_set_modified path) mt res w = Some (Inr r1, w\<lparr>w_fs := s1\<rparr>)"
      "rs_status r1 = rs_status res" "fs_ok s1" "fl_data g1 = fl_data f" "fs_map s1 = (fs_map (w_fs w))(segs_of path \<mapsto> MFile g1)" by blast
  have f1: "fs_ok (w_fs (w\<lparr>w_fs := s1\<rparr>))" "fs_map (w_fs (w\<lparr>w_fs := s1\<rparr>)) (segs_of path) = Some (MFile g1)" using 1 by simp_all
  from one [of "w\<lparr>w_fs := s1\<rparr>" g1 "memfs_set_created path" "''x-oc-ctime''" ct r1, OF f1 c [OF f1]] obtain r2 s2 g2 where
    2: "apply_one_timestamp ''x-oc-ctime'' (memfs_set_created path) ct r1 (w\<lparr>w_fs := s1\<rparr>) = Some (Inr r2, w\<lparr>w_fs := s2\<rparr>)"
      "rs_status r2 = rs_status r1" "fs_ok s2" "fl_data g2 = fl_data g1" "fs_map s2 = (fs_map s1)(segs_of path \<mapsto> MFile g2)"
    by (auto simp: fun_upd_def)
  then show ?thesis using 1
    by (intro exI [of _ r2] exI [of _ s2] exI [of _ g2]) (simp add: apply_oc_timestamps_def sv)
qed

lemma mem_put_validators:
  fixes sv :: "(mem_fs, mem_file, 'l) server"
  assumes sv: "sv_fs sv = memfs_ops a" and ok: "fs_ok (w_fs w)" and n: "fs_map (w_fs w) (segs_of path) = Some n"
    and tags: "takes_tags (sv_http sv)"
  shows "\<exists>res'. put_validators sv path res w = Some (Inr res', w) \<and> rs_status res' = rs_status res"
  using mem_meta_run(1) [OF sv ok n] mem_tag_encodes [OF tags, of n] sv
  by (auto simp: put_validators_def set_header_def split: option.splits sum.splits)

lemma plain_parent_dir: "plain_parent m ks \<Longrightarrow> is_dir_at m (butlast ks)"
  by (auto simp: plain_parent_def is_dir_at_def)

lemma mem_put_at:
  fixes sv :: "(mem_fs, mem_file, mem_ls) server"
  assumes sv: "sv_fs sv = memfs_ops avail" "sv_ls sv = Some memls_ops"
    and ok: "fs_ok (w_fs w)" "wf_tree (ml_tree (w_ls w))"
    and par: "plain_parent (fs_map (w_fs w)) (segs_of path)" and tgt: "no_dir (fs_map (w_fs w) (segs_of path))"
    and meta: "meta = meta_of (fs_map (w_fs w) (segs_of path))"
    and rq: "header_values rq ''if'' = []" "http_if_match (sv_http sv) rq meta = None"
    and may: "may_write (lock_view (w_ls w)) path (holds (sv_principal sv) False []) False"
    and pt: "pt = put_init (sv_http sv) rq" "\<not> pt_range pt" "pt_have_count pt \<Longrightarrow> pt_count pt = length (whole_body body)"
    and body: "clean_body body" "length (whole_body body) \<le> avail" "length (whole_body body) \<le> u64_max"
    and tags: "takes_tags (sv_http sv)"
  shows "\<exists>res w' g. put_at sv rq body stamps meta pt path w = Some (Inr res, w') \<and>
    rs_status res = (if meta = None then 201 else 204) \<and> fs_ok (w_fs w') \<and> wf_tree (ml_tree (w_ls w')) \<and>
    lock_view (w_ls w') = lock_view (w_ls w) \<and> fl_data g = whole_body body \<and>
    fs_map (w_fs w') = (fs_map (w_fs w))(segs_of path \<mapsto> MFile g)"
proof -
  from mem_check [OF sv(2) ok(2) may, of "StatusClose 423"] obtain l where
    l: "check_locks sv path False [] (StatusClose 423) w = Some (Inr (), w\<lparr>w_ls := l\<rparr>)" "wf_tree (ml_tree l)"
      "lock_view l = lock_view (w_ls w)" by blast
  let ?w1 = "w\<lparr>w_ls := l\<rparr>"
  note toks = no_if_tokens [OF rq, of path w]
  have kind: "typed_parent_collection sv path ?w1 = Some (Inr CkNone, ?w1)"
    using mem_plain_kind [OF sv(1), of ?w1 path] ok(1) par by simp
  let ?elen = "case meta of Some m \<Rightarrow> md_len m | None \<Rightarrow> 0"
  from mem_put_write [OF sv(1), of ?w1 path rq pt body ?elen] ok(1) plain_parent_dir [OF par] tgt rq(2) meta pt body
  obtain s g where s: "put_write sv rq CkNone ?elen pt body None None path ?w1 = Some (Inr (), ?w1\<lparr>w_fs := s\<rparr>)" "fs_ok s"
    "fl_data g = whole_body body" "fs_map s = (fs_map (w_fs w))(segs_of path \<mapsto> MFile g)" by (auto simp: fun_upd_def)
  let ?w2 = "?w1\<lparr>w_fs := s\<rparr>" and ?r0 = "put_response (meta \<noteq> None)"
  have f2: "fs_ok (w_fs ?w2)" "fs_map (w_fs ?w2) (segs_of path) = Some (MFile g)" using s by simp_all
  from mem_stamps [OF sv(1) f2, of "fst stamps" "snd stamps" ?r0] obtain res s3 g3 where
    st: "apply_oc_timestamps sv path (fst stamps) (snd stamps) ?r0 ?w2 = Some (Inr res, ?w2\<lparr>w_fs := s3\<rparr>)"
      "rs_status res = rs_status ?r0" "fs_ok s3" "fl_data g3 = fl_data g" "fs_map s3 = (fs_map s)(segs_of path \<mapsto> MFile g3)"
    by auto
  have f3: "fs_ok (w_fs (?w2\<lparr>w_fs := s3\<rparr>))" "fs_map (w_fs (?w2\<lparr>w_fs := s3\<rparr>)) (segs_of path) = Some (MFile g3)"
    using st by simp_all
  from mem_put_validators [OF sv(1) f3 tags] obtain res' where
    v: "put_validators sv path res (?w2\<lparr>w_fs := s3\<rparr>) = Some (Inr res', ?w2\<lparr>w_fs := s3\<rparr>)" "rs_status res' = rs_status res" by blast
  have staged: "stage_body (sv_http sv) CkNone pt body = Inr None" by (simp add: stage_body_def)
  have run: "put_at sv rq body stamps meta pt path w = Some (Inr res', ?w2\<lparr>w_fs := s3\<rparr>)"
    using toks l(1) kind s(1) st(1) v(1) by (simp add: put_at_def staged Let_def)
  have "rs_status ?r0 = (if meta = None then 201 else 204)" by (simp add: put_response_def Let_def)
  with run l st s v show ?thesis by (intro exI [of _ res'] exI [of _ "?w2\<lparr>w_fs := s3\<rparr>"] exI [of _ g3]) simp
qed

lemma mem_handle_put:
  fixes sv :: "(mem_fs, mem_file, mem_ls) server"
  assumes sv: "sv_fs sv = memfs_ops avail" "sv_ls sv = Some memls_ops"
    and ok: "fs_ok (w_fs w)" "wf_tree (ml_tree (w_ls w))"
    and path: "from_uri_and_prefix (pct_decode (sv_http sv)) (rq_path rq) (sv_prefix sv) = Inr path" "shown sv path"
    and par: "plain_parent (fs_map (w_fs w)) (segs_of path)" and tgt: "no_dir (fs_map (w_fs w) (segs_of path))"
    and rq: "header_values rq ''if'' = []" "http_if_match (sv_http sv) rq (meta_of (fs_map (w_fs w) (segs_of path))) = None"
      "oc_timestamps (sv_http sv) rq True = Inr stamps"
    and may: "may_write (lock_view (w_ls w)) path (holds (sv_principal sv) False []) False"
    and pt: "put_ranges (sv_http sv) rq (meta_of (fs_map (w_fs w) (segs_of path))) = Inr pt" "\<not> pt_range pt"
      "pt_have_count pt \<Longrightarrow> pt_count pt = length (whole_body body)"
    and body: "clean_body body" "length (whole_body body) \<le> avail" "length (whole_body body) \<le> u64_max"
    and tags: "takes_tags (sv_http sv)"
  shows "\<exists>res w' g. handle_put sv rq body w = Some (Inr res, w') \<and>
    rs_status res = (if fs_map (w_fs w) (segs_of path) = None then 201 else 204) \<and> fs_ok (w_fs w') \<and> wf_tree (ml_tree (w_ls w')) \<and>
    lock_view (w_ls w') = lock_view (w_ls w) \<and> fl_data g = whole_body body \<and>
    fs_map (w_fs w') = (fs_map (w_fs w))(segs_of path \<mapsto> MFile g)"
proof -
  let ?n = "fs_map (w_fs w) (segs_of path)"
  have way: "open_way (fs_map (w_fs w)) (segs_of path)" by (rule open_way_parent [OF ok(1) plain_parent_dir [OF par]])
  note vis = mem_visible [OF sv(1) ok(1) way path(2)]
  have meta: "\<exists>r. on_fs (memfs_metadata path) w = Some (r, w) \<and> (case r of Inr m \<Rightarrow> Some m | Inl _ \<Rightarrow> None) = meta_of ?n"
    using memfs_metadata_ok [OF ok(1), of path] by (cases ?n) (auto simp: on_fs_def meta_of_def)
  then obtain r where r: "on_fs (memfs_metadata path) w = Some (r, w)" "(case r of Inr m \<Rightarrow> Some m | Inl _ \<Rightarrow> None) = meta_of ?n"
    by blast
  have nodir: "\<not> (case meta_of ?n of Some m \<Rightarrow> md_is_dir m | None \<Rightarrow> False)"
    using tgt by (auto simp: meta_of_def no_dir_def split: option.splits)
  have "meta_of ?n = None \<longleftrightarrow> ?n = None" by (simp add: meta_of_def)
  moreover have "handle_put sv rq body w = put_at sv rq body stamps (meta_of ?n) pt path w"
    using vis r nodir path(1) pt(1) rq(3) by (simp add: handle_put_def req_path_def sv Let_def)
  moreover note mem_put_at [OF sv ok par tgt refl rq(1,2) may put_plain [OF pt(1,2)] pt(2,3) body tags, of stamps]
  ultimately show ?thesis by simp
qed

end
