(* ===== verification/Handle_Store.thy ===== *)
theory Handle_Store
  imports Mem_Put Handle_Ends
begin

text \<open>
  What a client stores and gets back: \<^verbatim>\<open>PUT\<close> and \<^verbatim>\<open>GET\<close> on the in-memory server, and \<^verbatim>\<open>HEAD\<close> beside \<^verbatim>\<open>GET\<close> on
  any.
\<close>

section \<open>A file to store\<close>

definition req_df :: dav_path where "req_df = \<lparr>fullpath = ''/d/f'', pfxlen = Some 0\<rparr>"

definition range_env :: http_env where
  "range_env = demo_env\<lparr>range_decode := (\<lambda>_. Some (\<lambda>_. [(Included 1, Included 3)]))\<rparr>"

definition range_server :: "(mem_fs, mem_file, mem_ls) server" where
  "range_server = (demo_server (Some ''ann''))\<lparr>sv_http := range_env\<rparr>"

lemma range_server_simps [simp]:
  "sv_http range_server = range_env" "sv_prefix range_server = []" "sv_fs range_server = memfs_ops 1000"
  "sv_ls range_server = Some memls_ops" "sv_principal range_server = Some ''ann''"
  "sv_read_buf_size range_server = None" "sv_probe range_server = False"
  by (simp_all add: range_server_def demo_server_def)

lemma demo_path_df: "from_uri_and_prefix (pct_decode range_env) ''/d/f'' [] = Inr req_df"
  by code_simp

lemma demo_df_facts: "segs_of req_df = [''d'', ''f'']" "shown range_server req_df"
proof -
  have b: "as_bytes req_df = ''/d/f''" by (simp add: req_df_def as_bytes_def prefix_len_def)
  then show "segs_of req_df = [''d'', ''f'']" by (simp add: segs_of_def path_segs_def)
  show "shown range_server req_df"
    by (simp add: shown_def b range_server_def demo_server_def is_collection_marker_def eq_ignore_ascii_case_def ascii_lower_def)
qed

lemma demo_df_may: "may_write (lock_view demo_ls) req_df (holds who False []) deep"
proof -
  have "lock_segs req_df = [''d'', ''f'']" using demo_df_facts(1) by (simp add: segs_lock)
  then show ?thesis by (auto simp: may_write_def covering_def demo_view)
qed

lemma demo_no_conditions:
  "http_if_match env (demo_request me p [(''range'', v)]) m = None" "http_if_match env (demo_request me p []) m = None"
  by (simp_all add: http_if_match_def typed_get_def header_values_def demo_request_def)

lemma demo_takes_tags: "takes_tags range_env"
  by (simp add: takes_tags_def range_env_def demo_env_def)

lemma demo_put_init: "put_ranges env (demo_request ''PUT'' p []) m = Inr (put_init env (demo_request ''PUT'' p []))"
  "\<not> pt_range (put_init env (demo_request ''PUT'' p []))" "\<not> pt_have_count (put_init env (demo_request ''PUT'' p []))"
  by (simp_all add: put_ranges_def patch_range_def content_range_def check_range_def put_init_def typed_get_def typed_try_get_def
      header_values_def demo_request_def header_text_def Let_def)

lemma demo_stamps: "oc_timestamps env (demo_request me p []) cl = Inr (None, None)"
  by (simp add: oc_timestamps_def typed_try_get_def header_values_def demo_request_def)

lemma demo_plain: "plain_parent (fs_map fs_demo) [''d'', ''f'']" "no_dir (fs_map fs_demo [''d'', ''f''])"
  by (auto simp: plain_parent_def fs_demo_facts(3) new_dir_def no_dir_def)

section \<open>HEAD beside GET\<close>

abbreviation as_head :: "request \<Rightarrow> request" where
  "as_head rq \<equiv> rq\<lparr>rq_method := ''HEAD''\<rparr>"

lemma header_values_method [simp]: "header_values (as_head rq) n = header_values rq n"
  by (simp add: header_values_def)

lemma typed_get_method: "typed_get (as_head rq) n d = typed_get rq n d" "typed_try_get (as_head rq) n d = typed_try_get rq n d"
  by (simp_all add: typed_get_def typed_try_get_def)

lemma http_if_match_head: "rq_method rq = ''GET'' \<Longrightarrow> http_if_match env (as_head rq) m = http_if_match env rq m"
proof -
  assume "rq_method rq = ''GET''"
  then have same: "get_or_head (as_head rq) = get_or_head rq" by (simp add: get_or_head_def)
  show ?thesis unfolding http_if_match_def typed_get_method same ..
qed

lemma same_server_method: "request_is_same_server env (as_head rq) u = request_is_same_server env rq u"
proof -
  have "rq_host (as_head rq) = rq_host rq" "rq_scheme (as_head rq) = rq_scheme rq" "rq_port (as_head rq) = rq_port rq" by simp_all
  note this [simplified]
  show ?thesis
    unfolding request_is_same_server_def url_is_same_server_def typed_get_method request.simps request.update_convs
    by (cases "typed_get rq ''host'' (host_decode env)") (simp_all split: prod.splits)
qed

lemma list_target_method: "list_target sv (as_head rq) path l = list_target sv rq path l"
  unfolding list_target_def same_server_method by simp

lemma if_lists_loop_method: "if_lists_loop sv (as_head rq) path ls b ts = if_lists_loop sv rq path ls b ts"
  by (induction ls arbitrary: b ts) (simp_all only: if_lists_loop.simps list_target_method)

lemma if_match_head: "rq_method rq = ''GET'' \<Longrightarrow> if_match sv (as_head rq) m path = if_match sv rq m path"
  unfolding if_match_def dav_if_match_def typed_get_method if_lists_loop_method by (simp only: http_if_match_head)

lemma range_phase_method: "range_phase env (as_head rq) len d b res = range_phase env rq len d b res"
  "get_do_range env (as_head rq) m = get_do_range env rq m"
  unfolding range_phase_def get_do_range_def typed_get_method by simp_all

text \<open>The response holds no body before the stream is attached.\<close>

lemma validators_no_body: "get_validators env m w = Some (Inr res, w') \<Longrightarrow> rs_body res = BEmpty"
  by (auto simp: get_validators_def header_unwrap_def Let_def response_new_def set_header_def split: option.splits sum.splits)

lemma range_no_body: "range_phase env rq n d b res0 = (res, rs, nb) \<Longrightarrow> rs_body res0 = BEmpty \<Longrightarrow> rs_body res = BEmpty"
  by (auto simp: range_phase_def not_satisfiable_def set_header_def split: option.splits if_splits)

lemma seek_no_body:
  fixes sv :: "('s, 'h, 'l) server"
  assumes "seek_phase sv len (res0, rs0, nb0) h w = Some (Inr ((res, rs, nb), h'), w')" and "rs_body res0 = BEmpty"
  shows "rs_body res = BEmpty"
proof (cases rs0)
  case Nil
  with assms show ?thesis by (simp add: seek_phase_def)
next
  case (Cons r rs')
  obtain start n where r: "r = (start, n)" by (cases r)
  from assms(1) obtain x w1 where "((case (x :: fs_error + nat \<times> 'h) of Inl _ \<Rightarrow> ok (not_satisfiable len res0, h)
      | Inr (_, h') \<Rightarrow> ok ((res0, (start, n) # rs', nb0), h')) :: ('s, 'l, get_state \<times> 'h) handler) w1 = Some (Inr ((res, rs, nb), h'), w')"
    by (auto simp: seek_phase_def Cons r bind_eq_Inr)
  with assms(2) show ?thesis by (cases x) (auto simp: not_satisfiable_def set_header_def)
qed

lemma content_no_body:
  assumes "content_phase b len head ct (res, rs, nb) = (res', rs', nb')"
  shows "rs_body res' = rs_body res" "nb' = nb" "\<not> nb \<Longrightarrow> content_phase b len True ct (res, rs, nb) = (res', rs', nb')"
  using assms by (auto simp: content_phase_def Let_def set_header_def split: if_splits)

lemma get_file_head:
  fixes sv :: "('s, 'h, 'l) server"
  assumes g: "rq_method rq = ''GET''" and run: "get_file uuid sv rq False path m h w = Some (Inr res, w1)"
    and b: "rs_body res = BStream ps err"
  shows "\<exists>w2. get_file uuid sv (as_head rq) True path m h w = Some (Inr (res\<lparr>rs_body := BEmpty\<rparr>), w2)"
proof -
  let ?ct = "mime_type (mime_guess (sv_http sv)) path" and ?bd = "multipart_boundary uuid" and ?len = "md_len m"
  from run obtain res0 w0 url h0 w01 where 0: "get_validators (sv_http sv) m w = Some (Inr res0, w0)"
    "get_redirect sv h w0 = Some (Inr (url, h0), w01)" by (auto simp: get_file_def bind_eq_Inr split_beta)
  note nb0 = validators_no_body [OF 0(1)]
  have url: "url = None"
  proof (rule ccontr)
    assume "url \<noteq> None"
    with run 0 nb0 b show False
      by (auto simp: get_file_def bind_eq_Inr header_unwrap_def set_header_def split: option.splits)
  qed
  let ?res1 = "set_header ''accept-ranges'' ''bytes'' res0"
  let ?st = "\<lambda>cond. case cond of Some s \<Rightarrow> (?res1\<lparr>rs_status := s\<rparr>, True, False)
      | None \<Rightarrow> (?res1, False, get_do_range (sv_http sv) rq m)"
  from run 0 url obtain cond w2 where
    1: "(if_match sv rq (Some m) path :: ('s, 'l, status option) handler) w01 = Some (Inr cond, w2)"
    by (auto simp: get_file_def bind_eq_Inr Let_def)
  obtain r2 nb dr where 2: "?st cond = (r2, nb, dr)" by (metis prod_cases3)
  have r2: "rs_body r2 = BEmpty" using 2 nb0 by (auto simp: set_header_def split: option.splits)
  obtain r3 rs3 nb3 where 3: "range_phase (sv_http sv) rq ?len dr nb r2 = (r3, rs3, nb3)" by (metis prod_cases3)
  note r3 = range_no_body [OF 3 r2]
  from run 0 url 1 2 3 obtain r4 rs4 nb4 h4 w4 where
    4: "seek_phase sv ?len (r3, rs3, nb3) h0 w2 = Some (Inr ((r4, rs4, nb4), h4), w4)"
    by (auto simp: get_file_def bind_eq_Inr Let_def)
  note r4 = seek_no_body [OF 4 r3]
  obtain r5 rs5 nb5 where 5: "content_phase ?bd ?len False ?ct (r4, rs4, nb4) = (r5, rs5, nb5)" by (metis prod_cases3)
  have r5: "rs_body r5 = BEmpty" using content_no_body(1) [OF 5] r4 by simp
  have open_body: "\<not> nb5"
  proof
    assume "nb5"
    with run 0 url 1 2 3 4 5 have "res = r5" by (simp add: get_file_def Let_def)
    with r5 b show False by simp
  qed
  then obtain bd where res: "res = r5\<lparr>rs_body := bd\<rparr>"
    using run 0 url 1 2 3 4 5 by (auto simp: get_file_def Let_def bind_eq_Inr)
  have 6: "content_phase ?bd ?len True ?ct (r4, rs4, nb4) = (r5, rs5, nb5)"
    using content_no_body(2,3) [OF 5] open_body by simp
  have "get_file uuid sv (as_head rq) True path m h w = Some (Inr r5, w4)"
    unfolding get_file_def range_phase_method if_match_head [OF g] using 0 url 1 2 3 4 6 by (simp add: Let_def)
  moreover have "res\<lparr>rs_body := BEmpty\<rparr> = r5" using r5 by (simp add: res)
  ultimately show ?thesis by blast
qed

lemma autoindex_no_stream: "handle_autoindex render sv rq b w = Some (Inr res, w1) \<Longrightarrow> rs_body res \<noteq> BStream ps err"
  by (auto simp: handle_autoindex_def req_path_def bind_eq_Inr ok_def fail_def diverge_def Let_def response_new_def set_header_def
      split: sum.splits if_splits)

lemma if_apply: "(if b then f else g) w = (if b then f w else g w)"
  by simp

section \<open>Properties\<close>




lemma demo_stored:
  "\<exists>res0 w1 f. handle_put range_server (demo_request ''PUT'' ''/d/f'' []) [FBytes ''hello''] demo_world = Some (Inr res0, w1) \<and>
     fs_ok (w_fs w1) \<and> fl_data f = ''hello'' \<and> fs_map (w_fs w1) (segs_of req_df) = Some (MFile f)"
proof -
  let ?put = "demo_request ''PUT'' ''/d/f'' []" and ?body = "[FBytes ''hello'']"
  have h: "header_values ?put ''if'' = []" "rq_path ?put = ''/d/f''" by (simp_all add: header_values_def demo_request_def)
  have b: "clean_body ?body" "whole_body ?body = ''hello''" by (simp_all add: clean_body_def whole_body_def)
  from mem_handle_put [of range_server 1000 demo_world ?put req_df "(None, None)" "put_init range_env ?put" ?body]
    h b demo_path_df demo_df_facts demo_plain demo_no_conditions demo_stamps demo_df_may demo_put_init demo_takes_tags demo_wf fs_demo_facts(1)
  show ?thesis by (fastforce simp: demo_world_def u64_max_def)
qed




end
