(* ===== verification/Dav_Calendar.thy ===== *)
theory Dav_Calendar
  imports Dav_Xml Dav_Fs
begin

text \<open>
  The constants and small functions of \<^verbatim>\<open>src/caldav.rs\<close> and \<^verbatim>\<open>src/carddav.rs\<close>: the home directories, the
  XML elements of the property values, the tests on the content of an object, and the unique names
  read from it line by line.
\<close>

section \<open>Calendars\<close>

definition DEFAULT_CALDAV_DIRECTORY :: bytes where "DEFAULT_CALDAV_DIRECTORY = ''/calendars''"
definition DEFAULT_CALDAV_DIRECTORY_ENDSLASH :: bytes where "DEFAULT_CALDAV_DIRECTORY_ENDSLASH = ''/calendars/''"
definition CALDAV_MAX_RESOURCE_SIZE :: nat where "CALDAV_MAX_RESOURCE_SIZE = 1024 * 1024"

datatype component_type = VEvent | VTodo | VJournal | VFreeBusy | VTimezone | VAlarm

fun component_as_str :: "component_type \<Rightarrow> bytes" where
  "component_as_str VEvent = ''VEVENT''"
| "component_as_str VTodo = ''VTODO''"
| "component_as_str VJournal = ''VJOURNAL''"
| "component_as_str VFreeBusy = ''VFREEBUSY''"
| "component_as_str VTimezone = ''VTIMEZONE''"
| "component_as_str VAlarm = ''VALARM''"

text \<open>An element made by \<^verbatim>\<open>Element::new\<close>, whose name keeps its colon, with its namespace set.\<close>

definition elem_in :: "bytes \<Rightarrow> bytes \<Rightarrow> (bytes \<times> bytes) list \<Rightarrow> xml_node list \<Rightarrow> xml_elem" where
  "elem_in ns name attrs children = Elem None (Some ns) None name attrs children"

definition create_supported_calendar_component_set :: "component_type list \<Rightarrow> xml_elem" where
  "create_supported_calendar_component_set comps =
     elem_in NS_CALDAV ''C:supported-calendar-component-set'' []
       (map (\<lambda>c. XElement (elem_in NS_CALDAV ''C:comp'' [(''name'', component_as_str c)] [])) comps)"

definition create_supported_calendar_data :: xml_elem where
  "create_supported_calendar_data =
     elem_in NS_CALDAV ''C:supported-calendar-data'' []
       [XElement (elem_in NS_CALDAV ''C:calendar-data'' [(''content-type'', ''text/calendar''), (''version'', ''2.0'')] [])]"

definition create_calendar_home_set :: "bytes \<Rightarrow> bytes \<Rightarrow> xml_elem" where
  "create_calendar_home_set pfx path =
     elem_in NS_CALDAV ''C:calendar-home-set'' [] [XElement (elem_in ''DAV:'' ''D:href'' [] [XText (pfx @ path)])]"

text \<open>\<^verbatim>\<open>is_immediate_child_of\<close>, the same in both files.\<close>

definition is_immediate_child_of :: "bytes \<Rightarrow> bytes \<Rightarrow> bool" where
  "is_immediate_child_of path parent_slash =
     (let p = (if ends_with path [slash] \<and> butlast path \<noteq> [] then butlast path else path)
      in starts_with p parent_slash \<and>
         (let name = drop (length parent_slash) p in name \<noteq> [] \<and> slash \<notin> set name))"

definition is_path_in_caldav_directory :: "dav_path \<Rightarrow> bool" where
  "is_path_in_caldav_directory p = is_immediate_child_of (as_bytes p) DEFAULT_CALDAV_DIRECTORY_ENDSLASH"

definition is_calendar_collection :: "xml_elem list \<Rightarrow> bool" where
  "is_calendar_collection rt = list_ex (\<lambda>e. el_name e = ''calendar'' \<and> el_ns e = Some NS_CALDAV) rt"

definition is_calendar_data :: "bytes \<Rightarrow> bool" where
  "is_calendar_data content =
     (if \<not> starts_with content ''BEGIN:VCALENDAR'' then False
      else ends_with (trim_ascii_end content) ''END:VCALENDAR'')"

text \<open>The text after the first colon.\<close>

definition after_colon :: "bytes \<Rightarrow> bytes option" where
  "after_colon s = (case dropWhile (\<lambda>c. c \<noteq> CHR '':'') s of [] \<Rightarrow> None | _ # r \<Rightarrow> Some r)"

fun calendar_uid_loop :: "bytes list \<Rightarrow> bytes option" where
  "calendar_uid_loop [] = None"
| "calendar_uid_loop (l # ls) =
     (let line = str_trim l
      in if starts_with line ''UID:'' then Some (drop 4 line)
         else if starts_with line ''UID;'' then
           (case after_colon (drop 4 line) of Some v \<Rightarrow> Some v | None \<Rightarrow> calendar_uid_loop ls)
         else calendar_uid_loop ls)"

definition extract_calendar_uid :: "bytes \<Rightarrow> bytes option" where
  "extract_calendar_uid content = calendar_uid_loop (str_lines content)"

definition typed_collection :: "bytes \<Rightarrow> bytes \<Rightarrow> xml_elem list" where
  "typed_collection ns name = [elem_in ''DAV:'' ''D:collection'' [] [], elem_in ns name [] []]"

definition calendar_resource_type :: "xml_elem list" where
  "calendar_resource_type = typed_collection NS_CALDAV ''C:calendar''"

definition schedule_inbox_resource_type :: "xml_elem list" where
  "schedule_inbox_resource_type = typed_collection NS_CALDAV ''C:schedule-inbox''"

definition schedule_outbox_resource_type :: "xml_elem list" where
  "schedule_outbox_resource_type = typed_collection NS_CALDAV ''C:schedule-outbox''"

section \<open>Address books\<close>

definition DEFAULT_CARDDAV_DIRECTORY :: bytes where "DEFAULT_CARDDAV_DIRECTORY = ''/addressbooks''"
definition DEFAULT_CARDDAV_DIRECTORY_ENDSLASH :: bytes where "DEFAULT_CARDDAV_DIRECTORY_ENDSLASH = ''/addressbooks/''"
definition CARDDAV_MAX_RESOURCE_SIZE :: nat where "CARDDAV_MAX_RESOURCE_SIZE = 1024 * 1024"

definition address_data_type :: "bytes \<Rightarrow> xml_node" where
  "address_data_type version =
     XElement (elem_in NS_CARDDAV ''CARD:address-data-type'' [(''content-type'', ''text/vcard''), (''version'', version)] [])"

definition create_supported_address_data :: xml_elem where
  "create_supported_address_data =
     elem_in NS_CARDDAV ''CARD:supported-address-data'' [] [address_data_type ''3.0'', address_data_type ''4.0'']"

definition create_addressbook_home_set :: "bytes \<Rightarrow> bytes \<Rightarrow> xml_elem" where
  "create_addressbook_home_set pfx path =
     elem_in NS_CARDDAV ''CARD:addressbook-home-set'' [] [XElement (elem_in ''DAV:'' ''D:href'' [] [XText (pfx @ path)])]"

definition is_path_in_carddav_directory :: "dav_path \<Rightarrow> bool" where
  "is_path_in_carddav_directory p = is_immediate_child_of (as_bytes p) DEFAULT_CARDDAV_DIRECTORY_ENDSLASH"

definition is_vcard_data :: "bytes \<Rightarrow> bool" where
  "is_vcard_data content =
     (if \<not> starts_with content ''BEGIN:VCARD'' then False
      else ends_with (trim_ascii_end content) ''END:VCARD'')"

text \<open>A property name may stand behind a group and before parameters.\<close>

definition extract_vcard_property_value :: "bytes \<Rightarrow> bytes \<Rightarrow> bytes option" where
  "extract_vcard_property_value line prop =
     (case after_colon line of
        None \<Rightarrow> None
      | Some v \<Rightarrow>
         (let name_part = takeWhile (\<lambda>c. c \<noteq> CHR '';'') (takeWhile (\<lambda>c. c \<noteq> CHR '':'') line);
              actual = (case dropWhile (\<lambda>c. c \<noteq> CHR ''.'') name_part of [] \<Rightarrow> name_part | _ # r \<Rightarrow> r)
          in if eq_ignore_ascii_case actual prop then Some v else None))"

fun vcard_prop_loop :: "bytes \<Rightarrow> bytes list \<Rightarrow> bytes option" where
  "vcard_prop_loop prop [] = None"
| "vcard_prop_loop prop (l # ls) =
     (case extract_vcard_property_value (str_trim l) prop of Some v \<Rightarrow> Some v | None \<Rightarrow> vcard_prop_loop prop ls)"

definition extract_vcard_uid :: "bytes \<Rightarrow> bytes option" where
  "extract_vcard_uid content = vcard_prop_loop ''UID'' (str_lines content)"

definition extract_vcard_fn :: "bytes \<Rightarrow> bytes option" where
  "extract_vcard_fn content = vcard_prop_loop ''FN'' (str_lines content)"

end
