(* ===== verification/Prop_Find.thy ===== *)
theory Prop_Find
  imports Dav_Calendar Prop_Patch Handle_Lock Handle_Get
begin

text \<open>
  \<^verbatim>\<open>PROPFIND\<close> and the writer of property responses, \<^verbatim>\<open>src/handle_props.rs\<close>.  The writer's own fields are
  a record; the filesystem, the lock system and the principal it copies from the handler are read
  from the server.  What it has written is the list of events; the pieces it hands to the response
  stream are cuts of that list, and a failed write does not occur.
\<close>

section \<open>Static property lists\<close>

definition PROPNAME_STR :: "bytes list" where
  "PROPNAME_STR = [''D:creationdate'', ''D:displayname'', ''D:getcontentlanguage'', ''D:getcontentlength'', ''D:getcontenttype'',
     ''D:getetag'', ''D:getlastmodified'', ''D:lockdiscovery'', ''D:resourcetype'', ''D:supportedlock'',
     ''D:quota-available-bytes'', ''D:quota-used-bytes'', ''A:executable'', ''Z:Win32LastAccessTime'',
     ''C:calendar-description'', ''C:calendar-timezone'', ''C:supported-calendar-component-set'', ''C:supported-calendar-data'',
     ''C:calendar-home-set'', ''CARD:addressbook-description'', ''CARD:supported-address-data'', ''CARD:addressbook-home-set'',
     ''CARD:max-resource-size'']"

definition ALLPROP_STR :: "bytes list" where
  "ALLPROP_STR = [''D:creationdate'', ''D:displayname'', ''D:getcontentlanguage'', ''D:getcontentlength'', ''D:getcontenttype'',
     ''D:getetag'', ''D:getlastmodified'', ''D:lockdiscovery'', ''D:resourcetype'', ''D:supportedlock'',
     ''C:supported-calendar-component-set'', ''C:supported-calendar-data'', ''CARD:supported-address-data'']"

definition MS_ALLPROP_STR :: "bytes list" where
  "MS_ALLPROP_STR = [''D:creationdate'', ''D:displayname'', ''D:getcontentlanguage'', ''D:getcontentlength'', ''D:getcontenttype'',
     ''D:getetag'', ''D:getlastmodified'', ''D:lockdiscovery'', ''D:resourcetype'', ''D:supportedlock'',
     ''Z:Win32CreationTime'', ''Z:Win32FileAttributes'', ''Z:Win32LastAccessTime'', ''Z:Win32LastModifiedTime'']"

definition static_prop :: "bytes \<Rightarrow> xml_elem" where
  "static_prop a =
     (let e = new2 a
      in set_el_prefix_ns (el_prefix e)
           (if el_prefix e = Some ''D'' then Some NS_DAV
            else if el_prefix e = Some ''A'' then Some NS_APACHE
            else if el_prefix e = Some ''Z'' then Some NS_MS else None) e)"

definition init_staticprop :: "bytes list \<Rightarrow> xml_elem list" where
  "init_staticprop p = map static_prop p"

section \<open>The writer\<close>

record quota_cache =
  q_state :: nat
  q_used :: nat
  q_total :: "nat option"

record prop_writer =
  pw_name :: bytes
  pw_props :: "xml_elem list"
  pw_useragent :: bytes
  pw_cache :: quota_cache
  pw_events :: "xml_event list"

definition quota_bytes :: "nat \<Rightarrow> nat option \<Rightarrow> nat \<times> nat option" where
  "quota_bytes used tot = (used, map_option (\<lambda>t. saturating_sub t used) tot)"

definition supported_report_elem :: "bytes \<Rightarrow> bytes \<Rightarrow> xml_elem" where
  "supported_report_elem pfx report = new3 ''D'' ''supported-report'' [new3 ''D'' ''report'' [new3 pfx report []]]"

definition user_agent :: "http_env \<Rightarrow> request \<Rightarrow> bytes" where
  "user_agent env rq =
     (case header_values rq ''user-agent'' of
        v # _ \<Rightarrow> (case hv_to_str env v of Some s \<Rightarrow> s | None \<Rightarrow> [])
      | [] \<Rightarrow> [])"

text \<open>The properties of the request, with those that the request stands for.\<close>

definition writer_props :: "bytes \<Rightarrow> bytes \<Rightarrow> xml_elem list \<Rightarrow> xml_elem list" where
  "writer_props name ua props =
     (if name \<noteq> ''prop'' \<and> name \<noteq> ''propertyupdate'' then
        (let statics = (if name = ''allprop''
                        then (if contains_sub ua ''Microsoft'' then init_staticprop MS_ALLPROP_STR else init_staticprop ALLPROP_STR)
                        else init_staticprop PROPNAME_STR)
         in props @ filter (\<lambda>a. \<not> list_ex (\<lambda>e. el_ns a = el_ns e \<and> el_name a = el_name e) props) statics)
      else props)"

text \<open>The namespaces declared on the root element.\<close>

definition preamble :: "request \<Rightarrow> bytes \<Rightarrow> xml_elem list \<Rightarrow> dav_path \<Rightarrow> (bytes \<times> bytes) list" where
  "preamble rq name props path =
     (let uses = (\<lambda>ns. list_ex (\<lambda>p. el_ns p = Some ns) props);
          below = (\<lambda>dir. starts_with (rq_path rq) (get_prefix path @ dir))
      in [(''D'', NS_DAV)] @
         (if name \<noteq> ''propertyupdate'' then
            (if uses NS_APACHE then [(''A'', NS_APACHE)] else []) @
            (if uses NS_MS then [(''Z'', NS_MS)] else []) @
            (if uses NS_NEXTCLOUD then [(''nc'', NS_NEXTCLOUD)] else []) @
            (if uses NS_OWNCLOUD then [(''oc'', NS_OWNCLOUD)] else []) @
            (if uses NS_CALDAV \<or> below DEFAULT_CALDAV_DIRECTORY then [(''C'', NS_CALDAV)] else []) @
            (if uses NS_CARDDAV \<or> below DEFAULT_CARDDAV_DIRECTORY then [(''CARD'', NS_CARDDAV)] else [])
          else []))"

definition writer_new :: "http_env \<Rightarrow> request \<Rightarrow> bytes \<Rightarrow> xml_elem list \<Rightarrow> dav_path \<Rightarrow> prop_writer" where
  "writer_new env rq name props path =
     (let ua = user_agent env rq; ps = writer_props name ua props
      in \<lparr>pw_name = name, pw_props = ps, pw_useragent = ua,
          pw_cache = \<lparr>q_state = 0, q_used = 0, q_total = None\<rparr>,
          pw_events = [EvStart (Some ''D'') None ''multistatus'' [] (preamble rq name ps path)]\<rparr>)"

section \<open>One property\<close>

type_synonym status_element = "status \<times> xml_elem"

text \<open>The home set lives on the principal, or on the root; paths are compared as they are displayed.\<close>

definition trim_end_slash :: "bytes \<Rightarrow> bytes" where
  "trim_end_slash s = rev (dropWhile (\<lambda>c. c = slash) (rev s))"

definition is_principal_resource :: "('s, 'h, 'l) server \<Rightarrow> dav_path \<Rightarrow> bool" where
  "is_principal_resource sv path =
     (let p = trim_end_slash (utf8_lossy (as_pathbuf path))
      in case sv_principal sv of Some pr \<Rightarrow> p = trim_end_slash pr | None \<Rightarrow> p = [])"

definition build_elem :: "bool \<Rightarrow> bytes \<Rightarrow> xml_elem \<Rightarrow> bytes \<Rightarrow> status_element" where
  "build_elem content pfx e text =
     (200, Elem (Some pfx) None None (el_name e) [] (if content \<and> text \<noteq> [] then [XText text] else []))"

text \<open>The lookup is done once; a failure is remembered.\<close>

definition pw_quota :: "('s, 'h, 'l) server \<Rightarrow> quota_cache \<Rightarrow> ('s, 'l, (fs_error + nat \<times> nat option) \<times> quota_cache) handler" where
  "pw_quota sv qc =
     (if q_state qc = 0 then
        bind (attempt (on_fs (fs_get_quota (sv_fs sv)))) (\<lambda>r. case r of
            Inl e \<Rightarrow> ok (Inl e, qc\<lparr>q_state := 1\<rparr>)
          | Inr (u, t) \<Rightarrow> ok (Inr (quota_bytes u t), qc\<lparr>q_used := u, q_total := t, q_state := 2\<rparr>))
      else if q_state qc = 1 then ok (Inl NotImplemented, qc)
      else ok (Inr (quota_bytes (q_used qc) (q_total qc)), qc))"

text \<open>A map of namespaces in the order of its keys; \<^verbatim>\<open>put\<close> does not replace a binding.\<close>

fun ns_insert :: "bytes \<times> bytes \<Rightarrow> (bytes \<times> bytes) list \<Rightarrow> (bytes \<times> bytes) list" where
  "ns_insert x [] = [x]"
| "ns_insert x (y # ys) = (if bytes_le (fst x) (fst y) then x # y # ys else y # ns_insert x ys)"

definition ns_sorted :: "(bytes \<times> bytes) list \<Rightarrow> (bytes \<times> bytes) list" where
  "ns_sorted nss = foldr ns_insert nss []"

definition ns_put :: "bytes \<times> bytes \<Rightarrow> (bytes \<times> bytes) list \<Rightarrow> (bytes \<times> bytes) list" where
  "ns_put x m = (if map_of m (fst x) = None then m @ [x] else m)"

fun set_el_prefix_nss :: "bytes \<Rightarrow> (bytes \<times> bytes) list \<Rightarrow> xml_elem \<Rightarrow> xml_elem" where
  "set_el_prefix_nss pfx nss (Elem _ ns _ name attrs ch) = Elem (Some pfx) ns (Some nss) name attrs ch"

definition fix_prop_namespace_prefix :: "xml_elem \<Rightarrow> bytes \<Rightarrow> bytes \<Rightarrow> xml_elem option" where
  "fix_prop_namespace_prefix prop pfx namespace =
     (case el_namespaces prop of
        None \<Rightarrow> None
      | Some nss \<Rightarrow>
          if \<not> list_ex (\<lambda>(k, v). v = namespace \<and> k \<noteq> pfx) nss then None
          else Some (set_el_prefix_nss pfx
                 (fold ns_put (map (\<lambda>(k, v). if v = namespace then (pfx, v) else (k, v)) (ns_sorted nss)) []) prop))"

fun add_children :: "xml_elem list \<Rightarrow> xml_elem \<Rightarrow> xml_elem" where
  "add_children es (Elem pfx ns nss name attrs ch) = Elem pfx ns nss name attrs (ch @ map XElement es)"

definition supported_report_set :: "collection_kind \<Rightarrow> status_element" where
  "supported_report_set kind =
     (let (nss, ch) = (case kind of
            CkCalendar \<Rightarrow> ([(''C'', NS_CALDAV)],
              map (supported_report_elem ''C'') [''calendar-query'', ''calendar-multiget'', ''free-busy-query''])
          | CkAddressbook \<Rightarrow> ([(''CARD'', NS_CARDDAV)],
              map (supported_report_elem ''CARD'') [''addressbook-query'', ''addressbook-multiget''])
          | CkNone \<Rightarrow> ([], []))
      in (200, Elem (Some ''D'') None (Some nss) ''supported-report-set'' [] (map XElement ch)))"

text \<open>The creation time, or the earlier of change and modification.\<close>

definition creation_time :: "dav_meta \<Rightarrow> systime option" where
  "creation_time meta =
     (case md_created meta of
        Inr t \<Rightarrow> Some t
      | Inl _ \<Rightarrow> (case md_status_changed meta of
            Inr ctime \<Rightarrow> (case md_modified meta of
                Inr mtime \<Rightarrow> if mtime < ctime then Some mtime else Some ctime
              | Inl _ \<Rightarrow> Some ctime)
          | Inl _ \<Rightarrow> None))"

definition resourcetype_elem :: "dav_meta \<Rightarrow> collection_kind \<Rightarrow> bool \<Rightarrow> xml_elem \<Rightarrow> xml_elem" where
  "resourcetype_elem meta kind docontent prop =
     (if md_is_dir meta \<and> docontent then
        add_children (new2 ''D:collection'' # (case kind of
            CkCalendar \<Rightarrow> [elem_with_ns ''C'' NS_CALDAV (new2 ''C:calendar'')]
          | CkAddressbook \<Rightarrow> [elem_with_ns ''CARD'' NS_CARDDAV (new2 ''CARD:addressbook'')]
          | CkNone \<Rightarrow> [])) prop
      else prop)"

definition principal_elem :: "bytes option \<Rightarrow> bool \<Rightarrow> xml_elem \<Rightarrow> xml_elem" where
  "principal_elem who docontent prop =
     (if docontent then
        add_children [case who of Some pr \<Rightarrow> elem_text pr (new2 ''D:href'') | None \<Rightarrow> new2 ''D:unauthenticated''] prop
      else prop)"

definition pad0 :: "nat \<Rightarrow> bytes \<Rightarrow> bytes" where
  "pad0 n s = replicate (n - length s) (CHR ''0'') @ s"

text \<open>The values of live properties; \<open>None\<close> when the code falls through to the end of the function.\<close>

definition dav_prop_value :: "('s, 'h, 'l) server \<Rightarrow> bytes \<Rightarrow> dav_path \<Rightarrow> dav_meta \<Rightarrow> collection_kind \<Rightarrow> quota_cache \<Rightarrow> bool \<Rightarrow>
    xml_elem \<Rightarrow> ('s, 'l, status_element option \<times> quota_cache) handler" where
  "dav_prop_value sv ua path meta kind qc docontent prop0 =
     (let prop = (case fix_prop_namespace_prefix prop0 ''D'' NS_DAV of Some e \<Rightarrow> e | None \<Rightarrow> prop0);
          env = sv_http sv; n = el_name prop;
          text = (\<lambda>t. ok (Some (build_elem docontent ''D'' prop t), qc));
          none = ok (None, qc)
      in if n = ''supported-report-set'' then ok (Some (supported_report_set kind), qc)
         else if n = ''creationdate'' then (case creation_time meta of Some t \<Rightarrow> text (rfc3339 env t) | None \<Rightarrow> none)
         else if n = ''getetag'' then (case etag_from_meta meta of Some e \<Rightarrow> text (etag_to_string e) | None \<Rightarrow> none)
         else if n = ''getcontentlength'' \<and> \<not> md_is_dir meta then text (show_nat (md_len meta))
         else if n = ''getcontenttype'' then
           text (if md_is_dir meta then ''httpd/unix-directory'' else mime_type (mime_guess env) path)
         else if n = ''getlastmodified'' then
           (case md_modified meta of Inr t \<Rightarrow> text (systemtime_to_httpdate env t) | Inl _ \<Rightarrow> none)
         else if n = ''resourcetype'' then ok (Some (200, resourcetype_elem meta kind docontent prop), qc)
         else if n = ''current-user-principal'' then ok (Some (200, principal_elem (sv_principal sv) docontent prop), qc)
         else if n = ''supportedlock'' then ok (Some (200, list_supportedlock (sv_ls sv)), qc)
         else if n = ''lockdiscovery'' then bind (list_lockdiscovery sv path) (\<lambda>e. ok (Some (200, e), qc))
         else if n = ''quota-available-bytes'' then
           bind (pw_quota sv qc) (\<lambda>(r, qc1). ok (case r of
               Inr (_, Some a) \<Rightarrow> Some (build_elem docontent ''D'' prop (show_nat a)) | _ \<Rightarrow> None, qc1))
         else if n = ''quota-used-bytes'' then
           bind (pw_quota sv qc) (\<lambda>(r, qc1). ok (case r of
               Inr (u, _) \<Rightarrow> Some (build_elem docontent ''D'' prop
                 (if contains_sub ua ''WebDAVFS'' then pad0 14 (show_nat u) else show_nat u)) | _ \<Rightarrow> None, qc1))
         else none)"

definition apache_prop_value :: "dav_meta \<Rightarrow> bool \<Rightarrow> xml_elem \<Rightarrow> status_element option" where
  "apache_prop_value meta docontent prop =
     (if el_name prop = ''executable'' then
        (case md_executable meta of
           Inr x \<Rightarrow> Some (build_elem docontent ''A'' prop (if x then ''T'' else ''F'')) | Inl _ \<Rightarrow> None)
      else None)"

text \<open>The stored description of a typed collection.\<close>

definition description_value :: "('s, 'h, 'l) server \<Rightarrow> dav_path \<Rightarrow> bool \<Rightarrow> bytes \<Rightarrow> bytes \<Rightarrow>
    ('s, 'l, status_element option) handler" where
  "description_value sv path docontent name ns =
     bind (attempt (on_fs (fs_get_props (sv_fs sv) path docontent))) (\<lambda>r. ok (case r of
         Inr props \<Rightarrow> (case find (\<lambda>p. pr_name p = name \<and> pr_ns p = Some ns) props of
             Some p \<Rightarrow> Some (200, davprop_to_element (sv_http sv) p) | None \<Rightarrow> None)
       | Inl _ \<Rightarrow> None))"

definition utc_timezone :: bytes where
  "utc_timezone = ''BEGIN:VTIMEZONE'' @ [CHR 0x0D, CHR 0x0A] @ ''TZID:UTC'' @ [CHR 0x0D, CHR 0x0A] @ ''END:VTIMEZONE'' @ [CHR 0x0D, CHR 0x0A]"

definition caldav_prop_value :: "('s, 'h, 'l) server \<Rightarrow> dav_path \<Rightarrow> collection_kind \<Rightarrow> bool \<Rightarrow> xml_elem \<Rightarrow>
    ('s, 'l, status_element option) handler" where
  "caldav_prop_value sv path kind docontent prop =
     (let n = el_name prop; text = (\<lambda>t. ok (Some (build_elem docontent ''C'' prop t)))
      in if n = ''calendar-home-set'' \<and> is_principal_resource sv path then
           ok (Some (200, create_calendar_home_set (get_prefix path) DEFAULT_CALDAV_DIRECTORY_ENDSLASH))
         else if kind = CkCalendar then
           (if n = ''supported-calendar-component-set'' then
              ok (Some (200, create_supported_calendar_component_set [VEvent, VTodo, VJournal, VFreeBusy]))
            else if n = ''supported-calendar-data'' then ok (Some (200, create_supported_calendar_data))
            else if n = ''calendar-description'' then description_value sv path docontent ''calendar-description'' NS_CALDAV
            else if n = ''calendar-timezone'' then text utc_timezone
            else if n = ''max-resource-size'' then text (show_nat CALDAV_MAX_RESOURCE_SIZE)
            else if n = ''min-date-time'' then text ''19000101T000000Z''
            else if n = ''max-date-time'' then text ''20991231T235959Z''
            else ok None)
         else ok None)"

definition carddav_prop_value :: "('s, 'h, 'l) server \<Rightarrow> dav_path \<Rightarrow> collection_kind \<Rightarrow> bool \<Rightarrow> xml_elem \<Rightarrow>
    ('s, 'l, status_element option) handler" where
  "carddav_prop_value sv path kind docontent prop =
     (let n = el_name prop
      in if n = ''addressbook-home-set'' \<and> is_principal_resource sv path then
           ok (Some (200, create_addressbook_home_set (get_prefix path) DEFAULT_CARDDAV_DIRECTORY_ENDSLASH))
         else if kind = CkAddressbook then
           (if n = ''supported-address-data'' then ok (Some (200, create_supported_address_data))
            else if n = ''addressbook-description'' then description_value sv path docontent ''addressbook-description'' NS_CARDDAV
            else if n = ''max-resource-size'' then ok (Some (build_elem docontent ''CARD'' prop (show_nat CARDDAV_MAX_RESOURCE_SIZE)))
            else ok None)
         else ok None)"

definition win32_attributes :: "dav_path \<Rightarrow> dav_meta \<Rightarrow> 32 word" where
  "win32_attributes path meta =
     (let a = (if starts_with (file_name_bytes path) ''.'' then 0x0002 else 0)
      in if md_is_dir meta then a OR 0x0010 else a OR 0x0020)"

definition ms_prop_value :: "http_env \<Rightarrow> dav_path \<Rightarrow> dav_meta \<Rightarrow> bool \<Rightarrow> xml_elem \<Rightarrow> status_element option" where
  "ms_prop_value env path meta docontent prop =
     (let n = el_name prop; text = (\<lambda>t. Some (build_elem docontent ''Z'' prop t));
          date = (\<lambda>r. case r of Inr t \<Rightarrow> text (systemtime_to_httpdate env t) | Inl _ \<Rightarrow> None)
      in if n = ''Win32CreationTime'' then
           (case creation_time meta of Some t \<Rightarrow> text (systemtime_to_httpdate env t) | None \<Rightarrow> None)
         else if n = ''Win32LastAccessTime'' then date (md_accessed meta)
         else if n = ''Win32LastModifiedTime'' then date (md_modified meta)
         else if n = ''Win32FileAttributes'' then text (pad0 8 (show_hex (unat (win32_attributes path meta))))
         else None)"

definition known_namespaces :: "bytes list" where
  "known_namespaces = [NS_DAV, NS_APACHE, NS_CALDAV, NS_CARDDAV, NS_MS]"

text \<open>The prefix the answer uses for a namespace, empty for any other.\<close>

definition known_prefix :: "xml_elem \<Rightarrow> bytes" where
  "known_prefix prop =
     (if el_ns prop = Some NS_DAV then ''D'' else if el_ns prop = Some NS_APACHE then ''A''
      else if el_ns prop = Some NS_CALDAV then ''C'' else if el_ns prop = Some NS_CARDDAV then ''CARD''
      else if el_ns prop = Some NS_MS then ''Z'' else [])"

definition live_value :: "('s, 'h, 'l) server \<Rightarrow> bytes \<Rightarrow> dav_path \<Rightarrow> dav_meta \<Rightarrow> collection_kind \<Rightarrow> quota_cache \<Rightarrow> bool \<Rightarrow>
    xml_elem \<Rightarrow> ('s, 'l, status_element option \<times> quota_cache) handler" where
  "live_value sv ua path meta kind qc docontent prop =
     (if el_ns prop = Some NS_DAV then dav_prop_value sv ua path meta kind qc docontent prop
      else if el_ns prop = Some NS_APACHE then ok (apache_prop_value meta docontent prop, qc)
      else if el_ns prop = Some NS_CALDAV then bind (caldav_prop_value sv path kind docontent prop) (\<lambda>v. ok (v, qc))
      else if el_ns prop = Some NS_CARDDAV then bind (carddav_prop_value sv path kind docontent prop) (\<lambda>v. ok (v, qc))
      else if el_ns prop = Some NS_MS then ok (ms_prop_value (sv_http sv) path meta docontent prop, qc)
      else ok (None, qc))"

definition may_be_stored :: "xml_elem \<Rightarrow> bool" where
  "may_be_stored prop \<longleftrightarrow>
     (if el_ns prop = Some NS_DAV then el_name prop \<in> {''displayname'', ''getcontentlanguage''}
      else known_prefix prop = []) \<and> \<not> is_protected_type_marker (element_to_davprop prop)"

text \<open>A property asked for by name may be in the property store.\<close>

definition stored_value :: "('s, 'h, 'l) server \<Rightarrow> bytes \<Rightarrow> dav_path \<Rightarrow> xml_elem \<Rightarrow> ('s, 'l, xml_elem option) handler" where
  "stored_value sv name path prop =
     (if may_be_stored prop \<and> name = ''prop'' then
        bind (have_props sv path) (\<lambda>have.
          if have then
            bind (attempt (on_fs (fs_get_prop (sv_fs sv) path (element_to_davprop prop)))) (\<lambda>r. ok (case r of
                Inr xml \<Rightarrow> (case parse2 (xml_parse_all (sv_http sv)) xml of Inr e \<Rightarrow> Some e | Inl _ \<Rightarrow> None)
              | Inl _ \<Rightarrow> None))
          else ok None)
      else ok None)"

definition absent_prop :: "xml_elem \<Rightarrow> status_element" where
  "absent_prop prop =
     (404, if known_prefix prop \<noteq> [] then snd (build_elem False (known_prefix prop) prop []) else prop)"

definition build_prop :: "('s, 'h, 'l) server \<Rightarrow> prop_writer \<Rightarrow> xml_elem \<Rightarrow> dav_path \<Rightarrow> dav_meta \<Rightarrow> collection_kind \<Rightarrow> quota_cache \<Rightarrow>
    bool \<Rightarrow> ('s, 'l, status_element \<times> quota_cache) handler" where
  "build_prop sv pw prop path meta kind qc docontent =
     bind (live_value sv (pw_useragent pw) path meta kind qc docontent prop) (\<lambda>(v, qc1). case v of
         Some se \<Rightarrow> ok (se, qc1)
       | None \<Rightarrow> bind (stored_value sv (pw_name pw) path prop) (\<lambda>s. case s of
             Some e \<Rightarrow> ok ((200, e), qc1)
           | None \<Rightarrow> ok (absent_prop prop, qc1)))"

section \<open>One resource\<close>

fun props_loop :: "('s, 'h, 'l) server \<Rightarrow> prop_writer \<Rightarrow> dav_path \<Rightarrow> dav_meta \<Rightarrow> collection_kind \<Rightarrow> bool \<Rightarrow> xml_elem list \<Rightarrow>
    quota_cache \<Rightarrow> (status \<times> xml_elem list) list \<Rightarrow> ('s, 'l, (status \<times> xml_elem list) list \<times> quota_cache) handler" where
  "props_loop sv pw path meta kind docontent [] qc hm = ok (hm, qc)"
| "props_loop sv pw path meta kind docontent (p # ps) qc hm =
     bind (build_prop sv pw p path meta kind qc docontent) (\<lambda>((st, e), qc1).
       props_loop sv pw path meta kind docontent ps qc1
         (if pw_name pw = ''prop'' \<or> st = 200 then add_sc_elem hm st e else hm))"

definition dead_props_of :: "('s, 'h, 'l) server \<Rightarrow> prop_writer \<Rightarrow> dav_path \<Rightarrow> ('s, 'l, dav_prop list option) handler" where
  "dead_props_of sv pw path =
     (if pw_name pw \<noteq> ''prop'' then
        bind (have_props sv path) (\<lambda>have.
          if have then bind (attempt (on_fs (fs_get_props (sv_fs sv) path (pw_name pw \<noteq> ''propname''))))
            (\<lambda>r. ok (case r of Inr v \<Rightarrow> Some v | Inl _ \<Rightarrow> None))
          else ok None)
      else ok None)"

definition kind_with_props :: "('s, 'h, 'l) server \<Rightarrow> dav_path \<Rightarrow> dav_meta \<Rightarrow> dav_prop list option \<Rightarrow> ('s, 'l, collection_kind) handler" where
  "kind_with_props sv path meta dead =
     (case dead of Some v \<Rightarrow> ok (kind_from_meta_or_props path meta v) | None \<Rightarrow> collection_kind_of sv path meta)"

definition add_dead_props :: "http_env \<Rightarrow> dav_prop list option \<Rightarrow> (status \<times> xml_elem list) list \<Rightarrow> (status \<times> xml_elem list) list" where
  "add_dead_props env dead hm =
     (case dead of
        None \<Rightarrow> hm
      | Some v \<Rightarrow> fold (\<lambda>p hm. add_sc_elem hm 200 (davprop_to_element env p)) (filter (\<lambda>p. \<not> is_protected_type_marker p) v) hm)"

definition write_props :: "('s, 'h, 'l) server \<Rightarrow> dav_path \<Rightarrow> dav_meta \<Rightarrow> prop_writer \<Rightarrow> ('s, 'l, prop_writer) handler" where
  "write_props sv path meta pw =
     bind (dead_props_of sv pw path) (\<lambda>dead.
     bind (kind_with_props sv path meta dead) (\<lambda>kind.
     bind (props_loop sv pw path meta kind (pw_name pw \<noteq> ''propname'') (pw_props pw) (pw_cache pw) []) (\<lambda>(hm, qc).
       ok (pw\<lparr>pw_cache := qc,
              pw_events := pw_events pw @ write_propresponse (sv_http sv) path (add_dead_props (sv_http sv) dead hm)\<rparr>))))"

section \<open>PROPFIND\<close>

definition hidden_entry :: "('s, 'h, 'l) server \<Rightarrow> bytes \<Rightarrow> bool" where
  "hidden_entry sv name \<longleftrightarrow>
     is_collection_marker name \<or>
     ((sv_hide_dot_prefix sv = HideInListings \<or> sv_hide_dot_prefix sv = HideAlways) \<and> starts_with name ''.'')"

text \<open>The fuel bounds the depth of the recursion.\<close>

function propfind_directory :: "nat \<Rightarrow> ('s, 'h, 'l) server \<Rightarrow> dav_path \<Rightarrow> depth \<Rightarrow> prop_writer \<Rightarrow> ('s, 'l, prop_writer) handler"
  and propfind_entries :: "nat \<Rightarrow> ('s, 'h, 'l) server \<Rightarrow> dav_path \<Rightarrow> depth \<Rightarrow> (fs_error + 's dirent) list \<Rightarrow> prop_writer \<Rightarrow>
    ('s, 'l, prop_writer) handler" where
  "propfind_directory 0 sv path depth pw = diverge"
| "propfind_directory (Suc n) sv path depth pw =
     bind (attempt (on_fs (fs_read_dir (sv_fs sv) path (get_read_dir_meta sv)))) (\<lambda>r. case r of
         Inl e \<Rightarrow> ok pw
       | Inr entries \<Rightarrow> propfind_entries n sv path depth entries pw)"
| "propfind_entries n sv path depth [] pw = ok pw"
| "propfind_entries n sv path depth (Inl e # es) pw = propfind_entries n sv path depth es pw"
| "propfind_entries n sv path depth (Inr de # es) pw =
     (if hidden_entry sv (de_name de) then propfind_entries n sv path depth es pw
      else bind (attempt (on_fs (de_metadata de))) (\<lambda>r. case r of
          Inl e \<Rightarrow> propfind_entries n sv path depth es pw
        | Inr meta \<Rightarrow>
            if md_is_symlink meta then propfind_entries n sv path depth es pw
            else (let npath = add_slash_if (md_is_dir meta) (push_segment (de_name de) path)
                  in bind (write_props sv npath meta pw) (\<lambda>pw1.
                     bind (if depth = DepthInfinity \<and> md_is_dir meta then propfind_directory n sv npath depth pw1 else ok pw1)
                       (propfind_entries n sv path depth es)))))"
  by pat_completeness auto

termination
  by (relation "measures [\<lambda>x. case x of Inl (n, _) \<Rightarrow> n | Inr (n, _) \<Rightarrow> n,
        \<lambda>x. case x of Inl _ \<Rightarrow> 0 | Inr (_, _, _, _, es, _) \<Rightarrow> Suc (length es)]") auto

text \<open>What the body asks for: the kind of request and the properties named.\<close>

definition propfind_request :: "http_env \<Rightarrow> xml_elem \<Rightarrow> dav_error + bytes \<times> xml_elem list" where
  "propfind_request env root =
     (let (includes, elem) = (case el_take_child env ''includes'' root of
            Some (c, rest) \<Rightarrow> (child_elems c, rest) | None \<Rightarrow> ([], root))
      in case find (\<lambda>e. el_name e \<in> {''propname'', ''prop'', ''allprop''}) (child_elems elem) of
           None \<Rightarrow> Inl XmlParseError
         | Some e \<Rightarrow>
             if el_name e = ''propname'' then Inr (''propname'', [])
             else if el_name e = ''prop'' then Inr (''prop'', child_elems e)
             else Inr (''allprop'', includes))"

definition propfind_body :: "http_env \<Rightarrow> bytes \<Rightarrow> dav_error + bytes \<times> xml_elem list" where
  "propfind_body env xmldata =
     (if trim_ascii xmldata = [] then Inr (''allprop'', [])
      else case parse2 (xml_parse_all env) xmldata of
        Inl _ \<Rightarrow> Inl XmlParseError
      | Inr t \<Rightarrow> if el_name t = ''propfind'' \<and> el_ns t = Some NS_DAV then propfind_request env t else Inl XmlParseError)"

definition dav_xml_error :: "bytes \<Rightarrow> bytes" where
  "dav_xml_error body =
     (let nl = [CHR 0x0A]; q = [CHR 0x22]
      in ''<?xml version='' @ q @ ''1.0'' @ q @ '' encoding='' @ q @ ''utf-8'' @ q @ '' ?>'' @ nl @
         ''<D:error xmlns:D='' @ q @ ''DAV:'' @ q @ ''>'' @ nl @ body @ nl @ ''</D:error>'' @ nl)"

definition propfind_depth :: "('s, 'h, 'l) server \<Rightarrow> request \<Rightarrow> depth option" where
  "propfind_depth sv rq =
     (case typed_get rq ''depth'' depth_decode of
        Some DepthZero \<Rightarrow> Some DepthZero
      | Some DepthOne \<Rightarrow> Some DepthOne
      | _ \<Rightarrow> if sv_allow_infinity_depth sv then Some DepthInfinity else None)"

text \<open>What runs behind the response.\<close>

definition propfind_stream :: "nat \<Rightarrow> ('s, 'h, 'l) server \<Rightarrow> dav_path \<Rightarrow> dav_meta \<Rightarrow> depth \<Rightarrow> prop_writer \<Rightarrow>
    ('s, 'l, xml_event list) handler" where
  "propfind_stream n sv path meta depth pw =
     bind (write_props sv path meta pw) (\<lambda>pw1.
     bind (if md_is_dir meta \<and> depth \<noteq> DepthZero then propfind_directory n sv path depth pw1 else ok pw1) (\<lambda>pw2.
       ok (pw_events pw2 @ [EvEnd ''multistatus''])))"

definition handle_propfind :: "nat \<Rightarrow> ('s, 'h, 'l) server \<Rightarrow> request \<Rightarrow> bytes \<Rightarrow> ('s, 'l, response) handler" where
  "handle_propfind n sv rq xmldata =
     (let res0 = set_header ''pragma'' ''no-cache'' (set_header ''cache-control'' ''no-cache'' response_new)
      in case propfind_depth sv rq of
           None \<Rightarrow> ok ((set_header ''content-type'' ''application/xml; charset=utf-8'' res0)
               \<lparr>rs_status := 403, rs_body := BText (dav_xml_error ''<D:propfind-finite-depth/>'')\<rparr>)
         | Some depth \<Rightarrow>
             req_path sv rq (\<lambda>path0.
             bind (visible_metadata sv path0) (\<lambda>meta.
               let (res, path) = fixpath sv res0 path0 meta
               in case propfind_body (sv_http sv) xmldata of
                    Inl e \<Rightarrow> fail e
                  | Inr (name, props) \<Rightarrow>
                      bind (propfind_stream n sv path meta depth (writer_new (sv_http sv) rq name props path)) (\<lambda>evs.
                        ok (multistatus_response evs res)))))"

end
