(* ===== verification/Find_Safe.thy ===== *)
theory Find_Safe
  imports Prop_Find Handle_Safe
begin

text \<open>
  Reading properties changes nothing: actions that succeed and leave the filesystem and the locks in
  force alone, and the contract of a filesystem whose property reads do not write.  The writer of
  property responses is such an action on every server that fulfils the contract.
\<close>

section \<open>Actions that succeed and change nothing\<close>

named_theorems calm_rules "actions that succeed and leave the filesystem and the locks in force alone"

definition calm :: "('l \<Rightarrow> bool) \<Rightarrow> ('l \<Rightarrow> lock_table) \<Rightarrow> (('s, 'l) world, 'e, 'a) act \<Rightarrow> bool" where
  "calm okl view m \<longleftrightarrow> (\<forall>w. okl (w_ls w) \<longrightarrow> (\<exists>x w'. m w = Some (Inr x, w') \<and>
     w_fs w' = w_fs w \<and> okl (w_ls w') \<and> view (w_ls w') = view (w_ls w)))"

lemma calmI:
  assumes "\<And>w. okl (w_ls w) \<Longrightarrow> \<exists>x w'. m w = Some (Inr x, w') \<and> w_fs w' = w_fs w \<and> okl (w_ls w') \<and> view (w_ls w') = view (w_ls w)"
  shows "calm okl view m"
  using assms by (simp add: calm_def)

lemma calmE:
  assumes "calm okl view m" "okl (w_ls w)"
  obtains x w' where "m w = Some (Inr x, w')" "w_fs w' = w_fs w" "okl (w_ls w')" "view (w_ls w') = view (w_ls w)"
  using assms unfolding calm_def by blast

lemma calm_ok [calm_rules]: "calm okl view (ok x)"
  by (simp add: calm_def)

lemma calm_attempt [calm_rules]:
  fixes m :: "(('s, 'l) world, 'e, 'a) act"
  assumes "quiet okl view m"
  shows "calm okl view (attempt m :: (('s, 'l) world, 'f, 'e + 'a) act)"
proof (rule calmI)
  fix w :: "('s, 'l) world"
  assume i: "okl (w_ls w)"
  from quietE [OF assms i] show "\<exists>x w'. (attempt m :: (('s, 'l) world, 'f, 'e + 'a) act) w = Some (Inr x, w') \<and>
    w_fs w' = w_fs w \<and> okl (w_ls w') \<and> view (w_ls w') = view (w_ls w)" by (metis attempt_Some)
qed

lemma calm_bind [calm_rules]:
  fixes m :: "(('s, 'l) world, 'e, 'a) act"
  assumes "calm okl view m" and "\<And>x. calm okl view (f x)"
  shows "calm okl view (bind m f)"
proof (rule calmI)
  fix w :: "('s, 'l) world"
  assume i: "okl (w_ls w)"
  obtain x w1 where m: "m w = Some (Inr x, w1)" and q: "w_fs w1 = w_fs w" "okl (w_ls w1)" "view (w_ls w1) = view (w_ls w)"
    by (rule calmE [OF assms(1) i])
  from calmE [OF assms(2) q(2), of x]
  show "\<exists>x w'. bind m f w = Some (Inr x, w') \<and> w_fs w' = w_fs w \<and> okl (w_ls w') \<and> view (w_ls w') = view (w_ls w)"
    using m q by simp metis
qed

lemma calm_if [calm_rules]: "calm okl view m \<Longrightarrow> calm okl view n \<Longrightarrow> calm okl view (if b then m else n)"
  by simp

lemma calm_split [calm_rules]: "(\<And>a b. calm okl view (f a b)) \<Longrightarrow> calm okl view (case p of (a, b) \<Rightarrow> f a b)"
  by (cases p) simp

lemma calm_option [calm_rules]: "calm okl view m \<Longrightarrow> (\<And>x. calm okl view (f x)) \<Longrightarrow>
    calm okl view (case p of None \<Rightarrow> m | Some x \<Rightarrow> f x)"
  by (cases p) simp_all

lemma calm_sum [calm_rules]: "(\<And>x. calm okl view (f x)) \<Longrightarrow> (\<And>x. calm okl view (g x)) \<Longrightarrow>
    calm okl view (case p of Inl x \<Rightarrow> f x | Inr x \<Rightarrow> g x)"
  by (cases p) simp_all

lemma quiet_if_calm: "calm okl view m \<Longrightarrow> quiet okl view m"
  unfolding calm_def quiet_def by blast

section \<open>The contract of a filesystem that is only read\<close>

locale reading_server = guarded_server ops view inv fs
  for ops :: "'l ls_ops" and view :: "'l \<Rightarrow> lock_table" and inv :: "'l \<Rightarrow> bool" and fs :: "('s, 'h) fs_ops" +
  assumes get_props_pure: "fs_pure (fs_get_props fs p b)"
    and get_prop_pure: "fs_pure (fs_get_prop fs p q)"
    and get_quota_pure: "fs_pure (fs_get_quota fs)"
    and have_props_pure: "\<exists>b. fs_have_props fs p s = Some (b, s)"
begin

lemma pure_reads:
  "guarded sv \<Longrightarrow> fs_pure (fs_get_props (sv_fs sv) p b)"
  "guarded sv \<Longrightarrow> fs_pure (fs_get_prop (sv_fs sv) p q)"
  "guarded sv \<Longrightarrow> fs_pure (fs_get_quota (sv_fs sv))"
  using get_props_pure get_prop_pure get_quota_pure by (simp_all add: guarded_def)

lemma calm_have_props: "guarded sv \<Longrightarrow> calm inv view (have_props sv p)"
proof (rule calmI)
  fix w :: "('s, 'l) world"
  assume "guarded sv" "inv (w_ls w)"
  with have_props_pure [of p "w_fs w"]
  show "\<exists>x w'. have_props sv p w = Some (Inr x, w') \<and> w_fs w' = w_fs w \<and> inv (w_ls w') \<and> view (w_ls w') = view (w_ls w)"
    by (auto simp: have_props_def on_fs_def guarded_def)
qed

lemma calm_collection_kind: "guarded sv \<Longrightarrow> calm inv view (collection_kind_of sv p meta)"
proof (rule calmI)
  fix w :: "('s, 'l) world"
  assume g: "guarded sv" and i: "inv (w_ls w)"
  obtain r where "fs_get_props (sv_fs sv) p False (w_fs w) = Some (r, w_fs w)"
    using pure_reads(1) [OF g] unfolding fs_pure_def by blast
  then show "\<exists>x w'. collection_kind_of sv p meta w = Some (Inr x, w') \<and> w_fs w' = w_fs w \<and> inv (w_ls w') \<and>
      view (w_ls w') = view (w_ls w)"
    using i by (cases r; cases "kind_from_meta p meta")
      (simp_all add: collection_kind_of_def on_fs_def resolve_collection_kind_def)
qed

lemma calm_lockdiscovery: "guarded sv \<Longrightarrow> calm inv view (list_lockdiscovery sv p)"
  by (auto simp: list_lockdiscovery_def discover_locks_def guarded_ls intro!: calm_rules quiet_ls split: sum.splits)

lemma calm_quota: "guarded sv \<Longrightarrow> calm inv view (pw_quota sv qc)"
  by (auto simp: pw_quota_def intro!: calm_rules quiet_on_fs pure_reads split: sum.splits prod.splits)

lemma calm_description: "guarded sv \<Longrightarrow> calm inv view (description_value sv p c name ns)"
  by (auto simp: description_value_def intro!: calm_rules quiet_on_fs pure_reads split: sum.splits)

lemma calm_dav_prop: "guarded sv \<Longrightarrow> calm inv view (dav_prop_value sv ua p meta kind qc c prop)"
  unfolding dav_prop_value_def Let_def
  by (intro calm_rules calm_quota calm_lockdiscovery)

lemma calm_caldav_prop: "guarded sv \<Longrightarrow> calm inv view (caldav_prop_value sv p kind c prop)"
  by (simp add: caldav_prop_value_def Let_def calm_ok calm_description)

lemma calm_carddav_prop: "guarded sv \<Longrightarrow> calm inv view (carddav_prop_value sv p kind c prop)"
  by (simp add: carddav_prop_value_def Let_def calm_ok calm_description)

lemma calm_live_value: "guarded sv \<Longrightarrow> calm inv view (live_value sv ua p meta kind qc c prop)"
  by (auto simp: live_value_def intro!: calm_rules calm_dav_prop calm_caldav_prop calm_carddav_prop)

lemma calm_stored_value: "guarded sv \<Longrightarrow> calm inv view (stored_value sv name p prop)"
  by (auto simp: stored_value_def intro!: calm_rules calm_have_props quiet_on_fs pure_reads split: sum.splits)

lemma calm_build_prop: "guarded sv \<Longrightarrow> calm inv view (build_prop sv pw prop p meta kind qc c)"
  by (auto simp: build_prop_def intro!: calm_rules calm_live_value calm_stored_value split: prod.splits option.splits)

lemma calm_props_loop: "guarded sv \<Longrightarrow> calm inv view (props_loop sv pw p meta kind c ps qc hm)"
  by (induction ps arbitrary: qc hm) (auto intro!: calm_rules calm_build_prop split: prod.splits)

lemma calm_write_props: "guarded sv \<Longrightarrow> calm inv view (write_props sv p meta pw)"
  by (auto simp: write_props_def dead_props_of_def kind_with_props_def intro!: calm_rules calm_have_props calm_collection_kind
      calm_props_loop quiet_on_fs pure_reads split: prod.splits option.splits sum.splits)

end

end
