(* ===== verification/Find_Props.thy ===== *)
theory Find_Props
  imports Find_Safe Handle_Store Patch_Props
begin

text \<open>
  What \<^verbatim>\<open>PROPFIND\<close> answers: every property asked for is answered once, and on the in-memory server the
  responses are exactly the resources in the scope of the request.
\<close>

interpretation memread: reading_server memls_ops lock_view memls_ok "memfs_ops avail" for avail
  by unfold_locales
    (auto simp: memfs_ops_def fs_pure_def memfs_get_props_def memfs_get_prop_def on_tree_def bind_def lift_lookup_def reads_def
      ok_def fail_def not_implemented_def split: sum.splits option.splits)

section \<open>The answer of one resource\<close>

definition answered :: "bytes \<Rightarrow> xml_elem list \<Rightarrow> (status \<times> xml_elem list) list \<Rightarrow> bool" where
  "answered name props hm \<longleftrightarrow> distinct (map fst hm) \<and> fst ` set hm \<subseteq> {200, 404} \<and>
     (if name = ''prop'' then length (concat (map snd hm)) = length props else 404 \<notin> fst ` set hm)"

lemma update_pieces:
  "distinct (map fst hm) \<Longrightarrow> length (concat (map snd (AList.update k (v @ [e]) hm))) + (case map_of hm k of Some u \<Rightarrow> length u | None \<Rightarrow> 0)
     = length (concat (map snd hm)) + Suc (length v)"
  by (induction hm) (auto split: option.splits dest: weak_map_of_SomeI simp: map_of_eq_None_iff)

lemma add_sc_elem_facts:
  assumes "distinct (map fst hm)"
  shows "distinct (map fst (add_sc_elem hm sc e))" "fst ` set (add_sc_elem hm sc e) = insert sc (fst ` set hm)"
    "length (concat (map snd (add_sc_elem hm sc e))) = Suc (length (concat (map snd hm)))"
proof -
  show "length (concat (map snd (add_sc_elem hm sc e))) = Suc (length (concat (map snd hm)))"
    using update_pieces [OF assms, of sc "case map_of hm sc of Some v \<Rightarrow> v | None \<Rightarrow> []" e]
    by (cases "map_of hm sc") (simp_all add: add_sc_elem_def)
qed (use assms in \<open>simp_all add: add_sc_elem_def distinct_update dom_update\<close>)

lemma dav_prop_200:
  "dav_prop_value sv ua p meta kind qc c prop w = Some (Inr (Some (st, e), qc'), w') \<Longrightarrow> st = 200"
  by (auto simp: dav_prop_value_def Let_def build_elem_def bind_eq_Inr supported_report_set_def fail_def ok_def
      split: if_splits option.splits sum.splits prod.splits)

lemma description_200:
  "description_value sv p c name ns w = Some (Inr (Some (st, e)), w') \<Longrightarrow> st = 200"
proof -
  assume "description_value sv p c name ns w = Some (Inr (Some (st, e)), w')"
  then obtain r where "(case r of Inr props \<Rightarrow> (case find (\<lambda>p. pr_name p = name \<and> pr_ns p = Some ns) props of
      Some p \<Rightarrow> Some (200, davprop_to_element (sv_http sv) p) | None \<Rightarrow> None) | Inl (_ :: fs_error) \<Rightarrow> None) = Some (st, e)"
    by (auto simp: description_value_def bind_eq_Inr)
  then show ?thesis by (auto split: sum.splits option.splits)
qed

lemma live_200: "live_value sv ua p meta kind qc c prop w = Some (Inr (Some (st, e), qc'), w') \<Longrightarrow> st = 200"
  by (auto simp: live_value_def bind_eq_Inr ok_def apache_prop_value_def ms_prop_value_def caldav_prop_value_def carddav_prop_value_def
      Let_def build_elem_def dest: dav_prop_200 description_200 split: if_splits option.splits sum.splits)

lemma build_prop_status:
  "build_prop sv pw prop p meta kind qc c w = Some (Inr ((st, e), qc'), w') \<Longrightarrow> st = 200 \<or> (st, e) = absent_prop prop"
  by (auto simp: build_prop_def bind_eq_Inr ok_def dest: live_200 split: option.splits)

lemma absent_404: "fst (absent_prop prop) = 404"
  by (simp add: absent_prop_def)

lemma props_loop_answers:
  assumes "props_loop sv pw p meta kind c ps qc hm w = Some (Inr (hm', qc'), w')"
    and "distinct (map fst hm)" and "fst ` set hm \<subseteq> {200, 404}" and "pw_name pw \<noteq> ''prop'' \<Longrightarrow> 404 \<notin> fst ` set hm"
  shows "distinct (map fst hm') \<and> fst ` set hm' \<subseteq> {200, 404} \<and>
    (if pw_name pw = ''prop'' then length (concat (map snd hm')) = length (concat (map snd hm)) + length ps
     else 404 \<notin> fst ` set hm')"
  using assms
proof (induction ps arbitrary: qc hm w)
  case (Cons q ps)
  from Cons.prems(1) obtain st e qc1 w1 where b: "build_prop sv pw q p meta kind qc c w = Some (Inr ((st, e), qc1), w1)"
    "props_loop sv pw p meta kind c ps qc1 (if pw_name pw = ''prop'' \<or> st = 200 then add_sc_elem hm st e else hm) w1 = Some (Inr (hm', qc'), w')"
    by (auto simp: bind_eq_Inr)
  have st: "st \<in> {200, 404}" using build_prop_status [OF b(1)] absent_404 [of q] by (metis fst_conv insert_iff)
  note f = add_sc_elem_facts [OF Cons.prems(2)]
  let ?hm = "if pw_name pw = ''prop'' \<or> st = 200 then add_sc_elem hm st e else hm"
  have "distinct (map fst ?hm)" "fst ` set ?hm \<subseteq> {200, 404}" using Cons.prems(2,3) st by (auto simp: f)
  moreover have "pw_name pw \<noteq> ''prop'' \<Longrightarrow> 404 \<notin> fst ` set ?hm" using Cons.prems(4) by (simp add: f)
  ultimately show ?case using Cons.IH [OF b(2)] f(3) by (simp split: if_splits)
qed simp

lemma dead_props_answers:
  assumes "distinct (map fst hm)" and "fst ` set hm \<subseteq> {200, 404}" and "404 \<notin> fst ` set hm"
  shows "distinct (map fst (add_dead_props env dead hm)) \<and> fst ` set (add_dead_props env dead hm) \<subseteq> {200, 404} \<and>
    404 \<notin> fst ` set (add_dead_props env dead hm)"
proof (cases dead)
  case (Some v)
  have "distinct (map fst (fold (\<lambda>p hm. add_sc_elem hm 200 (davprop_to_element env p)) ps hm)) \<and>
      fst ` set (fold (\<lambda>p hm. add_sc_elem hm 200 (davprop_to_element env p)) ps hm) \<subseteq> {200, 404} \<and>
      404 \<notin> fst ` set (fold (\<lambda>p hm. add_sc_elem hm 200 (davprop_to_element env p)) ps hm)" for ps
    using assms by (induction ps arbitrary: hm) (auto simp: add_sc_elem_facts)
  then show ?thesis by (simp add: add_dead_props_def Some)
qed (use assms in \<open>simp add: add_dead_props_def\<close>)

text \<open>What is written for a resource.\<close>

lemma write_props_form:
  assumes "write_props sv path meta pw w = Some (Inr pw1, w1)"
  shows "\<exists>hm qc. answered (pw_name pw) (pw_props pw) hm \<and>
    pw1 = pw\<lparr>pw_cache := qc, pw_events := pw_events pw @ write_propresponse (sv_http sv) path hm\<rparr>"
proof -
  from assms obtain dead w2 kind w3 hm qc where r: "dead_props_of sv pw path w = Some (Inr dead, w2)"
    "props_loop sv pw path meta kind (pw_name pw \<noteq> ''propname'') (pw_props pw) (pw_cache pw) [] w3 = Some (Inr (hm, qc), w1)"
    "pw1 = pw\<lparr>pw_cache := qc,
       pw_events := pw_events pw @ write_propresponse (sv_http sv) path (add_dead_props (sv_http sv) dead hm)\<rparr>"
    by (auto simp: write_props_def bind_eq_Inr)
  note l = props_loop_answers [OF r(2), simplified]
  have "dead = None" if "pw_name pw = ''prop''" using r(1) that by (simp add: dead_props_of_def)
  then have "answered (pw_name pw) (pw_props pw) (add_dead_props (sv_http sv) dead hm)"
    using l dead_props_answers [of hm "sv_http sv" dead] by (auto simp: answered_def add_dead_props_def split: if_splits)
  with r(3) show ?thesis by blast
qed

section \<open>The scope of a request\<close>

text \<open>The resources below a directory that a request of a depth reaches.\<close>

definition in_scope :: "('s, 'h, 'l) server \<Rightarrow> fs_map \<Rightarrow> depth \<Rightarrow> bytes list \<Rightarrow> bytes list \<Rightarrow> bool" where
  "in_scope sv m d p ks \<longleftrightarrow> strict_prefix p ks \<and> m ks \<noteq> None \<and> (\<forall>k \<in> set (drop (length p) ks). \<not> hidden_entry sv k) \<and>
     (d = DepthInfinity \<or> length ks = Suc (length p))"

definition wrote :: "http_env \<Rightarrow> prop_writer \<Rightarrow> prop_writer \<Rightarrow> (dav_path \<times> (status \<times> xml_elem list) list) list \<Rightarrow> bool" where
  "wrote env pw pw1 rs \<longleftrightarrow> pw_name pw1 = pw_name pw \<and> pw_props pw1 = pw_props pw \<and>
     pw_events pw1 = pw_events pw @ concat (map (\<lambda>(q, hm). write_propresponse env q hm) rs) \<and>
     (\<forall>(q, hm) \<in> set rs. answered (pw_name pw) (pw_props pw) hm)"

definition same_world :: "(mem_fs, mem_ls) world \<Rightarrow> (mem_fs, mem_ls) world \<Rightarrow> bool" where
  "same_world w w' \<longleftrightarrow> w_fs w' = w_fs w \<and> memls_ok (w_ls w') \<and> lock_view (w_ls w') = lock_view (w_ls w)"

lemma wrote_nil: "wrote env pw pw []"
  by (simp add: wrote_def)

lemma wrote_trans: "wrote env pw pw1 rs \<Longrightarrow> wrote env pw1 pw2 rs' \<Longrightarrow> wrote env pw pw2 (rs @ rs')"
  by (auto simp: wrote_def)

lemma same_trans: "same_world w w1 \<Longrightarrow> same_world w1 w2 \<Longrightarrow> same_world w w2"
  by (simp add: same_world_def)

lemma mem_write_props:
  fixes sv :: "(mem_fs, mem_file, mem_ls) server"
  assumes sv: "sv_fs sv = memfs_ops a" "sv_ls sv = Some memls_ops" and ls: "memls_ok (w_ls w)"
  shows "\<exists>pw1 w1 hm. write_props sv q meta pw w = Some (Inr pw1, w1) \<and> wrote (sv_http sv) pw pw1 [(q, hm)] \<and> same_world w w1"
proof -
  from memread.calm_write_props [OF mem_guarded [OF sv], of q meta pw] ls obtain pw1 w1 where
    r: "write_props sv q meta pw w = Some (Inr pw1, w1)" "same_world w w1"
    unfolding calm_def same_world_def by blast
  from write_props_form [OF r(1)] have "\<exists>hm. wrote (sv_http sv) pw pw1 [(q, hm)]" by (auto simp: wrote_def)
  with r show ?thesis by blast
qed

text \<open>Enough fuel for the recursion.\<close>

definition fuel_for :: "nat \<Rightarrow> depth \<Rightarrow> fs_map \<Rightarrow> bytes list \<Rightarrow> bool" where
  "fuel_for n d m p \<longleftrightarrow> (if d = DepthInfinity then shallower n m p else 0 < n)"

definition finds :: "nat \<Rightarrow> (mem_fs, mem_file, mem_ls) server \<Rightarrow> depth \<Rightarrow> bool" where
  "finds n sv d \<longleftrightarrow> (\<forall>w path pw. fs_ok (w_fs w) \<longrightarrow> names_ok (fs_map (w_fs w)) \<longrightarrow> path_fits path \<longrightarrow>
     is_dir_at (fs_map (w_fs w)) (segs_of path) \<longrightarrow> memls_ok (w_ls w) \<longrightarrow> fuel_for n d (fs_map (w_fs w)) (segs_of path) \<longrightarrow>
     (\<exists>pw1 w1 rs. propfind_directory n sv path d pw w = Some (Inr pw1, w1) \<and> wrote (sv_http sv) pw pw1 rs \<and> same_world w w1 \<and>
        distinct (map (segs_of \<circ> fst) rs) \<and> set (map (segs_of \<circ> fst) rs) = {ks. in_scope sv (fs_map (w_fs w)) d (segs_of path) ks}))"

text \<open>The part of the scope that lies on or below one entry.\<close>

definition entry_scope :: "('s, 'h, 'l) server \<Rightarrow> fs_map \<Rightarrow> depth \<Rightarrow> bytes list \<Rightarrow> bytes \<Rightarrow> bytes list set" where
  "entry_scope sv m d p k = {ks. in_scope sv m d p ks \<and> prefix (p @ [k]) ks}"

lemma entry_scope_hidden: "hidden_entry sv k \<Longrightarrow> entry_scope sv m d p k = {}"
  by (auto simp: entry_scope_def in_scope_def prefix_def)

lemma entry_scope_shown:
  assumes "m (p @ [k]) = Some nd" and "\<not> hidden_entry sv k" and "\<not> node_is_dir nd \<Longrightarrow> \<forall>ks. strict_prefix (p @ [k]) ks \<longrightarrow> m ks = None"
  shows "entry_scope sv m d p k = insert (p @ [k])
    (if d = DepthInfinity \<and> node_is_dir nd then {ks. in_scope sv m d (p @ [k]) ks} else {})"
  (is "?l = ?r")
proof
  have "ks \<in> ?r" if ks: "in_scope sv m d p ks" "prefix (p @ [k]) ks" for ks
  proof (cases "ks = p @ [k]")
    case False
    then have sp: "strict_prefix (p @ [k]) ks" using ks(2) by (simp add: strict_prefix_def)
    then have len: "length ks \<noteq> Suc (length p)" by (auto dest: prefix_length_less)
    with ks(1) have d: "d = DepthInfinity" by (simp add: in_scope_def)
    have "set (drop (length (p @ [k])) ks) \<subseteq> set (drop (length p) ks)" by (simp add: set_drop_subset_set_drop)
    then have "in_scope sv m d (p @ [k]) ks" using ks(1) sp d unfolding in_scope_def by blast
    moreover have "node_is_dir nd" using assms(3) sp ks(1) by (metis in_scope_def)
    ultimately show ?thesis using d by simp
  qed simp
  then show "?l \<subseteq> ?r" unfolding entry_scope_def by blast
  have "ks \<in> ?l" if ks: "in_scope sv m d (p @ [k]) ks" and d: "d = DepthInfinity" for ks
  proof -
    from ks obtain zs where z: "ks = (p @ [k]) @ zs" by (auto simp: in_scope_def strict_prefix_def prefix_def)
    then show ?thesis using ks d assms(2) by (auto simp: entry_scope_def in_scope_def strict_prefix_def)
  qed
  moreover have "p @ [k] \<in> ?l" using assms(1,2) by (auto simp: entry_scope_def in_scope_def strict_prefix_def)
  ultimately show "?r \<subseteq> ?l" by auto
qed

lemma scope_entries:
  assumes "dirs_above m" and "\<And>k nd. (k, nd) \<in> set cs \<longleftrightarrow> m (p @ [k]) = Some nd"
  shows "{ks. in_scope sv m d p ks} = (\<Union>(k, nd) \<in> set cs. entry_scope sv m d p k)"
proof -
  have "\<exists>k nd. (k, nd) \<in> set cs \<and> prefix (p @ [k]) ks" if ks: "in_scope sv m d p ks" for ks
  proof -
    have "k \<in> fst ` set cs" if "m (p @ [k]) \<noteq> None" for k
      using that assms(2) by (metis fst_conv image_eqI not_None_eq)
    from cut_below [OF assms(1) this, of p ks] ks show ?thesis by (force simp: in_scope_def)
  qed
  then show ?thesis by (auto simp: entry_scope_def)
qed

lemma entry_scope_disjoint: "k \<noteq> k' \<Longrightarrow> entry_scope sv m d p k \<inter> entry_scope sv m d p k' = {}"
  by (auto simp: entry_scope_def prefix_def)

lemma find_entries:
  fixes sv :: "(mem_fs, mem_file, mem_ls) server" and w :: "(mem_fs, mem_ls) world"
  assumes sv: "sv_fs sv = memfs_ops a" "sv_ls sv = Some memls_ops" and IH: "d = DepthInfinity \<Longrightarrow> finds n sv d"
    and ok: "fs_ok (w_fs w)" "names_ok (fs_map (w_fs w))" "path_fits path" "memls_ok (w_ls w)"
    and fuel: "fuel_for (Suc n) d (fs_map (w_fs w)) (segs_of path)"
    and cs: "distinct (map fst cs)" "\<forall>(k, nd) \<in> set cs. fs_map (w_fs w) (segs_of path @ [k]) = Some nd"
  shows "\<exists>pw1 w1 rs. propfind_entries n sv path d (map mem_entry cs) pw w = Some (Inr pw1, w1) \<and> wrote (sv_http sv) pw pw1 rs \<and>
    same_world w w1 \<and> distinct (map (segs_of \<circ> fst) rs) \<and>
    set (map (segs_of \<circ> fst) rs) = (\<Union>(k, nd) \<in> set cs. entry_scope sv (fs_map (w_fs w)) d (segs_of path) k)"
  using ok fuel cs
proof (induction cs arbitrary: w pw)
  case Nil
  then show ?case by (auto simp: wrote_def same_world_def)
next
  case (Cons c cs)
  obtain k nd where c: "c = (k, nd)" by (cases c)
  let ?m = "fs_map (w_fs w)" and ?p = "segs_of path"
  let ?np = "add_slash_if (node_is_dir nd) (push_segment k path)"
  have k: "?m (?p @ [k]) = Some nd" using Cons.prems(7) c by simp
  then have good: "good_seg k" using Cons.prems(2) unfolding names_ok_def by blast
  have np: "segs_of ?np = ?p @ [k]" using segs_push_segment [OF good Cons.prems(3)] by simp
  have rest: "distinct (map fst cs)" "\<forall>(k, nd) \<in> set cs. ?m (?p @ [k]) = Some nd" "k \<notin> fst ` set cs"
    using Cons.prems(6,7) c by auto
  have disj: "entry_scope sv ?m d ?p k \<inter> (\<Union>(k, nd) \<in> set cs. entry_scope sv ?m d ?p k) = {}"
  proof -
    have "entry_scope sv ?m d ?p k \<inter> entry_scope sv ?m d ?p k' = {}" if "(k', nd') \<in> set cs" for k' nd'
      using that rest(3) by (intro entry_scope_disjoint) (metis fst_conv image_eqI)
    then show ?thesis by blast
  qed
  show ?case
  proof (cases "hidden_entry sv k")
    case True
    with Cons.IH [OF Cons.prems(1-5) rest(1,2), of pw] show ?thesis by (simp add: c mem_dirent_def entry_scope_hidden)
  next
    case False
    from mem_write_props [OF sv Cons.prems(4), of ?np "as_dirent nd" pw] obtain pw1 w1 hm where
      1: "write_props sv ?np (as_dirent nd) pw w = Some (Inr pw1, w1)" "wrote (sv_http sv) pw pw1 [(?np, hm)]" "same_world w w1" by blast
    have fs1: "w_fs w1 = w_fs w" "memls_ok (w_ls w1)" using 1(3) by (simp_all add: same_world_def)
    let ?in = "d = DepthInfinity \<and> node_is_dir nd"
    let ?below = "if ?in then {ks. in_scope sv ?m d (?p @ [k]) ks} else {}"
    have "\<exists>pw2 w2 rs. (if ?in then propfind_directory n sv ?np d pw1 else ok pw1) w1 = Some (Inr pw2, w2) \<and>
        wrote (sv_http sv) pw1 pw2 rs \<and> same_world w1 w2 \<and> distinct (map (segs_of \<circ> fst) rs) \<and>
        set (map (segs_of \<circ> fst) rs) = ?below"
    proof (cases ?in)
      case True
      have "is_dir_at ?m (?p @ [k])" using k True by (auto simp: is_dir_at_def node_is_dir_iff)
      moreover have "fuel_for n d ?m (?p @ [k])"
        using Cons.prems(5) True by (auto simp: fuel_for_def shallower_def dest: append_prefixD)
      moreover have "path_fits ?np" using Cons.prems(3) by simp
      ultimately show ?thesis
        using IH [unfolded finds_def, rule_format, of w1 ?np pw1, unfolded fs1(1) np, OF _ Cons.prems(1,2)] True fs1(2)
        unfolding if_P [OF True] by blast
    next
      case False
      then show ?thesis unfolding if_not_P [OF False]
        by (intro exI [of _ pw1] exI [of _ w1] exI [of _ "[]"]) (auto simp: wrote_nil same_world_def fs1(2))
    qed
    then obtain pw2 w2 rs where 2: "(if ?in then propfind_directory n sv ?np d pw1 else ok pw1) w1 = Some (Inr pw2, w2)"
        "wrote (sv_http sv) pw1 pw2 rs" "same_world w1 w2" "distinct (map (segs_of \<circ> fst) rs)"
        "set (map (segs_of \<circ> fst) rs) = ?below" by blast
    have fs2: "w_fs w2 = w_fs w" "memls_ok (w_ls w2)" using 2(3) fs1 by (simp_all add: same_world_def)
    from Cons.IH [of w2 pw2, unfolded fs2(1), OF Cons.prems(1-3) fs2(2) Cons.prems(5) rest(1,2)] obtain pw3 w3 rs3 where
      3: "propfind_entries n sv path d (map mem_entry cs) pw2 w2 = Some (Inr pw3, w3)" "wrote (sv_http sv) pw2 pw3 rs3"
        "same_world w2 w3" "distinct (map (segs_of \<circ> fst) rs3)"
        "set (map (segs_of \<circ> fst) rs3) = (\<Union>(k, nd) \<in> set cs. entry_scope sv ?m d ?p k)" by blast
    have es: "entry_scope sv ?m d ?p k = insert (?p @ [k]) ?below"
      by (rule entry_scope_shown [of ?m ?p k nd sv d, OF k False]) (use file_childless [OF Cons.prems(1) k] in blast)
    let ?rs = "(?np, hm) # rs @ rs3"
    have "propfind_entries n sv path d (map mem_entry (c # cs)) pw w = Some (Inr pw3, w3)"
      using False 1(1) 2(1) 3(1) by (simp add: c mem_dirent_def on_fs_def Let_def)
    moreover have "wrote (sv_http sv) pw pw3 ?rs"
      using wrote_trans [OF wrote_trans [OF 1(2) 2(2)] 3(2)] by simp
    moreover have "same_world w w3" using same_trans [OF same_trans [OF 1(3) 2(3)] 3(3)] .
    moreover have segs: "map (segs_of \<circ> fst) ?rs = (?p @ [k]) # map (segs_of \<circ> fst) rs @ map (segs_of \<circ> fst) rs3"
      by (simp add: segs_push_segment [OF good Cons.prems(3)])
    have "?p @ [k] \<notin> ?below" by (simp add: in_scope_def)
    then have "distinct (map (segs_of \<circ> fst) ?rs)"
      unfolding segs distinct.simps distinct_append set_append 2(5) 3(5) using 2(4) 3(4) disj unfolding es by blast
    moreover have "set (map (segs_of \<circ> fst) ?rs) = (\<Union>(k, nd) \<in> set (c # cs). entry_scope sv ?m d ?p k)"
      unfolding segs list.set set_append 2(5) 3(5) using es by (simp add: c)
    ultimately show ?thesis by blast
  qed
qed

lemma find_directory:
  fixes sv :: "(mem_fs, mem_file, mem_ls) server"
  assumes sv: "sv_fs sv = memfs_ops a" "sv_ls sv = Some memls_ops"
  shows "finds n sv d"
proof (induction n)
  case 0
  then show ?case
    unfolding finds_def fuel_for_def shallower_def is_dir_at_def
    by (metis add_0_right less_irrefl option.distinct(1) prefix_order.refl)
next
  case (Suc n)
  show ?case unfolding finds_def
  proof (intro allI impI)
    fix w :: "(mem_fs, mem_ls) world" and path pw
    let ?m = "fs_map (w_fs w)" and ?p = "segs_of path"
    assume ok: "fs_ok (w_fs w)" "names_ok ?m" "path_fits path" and dir: "is_dir_at ?m ?p" and ls: "memls_ok (w_ls w)"
      and fuel: "fuel_for (Suc n) d ?m ?p"
    from memfs_read_dir_ok [OF ok(1) dir, of "get_read_dir_meta sv"] obtain cs where
      cs: "memfs_read_dir path (get_read_dir_meta sv) (w_fs w) = Some (Inr (map mem_entry cs), w_fs w)" "distinct (map fst cs)"
        "\<And>k m. (k, m) \<in> set cs \<longleftrightarrow> ?m (?p @ [k]) = Some m" by blast
    have mem: "\<forall>(k, m) \<in> set cs. ?m (?p @ [k]) = Some m" using cs(3) by auto
    from find_entries [OF sv Suc.IH ok ls fuel cs(2) mem, of pw] obtain pw1 w1 rs where
      r: "propfind_entries n sv path d (map mem_entry cs) pw w = Some (Inr pw1, w1)" "wrote (sv_http sv) pw pw1 rs"
        "same_world w w1" "distinct (map (segs_of \<circ> fst) rs)"
        "set (map (segs_of \<circ> fst) rs) = (\<Union>(k, nd) \<in> set cs. entry_scope sv ?m d ?p k)" by blast
    have "propfind_directory (Suc n) sv path d pw w = Some (Inr pw1, w1)"
      using r(1) cs(1) by (simp add: sv on_fs_def)
    moreover have "set (map (segs_of \<circ> fst) rs) = {ks. in_scope sv ?m d ?p ks}"
      using r(5) unfolding scope_entries [OF fs_ok_above [OF ok(1)] cs(3)] .
    ultimately show "\<exists>pw1 w1 rs. propfind_directory (Suc n) sv path d pw w = Some (Inr pw1, w1) \<and> wrote (sv_http sv) pw pw1 rs \<and> same_world w w1 \<and>
        distinct (map (segs_of \<circ> fst) rs) \<and> set (map (segs_of \<circ> fst) rs) = {ks. in_scope sv ?m d ?p ks}"
      using r(2-4) by blast
  qed
qed

end
