(* ===== verification/Handle_Find.thy ===== *)
theory Handle_Find
  imports Find_Props
begin

text \<open>
  The properties of \<^verbatim>\<open>PROPFIND\<close>.
\<close>

section \<open>The document is well nested\<close>

lemma nest_concat: "(\<And>x st. x \<in> set xs \<Longrightarrow> nest st (f x) = Some st) \<Longrightarrow> nest st (concat (map f xs)) = Some st"
  by (induction xs) (simp_all add: nest_append)

lemma nest_propstat: "nest s (write_propstat env st v) = Some s"
  by (simp add: write_propstat_def nest_append nest_concat write_nested)

lemma nest_propresponse: "nest s (write_propresponse env path props) = Some s"
  by (simp add: write_propresponse_def nest_append nest_concat nest_propstat write_nested)

section \<open>The handler\<close>

text \<open>The resources a request reaches.\<close>

definition reached :: "('s, 'h, 'l) server \<Rightarrow> fs_map \<Rightarrow> depth \<Rightarrow> bytes list \<Rightarrow> bytes list set" where
  "reached sv m d p = insert p (if is_dir_at m p \<and> d \<noteq> DepthZero then {ks. in_scope sv m d p ks} else {})"

definition find_answer :: "http_env \<Rightarrow> prop_writer \<Rightarrow> (dav_path \<times> (status \<times> xml_elem list) list) list \<Rightarrow> xml_event list" where
  "find_answer env pw rs = pw_events pw @ concat (map (\<lambda>(q, hm). write_propresponse env q hm) rs) @ [EvEnd ''multistatus'']"

lemma mem_propfind_stream:
  fixes sv :: "(mem_fs, mem_file, mem_ls) server"
  assumes sv: "sv_fs sv = memfs_ops a" "sv_ls sv = Some memls_ops"
    and ok: "fs_ok (w_fs w)" "names_ok (fs_map (w_fs w))" "path_fits path" "memls_ok (w_ls w)"
    and nd: "fs_map (w_fs w) (segs_of path) = Some nd"
    and fuel: "depth \<noteq> DepthZero \<Longrightarrow> fuel_for n depth (fs_map (w_fs w)) (segs_of path)"
  shows "\<exists>w1 rs. propfind_stream n sv path (as_dirent nd) depth pw w = Some (Inr (find_answer (sv_http sv) pw rs), w1) \<and>
    same_world w w1 \<and> (\<forall>(q, hm) \<in> set rs. answered (pw_name pw) (pw_props pw) hm) \<and>
    distinct (map (segs_of \<circ> fst) rs) \<and>
    set (map (segs_of \<circ> fst) rs) = reached sv (fs_map (w_fs w)) depth (segs_of path)"
proof -
  let ?m = "fs_map (w_fs w)" and ?p = "segs_of path"
  from mem_write_props [OF sv ok(4), of path "as_dirent nd" pw] obtain pw1 w1 hm where
    1: "write_props sv path (as_dirent nd) pw w = Some (Inr pw1, w1)" "wrote (sv_http sv) pw pw1 [(path, hm)]" "same_world w w1" by blast
  have fs1: "w_fs w1 = w_fs w" "memls_ok (w_ls w1)" using 1(3) by (simp_all add: same_world_def)
  have dir: "node_is_dir nd \<longleftrightarrow> is_dir_at ?m ?p" using nd by (auto simp: is_dir_at_def node_is_dir_iff)
  let ?in = "node_is_dir nd \<and> depth \<noteq> DepthZero"
  have "\<exists>pw2 w2 rs. (if ?in then propfind_directory n sv path depth pw1 else ok pw1) w1 = Some (Inr pw2, w2) \<and>
      wrote (sv_http sv) pw1 pw2 rs \<and> same_world w1 w2 \<and> distinct (map (segs_of \<circ> fst) rs) \<and>
      set (map (segs_of \<circ> fst) rs) = (if ?in then {ks. in_scope sv ?m depth ?p ks} else {})"
  proof (cases ?in)
    case True
    with dir have "is_dir_at ?m ?p" by blast
    with find_directory [OF sv, of n depth, unfolded finds_def, rule_format, of w1 path pw1, unfolded fs1(1), OF ok(1-3)] fuel fs1(2) True
    show ?thesis unfolding if_P [OF True] by blast
  next
    case False
    then show ?thesis unfolding if_not_P [OF False]
      by (intro exI [of _ pw1] exI [of _ w1] exI [of _ "[]"]) (auto simp: wrote_nil same_world_def fs1(2))
  qed
  then obtain pw2 w2 rs where 2: "(if ?in then propfind_directory n sv path depth pw1 else ok pw1) w1 = Some (Inr pw2, w2)"
      "wrote (sv_http sv) pw1 pw2 rs" "same_world w1 w2" "distinct (map (segs_of \<circ> fst) rs)"
      "set (map (segs_of \<circ> fst) rs) = (if ?in then {ks. in_scope sv ?m depth ?p ks} else {})" by blast
  let ?rs = "(path, hm) # rs"
  have wr: "wrote (sv_http sv) pw pw2 ?rs" using wrote_trans [OF 1(2) 2(2)] by simp
  have "propfind_stream n sv path (as_dirent nd) depth pw w = Some (Inr (find_answer (sv_http sv) pw ?rs), w2)"
    using 1(1) 2(1) wr by (simp add: propfind_stream_def find_answer_def wrote_def)
  moreover have "same_world w w2" using same_trans [OF 1(3) 2(3)] .
  moreover have "\<forall>(q, hm) \<in> set ?rs. answered (pw_name pw) (pw_props pw) hm" using wr unfolding wrote_def by blast
  moreover have segs: "map (segs_of \<circ> fst) ?rs = ?p # map (segs_of \<circ> fst) rs" by simp
  have "?p \<notin> (if ?in then {ks. in_scope sv ?m depth ?p ks} else {})" by (simp add: in_scope_def)
  then have "distinct (map (segs_of \<circ> fst) ?rs)" unfolding segs distinct.simps 2(5) using 2(4) by blast
  moreover have "set (map (segs_of \<circ> fst) ?rs) = reached sv ?m depth ?p"
    unfolding segs list.set 2(5) reached_def dir ..
  ultimately show ?thesis by blast
qed

lemma mem_handle_propfind:
  fixes sv :: "(mem_fs, mem_file, mem_ls) server"
  assumes sv: "sv_fs sv = memfs_ops a" "sv_ls sv = Some memls_ops"
    and ok: "fs_ok (w_fs w)" "names_ok (fs_map (w_fs w))" "memls_ok (w_ls w)"
    and path: "from_uri_and_prefix (pct_decode (sv_http sv)) (rq_path rq) (sv_prefix sv) = Inr path" "shown sv path"
    and nd: "fs_map (w_fs w) (segs_of path) = Some nd"
    and depth: "propfind_depth sv rq = Some depth" and doc: "propfind_body (sv_http sv) xml = Inr (name, props)"
    and fuel: "depth \<noteq> DepthZero \<Longrightarrow> fuel_for n depth (fs_map (w_fs w)) (segs_of path)"
  shows "\<exists>res w1 rs q. handle_propfind n sv rq xml w = Some (Inr res, w1) \<and> same_world w w1 \<and> rs_status res = 207 \<and>
    q = add_slash_if (node_is_dir nd) path \<and>
    rs_body res = BXml (find_answer (sv_http sv) (writer_new (sv_http sv) rq name props q) rs) \<and>
    (\<forall>(q, hm) \<in> set rs. answered name (writer_props name (user_agent (sv_http sv) rq) props) hm) \<and>
    distinct (map (segs_of \<circ> fst) rs) \<and>
    set (map (segs_of \<circ> fst) rs) = reached sv (fs_map (w_fs w)) depth (segs_of path)"
proof -
  let ?env = "sv_http sv" and ?q = "add_slash_if (node_is_dir nd) path"
  let ?pw = "writer_new ?env rq name props ?q"
  note vm = mem_visible_metadata [OF sv(1) ok(1) path(2) nd]
  have seg: "segs_of ?q = segs_of path" by simp
  obtain res where fx: "fixpath sv (set_header ''pragma'' ''no-cache'' (set_header ''cache-control'' ''no-cache'' response_new)) path
      (as_dirent nd) = (res, ?q)"
    by (cases "node_is_dir nd \<and> \<not> is_collection path") (auto simp: fixpath_def add_slash_if_def add_slash_def Let_def)
  have fits: "path_fits ?q" using request_path_fits [OF path(1)] by simp
  from mem_propfind_stream [OF sv ok(1,2) fits ok(3), unfolded seg, OF nd fuel, of ?pw] obtain w1 rs where
    s: "propfind_stream n sv ?q (as_dirent nd) depth ?pw w = Some (Inr (find_answer ?env ?pw rs), w1)" "same_world w w1"
      "\<forall>(q, hm) \<in> set rs. answered (pw_name ?pw) (pw_props ?pw) hm" "distinct (map (segs_of \<circ> fst) rs)"
      "set (map (segs_of \<circ> fst) rs) = reached sv (fs_map (w_fs w)) depth (segs_of path)" by blast
  have pw: "pw_name ?pw = name" "pw_props ?pw = writer_props name (user_agent ?env rq) props" by (simp_all add: writer_new_def Let_def)
  have "handle_propfind n sv rq xml w = Some (Inr (multistatus_response (find_answer ?env ?pw rs) res), w1)"
    using depth path(1) vm fx doc s(1) by (simp add: handle_propfind_def Let_def req_path_def)
  with s show ?thesis unfolding pw
    by (intro exI [of _ "multistatus_response (find_answer ?env ?pw rs) res"] exI [of _ w1] exI [of _ rs] exI [of _ ?q])
      (simp add: multistatus_response_def set_header_def)
qed

text \<open>Some fuel is enough.\<close>

lemma fuel_exists: "fs_ok s \<Longrightarrow> \<exists>n0. \<forall>n \<ge> n0. fuel_for n d (fs_map s) p"
proof -
  assume "fs_ok s"
  then obtain n0 where "\<forall>n \<ge> n0. shallower n (fs_map s) p" using shallower_exists by blast
  then have "\<forall>n \<ge> max 1 n0. fuel_for n d (fs_map s) p" by (simp add: fuel_for_def)
  then show ?thesis by blast
qed

section \<open>A stored property is found\<close>

lemma stored_not_live:
  assumes "may_be_stored m"
  shows "live_value sv ua path meta kind qc c m w = Some (Inr (None, qc), w)"
proof (cases "el_ns m = Some NS_DAV")
  case True
  then have "el_name m \<in> {''displayname'', ''getcontentlanguage''}" using assms by (simp add: may_be_stored_def)
  moreover have "el_name (case fix_prop_namespace_prefix m ''D'' NS_DAV of Some e \<Rightarrow> e | None \<Rightarrow> m) = el_name m"
    by (cases m) (auto simp: fix_prop_namespace_prefix_def split: option.splits)
  ultimately show ?thesis using True by (auto simp: live_value_def dav_prop_value_def Let_def)
next
  case False
  then show ?thesis using assms by (auto simp: live_value_def may_be_stored_def known_prefix_def split: if_splits)
qed

lemma build_stored_prop:
  fixes sv :: "(mem_fs, mem_file, mem_ls) server"
  assumes sv: "sv_fs sv = memfs_ops a" and m: "may_be_stored m" "pw_name pw = ''prop''"
    and get: "memfs_get_prop path (element_to_davprop m) (w_fs w) = Some (Inr x, w_fs w)"
    and doc: "parse2 (xml_parse_all (sv_http sv)) x = Inr e"
  shows "build_prop sv pw m path meta kind qc c w = Some (Inr ((200, e), qc), w)"
proof -
  have "have_props sv path w = Some (Inr True, w)" by (simp add: have_props_def on_fs_def sv memfs_ops_def)
  moreover have "on_fs (fs_get_prop (sv_fs sv) path (element_to_davprop m)) w = Some (Inr x, w)"
    using get by (simp add: on_fs_def sv memfs_ops_def)
  ultimately have "stored_value sv ''prop'' path m w = Some (Inr (Some e), w)"
    using m(1) doc by (simp add: stored_value_def)
  then show ?thesis using stored_not_live [OF m(1), of sv "pw_useragent pw" path meta kind qc c w] m(2)
    by (simp add: build_prop_def)
qed

lemma write_stored_prop:
  fixes sv :: "(mem_fs, mem_file, mem_ls) server"
  assumes sv: "sv_fs sv = memfs_ops a" "sv_ls sv = Some memls_ops" and ls: "memls_ok (w_ls w)"
    and m: "may_be_stored m" "pw_name pw = ''prop''" "pw_props pw = [m]"
    and get: "memfs_get_prop path (element_to_davprop m) (w_fs w) = Some (Inr x, w_fs w)"
    and doc: "parse2 (xml_parse_all (sv_http sv)) x = Inr e"
  shows "\<exists>pw1 w1. write_props sv path meta pw w = Some (Inr pw1, w1) \<and> same_world w w1 \<and>
    pw_events pw1 = pw_events pw @ write_propresponse (sv_http sv) path [(200, [e])]"
proof -
  from memread.calm_collection_kind [OF mem_guarded [OF sv], of path meta] ls obtain kind w1 where
    k: "collection_kind_of sv path meta w = Some (Inr kind, w1)" "same_world w w1"
    unfolding calm_def same_world_def by blast
  have fs: "w_fs w1 = w_fs w" using k(2) by (simp add: same_world_def)
  have b: "build_prop sv pw m path meta kind (pw_cache pw) True w1 = Some (Inr ((200, e), pw_cache pw), w1)"
    by (rule build_stored_prop [OF sv(1) m(1,2) _ doc]) (simp add: fs get)
  have "add_sc_elem [] 200 e = [(200, [e])]" by (simp add: add_sc_elem_def)
  then show ?thesis
    using k b m by (simp add: write_props_def dead_props_of_def kind_with_props_def add_dead_props_def)
qed

lemma get_prop_same_name:
  "el_name m = el_name n \<Longrightarrow> el_ns m = el_ns n \<Longrightarrow>
   memfs_get_prop path (element_to_davprop m) = memfs_get_prop path (element_to_davprop n)"
  by (simp add: memfs_get_prop_def element_to_davprop_def)

lemma get_prop_slash: "memfs_get_prop (add_slash_if b path) p s = memfs_get_prop path p s"
  if "fs_ok s" "fs_map s (segs_of path) = Some nd" for s nd
  using memfs_get_prop_run [OF that] memfs_get_prop_run [of s "add_slash_if b path" nd] that by simp

section \<open>Properties that are listed or stored and never shown\<close>

text \<open>The time zone a client stores on a calendar is not the one it reads back.\<close>

lemma calendar_timezone_fixed:
  assumes "el_ns m = Some NS_CALDAV" and "el_name m = ''calendar-timezone''"
  shows "liveprop_set env m True = 100"
    and "build_prop sv pw m path meta CkCalendar qc True w =
      Some (Inr ((200, Elem (Some ''C'') None None ''calendar-timezone'' [] [XText utc_timezone]), qc), w)"
  using assms
  by (simp_all add: liveprop_set_def is_protected_type_marker_def is_calendar_type_marker_def is_addressbook_type_marker_def
      element_to_davprop_def NS_DAV_def NS_APACHE_def NS_MS_def NS_CALDAV_def NS_CARDDAV_def build_prop_def live_value_def
      caldav_prop_value_def build_elem_def utc_timezone_def)

text \<open>The CalDAV and CardDAV names in the static lists have no namespace, so they are not found.\<close>

lemma static_typed_props_absent:
  assumes "p \<in> set (init_staticprop PROPNAME_STR)" and "el_prefix p = Some ''C'' \<or> el_prefix p = Some ''CARD''"
    and "pw_name pw \<noteq> ''prop''"
  shows "build_prop sv pw p path meta kind qc c w = Some (Inr ((404, p), qc), w)"
proof -
  have "el_ns p = None"
    using assms(1,2) by (auto simp: init_staticprop_def PROPNAME_STR_def static_prop_def new2_def Let_def)
  then show ?thesis
    using assms(3) by (simp add: build_prop_def live_value_def stored_value_def absent_prop_def known_prefix_def)
qed

section \<open>Requests to run\<close>

lemma demo_find_depth: "propfind_depth (demo_server who) (demo_request me p [(''depth'', ''1'')]) = Some DepthOne"
  "propfind_depth (demo_server who) (demo_request me p [(''depth'', ''0'')]) = Some DepthZero"
  by (simp_all add: propfind_depth_def typed_get_def header_values_def demo_request_def depth_decode_def)

lemma demo_find_all: "propfind_body env [] = Inr (''allprop'', [])"
  by (simp add: propfind_body_def trim_ascii_def trim_ascii_end_def)

lemma demo_root_scope: "reached (demo_server who) (fs_map fs_demo) DepthOne [] = {[], [''d'']}"
proof -
  have "hidden_entry (demo_server who) ''d'' = False"
    by (simp add: hidden_entry_def is_collection_marker_def eq_ignore_ascii_case_def ascii_lower_def demo_server_def)
  then show ?thesis
    by (auto simp: reached_def in_scope_def fs_demo_facts(3) is_dir_at_def new_dir_def strict_prefix_def split: if_splits)
qed

text \<open>A server whose XML library reads back the one element it writes, and knows one \<^verbatim>\<open>PROPFIND\<close> document.\<close>

definition find_env :: http_env where
  "find_env = patch_env\<lparr>xml_parse_all := (\<lambda>b.
       Inr [XElement (if b = ''<color/>'' then color_elem
         else if b = ''find'' then Elem None (Some NS_DAV) None ''propfind'' [] [XElement (Elem None (Some NS_DAV) None ''prop'' [] [XElement color_elem])]
         else update_doc [(''set'', ''urn:x'', ''color'')])])\<rparr>"

definition find_server :: "(mem_fs, mem_file, mem_ls) server" where
  "find_server = (demo_server (Some ''ann''))\<lparr>sv_http := find_env\<rparr>"

lemma find_server_simps [simp]:
  "sv_http find_server = find_env" "sv_prefix find_server = []" "sv_fs find_server = memfs_ops 1000"
  "sv_ls find_server = Some memls_ops" "sv_principal find_server = Some ''ann''"
  by (simp_all add: find_server_def)

lemma find_docs:
  "parse2 (xml_parse_all find_env) ''set'' = Inr (update_doc [(''set'', ''urn:x'', ''color'')])"
  "parse2 (xml_parse_all find_env) (xml_bytes find_env evs) = Inr color_elem"
  "propfind_body find_env ''find'' = Inr (''prop'', [color_elem])"
  by (simp_all add: parse2_def find_env_def patch_env_def propfind_body_def trim_ascii_def trim_ascii_end_def is_ascii_space_def
      propfind_request_def demo_env_def child_elems_def)

lemma find_enter:
  "from_uri_and_prefix (pct_decode find_env) (rq_path patch_request) [] = Inr req_d" "shown find_server req_d"
  "http_if_match find_env patch_request m = None"
proof -
  show "from_uri_and_prefix (pct_decode find_env) (rq_path patch_request) [] = Inr req_d"
    using patch_demo_enter(1) by (simp add: find_env_def)
  show "shown find_server req_d" using demo_d_facts(2) [of "Some ''ann''"] by (simp add: shown_def find_server_def)
  show "http_if_match find_env patch_request m = None" by (simp add: http_if_match_def demo_no_headers)
qed

lemma find_color:
  "may_be_stored color_elem" "live_status find_env True (''set'', color_elem) = 100"
  "proppatch_updates (update_doc [(''set'', ''urn:x'', ''color'')]) = [(''set'', color_elem)]"
  by (simp_all add: may_be_stored_def known_prefix_def live_status_def liveprop_set_def element_to_davprop_def is_protected_type_marker_def
      is_calendar_type_marker_def is_addressbook_type_marker_def NS_DAV_def NS_APACHE_def NS_MS_def NS_CALDAV_def NS_CARDDAV_def patch_updates)

section \<open>Properties\<close>





end
