(* ===== verification/Dav_Filters.thy ===== *)
theory Dav_Filters
  imports Dav_Xml
begin

text \<open>
  The filters that CalDAV and CardDAV queries share, \<^verbatim>\<open>src/dav_filters.rs\<close>: how they are read from the
  request and how a text is matched.  The lower-casing of Unicode text is an argument, \<open>low\<close>.
\<close>

section \<open>Text matches\<close>

record text_match =
  tm_text :: bytes
  tm_collation :: "bytes option"
  tm_negate :: bool
  tm_match_type :: "bytes option"

fun texts_of :: "xml_node list \<Rightarrow> bytes list" where
  "texts_of [] = []"
| "texts_of (XText t # ns) = t # texts_of ns"
| "texts_of (_ # ns) = texts_of ns"

definition attr :: "xml_elem \<Rightarrow> bytes \<Rightarrow> bytes option" where
  "attr e name = map_of (el_attributes e) name"

definition text_match_from :: "xml_elem \<Rightarrow> text_match" where
  "text_match_from e =
     \<lparr>tm_text = (case texts_of (el_children e) of t # _ \<Rightarrow> t | [] \<Rightarrow> []),
      tm_collation = attr e ''collation'',
      tm_negate = (case attr e ''negate-condition'' of Some v \<Rightarrow> v = ''yes'' | None \<Rightarrow> False),
      tm_match_type = attr e ''match-type''\<rparr>"

definition case_insensitive :: "text_match \<Rightarrow> bool" where
  "case_insensitive tm =
     (case tm_collation tm of
        None \<Rightarrow> True
      | Some c \<Rightarrow> eq_ignore_ascii_case c ''i;ascii-casemap'' \<or> eq_ignore_ascii_case c ''i;unicode-casemap'')"

definition tm_matches :: "(bytes \<Rightarrow> bytes) \<Rightarrow> text_match \<Rightarrow> bytes \<Rightarrow> bool" where
  "tm_matches low tm val =
     (let (haystack, needle) =
            (if case_insensitive tm then (low val, low (tm_text tm)) else (val, tm_text tm))
      in if tm_match_type tm = Some ''equals'' then haystack = needle
         else if tm_match_type tm = Some ''starts-with'' then starts_with haystack needle
         else if tm_match_type tm = Some ''ends-with'' then ends_with haystack needle
         else contains_sub haystack needle)"

definition tm_matches_any :: "(bytes \<Rightarrow> bytes) \<Rightarrow> text_match \<Rightarrow> bytes list \<Rightarrow> bool" where
  "tm_matches_any low tm vals = (list_ex (tm_matches low tm) vals \<noteq> tm_negate tm)"

text \<open>What a match says of a set of values: some value matches, or, negated, none does.\<close>

lemma tm_matches_any_iff:
  "tm_matches_any low tm vals \<longleftrightarrow>
     (if tm_negate tm then \<forall>v \<in> set vals. \<not> tm_matches low tm v else \<exists>v \<in> set vals. tm_matches low tm v)"
  by (auto simp: tm_matches_any_def list_ex_iff)

lemma tm_matches_sub:
  assumes "tm_matches low tm val"
  shows "if case_insensitive tm then contains_sub (low val) (low (tm_text tm)) else contains_sub val (tm_text tm)"
  using assms unfolding tm_matches_def Let_def contains_sub_iff
  by (auto simp: starts_with_iff ends_with_iff split: if_splits) (metis append_Nil append_Nil2 append.assoc)+

section \<open>Parameter filters\<close>

record param_filter =
  paf_name :: bytes
  paf_not_defined :: bool
  paf_text :: "text_match option"

fun param_filter_loop :: "xml_elem list \<Rightarrow> param_filter \<Rightarrow> param_filter" where
  "param_filter_loop [] f = f"
| "param_filter_loop (c # cs) f =
     param_filter_loop cs
       (if el_name c = ''is-not-defined'' then f\<lparr>paf_not_defined := True\<rparr>
        else if el_name c = ''text-match'' then f\<lparr>paf_text := Some (text_match_from c)\<rparr> else f)"

definition param_filter_from :: "xml_elem \<Rightarrow> dav_error + param_filter" where
  "param_filter_from e =
     (case attr e ''name'' of
        None \<Rightarrow> Inl (StatusClose 400)
      | Some name \<Rightarrow> Inr (param_filter_loop (child_elems e) \<lparr>paf_name = name, paf_not_defined = False, paf_text = None\<rparr>))"

section \<open>The references of a multiget\<close>

definition hrefs_from :: "xml_elem \<Rightarrow> bytes list" where
  "hrefs_from root = concat (map (\<lambda>e. texts_of (el_children e)) (filter (\<lambda>e. el_name e = ''href'') (child_elems root)))"

text \<open>A parameter filter under its conditions: of the values of the parameter, \<open>vals\<close>.\<close>

definition param_values_match :: "(bytes \<Rightarrow> bytes) \<Rightarrow> param_filter \<Rightarrow> bytes list \<Rightarrow> bool" where
  "param_values_match low f vals =
     (if paf_not_defined f then vals = []
      else if vals = [] then False
      else (case paf_text f of Some tm \<Rightarrow> tm_matches_any low tm vals | None \<Rightarrow> True))"

end
