(* ===== verification/Cal_Query.thy ===== *)
theory Cal_Query
  imports Dav_Calendar Dav_Filters
begin

text \<open>
  Calendar queries, \<^verbatim>\<open>src/caldav.rs\<close>: time ranges, durations, the span of a component and the evaluation
  of a filter on a calendar.  Calendars are what the \<^verbatim>\<open>icalendar\<close> crate parses, with its maps in the order
  in which it walks them; \<open>cal_env\<close> holds what the code asks of that crate and of \<^verbatim>\<open>chrono\<close>.  An instant is
  a count of nanoseconds.  A result \<open>None\<close> of a function that answers an option of its answer stands for a
  panic: \<^verbatim>\<open>+\<close> and \<^verbatim>\<open>-\<close> on instants panic outside the instants that \<^verbatim>\<open>chrono\<close> represents.
\<close>

section \<open>Calendars\<close>

type_synonym instant = int

datatype calendar_date_time = CdtFloating instant | CdtUtc instant | CdtZone instant bytes
datatype date_perhaps_time = DptDateTime calendar_date_time | DptDate instant

record property =
  ip_key :: bytes
  ip_value :: bytes
  ip_params :: "(bytes \<times> bytes) list"

datatype component = Comp (co_kind: bytes) (co_props: "(bytes \<times> property) list")
    (co_multi: "(bytes \<times> property list) list") (co_comps: "component list")

datatype calendar_component = CcEvent component | CcTodo component | CcVenue component | CcOther component | CcElse

record calendar =
  ic_props :: "property list"
  ic_comps :: "calendar_component list"

text \<open>\<open>ce_all set a b n\<close>: the first \<open>n\<close> occurrences from \<open>a\<close> to \<open>b\<close>, each with whether its time zone is
  \<^verbatim>\<open>LOCAL\<close>.\<close>

record 'r cal_env =
  ce_lowercase :: "bytes \<Rightarrow> bytes"
  ce_parse :: "bytes \<Rightarrow> bytes + calendar"
  ce_date_time :: "bytes \<Rightarrow> bytes \<Rightarrow> instant option"
  ce_date :: "bytes \<Rightarrow> bytes \<Rightarrow> instant option"
  ce_format :: "bytes \<Rightarrow> instant \<Rightarrow> bytes"
  ce_max_delta :: nat
  ce_instant_ok :: "instant \<Rightarrow> bool"
  ce_from_property :: "property \<Rightarrow> date_perhaps_time option"
  ce_start :: "component \<Rightarrow> date_perhaps_time option"
  ce_end :: "component \<Rightarrow> date_perhaps_time option"
  ce_zone_utc :: "instant \<Rightarrow> bytes \<Rightarrow> instant option"
  ce_uid :: "component \<Rightarrow> bytes option"
  ce_recurrence_id :: "component \<Rightarrow> date_perhaps_time option"
  ce_recurrence :: "component \<Rightarrow> 'r option"
  ce_is_local :: "'r \<Rightarrow> bool"
  ce_from_local :: "instant \<Rightarrow> instant option"
  ce_to_local :: "instant \<Rightarrow> instant"
  ce_all :: "'r \<Rightarrow> instant \<Rightarrow> instant \<Rightarrow> nat \<Rightarrow> (bool \<times> instant) list"

definition nanos :: int where "nanos = 1000000000"

definition one_day :: int where "one_day = 86400 * nanos"

text \<open>\<^verbatim>\<open>checked_add_signed\<close>, and \<^verbatim>\<open>+\<close>, which panics where it is \<open>None\<close>.\<close>

definition add_delta :: "'r cal_env \<Rightarrow> instant \<Rightarrow> int \<Rightarrow> instant option" where
  "add_delta ce t d = (if ce_instant_ok ce (t + d) then Some (t + d) else None)"

section \<open>Time ranges\<close>

record time_range =
  tr_start :: "bytes option"
  tr_end :: "bytes option"

record parsed_range =
  pr_start :: "instant option"
  pr_end :: "instant option"

definition utc_format :: bytes where "utc_format = ''%Y%m%dT%H%M%SZ''"

definition parse_caldav_date_time :: "'r cal_env \<Rightarrow> bytes \<Rightarrow> instant option" where
  "parse_caldav_date_time ce s0 =
     (let s = str_trim s0
      in case ce_date_time ce utc_format s of Some t \<Rightarrow> Some t
       | None \<Rightarrow> (case ce_date_time ce ''%Y%m%dT%H%M%S'' s of Some t \<Rightarrow> Some t
       | None \<Rightarrow> ce_date ce ''%Y%m%d'' s))"

text \<open>A bound that is absent is no bound; one that does not parse spoils the range.\<close>

definition parse_bound :: "'r cal_env \<Rightarrow> bytes option \<Rightarrow> instant option option" where
  "parse_bound ce b = (case b of None \<Rightarrow> Some None | Some s \<Rightarrow> map_option Some (parse_caldav_date_time ce s))"

definition parse_time_range_bounds :: "'r cal_env \<Rightarrow> bytes option \<Rightarrow> bytes option \<Rightarrow> parsed_range option" where
  "parse_time_range_bounds ce s e =
     (case parse_bound ce s of
        None \<Rightarrow> None
      | Some start \<Rightarrow> (case parse_bound ce e of
          None \<Rightarrow> None
        | Some stop \<Rightarrow> if start = None \<and> stop = None then None else Some \<lparr>pr_start = start, pr_end = stop\<rparr>))"

definition tr_bounds :: "'r cal_env \<Rightarrow> time_range \<Rightarrow> parsed_range option" where
  "tr_bounds ce tr = parse_time_range_bounds ce (tr_start tr) (tr_end tr)"

definition parse_utc_date_time :: "'r cal_env \<Rightarrow> bytes \<Rightarrow> instant option" where
  "parse_utc_date_time ce s = ce_date_time ce utc_format (str_trim s)"

definition parse_freebusy_bounds :: "'r cal_env \<Rightarrow> time_range \<Rightarrow> (instant \<times> instant) option" where
  "parse_freebusy_bounds ce tr =
     Option.bind (tr_start tr) (\<lambda>s. Option.bind (parse_utc_date_time ce s) (\<lambda>start.
     Option.bind (tr_end tr) (\<lambda>e. Option.bind (parse_utc_date_time ce e) (\<lambda>stop.
       if start < stop then Some (start, stop) else None))))"

definition to_utc :: "'r cal_env \<Rightarrow> date_perhaps_time \<Rightarrow> instant" where
  "to_utc ce dt =
     (case dt of
        DptDateTime (CdtUtc t) \<Rightarrow> t
      | DptDateTime (CdtFloating t) \<Rightarrow> t
      | DptDateTime (CdtZone t tz) \<Rightarrow> (case ce_zone_utc ce t tz of Some u \<Rightarrow> u | None \<Rightarrow> t)
      | DptDate t \<Rightarrow> t)"

definition time_spans_overlap :: "instant \<Rightarrow> instant \<Rightarrow> instant option \<Rightarrow> instant option \<Rightarrow> bool" where
  "time_spans_overlap cs ce rs re \<longleftrightarrow>
     (case re of None \<Rightarrow> True | Some e \<Rightarrow> cs < e) \<and>
     (if cs = ce then (case rs of None \<Rightarrow> True | Some s \<Rightarrow> s \<le> cs)
      else (case rs of None \<Rightarrow> True | Some s \<Rightarrow> s < ce))"

section \<open>Durations\<close>

text \<open>A duration in seconds, if it is within the bounds of \<^verbatim>\<open>TimeDelta\<close>.\<close>

definition delta :: "'r cal_env \<Rightarrow> int \<Rightarrow> int option" where
  "delta ce secs = (if \<bar>secs\<bar> \<le> int (ce_max_delta ce) then Some secs else None)"

fun duration_unit :: "byte \<Rightarrow> bool \<Rightarrow> nat option" where
  "duration_unit u in_time =
     (if u = CHR ''W'' \<and> \<not> in_time then Some 604800
      else if u = CHR ''D'' \<and> \<not> in_time then Some 86400
      else if u = CHR ''H'' \<and> in_time then Some 3600
      else if u = CHR ''M'' \<and> in_time then Some 60
      else if u = CHR ''S'' \<and> in_time then Some 1
      else None)"

text \<open>One number with its unit: its seconds and the text behind it.\<close>

definition duration_part :: "'r cal_env \<Rightarrow> bytes \<Rightarrow> bool \<Rightarrow> (int \<times> bytes) option" where
  "duration_part ce rest in_time =
     (let digits = takeWhile is_digit rest
      in if digits = [] then None
         else Option.bind (parse_uint i64_max digits) (\<lambda>n.
           case dropWhile is_digit rest of
             [] \<Rightarrow> None
           | u # us \<Rightarrow> Option.bind (duration_unit u in_time) (\<lambda>k.
               Option.bind (delta ce (int (n * k))) (\<lambda>part. Some (part, us)))))"

lemma duration_part_shorter:
  assumes "duration_part ce rest in_time = Some (d, us)"
  shows "length us < length rest"
proof (cases "dropWhile is_digit rest")
  case (Cons u us')
  with assms have "us' = us"
    unfolding duration_part_def Let_def by (auto simp: bind_eq_Some_conv simp del: duration_unit.simps split: if_split_asm)
  with Cons have "length (u # us) \<le> length rest" by (metis length_dropWhile_le)
  then show ?thesis by simp
qed (use assms in \<open>simp add: duration_part_def Let_def bind_eq_Some_conv split: if_split_asm del: dropWhile_eq_Nil_conv\<close>)

function duration_loop :: "'r cal_env \<Rightarrow> bytes \<Rightarrow> int \<Rightarrow> bool \<Rightarrow> int option" where
  "duration_loop ce rest tot in_time =
     (case rest of
        [] \<Rightarrow> Some tot
      | c # cs \<Rightarrow>
          if c = CHR ''T'' then (if in_time \<or> cs = [] then None else duration_loop ce cs tot True)
          else (case duration_part ce rest in_time of
                  None \<Rightarrow> None
                | Some (part, us) \<Rightarrow>
                    (case delta ce (tot + part) of None \<Rightarrow> None | Some t \<Rightarrow> duration_loop ce us t in_time)))"
  by pat_completeness auto

termination
  by (relation "measure (\<lambda>(_, rest, _, _). length rest)") (use duration_part_shorter in \<open>fastforce+\<close>)

declare duration_loop.simps [simp del]

definition parse_ical_duration :: "'r cal_env \<Rightarrow> bytes \<Rightarrow> int option" where
  "parse_ical_duration ce s0 =
     (let s = str_trim s0;
          neg = starts_with s ''-'';
          rest = (if starts_with s ''-'' \<or> starts_with s ''+'' then tl s else s)
      in if \<not> starts_with rest ''P'' then None
         else if tl rest = [] then None
         else map_option (\<lambda>t. if neg then - t else t) (duration_loop ce (tl rest) 0 False))"

section \<open>The span of a component\<close>

definition component_span :: "'r cal_env \<Rightarrow> component \<Rightarrow> (instant \<times> instant) option option" where
  "component_span ce c =
     (let due = Option.bind (map_of (co_props c) ''DUE'') (ce_from_property ce);
          duration = Option.bind (map_of (co_props c) ''DURATION'') (\<lambda>p. parse_ical_duration ce (ip_value p))
      in case (ce_start ce c, ce_end ce c, due) of
           (Some s, Some e, _) \<Rightarrow> Some (Some (to_utc ce s, to_utc ce e))
         | (Some s, None, Some d) \<Rightarrow> Some (Some (to_utc ce s, to_utc ce d))
         | (Some s, None, None) \<Rightarrow>
             (let start = to_utc ce s
              in case (duration, s) of
                   (Some d, _) \<Rightarrow> Some (map_option (\<lambda>e. (start, e)) (add_delta ce start (d * nanos)))
                 | (None, DptDate _) \<Rightarrow> map_option (\<lambda>e. Some (start, e)) (add_delta ce start one_day)
                 | (None, DptDateTime _) \<Rightarrow> Some (Some (start, start)))
         | (None, None, Some d) \<Rightarrow> Some (Some (to_utc ce d, to_utc ce d))
         | (None, Some e, _) \<Rightarrow> Some (Some (to_utc ce e, to_utc ce e))
         | (None, None, None) \<Rightarrow> Some None)"

definition component_overlaps :: "'r cal_env \<Rightarrow> component \<Rightarrow> time_range \<Rightarrow> bool option" where
  "component_overlaps ce c tr =
     (case tr_bounds ce tr of
        None \<Rightarrow> Some False
      | Some rg \<Rightarrow> (case component_span ce c of
          None \<Rightarrow> None
        | Some None \<Rightarrow> Some False
        | Some (Some (s, e)) \<Rightarrow> Some (time_spans_overlap s e (pr_start rg) (pr_end rg))))"

section \<open>Filters\<close>

text \<open>\<^verbatim>\<open>all\<close>, \<^verbatim>\<open>any\<close> and \<^verbatim>\<open>filter\<close> with a test that may panic.\<close>

fun all_m :: "('a \<Rightarrow> bool option) \<Rightarrow> 'a list \<Rightarrow> bool option" where
  "all_m p [] = Some True"
| "all_m p (x # xs) = (case p x of None \<Rightarrow> None | Some b \<Rightarrow> if b then all_m p xs else Some False)"

fun any_m :: "('a \<Rightarrow> bool option) \<Rightarrow> 'a list \<Rightarrow> bool option" where
  "any_m p [] = Some False"
| "any_m p (x # xs) = (case p x of None \<Rightarrow> None | Some b \<Rightarrow> if b then Some True else any_m p xs)"

fun filter_m :: "('a \<Rightarrow> bool option) \<Rightarrow> 'a list \<Rightarrow> 'a list option" where
  "filter_m p [] = Some []"
| "filter_m p (x # xs) =
     (case p x of None \<Rightarrow> None | Some b \<Rightarrow> map_option (\<lambda>ys. if b then x # ys else ys) (filter_m p xs))"

definition and_then :: "bool option \<Rightarrow> bool option \<Rightarrow> bool option" where
  "and_then a b = (case a of None \<Rightarrow> None | Some x \<Rightarrow> if x then b else Some False)"

record prop_filter =
  pf_name :: bytes
  pf_not_defined :: bool
  pf_text :: "text_match option"
  pf_range :: "time_range option"
  pf_params :: "param_filter list"

datatype comp_filter = CompFilter (cf_name: bytes) (cf_not_defined: bool) (cf_range: "time_range option")
    (cf_props: "prop_filter list") (cf_comps: "comp_filter list")

record calendar_query =
  cq_filter :: "comp_filter option"
  cq_range :: "time_range option"
  cq_properties :: "bytes list"

definition param_filter_matches :: "'r cal_env \<Rightarrow> property \<Rightarrow> param_filter \<Rightarrow> bool" where
  "param_filter_matches ce p f =
     (let v = map_option snd (find (\<lambda>(k, _). eq_ignore_ascii_case k (paf_name f)) (ip_params p))
      in if paf_not_defined f then v = None
         else (case v of
                 None \<Rightarrow> False
               | Some x \<Rightarrow> (case paf_text f of Some tm \<Rightarrow> tm_matches_any (ce_lowercase ce) tm [x] | None \<Rightarrow> True)))"

definition property_overlaps :: "'r cal_env \<Rightarrow> property \<Rightarrow> time_range \<Rightarrow> bool option" where
  "property_overlaps ce p tr =
     (case tr_bounds ce tr of
        None \<Rightarrow> Some False
      | Some rg \<Rightarrow> (case ce_from_property ce p of
          None \<Rightarrow> Some False
        | Some dpt \<Rightarrow>
            (let start = to_utc ce dpt
             in map_option (\<lambda>e. time_spans_overlap start e (pr_start rg) (pr_end rg))
                  (case dpt of DptDate _ \<Rightarrow> add_delta ce start one_day | DptDateTime _ \<Rightarrow> Some start))))"

definition property_instance_matches :: "'r cal_env \<Rightarrow> prop_filter \<Rightarrow> property \<Rightarrow> bool option" where
  "property_instance_matches ce pf p =
     and_then (case pf_range pf of Some tr \<Rightarrow> property_overlaps ce p tr | None \<Rightarrow> Some True)
       (Some (list_all (param_filter_matches ce p) (pf_params pf)))"

definition matches_prop_values :: "'r cal_env \<Rightarrow> property list \<Rightarrow> prop_filter \<Rightarrow> bool option" where
  "matches_prop_values ce props pf =
     (if pf_not_defined pf then Some (props = [])
      else (case filter_m (property_instance_matches ce pf) props of
              None \<Rightarrow> None
            | Some cands \<Rightarrow>
                Some (cands \<noteq> [] \<and>
                  (case pf_text pf of Some tm \<Rightarrow> tm_matches_any (ce_lowercase ce) tm (map ip_value cands) | None \<Rightarrow> True))))"

definition calendar_matches_prop_filter :: "'r cal_env \<Rightarrow> calendar \<Rightarrow> prop_filter \<Rightarrow> bool option" where
  "calendar_matches_prop_filter ce cal pf =
     matches_prop_values ce (filter (\<lambda>p. eq_ignore_ascii_case (ip_key p) (pf_name pf)) (ic_props cal)) pf"

definition component_props :: "component \<Rightarrow> bytes \<Rightarrow> property list" where
  "component_props c name =
     map snd (filter (\<lambda>(k, _). eq_ignore_ascii_case k name) (co_props c)) @
     concat (map snd (filter (\<lambda>(k, _). eq_ignore_ascii_case k name) (co_multi c)))"

definition component_matches_prop_filter :: "'r cal_env \<Rightarrow> component \<Rightarrow> prop_filter \<Rightarrow> bool option" where
  "component_matches_prop_filter ce c pf = matches_prop_values ce (component_props c (pf_name pf)) pf"

definition children_named :: "component \<Rightarrow> bytes \<Rightarrow> component list" where
  "children_named c name = filter (\<lambda>ch. eq_ignore_ascii_case (co_kind ch) name) (co_comps c)"

fun component_matches_filter :: "'r cal_env \<Rightarrow> comp_filter \<Rightarrow> component \<Rightarrow> bool option"
  and nested_filters_match :: "'r cal_env \<Rightarrow> comp_filter list \<Rightarrow> component \<Rightarrow> bool option"
  and nested_filter_match :: "'r cal_env \<Rightarrow> comp_filter \<Rightarrow> component \<Rightarrow> bool option" where
  "component_matches_filter ce (CompFilter name nd tr props comps) c =
     and_then (case tr of Some r \<Rightarrow> component_overlaps ce c r | None \<Rightarrow> Some True)
       (and_then (all_m (component_matches_prop_filter ce c) props) (nested_filters_match ce comps c))"
| "nested_filters_match ce [] c = Some True"
| "nested_filters_match ce (f # fs) c = and_then (nested_filter_match ce f c) (nested_filters_match ce fs c)"
| "nested_filter_match ce (CompFilter name nd tr props comps) c =
     (let children = children_named c name
      in if nd then Some (children = [])
         else any_m (component_matches_filter ce (CompFilter name nd tr props comps)) children)"

fun component_name_matches :: "calendar_component \<Rightarrow> bytes \<Rightarrow> bool" where
  "component_name_matches (CcEvent _) name = eq_ignore_ascii_case name ''VEVENT''"
| "component_name_matches (CcTodo _) name = eq_ignore_ascii_case name ''VTODO''"
| "component_name_matches (CcVenue _) name = eq_ignore_ascii_case name ''VVENUE''"
| "component_name_matches (CcOther c) name = eq_ignore_ascii_case (co_kind c) name"
| "component_name_matches CcElse name = False"

definition component_of :: "calendar_component \<Rightarrow> component option" where
  "component_of c = (case c of CcEvent x \<Rightarrow> Some x | CcTodo x \<Rightarrow> Some x | CcVenue x \<Rightarrow> Some x | CcOther x \<Rightarrow> Some x
     | CcElse \<Rightarrow> None)"

definition calendar_component_matches :: "'r cal_env \<Rightarrow> comp_filter \<Rightarrow> calendar_component \<Rightarrow> bool option" where
  "calendar_component_matches ce f c =
     (case component_of c of Some x \<Rightarrow> component_matches_filter ce f x | None \<Rightarrow> Some False)"

definition calendar_component_overlaps :: "'r cal_env \<Rightarrow> time_range \<Rightarrow> calendar_component \<Rightarrow> bool option" where
  "calendar_component_overlaps ce tr c =
     (case component_of c of Some x \<Rightarrow> component_overlaps ce x tr | None \<Rightarrow> Some False)"

definition calendar_nested_filters_match :: "'r cal_env \<Rightarrow> calendar \<Rightarrow> comp_filter list \<Rightarrow> bool option" where
  "calendar_nested_filters_match ce cal fs =
     all_m (\<lambda>f. let children = filter (\<lambda>c. component_name_matches c (cf_name f)) (ic_comps cal)
                in if cf_not_defined f then Some (children = [])
                   else any_m (calendar_component_matches ce f) children) fs"

definition matches_calendar :: "'r cal_env \<Rightarrow> calendar \<Rightarrow> comp_filter \<Rightarrow> bool option" where
  "matches_calendar ce cal f =
     (if eq_ignore_ascii_case (cf_name f) ''VCALENDAR'' then
        if cf_not_defined f then Some False
        else and_then (case cf_range f of Some tr \<Rightarrow> any_m (calendar_component_overlaps ce tr) (ic_comps cal) | None \<Rightarrow> Some True)
          (and_then (all_m (calendar_matches_prop_filter ce cal) (cf_props f))
             (calendar_nested_filters_match ce cal (cf_comps f)))
      else calendar_nested_filters_match ce cal [f])"

definition validate_calendar_data :: "'r cal_env \<Rightarrow> bytes \<Rightarrow> bytes + calendar" where
  "validate_calendar_data ce content =
     (case ce_parse ce content of Inl e \<Rightarrow> Inl (''Invalid iCalendar data: '' @ e) | Inr c \<Rightarrow> Inr c)"

definition calendar_matches_query :: "'r cal_env \<Rightarrow> bytes \<Rightarrow> calendar_query \<Rightarrow> bool option" where
  "calendar_matches_query ce content q =
     (case cq_filter q of
        None \<Rightarrow> Some False
      | Some f \<Rightarrow> (case validate_calendar_data ce content of
          Inl _ \<Rightarrow> Some False
        | Inr cal \<Rightarrow> matches_calendar ce cal f))"

end
