(* ===== verification/Cal_Busy.thy ===== *)
theory Cal_Busy
  imports Cal_Query "HOL-Library.Product_Lexorder"
begin

text \<open>
  Free-busy reports, \<^verbatim>\<open>src/caldav.rs\<close>: the busy intervals of a calendar, merged per type, and the
  \<^verbatim>\<open>VFREEBUSY\<close> text.  Again \<open>None\<close> around an answer stands for a panic.
\<close>

section \<open>Types of busy time\<close>

datatype fb_type = FbBusy | FbTentative | FbUnavailable

fun fb_rank :: "fb_type \<Rightarrow> nat" where
  "fb_rank FbBusy = 0"
| "fb_rank FbTentative = 1"
| "fb_rank FbUnavailable = 2"

lemma fb_rank_inject [simp]: "fb_rank a = fb_rank b \<longleftrightarrow> a = b"
  by (cases a; cases b) simp_all

text \<open>The derived order is the order of declaration.\<close>

instantiation fb_type :: linorder
begin

definition less_eq_fb_type :: "fb_type \<Rightarrow> fb_type \<Rightarrow> bool" where
  "less_eq_fb_type a b \<longleftrightarrow> fb_rank a \<le> fb_rank b"

definition less_fb_type :: "fb_type \<Rightarrow> fb_type \<Rightarrow> bool" where
  "less_fb_type a b \<longleftrightarrow> fb_rank a < fb_rank b"

instance by standard (auto simp: less_eq_fb_type_def less_fb_type_def)

end

definition from_fbtype :: "bytes option \<Rightarrow> fb_type option" where
  "from_fbtype v =
     (case v of
        None \<Rightarrow> Some FbBusy
      | Some s \<Rightarrow>
          if eq_ignore_ascii_case s ''FREE'' then None
          else if eq_ignore_ascii_case s ''BUSY-TENTATIVE'' then Some FbTentative
          else if eq_ignore_ascii_case s ''BUSY-UNAVAILABLE'' then Some FbUnavailable
          else Some FbBusy)"

fun fbtype_param :: "fb_type \<Rightarrow> bytes option" where
  "fbtype_param FbBusy = None"
| "fbtype_param FbTentative = Some ''BUSY-TENTATIVE''"
| "fbtype_param FbUnavailable = Some ''BUSY-UNAVAILABLE''"

record busy_interval =
  bi_start :: instant
  bi_end :: instant
  bi_type :: fb_type

section \<open>The busy time of a calendar\<close>

definition property_value :: "component \<Rightarrow> bytes \<Rightarrow> bytes option" where
  "property_value c name = map_option (\<lambda>(_, p). ip_value p) (find (\<lambda>(k, _). eq_ignore_ascii_case k name) (co_props c))"

definition event_busy_type :: "component \<Rightarrow> fb_type option" where
  "event_busy_type c =
     (if (case property_value c ''TRANSP'' of Some v \<Rightarrow> eq_ignore_ascii_case v ''TRANSPARENT'' | None \<Rightarrow> False) then None
      else (case property_value c ''STATUS'' of
              Some st \<Rightarrow>
                if eq_ignore_ascii_case st ''CANCELLED'' then None
                else if eq_ignore_ascii_case st ''TENTATIVE'' then Some FbTentative
                else Some FbBusy
            | None \<Rightarrow> Some FbBusy))"

definition MAX_OCCURRENCE_EXPANSION :: nat where "MAX_OCCURRENCE_EXPANSION = 2500"

definition has_recurrence :: "component \<Rightarrow> bool" where
  "has_recurrence c \<longleftrightarrow> property_value c ''RRULE'' \<noteq> None \<or>
     list_ex (\<lambda>(k, _). eq_ignore_ascii_case k ''RDATE'' \<or> eq_ignore_ascii_case k ''EXDATE'') (co_multi c)"

text \<open>The occurrences that events with the same unique name replace.\<close>

definition replaced_occurrences :: "'r cal_env \<Rightarrow> component \<Rightarrow> calendar \<Rightarrow> instant list" where
  "replaced_occurrences ce event cal =
     (case ce_uid ce event of
        None \<Rightarrow> []
      | Some uid \<Rightarrow> List.map_filter (\<lambda>c. case c of
            CcEvent other \<Rightarrow>
              if ce_uid ce other \<noteq> Some uid then None else map_option (to_utc ce) (ce_recurrence_id ce other)
          | _ \<Rightarrow> None) (ic_comps cal))"

definition window_in_tz :: "'r cal_env \<Rightarrow> 'r \<Rightarrow> instant \<Rightarrow> instant" where
  "window_in_tz ce rs t =
     (if ce_is_local ce rs then (case ce_from_local ce t of Some u \<Rightarrow> u | None \<Rightarrow> t) else t)"

definition occurrence_start :: "'r cal_env \<Rightarrow> bool \<times> instant \<Rightarrow> instant" where
  "occurrence_start ce occ = (if fst occ then ce_to_local ce (snd occ) else snd occ)"

fun map_m :: "('a \<Rightarrow> 'b option) \<Rightarrow> 'a list \<Rightarrow> 'b list option" where
  "map_m f [] = Some []"
| "map_m f (x # xs) = (case f x of None \<Rightarrow> None | Some y \<Rightarrow> map_option ((#) y) (map_m f xs))"

definition base_occurrence :: "instant \<times> instant \<Rightarrow> instant \<Rightarrow> instant \<Rightarrow> (instant \<times> instant) list" where
  "base_occurrence span rs re =
     (if time_spans_overlap (fst span) (snd span) (Some rs) (Some re) then [span] else [])"

definition expanded_occurrences :: "'r cal_env \<Rightarrow> 'r \<Rightarrow> instant list \<Rightarrow> int \<Rightarrow> instant \<Rightarrow> instant \<Rightarrow>
    (instant \<times> instant) list option" where
  "expanded_occurrences ce st excluded duration rs re =
     (case add_delta ce rs (- duration) of
        None \<Rightarrow> None
      | Some ws \<Rightarrow>
          map_option (filter (\<lambda>(s, e). s \<notin> List.set excluded \<and> time_spans_overlap s e (Some rs) (Some re)))
            (map_m (\<lambda>occ. map_option (Pair (occurrence_start ce occ)) (add_delta ce (occurrence_start ce occ) duration))
               (ce_all ce st (window_in_tz ce st ws) (window_in_tz ce st re) MAX_OCCURRENCE_EXPANSION)))"

definition event_occurrences_in_range :: "'r cal_env \<Rightarrow> component \<Rightarrow> calendar \<Rightarrow> instant \<Rightarrow> instant \<Rightarrow>
    (instant \<times> instant) list option" where
  "event_occurrences_in_range ce event cal rs re =
     (case component_span ce event of
        None \<Rightarrow> None
      | Some None \<Rightarrow> Some []
      | Some (Some span) \<Rightarrow>
          if \<not> has_recurrence event then Some (base_occurrence span rs re)
          else (case ce_recurrence ce event of
                  None \<Rightarrow> Some (base_occurrence span rs re)
                | Some st \<Rightarrow>
                    expanded_occurrences ce st (replaced_occurrences ce event cal) (snd span - fst span) rs re))"

definition freebusy_fbtype :: "property \<Rightarrow> bytes option" where
  "freebusy_fbtype p = map_option snd (find (\<lambda>(k, _). eq_ignore_ascii_case k ''FBTYPE'') (ip_params p))"

text \<open>\<^verbatim>\<open>split_once\<close> at the first slash.\<close>

definition parse_freebusy_period :: "'r cal_env \<Rightarrow> bytes \<Rightarrow> (instant \<times> instant) option" where
  "parse_freebusy_period ce period =
     (let a = takeWhile (\<lambda>c. c \<noteq> slash) period
      in case dropWhile (\<lambda>c. c \<noteq> slash) period of
           [] \<Rightarrow> None
         | _ # b \<Rightarrow>
             Option.bind (parse_caldav_date_time ce (str_trim a)) (\<lambda>start.
             Option.bind
               (case parse_caldav_date_time ce (str_trim b) of
                  Some e \<Rightarrow> Some e
                | None \<Rightarrow> Option.bind (parse_ical_duration ce b) (\<lambda>d. add_delta ce start (d * nanos))) (\<lambda>stop.
             if start \<le> stop then Some (start, stop) else None)))"

definition property_periods :: "'r cal_env \<Rightarrow> instant \<Rightarrow> instant \<Rightarrow> property \<Rightarrow> busy_interval list" where
  "property_periods ce rs re p =
     (case from_fbtype (freebusy_fbtype p) of
        None \<Rightarrow> []
      | Some ty \<Rightarrow> List.map_filter (\<lambda>period. case parse_freebusy_period ce period of
            Some (s, e) \<Rightarrow>
              if time_spans_overlap s e (Some rs) (Some re) then Some \<lparr>bi_start = s, bi_end = e, bi_type = ty\<rparr> else None
          | None \<Rightarrow> None) (split_on (CHR '','') (ip_value p)))"

definition collect_vfreebusy_periods :: "'r cal_env \<Rightarrow> component \<Rightarrow> instant \<Rightarrow> instant \<Rightarrow> busy_interval list" where
  "collect_vfreebusy_periods ce c rs re = concat (map (property_periods ce rs re) (component_props c ''FREEBUSY''))"

fun component_busy :: "'r cal_env \<Rightarrow> calendar \<Rightarrow> instant \<Rightarrow> instant \<Rightarrow> calendar_component \<Rightarrow> busy_interval list option" where
  "component_busy ce cal rs re (CcEvent event) =
     (case event_busy_type event of
        None \<Rightarrow> Some []
      | Some ty \<Rightarrow> map_option (map (\<lambda>(s, e). \<lparr>bi_start = s, bi_end = e, bi_type = ty\<rparr>))
          (event_occurrences_in_range ce event cal rs re))"
| "component_busy ce cal rs re (CcOther other) =
     (if eq_ignore_ascii_case (co_kind other) ''VFREEBUSY'' then Some (collect_vfreebusy_periods ce other rs re) else Some [])"
| "component_busy ce cal rs re _ = Some []"

definition calendar_busy_intervals :: "'r cal_env \<Rightarrow> calendar \<Rightarrow> instant \<Rightarrow> instant \<Rightarrow> busy_interval list option" where
  "calendar_busy_intervals ce cal rs re = map_option concat (map_m (component_busy ce cal rs re) (ic_comps cal))"

section \<open>Merging\<close>

fun merge_loop :: "busy_interval \<Rightarrow> busy_interval list \<Rightarrow> busy_interval list" where
  "merge_loop current [] = [current]"
| "merge_loop current (iv # ivs) =
     (if bi_type iv = bi_type current \<and> bi_start iv \<le> bi_end current then
        merge_loop (if bi_end current < bi_end iv then current\<lparr>bi_end := bi_end iv\<rparr> else current) ivs
      else current # merge_loop iv ivs)"

definition merge_busy_intervals :: "busy_interval list \<Rightarrow> busy_interval list" where
  "merge_busy_intervals ivs =
     (if length ivs \<le> 1 then ivs
      else (case sort_key (\<lambda>iv. (bi_type iv, bi_start iv)) ivs of
              [] \<Rightarrow> []
            | iv # rest \<Rightarrow> sort_key (\<lambda>iv. (bi_start iv, bi_type iv)) (merge_loop iv rest)))"

section \<open>The report\<close>

definition format_caldav_utc :: "'r cal_env \<Rightarrow> instant \<Rightarrow> bytes" where
  "format_caldav_utc ce t = ce_format ce utc_format t"

definition busy_line :: "'r cal_env \<Rightarrow> busy_interval \<Rightarrow> bytes" where
  "busy_line ce iv =
     ''FREEBUSY'' @ (case fbtype_param (bi_type iv) of Some p \<Rightarrow> '';FBTYPE='' @ p | None \<Rightarrow> []) @ '':'' @
     format_caldav_utc ce (bi_start iv) @ ''/'' @ format_caldav_utc ce (bi_end iv) @ crlf"

text \<open>The unique name and the time of the report are arguments.\<close>

definition freebusy_calendar :: "'r cal_env \<Rightarrow> bytes \<Rightarrow> instant \<Rightarrow> instant \<Rightarrow> instant \<Rightarrow> busy_interval list \<Rightarrow> bytes" where
  "freebusy_calendar ce uuid now rs re busy =
     ''BEGIN:VCALENDAR'' @ crlf @ ''VERSION:2.0'' @ crlf @ ''PRODID:-//dav-server//CalDAV//EN'' @ crlf @
     ''BEGIN:VFREEBUSY'' @ crlf @ ''UID:'' @ uuid @ crlf @ ''DTSTAMP:'' @ format_caldav_utc ce now @ crlf @
     ''DTSTART:'' @ format_caldav_utc ce rs @ crlf @ ''DTEND:'' @ format_caldav_utc ce re @ crlf @
     concat (map (busy_line ce) busy) @ ''END:VFREEBUSY'' @ crlf @ ''END:VCALENDAR'' @ crlf"

end
