(* ===== verification/Card_Query.thy ===== *)
theory Card_Query
  imports Dav_Calendar Dav_Filters
begin

text \<open>
  Address book queries, \<^verbatim>\<open>src/carddav.rs\<close>: the evaluation of a filter on a vCard.  Cards are what the
  \<^verbatim>\<open>calcard\<close> crate parses, \<open>parse\<close>; the lower-casing of text is \<open>low\<close>.
\<close>

section \<open>Cards and filters\<close>

text \<open>A floating-point value is its printed form, any value without a text of its own what \<^verbatim>\<open>as_text\<close> says.\<close>

datatype vcard_value =
    VvText bytes | VvInteger int | VvFloat bytes | VvBoolean bool | VvComponent "bytes list" | VvOther "bytes option"

record vcard_entry =
  ve_name :: bytes
  ve_params :: "(bytes \<times> bytes) list"
  ve_values :: "vcard_value list"

record vcard =
  vc_version :: "bytes option"
  vc_entries :: "vcard_entry list"

datatype filter_test = AnyOf | AllOf

fun test_matches :: "filter_test \<Rightarrow> bool list \<Rightarrow> bool" where
  "test_matches AnyOf conds = list_ex id conds"
| "test_matches AllOf conds = list_all id conds"

record card_filter =
  cdf_name :: bytes
  cdf_not_defined :: bool
  cdf_text :: "text_match option"
  cdf_params :: "param_filter list"

record addressbook_query =
  aq_filter :: "card_filter option"
  aq_properties :: "bytes list"
  aq_limit :: "nat option"

record parsed_card_filter =
  pc_name :: bytes
  pc_not_defined :: bool
  pc_texts :: "text_match list"
  pc_params :: "param_filter list"
  pc_test :: filter_test

record parsed_addressbook_query =
  pq_query :: addressbook_query
  pq_filters :: "parsed_card_filter list"
  pq_test :: filter_test

section \<open>Values\<close>

definition show_int :: "int \<Rightarrow> bytes" where
  "show_int i = (if i < 0 then ''-'' @ show_nat (nat (- i)) else show_nat (nat i))"

fun join_semicolon :: "bytes list \<Rightarrow> bytes" where
  "join_semicolon [] = []"
| "join_semicolon [x] = x"
| "join_semicolon (x # xs) = x @ '';'' @ join_semicolon xs"

fun vcard_value_text :: "vcard_value \<Rightarrow> bytes option" where
  "vcard_value_text (VvText s) = Some s"
| "vcard_value_text (VvInteger i) = Some (show_int i)"
| "vcard_value_text (VvFloat f) = Some f"
| "vcard_value_text (VvBoolean b) = Some (if b then ''true'' else ''false'')"
| "vcard_value_text (VvComponent ps) = Some (join_semicolon ps)"
| "vcard_value_text (VvOther t) = t"

definition entry_texts :: "vcard_entry \<Rightarrow> bytes list" where
  "entry_texts e = List.map_filter vcard_value_text (ve_values e)"

definition validate_vcard_data :: "(bytes \<Rightarrow> bytes + vcard) \<Rightarrow> bytes \<Rightarrow> bytes + vcard" where
  "validate_vcard_data parse content =
     (case parse content of Inl e \<Rightarrow> Inl (''Invalid vCard data: '' @ e) | Inr c \<Rightarrow> Inr c)"

definition validate_vcard_strict :: "(bytes \<Rightarrow> bytes + vcard) \<Rightarrow> bytes \<Rightarrow> bytes + unit" where
  "validate_vcard_strict parse content =
     (case validate_vcard_data parse content of
        Inl e \<Rightarrow> Inl e
      | Inr vc \<Rightarrow>
          if vc_version vc = None then Inl ''Missing required VERSION property''
          else if extract_vcard_fn content = None then Inl ''Missing required FN (formatted name) property''
          else Inr ())"

section \<open>Matching\<close>

definition entries_named :: "vcard \<Rightarrow> bytes \<Rightarrow> vcard_entry list" where
  "entries_named vc name = filter (\<lambda>e. eq_ignore_ascii_case (ve_name e) name) (vc_entries vc)"

definition entry_matches_param :: "(bytes \<Rightarrow> bytes) \<Rightarrow> vcard_entry \<Rightarrow> param_filter \<Rightarrow> bool" where
  "entry_matches_param low e f =
     param_values_match low f (map snd (filter (\<lambda>(k, _). eq_ignore_ascii_case k (paf_name f)) (ve_params e)))"

definition parsed_filter_matches :: "(bytes \<Rightarrow> bytes) \<Rightarrow> vcard \<Rightarrow> parsed_card_filter \<Rightarrow> bool" where
  "parsed_filter_matches low vc pf =
     (let entries = entries_named vc (pc_name pf)
      in if pc_not_defined pf then entries = []
         else if entries = [] then False
         else if pc_texts pf = [] \<and> pc_params pf = [] then True
         else if pc_params pf = [] then
           (let vals = concat (map entry_texts entries)
            in test_matches (pc_test pf) (map (\<lambda>tm. tm_matches_any low tm vals) (pc_texts pf)))
         else list_ex (\<lambda>e.
             (let vals = entry_texts e
              in test_matches (pc_test pf)
                   (map (\<lambda>tm. tm_matches_any low tm vals) (pc_texts pf) @ map (entry_matches_param low e) (pc_params pf))))
           entries)"

definition addressbook_matches_parsed_query :: "(bytes \<Rightarrow> bytes) \<Rightarrow> (bytes \<Rightarrow> bytes + vcard) \<Rightarrow> bytes \<Rightarrow>
    parsed_addressbook_query \<Rightarrow> bool" where
  "addressbook_matches_parsed_query low parse content q =
     (if pq_filters q = [] then True
      else (case validate_vcard_data parse content of
              Inl _ \<Rightarrow> False
            | Inr vc \<Rightarrow> test_matches (pq_test q) (map (parsed_filter_matches low vc) (pq_filters q))))"

text \<open>The evaluation of the public query type, with at most one filter and one text.\<close>

definition entry_matches_prop_filter :: "(bytes \<Rightarrow> bytes) \<Rightarrow> vcard_entry \<Rightarrow> card_filter \<Rightarrow> bool" where
  "entry_matches_prop_filter low e pf =
     (if \<not> list_all (entry_matches_param low e) (cdf_params pf) then False
      else (case cdf_text pf of Some tm \<Rightarrow> tm_matches_any low tm (entry_texts e) | None \<Rightarrow> True))"

definition vcard_matches_prop_filter :: "(bytes \<Rightarrow> bytes) \<Rightarrow> vcard \<Rightarrow> card_filter \<Rightarrow> bool" where
  "vcard_matches_prop_filter low vc pf =
     (let entries = entries_named vc (cdf_name pf)
      in if cdf_not_defined pf then entries = []
         else if entries = [] then False
         else if cdf_params pf = [] then
           (let vals = concat (map entry_texts entries)
            in if vals = [] then False
               else (case cdf_text pf of Some tm \<Rightarrow> tm_matches_any low tm vals | None \<Rightarrow> True))
         else list_ex (\<lambda>e. entry_matches_prop_filter low e pf) entries)"

definition addressbook_matches_query :: "(bytes \<Rightarrow> bytes) \<Rightarrow> (bytes \<Rightarrow> bytes + vcard) \<Rightarrow> bytes \<Rightarrow> addressbook_query \<Rightarrow> bool" where
  "addressbook_matches_query low parse content q =
     (case aq_filter q of
        None \<Rightarrow> True
      | Some pf \<Rightarrow> (case validate_vcard_data parse content of
          Inl _ \<Rightarrow> False
        | Inr vc \<Rightarrow> vcard_matches_prop_filter low vc pf))"

section \<open>The two evaluations agree\<close>

text \<open>A query of the public type as the request parser writes it, with the condition that all parts
  of its filter hold.\<close>

definition as_parsed :: "addressbook_query \<Rightarrow> parsed_addressbook_query" where
  "as_parsed q =
     \<lparr>pq_query = q,
      pq_filters = (case aq_filter q of None \<Rightarrow> [] | Some pf \<Rightarrow>
        [\<lparr>pc_name = cdf_name pf, pc_not_defined = cdf_not_defined pf,
          pc_texts = (case cdf_text pf of None \<Rightarrow> [] | Some tm \<Rightarrow> [tm]), pc_params = cdf_params pf, pc_test = AllOf\<rparr>]),
      pq_test = AnyOf\<rparr>"

lemma as_parsed_filter:
  assumes "cdf_params pf = [] \<Longrightarrow> concat (map entry_texts (entries_named vc (cdf_name pf))) \<noteq> []"
  shows "parsed_filter_matches low vc
      \<lparr>pc_name = cdf_name pf, pc_not_defined = cdf_not_defined pf,
       pc_texts = (case cdf_text pf of None \<Rightarrow> [] | Some tm \<Rightarrow> [tm]), pc_params = cdf_params pf, pc_test = AllOf\<rparr>
    = vcard_matches_prop_filter low vc pf"
  using assms
  by (cases "cdf_text pf"; cases "cdf_params pf")
     (auto simp: parsed_filter_matches_def vcard_matches_prop_filter_def entry_matches_prop_filter_def Let_def list_ex_iff list_all_iff)

end
