(* ===== verification/Handle_Report.thy ===== *)
theory Handle_Report
  imports Cal_Busy Card_Query Prop_Find
begin

text \<open>
  \<^verbatim>\<open>REPORT\<close>, \<^verbatim>\<open>src/handle_caldav.rs\<close> and \<^verbatim>\<open>src/handle_carddav.rs\<close>: queries, multigets and free-busy reports
  on calendars and address books.  What the CalDAV and the vCard crates do is in \<open>report_env\<close>, with the
  unique name and the time of a free-busy report.
\<close>

record 'r report_env =
  re_cal :: "'r cal_env"
  re_vcard :: "bytes \<Rightarrow> bytes + vcard"
  re_uuid :: bytes
  re_now :: instant

section \<open>Reading the request\<close>

datatype caldav_report = CalendarQuery calendar_query | CalendarMultiget "bytes list" | FreeBusyQuery time_range
datatype carddav_report = AddressBookQuery parsed_addressbook_query | AddressBookMultiget "bytes list" "bytes list"

definition parse_time_range :: "xml_elem \<Rightarrow> time_range" where
  "parse_time_range e = \<lparr>tr_start = attr e ''start'', tr_end = attr e ''end''\<rparr>"

fun prop_filter_loop :: "xml_elem list \<Rightarrow> prop_filter \<Rightarrow> dav_error + prop_filter" where
  "prop_filter_loop [] f = Inr f"
| "prop_filter_loop (e # es) f =
     (if el_name e = ''is-not-defined'' then prop_filter_loop es (f\<lparr>pf_not_defined := True\<rparr>)
      else if el_name e = ''time-range'' then prop_filter_loop es (f\<lparr>pf_range := Some (parse_time_range e)\<rparr>)
      else if el_name e = ''text-match'' then prop_filter_loop es (f\<lparr>pf_text := Some (text_match_from e)\<rparr>)
      else if el_name e = ''param-filter'' then
        (case param_filter_from e of Inl er \<Rightarrow> Inl er | Inr pa \<Rightarrow> prop_filter_loop es (f\<lparr>pf_params := pf_params f @ [pa]\<rparr>))
      else prop_filter_loop es f)"

definition parse_property_filter :: "xml_elem \<Rightarrow> dav_error + prop_filter" where
  "parse_property_filter e =
     (case attr e ''name'' of
        None \<Rightarrow> Inl (StatusClose 400)
      | Some name \<Rightarrow> prop_filter_loop (child_elems e)
          \<lparr>pf_name = name, pf_not_defined = False, pf_text = None, pf_range = None, pf_params = []\<rparr>)"

fun parse_component_filter :: "xml_elem \<Rightarrow> dav_error + comp_filter"
  and comp_filter_loop :: "xml_node list \<Rightarrow> bytes \<Rightarrow> bool \<Rightarrow> time_range option \<Rightarrow> prop_filter list \<Rightarrow> comp_filter list \<Rightarrow>
    dav_error + comp_filter" where
  "parse_component_filter (Elem p n nss name attrs ch) =
     (case map_of attrs ''name'' of
        None \<Rightarrow> Inl (StatusClose 400)
      | Some nm \<Rightarrow> comp_filter_loop ch nm False None [] [])"
| "comp_filter_loop [] nm nd tr pfs cfs = Inr (CompFilter nm nd tr pfs cfs)"
| "comp_filter_loop (XElement e # ns) nm nd tr pfs cfs =
     (if el_name e = ''is-not-defined'' then comp_filter_loop ns nm True tr pfs cfs
      else if el_name e = ''time-range'' then comp_filter_loop ns nm nd (Some (parse_time_range e)) pfs cfs
      else if el_name e = ''prop-filter'' then
        (case parse_property_filter e of Inl er \<Rightarrow> Inl er | Inr f \<Rightarrow> comp_filter_loop ns nm nd tr (pfs @ [f]) cfs)
      else if el_name e = ''comp-filter'' then
        (case parse_component_filter e of Inl er \<Rightarrow> Inl er | Inr f \<Rightarrow> comp_filter_loop ns nm nd tr pfs (cfs @ [f]))
      else comp_filter_loop ns nm nd tr pfs cfs)"
| "comp_filter_loop (_ # ns) nm nd tr pfs cfs = comp_filter_loop ns nm nd tr pfs cfs"

text \<open>The last component filter of a \<^verbatim>\<open>filter\<close> element is the one used.\<close>

fun last_comp_filter :: "xml_elem list \<Rightarrow> comp_filter option \<Rightarrow> dav_error + comp_filter option" where
  "last_comp_filter [] f = Inr f"
| "last_comp_filter (e # es) f =
     (if el_name e = ''comp-filter'' then
        (case parse_component_filter e of Inl er \<Rightarrow> Inl er | Inr g \<Rightarrow> last_comp_filter es (Some g))
      else last_comp_filter es f)"

fun calendar_query_loop :: "xml_elem list \<Rightarrow> calendar_query \<Rightarrow> dav_error + calendar_query" where
  "calendar_query_loop [] q = Inr q"
| "calendar_query_loop (e # es) q =
     (if el_name e = ''filter'' then
        (case last_comp_filter (child_elems e) (cq_filter q) of
           Inl er \<Rightarrow> Inl er | Inr f \<Rightarrow> calendar_query_loop es (q\<lparr>cq_filter := f\<rparr>))
      else if el_name e = ''prop'' then
        calendar_query_loop es (q\<lparr>cq_properties := cq_properties q @ map el_name (child_elems e)\<rparr>)
      else calendar_query_loop es q)"

definition parse_calendar_query :: "xml_elem \<Rightarrow> dav_error + calendar_query" where
  "parse_calendar_query root =
     (case calendar_query_loop (child_elems root) \<lparr>cq_filter = None, cq_range = None, cq_properties = []\<rparr> of
        Inl er \<Rightarrow> Inl er
      | Inr q \<Rightarrow> if cq_filter q = None then Inl (StatusClose 400) else Inr q)"

definition parse_freebusy_query :: "xml_elem \<Rightarrow> dav_error + time_range" where
  "parse_freebusy_query root =
     (case find (\<lambda>e. el_name e = ''time-range'') (child_elems root) of
        Some e \<Rightarrow> Inr (parse_time_range e)
      | None \<Rightarrow> Inl (StatusClose 400))"

definition parse_report_request :: "xml_elem \<Rightarrow> dav_error + caldav_report" where
  "parse_report_request root =
     (if el_name root = ''calendar-query'' then map_sum (\<lambda>e. e) CalendarQuery (parse_calendar_query root)
      else if el_name root = ''calendar-multiget'' then Inr (CalendarMultiget (hrefs_from root))
      else if el_name root = ''free-busy-query'' then map_sum (\<lambda>e. e) FreeBusyQuery (parse_freebusy_query root)
      else Inl (StatusClose 400))"

definition filter_test_of :: "xml_elem \<Rightarrow> dav_error + filter_test" where
  "filter_test_of e =
     (if attr e ''test'' = None \<or> attr e ''test'' = Some ''anyof'' then Inr AnyOf
      else if attr e ''test'' = Some ''allof'' then Inr AllOf
      else Inl (Status 400))"

fun card_filter_loop :: "xml_elem list \<Rightarrow> parsed_card_filter \<Rightarrow> dav_error + parsed_card_filter" where
  "card_filter_loop [] f = Inr f"
| "card_filter_loop (e # es) f =
     (if el_name e = ''is-not-defined'' then card_filter_loop es (f\<lparr>pc_not_defined := True\<rparr>)
      else if el_name e = ''text-match'' then card_filter_loop es (f\<lparr>pc_texts := pc_texts f @ [text_match_from e]\<rparr>)
      else if el_name e = ''param-filter'' then
        (case param_filter_from e of Inl er \<Rightarrow> Inl er | Inr pa \<Rightarrow> card_filter_loop es (f\<lparr>pc_params := pc_params f @ [pa]\<rparr>))
      else card_filter_loop es f)"

definition parse_carddav_property_filter :: "xml_elem \<Rightarrow> dav_error + parsed_card_filter" where
  "parse_carddav_property_filter e =
     (case attr e ''name'' of
        None \<Rightarrow> Inl (StatusClose 400)
      | Some name \<Rightarrow> (case filter_test_of e of
          Inl er \<Rightarrow> Inl er
        | Inr t \<Rightarrow> (case card_filter_loop (child_elems e)
              \<lparr>pc_name = name, pc_not_defined = False, pc_texts = [], pc_params = [], pc_test = t\<rparr> of
            Inl er \<Rightarrow> Inl er
          | Inr f \<Rightarrow> if pc_not_defined f \<and> (pc_texts f \<noteq> [] \<or> pc_params f \<noteq> []) then Inl (Status 400) else Inr f)))"

fun card_filters :: "xml_elem list \<Rightarrow> dav_error + parsed_card_filter list" where
  "card_filters [] = Inr []"
| "card_filters (e # es) =
     (if el_name e = ''prop-filter'' then
        (case parse_carddav_property_filter e of
           Inl er \<Rightarrow> Inl er
         | Inr f \<Rightarrow> (case card_filters es of Inl er \<Rightarrow> Inl er | Inr fs \<Rightarrow> Inr (f # fs)))
      else card_filters es)"

fun limit_loop :: "xml_elem list \<Rightarrow> nat option \<Rightarrow> nat option" where
  "limit_loop [] l = l"
| "limit_loop (e # es) l =
     limit_loop es (if el_name e = ''nresults'' then (case texts_of (el_children e) of t # _ \<Rightarrow> parse_uint u32_max t | [] \<Rightarrow> l) else l)"

fun card_query_loop :: "xml_elem list \<Rightarrow> bool \<Rightarrow> parsed_addressbook_query \<Rightarrow> dav_error + parsed_addressbook_query" where
  "card_query_loop [] have q = Inr q"
| "card_query_loop (e # es) have q =
     (if el_name e = ''filter'' then
        (if have then Inl (Status 400)
         else (case filter_test_of e of
                 Inl er \<Rightarrow> Inl er
               | Inr t \<Rightarrow> (case card_filters (child_elems e) of
                   Inl er \<Rightarrow> Inl er
                 | Inr fs \<Rightarrow> card_query_loop es True (q\<lparr>pq_test := t, pq_filters := pq_filters q @ fs\<rparr>))))
      else if el_name e = ''prop'' then
        card_query_loop es have
          (q\<lparr>pq_query := (pq_query q)\<lparr>aq_properties := aq_properties (pq_query q) @ map el_name (child_elems e)\<rparr>\<rparr>)
      else if el_name e = ''limit'' then
        card_query_loop es have (q\<lparr>pq_query := (pq_query q)\<lparr>aq_limit := limit_loop (child_elems e) (aq_limit (pq_query q))\<rparr>\<rparr>)
      else card_query_loop es have q)"

definition parse_addressbook_query :: "xml_elem \<Rightarrow> dav_error + parsed_addressbook_query" where
  "parse_addressbook_query root =
     card_query_loop (child_elems root) False
       \<lparr>pq_query = \<lparr>aq_filter = None, aq_properties = [], aq_limit = None\<rparr>, pq_filters = [], pq_test = AnyOf\<rparr>"

definition parse_carddav_report_request :: "xml_elem \<Rightarrow> dav_error + carddav_report" where
  "parse_carddav_report_request root =
     (if el_name root = ''addressbook-query'' then map_sum (\<lambda>e. e) AddressBookQuery (parse_addressbook_query root)
      else if el_name root = ''addressbook-multiget'' then
        Inr (AddressBookMultiget (hrefs_from root)
          (concat (map (\<lambda>e. map el_name (child_elems e)) (filter (\<lambda>e. el_name e = ''prop'') (child_elems root)))))
      else Inl (StatusClose 400))"

section \<open>Writing the answer\<close>

definition report_start :: "bytes \<Rightarrow> xml_event" where
  "report_start name = EvStart (Some ''D'') None name [] []"

definition href_event :: "bytes \<Rightarrow> xml_event list" where
  "href_event t = write_ev (elem_text t (new2 ''D:href''))"

definition status_event :: "bytes \<Rightarrow> xml_event list" where
  "status_event t = write_ev (elem_text t (new2 ''D:status''))"

definition getetag_event :: "bytes \<Rightarrow> xml_event list" where
  "getetag_event etag = write_ev (elem_text etag (new2 ''D:getetag''))"

definition data_event :: "bytes \<Rightarrow> bytes \<Rightarrow> bytes \<Rightarrow> bytes \<Rightarrow> xml_event list" where
  "data_event name pfx ns dat =
     write_ev (Elem (Some pfx) None (Some [(pfx, ns)]) name [] [XText dat])"

definition write_calendar_data_response :: "http_env \<Rightarrow> dav_path \<Rightarrow> bytes \<Rightarrow> bytes \<Rightarrow> xml_event list" where
  "write_calendar_data_response env href etag dat =
     [report_start ''response''] @ href_event (as_url_string_with_prefix (pct_encode env) href)
     @ [report_start ''propstat'', report_start ''prop''] @ data_event ''calendar-data'' ''C'' NS_CALDAV dat
     @ getetag_event etag @ [EvEnd ''prop''] @ status_event ''HTTP/1.1 200 OK'' @ [EvEnd ''propstat'', EvEnd ''response'']"

text \<open>The same for calendars and address books.\<close>

definition write_not_found_response :: "bytes \<Rightarrow> xml_event list" where
  "write_not_found_response href =
     [report_start ''response''] @ href_event href @ [report_start ''propstat'']
     @ status_event ''HTTP/1.1 404 Not Found'' @ [EvEnd ''propstat'', EvEnd ''response'']"

definition wants :: "bytes list \<Rightarrow> bytes \<Rightarrow> bool" where
  "wants requested name \<longleftrightarrow> requested = [] \<or> name \<in> set requested"

definition write_vcard_data_response :: "http_env \<Rightarrow> bytes list \<Rightarrow> dav_path \<Rightarrow> bytes \<Rightarrow> bytes \<Rightarrow> xml_event list" where
  "write_vcard_data_response env requested href etag dat =
     [report_start ''response''] @ href_event (as_url_string_with_prefix (pct_encode env) href)
     @ (if wants requested ''address-data'' \<or> wants requested ''getetag'' then
          [report_start ''propstat'', report_start ''prop'']
          @ (if wants requested ''address-data'' then data_event ''address-data'' ''CARD'' NS_CARDDAV dat else [])
          @ (if wants requested ''getetag'' then getetag_event etag else [])
          @ [EvEnd ''prop''] @ status_event ''HTTP/1.1 200 OK'' @ [EvEnd ''propstat'']
        else [])
     @ [EvEnd ''response'']"

text \<open>A result: the path, the entity tag and the content of an object.\<close>

type_synonym found = "dav_path \<times> bytes \<times> bytes"

definition empty_request :: request where
  "empty_request = \<lparr>rq_method = ''GET'', rq_scheme = None, rq_host = None, rq_port = None, rq_path = ''/'', rq_headers = []\<rparr>"

definition report_response :: "http_env \<Rightarrow> (dav_path \<Rightarrow> bytes \<Rightarrow> bytes \<Rightarrow> xml_event list) \<Rightarrow> found list \<Rightarrow> bytes list \<Rightarrow> response" where
  "report_response env write found missing =
     multistatus_response
       (pw_events (writer_new env empty_request ''prop'' [] \<lparr>fullpath = ''/'', pfxlen = None\<rparr>)
        @ concat (map (\<lambda>(p, etag, dat). write p etag dat) found)
        @ concat (map write_not_found_response missing)
        @ [EvEnd ''multistatus'']) response_new"

section \<open>The objects a report reads\<close>

definition read_object_resource :: "('s, 'h, 'l) server \<Rightarrow> dav_path \<Rightarrow> nat \<Rightarrow> (bytes \<Rightarrow> bool) \<Rightarrow>
    ('s, 'l, (dav_meta \<times> bytes) option) handler" where
  "read_object_resource sv path max_size sniff =
     bind (attempt (on_fs (fs_open (sv_fs sv) path oo_for_read))) (\<lambda>r. case r of
         Inl (_ :: fs_error) \<Rightarrow> ok None
       | Inr h0 \<Rightarrow> bind (attempt (on_fs (f_metadata (sv_fs sv) h0))) (\<lambda>r. case r of
           Inl (_ :: fs_error) \<Rightarrow> ok None
         | Inr (meta, h1) \<Rightarrow>
             if max_size < md_len meta then ok None
             else bind (attempt (on_fs (read_file_to_end (sv_fs sv) h1 (md_len meta)))) (\<lambda>r. case r of
                 Inl (_ :: fs_error) \<Rightarrow> ok None
               | Inr (dat, _) \<Rightarrow> ok (if sniff dat then Some (meta, utf8_lossy dat) else None))))"

definition etag_text :: "dav_meta \<Rightarrow> bytes" where
  "etag_text meta = (case etag_from_meta meta of Some e \<Rightarrow> etag_to_string e | None \<Rightarrow> [])"

definition hidden_in_listing :: "('s, 'h, 'l) server \<Rightarrow> 's dirent \<Rightarrow> ('s, 'l, bool) handler" where
  "hidden_in_listing sv de =
     (if hidden_entry sv (de_name de) then ok True
      else bind (attempt (on_fs (de_metadata de))) (\<lambda>r. ok (case r of
          Inr meta \<Rightarrow> md_is_symlink meta | Inl (_ :: fs_error) \<Rightarrow> False)))"

fun listed_paths :: "('s, 'h, 'l) server \<Rightarrow> dav_path \<Rightarrow> (fs_error + 's dirent) list \<Rightarrow> ('s, 'l, dav_path list) handler" where
  "listed_paths sv path [] = ok []"
| "listed_paths sv path (Inl _ # es) = listed_paths sv path es"
| "listed_paths sv path (Inr de # es) =
     bind (hidden_in_listing sv de) (\<lambda>hidden.
     bind (listed_paths sv path es) (\<lambda>ps. ok (if hidden then ps else push_segment (de_name de) path # ps)))"

definition member_paths :: "('s, 'h, 'l) server \<Rightarrow> dav_path \<Rightarrow> ('s, 'l, dav_path list) handler" where
  "member_paths sv path =
     bind (fs_try (fs_read_dir (sv_fs sv) path (get_read_dir_meta sv))) (listed_paths sv path)"

definition query_paths :: "('s, 'h, 'l) server \<Rightarrow> dav_path \<Rightarrow> bool \<Rightarrow> depth \<Rightarrow> ('s, 'l, dav_path list) handler" where
  "query_paths sv path is_coll depth =
     (if \<not> is_coll then ok [path]
      else if depth \<noteq> DepthZero then member_paths sv path
      else ok [])"

section \<open>Queries\<close>

fun calendar_query_results :: "('s, 'h, 'l) server \<Rightarrow> (bytes \<Rightarrow> bool option) \<Rightarrow> dav_path list \<Rightarrow> ('s, 'l, found list) handler" where
  "calendar_query_results sv matches [] = ok []"
| "calendar_query_results sv matches (p # ps) =
     bind (read_object_resource sv p CALDAV_MAX_RESOURCE_SIZE is_calendar_data) (\<lambda>r.
     bind (case r of
             None \<Rightarrow> ok []
           | Some (meta, content) \<Rightarrow> (case matches content of
               None \<Rightarrow> diverge
             | Some b \<Rightarrow> ok (if b then [(p, etag_text meta, content)] else []))) (\<lambda>found.
     bind (calendar_query_results sv matches ps) (\<lambda>more. ok (found @ more))))"

definition handle_calendar_query :: "'r cal_env \<Rightarrow> ('s, 'h, 'l) server \<Rightarrow> dav_path \<Rightarrow> bool \<Rightarrow> depth \<Rightarrow> calendar_query \<Rightarrow>
    ('s, 'l, response) handler" where
  "handle_calendar_query ce sv path is_coll depth q =
     bind (query_paths sv path is_coll depth) (\<lambda>paths.
     bind (calendar_query_results sv (\<lambda>content. calendar_matches_query ce content q) paths) (\<lambda>results.
       ok (report_response (sv_http sv) (write_calendar_data_response (sv_http sv)) results [])))"

fun addressbook_query_results :: "('s, 'h, 'l) server \<Rightarrow> (bytes \<Rightarrow> bool) \<Rightarrow> nat option \<Rightarrow> nat \<Rightarrow> dav_path list \<Rightarrow>
    ('s, 'l, found list) handler" where
  "addressbook_query_results sv matches limit count [] = ok []"
| "addressbook_query_results sv matches limit count (p # ps) =
     (if (case limit of Some l \<Rightarrow> l \<le> count | None \<Rightarrow> False) then ok []
      else bind (read_object_resource sv p CARDDAV_MAX_RESOURCE_SIZE is_vcard_data) (\<lambda>r. case r of
          None \<Rightarrow> addressbook_query_results sv matches limit count ps
        | Some (meta, content) \<Rightarrow>
            if matches content then
              bind (addressbook_query_results sv matches limit (count + 1) ps) (\<lambda>more. ok ((p, etag_text meta, content) # more))
            else addressbook_query_results sv matches limit count ps))"

definition handle_addressbook_query :: "'r report_env \<Rightarrow> ('s, 'h, 'l) server \<Rightarrow> dav_path \<Rightarrow> bool \<Rightarrow> depth \<Rightarrow>
    parsed_addressbook_query \<Rightarrow> ('s, 'l, response) handler" where
  "handle_addressbook_query re sv path is_coll depth q =
     bind (query_paths sv path is_coll depth) (\<lambda>paths.
     bind (addressbook_query_results sv
             (\<lambda>content. addressbook_matches_parsed_query (ce_lowercase (re_cal re)) (re_vcard re) content q)
             (aq_limit (pq_query q)) 0 paths) (\<lambda>results.
       ok (report_response (sv_http sv) (write_vcard_data_response (sv_http sv) (aq_properties (pq_query q))) results [])))"

section \<open>Multigets\<close>

text \<open>One reference: the object it names, if it is a visible object of the collection, or the target
  itself.\<close>

definition multiget_one :: "('s, 'h, 'l) server \<Rightarrow> dav_path \<Rightarrow> nat \<Rightarrow> (bytes \<Rightarrow> bool) \<Rightarrow> bytes \<Rightarrow>
    ('s, 'l, found option) handler" where
  "multiget_one sv path max_size sniff href =
     (case from_str_and_prefix (pct_decode (sv_http sv)) href (sv_prefix sv) of
        Inl _ \<Rightarrow> ok None
      | Inr item \<Rightarrow>
          if is_in_collection item path \<or> path_eq item path then
            bind (attempt (ensure_visible sv item)) (\<lambda>vis. case vis of
                Inl (_ :: dav_error) \<Rightarrow> ok None
              | Inr _ \<Rightarrow> bind (read_object_resource sv item max_size sniff) (\<lambda>r.
                  ok (map_option (\<lambda>(meta, content). (item, etag_text meta, content)) r)))
          else ok None)"

fun multiget_loop :: "('s, 'h, 'l) server \<Rightarrow> dav_path \<Rightarrow> nat \<Rightarrow> (bytes \<Rightarrow> bool) \<Rightarrow> bytes list \<Rightarrow>
    ('s, 'l, found list \<times> bytes list) handler" where
  "multiget_loop sv path max_size sniff [] = ok ([], [])"
| "multiget_loop sv path max_size sniff (href # hrefs) =
     bind (multiget_one sv path max_size sniff href) (\<lambda>r.
     bind (multiget_loop sv path max_size sniff hrefs) (\<lambda>(found, missing).
       ok (case r of Some f \<Rightarrow> (f # found, missing) | None \<Rightarrow> (found, href # missing))))"

definition handle_calendar_multiget :: "('s, 'h, 'l) server \<Rightarrow> dav_path \<Rightarrow> bytes list \<Rightarrow> ('s, 'l, response) handler" where
  "handle_calendar_multiget sv path hrefs =
     bind (multiget_loop sv path CALDAV_MAX_RESOURCE_SIZE is_calendar_data hrefs) (\<lambda>(found, missing).
       ok (report_response (sv_http sv) (write_calendar_data_response (sv_http sv)) found missing))"

definition handle_addressbook_multiget :: "('s, 'h, 'l) server \<Rightarrow> dav_path \<Rightarrow> bytes list \<Rightarrow> bytes list \<Rightarrow> ('s, 'l, response) handler" where
  "handle_addressbook_multiget sv path hrefs requested =
     bind (multiget_loop sv path CARDDAV_MAX_RESOURCE_SIZE is_vcard_data hrefs) (\<lambda>(found, missing).
       ok (report_response (sv_http sv) (write_vcard_data_response (sv_http sv) requested) found missing))"

section \<open>Free-busy reports\<close>

fun busy_loop :: "'r cal_env \<Rightarrow> ('s, 'h, 'l) server \<Rightarrow> dav_path \<Rightarrow> instant \<Rightarrow> instant \<Rightarrow> (fs_error + 's dirent) list \<Rightarrow>
    ('s, 'l, busy_interval list) handler" where
  "busy_loop ce sv path rs re [] = ok []"
| "busy_loop ce sv path rs re (Inl _ # es) = busy_loop ce sv path rs re es"
| "busy_loop ce sv path rs re (Inr de # es) =
     bind (hidden_in_listing sv de) (\<lambda>hidden.
       if hidden then busy_loop ce sv path rs re es
       else bind (read_object_resource sv (push_segment (de_name de) path) CALDAV_MAX_RESOURCE_SIZE is_calendar_data) (\<lambda>r.
       bind (case r of
               None \<Rightarrow> ok []
             | Some (_, content) \<Rightarrow> (case validate_calendar_data ce content of
                 Inl _ \<Rightarrow> ok []
               | Inr cal \<Rightarrow> (case calendar_busy_intervals ce cal rs re of None \<Rightarrow> diverge | Some b \<Rightarrow> ok b))) (\<lambda>busy.
       bind (busy_loop ce sv path rs re es) (\<lambda>more. ok (busy @ more)))))"

definition handle_freebusy_query :: "'r report_env \<Rightarrow> ('s, 'h, 'l) server \<Rightarrow> dav_path \<Rightarrow> time_range \<Rightarrow> ('s, 'l, response) handler" where
  "handle_freebusy_query re sv path tr =
     (case parse_freebusy_bounds (re_cal re) tr of
        None \<Rightarrow> fail (StatusClose 400)
      | Some (rs, rend) \<Rightarrow>
          bind (fs_try (fs_read_dir (sv_fs sv) path (get_read_dir_meta sv))) (\<lambda>entries.
          bind (busy_loop (re_cal re) sv path rs rend entries) (\<lambda>busy.
            let ics = freebusy_calendar (re_cal re) (re_uuid re) (re_now re) rs rend (merge_busy_intervals busy)
            in ok ((set_header ''content-length'' (show_nat (length ics)) (set_header ''content-type'' ''text/calendar'' response_new))
                 \<lparr>rs_body := BText ics\<rparr>))))"

section \<open>REPORT\<close>

text \<open>Whether the target, or the collection that holds it, is of a kind.\<close>

definition target_is :: "('s, 'h, 'l) server \<Rightarrow> collection_kind \<Rightarrow> dav_path \<Rightarrow> dav_meta \<Rightarrow> bool \<Rightarrow> ('s, 'l, bool) handler" where
  "target_is sv kind path meta members =
     (if md_is_dir meta then bind (collection_kind_of sv path meta) (\<lambda>k. ok (k = kind))
      else if \<not> members then ok False
      else bind (attempt (on_fs (fs_metadata (sv_fs sv) (path_parent path)))) (\<lambda>r. case r of
          Inl (_ :: fs_error) \<Rightarrow> ok False
        | Inr pmeta \<Rightarrow> bind (collection_kind_of sv (path_parent path) pmeta) (\<lambda>k. ok (k = kind))))"

text \<open>The depth of a query, 1 by default.\<close>

definition query_depth :: "request \<Rightarrow> dav_error + depth" where
  "query_depth rq =
     (case typed_try_get rq ''depth'' depth_decode of
        Inl _ \<Rightarrow> Inl (Status 400)
      | Inr None \<Rightarrow> Inr DepthOne
      | Inr (Some d) \<Rightarrow> Inr d)"

definition run_carddav_report :: "'r report_env \<Rightarrow> ('s, 'h, 'l) server \<Rightarrow> request \<Rightarrow> dav_path \<Rightarrow> dav_meta \<Rightarrow> carddav_report \<Rightarrow>
    ('s, 'l, response) handler" where
  "run_carddav_report re sv rq path meta report =
     (case report of
        AddressBookQuery q \<Rightarrow> (case query_depth rq of
          Inl e \<Rightarrow> fail e
        | Inr d \<Rightarrow> handle_addressbook_query re sv path (md_is_dir meta) d q)
      | AddressBookMultiget hrefs requested \<Rightarrow> handle_addressbook_multiget sv path hrefs requested)"

definition handle_carddav_report :: "'r report_env \<Rightarrow> ('s, 'h, 'l) server \<Rightarrow> request \<Rightarrow> xml_elem \<Rightarrow> ('s, 'l, response) handler" where
  "handle_carddav_report re sv rq root =
     req_path sv rq (\<lambda>path.
     bind (ensure_visible sv path) (\<lambda>_.
       case parse_carddav_report_request root of
         Inl e \<Rightarrow> fail e
       | Inr report \<Rightarrow>
           bind (fs_try (fs_metadata (sv_fs sv) path)) (\<lambda>meta.
           bind (target_is sv CkAddressbook path meta True) (\<lambda>fits.
             if \<not> fits then fail (Status 403) else run_carddav_report re sv rq path meta report))))"

definition run_caldav_report :: "'r report_env \<Rightarrow> ('s, 'h, 'l) server \<Rightarrow> request \<Rightarrow> dav_path \<Rightarrow> dav_meta \<Rightarrow> caldav_report \<Rightarrow>
    ('s, 'l, response) handler" where
  "run_caldav_report re sv rq path meta report =
     (case report of
        CalendarQuery q \<Rightarrow> (case query_depth rq of
          Inl e \<Rightarrow> fail e
        | Inr d \<Rightarrow> handle_calendar_query (re_cal re) sv path (md_is_dir meta) d q)
      | CalendarMultiget hrefs \<Rightarrow> handle_calendar_multiget sv path hrefs
      | FreeBusyQuery tr \<Rightarrow> handle_freebusy_query re sv path tr)"

definition is_carddav_root :: "xml_elem \<Rightarrow> bool" where
  "is_carddav_root root \<longleftrightarrow>
     el_ns root = Some NS_CARDDAV \<or> el_name root = ''addressbook-query'' \<or> el_name root = ''addressbook-multiget''"

definition handle_report :: "'r report_env \<Rightarrow> ('s, 'h, 'l) server \<Rightarrow> request \<Rightarrow> bytes \<Rightarrow> ('s, 'l, response) handler" where
  "handle_report re sv rq body =
     (case parse2 (xml_parse_all (sv_http sv)) body of
        Inl e \<Rightarrow> fail e
      | Inr root \<Rightarrow>
          if is_carddav_root root then handle_carddav_report re sv rq root
          else req_path sv rq (\<lambda>path.
            bind (ensure_visible sv path) (\<lambda>_.
              case parse_report_request root of
                Inl e \<Rightarrow> fail e
              | Inr report \<Rightarrow>
                  bind (fs_try (fs_metadata (sv_fs sv) path)) (\<lambda>meta.
                  bind (target_is sv CkCalendar path meta (case report of FreeBusyQuery _ \<Rightarrow> False | _ \<Rightarrow> True)) (\<lambda>fits.
                    if \<not> fits then fail (Status 403) else run_caldav_report re sv rq path meta report)))))"

end
