(* ===== verification/Handle_Mkcal.thy ===== *)
theory Handle_Mkcal
  imports Handle_Mkcol
begin

text \<open>
  \<^verbatim>\<open>MKCALENDAR\<close>, \<^verbatim>\<open>src/handle_caldav.rs\<close>, and \<^verbatim>\<open>MKADDRESSBOOK\<close>, \<^verbatim>\<open>src/handle_carddav.rs\<close>.
\<close>

definition mkcalendar_body :: "http_env \<Rightarrow> bytes \<Rightarrow> dav_error + xml_elem option" where
  "mkcalendar_body env body =
     (if body = [] then Inr None
      else (case parse2 (xml_parse_all env) body of
              Inl e \<Rightarrow> Inl e
            | Inr tree \<Rightarrow>
                if el_name tree \<noteq> ''mkcalendar'' \<or> el_ns tree \<noteq> Some NS_CALDAV then Inl (StatusClose 400)
                else Inr (Some tree)))"

text \<open>A parent of a kind refuses the new collection.\<close>

definition refuse_parent :: "('s, 'h, 'l) server \<Rightarrow> collection_kind \<Rightarrow> dav_path \<Rightarrow> ('s, 'l, unit) handler" where
  "refuse_parent sv kind path =
     bind (attempt (on_fs (fs_metadata (sv_fs sv) (path_parent path)))) (\<lambda>r. case r of
         Inl (_ :: fs_error) \<Rightarrow> ok ()
       | Inr meta \<Rightarrow> bind (collection_kind_of sv (path_parent path) meta) (\<lambda>k.
           if k = kind then fail (Status 403) else ok ()))"

definition created :: response where
  "created = (set_header ''content-length'' ''0'' response_new)\<lparr>rs_status := 201\<rparr>"

definition mkcalendar_at :: "('s, 'h, 'l) server \<Rightarrow> xml_elem option \<Rightarrow> dav_path \<Rightarrow> ('s, 'l, response) handler" where
  "mkcalendar_at sv doc path =
     bind (refuse_parent sv CkCalendar path) (\<lambda>_.
     bind (attempt (on_fs (fs_create_dir (sv_fs sv) path))) (\<lambda>r. case r of
         Inl Exists \<Rightarrow> fail (Status 405)
       | Inl NotFound \<Rightarrow> fail (Status 409)
       | Inl e \<Rightarrow> fail (FsErr e)
       | Inr _ \<Rightarrow>
           bind (or_rollback sv path (fs_try (fs_mark_calendar (sv_fs sv) path))) (\<lambda>_.
           bind (case doc of None \<Rightarrow> ok () | Some tree \<Rightarrow> or_rollback sv path (apply_set_props sv path tree)) (\<lambda>_.
             ok created))))"

definition handle_mkcalendar :: "('s, 'h, 'l) server \<Rightarrow> request \<Rightarrow> bytes \<Rightarrow> ('s, 'l, response) handler" where
  "handle_mkcalendar sv rq body =
     req_path sv rq (\<lambda>path.
     bind (ensure_visible sv path) (\<lambda>_.
     bind (attempt (on_fs (fs_metadata (sv_fs sv) path))) (\<lambda>r.
       let meta = (case r of Inr m \<Rightarrow> Some m | Inl (_ :: fs_error) \<Rightarrow> None)
       in bind (map_err Status (if_match_get_tokens sv rq meta path)) (\<lambda>tokens.
          bind (check_locks sv path False tokens (Status 423)) (\<lambda>_.
            case mkcalendar_body (sv_http sv) body of
              Inl e \<Rightarrow> fail e
            | Inr doc \<Rightarrow> mkcalendar_at sv doc path)))))"

definition mkaddressbook_body :: "http_env \<Rightarrow> bytes \<Rightarrow> dav_error + xml_elem option" where
  "mkaddressbook_body env body =
     (if body = [] then Inr None
      else (case parse2 (xml_parse_all env) body of
              Inl e \<Rightarrow> Inl e
            | Inr tree \<Rightarrow>
                if el_name tree \<noteq> ''mkcol'' \<and> el_name tree \<noteq> ''mkaddressbook'' then Inl XmlParseError
                else Inr (Some tree)))"

text \<open>The collection is made by \<^verbatim>\<open>MKCOL\<close> without a body.\<close>

definition handle_mkaddressbook :: "('s, 'h, 'l) server \<Rightarrow> request \<Rightarrow> bytes \<Rightarrow> ('s, 'l, response) handler" where
  "handle_mkaddressbook sv rq body =
     (case mkaddressbook_body (sv_http sv) body of
        Inl e \<Rightarrow> fail e
      | Inr doc \<Rightarrow>
          req_path sv rq (\<lambda>path.
          bind (refuse_parent sv CkAddressbook path) (\<lambda>_.
          bind (handle_mkcol sv rq []) (\<lambda>resp.
          bind (or_rollback sv path (fs_try (fs_mark_addressbook (sv_fs sv) path))) (\<lambda>_.
          bind (case doc of None \<Rightarrow> ok () | Some tree \<Rightarrow> or_rollback sv path (apply_set_props sv path tree)) (\<lambda>_.
            ok resp))))))"

end
