(* ===== verification/Dav_Handler.thy ===== *)
theory Dav_Handler
  imports Handle_Report Handle_Mkcal Handle_Copymove
begin

text \<open>
  The configuration and the dispatcher, \<^verbatim>\<open>src/davhandler.rs\<close>, and the placeholder filesystem,
  \<^verbatim>\<open>src/voidfs.rs\<close>.  A request body is the list of its frames.
\<close>

section \<open>Configuration\<close>

record ('s, 'h, 'l) config =
  cfg_prefix :: "bytes option"
  cfg_fs :: "('s, 'h) fs_ops option"
  cfg_ls :: "'l ls_ops option"
  cfg_allow :: "method_set option"
  cfg_principal :: "bytes option"
  cfg_hide_symlinks :: "bool option"
  cfg_allow_infinity_depth :: "bool option"
  cfg_hide_dot_prefix :: "hide_option option"
  cfg_autoindex :: "bool option"
  cfg_probe :: "bool option"
  cfg_indexfile :: "bytes option"
  cfg_read_buf_size :: "nat option"
  cfg_redirect :: "bool option"

definition config_new :: "('s, 'h, 'l) config" where
  "config_new = \<lparr>cfg_prefix = None, cfg_fs = None, cfg_ls = None, cfg_allow = None, cfg_principal = None,
     cfg_hide_symlinks = None, cfg_allow_infinity_depth = None, cfg_hide_dot_prefix = None, cfg_autoindex = None,
     cfg_probe = None, cfg_indexfile = None, cfg_read_buf_size = None, cfg_redirect = None\<rparr>"

definition strip_prefix :: "bytes \<Rightarrow> ('s, 'h, 'l) config \<Rightarrow> ('s, 'h, 'l) config" where
  "strip_prefix p c = c\<lparr>cfg_prefix := Some p\<rparr>"

definition filesystem :: "('s, 'h) fs_ops \<Rightarrow> ('s, 'h, 'l) config \<Rightarrow> ('s, 'h, 'l) config" where
  "filesystem fs c = c\<lparr>cfg_fs := Some fs\<rparr>"

definition locksystem :: "'l ls_ops \<Rightarrow> ('s, 'h, 'l) config \<Rightarrow> ('s, 'h, 'l) config" where
  "locksystem ls c = c\<lparr>cfg_ls := Some ls\<rparr>"

definition methods :: "method_set \<Rightarrow> ('s, 'h, 'l) config \<Rightarrow> ('s, 'h, 'l) config" where
  "methods a c = c\<lparr>cfg_allow := Some a\<rparr>"

definition cfg_set_principal :: "bytes \<Rightarrow> ('s, 'h, 'l) config \<Rightarrow> ('s, 'h, 'l) config" where
  "cfg_set_principal p c = c\<lparr>cfg_principal := Some p\<rparr>"

definition hide_symlinks :: "bool \<Rightarrow> ('s, 'h, 'l) config \<Rightarrow> ('s, 'h, 'l) config" where
  "hide_symlinks b c = c\<lparr>cfg_hide_symlinks := Some b\<rparr>"

definition allow_infinity_depth :: "bool \<Rightarrow> ('s, 'h, 'l) config \<Rightarrow> ('s, 'h, 'l) config" where
  "allow_infinity_depth b c = c\<lparr>cfg_allow_infinity_depth := Some b\<rparr>"

definition hide_dot_prefix :: "hide_option \<Rightarrow> ('s, 'h, 'l) config \<Rightarrow> ('s, 'h, 'l) config" where
  "hide_dot_prefix h c = c\<lparr>cfg_hide_dot_prefix := Some h\<rparr>"

definition autoindex :: "bool \<Rightarrow> ('s, 'h, 'l) config \<Rightarrow> ('s, 'h, 'l) config" where
  "autoindex b c = c\<lparr>cfg_autoindex := Some b\<rparr>"

definition remote_php_webdav_probe :: "bool \<Rightarrow> ('s, 'h, 'l) config \<Rightarrow> ('s, 'h, 'l) config" where
  "remote_php_webdav_probe b c = c\<lparr>cfg_probe := Some b\<rparr>"

definition indexfile :: "bytes \<Rightarrow> ('s, 'h, 'l) config \<Rightarrow> ('s, 'h, 'l) config" where
  "indexfile f c = c\<lparr>cfg_indexfile := Some f\<rparr>"

definition read_buf_size :: "nat \<Rightarrow> ('s, 'h, 'l) config \<Rightarrow> ('s, 'h, 'l) config" where
  "read_buf_size n c = c\<lparr>cfg_read_buf_size := Some n\<rparr>"

definition redirect :: "bool \<Rightarrow> ('s, 'h, 'l) config \<Rightarrow> ('s, 'h, 'l) config" where
  "redirect b c = c\<lparr>cfg_redirect := Some b\<rparr>"

fun or_else :: "'a option \<Rightarrow> 'a option \<Rightarrow> 'a option" where
  "or_else (Some x) _ = Some x"
| "or_else None y = y"

definition config_merge :: "('s, 'h, 'l) config \<Rightarrow> ('s, 'h, 'l) config \<Rightarrow> ('s, 'h, 'l) config" where
  "config_merge c new =
     \<lparr>cfg_prefix = or_else (cfg_prefix new) (cfg_prefix c),
      cfg_fs = or_else (cfg_fs new) (cfg_fs c),
      cfg_ls = or_else (cfg_ls new) (cfg_ls c),
      cfg_allow = or_else (cfg_allow new) (cfg_allow c),
      cfg_principal = or_else (cfg_principal new) (cfg_principal c),
      cfg_hide_symlinks = or_else (cfg_hide_symlinks new) (cfg_hide_symlinks c),
      cfg_allow_infinity_depth = or_else (cfg_allow_infinity_depth new) (cfg_allow_infinity_depth c),
      cfg_hide_dot_prefix = or_else (cfg_hide_dot_prefix new) (cfg_hide_dot_prefix c),
      cfg_autoindex = or_else (cfg_autoindex new) (cfg_autoindex c),
      cfg_probe = or_else (cfg_probe new) (cfg_probe c),
      cfg_indexfile = or_else (cfg_indexfile new) (cfg_indexfile c),
      cfg_read_buf_size = or_else (cfg_read_buf_size new) (cfg_read_buf_size c),
      cfg_redirect = or_else (cfg_redirect new) (cfg_redirect c)\<rparr>"

section \<open>The placeholder filesystem\<close>

definition void_ops :: "('s, 'h) fs_ops" where
  "void_ops =
     \<lparr>fs_open = (\<lambda>_ _. not_implemented), fs_read_dir = (\<lambda>_ _. not_implemented), fs_metadata = (\<lambda>_. not_implemented),
      fs_symlink_metadata = (\<lambda>_. not_implemented), fs_create_dir = (\<lambda>_. not_implemented), fs_remove_dir = (\<lambda>_. not_implemented),
      fs_remove_file = (\<lambda>_. not_implemented), fs_same_resource = default_same_resource, fs_rename = (\<lambda>_ _. not_implemented),
      fs_copy = (\<lambda>_ _. not_implemented), fs_set_accessed = (\<lambda>_ _. not_implemented), fs_set_modified = (\<lambda>_ _. not_implemented),
      fs_set_created = (\<lambda>_ _. not_implemented), fs_have_props = (\<lambda>_ s. Some (False, s)), fs_patch_props = (\<lambda>_ _. not_implemented),
      fs_get_props = (\<lambda>_ _. not_implemented), fs_get_prop = (\<lambda>_ _. not_implemented), fs_get_quota = not_implemented,
      fs_mark_calendar = (\<lambda>p. default_mark_calendar (\<lambda>s. Some (False, s)) (\<lambda>_. not_implemented)),
      fs_mark_addressbook = (\<lambda>p. default_mark_addressbook (\<lambda>s. Some (False, s)) (\<lambda>_. not_implemented)),
      f_metadata = (\<lambda>_. not_implemented), f_write_bytes = (\<lambda>_ _. not_implemented), f_write_buf = (\<lambda>_ _. not_implemented),
      f_read_bytes = (\<lambda>_ _. not_implemented), f_seek = (\<lambda>_ _. not_implemented), f_flush = (\<lambda>_. not_implemented),
      f_redirect_url = (\<lambda>_. not_implemented)\<rparr>"

text \<open>The test is on the type of the value behind the \<^verbatim>\<open>dyn Any\<close> reference: a \<^verbatim>\<open>Box<VoidFs>\<close>, or the
  \<^verbatim>\<open>Box<dyn GuardedFileSystem>\<close> that every configuration holds.\<close>

datatype any_type = BoxVoidFs | BoxDynFileSystem

definition is_voidfs :: "any_type \<Rightarrow> bool" where
  "is_voidfs t \<longleftrightarrow> t = BoxVoidFs"

definition server_new :: "http_env \<Rightarrow> ('s, 'h, 'l) config \<Rightarrow> ('s, 'h, 'l) server" where
  "server_new env c =
     \<lparr>sv_http = env,
      sv_prefix = (case cfg_prefix c of Some p \<Rightarrow> p | None \<Rightarrow> []),
      sv_fs = (case cfg_fs c of Some fs \<Rightarrow> fs | None \<Rightarrow> void_ops),
      sv_ls = cfg_ls c, sv_allow = cfg_allow c, sv_principal = cfg_principal c,
      sv_hide_symlinks = (case cfg_hide_symlinks c of Some b \<Rightarrow> b | None \<Rightarrow> True),
      sv_allow_infinity_depth = (case cfg_allow_infinity_depth c of Some b \<Rightarrow> b | None \<Rightarrow> False),
      sv_hide_dot_prefix = (case cfg_hide_dot_prefix c of Some h \<Rightarrow> h | None \<Rightarrow> HideInAutoIndexListings),
      sv_autoindex = cfg_autoindex c,
      sv_probe = (case cfg_probe c of Some b \<Rightarrow> b | None \<Rightarrow> False),
      sv_indexfile = cfg_indexfile c, sv_read_buf_size = cfg_read_buf_size c, sv_redirect = cfg_redirect c\<rparr>"

section \<open>Reading the body\<close>

text \<open>\<^verbatim>\<open>read_request\<close>: a frame that would make the body too long is refused before it is kept.\<close>

fun read_request :: "nat \<Rightarrow> frame list \<Rightarrow> bytes \<Rightarrow> dav_error + bytes" where
  "read_request max_size [] dat = Inr dat"
| "read_request max_size (FError e # fs) dat = Inl (IoErr \<lparr>io_raw = None, io_kind = OtherKind\<rparr>)"
| "read_request max_size (FTrailers # fs) dat = read_request max_size fs dat"
| "read_request max_size (fr # fs) dat =
     (if frame_data fr \<noteq> [] \<and> max_size < length dat + length (frame_data fr) then Inl (Status 413)
      else read_request max_size fs (dat @ frame_data fr))"

definition MAX_BODY :: nat where "MAX_BODY = 65536"

definition accepts_body :: "dav_method \<Rightarrow> bool" where
  "accepts_body m \<longleftrightarrow> m \<in> {MPut, MPatch, MPropFind, MPropPatch, MLock, MReport, MMkCol, MMkCalendar, MMkAddressbook}"

text \<open>The data the handler is given: nothing for \<^verbatim>\<open>PUT\<close> and \<^verbatim>\<open>PATCH\<close>, which read the frames themselves.\<close>

definition body_data :: "dav_method \<Rightarrow> frame list \<Rightarrow> dav_error + bytes" where
  "body_data m frames =
     (if m = MPut \<or> m = MPatch then Inr []
      else (case read_request MAX_BODY frames [] of
              Inl e \<Rightarrow> Inl e
            | Inr dat \<Rightarrow> if \<not> accepts_body m \<and> dat \<noteq> [] then Inl (Status 415) else Inr dat))"

section \<open>The dispatcher\<close>

text \<open>What a run of a handler needs beside the server: the depth to which directories are followed, the
  multipart boundary, the text of an index page, and the calendar and card functions.\<close>

record 'r run_context =
  cx_fuel :: nat
  cx_boundary :: bytes
  cx_index :: "dav_path \<Rightarrow> index_entry list \<Rightarrow> bytes"
  cx_report :: "'r report_env"

text \<open>Without a filesystem only \<^verbatim>\<open>OPTIONS\<close> is served.\<close>

definition void_check :: "any_type \<Rightarrow> ('s, 'h, 'l) server \<Rightarrow> dav_method \<Rightarrow> dav_error + ('s, 'h, 'l) server" where
  "void_check ty sv m =
     (if is_voidfs ty then
        (if m = MOptions then
           Inr (if (case sv_allow sv of Some a \<Rightarrow> methods_contains a MOptions | None \<Rightarrow> True)
                then sv\<lparr>sv_allow := Some (methods_add MOptions methods_none)\<rparr> else sv)
         else Inl (StatusClose 405))
      else Inr sv)"

definition dispatch :: "'r run_context \<Rightarrow> ('s, 'h, 'l) server \<Rightarrow> request \<Rightarrow> dav_method \<Rightarrow> bytes \<Rightarrow> frame list \<Rightarrow>
    ('s, 'l, response) handler" where
  "dispatch cx sv rq m dat frames =
     (case m of
        MOptions \<Rightarrow> handle_options sv rq
      | MPropFind \<Rightarrow> handle_propfind (cx_fuel cx) sv rq dat
      | MPropPatch \<Rightarrow> handle_proppatch sv rq dat
      | MMkCol \<Rightarrow> handle_mkcol sv rq dat
      | MDelete \<Rightarrow> handle_delete (cx_fuel cx) sv rq
      | MLock \<Rightarrow> handle_lock sv rq dat
      | MUnlock \<Rightarrow> handle_unlock sv rq
      | MHead \<Rightarrow> handle_get (cx_boundary cx) (cx_index cx) sv rq
      | MGet \<Rightarrow> handle_get (cx_boundary cx) (cx_index cx) sv rq
      | MCopy \<Rightarrow> handle_copymove (cx_fuel cx) sv rq m
      | MMove \<Rightarrow> handle_copymove (cx_fuel cx) sv rq m
      | MPut \<Rightarrow> handle_put sv rq frames
      | MPatch \<Rightarrow> handle_put sv rq frames
      | MReport \<Rightarrow> handle_report (cx_report cx) sv rq dat
      | MMkCalendar \<Rightarrow> handle_mkcalendar sv rq dat
      | MMkAddressbook \<Rightarrow> handle_mkaddressbook sv rq dat)"

definition handle2 :: "'r run_context \<Rightarrow> ('s, 'h, 'l) server \<Rightarrow> request \<Rightarrow> frame list \<Rightarrow> ('s, 'l, response) handler" where
  "handle2 cx sv0 rq frames =
     (case dav_method_of (rq_method rq) of
        Inl e \<Rightarrow> fail e
      | Inr m \<Rightarrow> (case void_check BoxDynFileSystem sv0 m of
          Inl e \<Rightarrow> fail e
        | Inr sv \<Rightarrow>
            if (case sv_allow sv of Some a \<Rightarrow> \<not> methods_contains a m | None \<Rightarrow> False) then fail (StatusClose 405)
            else (case from_uri_and_prefix (pct_decode (sv_http sv)) (rq_path rq) (sv_prefix sv) of
                Inl e \<Rightarrow> fail (parse_error_to_dav e)
              | Inr _ \<Rightarrow> (case body_data m frames of
                  Inl e \<Rightarrow> fail e
                | Inr dat \<Rightarrow> dispatch cx sv rq m dat frames))))"

text \<open>An error becomes a response; Windows clients are told not to cache a 404.\<close>

definition error_response :: "bool \<Rightarrow> dav_error \<Rightarrow> response" where
  "error_response is_ms e =
     \<lparr>rs_status = statuscode e,
      rs_headers = (if is_ms \<and> statuscode e = 404
          then [(''cache-control'', ''no-store, no-cache, must-revalidate''), (''pragma'', ''no-cache''), (''expires'', ''0''), (''vary'', ''*'')]
          else []) @ [(''content-length'', ''0'')] @ (if must_close e then [(''connection'', ''close'')] else []),
      rs_body = BEmpty\<rparr>"

definition handle_request :: "'r run_context \<Rightarrow> ('s, 'h, 'l) server \<Rightarrow> request \<Rightarrow> frame list \<Rightarrow>
    ('s, 'l) world \<Rightarrow> (response \<times> ('s, 'l) world) option" where
  "handle_request cx sv rq frames w =
     (let is_ms = contains_sub (user_agent (sv_http sv) rq) ''Microsoft''
      in case handle2 cx sv rq frames w of
           None \<Rightarrow> None
         | Some (Inr resp, w') \<Rightarrow> Some (resp, w')
         | Some (Inl e, w') \<Rightarrow> Some (error_response is_ms e, w'))"

text \<open>The entry points.\<close>

definition handle_guarded :: "http_env \<Rightarrow> 'r run_context \<Rightarrow> ('s, 'h, 'l) config \<Rightarrow> bytes \<Rightarrow> request \<Rightarrow> frame list \<Rightarrow>
    ('s, 'l) world \<Rightarrow> (response \<times> ('s, 'l) world) option" where
  "handle_guarded env cx c who rq frames = handle_request cx ((server_new env c)\<lparr>sv_principal := Some who\<rparr>) rq frames"

definition handle :: "http_env \<Rightarrow> 'r run_context \<Rightarrow> ('s, 'h, 'l) config \<Rightarrow> request \<Rightarrow> frame list \<Rightarrow>
    ('s, 'l) world \<Rightarrow> (response \<times> ('s, 'l) world) option" where
  "handle env cx c rq frames = handle_request cx (server_new env c) rq frames"

definition handle_with :: "http_env \<Rightarrow> 'r run_context \<Rightarrow> ('s, 'h, 'l) config \<Rightarrow> ('s, 'h, 'l) config \<Rightarrow> request \<Rightarrow> frame list \<Rightarrow>
    ('s, 'l) world \<Rightarrow> (response \<times> ('s, 'l) world) option" where
  "handle_with env cx c override rq frames = handle_request cx (server_new env (config_merge c override)) rq frames"

end
