(* ===== verification/Cal_Props.thy ===== *)
theory Cal_Props
  imports Cal_Busy
begin

text \<open>
  Calendars: merging keeps the busy time of each type and makes it canonical, durations are read by the
  grammar of RFC 5545, and the evaluation of a query panics only where a date leaves the time line.
\<close>

section \<open>Merging busy intervals\<close>

definition busy_at :: "busy_interval list \<Rightarrow> fb_type \<Rightarrow> instant \<Rightarrow> bool" where
  "busy_at ivs ty t \<longleftrightarrow> (\<exists>iv \<in> set ivs. bi_type iv = ty \<and> bi_start iv \<le> t \<and> t < bi_end iv)"

definition apart :: "busy_interval \<Rightarrow> busy_interval \<Rightarrow> bool" where
  "apart a b \<longleftrightarrow> bi_type a = bi_type b \<longrightarrow> bi_end a < bi_start b"

abbreviation by_type :: "busy_interval \<Rightarrow> fb_type \<times> instant" where "by_type iv \<equiv> (bi_type iv, bi_start iv)"
abbreviation by_start :: "busy_interval \<Rightarrow> instant \<times> fb_type" where "by_start iv \<equiv> (bi_start iv, bi_type iv)"

lemma busy_at_simps [simp]:
  "\<not> busy_at [] ty t"
  "busy_at (iv # ivs) ty t \<longleftrightarrow> (bi_type iv = ty \<and> bi_start iv \<le> t \<and> t < bi_end iv) \<or> busy_at ivs ty t"
  by (auto simp: busy_at_def)

lemma merge_loop_covers:
  "sorted (map by_type (c # ivs)) \<Longrightarrow> busy_at (merge_loop c ivs) ty t \<longleftrightarrow> busy_at (c # ivs) ty t"
proof (induction c ivs rule: merge_loop.induct)
  case (2 c iv ivs)
  show ?case
  proof (cases "bi_type iv = bi_type c \<and> bi_start iv \<le> bi_end c")
    case True
    let ?c = "if bi_end c < bi_end iv then c\<lparr>bi_end := bi_end iv\<rparr> else c"
    have "sorted (map by_type (?c # ivs))" using 2(3) by auto
    then have "busy_at (merge_loop ?c ivs) ty t \<longleftrightarrow> busy_at (?c # ivs) ty t" by (rule 2(1) [OF True])
    moreover have "bi_start c \<le> bi_start iv" using 2(3) True by auto
    ultimately show ?thesis using True by (auto split: if_splits)
  next
    case False
    have "sorted (map by_type (iv # ivs))" using 2(3) by simp
    from 2(2) [OF False this] False show ?thesis by auto
  qed
qed simp

lemma merge_loop_sorted:
  "sorted (map by_type (c # ivs)) \<Longrightarrow>
     sorted (map by_type (merge_loop c ivs)) \<and> (\<forall>x \<in> set (merge_loop c ivs). by_type c \<le> by_type x)"
proof (induction c ivs rule: merge_loop.induct)
  case (2 c iv ivs)
  show ?case
  proof (cases "bi_type iv = bi_type c \<and> bi_start iv \<le> bi_end c")
    case True
    let ?c = "if bi_end c < bi_end iv then c\<lparr>bi_end := bi_end iv\<rparr> else c"
    have "sorted (map by_type (?c # ivs))" using 2(3) by auto
    from 2(1) [OF True this] True show ?thesis by (auto split: if_splits)
  next
    case False
    have "sorted (map by_type (iv # ivs))" using 2(3) by simp
    from 2(2) [OF False this] have i: "sorted (map by_type (merge_loop iv ivs))"
      "\<forall>x \<in> set (merge_loop iv ivs). by_type iv \<le> by_type x" by auto
    have "by_type c \<le> by_type iv" using 2(3) by simp
    then have "\<forall>x \<in> set (merge_loop iv ivs). by_type c \<le> by_type x" using i(2) order_trans by blast
    with False i show ?thesis by auto
  qed
qed simp

lemma merge_loop_apart:
  "sorted (map by_type (c # ivs)) \<Longrightarrow> sorted_wrt apart (merge_loop c ivs)"
proof (induction c ivs rule: merge_loop.induct)
  case (2 c iv ivs)
  show ?case
  proof (cases "bi_type iv = bi_type c \<and> bi_start iv \<le> bi_end c")
    case True
    let ?c = "if bi_end c < bi_end iv then c\<lparr>bi_end := bi_end iv\<rparr> else c"
    have "sorted (map by_type (?c # ivs))" using 2(3) by auto
    from 2(1) [OF True this] True show ?thesis by auto
  next
    case False
    have s: "sorted (map by_type (iv # ivs))" using 2(3) by simp
    have "apart c x" if "x \<in> set (merge_loop iv ivs)" for x
    proof -
      have "by_type iv \<le> by_type x" using merge_loop_sorted [OF s] that by blast
      moreover have "by_type c \<le> by_type iv" using 2(3) by simp
      ultimately show ?thesis using False by (auto simp: apart_def)
    qed
    with 2(2) [OF False s] False show ?thesis by auto
  qed
qed simp

lemma busy_at_set: "set xs = set ys \<Longrightarrow> busy_at xs ty t = busy_at ys ty t"
  by (simp add: busy_at_def)

text \<open>What concerns the intervals of each type alone survives sorting by start.\<close>

lemma sorted_wrt_apart_iff:
  "sorted_wrt apart xs \<longleftrightarrow> (\<forall>ty. sorted_wrt (\<lambda>a b. bi_end a < bi_start b) (filter (\<lambda>iv. bi_type iv = ty) xs))"
  by (induction xs) (auto simp: apart_def)

lemma filter_by_start:
  assumes "sorted (map by_type xs)"
  shows "filter (\<lambda>iv. bi_type iv = ty) (sort_key by_start xs) = filter (\<lambda>iv. bi_type iv = ty) xs"
proof -
  have "sorted (map by_start (filter (\<lambda>iv. bi_type iv = ty) xs))" using assms by (induction xs) auto
  then show ?thesis by (simp add: filter_sort sorted_sort_id sort_key_id_if_sorted)
qed

lemma merge_length: "length (merge_loop c ivs) \<le> Suc (length ivs)"
  by (induction c ivs rule: merge_loop.induct) auto

text \<open>C30: Merging keeps, for each type, exactly the instants that were busy; what it answers is ordered by
  start, and two intervals of the same type neither overlap nor touch.\<close>

theorem merge_busy_spec:
  "busy_at (merge_busy_intervals ivs) ty t = busy_at ivs ty t \<and>
   sorted (map by_start (merge_busy_intervals ivs)) \<and>
   sorted_wrt apart (merge_busy_intervals ivs) \<and>
   length (merge_busy_intervals ivs) \<le> length ivs"
proof (cases "length ivs \<le> 1")
  case True
  then have "merge_busy_intervals ivs = ivs" "ivs = [] \<or> (\<exists>iv. ivs = [iv])"
    by (simp_all add: merge_busy_intervals_def le_Suc_eq length_Suc_conv)
  then show ?thesis by auto
next
  case False
  obtain iv rest where r: "sort_key by_type ivs = iv # rest"
    using False by (metis le0 length_0_conv length_sort list.exhaust)
  then have s: "sorted (map by_type (iv # rest))" by (metis sorted_sort_key)
  let ?ms = "merge_loop iv rest"
  have m: "merge_busy_intervals ivs = sort_key by_start ?ms"
    using False r by (simp add: merge_busy_intervals_def)
  have "busy_at (sort_key by_start ?ms) ty t = busy_at ivs ty t"
    using merge_loop_covers [OF s] busy_at_set [of "sort_key by_start ?ms" ?ms] busy_at_set [of "iv # rest" ivs]
    by (metis r set_sort)
  moreover have "sorted_wrt apart (sort_key by_start ?ms)"
    using merge_loop_apart [OF s] merge_loop_sorted [OF s]
    by (simp add: sorted_wrt_apart_iff filter_by_start del: filter_sort)
  moreover have "length (sort_key by_start ?ms) \<le> length ivs"
    using merge_length [of iv rest] arg_cong [OF r, of length] by simp
  ultimately show ?thesis unfolding m by simp
qed

section \<open>Overlap\<close>

text \<open>For a span that is not empty: the two half-open spans share an instant, if the range is not empty.\<close>

lemma overlap_shares:
  assumes "s < e" and "case (rs, re) of (Some a, Some b) \<Rightarrow> a < b | _ \<Rightarrow> True"
  shows "time_spans_overlap s e rs re \<longleftrightarrow>
    (\<exists>t. s \<le> t \<and> t < e \<and> (case rs of Some a \<Rightarrow> a \<le> t | None \<Rightarrow> True) \<and> (case re of Some b \<Rightarrow> t < b | None \<Rightarrow> True))"
  (is "?l \<longleftrightarrow> (\<exists>t. ?P t)")
proof
  assume ?l
  with assms have "?P (case rs of Some a \<Rightarrow> max a s | None \<Rightarrow> s)"
    by (auto simp: time_spans_overlap_def split: option.splits)
  then show "\<exists>t. ?P t" ..
qed (use assms in \<open>auto simp: time_spans_overlap_def split: option.splits\<close>)

section \<open>Durations\<close>

text \<open>The grammar: parts of digits and a unit, those of days before a \<open>T\<close> and those of a time after it.\<close>

type_synonym dur_part = "bytes \<times> byte"

definition part_ok :: "bool \<Rightarrow> dur_part \<Rightarrow> bool" where
  "part_ok in_time p \<longleftrightarrow> fst p \<noteq> [] \<and> list_all is_digit (fst p) \<and> digits_value (fst p) \<le> i64_max \<and>
     duration_unit (snd p) in_time \<noteq> None"

definition part_secs :: "bool \<Rightarrow> dur_part \<Rightarrow> nat" where
  "part_secs in_time p = digits_value (fst p) * the (duration_unit (snd p) in_time)"

definition parts_text :: "dur_part list \<Rightarrow> bytes" where
  "parts_text ps = concat (map (\<lambda>(d, u). d @ [u]) ps)"

definition parts_secs :: "bool \<Rightarrow> dur_part list \<Rightarrow> nat" where
  "parts_secs in_time ps = sum_list (map (part_secs in_time) ps)"

definition time_text :: "dur_part list \<Rightarrow> bytes" where
  "time_text ts = (if ts = [] then [] else CHR ''T'' # parts_text ts)"

lemma parts_simps [simp]:
  "parts_text [] = []" "parts_text (p # ps) = fst p @ snd p # parts_text ps"
  "parts_secs b [] = 0" "parts_secs b (p # ps) = part_secs b p + parts_secs b ps"
  by (auto simp: parts_text_def parts_secs_def split: prod.splits)

lemma unit_no_digit: "duration_unit u b = Some k \<Longrightarrow> \<not> is_digit u \<and> u \<noteq> CHR ''T''"
  by (auto simp: is_digit_def split: if_splits)

lemma parse_uint_digits:
  assumes "ds \<noteq> []" "list_all is_digit ds"
  shows "parse_uint mx ds = (if mx < digits_value ds then None else Some (digits_value ds))"
proof -
  obtain c r where "ds = c # r" using assms(1) by (cases ds) auto
  moreover from this assms(2) have "c \<noteq> CHR ''+''" by (auto simp: is_digit_def)
  ultimately show ?thesis using assms by (simp add: parse_uint_def)
qed

text \<open>One part is read exactly if it stands there and its seconds are within the bounds.\<close>

lemma duration_part_iff:
  "duration_part ce rest b = Some (n, us) \<longleftrightarrow>
     (\<exists>p. part_ok b p \<and> rest = fst p @ snd p # us \<and> n = int (part_secs b p) \<and> part_secs b p \<le> ce_max_delta ce)"
  (is "?l \<longleftrightarrow> ?r")
proof
  assume l: ?l
  let ?ds = "takeWhile is_digit rest"
  have ds: "?ds \<noteq> []" using l by (auto simp: duration_part_def)
  have dg: "list_all is_digit ?ds" by (auto simp: list_all_iff dest: set_takeWhileD)
  obtain u us' where d: "dropWhile is_digit rest = u # us'"
    using l ds by (cases "dropWhile is_digit rest") (auto simp: duration_part_def Let_def bind_eq_Some_conv simp del: dropWhile_eq_Nil_conv)
  from l ds dg d have "us' = us" "digits_value ?ds \<le> i64_max"
      "\<exists>k. duration_unit u b = Some k \<and> n = int (digits_value ?ds * k) \<and> digits_value ?ds * k \<le> ce_max_delta ce"
    by (auto simp: duration_part_def Let_def bind_eq_Some_conv parse_uint_digits delta_def simp del: duration_unit.simps of_nat_mult split: if_splits)
  moreover have "rest = ?ds @ u # us'" using d by (metis takeWhile_dropWhile_id)
  ultimately show ?r using ds dg
    by (intro exI [of _ "(?ds, u)"]) (auto simp: part_ok_def part_secs_def simp del: duration_unit.simps)
next
  assume ?r
  then obtain d u k where p: "d \<noteq> []" "list_all is_digit d" "digits_value d \<le> i64_max" "duration_unit u b = Some k"
    "rest = d @ u # us" "n = int (digits_value d * k)" "digits_value d * k \<le> ce_max_delta ce"
    by (auto simp: part_ok_def part_secs_def simp del: duration_unit.simps)
  have "takeWhile is_digit rest = d" "dropWhile is_digit rest = u # us"
    using p unit_no_digit [OF p(4)] by (auto simp: takeWhile_append dropWhile_append list_all_iff)
  then show ?l using p
    by (simp add: duration_part_def parse_uint_digits delta_def del: duration_unit.simps of_nat_mult)
qed

lemma duration_loop_simps:
  "duration_loop ce [] tot b = Some tot"
  "duration_loop ce (c # cs) tot b =
     (if c = CHR ''T'' then (if b \<or> cs = [] then None else duration_loop ce cs tot True)
      else (case duration_part ce (c # cs) b of
              None \<Rightarrow> None
            | Some (part, us) \<Rightarrow> (case delta ce (tot + part) of None \<Rightarrow> None | Some t \<Rightarrow> duration_loop ce us t b)))"
  by (subst duration_loop.simps, simp)+

lemma part_ok_head: "part_ok b p \<Longrightarrow> fst p @ snd p # us = c # cs \<Longrightarrow> c \<noteq> CHR ''T''"
  by (cases "fst p") (auto simp: part_ok_def is_digit_def simp del: duration_unit.simps)

lemma duration_loop_sound:
  assumes "duration_loop ce rest tot b = Some t" "0 \<le> tot" "tot \<le> int (ce_max_delta ce)"
  shows "\<exists>ds ts. rest = parts_text ds @ time_text ts \<and> (b \<longrightarrow> ts = []) \<and> list_all (part_ok b) ds \<and> list_all (part_ok True) ts \<and>
    t = tot + int (parts_secs b ds + parts_secs True ts) \<and> t \<le> int (ce_max_delta ce)"
  using assms
proof (induction ce rest tot b rule: duration_loop.induct)
  case (1 ce rest tot b)
  show ?case
  proof (cases rest)
    case Nil
    with 1(3) have "t = tot" by (simp add: duration_loop_simps)
    with Nil 1(5) show ?thesis by (intro exI [of _ "[]"]) (simp add: time_text_def)
  next
    case (Cons c cs)
    show ?thesis
    proof (cases "c = CHR ''T''")
      case True
      with 1(3) Cons have b: "\<not> b" "cs \<noteq> []" and r: "duration_loop ce cs tot True = Some t"
        by (auto simp: duration_loop_simps split: if_splits)
      from 1(1) [OF Cons True _ r 1(4,5)] b obtain ds where d: "cs = parts_text ds" "list_all (part_ok True) ds"
        "t = tot + int (parts_secs True ds)" "t \<le> int (ce_max_delta ce)" by (auto simp: time_text_def)
      with b Cons True show ?thesis by (intro exI [of _ "[]"] exI [of _ ds]) (auto simp: time_text_def)
    next
      case False
      with 1(3) Cons obtain part us t1 where p: "duration_part ce rest b = Some (part, us)" "delta ce (tot + part) = Some t1"
        "duration_loop ce us t1 b = Some t"
        by (auto simp: duration_loop_simps split: if_splits option.splits prod.splits)
      from p(1) obtain q where q: "part_ok b q" "rest = fst q @ snd q # us" "part = int (part_secs b q)"
        by (auto simp: duration_part_iff)
      from p(2) q(3) 1(4) have t1: "t1 = tot + part" "0 \<le> t1" "t1 \<le> int (ce_max_delta ce)"
        by (auto simp: delta_def split: if_splits)
      from 1(2) [OF Cons False p(1) refl p(2) p(3) t1(2,3)] obtain ds ts where
        "us = parts_text ds @ time_text ts" "b \<longrightarrow> ts = []" "list_all (part_ok b) ds" "list_all (part_ok True) ts"
        "t = t1 + int (parts_secs b ds + parts_secs True ts)" "t \<le> int (ce_max_delta ce)" by blast
      with q t1 show ?thesis by (intro exI [of _ "q # ds"] exI [of _ ts]) simp
    qed
  qed
qed

lemma duration_loop_parts:
  assumes "list_all (part_ok b) ds" "0 \<le> tot" "tot + int (parts_secs b ds) \<le> int (ce_max_delta ce)"
  shows "duration_loop ce (parts_text ds @ rest) tot b = duration_loop ce rest (tot + int (parts_secs b ds)) b"
  using assms
proof (induction ds arbitrary: tot)
  case (Cons p ds)
  obtain c cs where cs: "parts_text (p # ds) @ rest = c # cs" by (cases "parts_text (p # ds) @ rest") auto
  then have "c \<noteq> CHR ''T''" using Cons.prems(1) part_ok_head [of b p "parts_text ds @ rest"] by auto
  moreover have "duration_part ce (c # cs) b = Some (int (part_secs b p), parts_text ds @ rest)"
    unfolding duration_part_iff using Cons.prems cs by (intro exI [of _ p]) auto
  moreover have "delta ce (tot + int (part_secs b p)) = Some (tot + int (part_secs b p))"
    using Cons.prems by (simp add: delta_def)
  ultimately have "duration_loop ce (parts_text (p # ds) @ rest) tot b =
      duration_loop ce (parts_text ds @ rest) (tot + int (part_secs b p)) b"
    by (simp only: cs duration_loop_simps if_False option.case prod.case)
  also have "\<dots> = duration_loop ce rest (tot + int (parts_secs b (p # ds))) b"
    using Cons.IH [of "tot + int (part_secs b p)"] Cons.prems by (simp add: add.assoc)
  finally show ?case .
qed simp

lemma duration_loop_complete:
  assumes "list_all (part_ok False) ds" "list_all (part_ok True) ts"
    and "int (parts_secs False ds + parts_secs True ts) \<le> int (ce_max_delta ce)"
  shows "duration_loop ce (parts_text ds @ time_text ts) 0 False = Some (int (parts_secs False ds + parts_secs True ts))"
proof -
  have "duration_loop ce (parts_text ds @ time_text ts) 0 False = duration_loop ce (time_text ts) (int (parts_secs False ds)) False"
    using duration_loop_parts [OF assms(1), of 0 ce "time_text ts"] assms(3) by simp
  also have "\<dots> = Some (int (parts_secs False ds + parts_secs True ts))"
  proof (cases "ts = []")
    case False
    then have "parts_text ts \<noteq> []" by (cases ts) auto
    with False have "duration_loop ce (time_text ts) (int (parts_secs False ds)) False =
        duration_loop ce (parts_text ts @ []) (int (parts_secs False ds)) True"
      by (simp add: time_text_def duration_loop_simps)
    also have "\<dots> = duration_loop ce [] (int (parts_secs False ds) + int (parts_secs True ts)) True"
      using assms(3) by (intro duration_loop_parts assms(2)) auto
    finally show ?thesis by (simp add: duration_loop_simps)
  qed (simp add: time_text_def duration_loop_simps)
  finally show ?thesis .
qed

definition signed :: "bytes \<Rightarrow> int \<Rightarrow> int" where
  "signed sg n = (if sg = ''-'' then - n else n)"

text \<open>C31: A text is read as a duration exactly if it is a sign, \<^verbatim>\<open>P\<close>, weeks and days, and, after a \<^verbatim>\<open>T\<close>, hours,
  minutes and seconds, with some part and a sum within the bounds of \<^verbatim>\<open>TimeDelta\<close>; the value is that sum.\<close>

theorem parse_ical_duration_iff:
  "parse_ical_duration ce s = Some t \<longleftrightarrow>
     (\<exists>sg ds ts. sg \<in> {[], ''+'', ''-''} \<and> str_trim s = sg @ ''P'' @ parts_text ds @ time_text ts \<and> ds @ ts \<noteq> [] \<and>
        list_all (part_ok False) ds \<and> list_all (part_ok True) ts \<and>
        parts_secs False ds + parts_secs True ts \<le> ce_max_delta ce \<and>
        t = signed sg (int (parts_secs False ds + parts_secs True ts)))"
  (is "?l \<longleftrightarrow> ?r")
proof
  assume l: ?l
  define sg where "sg = (if starts_with (str_trim s) ''-'' then ''-'' else if starts_with (str_trim s) ''+'' then ''+'' else [])"
  from l obtain r t1 where r: "str_trim s = sg @ ''P'' @ r" "r \<noteq> []" "duration_loop ce r 0 False = Some t1" "t = signed sg t1"
    by (auto simp: parse_ical_duration_def Let_def sg_def signed_def starts_with_iff split: if_splits)
  from duration_loop_sound [OF r(3)] obtain ds ts where
    d: "r = parts_text ds @ time_text ts" "list_all (part_ok False) ds" "list_all (part_ok True) ts"
    "t1 = int (parts_secs False ds + parts_secs True ts)" "t1 \<le> int (ce_max_delta ce)" by auto
  moreover have "ds @ ts \<noteq> []" using d(1) r(2) by (auto simp: time_text_def)
  moreover have "sg \<in> {[], ''+'', ''-''}" by (simp add: sg_def)
  ultimately show ?r using r(1,4) by (intro exI [of _ sg] exI [of _ ds] exI [of _ ts]) auto
next
  assume ?r
  then obtain sg ds ts where d: "sg \<in> {[], ''+'', ''-''}" "str_trim s = sg @ ''P'' @ parts_text ds @ time_text ts"
    "ds @ ts \<noteq> []" "list_all (part_ok False) ds" "list_all (part_ok True) ts"
    "parts_secs False ds + parts_secs True ts \<le> ce_max_delta ce"
    "t = signed sg (int (parts_secs False ds + parts_secs True ts))" by blast
  have "parts_text ds @ time_text ts \<noteq> []" using d(3) by (cases ds; cases ts) (auto simp: time_text_def)
  then show ?l using d(1,2,7) duration_loop_complete [OF d(4,5), of ce] d(6)
    by (auto simp: parse_ical_duration_def Let_def signed_def)
qed

section \<open>Panics\<close>

text \<open>The day after every date of a calendar is an instant that \<^verbatim>\<open>chrono\<close> represents.\<close>

definition date_ok :: "'r cal_env \<Rightarrow> date_perhaps_time option \<Rightarrow> bool" where
  "date_ok ce d = (case d of Some (DptDate t) \<Rightarrow> ce_instant_ok ce (t + one_day) | _ \<Rightarrow> True)"

fun component_dates_ok :: "'r cal_env \<Rightarrow> component \<Rightarrow> bool" where
  "component_dates_ok ce (Comp k ps ms cs) \<longleftrightarrow>
     date_ok ce (ce_start ce (Comp k ps ms cs)) \<and>
     list_all (\<lambda>(_, p). date_ok ce (ce_from_property ce p)) ps \<and>
     list_all (\<lambda>(_, m). list_all (\<lambda>p. date_ok ce (ce_from_property ce p)) m) ms \<and>
     list_all (component_dates_ok ce) cs"

definition calendar_dates_ok :: "'r cal_env \<Rightarrow> calendar \<Rightarrow> bool" where
  "calendar_dates_ok ce cal \<longleftrightarrow>
     list_all (\<lambda>p. date_ok ce (ce_from_property ce p)) (ic_props cal) \<and>
     list_all (\<lambda>c. case component_of c of Some x \<Rightarrow> component_dates_ok ce x | None \<Rightarrow> True) (ic_comps cal)"

lemma all_m_returns: "(\<And>x. x \<in> set xs \<Longrightarrow> p x \<noteq> None) \<Longrightarrow> all_m p xs \<noteq> None"
  by (induction xs) (auto split: option.splits)

lemma any_m_returns: "(\<And>x. x \<in> set xs \<Longrightarrow> p x \<noteq> None) \<Longrightarrow> any_m p xs \<noteq> None"
  by (induction xs) (auto split: option.splits)

lemma filter_m_returns: "(\<And>x. x \<in> set xs \<Longrightarrow> p x \<noteq> None) \<Longrightarrow> filter_m p xs \<noteq> None"
  by (induction xs) (auto split: option.splits)

lemma and_then_returns: "a \<noteq> None \<Longrightarrow> b \<noteq> None \<Longrightarrow> and_then a b \<noteq> None"
  by (auto simp: and_then_def split: option.splits)

lemmas returns_rules = all_m_returns any_m_returns filter_m_returns and_then_returns

lemma property_returns: "date_ok ce (ce_from_property ce p) \<Longrightarrow> property_instance_matches ce pf p \<noteq> None"
  unfolding property_instance_matches_def
  by (intro returns_rules) (auto simp: property_overlaps_def Let_def date_ok_def add_delta_def to_utc_def split: option.splits date_perhaps_time.splits)

lemma values_return: "(\<And>p. p \<in> set ps \<Longrightarrow> date_ok ce (ce_from_property ce p)) \<Longrightarrow> matches_prop_values ce ps pf \<noteq> None"
  using filter_m_returns [of ps "property_instance_matches ce pf"] property_returns [of ce _ pf]
  by (auto simp: matches_prop_values_def split: option.splits)

lemma span_returns: "date_ok ce (ce_start ce c) \<Longrightarrow> component_span ce c \<noteq> None"
  by (auto simp: component_span_def Let_def date_ok_def add_delta_def to_utc_def split: option.splits date_perhaps_time.splits)

lemma overlaps_returns: "date_ok ce (ce_start ce c) \<Longrightarrow> component_overlaps ce c tr \<noteq> None"
  using span_returns [of ce c] by (auto simp: component_overlaps_def split: option.splits)

lemma dates_ok_parts:
  assumes "component_dates_ok ce c"
  shows "date_ok ce (ce_start ce c)" "p \<in> set (component_props c name) \<Longrightarrow> date_ok ce (ce_from_property ce p)"
    "ch \<in> set (co_comps c) \<Longrightarrow> component_dates_ok ce ch"
  using assms by (cases c; auto simp: component_props_def list_all_iff)+

lemma filters_return:
  "component_dates_ok ce c \<Longrightarrow> component_matches_filter ce f c \<noteq> None"
  "component_dates_ok ce c \<Longrightarrow> nested_filters_match ce fs c \<noteq> None"
  "component_dates_ok ce c \<Longrightarrow> nested_filter_match ce f c \<noteq> None"
proof (induction ce f c and ce fs c and ce f c rule: component_matches_filter_nested_filters_match_nested_filter_match.induct)
  case (1 ce name nd tr props comps c)
  have "(case tr of Some r \<Rightarrow> component_overlaps ce c r | None \<Rightarrow> Some True) \<noteq> None"
    using overlaps_returns [OF dates_ok_parts(1) [OF 1(2)]] by (cases tr) auto
  then show ?case
    unfolding component_matches_filter.simps component_matches_prop_filter_def
    by (intro returns_rules values_return dates_ok_parts(2) [OF 1(2)] 1(1) [OF 1(2)])
next
  case (3 ce f fs c)
  then show ?case unfolding nested_filters_match.simps by (intro returns_rules) auto
next
  case (4 ce name nd tr props comps c)
  have "any_m (component_matches_filter ce (CompFilter name nd tr props comps)) (children_named c name) \<noteq> None" if "\<not> nd"
    using 4 that by (intro any_m_returns) (auto simp: children_named_def dest: dates_ok_parts(3))
  then show ?case by (simp add: Let_def)
qed simp

text \<open>C32: A calendar query answers, without a panic, on every calendar in which the day after each date is
  an instant that \<^verbatim>\<open>chrono\<close> represents.\<close>

theorem calendar_query_answers:
  assumes "ce_parse ce content = Inr cal" and d: "calendar_dates_ok ce cal"
  shows "\<exists>b. calendar_matches_query ce content q = Some b"
proof -
  have c: "component_dates_ok ce x" if "c \<in> set (ic_comps cal)" "component_of c = Some x" for c x
    using d that by (auto simp: calendar_dates_ok_def list_all_iff split: option.splits)
  have m: "calendar_component_matches ce f x \<noteq> None" if "x \<in> set (ic_comps cal)" for f x
    using c [OF that] filters_return(1) by (auto simp: calendar_component_matches_def split: option.splits)
  have o: "calendar_component_overlaps ce tr x \<noteq> None" if "x \<in> set (ic_comps cal)" for tr x
    using c [OF that] overlaps_returns dates_ok_parts(1) by (fastforce simp: calendar_component_overlaps_def split: option.splits)
  have nested: "calendar_nested_filters_match ce cal fs \<noteq> None" for fs
    unfolding calendar_nested_filters_match_def Let_def
    using any_m_returns [of "filter (\<lambda>c. component_name_matches c _) (ic_comps cal)", OF m] by (intro all_m_returns) simp
  have props: "all_m (calendar_matches_prop_filter ce cal) fs \<noteq> None" for fs
    unfolding calendar_matches_prop_filter_def
    using d by (intro all_m_returns values_return) (auto simp: calendar_dates_ok_def list_all_iff)
  have range: "(case tr of Some r \<Rightarrow> any_m (calendar_component_overlaps ce r) (ic_comps cal) | None \<Rightarrow> Some True) \<noteq> None" for tr
    using any_m_returns [OF o] by (cases tr) auto
  have "matches_calendar ce cal f \<noteq> None" for f
    unfolding matches_calendar_def using nested and_then_returns [OF range and_then_returns [OF props nested]] by auto
  then show ?thesis using assms(1)
    by (auto simp: calendar_matches_query_def validate_calendar_data_def split: option.splits)
qed

text \<open>A calendar with an event on one day; the time line ends with \<open>bound\<close>.\<close>

definition demo_event :: component where
  "demo_event = Comp ''VEVENT'' [(''DTSTART'', \<lparr>ip_key = ''DTSTART'', ip_value = ''20240601'', ip_params = []\<rparr>)] [] []"

definition demo_cal_env :: "int \<Rightarrow> unit cal_env" where
  "demo_cal_env bound =
     \<lparr>ce_lowercase = map ascii_lower, ce_parse = (\<lambda>_. Inr \<lparr>ic_props = [], ic_comps = [CcEvent demo_event]\<rparr>),
      ce_date_time = (\<lambda>_ s. if s = ''S'' then Some 0 else if s = ''E'' then Some (5 * one_day) else None), ce_date = (\<lambda>_ _. None),
      ce_format = (\<lambda>_ t. if t < one_day then ''S'' else ''E''), ce_max_delta = 9223372036854775,
      ce_instant_ok = (\<lambda>t. t \<le> bound), ce_from_property = (\<lambda>p. if ip_key p = ''DTSTART'' then Some (DptDate one_day) else None),
      ce_start = (\<lambda>c. if co_kind c = ''VEVENT'' then Some (DptDate one_day) else None), ce_end = (\<lambda>_. None), ce_zone_utc = (\<lambda>_ _. None),
      ce_uid = (\<lambda>_. None), ce_recurrence_id = (\<lambda>_. None), ce_recurrence = (\<lambda>_. None), ce_is_local = (\<lambda>_. False),
      ce_from_local = Some, ce_to_local = (\<lambda>t. t), ce_all = (\<lambda>_ _ _ _. [])\<rparr>"

definition demo_query :: calendar_query where
  "demo_query = \<lparr>cq_filter = Some (CompFilter ''VCALENDAR'' False None []
       [CompFilter ''VEVENT'' False (Some \<lparr>tr_start = Some ''S'', tr_end = Some ''E''\<rparr>) [] []]), cq_range = None, cq_properties = []\<rparr>"

lemma demo_dates: "calendar_dates_ok (demo_cal_env (9 * one_day)) \<lparr>ic_props = [], ic_comps = [CcEvent demo_event]\<rparr>"
  by (simp add: calendar_dates_ok_def demo_cal_env_def demo_event_def component_of_def date_ok_def one_day_def nanos_def)

lemma calendar_query_answers_witness:
  "\<exists>b. calendar_matches_query (demo_cal_env (9 * one_day)) ''x'' demo_query = Some b"
  by (rule calendar_query_answers [OF _ demo_dates]) (simp add: demo_cal_env_def)

lemma demo_trim: "str_trim ''S'' = ''S''" "str_trim ''E'' = ''E''"
  by (code_simp, code_simp)

text \<open>At the end of the time line the query panics; before it, it matches.\<close>

lemma query_panics:
  "calendar_matches_query (demo_cal_env one_day) ''x'' demo_query = None"
  "calendar_matches_query (demo_cal_env (9 * one_day)) ''x'' demo_query = Some True"
  by (simp_all add: calendar_matches_query_def demo_query_def demo_cal_env_def validate_calendar_data_def matches_calendar_def
      calendar_nested_filters_match_def calendar_component_matches_def component_of_def component_overlaps_def demo_event_def
      tr_bounds_def parse_time_range_bounds_def parse_bound_def parse_caldav_date_time_def demo_trim component_span_def to_utc_def
      add_delta_def one_day_def nanos_def and_then_def time_spans_overlap_def)

end
