(* ===== verification/Dav_Os.thy ===== *)
theory Dav_Os
  imports Dav_Fs
begin

text \<open>
  What the local filesystem stands on: \<^verbatim>\<open>std::path\<close> on Unix, and the calls of the operating system that
  \<^verbatim>\<open>std::fs\<close> makes, as a record of actions on the state of the host.  A \<^verbatim>\<open>PathBuf\<close> is the list of its
  components: equality, hashing and prefixes of paths go by components in Rust, and a path that is given
  to the system means the same with a repeated slash or an inner dot segment left out.
\<close>

section \<open>Paths of the host\<close>

datatype component = RootDir | CurDir | ParentDir | Normal bytes

type_synonym pathbuf = "component list"

definition piece :: "bytes \<Rightarrow> component list" where
  "piece s = (if s = [] \<or> s = ''.'' then [] else if s = ''..'' then [ParentDir] else [Normal s])"

text \<open>\<^verbatim>\<open>Path::new(..).components()\<close>: a dot segment is kept only where the path starts with it.\<close>

definition components :: "bytes \<Rightarrow> pathbuf" where
  "components p =
     (let ps = split_on slash p
      in (if starts_with p [slash] then [RootDir] else if hd ps = ''.'' then [CurDir] else []) @ concat (map piece ps))"

definition has_root :: "pathbuf \<Rightarrow> bool" where
  "has_root p = (case p of RootDir # _ \<Rightarrow> True | _ \<Rightarrow> False)"

text \<open>\<^verbatim>\<open>PathBuf::push\<close>: an absolute path replaces, a leading dot segment goes away.\<close>

definition path_push :: "bytes \<Rightarrow> pathbuf \<Rightarrow> pathbuf" where
  "path_push name p =
     (let cs = components name
      in if has_root cs then cs else if p \<noteq> [] \<and> cs \<noteq> [] \<and> hd cs = CurDir then p @ tl cs else p @ cs)"

definition os_parent :: "pathbuf \<Rightarrow> pathbuf option" where
  "os_parent p = (if p = [] \<or> last p = RootDir then None else Some (butlast p))"

definition os_file_name :: "pathbuf \<Rightarrow> bytes option" where
  "os_file_name p = (if p = [] then None else (case last p of Normal n \<Rightarrow> Some n | _ \<Rightarrow> None))"

text \<open>\<^verbatim>\<open>to_str()\<close>: whether every name is UTF-8.\<close>

definition path_is_str :: "pathbuf \<Rightarrow> bool" where
  "path_is_str p = list_all (\<lambda>c. case c of Normal n \<Rightarrow> utf8_valid n | _ \<Rightarrow> True) p"

lemma piece_name [simp]: "safe_seg s \<Longrightarrow> piece s = [Normal s]"
  by (auto simp: piece_def safe_seg_def good_seg_def)

lemma piece_empty [simp]: "piece [] = []"
  by (simp add: piece_def)

section \<open>Calls of the operating system\<close>

text \<open>The times of change in whole seconds, not before 1970.\<close>

record os_meta =
  om_dir :: bool
  om_file :: bool
  om_symlink :: bool
  om_len :: nat
  om_modified :: "io_error + systime"
  om_accessed :: "io_error + systime"
  om_created :: "io_error + systime"
  om_ctime :: nat
  om_dev :: nat
  om_ino :: nat
  om_mode :: nat

record os_flags =
  of_read :: bool
  of_write :: bool
  of_append :: bool
  of_truncate :: bool
  of_create :: bool
  of_create_new :: bool
  of_mode :: nat
  of_nofollow :: bool

text \<open>\<open>'o\<close> is the state of the host, \<open>'f\<close> an open file.  A directory is read as the list of what its
  iterator yields.  \<open>os_reflink\<close> is \<^verbatim>\<open>reflink_or_copy\<close>.\<close>

record ('o, 'f) os_ops =
  os_canonicalize :: "pathbuf \<Rightarrow> ('o, io_error, pathbuf) act"
  os_metadata :: "pathbuf \<Rightarrow> ('o, io_error, os_meta) act"
  os_symlink_metadata :: "pathbuf \<Rightarrow> ('o, io_error, os_meta) act"
  os_read_dir :: "pathbuf \<Rightarrow> ('o, io_error, (io_error + bytes) list) act"
  os_open :: "pathbuf \<Rightarrow> os_flags \<Rightarrow> ('o, io_error, 'f) act"
  os_create_dir :: "pathbuf \<Rightarrow> nat \<Rightarrow> ('o, io_error, unit) act"
  os_remove_dir :: "pathbuf \<Rightarrow> ('o, io_error, unit) act"
  os_remove_file :: "pathbuf \<Rightarrow> ('o, io_error, unit) act"
  os_rename :: "pathbuf \<Rightarrow> pathbuf \<Rightarrow> ('o, io_error, unit) act"
  os_reflink :: "pathbuf \<Rightarrow> pathbuf \<Rightarrow> ('o, io_error, unit) act"
  fd_metadata :: "'f \<Rightarrow> ('o, io_error, os_meta) act"
  fd_write_all :: "'f \<Rightarrow> bytes \<Rightarrow> ('o, io_error, unit) act"
  fd_write :: "'f \<Rightarrow> bytes \<Rightarrow> ('o, io_error, nat) act"
  fd_read :: "'f \<Rightarrow> nat \<Rightarrow> ('o, io_error, bytes) act"
  fd_seek :: "'f \<Rightarrow> seek_from \<Rightarrow> ('o, io_error, nat) act"
  fd_flush :: "'f \<Rightarrow> ('o, io_error, unit) act"
  fd_set_modified :: "'f \<Rightarrow> systime \<Rightarrow> ('o, io_error, unit) act"
  os_now :: "'o \<Rightarrow> systime"

text \<open>The cache of the \<^verbatim>\<open>lru\<close> crate.\<close>

record ('c, 'v) lru_ops =
  lru_peek :: "pathbuf \<Rightarrow> 'c \<Rightarrow> 'v option"
  lru_get :: "pathbuf \<Rightarrow> 'c \<Rightarrow> 'v option \<times> 'c"
  lru_put :: "pathbuf \<Rightarrow> 'v \<Rightarrow> 'c \<Rightarrow> 'c"
  lru_pop :: "pathbuf \<Rightarrow> 'c \<Rightarrow> 'c"
  lru_peek_lru :: "'c \<Rightarrow> (pathbuf \<times> 'v) option"
  lru_pop_lru :: "'c \<Rightarrow> (pathbuf \<times> 'v) option \<times> 'c"

text \<open>What its documentation says of it: a list of at most \<open>n\<close> entries, the most recently used first.\<close>

definition lru_spec :: "('c, 'v) lru_ops \<Rightarrow> ('c \<Rightarrow> (pathbuf \<times> 'v) list) \<Rightarrow> nat \<Rightarrow> bool" where
  "lru_spec lru items n \<longleftrightarrow>
     (\<forall>k c. lru_peek lru k c = map_of (items c) k) \<and>
     (\<forall>k c. fst (lru_get lru k c) = map_of (items c) k) \<and>
     (\<forall>k c. items (snd (lru_get lru k c)) =
        (case map_of (items c) k of Some v \<Rightarrow> (k, v) # AList.delete k (items c) | None \<Rightarrow> items c)) \<and>
     (\<forall>k v c. items (lru_put lru k v c) = take n ((k, v) # AList.delete k (items c))) \<and>
     (\<forall>k c. items (lru_pop lru k c) = AList.delete k (items c)) \<and>
     (\<forall>c. lru_peek_lru lru c = (if items c = [] then None else Some (last (items c)))) \<and>
     (\<forall>c. fst (lru_pop_lru lru c) = (if items c = [] then None else Some (last (items c)))) \<and>
     (\<forall>c. items (snd (lru_pop_lru lru c)) = butlast (items c))"

end
