(* ===== verification/Local_Host.thy ===== *)
theory Local_Host
  imports Dav_Os
begin

text \<open>
  The state of the local filesystem, \<^verbatim>\<open>src/localfs.rs\<close>, how a request path becomes a path of the host, and the
  two caches: names seen in directories, \<^verbatim>\<open>src/localfs_macos.rs\<close>, and paths found whatever their case,
  \<^verbatim>\<open>src/localfs_windows.rs\<close>.  The hook \<^verbatim>\<open>fs_access_guard\<close> is not set.  The directory counter does not
  reach the end of its 64 bits.
\<close>

section \<open>State and configuration\<close>

record du_entry =
  du_time :: systime
  du_modtime :: systime
  du_id :: nat

record ci_entry =
  ci_path :: pathbuf
  ci_time :: nat

text \<open>\<open>lo_canon\<close> is the cell \<^verbatim>\<open>canonical_basedir\<close>, \<open>lo_du\<close> and \<open>lo_ci\<close> the two static caches, \<open>lo_dir_id\<close>
  the counter \<^verbatim>\<open>DIR_ID\<close>.\<close>

record ('o, 'd, 'c) local_state =
  lo_os :: 'o
  lo_canon :: "pathbuf option"
  lo_du :: 'd
  lo_dir_id :: nat
  lo_ci :: 'c

record local_cfg =
  lc_basedir :: pathbuf
  lc_public :: bool
  lc_case_insensitive :: bool
  lc_macos :: bool
  lc_is_file :: bool

text \<open>What is outside the crate: the system, Unicode lower case, the caches.\<close>

record ('o, 'f, 'd, 'c) host =
  ho_os :: "('o, 'f) os_ops"
  ho_lower :: "bytes \<Rightarrow> bytes"
  ho_du :: "('d, du_entry) lru_ops"
  ho_ci :: "('c, ci_entry) lru_ops"

definition on_os :: "('o, 'e, 'a) act \<Rightarrow> (('o, 'd, 'c) local_state, 'e, 'a) act" where
  "on_os a = (\<lambda>s. case a (lo_os s) of None \<Rightarrow> None | Some (r, o') \<Rightarrow> Some (r, s\<lparr>lo_os := o'\<rparr>))"

text \<open>\<^verbatim>\<open>?\<close> and \<^verbatim>\<open>map_err\<close> after a call of the system.\<close>

definition sys :: "('o, io_error, 'a) act \<Rightarrow> (('o, 'd, 'c) local_state, fs_error, 'a) act" where
  "sys a = map_err ioerror_to_fserror (on_os a)"

definition of_sum :: "'e + 'a \<Rightarrow> ('s, 'e, 'a) act" where
  "of_sum r = (case r of Inl e \<Rightarrow> fail e | Inr x \<Rightarrow> ok x)"

definition secs :: "systime \<Rightarrow> nat" where
  "secs t = nat t div 1000000000"

section \<open>Joining paths\<close>

definition path_is_within :: "pathbuf \<Rightarrow> pathbuf \<Rightarrow> bool" where
  "path_is_within base p \<longleftrightarrow> prefix base p"

definition push_normal_component :: "pathbuf \<Rightarrow> bytes \<Rightarrow> fs_error + pathbuf" where
  "push_normal_component p name =
     (case components name of [Normal n] \<Rightarrow> Inr (path_push n p) | _ \<Rightarrow> Inl Forbidden)"

fun join_components :: "pathbuf \<Rightarrow> component list \<Rightarrow> fs_error + pathbuf" where
  "join_components out [] = Inr out"
| "join_components out (Normal seg # cs) =
     (case push_normal_component out seg of Inl e \<Rightarrow> Inl e | Inr out' \<Rightarrow> join_components out' cs)"
| "join_components out (_ # cs) = Inl Forbidden"

definition join_rel_path :: "pathbuf \<Rightarrow> bytes \<Rightarrow> fs_error + pathbuf" where
  "join_rel_path basedir rel = join_components basedir (components rel)"

definition join_confined :: "pathbuf \<Rightarrow> dav_path \<Rightarrow> fs_error + pathbuf" where
  "join_confined basedir p = join_rel_path basedir (as_rel_ospath p)"

section \<open>Names seen in directories\<close>

definition DU_CACHE_MAX_AGE :: nat where "DU_CACHE_MAX_AGE = 60"

text \<open>Whether the cache is sure that a path with a name like \<^verbatim>\<open>._x\<close> does not exist.  A directory is stored
  and looked at under its path with a dot added: the same path as a key, and for the system that of a
  directory only.\<close>

definition du_negative :: "('o, 'f, 'd, 'c) host \<Rightarrow> pathbuf \<Rightarrow> (('o, 'd, 'c) local_state, 'e, bool) act" where
  "du_negative h path = (\<lambda>s.
     case os_parent path of
       None \<Rightarrow> ok False s
     | Some parent \<Rightarrow>
         let dir = path_push ''.'' parent
         in (case lru_peek (ho_du h) dir (lo_du s) of
               None \<Rightarrow> ok False s
             | Some t \<Rightarrow>
                 bind (attempt (on_os (os_metadata (ho_os h) dir))) (\<lambda>r s1.
                   if (case r of Inr m \<Rightarrow> om_dir m \<and> om_modified m = Inr (du_modtime t) | Inl (_ :: io_error) \<Rightarrow> False)
                   then ok (case lru_peek (ho_du h) path (lo_du s1) of
                              Some e \<Rightarrow> du_id e \<noteq> du_id t | None \<Rightarrow> True) s1
                   else ok False (s1\<lparr>lo_du := lru_pop (ho_du h) dir (lo_du s1)\<rparr>)) s))"

text \<open>The names of a directory as they are listed, and their storing at the end.\<close>

definition du_add :: "bytes \<Rightarrow> bytes list \<Rightarrow> bytes list" where
  "du_add filename entries =
     (case os_file_name (components filename) of
        Some f \<Rightarrow> if starts_with f ''._'' then entries @ [filename] else entries
      | None \<Rightarrow> entries)"

definition du_finish :: "('o, 'f, 'd, 'c) host \<Rightarrow> pathbuf \<Rightarrow> bytes list \<Rightarrow> (('o, 'd, 'c) local_state, 'e, unit) act" where
  "du_finish h dir entries =
     bind (attempt (on_os (os_metadata (ho_os h) dir))) (\<lambda>r. case r of
         Inl (_ :: io_error) \<Rightarrow> ok ()
       | Inr m \<Rightarrow> (case om_modified m of
           Inl _ \<Rightarrow> ok ()
         | Inr modtime \<Rightarrow> (\<lambda>s.
             let e = \<lparr>du_time = os_now (ho_os h) (lo_os s), du_modtime = modtime, du_id = lo_dir_id s\<rparr>;
                 c = lru_put (ho_du h) (path_push ''.'' dir) e (lo_du s)
             in ok () (s\<lparr>lo_dir_id := Suc (lo_dir_id s),
                         lo_du := fold (\<lambda>n. lru_put (ho_du h) (path_push n dir) e) entries c\<rparr>))))"

text \<open>One round of housekeeping; the cache holds \<open>n\<close> entries at most.\<close>

fun du_purge :: "nat \<Rightarrow> ('d, du_entry) lru_ops \<Rightarrow> systime \<Rightarrow> 'd \<Rightarrow> 'd" where
  "du_purge 0 lru now c = c"
| "du_purge (Suc n) lru now c =
     (case lru_peek_lru lru c of
        None \<Rightarrow> c
      | Some (_, e) \<Rightarrow>
          if now < du_time e then c
          else if secs (now - du_time e) \<le> DU_CACHE_MAX_AGE then c
          else (case lru_pop_lru lru c of (None, c') \<Rightarrow> c' | (Some _, c') \<Rightarrow> du_purge n lru now c'))"

text \<open>The files that the Finder is told to see, and those it must not.\<close>

definition empty_meta_data :: dav_meta where
  "empty_meta_data =
     \<lparr>md_len = 0, md_modified = Inr (959652000 * 1000000000), md_is_dir = False, md_is_file = default_is_file False, md_is_symlink = False,
      md_is_calendar = (\<lambda>_. False), md_is_addressbook = (\<lambda>_. False),
      md_etag = default_etag 0 (default_is_file False) (Inr (959652000 * 1000000000)), md_accessed = Inl NotImplemented,
      md_created = Inr (959652000 * 1000000000), md_status_changed = Inl NotImplemented,
      md_executable = Inl NotImplemented\<rparr>"

definition is_virtual :: "local_cfg \<Rightarrow> dav_path \<Rightarrow> dav_meta option" where
  "is_virtual cfg p =
     (if \<not> lc_macos cfg then None
      else if as_bytes p = ''/.metadata_never_index'' \<or> as_bytes p = ''/.ql_disablethumbnails'' then Some empty_meta_data
      else None)"

definition is_forbidden :: "local_cfg \<Rightarrow> dav_path \<Rightarrow> bool" where
  "is_forbidden cfg p =
     (if \<not> lc_macos cfg then False
      else if as_bytes p = ''/.metadata_never_index'' then True
      else if as_bytes p = ''/.ql_disablethumbnails'' then True
      else file_name_bytes p = ''.localized'')"

definition is_notfound :: "('o, 'f, 'd, 'c) host \<Rightarrow> local_cfg \<Rightarrow> pathbuf \<Rightarrow> (('o, 'd, 'c) local_state, 'e, bool) act" where
  "is_notfound h cfg path =
     (if \<not> lc_macos cfg then ok False
      else (case os_file_name path of
          None \<Rightarrow> ok False
        | Some name \<Rightarrow>
            if name = ''.localized'' then ok True
            else if starts_with name ''._'' then du_negative h path else ok False))"

section \<open>Paths whatever their case\<close>

definition CACHE_MAX_AGE :: nat where "CACHE_MAX_AGE = 15 * 60"

definition pathbuf_to_lowercase :: "(bytes \<Rightarrow> bytes) \<Rightarrow> pathbuf \<Rightarrow> pathbuf" where
  "pathbuf_to_lowercase low p =
     (if path_is_str p then map (\<lambda>c. case c of Normal n \<Rightarrow> Normal (low n) | _ \<Rightarrow> c) p else p)"

definition ci_insert :: "('o, 'f, 'd, 'c) host \<Rightarrow> pathbuf \<Rightarrow> (('o, 'd, 'c) local_state, 'e, unit) act" where
  "ci_insert h p = (\<lambda>s.
     let now = os_now (ho_os h) (lo_os s)
     in if now < 0 then ok () s
        else ok () (s\<lparr>lo_ci := lru_put (ho_ci h) (pathbuf_to_lowercase (ho_lower h) p)
          \<lparr>ci_path = p, ci_time = secs now\<rparr> (lo_ci s)\<rparr>))"

definition ci_get :: "('o, 'f, 'd, 'c) host \<Rightarrow> pathbuf \<Rightarrow> (('o, 'd, 'c) local_state, 'e, pathbuf option) act" where
  "ci_get h p = (\<lambda>s.
     let key = pathbuf_to_lowercase (ho_lower h) p
     in (case lru_get (ho_ci h) key (lo_ci s) of
           (None, c) \<Rightarrow> ok None (s\<lparr>lo_ci := c\<rparr>)
         | (Some e, c) \<Rightarrow>
             bind (attempt (on_os (os_metadata (ho_os h) (ci_path e)))) (\<lambda>r s1. case r of
                 Inl (_ :: io_error) \<Rightarrow> ok None (s1\<lparr>lo_ci := lru_pop (ho_ci h) key (lo_ci s1)\<rparr>)
               | Inr _ \<Rightarrow> ok (Some (ci_path e)) s1) (s\<lparr>lo_ci := c\<rparr>)))"

fun ci_purge :: "nat \<Rightarrow> ('c, ci_entry) lru_ops \<Rightarrow> nat \<Rightarrow> 'c \<Rightarrow> 'c" where
  "ci_purge 0 lru now c = c"
| "ci_purge (Suc n) lru now c =
     (case lru_peek_lru lru c of
        None \<Rightarrow> c
      | Some (_, e) \<Rightarrow>
          if now < ci_time e + CACHE_MAX_AGE then c
          else (case lru_pop_lru lru c of (None, c') \<Rightarrow> c' | (Some _, c') \<Rightarrow> ci_purge n lru now c'))"

fun find_name :: "(bytes \<Rightarrow> bytes) \<Rightarrow> pathbuf \<Rightarrow> bytes \<Rightarrow> (io_error + bytes) list \<Rightarrow> pathbuf option" where
  "find_name low path filename [] = None"
| "find_name low path filename (Inl _ # es) = find_name low path filename es"
| "find_name low path filename (Inr name # es) =
     (if utf8_valid name \<and> low name = filename then
        (case push_normal_component path name of Inr p \<Rightarrow> Some p | Inl _ \<Rightarrow> find_name low path filename es)
      else find_name low path filename es)"

text \<open>One name in a directory; the flag says that the search has ended without it.\<close>

definition ci_lookup :: "('o, 'f, 'd, 'c) host \<Rightarrow> pathbuf \<Rightarrow> bytes \<Rightarrow> bool \<Rightarrow>
    (('o, 'd, 'c) local_state, fs_error, pathbuf \<times> bool) act" where
  "ci_lookup h path seg no_init_check =
     bind (of_sum (push_normal_component path seg)) (\<lambda>path2.
     bind (if no_init_check then ok None
           else bind (attempt (on_os (os_metadata (ho_os h) path2))) (\<lambda>r. ok (case r of
                    Inr _ \<Rightarrow> Some False
                  | Inl e \<Rightarrow> if io_kind e \<noteq> KNotFound then Some True else None))) (\<lambda>early.
       case early of
         Some stop \<Rightarrow> ok (path2, stop)
       | None \<Rightarrow>
           if \<not> utf8_valid seg then ok (path2, True)
           else bind (attempt (on_os (os_read_dir (ho_os h) path))) (\<lambda>r. case r of
               Inl (_ :: io_error) \<Rightarrow> ok (path2, True)
             | Inr es \<Rightarrow> (case find_name (ho_lower h) path (ho_lower h seg) es of
                 Some p \<Rightarrow> ok (p, False) | None \<Rightarrow> ok (path2, True)))))"

fun resolve_segs :: "('o, 'f, 'd, 'c) host \<Rightarrow> bytes list \<Rightarrow> pathbuf \<Rightarrow> bool \<Rightarrow>
    (('o, 'd, 'c) local_state, fs_error, pathbuf \<times> bool) act" where
  "resolve_segs h [] newpath stop = ok (newpath, stop)"
| "resolve_segs h (seg # segs) newpath stop =
     (if stop then bind (of_sum (push_normal_component newpath seg)) (\<lambda>p. resolve_segs h segs p stop)
      else bind (if segs = [] then ci_insert h newpath else ok ()) (\<lambda>_.
           bind (ci_lookup h newpath seg False) (\<lambda>(p, st). resolve_segs h segs p st)))"

fun normal_names :: "component list \<Rightarrow> fs_error + bytes list" where
  "normal_names [] = Inr []"
| "normal_names (Normal s # cs) = (case normal_names cs of Inl e \<Rightarrow> Inl e | Inr ss \<Rightarrow> Inr (s # ss))"
| "normal_names (_ # cs) = Inl Forbidden"

text \<open>The parent of what is sought, if the cache or the system knows it.\<close>

definition known_parent :: "('o, 'f, 'd, 'c) host \<Rightarrow> bytes list \<Rightarrow> pathbuf \<Rightarrow>
    (('o, 'd, 'c) local_state, fs_error, pathbuf \<times> bool) act" where
  "known_parent h segs parent =
     (if 1 < length segs then
        bind (ci_get h parent) (\<lambda>r. case r of
            Some p \<Rightarrow> ok (p, True)
          | None \<Rightarrow> bind (attempt (on_os (os_metadata (ho_os h) parent))) (\<lambda>r. case r of
                Inl (_ :: io_error) \<Rightarrow> ok (parent, False)
              | Inr _ \<Rightarrow> bind (ci_insert h parent) (\<lambda>_. ok (parent, True))))
      else ok (parent, True))"

definition ci_resolve :: "('o, 'f, 'd, 'c) host \<Rightarrow> pathbuf \<Rightarrow> dav_path \<Rightarrow> (('o, 'd, 'c) local_state, fs_error, pathbuf) act" where
  "ci_resolve h base p =
     bind (of_sum (join_confined base p)) (\<lambda>fullpath.
       if \<not> has_root fullpath \<or> \<not> path_is_str fullpath then ok fullpath
       else (case os_parent fullpath of
           None \<Rightarrow> ok fullpath
         | Some parent \<Rightarrow>
             bind (ci_get h fullpath) (\<lambda>r. case r of
                 Some path \<Rightarrow> ok path
               | None \<Rightarrow> bind (attempt (on_os (os_metadata (ho_os h) fullpath))) (\<lambda>r. case r of
                   Inr _ \<Rightarrow> ok fullpath
                 | Inl (_ :: io_error) \<Rightarrow>
                     bind (of_sum (normal_names (components (as_rel_ospath p)))) (\<lambda>segs.
                       if segs = [] then ok fullpath
                       else bind (known_parent h segs parent) (\<lambda>(parent, parent_exists).
                         bind (if parent_exists then ci_lookup h parent (last segs) True
                               else resolve_segs h segs base False) (\<lambda>(newpath, stop).
                         bind (if stop then ok () else ci_insert h newpath) (\<lambda>_. ok newpath))))))))"

end
