(* ===== verification/Local_Fs.thy ===== *)
theory Local_Fs
  imports Local_Host
begin

text \<open>
  The local filesystem, \<^verbatim>\<open>src/localfs.rs\<close>, on a Unix system without a creation time that can be set.
  Every operation maps the request path to a path of the host, requires what it resolves to to lie in the
  canonical base directory, and makes one or two calls of the system.  The marker files that tell whether
  a directory is a calendar are looked for when its metadata is made; the code looks when it is first
  asked.  A directory stream is read to its end at once, and the
  time of change of a file is not before 1970.
\<close>

section \<open>Confinement\<close>

definition fspath :: "('o, 'f, 'd, 'c) host \<Rightarrow> local_cfg \<Rightarrow> dav_path \<Rightarrow> (('o, 'd, 'c) local_state, fs_error, pathbuf) act" where
  "fspath h cfg p =
     (if lc_is_file cfg then ok (lc_basedir cfg)
      else if lc_case_insensitive cfg then ci_resolve h (lc_basedir cfg) p
      else of_sum (join_confined (lc_basedir cfg) p))"

definition init_canonical_basedir :: "('o, 'f) os_ops \<Rightarrow> pathbuf \<Rightarrow> 'o \<Rightarrow> (pathbuf option \<times> 'o) option" where
  "init_canonical_basedir os basedir = (\<lambda>o1.
     case os_canonicalize os basedir o1 of
       None \<Rightarrow> None
     | Some (Inr c, o2) \<Rightarrow> Some (Some c, o2)
     | Some (Inl _, o2) \<Rightarrow> Some (None, o2))"

definition canonical_basedir :: "('o, 'f, 'd, 'c) host \<Rightarrow> local_cfg \<Rightarrow> (('o, 'd, 'c) local_state, 'e, pathbuf) act" where
  "canonical_basedir h cfg = (\<lambda>s.
     case lo_canon s of
       Some c \<Rightarrow> ok c s
     | None \<Rightarrow>
         bind (attempt (on_os (os_canonicalize (ho_os h) (lc_basedir cfg)))) (\<lambda>r s1.
           let c = (case r of Inr c \<Rightarrow> c | Inl (_ :: io_error) \<Rightarrow> lc_basedir cfg)
           in ok c (s1\<lparr>lo_canon := Some c\<rparr>)) s)"

definition require_within :: "('o, 'f, 'd, 'c) host \<Rightarrow> local_cfg \<Rightarrow> pathbuf \<Rightarrow> (('o, 'd, 'c) local_state, fs_error, unit) act" where
  "require_within h cfg resolved =
     bind (canonical_basedir h cfg) (\<lambda>base. if path_is_within base resolved then ok () else fail Forbidden)"

definition confine_follow :: "('o, 'f, 'd, 'c) host \<Rightarrow> local_cfg \<Rightarrow> pathbuf \<Rightarrow> (('o, 'd, 'c) local_state, fs_error, pathbuf) act" where
  "confine_follow h cfg path =
     bind (sys (os_canonicalize (ho_os h) path)) (\<lambda>resolved.
     bind (require_within h cfg resolved) (\<lambda>_. ok resolved))"

definition confine_leaf :: "('o, 'f, 'd, 'c) host \<Rightarrow> local_cfg \<Rightarrow> pathbuf \<Rightarrow> (('o, 'd, 'c) local_state, fs_error, pathbuf) act" where
  "confine_leaf h cfg path =
     (if lc_is_file cfg \<or> path = lc_basedir cfg then
        bind (sys (os_canonicalize (ho_os h) (lc_basedir cfg))) (\<lambda>resolved.
        bind (require_within h cfg resolved) (\<lambda>_. ok resolved))
      else (case os_file_name path of
          None \<Rightarrow> fail Forbidden
        | Some filename \<Rightarrow> (case os_parent path of
            None \<Rightarrow> fail Forbidden
          | Some parent \<Rightarrow>
              bind (sys (os_canonicalize (ho_os h) parent)) (\<lambda>parent_canon.
              bind (require_within h cfg parent_canon) (\<lambda>_.
              of_sum (push_normal_component parent_canon filename))))))"

definition reject_symlink :: "('o, 'f, 'd, 'c) host \<Rightarrow> pathbuf \<Rightarrow> (('o, 'd, 'c) local_state, fs_error, unit) act" where
  "reject_symlink h path =
     bind (attempt (on_os (os_symlink_metadata (ho_os h) path))) (\<lambda>r. case r of
         Inr m \<Rightarrow> if om_symlink m then fail Forbidden else ok ()
       | Inl e \<Rightarrow> if io_kind e = KNotFound then ok () else fail (ioerror_to_fserror e))"

section \<open>Metadata\<close>

definition has_sidecar :: "('o, 'f, 'd, 'c) host \<Rightarrow> pathbuf option \<Rightarrow> bytes \<Rightarrow> (('o, 'd, 'c) local_state, fs_error, bool) act" where
  "has_sidecar h dir_path sidecar =
     (case dir_path of
        None \<Rightarrow> ok False
      | Some dir \<Rightarrow> bind (attempt (on_os (os_metadata (ho_os h) (path_push sidecar dir)))) (\<lambda>r. ok (case r of
            Inr _ \<Rightarrow> True | Inl (_ :: io_error) \<Rightarrow> False)))"

definition local_etag :: "os_meta \<Rightarrow> bytes option" where
  "local_etag m =
     (case om_modified m of
        Inl _ \<Rightarrow> None
      | Inr t \<Rightarrow>
          if t < 0 then None
          else (let us = (nat t div 1000000000) * 1000000 + (nat t mod 1000000000) div 1000
                in Some (if om_file m then show_hex (om_ino m) @ ''-'' @ show_hex (om_len m) @ ''-'' @ show_hex us
                         else show_hex (om_ino m) @ ''-'' @ show_hex us)))"

definition local_executable :: "os_meta \<Rightarrow> fs_error + bool" where
  "local_executable m = (if om_file m then Inr (om_mode m div 64 mod 2 = 1) else Inl NotImplemented)"

text \<open>Where the marker files of a directory are looked for; an open file has no path.\<close>

definition sidecar_dir :: "pathbuf option \<Rightarrow> os_meta \<Rightarrow> pathbuf option" where
  "sidecar_dir path m = (if om_dir m then path else None)"

definition local_meta :: "('o, 'f, 'd, 'c) host \<Rightarrow> pathbuf option \<Rightarrow> os_meta \<Rightarrow> (('o, 'd, 'c) local_state, fs_error, dav_meta) act" where
  "local_meta h path m =
     (let dir_path = sidecar_dir path m
      in bind (has_sidecar h dir_path ''.dav-calendar'') (\<lambda>cal.
         bind (has_sidecar h dir_path ''.dav-addressbook'') (\<lambda>card.
           ok \<lparr>md_len = om_len m, md_modified = map_sum ioerror_to_fserror id (om_modified m), md_is_dir = om_dir m, md_is_file = om_file m,
               md_is_symlink = om_symlink m, md_is_calendar = (\<lambda>_. cal), md_is_addressbook = (\<lambda>_. card),
               md_etag = local_etag m, md_accessed = map_sum ioerror_to_fserror id (om_accessed m),
               md_created = map_sum ioerror_to_fserror id (om_created m),
               md_status_changed = Inr (int (om_ctime m) * 1000000000), md_executable = local_executable m\<rparr>)))"

definition localfs_metadata :: "('o, 'f, 'd, 'c) host \<Rightarrow> local_cfg \<Rightarrow> dav_path \<Rightarrow> (('o, 'd, 'c) local_state, fs_error, dav_meta) act" where
  "localfs_metadata h cfg p =
     (case is_virtual cfg p of
        Some m \<Rightarrow> ok m
      | None \<Rightarrow>
          bind (fspath h cfg p) (\<lambda>path.
          bind (is_notfound h cfg path) (\<lambda>nf.
            if nf then fail NotFound
            else bind (confine_follow h cfg path) (\<lambda>path.
                 bind (sys (os_metadata (ho_os h) path)) (local_meta h (Some path))))))"

definition localfs_symlink_metadata :: "('o, 'f, 'd, 'c) host \<Rightarrow> local_cfg \<Rightarrow> dav_path \<Rightarrow> (('o, 'd, 'c) local_state, fs_error, dav_meta) act" where
  "localfs_symlink_metadata h cfg p =
     (case is_virtual cfg p of
        Some m \<Rightarrow> ok m
      | None \<Rightarrow>
          bind (fspath h cfg p) (\<lambda>path.
          bind (is_notfound h cfg path) (\<lambda>nf.
            if nf then fail NotFound
            else bind (confine_leaf h cfg path) (\<lambda>path.
                 bind (sys (os_symlink_metadata (ho_os h) path)) (local_meta h (Some path))))))"

section \<open>Directories\<close>

text \<open>An entry: its name, its path, and its metadata if it was read with the listing.\<close>

type_synonym local_dirent = "bytes \<times> pathbuf \<times> (io_error + os_meta) option"

definition BATCH :: nat where "BATCH = 256"

definition entry_meta :: "('o, 'f, 'd, 'c) host \<Rightarrow> read_dir_meta \<Rightarrow> pathbuf \<Rightarrow> bytes \<Rightarrow>
    (('o, 'd, 'c) local_state, io_error, (io_error + os_meta) option) act" where
  "entry_meta h do_meta dir name =
     (case do_meta of
        RdData \<Rightarrow> bind (attempt (on_os (os_metadata (ho_os h) (path_push name dir)))) (\<lambda>r. ok (Some r))
      | RdDataSymlink \<Rightarrow> bind (attempt (on_os (os_symlink_metadata (ho_os h) (path_push name dir)))) (\<lambda>r. ok (Some r))
      | RdNone \<Rightarrow> ok None)"

text \<open>Up to \<open>n\<close> entries, and what the iterator has left.\<close>

fun read_batch :: "nat \<Rightarrow> ('o, 'f, 'd, 'c) host \<Rightarrow> read_dir_meta \<Rightarrow> pathbuf \<Rightarrow> (io_error + bytes) list \<Rightarrow>
    (('o, 'd, 'c) local_state, io_error, (io_error + local_dirent) list \<times> (io_error + bytes) list) act" where
  "read_batch 0 h do_meta dir es = ok ([], es)"
| "read_batch (Suc n) h do_meta dir [] = ok ([], [])"
| "read_batch (Suc n) h do_meta dir (Inl e # es) = ok ([Inl e], es)"
| "read_batch (Suc n) h do_meta dir (Inr name # es) =
     bind (entry_meta h do_meta dir name) (\<lambda>m.
     bind (read_batch n h do_meta dir es) (\<lambda>(buffer, rest).
       ok (Inr (name, path_push name dir, m) # buffer, rest)))"

definition add_names :: "(io_error + local_dirent) list \<Rightarrow> bytes list \<Rightarrow> bytes list" where
  "add_names buffer names = fold (\<lambda>e ns. case e of Inr (name, _) \<Rightarrow> du_add name ns | Inl _ \<Rightarrow> ns) buffer names"

text \<open>The stream: batches until one is empty, which ends the listing and stores the names, or holds an
  error, which ends it without.  Every batch but the last takes an entry, so \<open>n\<close> batches are enough for
  \<open>n - 1\<close> entries.\<close>

fun read_stream :: "nat \<Rightarrow> ('o, 'f, 'd, 'c) host \<Rightarrow> local_cfg \<Rightarrow> read_dir_meta \<Rightarrow> pathbuf \<Rightarrow> (io_error + bytes) list \<Rightarrow> bytes list \<Rightarrow>
    (('o, 'd, 'c) local_state, io_error, (io_error + local_dirent) list) act" where
  "read_stream 0 h cfg do_meta dir es names = diverge"
| "read_stream (Suc n) h cfg do_meta dir es names =
     bind (read_batch BATCH h do_meta dir es) (\<lambda>(buffer, rest).
       let names1 = add_names buffer names
       in if buffer = [] then bind (if lc_macos cfg then du_finish h dir names1 else ok ()) (\<lambda>_. ok [])
          else if (case last buffer of Inl _ \<Rightarrow> True | Inr _ \<Rightarrow> False) then ok buffer
          else bind (read_stream n h cfg do_meta dir rest names1) (\<lambda>more. ok (buffer @ more)))"

datatype is_what = IsFile | IsDir | IsSymlink

definition has_type :: "is_what \<Rightarrow> os_meta \<Rightarrow> bool" where
  "has_type what m = (case what of IsFile \<Rightarrow> om_file m | IsDir \<Rightarrow> om_dir m | IsSymlink \<Rightarrow> om_symlink m)"

definition entry_is_a :: "('o, 'f, 'd, 'c) host \<Rightarrow> is_what \<Rightarrow> local_dirent \<Rightarrow> (('o, 'd, 'c) local_state, fs_error, bool) act" where
  "entry_is_a h what de =
     (case snd (snd de) of
        Some (Inr m) \<Rightarrow> ok (has_type what m)
      | Some (Inl e) \<Rightarrow> fail (ioerror_to_fserror e)
      | None \<Rightarrow> bind (sys (os_symlink_metadata (ho_os h) (fst (snd de)))) (\<lambda>m. ok (has_type what m)))"

definition entry_metadata :: "('o, 'f, 'd, 'c) host \<Rightarrow> local_dirent \<Rightarrow> (('o, 'd, 'c) local_state, fs_error, dav_meta) act" where
  "entry_metadata h de =
     (case snd (snd de) of
        Some (Inr m) \<Rightarrow> local_meta h (Some (fst (snd de))) m
      | Some (Inl e) \<Rightarrow> fail (ioerror_to_fserror e)
      | None \<Rightarrow> bind (sys (os_symlink_metadata (ho_os h) (fst (snd de)))) (local_meta h (Some (fst (snd de)))))"

definition local_entry :: "('o, 'f, 'd, 'c) host \<Rightarrow> local_dirent \<Rightarrow> ('o, 'd, 'c) local_state dirent" where
  "local_entry h de =
     \<lparr>de_name = fst de, de_metadata = entry_metadata h de, de_is_dir = entry_is_a h IsDir de,
      de_is_symlink = entry_is_a h IsSymlink de\<rparr>"

definition localfs_read_dir :: "('o, 'f, 'd, 'c) host \<Rightarrow> local_cfg \<Rightarrow> dav_path \<Rightarrow> read_dir_meta \<Rightarrow>
    (('o, 'd, 'c) local_state, fs_error, (fs_error + ('o, 'd, 'c) local_state dirent) list) act" where
  "localfs_read_dir h cfg p do_meta =
     bind (fspath h cfg p) (\<lambda>path.
     bind (confine_follow h cfg path) (\<lambda>path.
     bind (sys (os_read_dir (ho_os h) path)) (\<lambda>iterator.
     bind (map_err ioerror_to_fserror (read_stream (length iterator + 1) h cfg do_meta path iterator [])) (\<lambda>items.
       ok (map (map_sum ioerror_to_fserror (local_entry h)) items)))))"

section \<open>Opening and changing\<close>

definition open_flags :: "open_options \<Rightarrow> nat \<Rightarrow> bool \<Rightarrow> os_flags" where
  "open_flags oo mode mutating =
     \<lparr>of_read = oo_read oo, of_write = oo_write oo, of_append = oo_append oo, of_truncate = oo_truncate oo,
      of_create = oo_create oo, of_create_new = oo_create_new oo, of_mode = mode, of_nofollow = mutating\<rparr>"

text \<open>An open file, and the buffer it reads into.\<close>

record 'f local_file =
  lf_file :: 'f
  lf_buf :: bytes

definition localfs_open :: "('o, 'f, 'd, 'c) host \<Rightarrow> local_cfg \<Rightarrow> dav_path \<Rightarrow> open_options \<Rightarrow>
    (('o, 'd, 'c) local_state, fs_error, 'f local_file) act" where
  "localfs_open h cfg p options =
     (if is_forbidden cfg p then fail Forbidden
      else (let mode = (if lc_public cfg then 438 else 384);
                mutating = (oo_write options \<or> oo_append options \<or> oo_truncate options \<or> oo_create options \<or> oo_create_new options)
            in bind (fspath h cfg p) (\<lambda>path.
               bind (if mutating then
                       bind (confine_leaf h cfg path) (\<lambda>path. bind (reject_symlink h path) (\<lambda>_. ok path))
                     else confine_follow h cfg path) (\<lambda>path.
               bind (sys (os_open (ho_os h) path (open_flags options mode mutating))) (\<lambda>file.
                 ok \<lparr>lf_file = file, lf_buf = []\<rparr>)))))"

definition localfs_create_dir :: "('o, 'f, 'd, 'c) host \<Rightarrow> local_cfg \<Rightarrow> dav_path \<Rightarrow> (('o, 'd, 'c) local_state, fs_error, unit) act" where
  "localfs_create_dir h cfg p =
     (if is_forbidden cfg p then fail Forbidden
      else (let mode = (if lc_public cfg then 511 else 448)
            in bind (fspath h cfg p) (\<lambda>path.
               bind (confine_leaf h cfg path) (\<lambda>path.
               bind (reject_symlink h path) (\<lambda>_.
                 sys (os_create_dir (ho_os h) path mode))))))"

definition sidecar_flags :: os_flags where
  "sidecar_flags = \<lparr>of_read = False, of_write = True, of_append = False, of_truncate = True, of_create = True,
     of_create_new = False, of_mode = 438, of_nofollow = True\<rparr>"

definition mark_sidecar :: "('o, 'f, 'd, 'c) host \<Rightarrow> local_cfg \<Rightarrow> dav_path \<Rightarrow> bytes \<Rightarrow> (('o, 'd, 'c) local_state, fs_error, unit) act" where
  "mark_sidecar h cfg p name =
     bind (fspath h cfg p) (\<lambda>path.
     bind (confine_leaf h cfg path) (\<lambda>path.
     bind (of_sum (push_normal_component path name)) (\<lambda>sidecar.
     bind (reject_symlink h sidecar) (\<lambda>_.
     bind (sys (os_open (ho_os h) sidecar sidecar_flags)) (\<lambda>_. ok ())))))"

definition localfs_mark_calendar :: "('o, 'f, 'd, 'c) host \<Rightarrow> local_cfg \<Rightarrow> dav_path \<Rightarrow> (('o, 'd, 'c) local_state, fs_error, unit) act" where
  "localfs_mark_calendar h cfg p = mark_sidecar h cfg p ''.dav-calendar''"

definition localfs_mark_addressbook :: "('o, 'f, 'd, 'c) host \<Rightarrow> local_cfg \<Rightarrow> dav_path \<Rightarrow> (('o, 'd, 'c) local_state, fs_error, unit) act" where
  "localfs_mark_addressbook h cfg p = mark_sidecar h cfg p ''.dav-addressbook''"

definition localfs_remove_dir :: "('o, 'f, 'd, 'c) host \<Rightarrow> local_cfg \<Rightarrow> dav_path \<Rightarrow> (('o, 'd, 'c) local_state, fs_error, unit) act" where
  "localfs_remove_dir h cfg p =
     bind (fspath h cfg p) (\<lambda>path.
     bind (confine_leaf h cfg path) (\<lambda>path. sys (os_remove_dir (ho_os h) path)))"

definition localfs_remove_file :: "('o, 'f, 'd, 'c) host \<Rightarrow> local_cfg \<Rightarrow> dav_path \<Rightarrow> (('o, 'd, 'c) local_state, fs_error, unit) act" where
  "localfs_remove_file h cfg p =
     (if is_forbidden cfg p then fail Forbidden
      else bind (fspath h cfg p) (\<lambda>path.
           bind (confine_leaf h cfg path) (\<lambda>path. sys (os_remove_file (ho_os h) path))))"

text \<open>A path that does not resolve names no resource.\<close>

definition resource_path :: "('o, 'f, 'd, 'c) host \<Rightarrow> local_cfg \<Rightarrow> pathbuf \<Rightarrow> (('o, 'd, 'c) local_state, fs_error, pathbuf option) act" where
  "resource_path h cfg path =
     bind (attempt (confine_follow h cfg path)) (\<lambda>r. case r of
         Inr q \<Rightarrow> ok (Some q)
       | Inl e \<Rightarrow> if e = NotFound then ok None else fail e)"

definition localfs_same_resource :: "('o, 'f, 'd, 'c) host \<Rightarrow> local_cfg \<Rightarrow> dav_path \<Rightarrow> dav_path \<Rightarrow> (('o, 'd, 'c) local_state, fs_error, bool) act" where
  "localfs_same_resource h cfg p q =
     bind (fspath h cfg p) (\<lambda>from.
     bind (fspath h cfg q) (\<lambda>to.
     bind (resource_path h cfg from) (\<lambda>r. case r of
         None \<Rightarrow> ok False
       | Some from \<Rightarrow> bind (resource_path h cfg to) (\<lambda>r. case r of
           None \<Rightarrow> ok False
         | Some to \<Rightarrow>
             if from = to then ok True
             else bind (sys (os_metadata (ho_os h) from)) (\<lambda>m.
                  bind (sys (os_metadata (ho_os h) to)) (\<lambda>n.
                    ok (om_dev m = om_dev n \<and> om_ino m = om_ino n)))))))"

definition localfs_rename :: "('o, 'f, 'd, 'c) host \<Rightarrow> local_cfg \<Rightarrow> dav_path \<Rightarrow> dav_path \<Rightarrow> (('o, 'd, 'c) local_state, fs_error, unit) act" where
  "localfs_rename h cfg p q =
     (if is_forbidden cfg p \<or> is_forbidden cfg q then fail Forbidden
      else bind (fspath h cfg p) (\<lambda>from. bind (fspath h cfg q) (\<lambda>to.
           bind (confine_leaf h cfg from) (\<lambda>from.
           bind (confine_leaf h cfg to) (\<lambda>to.
           bind (attempt (on_os (os_rename (ho_os h) from to))) (\<lambda>r. case r of
               Inr _ \<Rightarrow> ok ()
             | Inl e \<Rightarrow>
                 bind (attempt (on_os (os_symlink_metadata (ho_os h) from))) (\<lambda>m.
                   if io_raw e = Some ENOTDIR \<and> (case m of Inr m \<Rightarrow> om_dir m | Inl (_ :: io_error) \<Rightarrow> False) then
                     bind (attempt (on_os (os_remove_file (ho_os h) to))) (\<lambda>rm. case rm of
                         Inl e2 \<Rightarrow> if io_kind e2 = KNotFound then sys (os_rename (ho_os h) from to)
                                   else fail (ioerror_to_fserror e2)
                       | Inr _ \<Rightarrow> sys (os_rename (ho_os h) from to))
                   else fail (ioerror_to_fserror e))))))))"

definition localfs_copy :: "('o, 'f, 'd, 'c) host \<Rightarrow> local_cfg \<Rightarrow> dav_path \<Rightarrow> dav_path \<Rightarrow> (('o, 'd, 'c) local_state, fs_error, unit) act" where
  "localfs_copy h cfg p q =
     (if is_forbidden cfg p \<or> is_forbidden cfg q then fail Forbidden
      else bind (fspath h cfg p) (\<lambda>from. bind (fspath h cfg q) (\<lambda>to.
           bind (confine_follow h cfg from) (\<lambda>from.
           bind (confine_leaf h cfg to) (\<lambda>to.
           bind (reject_symlink h to) (\<lambda>_.
             sys (os_reflink (ho_os h) from to)))))))"

definition times_flags :: "bool \<Rightarrow> os_flags" where
  "times_flags wr = \<lparr>of_read = \<not> wr, of_write = wr, of_append = False, of_truncate = False, of_create = False,
     of_create_new = False, of_mode = 438, of_nofollow = True\<rparr>"

definition open_for_times :: "('o, 'f) os_ops \<Rightarrow> pathbuf \<Rightarrow> ('o, io_error, 'f) act" where
  "open_for_times os path =
     bind (attempt (os_open os path (times_flags True))) (\<lambda>r. case r of
         Inr f \<Rightarrow> ok f
       | Inl (_ :: io_error) \<Rightarrow> os_open os path (times_flags False))"

definition localfs_set_modified :: "('o, 'f, 'd, 'c) host \<Rightarrow> local_cfg \<Rightarrow> dav_path \<Rightarrow> systime \<Rightarrow> (('o, 'd, 'c) local_state, fs_error, unit) act" where
  "localfs_set_modified h cfg p tm =
     (if is_forbidden cfg p then fail Forbidden
      else bind (fspath h cfg p) (\<lambda>path.
           bind (confine_leaf h cfg path) (\<lambda>path.
           bind (reject_symlink h path) (\<lambda>_.
           bind (sys (open_for_times (ho_os h) path)) (\<lambda>f.
             sys (fd_set_modified (ho_os h) f tm))))))"

definition localfs_set_created :: "dav_path \<Rightarrow> systime \<Rightarrow> (('o, 'd, 'c) local_state, fs_error, unit) act" where
  "localfs_set_created p tm = fail NotImplemented"

section \<open>Open files\<close>

definition localf_metadata :: "('o, 'f, 'd, 'c) host \<Rightarrow> 'f local_file \<Rightarrow>
    (('o, 'd, 'c) local_state, fs_error, dav_meta \<times> 'f local_file) act" where
  "localf_metadata h f =
     bind (sys (fd_metadata (ho_os h) (lf_file f))) (\<lambda>m.
     bind (local_meta h None m) (\<lambda>meta. ok (meta, f)))"

definition localf_write_bytes :: "('o, 'f, 'd, 'c) host \<Rightarrow> 'f local_file \<Rightarrow> bytes \<Rightarrow>
    (('o, 'd, 'c) local_state, fs_error, 'f local_file) act" where
  "localf_write_bytes h f buf = bind (sys (fd_write_all (ho_os h) (lf_file f) buf)) (\<lambda>_. ok f)"

text \<open>\<^verbatim>\<open>Buf::advance\<close> over the chunks of a buffer.\<close>

fun buf_advance :: "nat \<Rightarrow> bytes list \<Rightarrow> bytes list" where
  "buf_advance n [] = []"
| "buf_advance n (c # cs) = (if n < length c then drop n c # cs else buf_advance (n - length c) cs)"

text \<open>The loop goes on while something remains, also when a call writes nothing.\<close>

partial_function (option) write_rounds :: "('o, 'f) os_ops \<Rightarrow> 'f \<Rightarrow> bytes list \<Rightarrow> 'o \<Rightarrow> ((io_error + unit) \<times> 'o) option" where
  "write_rounds os f buf o1 =
     (case dropWhile (\<lambda>c. c = []) buf of
        [] \<Rightarrow> Some (Inr (), o1)
      | c # cs \<Rightarrow> (case fd_write os f c o1 of
          None \<Rightarrow> None
        | Some (r, o2) \<Rightarrow> (case r of
            Inl e \<Rightarrow> Some (Inl e, o2)
          | Inr n \<Rightarrow> write_rounds os f (buf_advance n (c # cs)) o2)))"

definition localf_write_buf :: "('o, 'f, 'd, 'c) host \<Rightarrow> 'f local_file \<Rightarrow> bytes list \<Rightarrow>
    (('o, 'd, 'c) local_state, fs_error, 'f local_file) act" where
  "localf_write_buf h f buf = bind (sys (write_rounds (ho_os h) (lf_file f) buf)) (\<lambda>_. ok f)"

text \<open>What is read is put behind the buffer, and the whole buffer is handed out.\<close>

definition read_bytes_into :: "('o, 'f) os_ops \<Rightarrow> 'f \<Rightarrow> bytes \<Rightarrow> nat \<Rightarrow> ('o, io_error, bytes \<times> bytes) act" where
  "read_bytes_into os f buf count = bind (fd_read os f count) (\<lambda>dat. ok (buf @ dat, []))"

definition localf_read_bytes :: "('o, 'f, 'd, 'c) host \<Rightarrow> 'f local_file \<Rightarrow> nat \<Rightarrow>
    (('o, 'd, 'c) local_state, fs_error, bytes \<times> 'f local_file) act" where
  "localf_read_bytes h f count =
     bind (sys (read_bytes_into (ho_os h) (lf_file f) (lf_buf f) count)) (\<lambda>(dat, buf). ok (dat, f\<lparr>lf_buf := buf\<rparr>))"

definition localf_seek :: "('o, 'f, 'd, 'c) host \<Rightarrow> 'f local_file \<Rightarrow> seek_from \<Rightarrow>
    (('o, 'd, 'c) local_state, fs_error, nat \<times> 'f local_file) act" where
  "localf_seek h f pos = bind (sys (fd_seek (ho_os h) (lf_file f) pos)) (\<lambda>n. ok (n, f))"

definition localf_flush :: "('o, 'f, 'd, 'c) host \<Rightarrow> 'f local_file \<Rightarrow> (('o, 'd, 'c) local_state, fs_error, 'f local_file) act" where
  "localf_flush h f = bind (sys (fd_flush (ho_os h) (lf_file f))) (\<lambda>_. ok f)"

section \<open>The filesystem\<close>

text \<open>Properties, quotas and access times are left to the defaults of the trait.\<close>

definition localfs_ops :: "('o, 'f, 'd, 'c) host \<Rightarrow> local_cfg \<Rightarrow> (('o, 'd, 'c) local_state, 'f local_file) fs_ops" where
  "localfs_ops h cfg =
     \<lparr>fs_open = localfs_open h cfg, fs_read_dir = localfs_read_dir h cfg, fs_metadata = localfs_metadata h cfg,
      fs_symlink_metadata = localfs_symlink_metadata h cfg, fs_create_dir = localfs_create_dir h cfg,
      fs_remove_dir = localfs_remove_dir h cfg, fs_remove_file = localfs_remove_file h cfg,
      fs_same_resource = localfs_same_resource h cfg, fs_rename = localfs_rename h cfg, fs_copy = localfs_copy h cfg,
      fs_set_accessed = (\<lambda>_ _. not_implemented), fs_set_modified = localfs_set_modified h cfg,
      fs_set_created = localfs_set_created, fs_have_props = (\<lambda>_ s. Some (False, s)),
      fs_patch_props = (\<lambda>_ _. not_implemented), fs_get_props = (\<lambda>_ _. not_implemented),
      fs_get_prop = (\<lambda>_ _. not_implemented), fs_get_quota = not_implemented,
      fs_mark_calendar = localfs_mark_calendar h cfg, fs_mark_addressbook = localfs_mark_addressbook h cfg,
      f_metadata = localf_metadata h, f_write_bytes = localf_write_bytes h, f_write_buf = localf_write_buf h,
      f_read_bytes = localf_read_bytes h, f_seek = localf_seek h, f_flush = localf_flush h,
      f_redirect_url = (\<lambda>f. ok (None, f))\<rparr>"

text \<open>\<^verbatim>\<open>LocalFs::new\<close> and \<^verbatim>\<open>LocalFs::new_file\<close>: the configuration, and what the cell of the canonical base
  directory holds at first.\<close>

definition local_new :: "('o, 'f) os_ops \<Rightarrow> pathbuf \<Rightarrow> bool \<Rightarrow> bool \<Rightarrow> bool \<Rightarrow> 'o \<Rightarrow> ((local_cfg \<times> pathbuf option) \<times> 'o) option" where
  "local_new os base public case_insensitive macos = (\<lambda>o1.
     case init_canonical_basedir os base o1 of
       None \<Rightarrow> None
     | Some (canon, o2) \<Rightarrow>
         Some ((\<lparr>lc_basedir = base, lc_public = public, lc_case_insensitive = case_insensitive, lc_macos = macos, lc_is_file = False\<rparr>, canon), o2))"

definition local_new_file :: "('o, 'f) os_ops \<Rightarrow> pathbuf \<Rightarrow> bool \<Rightarrow> 'o \<Rightarrow> ((local_cfg \<times> pathbuf option) \<times> 'o) option" where
  "local_new_file os file public = (\<lambda>o1.
     case init_canonical_basedir os file o1 of
       None \<Rightarrow> None
     | Some (canon, o2) \<Rightarrow>
         Some ((\<lparr>lc_basedir = file, lc_public = public, lc_case_insensitive = False, lc_macos = False, lc_is_file = True\<rparr>, canon), o2))"

end
