(* ===== verification/Server_Frame.thy ===== *)
theory Server_Frame
  imports Handle_Safe Prop_Find
begin

text \<open>
  What a whole request does to the server follows from what each operation of the backends does.  An
  action \<^verbatim>\<open>runs\<close> within a frame when it keeps an invariant, relates the states before and after, and
  its value, if any, has a property; in a frame that asks for it, the action also returns.  The rules
  pass this from the operations to the actions built of them; the locale states the frame of the
  operations that read, and proves it for what all handlers share.
\<close>

section \<open>Frames\<close>

named_theorems run_rules "actions that stay within a frame"

definition runs :: "bool \<Rightarrow> ('s \<Rightarrow> bool) \<Rightarrow> ('s \<Rightarrow> 's \<Rightarrow> bool) \<Rightarrow> ('a \<Rightarrow> bool) \<Rightarrow> ('s, 'e, 'a) act \<Rightarrow> bool" where
  "runs t K R Q m \<longleftrightarrow> (\<forall>s. K s \<longrightarrow> (case m s of
     None \<Rightarrow> \<not> t
   | Some (r, s') \<Rightarrow> K s' \<and> R s s' \<and> (case r of Inl _ \<Rightarrow> True | Inr x \<Rightarrow> Q x)))"

abbreviation anything :: "'a \<Rightarrow> bool" where "anything \<equiv> \<lambda>_. True"

lemma runsI:
  assumes "\<And>s. K s \<Longrightarrow> m s = None \<Longrightarrow> \<not> t"
    and "\<And>s r s'. K s \<Longrightarrow> m s = Some (r, s') \<Longrightarrow> K s' \<and> R s s' \<and> (\<forall>x. r = Inr x \<longrightarrow> Q x)"
  shows "runs t K R Q m"
  unfolding runs_def using assms by (fastforce split: option.splits sum.splits)

lemma runsD:
  assumes "runs t K R Q m" "K s" "m s = Some (r, s')"
  shows "K s'" "R s s'" "r = Inr x \<Longrightarrow> Q x"
  using assms unfolding runs_def by (auto split: option.splits sum.splits)

lemma runs_returns: "runs True K R Q m \<Longrightarrow> K s \<Longrightarrow> m s \<noteq> None"
  unfolding runs_def by (auto split: option.splits)

lemma runs_weaken: "runs t K R P m \<Longrightarrow> (\<And>x. P x \<Longrightarrow> Q x) \<Longrightarrow> runs t K R Q m"
  unfolding runs_def by (fastforce split: option.splits sum.splits)

lemma runs_anything: "runs t K R P m \<Longrightarrow> runs t K R anything m"
  by (erule runs_weaken) simp

lemma runs_ok [run_rules]: "reflp R \<Longrightarrow> Q x \<Longrightarrow> runs t K R Q (ok x)"
  by (simp add: runs_def reflpD)

lemma runs_fail [run_rules]: "reflp R \<Longrightarrow> runs t K R Q (fail e)"
  by (simp add: runs_def reflpD)

lemma runs_diverge: "\<not> t \<Longrightarrow> runs t K R Q diverge"
  by (simp add: runs_def)

lemma runs_bind_post:
  assumes "transp R" "runs t K R P m" "\<And>x. P x \<Longrightarrow> runs t K R Q (f x)"
  shows "runs t K R Q (bind m f)"
proof (rule runsI)
  fix s assume i: "K s" and n: "bind m f s = None"
  show "\<not> t"
  proof (cases "m s")
    case None
    with assms(2) i show ?thesis unfolding runs_def by auto
  next
    case (Some rs)
    with n obtain x s' where m: "m s = Some (Inr x, s')" "f x s' = None"
      by (cases rs; cases "fst rs") (auto simp: bind_def)
    from runsD [OF assms(2) i m(1)] have "K s'" "P x" by auto
    with assms(3) [of x] m(2) show ?thesis unfolding runs_def by auto
  qed
next
  fix s r s2 assume i: "K s" and b: "bind m f s = Some (r, s2)"
  then show "K s2 \<and> R s s2 \<and> (\<forall>x. r = Inr x \<longrightarrow> Q x)"
  proof (cases rule: bind_cases [OF b, consumes 0])
    case (1 e)
    with runsD [OF assms(2) i] show ?thesis by auto
  next
    case (2 x s1)
    from runsD [OF assms(2) i 2(1)] have s1: "K s1" "R s s1" "P x" by auto
    from runsD [OF assms(3) [OF s1(3)] s1(1) 2(2)] show ?thesis using transpD [OF assms(1) s1(2)] by auto
  qed
qed

lemma runs_bind [run_rules]:
  "transp R \<Longrightarrow> runs t K R anything m \<Longrightarrow> (\<And>x. runs t K R Q (f x)) \<Longrightarrow> runs t K R Q (bind m f)"
  by (rule runs_bind_post)

lemma runs_attempt_post:
  "runs t K R P m \<Longrightarrow> runs t K R (\<lambda>r. case r of Inl _ \<Rightarrow> True | Inr x \<Rightarrow> P x) (attempt m)"
  unfolding runs_def attempt_def by (auto split: option.splits sum.splits)

lemma runs_attempt [run_rules]: "runs t K R anything m \<Longrightarrow> runs t K R anything (attempt m)"
  unfolding runs_def attempt_def by (auto split: option.splits sum.splits)

lemma runs_map_err [run_rules]: "runs t K R Q m \<Longrightarrow> runs t K R Q (map_err g m)"
  unfolding runs_def map_err_def by (auto split: option.splits sum.splits)

lemma runs_if [run_rules]: "(b \<Longrightarrow> runs t K R Q m) \<Longrightarrow> (\<not> b \<Longrightarrow> runs t K R Q n) \<Longrightarrow> runs t K R Q (if b then m else n)"
  by simp

lemma runs_split [run_rules]: "(\<And>a b. p = (a, b) \<Longrightarrow> runs t K R Q (f a b)) \<Longrightarrow> runs t K R Q (case p of (a, b) \<Rightarrow> f a b)"
  by (cases p) simp

lemma runs_option [run_rules]: "(p = None \<Longrightarrow> runs t K R Q m) \<Longrightarrow> (\<And>x. p = Some x \<Longrightarrow> runs t K R Q (f x)) \<Longrightarrow>
    runs t K R Q (case p of None \<Rightarrow> m | Some x \<Rightarrow> f x)"
  by (cases p) simp_all

lemma runs_sum [run_rules]: "(\<And>x. p = Inl x \<Longrightarrow> runs t K R Q (f x)) \<Longrightarrow> (\<And>x. p = Inr x \<Longrightarrow> runs t K R Q (g x)) \<Longrightarrow>
    runs t K R Q (case p of Inl x \<Rightarrow> f x | Inr x \<Rightarrow> g x)"
  by (cases p) simp_all

section \<open>Frames of the server\<close>

text \<open>The frame of the server: that of each of its backends.  The channel of results is free.\<close>

definition world_inv :: "('s \<Rightarrow> bool) \<Rightarrow> ('l \<Rightarrow> bool) \<Rightarrow> ('s, 'l) world \<Rightarrow> bool" where
  "world_inv fi li w \<longleftrightarrow> fi (w_fs w) \<and> li (w_ls w)"

definition world_rel :: "('s \<Rightarrow> 's \<Rightarrow> bool) \<Rightarrow> ('l \<Rightarrow> 'l \<Rightarrow> bool) \<Rightarrow> ('s, 'l) world \<Rightarrow> ('s, 'l) world \<Rightarrow> bool" where
  "world_rel fr lr w w' \<longleftrightarrow> fr (w_fs w) (w_fs w') \<and> lr (w_ls w) (w_ls w')"

lemma world_refl: "reflp fr \<Longrightarrow> reflp lr \<Longrightarrow> reflp (world_rel fr lr)"
  by (simp add: reflp_def world_rel_def)

lemma world_trans: "transp fr \<Longrightarrow> transp lr \<Longrightarrow> transp (world_rel fr lr)"
  unfolding transp_def world_rel_def by blast

lemma runs_on_fs: "reflp lr \<Longrightarrow> runs t fi fr Q a \<Longrightarrow> runs t (world_inv fi li) (world_rel fr lr) Q (on_fs a)"
  unfolding runs_def on_fs_def world_inv_def world_rel_def by (fastforce split: option.splits sum.splits dest: reflpD)

lemma runs_on_ls: "reflp fr \<Longrightarrow> runs t li lr Q a \<Longrightarrow> runs t (world_inv fi li) (world_rel fr lr) Q (on_ls a)"
  unfolding runs_def on_ls_def world_inv_def world_rel_def by (fastforce split: option.splits sum.splits dest: reflpD)

definition entries_run :: "bool \<Rightarrow> ('s \<Rightarrow> bool) \<Rightarrow> ('s \<Rightarrow> 's \<Rightarrow> bool) \<Rightarrow> (dav_meta \<Rightarrow> bool) \<Rightarrow> (fs_error + 's dirent) list \<Rightarrow> bool" where
  "entries_run t fi fr M es \<longleftrightarrow> (\<forall>de. Inr de \<in> set es \<longrightarrow> runs t fi fr M (de_metadata de))"

lemma entries_run_simps [simp]:
  "entries_run t fi fr M []"
  "entries_run t fi fr M (Inl e # es) \<longleftrightarrow> entries_run t fi fr M es"
  "entries_run t fi fr M (Inr de # es) \<longleftrightarrow> runs t fi fr M (de_metadata de) \<and> entries_run t fi fr M es"
  by (auto simp: entries_run_def)

text \<open>The metadata whose entity tag makes a header value.\<close>

definition tag_fits :: "http_env \<Rightarrow> dav_meta \<Rightarrow> bool" where
  "tag_fits env m \<longleftrightarrow> (\<forall>e. etag_from_meta m = Some e \<longrightarrow> etag_encode env e \<noteq> None)"

locale reading_frame =
  fixes t :: bool and fi :: "'s \<Rightarrow> bool" and fr :: "'s \<Rightarrow> 's \<Rightarrow> bool" and li :: "'l \<Rightarrow> bool" and lr :: "'l \<Rightarrow> 'l \<Rightarrow> bool"
    and M :: "dav_meta \<Rightarrow> bool" and fs :: "('s, 'h) fs_ops" and ls :: "'l ls_ops"
  assumes rels: "reflp fr" "transp fr" "reflp lr" "transp lr"
    and metadata: "runs t fi fr M (fs_metadata fs p)"
    and symlink_metadata: "runs t fi fr M (fs_symlink_metadata fs p)"
    and same_resource: "runs t fi fr anything (fs_same_resource fs p q)"
    and read_dir: "runs t fi fr (entries_run t fi fr M) (fs_read_dir fs p k)"
    and open_read: "runs t fi fr anything (fs_open fs p oo_for_read)"
    and file_metadata: "runs t fi fr (\<lambda>x. M (fst x)) (f_metadata fs h)"
    and read_bytes: "runs t fi fr anything (f_read_bytes fs h n)"
    and seek: "runs t fi fr anything (f_seek fs h sk)"
    and redirect_url: "runs t fi fr (\<lambda>x. t \<longrightarrow> fst x = None) (f_redirect_url fs h)"
    and props_known: "fi s \<Longrightarrow> case fs_have_props fs p s of None \<Rightarrow> \<not> t | Some (b, s') \<Rightarrow> fi s' \<and> fr s s'"
    and get_props: "runs t fi fr anything (fs_get_props fs p b)"
    and get_prop: "runs t fi fr anything (fs_get_prop fs p pr)"
    and get_quota: "runs t fi fr anything (fs_get_quota fs)"
    and check: "runs t li lr anything (ls_check ls p who ign deep toks)"
    and discover: "runs t li lr anything (ls_discover ls p)"
begin

text \<open>A server with these backends, or without a lock system.\<close>

definition served :: "('s, 'h, 'l) server \<Rightarrow> bool" where
  "served sv \<longleftrightarrow> sv_fs sv = fs \<and> (sv_ls sv = None \<or> sv_ls sv = Some ls) \<and> (t \<longrightarrow> (\<forall>m. M m \<longrightarrow> tag_fits (sv_http sv) m))"

abbreviation stays :: "(('s, 'l) world, 'e, 'a) act \<Rightarrow> bool" where
  "stays \<equiv> runs t (world_inv fi li) (world_rel fr lr) anything"

lemma served_fs: "served sv \<Longrightarrow> sv_fs sv = fs"
  by (simp add: served_def)

lemma served_ls: "served sv \<Longrightarrow> sv_ls sv = Some l \<Longrightarrow> l = ls"
  by (auto simp: served_def)

lemmas rel_rules = rels world_refl [OF rels(1,3)] world_trans [OF rels(2,4)]

lemmas reads_any = metadata [THEN runs_anything] symlink_metadata [THEN runs_anything] same_resource
  read_dir [THEN runs_anything] open_read file_metadata [THEN runs_anything] read_bytes seek redirect_url [THEN runs_anything]
  get_props get_prop get_quota

lemma on_fs_post: "runs t fi fr Q a \<Longrightarrow> runs t (world_inv fi li) (world_rel fr lr) Q (on_fs a)"
  by (rule runs_on_fs [OF rels(3)])

lemma on_ls_post: "runs t li lr Q a \<Longrightarrow> runs t (world_inv fi li) (world_rel fr lr) Q (on_ls a)"
  by (rule runs_on_ls [OF rels(1)])

lemma fs_try_post: "runs t fi fr Q a \<Longrightarrow> runs t (world_inv fi li) (world_rel fr lr) Q (fs_try a)"
  unfolding fs_try_def by (intro runs_map_err on_fs_post)

lemmas frame_rules = run_rules rel_rules on_fs_post on_ls_post fs_try_post reads_any check discover TrueI

section \<open>What the handlers share\<close>

text \<open>The path of a request, where the dispatcher has accepted it.\<close>

definition accepted :: "('s, 'h, 'l) server \<Rightarrow> request \<Rightarrow> dav_path \<Rightarrow> bool" where
  "accepted sv rq p \<longleftrightarrow> from_uri_and_prefix (pct_decode (sv_http sv)) (rq_path rq) (sv_prefix sv) = Inr p"

lemma stays_req_path:
  "(t \<Longrightarrow> \<exists>p. accepted sv rq p) \<Longrightarrow> (\<And>p. accepted sv rq p \<Longrightarrow> stays (k p)) \<Longrightarrow> stays (req_path sv rq k)"
  by (auto simp: req_path_def accepted_def intro!: runs_diverge split: sum.splits)

lemma stays_symlink_walk: "served sv \<Longrightarrow> length (lock_segs p) < n \<Longrightarrow> stays (symlink_walk n sv p)"
proof (induction n arbitrary: p)
  case 0
  then show ?case by simp
next
  case (Suc n)
  have "stays (symlink_walk n sv (path_parent p))" if "\<not> path_eq (path_parent p) p"
  proof (rule Suc.IH [OF Suc.prems(1)])
    have "lock_segs p \<noteq> []" using that path_parent_root [of p] by (auto simp: path_eq_def)
    with Suc.prems(2) show "length (lock_segs (path_parent p)) < n"
      by (cases "lock_segs p") (simp_all add: lock_segs_parent)
  qed
  with Suc.prems(1) show ?case by (auto simp: served_fs intro!: frame_rules)
qed

lemma stays_ensure_visible: "served sv \<Longrightarrow> stays (ensure_visible sv p)"
  by (auto simp: ensure_visible_def less_Suc_eq_le lock_segs_length simp del: symlink_walk.simps
      intro!: frame_rules stays_symlink_walk)

lemma visible_post: "served sv \<Longrightarrow> runs t (world_inv fi li) (world_rel fr lr) M (visible_metadata sv p)"
  by (auto simp: visible_metadata_def served_fs intro!: frame_rules stays_ensure_visible metadata symlink_metadata)

lemma stays_cond_holds: "served sv \<Longrightarrow> stays (cond_holds sv p valid item)"
  by (cases item) (auto simp: cond_holds_def discover_locks_def served_fs dest: served_ls intro!: frame_rules)

lemma stays_conds_loop: "served sv \<Longrightarrow> stays (conds_loop sv p valid cs b)"
  by (induction cs arbitrary: b) (auto intro!: frame_rules stays_cond_holds)

lemma stays_if_lists_loop: "served sv \<Longrightarrow> stays (if_lists_loop sv rq path r any_ok tokens)"
  by (induction r arbitrary: any_ok tokens) (auto simp: Let_def intro!: frame_rules stays_conds_loop)

lemma stays_dav_if_match: "served sv \<Longrightarrow> stays (dav_if_match sv rq path)"
  by (auto simp: dav_if_match_def intro!: frame_rules stays_if_lists_loop)

lemma stays_if_match: "served sv \<Longrightarrow> stays (if_match sv rq meta path)"
  by (auto simp: if_match_def intro!: frame_rules stays_dav_if_match)

lemma stays_tokens: "served sv \<Longrightarrow> stays (if_match_get_tokens sv rq meta path)"
  by (auto simp: if_match_get_tokens_def intro!: frame_rules stays_dav_if_match)

lemma stays_check_locks: "served sv \<Longrightarrow> stays (check_locks sv path deep tokens e)"
  by (auto simp: check_locks_def dest: served_ls intro!: frame_rules)

lemma props_run: "runs t fi fr anything (\<lambda>s. case fs_have_props fs p s of None \<Rightarrow> None | Some (b, s') \<Rightarrow> Some (Inr b, s'))"
proof (rule runsI)
  fix s assume "fi s" "(case fs_have_props fs p s of None \<Rightarrow> None | Some (b, s') \<Rightarrow> Some (Inr b, s')) = None"
  with props_known [of s p] show "\<not> t" by (auto split: option.splits)
next
  fix s r s' assume "fi s" "(case fs_have_props fs p s of None \<Rightarrow> None | Some (b, s') \<Rightarrow> Some (Inr b, s')) = Some (r, s')"
  with props_known [of s p] show "fi s' \<and> fr s s' \<and> (\<forall>x. r = Inr x \<longrightarrow> anything x)" by (auto split: option.splits)
qed

lemma stays_have_props: "served sv \<Longrightarrow> stays (have_props sv p)"
  using on_fs_post [OF props_run] by (simp add: have_props_def served_fs)

text \<open>The kind of a collection, found in its properties where the metadata does not tell.\<close>

lemma kind_run:
  "runs t fi fr anything ((\<lambda>s. case resolve_collection_kind fs p meta s of None \<Rightarrow> None | Some (k, s') \<Rightarrow> Some (Inr k, s'))
     :: ('s, 'e, collection_kind) act)"
proof -
  have "((\<lambda>s. case resolve_collection_kind fs p meta s of None \<Rightarrow> None | Some (k, s') \<Rightarrow> Some (Inr k, s')) :: ('s, 'e, collection_kind) act) =
    (if kind_from_meta p meta \<noteq> CkNone then ok (kind_from_meta p meta) else if \<not> md_is_dir meta then ok CkNone
     else bind (attempt (fs_get_props fs p False)) (\<lambda>r. case r of Inr ps \<Rightarrow> ok (kind_from_props ps) | Inl _ \<Rightarrow> ok CkNone))"
    by (auto simp: resolve_collection_kind_def fun_eq_iff bind_def attempt_def split: collection_kind.splits option.splits sum.splits)
  then show ?thesis by (auto intro!: frame_rules)
qed

lemma stays_collection_kind: "served sv \<Longrightarrow> stays (collection_kind_of sv p meta)"
  using on_fs_post [OF kind_run] by (simp add: collection_kind_of_def served_fs)

lemma stays_has_parent: "served sv \<Longrightarrow> stays (has_parent sv p)"
  by (auto simp: has_parent_def served_fs intro!: frame_rules)

lemmas shared_rules = stays_ensure_visible stays_if_match stays_tokens stays_check_locks stays_have_props
  stays_collection_kind stays_has_parent visible_post [THEN runs_anything]

end

end
