(* ===== verification/Local_Props.thy ===== *)
theory Local_Props
  imports Local_Fs Server_Frame Mem_Put
begin

text \<open>
  The local filesystem: a request path names exactly one path below the base directory; every call of the
  system that an operation makes concerns a path inside the canonical base directory, and none that
  changes something follows a symbolic link; a listing is what the iterator yields.
\<close>

section \<open>From request paths to host paths\<close>

lemma split_names:
  assumes "\<forall>s \<in> set ss. safe_seg s"
  shows "concat (map piece (split_on slash (unsegs ss))) = map Normal ss"
    and "concat (map piece (split_on slash (tl (unsegs ss)))) = map Normal ss"
proof -
  have c: "concat (map piece ss) = map Normal ss" using assms by (induction ss) auto
  have "\<forall>s \<in> set ss. good_seg s" using assms safe_good by blast
  from split_unsegs [OF this] have sp: "ss \<noteq> [] \<Longrightarrow> split_on slash (unsegs ss) = [] # ss" .
  show "concat (map piece (split_on slash (unsegs ss))) = map Normal ss"
    using sp c by (cases "ss = []") simp_all
  have "split_on slash (tl (unsegs ss)) = ss" if ne: "ss \<noteq> []"
  proof -
    obtain r where r: "unsegs ss = slash # r" using unsegs_hd [OF ne] by (cases "unsegs ss") auto
    with sp [OF ne] show ?thesis by simp
  qed
  then show "concat (map piece (split_on slash (tl (unsegs ss)))) = map Normal ss"
    using c by (cases "ss = []") simp_all
qed

lemma rel_ospath_join:
  assumes "\<forall>s \<in> set ss. safe_seg s" and "as_bytes p = join_path ss d"
  shows "as_rel_ospath p = tl (unsegs ss)"
proof (cases "ss = []")
  case True
  with assms(2) show ?thesis by (simp add: as_rel_ospath_def join_path_def Let_def ends_with_iff)
next
  case False
  then obtain r where r: "unsegs ss = slash # r" using unsegs_hd [OF False] by (cases "unsegs ss") auto
  have g: "\<forall>s \<in> set ss. good_seg s" using assms(1) safe_good by blast
  have "\<not> ends_with r [slash]"
  proof
    assume "ends_with r [slash]"
    then have "last (join_path ss False) = slash" using False r by (simp add: ends_with_single join_path_def)
    then show False using last_join_path [OF g, of False] False by simp
  qed
  then show ?thesis using assms(2) False r by (auto simp: as_rel_ospath_def join_path_def Let_def ends_with_single)
qed

lemma rel_components:
  assumes "\<forall>s \<in> set ss. safe_seg s"
  shows "components (tl (unsegs ss)) = map Normal ss"
proof (cases ss)
  case Nil
  then show ?thesis by (simp add: components_def)
next
  case (Cons s ts)
  from assms Cons have s: "s \<noteq> []" "slash \<notin> set s" "s \<noteq> ''.''" by (auto simp: safe_seg_def good_seg_def)
  have t: "tl (unsegs ss) = s @ unsegs ts" using Cons by simp
  have "\<not> starts_with (tl (unsegs ss)) [slash]" using t s(1,2) by (cases s) (auto simp: starts_with_iff)
  moreover have "hd (split_on slash (tl (unsegs ss))) = s"
  proof (cases ts)
    case Nil
    with t s(2) show ?thesis by (simp add: split_on_id)
  next
    case (Cons u us)
    with t s(2) show ?thesis by (simp add: split_on_prefix_free)
  qed
  ultimately show ?thesis using split_names(2) [OF assms] s(3) by (simp add: components_def Let_def)
qed

lemma name_components [simp]: "safe_seg s \<Longrightarrow> components s = [Normal s]"
  using rel_components [of "[s]"] by simp

lemma push_name [simp]: "safe_seg s \<Longrightarrow> push_normal_component p s = Inr (p @ [Normal s])"
  by (simp add: push_normal_component_def path_push_def has_root_def)

lemma join_names: "\<forall>s \<in> set ss. safe_seg s \<Longrightarrow> join_components p (map Normal ss) = Inr (p @ map Normal ss)"
  by (induction ss arbitrary: p) simp_all

lemma join_normal:
  assumes "normal_path (as_bytes p)"
  shows "join_confined base p = Inr (base @ map Normal (path_segs (as_bytes p)))"
proof -
  from assms obtain ss d where ss: "as_bytes p = join_path ss d" "\<forall>s \<in> set ss. safe_seg s" "path_segs (as_bytes p) = ss"
    by (rule normal_pathE)
  then show ?thesis
    by (simp add: join_confined_def join_rel_path_def rel_ospath_join rel_components join_names)
qed

section \<open>Calls inside the base directory\<close>

definition only_reads :: "os_flags \<Rightarrow> bool" where
  "only_reads fl \<longleftrightarrow> \<not> of_write fl \<and> \<not> of_append fl \<and> \<not> of_truncate fl \<and> \<not> of_create fl \<and> \<not> of_create_new fl"

text \<open>The calls of the system that keep within \<open>base\<close>.  A path is resolved wherever it leads, which opens
  nothing; with \<open>free\<close>, names are looked for outside too.  What changes something is called only with
  \<open>wr\<close>, on a path inside, and a file that may be written is opened without following a link.\<close>

inductive host_step :: "('o, 'f) os_ops \<Rightarrow> pathbuf \<Rightarrow> bool \<Rightarrow> bool \<Rightarrow> 'o \<Rightarrow> 'o \<Rightarrow> bool" for os base free wr where
  call_canonicalize: "os_canonicalize os p s = Some (r, s') \<Longrightarrow> host_step os base free wr s s'"
| call_metadata: "free \<or> path_is_within base p \<Longrightarrow> os_metadata os p s = Some (r, s') \<Longrightarrow> host_step os base free wr s s'"
| call_symlink_metadata: "path_is_within base p \<Longrightarrow> os_symlink_metadata os p s = Some (r, s') \<Longrightarrow> host_step os base free wr s s'"
| call_read_dir: "free \<or> path_is_within base p \<Longrightarrow> os_read_dir os p s = Some (r, s') \<Longrightarrow> host_step os base free wr s s'"
| call_open: "path_is_within base p \<Longrightarrow> only_reads fl \<or> wr \<and> of_nofollow fl \<Longrightarrow> os_open os p fl s = Some (r, s') \<Longrightarrow>
    host_step os base free wr s s'"
| call_create_dir: "wr \<Longrightarrow> path_is_within base p \<Longrightarrow> os_create_dir os p md s = Some (r, s') \<Longrightarrow> host_step os base free wr s s'"
| call_remove_dir: "wr \<Longrightarrow> path_is_within base p \<Longrightarrow> os_remove_dir os p s = Some (r, s') \<Longrightarrow> host_step os base free wr s s'"
| call_remove_file: "wr \<Longrightarrow> path_is_within base p \<Longrightarrow> os_remove_file os p s = Some (r, s') \<Longrightarrow> host_step os base free wr s s'"
| call_rename: "wr \<Longrightarrow> path_is_within base p \<Longrightarrow> path_is_within base q \<Longrightarrow> os_rename os p q s = Some (r, s') \<Longrightarrow>
    host_step os base free wr s s'"
| call_reflink: "wr \<Longrightarrow> path_is_within base p \<Longrightarrow> path_is_within base q \<Longrightarrow> os_reflink os p q s = Some (r, s') \<Longrightarrow>
    host_step os base free wr s s'"
| file_metadata: "fd_metadata os f s = Some (r, s') \<Longrightarrow> host_step os base free wr s s'"
| file_read: "fd_read os f n s = Some (r, s') \<Longrightarrow> host_step os base free wr s s'"
| file_seek: "fd_seek os f sk s = Some (r, s') \<Longrightarrow> host_step os base free wr s s'"
| file_flush: "wr \<Longrightarrow> fd_flush os f s = Some (r, s') \<Longrightarrow> host_step os base free wr s s'"
| file_write_all: "wr \<Longrightarrow> fd_write_all os f bs s = Some (r, s') \<Longrightarrow> host_step os base free wr s s'"
| file_write: "wr \<Longrightarrow> fd_write os f bs s = Some (r, s') \<Longrightarrow> host_step os base free wr s s'"
| file_set_modified: "wr \<Longrightarrow> fd_set_modified os f tm s = Some (r, s') \<Longrightarrow> host_step os base free wr s s'"

text \<open>What is asked of the host: a directory yields plain names, and the cache is one.\<close>

definition plain_listings :: "('o, 'f) os_ops \<Rightarrow> bool" where
  "plain_listings os \<longleftrightarrow>
     (\<forall>p s es s'. os_read_dir os p s = Some (Inr es, s') \<longrightarrow> (\<forall>n. Inr n \<in> set es \<longrightarrow> components n = [Normal n]))"

definition host_ok :: "('o, 'f, 'd, 'c) host \<Rightarrow> ('d \<Rightarrow> (pathbuf \<times> du_entry) list) \<Rightarrow> bool" where
  "host_ok h items \<longleftrightarrow> plain_listings (ho_os h) \<and> (\<exists>n. lru_spec (ho_du h) items n)"

definition jail_inv :: "pathbuf \<Rightarrow> ('d \<Rightarrow> (pathbuf \<times> du_entry) list) \<Rightarrow> ('o, 'd, 'c) local_state \<Rightarrow> bool" where
  "jail_inv base items s \<longleftrightarrow> lo_canon s = Some base \<and> (\<forall>k \<in> fst ` set (items (lo_du s)). path_is_within base k)"

definition jail_rel :: "('o, 'f) os_ops \<Rightarrow> pathbuf \<Rightarrow> bool \<Rightarrow> bool \<Rightarrow> ('o, 'd, 'c) local_state \<Rightarrow> ('o, 'd, 'c) local_state \<Rightarrow> bool" where
  "jail_rel os base free wr s s' \<longleftrightarrow> (host_step os base free wr)\<^sup>*\<^sup>* (lo_os s) (lo_os s')"

text \<open>A system whose calls all return, and whose \<^verbatim>\<open>write\<close> writes something unless there is nothing to
  write or it fails.  What happens on one that does not is only bounded; on one that does, the
  operations return too, where \<open>t\<close> asks for it.\<close>

definition os_returns :: "('o, 'f) os_ops \<Rightarrow> bool" where
  "os_returns os \<longleftrightarrow>
     (\<forall>p s. os_canonicalize os p s \<noteq> None \<and> os_metadata os p s \<noteq> None \<and> os_symlink_metadata os p s \<noteq> None \<and>
        os_read_dir os p s \<noteq> None \<and> os_remove_dir os p s \<noteq> None \<and> os_remove_file os p s \<noteq> None) \<and>
     (\<forall>p fl s. os_open os p fl s \<noteq> None) \<and> (\<forall>p md s. os_create_dir os p md s \<noteq> None) \<and>
     (\<forall>p q s. os_rename os p q s \<noteq> None \<and> os_reflink os p q s \<noteq> None) \<and>
     (\<forall>f s. fd_metadata os f s \<noteq> None \<and> fd_flush os f s \<noteq> None) \<and>
     (\<forall>f bs s. fd_write_all os f bs s \<noteq> None \<and> fd_write os f bs s \<noteq> None) \<and> (\<forall>f n s. fd_read os f n s \<noteq> None) \<and>
     (\<forall>f sk s. fd_seek os f sk s \<noteq> None) \<and> (\<forall>f tm s. fd_set_modified os f tm s \<noteq> None) \<and>
     (\<forall>f bs s n s'. fd_write os f bs s = Some (Inr n, s') \<longrightarrow> bs \<noteq> [] \<longrightarrow> 0 < n)"

definition jailed :: "bool \<Rightarrow> ('o, 'f, 'd, 'c) host \<Rightarrow> local_cfg \<Rightarrow> pathbuf \<Rightarrow> ('d \<Rightarrow> (pathbuf \<times> du_entry) list) \<Rightarrow> bool \<Rightarrow>
    ('a \<Rightarrow> bool) \<Rightarrow> (('o, 'd, 'c) local_state, 'e, 'a) act \<Rightarrow> bool" where
  "jailed t h cfg base items wr Q m \<longleftrightarrow>
     ((t \<longrightarrow> os_returns (ho_os h)) \<longrightarrow> runs t (jail_inv base items) (jail_rel (ho_os h) base (lc_case_insensitive cfg) wr) Q m)"

lemma jail_rels: "reflp (jail_rel os base free wr)" "transp (jail_rel os base free wr)"
  by (auto simp: reflp_def transp_def jail_rel_def)

named_theorems jail_rules "actions that keep within the base directory"

lemma jailed_ok [jail_rules]: "Q x \<Longrightarrow> jailed t h cfg base items wr Q (ok x)"
  and jailed_fail [jail_rules]: "jailed t h cfg base items wr Q (fail e)"
  and jailed_diverge [jail_rules]: "\<not> t \<Longrightarrow> jailed t h cfg base items wr Q diverge"
  unfolding jailed_def by (auto intro: runs_ok runs_fail runs_diverge jail_rels)

lemma jailed_bind_post:
  "jailed t h cfg base items wr P m \<Longrightarrow> (\<And>x. P x \<Longrightarrow> jailed t h cfg base items wr Q (f x)) \<Longrightarrow> jailed t h cfg base items wr Q (bind m f)"
  unfolding jailed_def by (blast intro: runs_bind_post [OF jail_rels(2)])

lemma jailed_bind [jail_rules]:
  "jailed t h cfg base items wr anything m \<Longrightarrow> (\<And>x. jailed t h cfg base items wr Q (f x)) \<Longrightarrow> jailed t h cfg base items wr Q (bind m f)"
  by (rule jailed_bind_post)

lemma jailed_attempt [jail_rules]: "jailed t h cfg base items wr anything m \<Longrightarrow> jailed t h cfg base items wr anything (attempt m)"
  unfolding jailed_def by (blast intro: runs_attempt)

lemma jailed_weaken: "jailed t h cfg base items wr P m \<Longrightarrow> (\<And>x. P x \<Longrightarrow> Q x) \<Longrightarrow> jailed t h cfg base items wr Q m"
  unfolding jailed_def by (blast intro: runs_weaken)

lemma jailed_if [jail_rules]: "(b \<Longrightarrow> jailed t h cfg base items wr Q m) \<Longrightarrow> (\<not> b \<Longrightarrow> jailed t h cfg base items wr Q n) \<Longrightarrow>
    jailed t h cfg base items wr Q (if b then m else n)"
  by simp

lemma jailed_option [jail_rules]: "(p = None \<Longrightarrow> jailed t h cfg base items wr Q m) \<Longrightarrow> (\<And>x. p = Some x \<Longrightarrow> jailed t h cfg base items wr Q (f x)) \<Longrightarrow>
    jailed t h cfg base items wr Q (case p of None \<Rightarrow> m | Some x \<Rightarrow> f x)"
  by (cases p) simp_all

lemma jailed_sum [jail_rules]: "(\<And>x. p = Inl x \<Longrightarrow> jailed t h cfg base items wr Q (f x)) \<Longrightarrow> (\<And>x. p = Inr x \<Longrightarrow> jailed t h cfg base items wr Q (g x)) \<Longrightarrow>
    jailed t h cfg base items wr Q (case p of Inl x \<Rightarrow> f x | Inr x \<Rightarrow> g x)"
  by (cases p) simp_all

lemma jailed_split [jail_rules]: "(\<And>a b. p = (a, b) \<Longrightarrow> jailed t h cfg base items wr Q (f a b)) \<Longrightarrow>
    jailed t h cfg base items wr Q (case p of (a, b) \<Rightarrow> f a b)"
  by (cases p) simp

lemma jailed_of_sum [jail_rules]: "(\<And>x. r = Inr x \<Longrightarrow> Q x) \<Longrightarrow> jailed t h cfg base items wr Q (of_sum r)"
  by (auto simp: of_sum_def intro: jail_rules split: sum.splits)

lemma jailed_map_err [jail_rules]: "jailed t h cfg base items wr Q m \<Longrightarrow> jailed t h cfg base items wr Q (map_err g m)"
  unfolding jailed_def by (blast intro: runs_map_err)

text \<open>A call of the system, and what it returns.\<close>

definition host_call :: "('o, 'f) os_ops \<Rightarrow> pathbuf \<Rightarrow> bool \<Rightarrow> bool \<Rightarrow> ('o, 'e, 'a) act \<Rightarrow> bool" where
  "host_call os base free wr a \<longleftrightarrow>
     (os_returns os \<longrightarrow> (\<forall>s. a s \<noteq> None)) \<and> (\<forall>s r s'. a s = Some (r, s') \<longrightarrow> (host_step os base free wr)\<^sup>*\<^sup>* s s')"

lemma host_callI:
  assumes "os_returns os \<Longrightarrow> \<forall>s. a s \<noteq> None" and "\<And>s r s'. a s = Some (r, s') \<Longrightarrow> host_step os base free wr s s'"
  shows "host_call os base free wr a"
  unfolding host_call_def using assms by (blast intro: r_into_rtranclp)

lemma host_calls:
  "host_call os base free wr (os_canonicalize os p)"
  "free \<or> path_is_within base p \<Longrightarrow> host_call os base free wr (os_metadata os p)"
  "path_is_within base p \<Longrightarrow> host_call os base free wr (os_symlink_metadata os p)"
  "free \<or> path_is_within base p \<Longrightarrow> host_call os base free wr (os_read_dir os p)"
  "path_is_within base p \<Longrightarrow> only_reads fl \<or> wr \<and> of_nofollow fl \<Longrightarrow> host_call os base free wr (os_open os p fl)"
  "host_call os base free wr (fd_metadata os f)"
  "host_call os base free wr (fd_read os f n)"
  "host_call os base free wr (fd_seek os f sk)"
  by (rule host_callI; (simp add: os_returns_def; fail)?; blast intro: host_step.intros)+

lemma host_changes:
  "path_is_within base p \<Longrightarrow> host_call os base free True (os_create_dir os p md)"
  "path_is_within base p \<Longrightarrow> host_call os base free True (os_remove_dir os p)"
  "path_is_within base p \<Longrightarrow> host_call os base free True (os_remove_file os p)"
  "path_is_within base p \<Longrightarrow> path_is_within base q \<Longrightarrow> host_call os base free True (os_rename os p q)"
  "path_is_within base p \<Longrightarrow> path_is_within base q \<Longrightarrow> host_call os base free True (os_reflink os p q)"
  "host_call os base free True (fd_flush os f)"
  "host_call os base free True (fd_write_all os f bs)"
  "host_call os base free True (fd_set_modified os f tm)"
  by (rule host_callI; (simp add: os_returns_def; fail)?; blast intro: host_step.intros)+

lemma jailed_on_os_post:
  assumes "host_call (ho_os h) base (lc_case_insensitive cfg) wr a" and "\<And>s x s'. a s = Some (Inr x, s') \<Longrightarrow> Q x"
  shows "jailed t h cfg base items wr Q (on_os a)"
  unfolding jailed_def
proof (intro impI runsI)
  fix s assume t: "t \<longrightarrow> os_returns (ho_os h)" and n: "on_os a s = None"
  have "a (lo_os s) = None" using n by (auto simp: on_os_def split: option.splits)
  with t assms(1) show "\<not> t" unfolding host_call_def by blast
qed (use assms in \<open>auto simp: host_call_def on_os_def jail_inv_def jail_rel_def split: option.splits\<close>)

lemma jailed_on_os: "host_call (ho_os h) base (lc_case_insensitive cfg) wr a \<Longrightarrow> jailed t h cfg base items wr anything (on_os a)"
  by (rule jailed_on_os_post) simp_all

lemma jailed_sys: "host_call (ho_os h) base (lc_case_insensitive cfg) wr a \<Longrightarrow> jailed t h cfg base items wr anything (sys a)"
  unfolding sys_def by (intro jailed_map_err jailed_on_os)

text \<open>What only looks at the state and the caches.\<close>

lemma jailedI:
  assumes "\<And>s. t \<Longrightarrow> os_returns (ho_os h) \<Longrightarrow> m s \<noteq> None"
    and "\<And>s r s'. jail_inv base items s \<Longrightarrow> m s = Some (r, s') \<Longrightarrow>
      jail_inv base items s' \<and> jail_rel (ho_os h) base (lc_case_insensitive cfg) wr s s' \<and> (\<forall>x. r = Inr x \<longrightarrow> Q x)"
  shows "jailed t h cfg base items wr Q m"
  unfolding jailed_def using assms by (intro impI runsI) blast+

lemmas call_rules = jailed_on_os jailed_sys host_calls host_changes

section \<open>Every operation keeps inside\<close>

lemma plain_components:
  assumes "good_seg n" "n \<noteq> ''.''" "n \<noteq> ''..''"
  shows "components n = [Normal n]"
proof -
  have "split_on slash n = [n]" "\<not> starts_with n [slash]"
    using assms(1) by (auto simp: good_seg_def starts_with_iff intro: split_on_id)
  with assms show ?thesis by (auto simp: components_def Let_def piece_def good_seg_def)
qed

lemma components_name:
  assumes "components name = [Normal n]"
  shows "components n = [Normal n]"
proof -
  have "concat (map piece (split_on slash name)) = [Normal n]"
    using assms by (auto simp: components_def Let_def split: if_splits)
  then have "Normal n \<in> set (concat (map piece (split_on slash name)))" by (simp only: list.set_intros)
  then obtain s where "s \<in> set (split_on slash name)" "Normal n \<in> set (piece s)" by auto
  then have "n \<in> set (split_on slash name)" "n \<noteq> []" "n \<noteq> ''.''" "n \<noteq> ''..''" by (auto simp: piece_def split: if_splits)
  then show ?thesis using split_on_no_sep by (intro plain_components) (auto simp: good_seg_def)
qed

lemma push_plain: "components n = [Normal n] \<Longrightarrow> path_push n p = p @ [Normal n]"
  by (simp add: path_push_def has_root_def)

lemma push_component: "push_normal_component p name = Inr q \<Longrightarrow> \<exists>n. q = p @ [Normal n]"
  by (auto simp: push_normal_component_def push_plain components_name split: list.splits component.splits)

lemma within_push [simp]: "path_is_within base p \<Longrightarrow> path_is_within base (p @ q)"
  by (simp add: path_is_within_def)

lemma push_within: "push_normal_component p name = Inr q \<Longrightarrow> path_is_within base p \<Longrightarrow> path_is_within base q"
  using push_component by fastforce

lemma dot_components: "components ''.'' = [CurDir]"
  by (simp add: components_def piece_def starts_with_iff)

lemma push_dot: "p \<noteq> [] \<Longrightarrow> path_push ''.'' p = p"
  by (simp add: path_push_def dot_components has_root_def)

lemma within_dot [simp]: "path_is_within base p \<Longrightarrow> path_is_within base (path_push ''.'' p)"
  by (cases "p = []") (auto simp: path_push_def dot_components has_root_def path_is_within_def Let_def)

lemma sidecar_plain: "components ''.dav-calendar'' = [Normal ''.dav-calendar'']"
  "components ''.dav-addressbook'' = [Normal ''.dav-addressbook'']"
  by (rule plain_components; simp add: good_seg_def)+

lemma jailed_canonical: "jailed t h cfg base items wr (\<lambda>b. b = base) (canonical_basedir h cfg)"
  unfolding jailed_def
  by (intro impI runsI) (auto simp: canonical_basedir_def jail_inv_def jail_rel_def runs_def ok_def)

lemma jailed_within: "jailed t h cfg base items wr (\<lambda>_. path_is_within base p) (require_within h cfg p)"
  unfolding require_within_def by (rule jailed_bind_post [OF jailed_canonical]) (auto intro: jail_rules)

lemma jailed_sys_canonicalize: "jailed t h cfg base items wr anything (sys (os_canonicalize (ho_os h) p))"
  by (intro call_rules)

lemma jailed_follow: "jailed t h cfg base items wr (path_is_within base) (confine_follow h cfg p)"
  unfolding confine_follow_def
  by (rule jailed_bind [OF jailed_sys_canonicalize], rule jailed_bind_post [OF jailed_within], rule jailed_ok)

lemma jailed_leaf: "jailed t h cfg base items wr (path_is_within base) (confine_leaf h cfg p)"
proof -
  have a: "jailed t h cfg base items wr (path_is_within base) (bind (require_within h cfg q) (\<lambda>_. ok q))" for q
    by (rule jailed_bind_post [OF jailed_within], rule jailed_ok)
  have b: "jailed t h cfg base items wr (path_is_within base) (bind (require_within h cfg q) (\<lambda>_. of_sum (push_normal_component q n)))" for q n
    by (rule jailed_bind_post [OF jailed_within], rule jailed_of_sum) (rule push_within)
  show ?thesis unfolding confine_leaf_def
    by (intro jailed_if jailed_option jailed_bind jailed_sys_canonicalize jailed_fail a b)
qed

lemma jailed_reject: "path_is_within base p \<Longrightarrow> jailed t h cfg base items wr anything (reject_symlink h p)"
  unfolding reject_symlink_def
  by (intro jail_rules call_rules TrueI)

lemma lru_keys:
  assumes "lru_spec lru items n"
  shows "fst ` set (items (lru_pop lru k c)) \<subseteq> fst ` set (items c)"
    "fst ` set (items (lru_put lru k v c)) \<subseteq> insert k (fst ` set (items c))"
    "lru_peek lru k c = Some v \<Longrightarrow> k \<in> fst ` set (items c)"
proof -
  have d: "fst ` set (AList.delete k xs) \<subseteq> fst ` set xs" for k :: pathbuf and xs :: "(pathbuf \<times> 'b) list"
    by (auto simp: alist_delete_filter)
  show "fst ` set (items (lru_pop lru k c)) \<subseteq> fst ` set (items c)" using assms d by (simp add: lru_spec_def)
  have p: "items (lru_put lru k v c) = take n ((k, v) # AList.delete k (items c))" using assms by (simp add: lru_spec_def)
  have "fst ` set (take n ((k, v) # AList.delete k (items c))) \<subseteq> fst ` set ((k, v) # AList.delete k (items c))"
    by (intro image_mono set_take_subset)
  also have "\<dots> = insert k (fst ` set (AList.delete k (items c)))" by simp
  finally show "fst ` set (items (lru_put lru k v c)) \<subseteq> insert k (fst ` set (items c))"
    unfolding p using d [of k "items c"] by blast
  show "lru_peek lru k c = Some v \<Longrightarrow> k \<in> fst ` set (items c)"
    using assms by (auto simp: lru_spec_def dest: map_of_SomeD intro: rev_image_eqI)
qed

lemma jailed_negative:
  assumes "host_ok h items"
  shows "jailed t h cfg base items wr anything (du_negative h p)"
proof -
  from assms obtain n where lru: "lru_spec (ho_du h) items n" by (auto simp: host_ok_def)
  note keys = lru_keys [OF lru]
  show ?thesis
  proof (rule jailedI)
    fix s assume "os_returns (ho_os h)"
    then have "os_metadata (ho_os h) q s' \<noteq> None" for q s' by (simp add: os_returns_def del: not_None_eq)
    then show "du_negative h p s \<noteq> None"
      by (auto simp: du_negative_def Let_def bind_def attempt_def on_os_def ok_def simp del: not_None_eq split: option.splits)
  next
    fix s r s' assume i: "jail_inv base items s" and d: "du_negative h p s = Some (r, s')"
    show "jail_inv base items s' \<and> jail_rel (ho_os h) base (lc_case_insensitive cfg) wr s s' \<and> (\<forall>x. r = Inr x \<longrightarrow> anything x)"
    proof (cases "os_parent p")
      case (Some parent)
      let ?dir = "path_push ''.'' parent"
      show ?thesis
      proof (cases "lru_peek (ho_du h) ?dir (lo_du s)")
        case None
        with d i Some show ?thesis by (simp add: du_negative_def Let_def jail_rel_def)
      next
        case (Some t)
        then have "?dir \<in> fst ` set (items (lo_du s))" by (rule keys(3))
        then have dir: "path_is_within base ?dir" using i by (simp only: jail_inv_def)
        from d Some \<open>os_parent p = Some parent\<close> obtain q o1 where c: "os_metadata (ho_os h) ?dir (lo_os s) = Some (q, o1)"
          and s': "lo_os s' = o1" "lo_canon s' = lo_canon s" "lo_du s' = lo_du s \<or> lo_du s' = lru_pop (ho_du h) ?dir (lo_du s)"
          by (auto simp: du_negative_def Let_def bind_def attempt_def on_os_def split: option.splits sum.splits if_splits)
        have "host_step (ho_os h) base (lc_case_insensitive cfg) wr (lo_os s) o1"
          by (rule call_metadata [OF _ c]) (simp add: dir)
        moreover have "fst ` set (items (lo_du s')) \<subseteq> fst ` set (items (lo_du s))"
          using s'(3) keys(1) [of ?dir "lo_du s"] by (elim disjE) simp_all
        ultimately show ?thesis using i s'(1,2) unfolding jail_inv_def jail_rel_def
          by (metis subsetD r_into_rtranclp)
      qed
    qed (use d i in \<open>simp add: du_negative_def jail_rel_def\<close>)
  qed
qed

lemma jailed_notfound: "host_ok h items \<Longrightarrow> jailed t h cfg base items wr anything (is_notfound h cfg p)"
  unfolding is_notfound_def by (intro jail_rules jailed_negative TrueI)

lemma jailed_metadata_free: "lc_case_insensitive cfg \<Longrightarrow> jailed t h cfg base items wr anything (on_os (os_metadata (ho_os h) p))"
  by (intro call_rules disjI1)

lemma jailed_ci_insert: "jailed t h cfg base items wr anything (ci_insert h p)"
  by (rule jailedI) (auto simp: ci_insert_def Let_def jail_inv_def jail_rel_def ok_def split: if_splits)

lemma jailed_ci_get:
  assumes "lc_case_insensitive cfg"
  shows "jailed t h cfg base items wr anything (ci_get h p)"
proof (rule jailedI)
  fix s assume "os_returns (ho_os h)"
  then have "os_metadata (ho_os h) q s' \<noteq> None" for q s' by (simp add: os_returns_def del: not_None_eq)
  then show "ci_get h p s \<noteq> None"
    by (auto simp: ci_get_def Let_def bind_def attempt_def on_os_def ok_def simp del: not_None_eq split: option.splits prod.splits sum.splits)
next
  fix s r s' assume i: "jail_inv base items s" and g: "ci_get h p s = Some (r, s')"
  have "lo_canon s' = lo_canon s \<and> lo_du s' = lo_du s \<and> (lo_os s' = lo_os s \<or> (\<exists>q x. os_metadata (ho_os h) q (lo_os s) = Some (x, lo_os s')))"
    using g by (auto simp: ci_get_def Let_def bind_def attempt_def on_os_def split: option.splits sum.splits prod.splits)
  then show "jail_inv base items s' \<and> jail_rel (ho_os h) base (lc_case_insensitive cfg) wr s s' \<and> (\<forall>x. r = Inr x \<longrightarrow> anything x)"
    using i call_metadata [of "lc_case_insensitive cfg" base, OF disjI1 [OF assms]]
    unfolding jail_inv_def jail_rel_def by (metis r_into_rtranclp rtranclp.rtrancl_refl)
qed

lemma jailed_lookup:
  assumes "lc_case_insensitive cfg"
  shows "jailed t h cfg base items wr anything (ci_lookup h p seg b)"
proof -
  have "jailed t h cfg base items wr anything (on_os (os_read_dir (ho_os h) p))"
    by (intro call_rules disjI1 assms)
  then show ?thesis unfolding ci_lookup_def
    by (intro jail_rules jailed_metadata_free assms TrueI)
qed

lemma jailed_resolve_segs:
  assumes "lc_case_insensitive cfg"
  shows "jailed t h cfg base items wr anything (resolve_segs h segs p stop)"
proof (induction segs arbitrary: p stop)
  case (Cons seg segs)
  show ?case unfolding resolve_segs.simps
    by (intro jail_rules jailed_lookup [OF assms] jailed_ci_insert Cons.IH TrueI)
qed (simp add: jailed_ok)

lemma jailed_resolve:
  assumes "lc_case_insensitive cfg"
  shows "jailed t h cfg base items wr anything (ci_resolve h b p)"
  unfolding ci_resolve_def known_parent_def
  by (intro jail_rules jailed_ci_get jailed_metadata_free jailed_lookup jailed_ci_insert jailed_resolve_segs assms TrueI)

lemma jailed_fspath: "jailed t h cfg base items wr anything (fspath h cfg p)"
  unfolding fspath_def by (intro jail_rules jailed_resolve TrueI)

lemma jailed_metadata: "path_is_within base p \<Longrightarrow> jailed t h cfg base items wr anything (sys (os_metadata (ho_os h) p))"
  "path_is_within base p \<Longrightarrow> jailed t h cfg base items wr anything (on_os (os_metadata (ho_os h) p))"
  "path_is_within base p \<Longrightarrow> jailed t h cfg base items wr anything (sys (os_symlink_metadata (ho_os h) p))"
  "path_is_within base p \<Longrightarrow> jailed t h cfg base items wr anything (on_os (os_symlink_metadata (ho_os h) p))"
  by (intro call_rules disjI2; assumption)+

lemma jailed_sidecar: "(\<And>d. dir = Some d \<Longrightarrow> path_is_within base d) \<Longrightarrow> n = ''.dav-calendar'' \<or> n = ''.dav-addressbook'' \<Longrightarrow>
    jailed t h cfg base items wr anything (has_sidecar h dir n)"
  unfolding has_sidecar_def by (intro jail_rules jailed_metadata TrueI) (auto simp: push_plain sidecar_plain)

text \<open>Entity tags are made of characters that a header may have.\<close>

definition plain_tag :: "dav_meta \<Rightarrow> bool" where
  "plain_tag m \<longleftrightarrow> (\<forall>e. md_etag m = Some e \<longrightarrow> set e \<subseteq> tag_chars)"

lemma dash_char: "CHR ''-'' \<in> tag_chars"
  by (simp add: tag_chars_def)

lemma empty_meta_tag: "plain_tag empty_meta_data"
  using show_hex_chars dash_char
  by (auto simp: plain_tag_def empty_meta_data_def default_etag_def Let_def split: if_splits)

lemma jailed_meta:
  assumes "\<And>d. p = Some d \<Longrightarrow> path_is_within base d"
  shows "jailed t h cfg base items wr plain_tag (local_meta h p m)"
proof -
  have "set e \<subseteq> tag_chars" if "local_etag m = Some e" for e
    using that dash_char by (auto simp: local_etag_def Let_def dest: subsetD [OF show_hex_chars] split: sum.splits if_splits)
  then have o: "jailed t h cfg base items wr plain_tag (ok \<lparr>md_len = om_len m, md_modified = map_sum ioerror_to_fserror id (om_modified m), md_is_dir = om_dir m, md_is_file = om_file m,
      md_is_symlink = om_symlink m, md_is_calendar = (\<lambda>_. cal), md_is_addressbook = (\<lambda>_. card), md_etag = local_etag m,
      md_accessed = map_sum ioerror_to_fserror id (om_accessed m), md_created = map_sum ioerror_to_fserror id (om_created m),
      md_status_changed = Inr (int (om_ctime m) * 1000000000), md_executable = local_executable m\<rparr>)" for cal card
    by (intro jailed_ok) (simp add: plain_tag_def)
  show ?thesis unfolding local_meta_def Let_def
    by (intro jailed_bind jailed_sidecar o) (use assms in \<open>auto simp: sidecar_dir_def split: if_splits\<close>)
qed

lemma jailed_localfs_metadata:
  assumes "host_ok h items"
  shows "jailed t h cfg base items wr plain_tag (localfs_metadata h cfg p)"
    and "jailed t h cfg base items wr plain_tag (localfs_symlink_metadata h cfg p)"
proof -
  have v: "is_virtual cfg p = Some m \<Longrightarrow> plain_tag m" for m
    by (auto simp: is_virtual_def empty_meta_tag split: if_splits)
  have a: "jailed t h cfg base items wr plain_tag (bind (confine_follow h cfg q) (\<lambda>q. bind (sys (os_metadata (ho_os h) q)) (local_meta h (Some q))))" for q
    by (rule jailed_bind_post [OF jailed_follow], rule jailed_bind [OF jailed_metadata(1)], assumption, rule jailed_meta) simp
  have b: "jailed t h cfg base items wr plain_tag (bind (confine_leaf h cfg q) (\<lambda>q. bind (sys (os_symlink_metadata (ho_os h) q)) (local_meta h (Some q))))" for q
    by (rule jailed_bind_post [OF jailed_leaf], rule jailed_bind [OF jailed_metadata(3)], assumption, rule jailed_meta) simp
  show "jailed t h cfg base items wr plain_tag (localfs_metadata h cfg p)"
    unfolding localfs_metadata_def
    by (intro jailed_option jailed_bind [OF jailed_fspath] jailed_bind [OF jailed_notfound [OF assms]] jailed_if jailed_fail jailed_ok v a TrueI)
  show "jailed t h cfg base items wr plain_tag (localfs_symlink_metadata h cfg p)"
    unfolding localfs_symlink_metadata_def
    by (intro jailed_option jailed_bind [OF jailed_fspath] jailed_bind [OF jailed_notfound [OF assms]] jailed_if jailed_fail jailed_ok v b TrueI)
qed

section \<open>Listings\<close>

definition inside_entry :: "pathbuf \<Rightarrow> io_error + local_dirent \<Rightarrow> bool" where
  "inside_entry base e \<longleftrightarrow> (case e of Inl _ \<Rightarrow> True | Inr (_, q, _) \<Rightarrow> path_is_within base q)"

definition plain_names :: "(io_error + bytes) list \<Rightarrow> bool" where
  "plain_names es \<longleftrightarrow> (\<forall>n. Inr n \<in> set es \<longrightarrow> components n = [Normal n])"

lemma plain_names_simps [simp]:
  "plain_names []" "plain_names (Inl e # es) \<longleftrightarrow> plain_names es"
  "plain_names (Inr n # es) \<longleftrightarrow> components n = [Normal n] \<and> plain_names es"
  by (auto simp: plain_names_def)

lemma jailed_entry_meta:
  assumes "path_is_within base dir" "components n = [Normal n]"
  shows "jailed t h cfg base items wr anything (entry_meta h do_meta dir n)"
  using assms unfolding entry_meta_def
  by (cases do_meta) (auto simp: push_plain intro!: jail_rules jailed_metadata)

lemma jailed_batch:
  "path_is_within base dir \<Longrightarrow> plain_names es \<Longrightarrow> jailed t h cfg base items wr (\<lambda>(buffer, rest). plain_names rest \<and> length buffer + length rest = length es \<and>
    (\<forall>e \<in> set buffer. inside_entry base e \<and> (\<forall>x. e = Inr x \<longrightarrow> components (fst x) = [Normal (fst x)])))
    (read_batch n h do_meta dir es)"
proof (induction n h do_meta dir es rule: read_batch.induct)
  case (4 n h do_meta dir name es)
  from 4(3) have n: "components name = [Normal name]" "plain_names es" by simp_all
  show ?case unfolding read_batch.simps
    by (rule jailed_bind [OF jailed_entry_meta [OF 4(2) n(1)]], rule jailed_bind_post [OF 4(1) [OF 4(2) n(2)]])
      (auto simp: inside_entry_def push_plain n 4(2) intro!: jailed_ok)
qed (auto intro!: jail_rules simp: inside_entry_def)

lemma add_names_plain:
  "\<forall>e \<in> set buffer. \<forall>x. e = Inr x \<longrightarrow> components (fst x) = [Normal (fst x)] \<Longrightarrow>
   \<forall>n \<in> set names. components n = [Normal n] \<Longrightarrow> \<forall>n \<in> set (add_names buffer names). components n = [Normal n]"
proof (induction buffer arbitrary: names)
  case (Cons e buffer)
  show ?case
  proof (cases e)
    case (Inr x)
    obtain n y where x: "x = (n, y)" by (cases x)
    have "\<forall>n \<in> set (du_add n names). components n = [Normal n]"
      using Cons.prems Inr x by (auto simp: du_add_def split: option.splits)
    from Cons.IH [OF _ this] Cons.prems(1) Inr x show ?thesis by (simp add: add_names_def)
  qed (use Cons in \<open>simp add: add_names_def\<close>)
qed (simp add: add_names_def)

lemma put_within:
  assumes "lru_spec lru items n" "path_is_within base k" "\<forall>k \<in> fst ` set (items c). path_is_within base k"
  shows "\<forall>k \<in> fst ` set (items (lru_put lru k v c)). path_is_within base k"
  using lru_keys(2) [OF assms(1), of k v c] assms(2,3) by blast

lemma puts_within:
  assumes "lru_spec lru items n" "path_is_within base dir"
  shows "\<forall>m \<in> set names. components m = [Normal m] \<Longrightarrow> \<forall>k \<in> fst ` set (items c). path_is_within base k \<Longrightarrow>
    \<forall>k \<in> fst ` set (items (fold (\<lambda>m. lru_put lru (path_push m dir) e) names c)). path_is_within base k"
proof (induction names arbitrary: c)
  case (Cons m names)
  have "path_is_within base (path_push m dir)" using Cons.prems(1) assms(2) by (simp add: push_plain)
  from Cons.IH [OF _ put_within [OF assms(1) this Cons.prems(2)]] Cons.prems(1)
  show ?case unfolding fold_simps by simp
qed simp

lemma jailed_finish:
  fixes h :: "('o, 'f, 'd, 'c) host"
  assumes "host_ok h items" "path_is_within base dir" "\<forall>m \<in> set names. components m = [Normal m]"
  shows "jailed t h cfg base items wr anything (du_finish h dir names)"
proof -
  from assms(1) obtain n where lru: "lru_spec (ho_du h) items n" by (auto simp: host_ok_def)
  have "jailed t h cfg base items wr anything (\<lambda>s. let e = \<lparr>du_time = os_now (ho_os h) (lo_os s), du_modtime = mt, du_id = lo_dir_id s\<rparr>;
      c = lru_put (ho_du h) (path_push ''.'' dir) e (lo_du s)
      in ok () (s\<lparr>lo_dir_id := Suc (lo_dir_id s), lo_du := fold (\<lambda>n. lru_put (ho_du h) (path_push n dir) e) names c\<rparr>))" for mt
    unfolding Let_def
  proof (rule jailedI)
    fix s s' :: "('o, 'd, 'c) local_state" and r
    let ?e = "\<lparr>du_time = os_now (ho_os h) (lo_os s), du_modtime = mt, du_id = lo_dir_id s\<rparr>"
    assume i: "jail_inv base items s" and r: "ok () (s\<lparr>lo_dir_id := Suc (lo_dir_id s), lo_du := fold (\<lambda>n. lru_put (ho_du h) (path_push n dir) ?e) names
        (lru_put (ho_du h) (path_push ''.'' dir) ?e (lo_du s))\<rparr>) = Some (r, s')"
    have "path_is_within base (path_push ''.'' dir)" using assms(2) by simp
    moreover have "\<forall>k \<in> fst ` set (items (lo_du s)). path_is_within base k" using i unfolding jail_inv_def by blast
    moreover have s': "lo_du s' = fold (\<lambda>n. lru_put (ho_du h) (path_push n dir) ?e) names (lru_put (ho_du h) (path_push ''.'' dir) ?e (lo_du s))"
      using r by (auto simp: ok_def)
    ultimately have "\<forall>k \<in> fst ` set (items (lo_du s')). path_is_within base k"
      unfolding s' by (intro puts_within [OF lru assms(2,3)] put_within [OF lru])
    then show "jail_inv base items s' \<and> jail_rel (ho_os h) base (lc_case_insensitive cfg) wr s s' \<and> (\<forall>x. r = Inr x \<longrightarrow> anything x)"
      using r i unfolding jail_inv_def jail_rel_def by auto
  qed simp
  then show ?thesis unfolding du_finish_def
    by (intro jailed_bind jailed_attempt jailed_metadata(2) jailed_sum jailed_ok assms(2) TrueI)
qed

lemma jailed_stream:
  assumes "host_ok h items" "path_is_within base dir"
  shows "plain_names es \<Longrightarrow> \<forall>m \<in> set names. components m = [Normal m] \<Longrightarrow> (t \<longrightarrow> length es < n) \<Longrightarrow>
    jailed t h cfg base items wr (\<lambda>es. \<forall>e \<in> set es. inside_entry base e) (read_stream n h cfg do_meta dir es names)"
proof (induction n arbitrary: es names)
  case (Suc n)
  have step: "jailed t h cfg base items wr (\<lambda>es. \<forall>e \<in> set es. inside_entry base e)
      (case br of (buffer, rest) \<Rightarrow> let names1 = add_names buffer names
       in if buffer = [] then bind (if lc_macos cfg then du_finish h dir names1 else ok ()) (\<lambda>_. ok [])
          else if (case last buffer of Inl _ \<Rightarrow> True | Inr _ \<Rightarrow> False) then ok buffer
          else bind (read_stream n h cfg do_meta dir rest names1) (\<lambda>more. ok (buffer @ more)))"
    if "case br of (buffer, rest) \<Rightarrow> plain_names rest \<and> length buffer + length rest = length es \<and>
      (\<forall>e \<in> set buffer. inside_entry base e \<and> (\<forall>x. e = Inr x \<longrightarrow> components (fst x) = [Normal (fst x)]))" for br
  proof -
    obtain buffer rest where br: "br = (buffer, rest)" by (cases br)
    with that have b: "plain_names rest" "length buffer + length rest = length es"
      "\<forall>e \<in> set buffer. inside_entry base e \<and> (\<forall>x. e = Inr x \<longrightarrow> components (fst x) = [Normal (fst x)])" by simp_all
    have names: "\<forall>m \<in> set (add_names buffer names). components m = [Normal m]"
      by (rule add_names_plain) (use b(3) Suc.prems(2) in auto)
    have less: "t \<longrightarrow> length rest < n" if "buffer \<noteq> []" using that b(2) Suc.prems(3) by (cases buffer) auto
    have fin: "jailed t h cfg base items wr (\<lambda>es. \<forall>e \<in> set es. inside_entry base e)
        (bind (if lc_macos cfg then du_finish h dir (add_names buffer names) else ok ()) (\<lambda>_. ok []))"
      by (intro jailed_bind jailed_if jailed_finish [OF assms names] jailed_ok TrueI) simp
    have buf: "jailed t h cfg base items wr (\<lambda>es. \<forall>e \<in> set es. inside_entry base e) (ok buffer)"
      by (rule jailed_ok) (use b(3) in blast)
    have more: "jailed t h cfg base items wr (\<lambda>es. \<forall>e \<in> set es. inside_entry base e)
        (bind (read_stream n h cfg do_meta dir rest (add_names buffer names)) (\<lambda>more. ok (buffer @ more)))" if "buffer \<noteq> []"
      by (rule jailed_bind_post [OF Suc.IH [OF b(1) names less [OF that]]], rule jailed_ok) (use b(3) in auto)
    show ?thesis unfolding br prod.case Let_def by (intro jailed_if fin buf more)
  qed
  show ?case unfolding read_stream.simps
    by (rule jailed_bind_post [OF jailed_batch [OF assms(2) Suc.prems(1)]]) (rule step)
qed (simp add: jailed_diverge)

end
