(* ===== verification/Local_Jail.thy ===== *)
theory Local_Jail
  imports Local_Props
begin

text \<open>
  The rest of the operations of the local filesystem keep within the base directory too: the entries of a
  listing, opening, creating, removing, renaming, copying, the time of a file, and an open file.
\<close>

lemma jailed_entry:
  assumes "path_is_within base (fst (snd de))"
  shows "jailed t h cfg base items wr plain_tag (de_metadata (local_entry h de))"
proof -
  note m = jailed_meta [where p = "Some (fst (snd de))" and base = base, simplified, OF assms]
  show ?thesis unfolding local_entry_def entry_metadata_def dirent.simps
    by (intro jailed_option jailed_sum jailed_fail jailed_bind jailed_metadata(3) m assms)
qed

lemma jailed_read_dir:
  assumes "host_ok h items"
  shows "jailed t h cfg base items wr (\<lambda>es. \<forall>de. Inr de \<in> set es \<longrightarrow> jailed t h cfg base items wr plain_tag (de_metadata de))
    (localfs_read_dir h cfg p do_meta)"
proof -
  have l: "jailed t h cfg base items wr plain_names (sys (os_read_dir (ho_os h) q))" if "path_is_within base q" for q
    unfolding sys_def
    by (rule jailed_map_err, rule jailed_on_os_post)
      (use that assms in \<open>auto simp: host_ok_def plain_listings_def plain_names_def intro: host_calls\<close>)
  have e: "jailed t h cfg base items wr plain_tag (de_metadata de)"
    if "\<forall>e \<in> set es. inside_entry base e" "Inr de \<in> set (map (map_sum ioerror_to_fserror (local_entry h)) es)" for es de
  proof -
    from that(2) obtain y where y: "y \<in> set es" "map_sum ioerror_to_fserror (local_entry h) y = Inr de" by auto
    from y(2) obtain x where x: "y = Inr x" "de = local_entry h x" by (cases y) simp_all
    from that(1) y(1) x(1) have "path_is_within base (fst (snd x))" by (cases x) (force simp: inside_entry_def)
    then show ?thesis unfolding x(2) by (rule jailed_entry)
  qed
  show ?thesis unfolding localfs_read_dir_def
    by (rule jailed_bind [OF jailed_fspath], rule jailed_bind_post [OF jailed_follow], rule jailed_bind_post [OF l], assumption,
        rule jailed_bind_post [OF jailed_map_err [OF jailed_stream [OF assms]]])
      (auto intro: e jailed_ok)
qed

section \<open>Opening, changing and files\<close>

lemma only_reads_flags: "only_reads (open_flags oo md False)" if "\<not> (oo_write oo \<or> oo_append oo \<or> oo_truncate oo \<or> oo_create oo \<or> oo_create_new oo)"
  using that by (simp add: only_reads_def open_flags_def)

lemma jailed_sys_open:
  "path_is_within base p \<Longrightarrow> only_reads fl \<or> wr \<and> of_nofollow fl \<Longrightarrow> jailed t h cfg base items wr anything (sys (os_open (ho_os h) p fl))"
  by (intro call_rules)

lemma jailed_open:
  assumes "wr \<or> \<not> (oo_write oo \<or> oo_append oo \<or> oo_truncate oo \<or> oo_create oo \<or> oo_create_new oo)"
  shows "jailed t h cfg base items wr anything (localfs_open h cfg p oo)"
proof -
  have leaf: "jailed t h cfg base items wr (path_is_within base) (bind (confine_leaf h cfg q) (\<lambda>q. bind (reject_symlink h q) (\<lambda>_. ok q)))" for q
    by (rule jailed_bind_post [OF jailed_leaf], rule jailed_bind [OF jailed_reject], assumption, rule jailed_ok)
  have o: "jailed t h cfg base items wr anything (bind (sys (os_open (ho_os h) q (open_flags oo md mutating))) (\<lambda>f. ok (lf f)))"
    if "path_is_within base q" "mutating \<longleftrightarrow> oo_write oo \<or> oo_append oo \<or> oo_truncate oo \<or> oo_create oo \<or> oo_create_new oo" for q md mutating lf
  proof -
    have "only_reads (open_flags oo md mutating) \<or> wr \<and> of_nofollow (open_flags oo md mutating)"
      using assms that(2) only_reads_flags [of oo md] by (cases mutating) (auto simp: open_flags_def only_reads_def)
    then show ?thesis by (intro jailed_bind jailed_sys_open jailed_ok that(1) TrueI)
  qed
  have f: "jailed t h cfg base items wr anything (bind (if b then bind (confine_leaf h cfg q) (\<lambda>q. bind (reject_symlink h q) (\<lambda>_. ok q))
      else confine_follow h cfg q) (\<lambda>q. bind (sys (os_open (ho_os h) q (open_flags oo md mutating))) (\<lambda>f. ok (lf f))))"
    if "mutating \<longleftrightarrow> oo_write oo \<or> oo_append oo \<or> oo_truncate oo \<or> oo_create oo \<or> oo_create_new oo" for q md mutating lf b
  proof (rule jailed_bind_post)
    show "jailed t h cfg base items wr (path_is_within base) (if b then bind (confine_leaf h cfg q) (\<lambda>q. bind (reject_symlink h q) (\<lambda>_. ok q))
      else confine_follow h cfg q)"
      by (rule jailed_if [OF leaf jailed_follow])
  qed (rule o [OF _ that])
  show ?thesis unfolding localfs_open_def Let_def
    by (rule jailed_if [OF jailed_fail], rule jailed_bind [OF jailed_fspath], rule f, rule refl)
qed

lemma leaf_then:
  "(\<And>q. path_is_within base q \<Longrightarrow> jailed t h cfg base items wr Q (f q)) \<Longrightarrow> jailed t h cfg base items wr Q (bind (confine_leaf h cfg p) f)"
  by (rule jailed_bind_post [OF jailed_leaf])

lemma jailed_changes:
  assumes "path_is_within base p"
  shows "jailed t h cfg base items True anything (sys (os_create_dir (ho_os h) p md))"
    and "jailed t h cfg base items True anything (sys (os_remove_dir (ho_os h) p))"
    and "jailed t h cfg base items True anything (sys (os_remove_file (ho_os h) p))"
    and "jailed t h cfg base items True anything (on_os (os_remove_file (ho_os h) p))"
    and "path_is_within base q \<Longrightarrow> jailed t h cfg base items True anything (sys (os_rename (ho_os h) p q))"
    and "path_is_within base q \<Longrightarrow> jailed t h cfg base items True anything (on_os (os_rename (ho_os h) p q))"
    and "path_is_within base q \<Longrightarrow> jailed t h cfg base items True anything (sys (os_reflink (ho_os h) p q))"
  by (intro call_rules assms; assumption)+

lemma changes_jailed:
  "jailed t h cfg base items True anything (localfs_create_dir h cfg p)"
  "jailed t h cfg base items True anything (localfs_remove_dir h cfg p)"
  "jailed t h cfg base items True anything (localfs_remove_file h cfg p)"
  unfolding localfs_create_dir_def localfs_remove_dir_def localfs_remove_file_def Let_def
  by (intro jailed_if jailed_fail jailed_bind [OF jailed_fspath] leaf_then jailed_bind [OF jailed_reject] jailed_changes; assumption)+

lemma jailed_resource: "jailed t h cfg base items wr (\<lambda>r. \<forall>q. r = Some q \<longrightarrow> path_is_within base q) (resource_path h cfg p)"
proof -
  have a: "jailed t h cfg base items wr (\<lambda>r. case r of Inl _ \<Rightarrow> True | Inr q \<Rightarrow> path_is_within base q) (attempt (confine_follow h cfg p))"
    using runs_attempt_post jailed_follow unfolding jailed_def by fast
  show ?thesis unfolding resource_path_def
    by (rule jailed_bind_post [OF a]) (auto intro!: jail_rules split: sum.splits)
qed

lemma same_jailed: "jailed t h cfg base items wr anything (localfs_same_resource h cfg p q)"
  unfolding localfs_same_resource_def
  by (intro jailed_bind [OF jailed_fspath] jailed_bind_post [OF jailed_resource] jailed_option jailed_if jailed_ok
      jailed_bind [OF jailed_metadata(1)] TrueI) auto

lemma rename_jailed: "jailed t h cfg base items True anything (localfs_rename h cfg p q)"
  unfolding localfs_rename_def
  by (intro jailed_if jailed_fail jailed_ok jailed_bind [OF jailed_fspath] leaf_then jailed_bind jailed_attempt jailed_sum
      jailed_changes jailed_metadata(4) TrueI; assumption)

lemma copy_jailed: "jailed t h cfg base items True anything (localfs_copy h cfg p q)"
  unfolding localfs_copy_def
  by (intro jailed_if jailed_fail jailed_bind [OF jailed_fspath] jailed_bind_post [OF jailed_follow] leaf_then
      jailed_bind [OF jailed_reject] jailed_changes; assumption)

text \<open>Open files.\<close>

lemma host_call_ok: "host_call os base free wr (ok x)"
  by (simp add: host_call_def ok_def)

lemma host_call_bind:
  assumes "host_call os base free wr a" "\<And>x. host_call os base free wr (f x)"
  shows "host_call os base free wr (bind a f)"
  unfolding host_call_def
proof (intro conjI impI allI)
  fix s assume "os_returns os"
  then have "a s \<noteq> None" "f x s' \<noteq> None" for x s' using assms unfolding host_call_def by blast+
  then show "bind a f s \<noteq> None" by (auto simp: bind_def simp del: not_None_eq split: option.splits sum.splits)
next
  fix s r s' assume b: "bind a f s = Some (r, s')"
  then show "(host_step os base free wr)\<^sup>*\<^sup>* s s'"
  proof (cases rule: bind_cases [OF b, consumes 0])
    case (1 e)
    then show ?thesis using assms(1) unfolding host_call_def by blast
  next
    case (2 x s1)
    then show ?thesis using assms unfolding host_call_def by (meson rtranclp_trans)
  qed
qed

lemma host_call_attempt: "host_call os base free wr a \<Longrightarrow> host_call os base free wr (attempt a)"
  unfolding host_call_def attempt_def by (fastforce simp del: not_None_eq split: option.splits)

lemma host_call_sum: "(\<And>x. host_call os base free wr (f x)) \<Longrightarrow> (\<And>x. host_call os base free wr (g x)) \<Longrightarrow>
    host_call os base free wr (case r of Inl x \<Rightarrow> f x | Inr x \<Rightarrow> g x)"
  by (cases r) simp_all

lemma advance_length: "length (concat (buf_advance n bs)) = length (concat bs) - n"
  by (induction n bs rule: buf_advance.induct) auto

lemma skip_empty: "concat (dropWhile (\<lambda>c. c = []) bs) = concat bs"
  by (induction bs) auto

lemma write_rounds_returns:
  assumes "os_returns os"
  shows "write_rounds os f buf s \<noteq> None"
proof (induction "length (concat buf)" arbitrary: buf s rule: less_induct)
  case less
  show ?case
  proof (cases "dropWhile (\<lambda>c. c = []) buf")
    case Nil
    then show ?thesis by (subst write_rounds.simps) (simp only: list.case, simp)
  next
    case (Cons c cs)
    have "hd (dropWhile (\<lambda>c. c = []) buf) \<noteq> []" by (rule hd_dropWhile) (simp only: Cons, simp)
    then have c: "c \<noteq> []" unfolding Cons by simp
    have buf: "concat buf = c @ concat cs" using skip_empty [of buf, symmetric] unfolding Cons concat.simps .
    have "fd_write os f c s \<noteq> None" using assms by (simp add: os_returns_def del: not_None_eq)
    then obtain r s' where w: "fd_write os f c s = Some (r, s')" by auto
    have "\<forall>f bs s n s'. fd_write os f bs s = Some (Inr n, s') \<longrightarrow> bs \<noteq> [] \<longrightarrow> 0 < n"
      using assms unfolding os_returns_def by (elim conjE)
    with w c have "0 < n" if "r = Inr n" for n using that by blast
    then have "write_rounds os f (buf_advance n (c # cs)) s' \<noteq> None" if "r = Inr n" for n
      using that c by (intro less) (simp only: advance_length concat.simps buf, simp)
    then show ?thesis unfolding write_rounds.simps [of os f buf s] Cons list.case w option.case prod.case by (cases r) simp_all
  qed
qed

lemma write_rounds_steps:
  assumes "write_rounds os f buf s = Some y"
  shows "(host_step os base free True)\<^sup>*\<^sup>* s (snd y)"
proof (rule write_rounds.raw_induct [where P = "\<lambda>os f buf s y. (host_step os base free True)\<^sup>*\<^sup>* s (snd y)", OF _ assms])
  fix rec :: "('a, 'b) os_ops \<Rightarrow> 'b \<Rightarrow> bytes list \<Rightarrow> 'a \<Rightarrow> ((io_error + unit) \<times> 'a) option" and os f buf s y
  assume rec: "\<And>os f buf s y. rec os f buf s = Some y \<Longrightarrow> (host_step os base free True)\<^sup>*\<^sup>* s (snd y)"
    and y: "(case dropWhile (\<lambda>c. c = []) buf of
        [] \<Rightarrow> Some (Inr (), s)
      | c # cs \<Rightarrow> (case fd_write os f c s of
          None \<Rightarrow> None
        | Some (r, o2) \<Rightarrow> (case r of
            Inl e \<Rightarrow> Some (Inl e, o2)
          | Inr n \<Rightarrow> rec os f (buf_advance n (c # cs)) o2))) = Some y"
  show "(host_step os base free True)\<^sup>*\<^sup>* s (snd y)"
  proof (cases "dropWhile (\<lambda>c. c = []) buf")
    case (Cons c cs)
    with y obtain q s1 where w: "fd_write os f c s = Some (q, s1)"
      "s1 = snd y \<or> (\<exists>n. rec os f (buf_advance n (c # cs)) s1 = Some y)" by (auto simp del: buf_advance.simps split: option.splits sum.splits; blast)
    have "host_step os base free True s s1" by (rule file_write [OF TrueI w(1)])
    with w(2) rec show ?thesis by (metis converse_rtranclp_into_rtranclp rtranclp.rtrancl_refl)
  next
    case Nil
    with y show ?thesis by (simp only: Nil list.case option.inject) auto
  qed
qed

lemma host_write_rounds: "host_call os base free True (write_rounds os f buf)"
  unfolding host_call_def using write_rounds_returns write_rounds_steps by fastforce

lemma host_read_into: "host_call os base free wr (read_bytes_into os f b n)"
  unfolding read_bytes_into_def by (intro host_call_bind host_call_ok host_calls)

lemma files_jailed:
  "jailed t h cfg base items wr (\<lambda>x. plain_tag (fst x)) (localf_metadata h f)"
  "jailed t h cfg base items wr anything (localf_read_bytes h f n)"
  "jailed t h cfg base items wr anything (localf_seek h f sk)"
  "jailed t h cfg base items True anything (localf_write_bytes h f bs)"
  "jailed t h cfg base items True anything (localf_write_buf h f bss)"
  "jailed t h cfg base items True anything (localf_flush h f)"
proof -
  have m: "jailed t h cfg base items wr plain_tag (local_meta h None m)" for m by (rule jailed_meta) simp
  show "jailed t h cfg base items wr (\<lambda>x. plain_tag (fst x)) (localf_metadata h f)"
    unfolding localf_metadata_def by (intro jailed_bind call_rules jailed_bind_post [OF m] jailed_ok) simp
  show "jailed t h cfg base items wr anything (localf_read_bytes h f n)"
    unfolding localf_read_bytes_def by (intro jailed_bind jailed_sys host_read_into jailed_split jailed_ok TrueI)
  show "jailed t h cfg base items wr anything (localf_seek h f sk)"
    unfolding localf_seek_def by (intro jailed_bind jailed_ok TrueI call_rules)
  show "jailed t h cfg base items True anything (localf_write_bytes h f bs)"
    unfolding localf_write_bytes_def by (intro jailed_bind jailed_ok TrueI call_rules)
  show "jailed t h cfg base items True anything (localf_write_buf h f bss)"
    unfolding localf_write_buf_def by (intro jailed_bind jailed_ok TrueI jailed_sys host_write_rounds)
  show "jailed t h cfg base items True anything (localf_flush h f)"
    unfolding localf_flush_def by (intro jailed_bind jailed_ok TrueI call_rules)
qed

lemma mark_jailed: "jailed t h cfg base items True anything (mark_sidecar h cfg p n)"
proof -
  have s: "jailed t h cfg base items True (path_is_within base) (of_sum (push_normal_component q n))" if "path_is_within base q" for q
    by (rule jailed_of_sum) (rule push_within [OF _ that])
  have f: "only_reads sidecar_flags \<or> True \<and> of_nofollow sidecar_flags" by (simp add: sidecar_flags_def)
  show ?thesis unfolding mark_sidecar_def
    by (intro jailed_bind [OF jailed_fspath] leaf_then jailed_bind_post [OF s] jailed_bind [OF jailed_reject] jailed_bind [OF jailed_sys_open [OF _ f]]
        jailed_ok TrueI)
qed

lemma times_jailed: "jailed t h cfg base items True anything (localfs_set_modified h cfg p tm)"
proof -
  have fl: "only_reads (times_flags b) \<or> True \<and> of_nofollow (times_flags b)" for b by (simp add: times_flags_def)
  have o: "host_call (ho_os h) base (lc_case_insensitive cfg) True (open_for_times (ho_os h) q)" if "path_is_within base q" for q
    unfolding open_for_times_def by (intro host_call_bind host_call_attempt host_call_sum host_call_ok host_calls that fl)
  show ?thesis unfolding localfs_set_modified_def
    by (intro jailed_if jailed_fail jailed_bind [OF jailed_fspath] leaf_then jailed_bind [OF jailed_reject]
        jailed_bind [OF jailed_sys [OF o]] call_rules)
qed

end
