(* ===== verification/Local_Cache.thy ===== *)
theory Local_Cache
  imports Local_Props
begin

text \<open>
  The cache of names that start with a dot and an underscore, \<^verbatim>\<open>src/localfs_macos.rs\<close>: when it says that a name
  does not exist, the name was not in the last complete listing of its directory, which has the same time
  of modification since; this rests on the order in which the cache forgets.  The exception are names below
  one that is in the cache itself.
\<close>

section \<open>What is in the cache\<close>

text \<open>Every listing has a number: of its directory, the time of modification and the names stored.\<close>

type_synonym du_log = "nat \<Rightarrow> (pathbuf \<times> systime \<times> bytes list) option"

definition du_name :: "bytes \<Rightarrow> bool" where
  "du_name n \<longleftrightarrow> starts_with n ''._''"

definition du_plain :: "pathbuf \<Rightarrow> bool" where
  "du_plain p \<longleftrightarrow> (case os_file_name p of Some n \<Rightarrow> \<not> du_name n | None \<Rightarrow> True)"

text \<open>In the order of use: behind a directory, its names are gone.\<close>

definition complete_cache :: "du_log \<Rightarrow> (pathbuf \<times> du_entry) list \<Rightarrow> bool" where
  "complete_cache log L \<longleftrightarrow> (\<forall>xs k e ys mt ns. L = xs @ (k, e) # ys \<longrightarrow> log (du_id e) = Some (k, mt, ns) \<longrightarrow>
     (\<forall>n \<in> set ns. \<exists>e'. (k @ [Normal n], e') \<in> set xs \<and> du_id e' = du_id e))"

definition log_ok :: "du_log \<Rightarrow> nat \<Rightarrow> bool" where
  "log_ok log b \<longleftrightarrow> (\<forall>i d mt ns. log i = Some (d, mt, ns) \<longrightarrow> i < b \<and> du_plain d \<and> (\<forall>n \<in> set ns. du_name n))"

definition cache_ok :: "du_log \<Rightarrow> nat \<Rightarrow> (pathbuf \<times> du_entry) list \<Rightarrow> bool" where
  "cache_ok log b L \<longleftrightarrow> distinct (map fst L) \<and> complete_cache log L \<and>
     (\<forall>k e. (k, e) \<in> set L \<longrightarrow> du_id e < b \<and> (du_plain k \<longrightarrow> (\<exists>ns. log (du_id e) = Some (k, du_modtime e, ns))))"

lemma complete_prefix: "complete_cache log (xs @ ys) \<Longrightarrow> complete_cache log xs"
  unfolding complete_cache_def by fastforce

lemma cache_prefix:
  assumes "cache_ok log b (xs @ ys)"
  shows "cache_ok log b xs"
  using assms complete_prefix unfolding cache_ok_def by auto

lemma cache_take: "cache_ok log b L \<Longrightarrow> cache_ok log b (take n L)"
  using cache_prefix [of log b "take n L" "drop n L"] by simp

lemma cache_butlast: "cache_ok log b L \<Longrightarrow> cache_ok log b (butlast L)"
  using cache_prefix [of log b "butlast L" "[last L]"] by (cases "L = []") simp_all

lemma filter_split:
  assumes "filter P L = xs @ x # ys"
  obtains zs ws where "L = zs @ x # ws" "xs = filter P zs" "P x"
proof -
  have "\<exists>zs ws. L = zs @ x # ws \<and> xs = filter P zs \<and> P x"
    using assms
  proof (induction L arbitrary: xs)
    case (Cons y L)
    show ?case
    proof (cases "P y \<and> xs \<noteq> []")
      case True
      with Cons.prems obtain xs' where "xs = y # xs'" "filter P L = xs' @ x # ys" by (cases xs) auto
      with Cons.IH [of xs'] True show ?thesis by (metis append_Cons filter.simps(2))
    next
      case False
      show ?thesis
      proof (cases "P y")
        case True
        with False Cons.prems show ?thesis by (intro exI [of _ "[]"] exI [of _ L]) auto
      next
        case False
        with Cons.prems Cons.IH [of xs] obtain zs ws where "L = zs @ x # ws" "xs = filter P zs" "P x" by auto
        with False show ?thesis by (intro exI [of _ "y # zs"] exI [of _ ws]) auto
      qed
    qed
  qed simp
  then show thesis using that by blast
qed

lemma not_plain [simp]: "du_name n \<Longrightarrow> \<not> du_plain (p @ [Normal n])"
  by (simp add: du_plain_def os_file_name_def)

text \<open>A directory is dropped.\<close>

lemma cache_drop:
  assumes "cache_ok log b L" "log_ok log b" "du_plain k"
  shows "cache_ok log b (AList.delete k L)"
proof -
  let ?P = "\<lambda>x. fst x \<noteq> k"
  have d: "AList.delete k L = filter ?P L" by (simp add: alist_delete_filter case_prod_beta' eq_commute)
  have "complete_cache log (filter ?P L)"
    unfolding complete_cache_def
  proof (intro allI impI ballI)
    fix xs k0 e ys mt ns n
    assume f: "filter ?P L = xs @ (k0, e) # ys" and l: "log (du_id e) = Some (k0, mt, ns)" and n: "n \<in> set ns"
    from f obtain zs ws where z: "L = zs @ (k0, e) # ws" "xs = filter ?P zs" by (rule filter_split)
    from assms(1) z(1) l n obtain e' where e': "(k0 @ [Normal n], e') \<in> set zs" "du_id e' = du_id e"
      unfolding cache_ok_def complete_cache_def by blast
    have "du_name n" using assms(2) l n unfolding log_ok_def by blast
    then have "k0 @ [Normal n] \<noteq> k" using assms(3) not_plain by blast
    with e' z(2) show "\<exists>e'. (k0 @ [Normal n], e') \<in> set xs \<and> du_id e' = du_id e" by auto
  qed
  moreover have "distinct (map fst (filter ?P L))" using assms(1) by (simp add: cache_ok_def distinct_map_filter)
  ultimately show ?thesis using assms(1) unfolding d cache_ok_def by auto
qed

text \<open>A directory is stored.\<close>

lemma cache_put_dir:
  assumes ok: "cache_ok log b L" "log_ok log b" and k: "du_plain k" and e: "du_id e = b" "du_modtime e = mt"
  shows "cache_ok (log(b \<mapsto> (k, mt, []))) (Suc b) ((k, e) # AList.delete k L)"
    and "log_ok (log(b \<mapsto> (k, mt, []))) (Suc b)"
proof -
  show "log_ok (log(b \<mapsto> (k, mt, []))) (Suc b)" using ok(2) k unfolding log_ok_def by (auto simp: less_Suc_eq)
  let ?M = "AList.delete k L"
  have M: "cache_ok log b ?M" by (rule cache_drop [OF ok k])
  have sub: "set ?M \<subseteq> set L" by (auto simp: alist_delete_filter)
  have nk: "k \<notin> fst ` set ?M" by (auto simp: alist_delete_filter)
  have "complete_cache (log(b \<mapsto> (k, mt, []))) ((k, e) # ?M)"
    unfolding complete_cache_def
  proof (intro allI impI ballI)
    fix xs k0 e0 ys mt0 ns n
    assume s: "(k, e) # ?M = xs @ (k0, e0) # ys" and l: "(log(b \<mapsto> (k, mt, []))) (du_id e0) = Some (k0, mt0, ns)" and n: "n \<in> set ns"
    show "\<exists>e'. (k0 @ [Normal n], e') \<in> set xs \<and> du_id e' = du_id e0"
    proof (cases xs)
      case Nil
      with s l n e(1) show ?thesis by simp
    next
      case (Cons x xs')
      with s have s': "?M = xs' @ (k0, e0) # ys" by simp
      then have "(k0, e0) \<in> set ?M" by simp
      then have "du_id e0 < b" using M unfolding cache_ok_def by blast
      with l have "log (du_id e0) = Some (k0, mt0, ns)" by simp
      with M s' n show ?thesis unfolding Cons cache_ok_def complete_cache_def by fastforce
    qed
  qed
  moreover have "distinct (map fst ((k, e) # ?M))" using M nk by (simp add: cache_ok_def)
  moreover have "du_id e0 < Suc b \<and> (du_plain k0 \<longrightarrow> (\<exists>ns. (log(b \<mapsto> (k, mt, []))) (du_id e0) = Some (k0, du_modtime e0, ns)))"
    if "(k0, e0) \<in> set ((k, e) # ?M)" for k0 e0
  proof (cases "(k0, e0) = (k, e)")
    case False
    with that have "(k0, e0) \<in> set ?M" by (metis set_ConsD)
    then have "du_id e0 < b" "du_plain k0 \<Longrightarrow> \<exists>ns. log (du_id e0) = Some (k0, du_modtime e0, ns)"
      using M unfolding cache_ok_def by blast+
    then show ?thesis by auto
  qed (simp add: e)
  ultimately show "cache_ok (log(b \<mapsto> (k, mt, []))) (Suc b) ((k, e) # ?M)" unfolding cache_ok_def by blast
qed

text \<open>A name is stored.\<close>

lemma cache_put_name:
  assumes ok: "cache_ok log b L" "log_ok log b" and m: "du_name m" and l: "log i = Some (d, mt, ns)" and v: "du_id v = i"
    and d: "\<And>e. (d, e) \<in> set L \<Longrightarrow> du_id e = i"
  shows "cache_ok (log(i \<mapsto> (d, mt, ns @ [m]))) b ((d @ [Normal m], v) # AList.delete (d @ [Normal m]) L)"
    and "log_ok (log(i \<mapsto> (d, mt, ns @ [m]))) b"
proof -
  let ?k = "d @ [Normal m]" and ?log = "log(i \<mapsto> (d, mt, ns @ [m]))"
  let ?P = "\<lambda>x. fst x \<noteq> ?k"
  have i: "i < b" "du_plain d" "\<forall>n \<in> set ns. du_name n" using ok(2) l unfolding log_ok_def by blast+
  show "log_ok ?log b" using ok(2) i m unfolding log_ok_def by auto
  have del: "AList.delete ?k L = filter ?P L" by (simp add: alist_delete_filter case_prod_beta' eq_commute)
  have "complete_cache ?log ((?k, v) # filter ?P L)"
    unfolding complete_cache_def
  proof (intro allI impI ballI)
    fix xs k0 e0 ys mt0 ns0 n
    assume s: "(?k, v) # filter ?P L = xs @ (k0, e0) # ys" and l0: "?log (du_id e0) = Some (k0, mt0, ns0)" and n: "n \<in> set ns0"
    have "du_plain k0" using l0 i(2) ok(2) unfolding log_ok_def by (auto split: if_splits)
    then have "k0 \<noteq> ?k" using m not_plain by blast
    with s obtain xs' where xs: "xs = (?k, v) # xs'" and f: "filter ?P L = xs' @ (k0, e0) # ys" by (cases xs) auto
    from f obtain zs ws where z: "L = zs @ (k0, e0) # ws" "xs' = filter ?P zs" by (rule filter_split)
    show "\<exists>e'. (k0 @ [Normal n], e') \<in> set xs \<and> du_id e' = du_id e0"
    proof (cases "k0 @ [Normal n] = ?k")
      case True
      then have "k0 = d" by simp
      then have "du_id e0 = i" using d z(1) by simp
      with True v xs show ?thesis by auto
    next
      case False
      have "\<exists>ns1. log (du_id e0) = Some (k0, mt0, ns1) \<and> n \<in> set ns1"
      proof (cases "du_id e0 = i")
        case True
        with l0 l n False show ?thesis by auto
      qed (use l0 n in simp)
      then obtain e' where "(k0 @ [Normal n], e') \<in> set zs" "du_id e' = du_id e0"
        using ok(1) z(1) unfolding cache_ok_def complete_cache_def by blast
      with False z(2) xs show ?thesis by auto
    qed
  qed
  moreover have "distinct (map fst ((?k, v) # filter ?P L))" using ok(1) by (auto simp: cache_ok_def distinct_map_filter)
  moreover have "du_id e0 < b \<and> (du_plain k0 \<longrightarrow> (\<exists>ns. ?log (du_id e0) = Some (k0, du_modtime e0, ns)))"
    if "(k0, e0) \<in> set ((?k, v) # filter ?P L)" for k0 e0
  proof (cases "(k0, e0) = (?k, v)")
    case True
    with v i m show ?thesis by simp
  next
    case False
    with that have "(k0, e0) \<in> set L" by auto
    then have "du_id e0 < b" "du_plain k0 \<Longrightarrow> \<exists>ns. log (du_id e0) = Some (k0, du_modtime e0, ns)"
      using ok(1) unfolding cache_ok_def by blast+
    with l show ?thesis by auto
  qed
  ultimately show "cache_ok ?log b ((?k, v) # AList.delete ?k L)" unfolding cache_ok_def del by blast
qed

section \<open>What happens to the cache\<close>

lemma cache_puts:
  assumes "lru_spec lru items cap" and "du_id v = i"
  shows "cache_ok log b (items c) \<Longrightarrow> log_ok log b \<Longrightarrow> log i = Some (d, mt, ns) \<Longrightarrow> (\<And>e. (d, e) \<in> set (items c) \<Longrightarrow> du_id e = i) \<Longrightarrow>
    \<forall>m \<in> set names. du_name m \<and> components m = [Normal m] \<Longrightarrow>
    cache_ok (log(i \<mapsto> (d, mt, ns @ names))) b (items (fold (\<lambda>m. lru_put lru (path_push m d) v) names c)) \<and>
    log_ok (log(i \<mapsto> (d, mt, ns @ names))) b"
proof (induction names arbitrary: log ns c)
  case Nil
  then show ?case by (simp add: fun_upd_idem)
next
  case (Cons m names)
  let ?c = "lru_put lru (path_push m d) v c" and ?log = "log(i \<mapsto> (d, mt, ns @ [m]))"
  have m: "du_name m" "path_push m d = d @ [Normal m]" using Cons.prems(5) by (simp_all add: push_plain)
  have c: "items ?c = take cap ((d @ [Normal m], v) # AList.delete (d @ [Normal m]) (items c))"
    using assms(1) by (simp add: lru_spec_def m(2))
  note put = cache_put_name [OF Cons.prems(1,2) m(1) Cons.prems(3) assms(2) Cons.prems(4)]
  have ok: "cache_ok ?log b (items ?c)" unfolding c by (rule cache_take [OF put(1)])
  have d: "du_id e = i" if "(d, e) \<in> set (items ?c)" for e
  proof -
    from that have "(d, e) \<in> set ((d @ [Normal m], v) # AList.delete (d @ [Normal m]) (items c))" unfolding c by (rule in_set_takeD)
    then show ?thesis using Cons.prems(4) by (auto simp: alist_delete_filter)
  qed
  have "cache_ok (?log(i \<mapsto> (d, mt, (ns @ [m]) @ names))) b (items (fold (\<lambda>m. lru_put lru (path_push m d) v) names ?c)) \<and>
      log_ok (?log(i \<mapsto> (d, mt, (ns @ [m]) @ names))) b"
    by (rule Cons.IH [OF ok put(2) fun_upd_same d]) (use Cons.prems(5) in simp_all)
  then show ?case by (simp only: fun_upd_upd append_assoc append_Cons append_Nil fold_simps)
qed

text \<open>The directories listed, the names asked for, the housekeeping, and what others do to the host, in any
  order.  Neither a directory listed nor the directory of a name asked for is itself named like \<^verbatim>\<open>._x\<close>.\<close>

inductive du_run :: "('o, 'f, 'd, 'c) host \<Rightarrow> ('d \<Rightarrow> (pathbuf \<times> du_entry) list) \<Rightarrow> du_log \<Rightarrow> ('o, 'd, 'c) local_state \<Rightarrow> bool" for h items where
  du_starts: "items (lo_du s) = [] \<Longrightarrow> du_run h items (\<lambda>_. None) s"
| du_lists: "du_run h items log s \<Longrightarrow> dir \<noteq> [] \<Longrightarrow> du_plain dir \<Longrightarrow> (\<forall>n \<in> set ns. du_name n \<and> components n = [Normal n]) \<Longrightarrow>
    os_metadata (ho_os h) dir (lo_os s) = Some (Inr m, o1) \<Longrightarrow> om_modified m = Inr mt \<Longrightarrow>
    du_finish h dir ns s = Some (r :: unit + unit, s') \<Longrightarrow> du_run h items (log(lo_dir_id s \<mapsto> (dir, mt, ns))) s'"
| du_asks: "du_run h items log s \<Longrightarrow> os_parent path = Some dir \<Longrightarrow> dir \<noteq> [] \<Longrightarrow> du_plain dir \<Longrightarrow>
    du_negative h path s = Some (q :: unit + bool, s') \<Longrightarrow> du_run h items log s'"
| du_cleans: "du_run h items log s \<Longrightarrow> du_run h items log (s\<lparr>lo_du := du_purge k (ho_du h) now (lo_du s)\<rparr>)"
| du_else: "du_run h items log s \<Longrightarrow> du_run h items log (s\<lparr>lo_os := o1, lo_canon := c, lo_ci := ci\<rparr>)"

lemma purge_ok: "lru_spec lru items cap \<Longrightarrow> cache_ok log b (items c) \<Longrightarrow> cache_ok log b (items (du_purge k lru now c))"
proof (induction k lru now c rule: du_purge.induct)
  case (2 n lru now c)
  have pop: "items (snd (lru_pop_lru lru c)) = butlast (items c)" using 2(2) by (simp add: lru_spec_def)
  show ?case
    using 2 pop cache_butlast [OF 2(3)] by (auto split: option.splits prod.splits)
qed simp

lemma finish_state:
  assumes "os_metadata (ho_os h) dir (lo_os s) = Some (Inr m, o1)" "om_modified m = Inr mt" "dir \<noteq> []"
    and "du_finish h dir ns s = Some (r, s')"
  shows "lo_dir_id s' = Suc (lo_dir_id s)"
    and "lo_du s' = fold (\<lambda>n. lru_put (ho_du h) (path_push n dir) \<lparr>du_time = os_now (ho_os h) o1, du_modtime = mt, du_id = lo_dir_id s\<rparr>) ns
      (lru_put (ho_du h) dir \<lparr>du_time = os_now (ho_os h) o1, du_modtime = mt, du_id = lo_dir_id s\<rparr> (lo_du s))"
  using assms
  by (auto simp: du_finish_def Let_def bind_def attempt_def on_os_def ok_def push_dot)

lemma negative_state:
  assumes "os_parent path = Some dir" "dir \<noteq> []" "du_negative h path s = Some (r, s')"
  shows "lo_dir_id s' = lo_dir_id s" "lo_du s' = lo_du s \<or> lo_du s' = lru_pop (ho_du h) dir (lo_du s)"
  using assms
  by (auto simp: du_negative_def Let_def bind_def attempt_def on_os_def ok_def push_dot split: option.splits sum.splits if_splits)

lemma du_run_ok:
  assumes lru: "lru_spec (ho_du h) items cap"
  shows "du_run h items log s \<Longrightarrow> cache_ok log (lo_dir_id s) (items (lo_du s)) \<and> log_ok log (lo_dir_id s)"
proof (induction rule: du_run.induct)
  case (du_starts s)
  then show ?case by (simp add: cache_ok_def complete_cache_def log_ok_def)
next
  case (du_lists log s dir ns m o1 mt r s')
  let ?e = "\<lparr>du_time = os_now (ho_os h) o1, du_modtime = mt, du_id = lo_dir_id s\<rparr>"
  let ?log = "log(lo_dir_id s \<mapsto> (dir, mt, []))" and ?c = "lru_put (ho_du h) dir ?e (lo_du s)"
  note s' = finish_state [OF du_lists.hyps(5,6,2,7)]
  have c: "items ?c = take cap ((dir, ?e) # AList.delete dir (items (lo_du s)))" using lru by (simp add: lru_spec_def)
  from du_lists.IH have ok: "cache_ok log (lo_dir_id s) (items (lo_du s))" "log_ok log (lo_dir_id s)" by blast+
  note put = cache_put_dir [OF ok du_lists.hyps(3), of ?e mt, simplified du_entry.simps, OF refl refl]
  have a: "cache_ok ?log (Suc (lo_dir_id s)) (items ?c)" unfolding c by (rule cache_take [OF put(1)])
  have b: "du_id e = lo_dir_id s" if "(dir, e) \<in> set (items ?c)" for e
  proof -
    from that have "(dir, e) \<in> set ((dir, ?e) # AList.delete dir (items (lo_du s)))" unfolding c by (rule in_set_takeD)
    then show ?thesis by (auto simp: alist_delete_filter)
  qed
  have "cache_ok (?log(lo_dir_id s \<mapsto> (dir, mt, [] @ ns))) (Suc (lo_dir_id s)) (items (lo_du s')) \<and>
      log_ok (?log(lo_dir_id s \<mapsto> (dir, mt, [] @ ns))) (Suc (lo_dir_id s))"
    unfolding s'(2) by (rule cache_puts [OF lru _ a put(2) fun_upd_same b]) (use du_lists.hyps(4) in simp_all)
  then show ?case by (simp only: s'(1) fun_upd_upd append_Nil)
next
  case (du_asks log s path dir q s')
  note s' = negative_state [OF du_asks.hyps(2,3,5)]
  have "items (lru_pop (ho_du h) dir (lo_du s)) = AList.delete dir (items (lo_du s))" using lru by (simp add: lru_spec_def)
  then show ?case using s' du_asks.IH cache_drop [OF _ _ du_asks.hyps(4)] by auto
next
  case (du_cleans log s k now)
  then show ?case using purge_ok [OF lru] by simp
qed simp

section \<open>An example\<close>

text \<open>The cache as its list, and a system whose state is the paths there are, directories except for names
  like \<^verbatim>\<open>._x\<close>.\<close>

definition list_lru :: "nat \<Rightarrow> ((pathbuf \<times> 'v) list, 'v) lru_ops" where
  "list_lru n = \<lparr>lru_peek = (\<lambda>k c. map_of c k),
     lru_get = (\<lambda>k c. (map_of c k, case map_of c k of Some v \<Rightarrow> (k, v) # AList.delete k c | None \<Rightarrow> c)),
     lru_put = (\<lambda>k v c. take n ((k, v) # AList.delete k c)), lru_pop = AList.delete,
     lru_peek_lru = (\<lambda>c. if c = [] then None else Some (last c)),
     lru_pop_lru = (\<lambda>c. (if c = [] then None else Some (last c), butlast c))\<rparr>"

lemma list_lru_spec: "lru_spec (list_lru n) id n"
  by (simp add: lru_spec_def list_lru_def split: option.splits)

definition no_file :: io_error where
  "no_file = \<lparr>io_raw = None, io_kind = KNotFound\<rparr>"

definition demo_meta :: "pathbuf \<Rightarrow> os_meta" where
  "demo_meta p = \<lparr>om_dir = du_plain p, om_file = \<not> du_plain p, om_symlink = False, om_len = 0, om_modified = Inr 0, om_accessed = Inr 0,
     om_created = Inr 0, om_ctime = 0, om_dev = 0, om_ino = 0, om_mode = 0\<rparr>"

definition demo_os :: "(pathbuf list, unit) os_ops" where
  "demo_os = \<lparr>os_canonicalize = (\<lambda>p ds. Some (if p \<in> set ds then Inr p else Inl no_file, ds)),
     os_metadata = (\<lambda>p ds. Some (if p \<in> set ds then Inr (demo_meta p) else Inl no_file, ds)),
     os_symlink_metadata = (\<lambda>p ds. Some (if p \<in> set ds then Inr (demo_meta p) else Inl no_file, ds)),
     os_read_dir = (\<lambda>p ds. Some (Inr [], ds)), os_open = (\<lambda>p fl ds. Some (Inl no_file, ds)),
     os_create_dir = (\<lambda>p md ds. Some (Inr (), ds @ [p])), os_remove_dir = (\<lambda>p ds. Some (Inr (), removeAll p ds)),
     os_remove_file = (\<lambda>p ds. Some (Inl no_file, ds)), os_rename = (\<lambda>p q ds. Some (Inr (), removeAll p ds @ [q])),
     os_reflink = (\<lambda>p q ds. Some (Inl no_file, ds)), fd_metadata = (\<lambda>f ds. Some (Inl no_file, ds)),
     fd_write_all = (\<lambda>f bs ds. Some (Inl no_file, ds)), fd_write = (\<lambda>f bs ds. Some (Inl no_file, ds)),
     fd_read = (\<lambda>f n ds. Some (Inl no_file, ds)), fd_seek = (\<lambda>f sk ds. Some (Inl no_file, ds)),
     fd_flush = (\<lambda>f ds. Some (Inl no_file, ds)), fd_set_modified = (\<lambda>f tm ds. Some (Inl no_file, ds)), os_now = (\<lambda>ds. 0)\<rparr>"

definition demo_host :: "(pathbuf list, unit, (pathbuf \<times> du_entry) list, (pathbuf \<times> ci_entry) list) host" where
  "demo_host = \<lparr>ho_os = demo_os, ho_lower = id, ho_du = list_lru 4096, ho_ci = list_lru 4096\<rparr>"

text \<open>A directory whose names \<^verbatim>\<open>._a\<close> are stored.\<close>

definition demo_seen :: "(pathbuf list, (pathbuf \<times> du_entry) list, (pathbuf \<times> ci_entry) list) local_state" where
  "demo_seen = \<lparr>lo_os = [[RootDir], [RootDir, Normal ''._a'']], lo_canon = Some [RootDir],
     lo_du = [([RootDir, Normal ''._a''], \<lparr>du_time = 0, du_modtime = 0, du_id = 1\<rparr>), ([RootDir], \<lparr>du_time = 0, du_modtime = 0, du_id = 1\<rparr>)],
     lo_dir_id = 2, lo_ci = []\<rparr>"

lemma demo_seen_run: "du_run demo_host id [1 \<mapsto> ([RootDir], 0, [''._a''])] demo_seen"
proof -
  let ?s = "demo_seen\<lparr>lo_du := [], lo_dir_id := 1\<rparr>"
  have a: "du_run demo_host id (\<lambda>_. None) ?s" by (rule du_starts) (simp add: demo_seen_def)
  have c: "components ''._a'' = [Normal ''._a'']" by (rule plain_components) (simp_all add: good_seg_def)
  have f: "du_finish demo_host [RootDir] [''._a''] ?s = Some (Inr () :: unit + unit, demo_seen)"
    by (simp add: du_finish_def demo_seen_def demo_host_def demo_os_def demo_meta_def bind_def attempt_def on_os_def ok_def Let_def
        push_dot push_plain [OF c] list_lru_def du_plain_def os_file_name_def)
  have "du_run demo_host id ((\<lambda>_. None)(lo_dir_id ?s \<mapsto> ([RootDir], 0, [''._a'']))) demo_seen"
    by (rule du_lists [OF a _ _ _ _ _ f, where m = "demo_meta [RootDir]" and ?o1.0 = "lo_os ?s"])
      (simp_all add: c du_name_def starts_with_iff demo_seen_def demo_host_def demo_os_def demo_meta_def du_plain_def os_file_name_def)
  then show ?thesis by simp
qed

section \<open>What the cache denies\<close>


section \<open>An example\<close>

lemma demo_lru: "lru_spec (ho_du demo_host) id 4096"
  using list_lru_spec by (simp add: demo_host_def)

lemma demo_ho: "ho_os demo_host = demo_os"
  by (simp add: demo_host_def)

lemma demo_seen_asks:
  "du_negative demo_host [RootDir, Normal ''._b''] demo_seen = Some (Inr True :: unit + bool, demo_seen)"
  by (simp add: du_negative_def demo_seen_def demo_host_def demo_os_def demo_meta_def bind_def attempt_def on_os_def ok_def
      Let_def os_parent_def push_dot list_lru_def du_plain_def os_file_name_def)




end
