(* ===== verification/Server_Reads.thy ===== *)
theory Server_Reads
  imports Server_Frame Handle_Report Handle_Mkcol
begin

text \<open>
  The requests that read: \<^verbatim>\<open>OPTIONS\<close>, \<^verbatim>\<open>GET\<close>, \<^verbatim>\<open>HEAD\<close>, \<^verbatim>\<open>PROPFIND\<close> and \<^verbatim>\<open>REPORT\<close> stay within every
  frame in which the reading operations of the backends stay.
\<close>

context reading_frame
begin

section \<open>OPTIONS\<close>

lemma stays_options: "served sv \<Longrightarrow> (t \<Longrightarrow> \<exists>p. accepted sv rq p) \<Longrightarrow> stays (handle_options sv rq)"
  unfolding handle_options_def Let_def
  by (intro stays_req_path) (auto simp: served_fs intro!: frame_rules shared_rules)

section \<open>GET and HEAD\<close>

lemma read_to_end_run: "len \<le> length dat + n \<Longrightarrow> runs t fi fr anything (read_to_end_fuel n fs h len dat)"
proof (induction n arbitrary: h dat)
  case (Suc n)
  have "runs t fi fr anything (read_to_end_fuel n fs h' len (dat @ chunk))" if "chunk \<noteq> []" for h' chunk
    using that Suc.prems by (intro Suc.IH) (cases chunk, auto)
  then show ?case by (auto intro!: frame_rules)
qed (auto intro!: frame_rules)

lemma read_file_run: "runs t fi fr anything (read_file_to_end fs h len)"
  by (simp add: read_file_to_end_def read_to_end_run)

lemma stays_send_bytes:
  "served sv \<Longrightarrow> count \<le> n \<Longrightarrow> stays (send_bytes n sv bufsize count st)"
proof (induction n arbitrary: count st)
  case (Suc n)
  obtain h cur out where st: "st = (h, cur, out)" by (cases st)
  have "stays (send_bytes n sv bufsize (saturating_sub count (length buf)) st')" if "buf \<noteq> []" for buf :: bytes and st'
    using that Suc.prems by (intro Suc.IH) (auto simp: saturating_sub_def neq_Nil_conv)
  with Suc.prems(1) show ?case by (auto simp: st Let_def served_fs intro!: frame_rules)
qed (auto intro!: frame_rules)

lemma stays_send_ranges: "served sv \<Longrightarrow> stays (send_ranges sv bufsize part rs st)"
proof (induction rs arbitrary: st)
  case (Cons r rs)
  obtain h cur out where st: "st = (h, cur, out)" by (cases st)
  from Cons show ?case by (auto simp: st served_fs intro!: frame_rules stays_send_bytes split: prod.splits)
qed (auto intro!: frame_rules)

lemma stays_get_stream:
  assumes "served sv"
  shows "stays (get_stream sv boundary ctype len ranges cur h)"
proof -
  define part where "part r = (if 1 < length ranges then [part_header boundary ctype len r] else [])" for r
  define n where "n = (case sv_read_buf_size sv of Some n \<Rightarrow> n | None \<Rightarrow> READ_BUF_SIZE)"
  have "get_stream sv boundary ctype len ranges cur h =
    bind (attempt (send_ranges sv n part ranges (h, cur, []))) (\<lambda>r. case r of
      Inl (e, out) \<Rightarrow> ok (BStream out (Some (IoErr e)))
    | Inr (_, _, out) \<Rightarrow> ok (BStream (out @ (if 1 < length ranges then [part_end boundary] else [])) None))"
    by (auto simp: get_stream_def n_def part_def [abs_def] Let_def fun_eq_iff bind_def attempt_def split: option.splits sum.splits)
  then show ?thesis using assms by (auto intro!: frame_rules stays_send_ranges)
qed

lemma stays_get_validators: "(t \<Longrightarrow> tag_fits env meta) \<Longrightarrow> stays (get_validators env meta)"
  by (auto simp: get_validators_def header_unwrap_def tag_fits_def Let_def intro!: frame_rules runs_diverge)

lemma redirect_post:
  "served sv \<Longrightarrow> runs t (world_inv fi li) (world_rel fr lr) (\<lambda>x. t \<longrightarrow> fst x = None) (get_redirect sv h)"
  by (auto simp: get_redirect_def served_fs intro!: frame_rules fs_try_post redirect_url)

lemma stays_get_file:
  assumes sv: "served sv" and M: "t \<Longrightarrow> tag_fits (sv_http sv) meta"
  shows "stays (get_file uuid sv rq head path meta h)"
  unfolding get_file_def
  by (intro runs_bind_post [OF _ stays_get_validators [OF M]] runs_bind_post [OF _ redirect_post [OF sv]] frame_rules)
    (use sv in \<open>auto simp: Let_def seek_phase_def served_fs header_unwrap_def
       intro!: frame_rules runs_diverge shared_rules stays_get_stream split: list.splits\<close>)

lemma stays_index_entries: "served sv \<Longrightarrow> entries_run t fi fr M es \<Longrightarrow> stays (index_entries sv path es)"
proof (induction es)
  case (Cons e es)
  then show ?case
    by (cases e) (auto simp: Let_def intro!: frame_rules dest: runs_anything)
qed (auto intro!: frame_rules)

lemma read_dir_post:
  "served sv \<Longrightarrow> runs t (world_inv fi li) (world_rel fr lr) (entries_run t fi fr M) (fs_try (fs_read_dir (sv_fs sv) p k))"
  "served sv \<Longrightarrow> runs t (world_inv fi li) (world_rel fr lr) (\<lambda>r. case r of Inl _ \<Rightarrow> True | Inr es \<Rightarrow> entries_run t fi fr M es)
     (attempt (on_fs (fs_read_dir (sv_fs sv) p k)))"
  by (auto simp: served_fs intro!: fs_try_post runs_attempt_post on_fs_post read_dir)

lemma stays_autoindex:
  assumes "served sv" "t \<Longrightarrow> \<exists>p. accepted sv rq p"
  shows "stays (handle_autoindex render sv rq head)"
  unfolding handle_autoindex_def Let_def
  by (intro stays_req_path assms(2) runs_if runs_bind_post [OF _ read_dir_post(1) [OF assms(1)]] frame_rules)
    (use assms(1) in \<open>auto intro!: stays_index_entries\<close>)

lemma file_post:
  "served sv \<Longrightarrow> runs t (world_inv fi li) (world_rel fr lr) (\<lambda>x. M (fst x)) (fs_try (f_metadata (sv_fs sv) h))"
  by (auto simp: served_fs intro!: fs_try_post file_metadata)

lemma served_tags: "served sv \<Longrightarrow> M m \<Longrightarrow> t \<Longrightarrow> tag_fits (sv_http sv) m"
  unfolding served_def by blast

lemma stays_open_get:
  assumes "served sv"
  shows "stays (bind (fs_try (fs_open (sv_fs sv) path oo_for_read)) (\<lambda>h. bind (fs_try (f_metadata (sv_fs sv) h)) (\<lambda>(meta, h1).
    if \<not> md_is_file meta then fail e else get_file uuid sv rq head path meta h1)))"
proof -
  have "stays (case x of (meta, h1) \<Rightarrow> if \<not> md_is_file meta then fail e else get_file uuid sv rq head path meta h1)"
    if "M (fst x)" for x
  proof -
    have "stays (get_file uuid sv rq head path (fst x) (snd x))"
      by (rule stays_get_file [OF assms served_tags [OF assms that]])
    then show ?thesis by (auto simp: split_beta intro!: frame_rules)
  qed
  then have "stays (bind (fs_try (f_metadata (sv_fs sv) h)) (\<lambda>(meta, h1).
    if \<not> md_is_file meta then fail e else get_file uuid sv rq head path meta h1))" for h
    by (rule runs_bind_post [OF rel_rules(6) file_post [OF assms]])
  then show ?thesis
    by (rule runs_bind [OF rel_rules(6) fs_try_post [OF open_read [folded served_fs [OF assms]]]])
qed

lemma stays_get:
  assumes "served sv" "t \<Longrightarrow> \<exists>p. accepted sv rq p"
  shows "stays (handle_get uuid render sv rq)"
  unfolding handle_get_def Let_def
  by (intro stays_req_path assms(2)) (use assms in \<open>auto intro!: frame_rules shared_rules stays_autoindex stays_open_get\<close>)

section \<open>PROPFIND\<close>

lemma stays_lockdiscovery: "served sv \<Longrightarrow> stays (list_lockdiscovery sv p)"
  by (auto simp: list_lockdiscovery_def discover_locks_def dest: served_ls intro!: frame_rules)

lemma stays_quota: "served sv \<Longrightarrow> stays (pw_quota sv qc)"
  by (auto simp: pw_quota_def served_fs intro!: frame_rules)

lemma stays_dav_prop: "served sv \<Longrightarrow> stays (dav_prop_value sv ua p meta kind qc c prop)"
  unfolding dav_prop_value_def Let_def
  by (intro frame_rules stays_quota stays_lockdiscovery)

lemma stays_description: "served sv \<Longrightarrow> stays (description_value sv p c name ns)"
  by (auto simp: description_value_def served_fs intro!: frame_rules)

lemma stays_live_value: "served sv \<Longrightarrow> stays (live_value sv ua p meta kind qc c prop)"
  by (auto simp: live_value_def caldav_prop_value_def carddav_prop_value_def Let_def
      intro!: frame_rules stays_dav_prop stays_description)

lemma stays_stored_value: "served sv \<Longrightarrow> stays (stored_value sv name p prop)"
  by (auto simp: stored_value_def served_fs intro!: frame_rules shared_rules)

lemma stays_props_loop: "served sv \<Longrightarrow> stays (props_loop sv pw p meta kind c ps qc hm)"
  by (induction ps arbitrary: qc hm)
    (auto simp: build_prop_def intro!: frame_rules stays_live_value stays_stored_value)

lemma stays_write_props: "served sv \<Longrightarrow> stays (write_props sv p meta pw)"
  by (auto simp: write_props_def dead_props_of_def kind_with_props_def served_fs
      intro!: frame_rules shared_rules stays_props_loop)

text \<open>With \<^verbatim>\<open>Depth: 0\<close> or \<^verbatim>\<open>1\<close> nothing recurs.\<close>

definition returns_at :: "depth \<Rightarrow> bool" where
  "returns_at d \<longleftrightarrow> (t \<longrightarrow> d \<noteq> DepthInfinity)"

lemma stays_propfind_entries:
  assumes "served sv" "returns_at d"
    and deeper: "\<And>path pw. \<not> t \<Longrightarrow> stays (propfind_directory n sv path d pw)"
  shows "entries_run t fi fr M es \<Longrightarrow> stays (propfind_entries n sv path d es pw)"
proof (induction es arbitrary: pw)
  case (Cons e es)
  show ?case
  proof (cases e)
    case (Inr de)
    have rest: "stays (propfind_entries n sv path d es pw1)" for pw1 using Cons by (cases e) auto
    have deep: "stays (if d = DepthInfinity \<and> b then propfind_directory n sv q d pw1 else ok pw1)" for b q pw1
      using assms(2) [unfolded returns_at_def] deeper [of q pw1] by (cases t) (auto intro!: frame_rules)
    have "runs t fi fr anything (de_metadata de)" using Cons.prems Inr by (auto intro: runs_anything)
    then show ?thesis unfolding Inr propfind_entries.simps Let_def
      by (intro frame_rules rest deep stays_write_props assms(1))
  qed (use Cons in simp)
qed (auto intro!: frame_rules)

lemma stays_propfind_directory:
  "served sv \<Longrightarrow> returns_at d \<Longrightarrow> 0 < n \<or> \<not> t \<Longrightarrow> stays (propfind_directory n sv path d pw)"
proof (induction n arbitrary: path pw)
  case (Suc n)
  then have deeper: "\<not> t \<Longrightarrow> stays (propfind_directory n sv path d pw)" for path pw by simp
  show ?case unfolding propfind_directory.simps
    by (rule runs_bind_post [OF _ read_dir_post(2) [OF Suc.prems(1)]])
      (auto intro!: frame_rules stays_propfind_entries [OF Suc.prems(1,2) deeper])
qed (simp add: runs_diverge)

lemma stays_propfind_stream:
  "served sv \<Longrightarrow> returns_at d \<Longrightarrow> 0 < n \<or> \<not> t \<Longrightarrow> stays (propfind_stream n sv path meta d pw)"
  unfolding propfind_stream_def by (intro frame_rules stays_write_props stays_propfind_directory)

lemma stays_handle_propfind:
  assumes "served sv" "t \<Longrightarrow> \<exists>p. accepted sv rq p" "0 < n \<or> \<not> t"
    and "\<And>d. propfind_depth sv rq = Some d \<Longrightarrow> returns_at d"
  shows "stays (handle_propfind n sv rq xmldata)"
  unfolding handle_propfind_def Let_def
  by (intro frame_rules stays_req_path shared_rules stays_propfind_stream assms)

section \<open>REPORT\<close>

text \<open>Where an answer is asked for, no date may be beyond what \<^verbatim>\<open>chrono\<close> represents.\<close>

definition dates_fit :: "'r report_env \<Rightarrow> bool" where
  "dates_fit re \<longleftrightarrow> (\<forall>content q. calendar_matches_query (re_cal re) content q \<noteq> None) \<and>
     (\<forall>cal rs rend. calendar_busy_intervals (re_cal re) cal rs rend \<noteq> None)"

lemma stays_read_object: "served sv \<Longrightarrow> stays (read_object_resource sv path n sniff)"
  by (auto simp: read_object_resource_def served_fs intro!: frame_rules read_file_run)

lemma stays_hidden: "served sv \<Longrightarrow> runs t fi fr M (de_metadata de) \<Longrightarrow> stays (hidden_in_listing sv de)"
  by (auto simp: hidden_in_listing_def intro!: frame_rules dest: runs_anything)

lemma stays_listed: "served sv \<Longrightarrow> entries_run t fi fr M es \<Longrightarrow> stays (listed_paths sv path es)"
proof (induction es)
  case (Cons e es)
  then show ?case by (cases e) (auto intro!: frame_rules stays_hidden)
qed (auto intro!: frame_rules)

lemma stays_query_paths:
  assumes "served sv"
  shows "stays (query_paths sv path is_coll depth)"
  unfolding query_paths_def member_paths_def
  by (intro frame_rules runs_bind_post [OF _ read_dir_post(1) [OF assms]] stays_listed assms)

lemma stays_answer: "(t \<Longrightarrow> v \<noteq> None) \<Longrightarrow> stays (case v of None \<Rightarrow> diverge | Some x \<Rightarrow> ok (f x))"
  by (cases v) (auto intro!: frame_rules runs_diverge)

lemma stays_calendar_results:
  "served sv \<Longrightarrow> (\<And>content. t \<Longrightarrow> matches content \<noteq> None) \<Longrightarrow> stays (calendar_query_results sv matches ps)"
  by (induction ps) (auto intro!: frame_rules stays_answer stays_read_object)

lemma stays_card_results: "served sv \<Longrightarrow> stays (addressbook_query_results sv matches limit count ps)"
  by (induction ps arbitrary: count) (auto intro!: frame_rules stays_read_object)

lemma stays_multiget: "served sv \<Longrightarrow> stays (multiget_loop sv path n sniff hrefs)"
  by (induction hrefs) (auto simp: multiget_one_def intro!: frame_rules shared_rules stays_read_object)

lemma stays_busy_loop:
  "served sv \<Longrightarrow> (t \<Longrightarrow> dates_fit re) \<Longrightarrow> entries_run t fi fr M es \<Longrightarrow> stays (busy_loop (re_cal re) sv path rs rend es)"
proof (induction es)
  case (Cons e es)
  then show ?case
    by (cases e) (auto simp: dates_fit_def intro!: frame_rules stays_answer [of _ "\<lambda>b. b"] stays_hidden stays_read_object)
qed (auto intro!: frame_rules)

lemma stays_freebusy:
  assumes "served sv" "t \<Longrightarrow> dates_fit re"
  shows "stays (handle_freebusy_query re sv path tr)"
  unfolding handle_freebusy_query_def Let_def
  by (intro frame_rules runs_bind_post [OF _ read_dir_post(1) [OF assms(1)]] stays_busy_loop assms)

lemma stays_target_is: "served sv \<Longrightarrow> stays (target_is sv kind path meta members)"
  by (auto simp: target_is_def served_fs intro!: frame_rules shared_rules)

lemma stays_run_carddav: "served sv \<Longrightarrow> stays (run_carddav_report re sv rq path meta report)"
  by (cases report) (auto simp: run_carddav_report_def handle_addressbook_query_def handle_addressbook_multiget_def
      intro!: frame_rules stays_query_paths stays_card_results stays_multiget)

lemma stays_run_caldav: "served sv \<Longrightarrow> (t \<Longrightarrow> dates_fit re) \<Longrightarrow> stays (run_caldav_report re sv rq path meta report)"
  by (cases report) (auto simp: run_caldav_report_def handle_calendar_query_def handle_calendar_multiget_def
      intro!: frame_rules stays_query_paths stays_calendar_results stays_multiget stays_freebusy; simp add: dates_fit_def)+

lemma stays_report:
  assumes "served sv" "t \<Longrightarrow> \<exists>p. accepted sv rq p" "t \<Longrightarrow> dates_fit re"
  shows "stays (handle_report re sv rq body)"
proof -
  have m: "stays (fs_try (fs_metadata (sv_fs sv) p))" for p using assms(1) by (auto simp: served_fs intro!: frame_rules)
  show ?thesis unfolding handle_report_def handle_carddav_report_def
    by (intro frame_rules m stays_req_path shared_rules stays_target_is stays_run_carddav stays_run_caldav assms)
qed

end

end
