(* ===== verification/Server_Writes.thy ===== *)
theory Server_Writes
  imports Server_Reads Dav_Handler
begin

text \<open>
  The requests that write stay within every frame in which all operations of the backends stay; with
  them the dispatcher.  A frame that asks for an answer is left to the requests that do not follow
  directories to any depth.
\<close>

section \<open>Paths of one server\<close>

text \<open>A normal path below the prefix of the server; two of them with the same segments are equal.\<close>

definition below_prefix :: "bytes \<Rightarrow> dav_path \<Rightarrow> bool" where
  "below_prefix stem p \<longleftrightarrow> normal_path (as_bytes p) \<and> fullpath p = stem @ as_bytes p \<and> prefix_len p = length stem"

lemma from_str_below:
  assumes "from_str_and_prefix dec src pfx = Inr q"
  shows "below_prefix (if ends_with pfx [slash] then butlast pfx else pfx) q"
proof -
  from from_str_and_prefix_segs [OF assms] obtain ss k d where q: "\<forall>s \<in> set ss. safe_seg s"
    "as_bytes q = join_path (drop k ss) d" "get_prefix q = (if ends_with pfx [slash] then butlast pfx else pfx)" by blast
  have len: "prefix_len q \<le> length (fullpath q)"
    using assms by (auto simp: from_str_and_prefix_def set_prefix_def Let_def prefix_len_def starts_with_iff
        split: sum.splits if_splits)
  have "normal_path (as_bytes q)" using q(1,2) by (auto intro!: normal_path_join dest: in_set_dropD)
  moreover have "fullpath q = get_prefix q @ as_bytes q" by (simp add: as_bytes_def get_prefix_def)
  moreover have "length (get_prefix q) = prefix_len q" using len by (simp add: get_prefix_def)
  ultimately show ?thesis unfolding below_prefix_def q(3) by metis
qed

lemma accepted_below:
  assumes "from_uri_and_prefix dec uri pfx = Inr q" "uri \<noteq> ''*''"
  shows "below_prefix (if ends_with pfx [slash] then butlast pfx else pfx) q"
proof -
  have "from_str_and_prefix dec uri pfx = Inr q" using assms by (auto simp: from_uri_and_prefix_def split: if_splits)
  then show ?thesis by (rule from_str_below)
qed

lemma below_prefix_slash:
  assumes "below_prefix stem p"
  shows "below_prefix stem (add_slash_if b p)"
proof (cases "b \<and> \<not> is_collection p")
  case True
  from assms obtain ss d where n: "as_bytes p = join_path ss d" "\<forall>s \<in> set ss. safe_seg s"
    by (auto simp: below_prefix_def elim: normal_pathE)
  have "\<not> (d \<or> ss = [])" using True n(1) by (auto simp: is_collection_def ends_with_iff join_path_def)
  then have "as_bytes p @ [slash] = join_path ss True" by (simp add: n(1) join_path_def)
  then have "normal_path (as_bytes p @ [slash])" using normal_path_join [OF n(2)] by simp
  moreover have "length stem \<le> length (fullpath p)"
    using assms arg_cong [of "fullpath p" _ length] by (fastforce simp: below_prefix_def)
  ultimately show ?thesis using True assms
    by (auto simp: below_prefix_def add_slash_if_def as_bytes_def prefix_len_def)
qed (use assms in \<open>auto simp: add_slash_if_def\<close>)

lemma same_segs_eq:
  assumes "below_prefix stem p" "below_prefix stem q" "lock_segs p = lock_segs q"
  shows "path_eq p q"
proof -
  from assms(1) obtain ss d where p: "as_bytes p = join_path ss d" "\<forall>s \<in> set ss. safe_seg s" "path_segs (as_bytes p) = ss"
    by (auto simp: below_prefix_def elim: normal_pathE)
  from assms(2) obtain ts e where q: "as_bytes q = join_path ts e" "path_segs (as_bytes q) = ts"
    by (auto simp: below_prefix_def elim: normal_pathE)
  have ts: "ts = ss" using assms(3) p(3) q(2) by (simp add: lock_segs_def)
  have strip: "strip_slash (stem @ join_path ss f) = stem @ unsegs ss" if "ss \<noteq> []" for f
  proof -
    have "last (join_path ss False) \<noteq> slash" using last_join_path [of ss False] p(2) that safe_good by blast
    then have "\<not> ends_with (stem @ unsegs ss) [slash]" "unsegs ss \<noteq> []"
      using that unsegs_hd [OF that] by (auto simp: ends_with_single join_path_def)
    with that show ?thesis by (auto simp: strip_slash_def join_path_def ends_with_single butlast_append)
  qed
  show ?thesis
  proof (cases "ss = []")
    case True
    with assms(1,2) p(1) q(1) ts show ?thesis by (simp add: path_eq_def below_prefix_def join_path_def)
  next
    case False
    with assms(1,2) p(1) q(1) ts strip show ?thesis by (simp add: path_eq_def below_prefix_def)
  qed
qed

section \<open>The dispatcher\<close>

text \<open>Requests that return whatever the depth of the tree and the dates in it.\<close>

definition at_once :: "'r run_context \<Rightarrow> ('s, 'h, 'l) server \<Rightarrow> request \<Rightarrow> dav_method \<Rightarrow> bool" where
  "at_once cx sv rq m \<longleftrightarrow> m \<noteq> MDelete \<and> m \<noteq> MCopy \<and> m \<noteq> MMove \<and>
     (m = MPropFind \<longrightarrow> 0 < cx_fuel cx \<and> propfind_depth sv rq \<noteq> Some DepthInfinity) \<and>
     (m = MReport \<longrightarrow> (\<forall>content q. calendar_matches_query (re_cal (cx_report cx)) content q \<noteq> None) \<and>
        (\<forall>cal rs rend. calendar_busy_intervals (re_cal (cx_report cx)) cal rs rend \<noteq> None))"

definition reads_only :: "dav_method \<Rightarrow> bool" where
  "reads_only m \<longleftrightarrow> m = MOptions \<or> m = MGet \<or> m = MHead \<or> m = MPropFind \<or> m = MReport"

context reading_frame
begin

lemma stays_handle2_cases:
  assumes "\<And>m dat. dav_method_of (rq_method rq) = Inr m \<Longrightarrow> \<exists>p. accepted sv rq p \<Longrightarrow> stays (dispatch cx sv rq m dat frames)"
  shows "stays (handle2 cx sv rq frames)"
  unfolding handle2_def void_check_def is_voidfs_def
  by (auto intro!: frame_rules assms simp: accepted_def)

lemma stays_dispatch_read:
  assumes "served sv" "\<exists>p. accepted sv rq p" "reads_only m" "t \<Longrightarrow> at_once cx sv rq m"
  shows "stays (dispatch cx sv rq m dat frames)"
proof -
  have "stays (handle_propfind (cx_fuel cx) sv rq dat)" if "m = MPropFind"
    using assms(4) that by (intro stays_handle_propfind assms(1,2)) (auto simp: at_once_def returns_at_def)
  moreover have "stays (handle_report (cx_report cx) sv rq dat)" if "m = MReport"
    using assms(4) that by (intro stays_report assms(1,2)) (auto simp: at_once_def dates_fit_def)
  moreover note stays_options [OF assms(1,2)] stays_get [OF assms(1,2)]
  ultimately show ?thesis using assms(3) by (cases m) (simp_all add: reads_only_def dispatch_def)
qed

lemma stays_read_request:
  assumes "served sv" "dav_method_of (rq_method rq) = Inr m" "reads_only m" "t \<Longrightarrow> at_once cx sv rq m"
  shows "stays (handle2 cx sv rq frames)"
  using assms by (intro stays_handle2_cases stays_dispatch_read) auto

end

section \<open>The frame of all operations\<close>

locale writing_frame = reading_frame t fi fr li lr M fs ls
  for t :: bool and fi :: "'s \<Rightarrow> bool" and fr :: "'s \<Rightarrow> 's \<Rightarrow> bool" and li :: "'l \<Rightarrow> bool" and lr :: "'l \<Rightarrow> 'l \<Rightarrow> bool"
    and M :: "dav_meta \<Rightarrow> bool" and fs :: "('s, 'h) fs_ops" and ls :: "'l ls_ops" +
  assumes open_any: "runs t fi fr anything (fs_open fs p oo)"
    and create_dir: "runs t fi fr anything (fs_create_dir fs p)"
    and remove_dir: "runs t fi fr anything (fs_remove_dir fs p)"
    and remove_file: "runs t fi fr anything (fs_remove_file fs p)"
    and rename: "lock_segs p \<noteq> lock_segs q \<Longrightarrow> runs t fi fr anything (fs_rename fs p q)"
    and copy: "runs t fi fr anything (fs_copy fs p q)"
    and set_modified: "runs t fi fr anything (fs_set_modified fs p tm)"
    and set_created: "runs t fi fr anything (fs_set_created fs p tm)"
    and patch_props: "runs t fi fr anything (fs_patch_props fs p patch)"
    and mark_calendar: "runs t fi fr anything (fs_mark_calendar fs p)"
    and mark_addressbook: "runs t fi fr anything (fs_mark_addressbook fs p)"
    and write_bytes: "runs t fi fr anything (f_write_bytes fs h bs)"
    and write_buf: "runs t fi fr anything (f_write_buf fs h bss)"
    and flush: "runs t fi fr anything (f_flush fs h)"
    and lock: "runs t li lr anything (ls_lock ls p who owner tmo shared deep)"
    and unlock: "runs t li lr anything (ls_unlock ls p tok)"
    and refresh: "runs t li lr anything (ls_refresh ls p tok tmo)"
    and delete: "runs t li lr anything (ls_delete ls p)"
begin

lemmas write_rules = frame_rules open_any create_dir remove_dir remove_file copy set_modified set_created patch_props
  mark_calendar mark_addressbook write_bytes write_buf flush lock unlock refresh delete read_file_run

lemma stays_send [run_rules]: "stays (send_item p st)"
  using rels by (auto simp: send_item_def runs_def world_inv_def world_rel_def reflpD)

lemma stays_unlock_path: "served sv \<Longrightarrow> stays (unlock_path sv p)"
  by (auto simp: unlock_path_def dest: served_ls intro!: write_rules)

lemma stays_collect:
  assumes "stays m"
  shows "stays (collect m)"
proof (rule runsI)
  fix w assume i: "world_inv fi li w" and "collect m w = None"
  then have "m (w\<lparr>w_items := []\<rparr>) = None" "world_inv fi li (w\<lparr>w_items := []\<rparr>)"
    by (auto simp: collect_def world_inv_def split: option.splits)
  with assms show "\<not> t" unfolding runs_def by auto
next
  fix w r w' assume i: "world_inv fi li w" and "collect m w = Some (r, w')"
  then obtain q w1 where m: "m (w\<lparr>w_items := []\<rparr>) = Some (q, w1)" "w' = w1\<lparr>w_items := w_items w\<rparr>"
    by (auto simp: collect_def split: option.splits)
  have "world_inv fi li (w\<lparr>w_items := []\<rparr>)" using i by (simp add: world_inv_def)
  from runsD(1,2) [OF assms this m(1)] m(2)
  show "world_inv fi li w' \<and> world_rel fr lr w w' \<and> (\<forall>x. r = Inr x \<longrightarrow> anything x)"
    by (simp add: world_inv_def world_rel_def)
qed

lemma stays_multi_error: "stays (multi_error env p items)"
  by (auto simp: multi_error_def intro!: write_rules split: list.splits)

lemma stays_stamps: "served sv \<Longrightarrow> stays (apply_oc_timestamps sv path mtime ctime res)"
  by (auto simp: apply_oc_timestamps_def apply_one_timestamp_def served_fs intro!: write_rules)

section \<open>DELETE\<close>

lemma stays_status: "stays (add_status p e)" "stays (dir_status p e)" "stays (copy_status p d)"
  by (auto simp: add_status_def dir_status_def copy_status_def Let_def intro!: write_rules stays_send)

lemma dirs_post:
  "served sv \<Longrightarrow> runs t (world_inv fi li) (world_rel fr lr) (\<lambda>r. case r of Inl _ \<Rightarrow> True | Inr es \<Rightarrow> entries_run t fi fr M es)
     (attempt (on_fs (fs_read_dir (sv_fs sv) p k)))"
  by (rule read_dir_post(2))

lemma stays_delete_entries:
  assumes "\<And>meta path. stays (delete_items n sv d meta path)"
  shows "entries_run t fi fr M es \<Longrightarrow> stays (delete_entries n sv d path es result)"
proof (induction es arbitrary: result)
  case (Cons e es)
  have rest: "stays (delete_entries n sv d path es r)" for r using Cons by (cases e) auto
  have u: "stays (case u of () \<Rightarrow> delete_entries n sv d path es r)" for u r by (simp add: rest split: unit.splits)
  show ?case
  proof (cases e)
    case (Inr de)
    have de: "runs t fi fr anything (de_metadata de)" using Cons.prems Inr by (auto intro: runs_anything)
    have er: "stays (case x of Status st \<Rightarrow> delete_entries n sv d path es (Some (Status st)) | e \<Rightarrow> fail e)" for x
      using rest by (cases x) (auto intro!: write_rules)
    show ?thesis unfolding Inr delete_entries.simps
      by (intro runs_bind rel_rules runs_attempt on_fs_post de stays_status runs_sum u rest er assms)
  next
    case (Inl x)
    show ?thesis unfolding Inl delete_entries.simps
      by (intro runs_bind rel_rules runs_attempt stays_status runs_sum u rest)
  qed
qed (auto intro!: write_rules split: option.splits)

lemma stays_delete_items:
  assumes "served sv" "\<not> t"
  shows "stays (delete_items n sv d meta path)"
proof (induction n arbitrary: meta path)
  case (Suc n)
  show ?case unfolding delete_items.simps using assms(1)
    by (intro runs_if runs_bind_post [OF _ dirs_post [OF assms(1)]])
      (auto simp: served_fs intro!: write_rules stays_status stays_delete_entries Suc)
qed (simp add: assms runs_diverge)

lemma stays_delete_stream:
  assumes "served sv" "\<not> t"
  shows "stays (delete_stream n sv d meta path)"
  unfolding delete_stream_def
  by (intro write_rules stays_delete_items stays_send stays_unlock_path assms)

lemma stays_path_unless: "\<not> t \<Longrightarrow> (\<And>p. accepted sv rq p \<Longrightarrow> stays (k p)) \<Longrightarrow> stays (req_path sv rq k)"
  by (rule stays_req_path) simp_all

lemma stays_handle_delete:
  assumes "served sv" "\<not> t"
  shows "stays (handle_delete n sv rq)"
  unfolding handle_delete_def delete_at_def
  by (intro stays_path_unless [OF assms(2)] runs_sum) (use assms(1) in \<open>auto simp: served_fs
      intro!: write_rules shared_rules stays_collect stays_multi_error stays_delete_stream [OF _ assms(2)]\<close>)

section \<open>PUT and PATCH\<close>

lemma stays_read_resource: "served sv \<Longrightarrow> runs t fi fr anything (read_resource_bytes sv path mx)"
  by (auto simp: read_resource_bytes_def served_fs intro!: write_rules)

lemma stays_restore: "served sv \<Longrightarrow> stays (restore_or_remove_typed sv path restore)"
  by (auto simp: restore_or_remove_typed_def restore_resource_bytes_def served_fs intro!: write_rules)

lemma stays_write_loop: "served sv \<Longrightarrow> stays (write_loop sv kind elen pt frames h seen)"
proof (induction sv kind elen pt frames h seen rule: write_loop.induct)
qed (auto simp: served_fs Let_def intro!: write_rules split: frame.splits)

lemma stays_write_body: "served sv \<Longrightarrow> stays (write_body sv kind elen pt body staged h)"
  by (auto simp: write_body_def served_fs intro!: write_rules stays_write_loop)

lemma stays_put_write: "served sv \<Longrightarrow> stays (put_write sv rq kind elen pt body staged restore path)"
  by (auto simp: put_write_def Let_def served_fs
      intro!: write_rules stays_write_body stays_restore on_fs_post [OF stays_read_resource])

lemma metadata_post:
  "served sv \<Longrightarrow> runs t (world_inv fi li) (world_rel fr lr) (\<lambda>r. case r of Inl _ \<Rightarrow> True | Inr m \<Rightarrow> M m)
     (attempt (on_fs (fs_metadata (sv_fs sv) p)))"
  by (simp add: served_fs runs_attempt_post on_fs_post metadata)

lemma stays_put_validators:
  assumes "served sv"
  shows "stays (put_validators sv path res)"
proof -
  have e: "stays (case etag_encode (sv_http sv) e of None \<Rightarrow> diverge | Some v \<Rightarrow> ok (set_header ''etag'' v res))"
    if "M m" "etag_from_meta m = Some e" for m e
    by (rule stays_answer) (use served_tags [OF assms that(1)] that(2) in \<open>auto simp: tag_fits_def\<close>)
  show ?thesis unfolding put_validators_def
    by (rule runs_bind_post [OF rel_rules(6) metadata_post [OF assms]])
      (auto intro!: frame_rules e)
qed

lemma stays_put:
  assumes "served sv" "t \<Longrightarrow> \<exists>p. accepted sv rq p"
  shows "stays (handle_put sv rq body)"
  unfolding handle_put_def put_at_def Let_def typed_parent_collection_def
  by (intro write_rules shared_rules stays_req_path stays_put_write stays_put_validators stays_stamps assms
      on_fs_post [OF metadata [THEN runs_anything, folded served_fs [OF assms(1)]]]
      fs_try_post [OF stays_read_resource [OF assms(1)]])

section \<open>PROPPATCH and the creation of collections\<close>

lemma stays_proppatch_loop: "served sv \<Longrightarrow> stays (proppatch_loop sv path can us patch ret)"
proof (induction us arbitrary: patch ret)
  case (Cons u us)
  obtain op n where u: "u = (op, n)" by (cases u)
  have "stays (apply_win32_last_modified sv path n)" using Cons.prems
    by (auto simp: apply_win32_last_modified_def served_fs intro!: write_rules)
  then show ?case unfolding u proppatch_loop.simps Let_def by (intro write_rules Cons)
qed (auto intro!: write_rules)

lemma stays_proppatch:
  assumes "served sv" "t \<Longrightarrow> \<exists>p. accepted sv rq p"
  shows "stays (handle_proppatch sv rq xmldata)"
proof -
  have patch: "stays (proppatch_apply sv path patch ret)" for path patch ret
    using assms(1) by (auto simp: proppatch_apply_def served_fs intro!: write_rules)
  show ?thesis unfolding handle_proppatch_def proppatch_at_def Let_def
    by (intro write_rules shared_rules stays_req_path stays_proppatch_loop patch assms
        fs_try_post [OF metadata [THEN runs_anything, folded served_fs [OF assms(1)]]])
qed

lemma stays_set_props: "served sv \<Longrightarrow> stays (apply_set_props sv path tree)"
  by (auto simp: apply_set_props_def served_fs intro!: write_rules shared_rules)

lemma stays_or_rollback: "served sv \<Longrightarrow> stays m \<Longrightarrow> stays (or_rollback sv path m)"
  by (auto simp: or_rollback_def rollback_created_collection_def try_remove_marker_def served_fs intro!: write_rules)

lemma marks: "served sv \<Longrightarrow> stays (fs_try (fs_mark_calendar (sv_fs sv) path))"
  "served sv \<Longrightarrow> stays (fs_try (fs_mark_addressbook (sv_fs sv) path))"
  by (auto simp: served_fs intro!: write_rules)

lemma stays_mkcol_at: "served sv \<Longrightarrow> stays (mkcol_at sv stamps doc path)"
  unfolding mkcol_at_def Let_def check_nested_def
  by (auto simp: served_fs intro!: write_rules shared_rules stays_or_rollback marks stays_set_props stays_stamps
      split: fs_error.splits)

lemma stays_mkcol:
  assumes "served sv" "t \<Longrightarrow> \<exists>p. accepted sv rq p"
  shows "stays (handle_mkcol sv rq body)"
  unfolding handle_mkcol_def Let_def
  by (intro write_rules shared_rules stays_req_path stays_mkcol_at assms
      on_fs_post [OF metadata [THEN runs_anything, folded served_fs [OF assms(1)]]])

lemma stays_refuse_parent: "served sv \<Longrightarrow> stays (refuse_parent sv kind path)"
  by (auto simp: refuse_parent_def served_fs intro!: write_rules shared_rules)

lemma stays_mkcalendar:
  assumes "served sv" "t \<Longrightarrow> \<exists>p. accepted sv rq p"
  shows "stays (handle_mkcalendar sv rq body)"
proof -
  have "stays (mkcalendar_at sv doc path)" for doc path
    unfolding mkcalendar_at_def using assms(1)
    by (auto simp: served_fs intro!: write_rules stays_refuse_parent stays_or_rollback marks stays_set_props
        split: fs_error.splits)
  then show ?thesis unfolding handle_mkcalendar_def Let_def
    by (intro write_rules shared_rules stays_req_path assms
        on_fs_post [OF metadata [THEN runs_anything, folded served_fs [OF assms(1)]]])
qed

lemma stays_mkaddressbook:
  assumes "served sv" "t \<Longrightarrow> \<exists>p. accepted sv rq p"
  shows "stays (handle_mkaddressbook sv rq body)"
  unfolding handle_mkaddressbook_def
  by (intro write_rules stays_req_path stays_refuse_parent stays_mkcol stays_or_rollback marks stays_set_props assms)

section \<open>LOCK and UNLOCK\<close>

lemma stays_lock_target: "served sv \<Longrightarrow> stays (lock_target sv path)"
  by (auto simp: lock_target_def Let_def served_fs intro!: write_rules split: prod.splits)

lemma stays_refresh_at:
  assumes "served sv"
  shows "stays (refresh_at sv ls rq res path)"
proof -
  have one: "stays (case xs of [x] \<Rightarrow> f x | _ \<Rightarrow> fail e)" if "\<And>x. stays (f x)" for xs and f :: "bytes \<Rightarrow> ('s, 'l, response) handler" and e
    using that by (auto intro!: write_rules split: list.splits)
  show ?thesis unfolding refresh_at_def
    by (intro one write_rules stays_dav_if_match assms)
qed

lemma stays_lock_at:
  assumes "served sv"
  shows "stays (lock_at sv ls rq xmldata meta res path)"
proof -
  have "stays (lock_finish sv ls rq meta res path l)" for l
    using assms by (auto simp: lock_finish_def lock_create_def served_fs intro!: write_rules)
  then show ?thesis unfolding lock_at_def by (intro write_rules shared_rules assms)
qed

lemma stays_lock:
  assumes "served sv" "t \<Longrightarrow> \<exists>p. accepted sv rq p"
  shows "stays (handle_lock sv rq xmldata)"
proof (cases "sv_ls sv")
  case (Some l)
  then have "l = ls" by (rule served_ls [OF assms(1)])
  with Some show ?thesis unfolding handle_lock_def
    by (auto intro!: stays_req_path runs_bind rel_rules shared_rules stays_lock_target stays_refresh_at stays_lock_at
        runs_if runs_split assms)
qed (auto simp: handle_lock_def intro!: write_rules)

lemma stays_unlock:
  assumes "served sv" "t \<Longrightarrow> \<exists>p. accepted sv rq p"
  shows "stays (handle_unlock sv rq)"
proof (cases "sv_ls sv")
  case (Some l)
  then have "l = ls" by (rule served_ls [OF assms(1)])
  with Some show ?thesis unfolding handle_unlock_def
    by (auto intro!: write_rules stays_req_path shared_rules stays_lock_target assms)
qed (auto simp: handle_unlock_def intro!: write_rules)

section \<open>COPY and MOVE\<close>

lemma stays_copy_properties: "served sv \<Longrightarrow> stays (copy_collection_properties sv source dest meta)"
  unfolding copy_collection_properties_def Let_def
  by (auto simp: served_fs intro!: write_rules shared_rules on_fs_post [OF props_run] split: collection_kind.splits)

lemma stays_copy_entries:
  assumes sv: "served sv" and deeper: "\<And>src dst. stays (do_copy n sv src topdest dst d)"
  shows "entries_run t fi fr M es \<Longrightarrow> stays (copy_entries n sv source topdest dest d es retval)"
proof (induction es arbitrary: retval)
  case (Cons e es)
  have rest: "stays (copy_entries n sv source topdest dest d es r)" for r using Cons by (cases e) auto
  have u: "stays (case u of () \<Rightarrow> copy_entries n sv source topdest dest d es r)" for u r by (simp add: rest split: unit.splits)
  show ?case
  proof (cases e)
    case (Inr de)
    have de: "runs t fi fr anything (de_metadata de)" using Cons.prems Inr by (auto intro: runs_anything)
    show ?thesis unfolding Inr copy_entries.simps Let_def
      by (intro runs_bind rel_rules runs_attempt on_fs_post de stays_status runs_sum runs_if u rest deeper stays_ensure_visible sv)
  qed (simp add: stays_status)
qed (auto intro!: write_rules split: option.splits)

lemma stays_do_copy:
  assumes sv: "served sv" and nt: "\<not> t"
  shows "stays (do_copy n sv source topdest dest d)"
proof (induction n arbitrary: source dest)
  case (Suc n)
  have m: "stays (attempt (on_fs (fs_metadata (sv_fs sv) p)))" "stays (attempt (on_fs (fs_create_dir (sv_fs sv) p)))"
    "stays (attempt (on_fs (fs_copy (sv_fs sv) p q)))" for p q
    using sv by (auto simp: served_fs intro!: write_rules)
  have es: "stays (bind (attempt (on_fs (fs_read_dir (sv_fs sv) source RdDataSymlink))) (\<lambda>r. case r of
      Inl e \<Rightarrow> copy_status source (FsErr e) | Inr entries \<Rightarrow> copy_entries n sv source topdest dest d entries None))" for source dest
    by (rule runs_bind_post [OF rel_rules(6) dirs_post [OF sv]])
      (auto intro!: runs_sum stays_status stays_copy_entries [OF sv Suc])
  show ?case unfolding do_copy.simps
    by (intro es m write_rules stays_status runs_attempt stays_copy_properties sv)
qed (simp add: nt runs_diverge)

text \<open>A path that a request may be renamed from or to: any, when renaming stays in the frame whatever the
  paths, else a path below the prefix.\<close>

definition nameable :: "bytes \<Rightarrow> dav_path \<Rightarrow> bool" where
  "nameable stem p \<longleftrightarrow> (\<forall>p q. runs t fi fr anything (fs_rename fs p q)) \<or> below_prefix stem p"

lemma nameable_slash: "nameable stem p \<Longrightarrow> nameable stem (add_slash_if b p)"
  unfolding nameable_def using below_prefix_slash by blast

lemma nameable_rename:
  assumes "nameable stem p" "nameable stem q" "\<not> path_eq p q"
  shows "runs t fi fr anything (fs_rename fs p q)"
proof (cases "\<forall>p q. runs t fi fr anything (fs_rename fs p q)")
  case False
  with assms have "lock_segs p \<noteq> lock_segs q" unfolding nameable_def using same_segs_eq by blast
  then show ?thesis by (rule rename)
qed blast

lemma rename_post:
  "served sv \<Longrightarrow> runs t fi fr anything (fs_rename fs p q) \<Longrightarrow> stays (do_move sv p q)"
  by (auto simp: do_move_def served_fs intro!: write_rules stays_status)

lemma stays_copymove_stream:
  assumes sv: "served sv" and nt: "\<not> t" and apart: "runs t fi fr anything (fs_rename fs path dest)"
  shows "stays (copymove_stream n sv method d overwrite path dest f dmeta)"
  unfolding copymove_stream_def Let_def
  by (intro write_rules stays_delete_items [OF sv nt] stays_do_copy [OF sv nt] rename_post [OF sv apart]
      stays_unlock_path [OF sv] stays_send)

lemma same_post:
  assumes "served sv"
  shows "runs t (world_inv fi li) (world_rel fr lr) (\<lambda>b. \<not> b \<longrightarrow> \<not> path_eq p q) (same_or_nested sv p q ex)"
  using runs_weaken [OF fs_try_post [OF same_resource [folded served_fs [OF assms]]], of "\<lambda>b. \<not> b \<longrightarrow> \<not> path_eq p q"]
  by (cases "path_eq p q") (auto simp: same_or_nested_def intro!: runs_ok rel_rules)

lemma source_post:
  assumes "served sv" "nameable stem path"
  shows "runs t (world_inv fi li) (world_rel fr lr) (\<lambda>x. nameable stem (snd x)) (copymove_source sv method path)"
  using assms by (auto simp: copymove_source_def served_fs intro!: write_rules nameable_slash
      runs_bind_post [where P = "nameable stem"])

lemma stays_validate: "served sv \<Longrightarrow> stays (validate_copy_destination sv source dest)"
  by (auto simp: validate_copy_destination_def served_fs intro!: write_rules shared_rules)

lemma stays_copymove_at:
  assumes sv: "served sv" and nt: "\<not> t" and p: "nameable stem path" "nameable stem dest"
  shows "stays (copymove_at n sv rq method d overwrite path meta dest)"
proof -
  have tgt: "stays (copymove_target sv dest)" "stays (check_kinds sv path meta dest)"
    using sv by (auto simp: copymove_target_def check_kinds_def served_fs intro!: write_rules shared_rules)
  note apart = nameable_rename [OF p]
  have locks: "stays (copymove_locks sv method path dest toks)" for toks
    unfolding copymove_locks_def by (intro write_rules shared_rules sv)
  show ?thesis unfolding copymove_at_def
    by (intro runs_bind_post [OF _ same_post [OF sv]] tgt locks write_rules shared_rules stays_validate
        stays_collect stays_copymove_stream stays_multi_error apart sv nt) simp
qed

lemma stays_copymove:
  assumes sv: "served sv" and nt: "\<not> t"
    and star: "rq_path rq \<noteq> ''*'' \<or> (\<forall>p q. runs t fi fr anything (fs_rename fs p q))"
  shows "stays (handle_copymove n sv rq method)"
proof -
  define stem where "stem = (if ends_with (sv_prefix sv) [slash] then butlast (sv_prefix sv) else sv_prefix sv)"
  have src: "nameable stem p" if "accepted sv rq p" for p
    using accepted_below [OF that [unfolded accepted_def]] star unfolding stem_def nameable_def by blast
  have dst: "nameable stem q" if "copymove_dest sv rq = Inr q" for q
  proof -
    from that obtain dec src where "from_str_and_prefix dec src (sv_prefix sv) = Inr q"
      by (auto simp: copymove_dest_def split: option.splits if_splits sum.splits)
    then show ?thesis unfolding stem_def nameable_def using from_str_below by blast
  qed
  show ?thesis unfolding handle_copymove_def Let_def
    by (intro runs_bind_post [OF _ source_post [OF sv src]] runs_sum runs_fail rel_rules stays_path_unless [OF nt] runs_bind
        stays_ensure_visible sv runs_split stays_has_parent runs_if stays_copymove_at [OF sv nt _ dst]) auto
qed

section \<open>All requests\<close>

lemma stays_request:
  assumes sv: "served sv" and star: "rq_path rq \<noteq> ''*'' \<or> (\<forall>p q. runs t fi fr anything (fs_rename fs p q))"
    and t: "\<And>m. t \<Longrightarrow> dav_method_of (rq_method rq) = Inr m \<Longrightarrow> at_once cx sv rq m"
  shows "stays (handle2 cx sv rq frames)"
proof (rule stays_handle2_cases)
  fix m dat assume m: "dav_method_of (rq_method rq) = Inr m" and p: "\<exists>p. accepted sv rq p"
  have nt: "\<not> t" if "m \<in> {MDelete, MCopy, MMove}" using t [OF _ m] that by (auto simp: at_once_def)
  show "stays (dispatch cx sv rq m dat frames)"
  proof (cases "reads_only m")
    case True
    then show ?thesis by (rule stays_dispatch_read [OF sv p]) (use t m in auto)
  next
    case False
    note w = stays_proppatch stays_mkcol stays_lock stays_unlock stays_put stays_mkcalendar stays_mkaddressbook
    have "m \<in> {MDelete, MCopy, MMove} \<Longrightarrow> stays (handle_delete (cx_fuel cx) sv rq)"
      "m \<in> {MDelete, MCopy, MMove} \<Longrightarrow> stays (handle_copymove (cx_fuel cx) sv rq m)"
      by (rule stays_handle_delete [OF sv nt] stays_copymove [OF sv nt star]; assumption)+
    with False show ?thesis by (cases m) (simp_all add: dispatch_def reads_only_def w [OF sv p])
  qed
qed

end

end
