(* ===== verification/Mem_Server.thy ===== *)
theory Mem_Server
  imports Server_Writes Handle_Main Mem_Put
begin

text \<open>
  The server over the in-memory filesystem and lock system.  Its backends fit both frames: that of
  requests which change nothing, and that of requests whose effect is a run of backend operations.
\<close>

section \<open>The in-memory backends in a frame\<close>

text \<open>What the in-memory filesystem tells of a node.\<close>

definition mem_told :: "dav_meta \<Rightarrow> bool" where
  "mem_told m \<longleftrightarrow> (\<exists>n. m = as_dirent n)"

definition same_view :: "mem_ls \<Rightarrow> mem_ls \<Rightarrow> bool" where
  "same_view l l' \<longleftrightarrow> lock_view l' = lock_view l"

lemma runs_step:
  assumes "\<And>s. K s \<Longrightarrow> \<exists>r s'. a s = Some (r, s') \<and> K s' \<and> R s s' \<and> (\<forall>x. r = Inr x \<longrightarrow> Q x)"
  shows "runs t K R Q a"
proof (rule runsI)
  fix s assume "K s" "a s = None"
  with assms [of s] show "\<not> t" by auto
next
  fix s r s' assume "K s" "a s = Some (r, s')"
  with assms [of s] show "K s' \<and> R s s' \<and> (\<forall>x. r = Inr x \<longrightarrow> Q x)" by auto
qed

lemma mem_open_read: "fs_ok s \<Longrightarrow> \<exists>r. memfs_open p oo_for_read s = Some (r, s)"
  using memfs_open_ok [of s p oo_for_read]
  by (auto simp: memfs_open_def on_tree_def do_open_def oo_for_read_def bind_def ok_def
      split: sum.splits option.splits fs_error.splits if_splits)

lemma mem_read_op_pure: "\<exists>r. memf_read_bytes h n s = Some (r, s)"
  by (auto simp: memf_read_bytes_def on_tree_def bind_def lift_lookup_def Let_def split: sum.splits)

lemma mem_seek_pure: "\<exists>r. memf_seek h sk s = Some (r, s)"
  by (cases sk) (auto simp: memf_seek_def on_tree_def bind_def lift_lookup_def ok_def fail_def
      split: sum.splits option.splits if_splits)

lemma mem_get_props_pure: "\<exists>r. memfs_get_props p b s = Some (r, s)" "\<exists>r. memfs_get_prop p pr s = Some (r, s)"
  by (auto simp: memfs_get_props_def memfs_get_prop_def on_tree_def bind_def lift_lookup_def
      split: sum.splits option.splits)

lemma mem_metadata_told: "\<exists>r. memfs_metadata p s = Some (r, s) \<and> (\<forall>m. r = Inr m \<longrightarrow> mem_told m)"
  by (auto simp: memfs_metadata_def on_tree_def bind_def lift_lookup_def mem_told_def split: sum.splits)

lemma memf_metadata_told: "\<exists>r. memf_metadata h s = Some (r, s) \<and> (\<forall>x. r = Inr x \<longrightarrow> mem_told (fst x))"
  by (auto simp: memf_metadata_def on_tree_def bind_def lift_lookup_def mem_told_def split: sum.splits)

lemma mem_entries_run:
  "reflp R \<Longrightarrow> entries_run t K R mem_told (concat (map (\<lambda>(name, c). case g c of Inr nd \<Rightarrow> [Inr (mem_dirent name nd)] | Inl (_ :: fs_error) \<Rightarrow> []) cs))"
  by (fastforce simp: entries_run_def mem_dirent_def mem_told_def intro!: runs_ok split: sum.splits)

lemma mem_read_dir_told:
  "reflp R \<Longrightarrow> \<exists>r. memfs_read_dir p k s = Some (r, s) \<and> (\<forall>es. r = Inr es \<longrightarrow> entries_run t K R mem_told es)"
  by (auto simp: memfs_read_dir_def on_tree_def bind_def lift_lookup_def intro: mem_entries_run split: sum.splits)

text \<open>Reading leaves the filesystem as it is, whatever else the frame asks.\<close>

lemma mem_reads_run:
  assumes "reflp fr"
  shows "runs t fs_ok fr mem_told (memfs_metadata p)" "runs t fs_ok fr anything (default_same_resource p q)"
    "runs t fs_ok fr (entries_run t fs_ok fr mem_told) (memfs_read_dir p k)" "runs t fs_ok fr anything (memfs_open p oo_for_read)"
    "runs t fs_ok fr (\<lambda>x. mem_told (fst x)) (memf_metadata h)" "runs t fs_ok fr anything (memf_read_bytes h n)"
    "runs t fs_ok fr anything (memf_seek h sk)" "runs t fs_ok fr anything (memfs_get_props p b)"
    "runs t fs_ok fr anything (memfs_get_prop p pr)" "runs t fs_ok fr anything not_implemented"
proof -
  have r: "fr s s" for s using assms by (rule reflpD)
  show "runs t fs_ok fr mem_told (memfs_metadata p)" by (rule runs_step) (use mem_metadata_told r in blast)
  show "runs t fs_ok fr anything (default_same_resource p q)" by (simp add: default_same_resource_def runs_ok assms)
  show "runs t fs_ok fr (entries_run t fs_ok fr mem_told) (memfs_read_dir p k)"
    by (rule runs_step) (use mem_read_dir_told [OF assms] r in blast)
  show "runs t fs_ok fr anything (memfs_open p oo_for_read)" by (rule runs_step) (use mem_open_read r in blast)
  show "runs t fs_ok fr (\<lambda>x. mem_told (fst x)) (memf_metadata h)" by (rule runs_step) (use memf_metadata_told r in blast)
  show "runs t fs_ok fr anything (memf_read_bytes h n)" by (rule runs_step) (use mem_read_op_pure r in blast)
  show "runs t fs_ok fr anything (memf_seek h sk)" by (rule runs_step) (use mem_seek_pure r in blast)
  show "runs t fs_ok fr anything (memfs_get_props p b)" by (rule runs_step) (use mem_get_props_pure r in blast)
  show "runs t fs_ok fr anything (memfs_get_prop p pr)" by (rule runs_step) (use mem_get_props_pure r in blast)
  show "runs t fs_ok fr anything not_implemented" by (simp add: not_implemented_def runs_fail assms)
qed

lemmas memfs_ops_sel = memfs_ops_def fs_ops.simps memls_ops_def ls_ops.simps

interpretation memkeep: reading_frame t fs_ok "(=)" memls_ok same_view mem_told "memfs_ops avail" memls_ops for t avail
proof
  show "reflp (=)" "transp (=)" "reflp same_view" "transp same_view"
    by (simp_all add: reflp_def transp_def same_view_def)
  show "runs t memls_ok same_view anything (ls_check memls_ops p who ign deep toks)" for p who ign deep toks
    by (rule runs_step) (use memls.check_law in \<open>fastforce simp: same_view_def\<close>)
  show "runs t memls_ok same_view anything (ls_discover memls_ops p)" for p
    by (rule runs_step) (use memls.discover_law in \<open>fastforce simp: same_view_def\<close>)
qed (simp_all add: memfs_ops_sel mem_reads_run runs_ok)

section \<open>Runs of backend operations\<close>

lemma fs_step_runs:
  assumes "\<And>s. fs_ok s \<Longrightarrow> a s \<noteq> None" and "\<And>s r s'. a s = Some (r, s') \<Longrightarrow> fs_step s s'"
  shows "runs t fs_ok fs_step\<^sup>*\<^sup>* anything a"
proof (rule runs_step)
  fix s assume ok: "fs_ok s"
  with assms(1) obtain r s' where a: "a s = Some (r, s')" by fastforce
  with assms(2) have "fs_step s s'" by blast
  with a ok show "\<exists>r s'. a s = Some (r, s') \<and> fs_ok s' \<and> fs_step\<^sup>*\<^sup>* s s' \<and> (\<forall>x. r = Inr x \<longrightarrow> anything x)"
    using fs_step_ok by blast
qed

lemma get_node_mut_returns: "get_node_mut i f s \<noteq> None"
  by (auto simp: get_node_mut_def split: option.splits)

lemma mem_writes_return:
  "fs_ok s \<Longrightarrow> memfs_open p oo s \<noteq> None" "fs_ok s \<Longrightarrow> memfs_create_dir p s \<noteq> None"
  "fs_ok s \<Longrightarrow> memfs_remove_dir p s \<noteq> None" "fs_ok s \<Longrightarrow> memfs_remove_file p s \<noteq> None"
  "fs_ok s \<Longrightarrow> lock_segs p \<noteq> lock_segs q \<Longrightarrow> memfs_rename p q s \<noteq> None" "fs_ok s \<Longrightarrow> memfs_copy p q s \<noteq> None"
  "memfs_set_modified p tm s \<noteq> None" "memfs_set_created p tm s \<noteq> None" "memfs_patch_props p patch s \<noteq> None"
  "memfs_mark g p s \<noteq> None" "memf_write_bytes avail h bs s \<noteq> None"
proof -
  show "fs_ok s \<Longrightarrow> memfs_open p oo s \<noteq> None" using memfs_open_ok [of s p oo] by auto
  show "fs_ok s \<Longrightarrow> memfs_create_dir p s \<noteq> None" using memfs_create_dir_ok [of s p] by auto
  show "fs_ok s \<Longrightarrow> memfs_remove_dir p s \<noteq> None" "fs_ok s \<Longrightarrow> memfs_remove_file p s \<noteq> None"
    using memfs_remove_ok [of s p] by auto
  show "fs_ok s \<Longrightarrow> lock_segs p \<noteq> lock_segs q \<Longrightarrow> memfs_rename p q s \<noteq> None"
    using memfs_rename_ok [of s p q] by (auto simp: segs_of_def lock_segs_def)
  show "fs_ok s \<Longrightarrow> memfs_copy p q s \<noteq> None" using memfs_copy_ok [of s p q] by auto
  show "memfs_set_modified p tm s \<noteq> None" "memfs_set_created p tm s \<noteq> None" "memfs_patch_props p patch s \<noteq> None"
    "memfs_mark g p s \<noteq> None" "memf_write_bytes avail h bs s \<noteq> None"
    by (auto simp: get_node_mut_returns memfs_set_modified_def memfs_set_created_def memfs_patch_props_def memfs_mark_def memf_write_bytes_def
        on_tree_def bind_def lift_lookup_def Let_def ok_def fail_def simp del: not_None_eq split: option.splits sum.splits mem_node.splits)
qed

lemma ml_step_runs:
  assumes "\<And>s. memls_ok s \<Longrightarrow> \<exists>r s'. a s = Some (r, s') \<and> memls_ok s'" and "\<And>s r s'. a s = Some (r, s') \<Longrightarrow> ml_step s s'"
  shows "runs t memls_ok ml_step\<^sup>*\<^sup>* anything a"
  using assms by (intro runs_step) (blast intro: r_into_rtranclp)

lemma memls_returns:
  assumes "memls_ok s"
  shows "\<exists>r s'. memls_lock p who owner tmo shared deep s = Some (r, s') \<and> memls_ok s'"
    "\<exists>r s'. memls_unlock p tok s = Some (r, s') \<and> memls_ok s'" "\<exists>r s'. memls_refresh p tok tmo s = Some (r, s') \<and> memls_ok s'"
    "\<exists>r s'. memls_check p who ign deep toks s = Some (r, s') \<and> memls_ok s'"
    "\<exists>r s'. memls_discover p s = Some (r, s') \<and> memls_ok s'" "\<exists>r s'. memls_delete p s = Some (r, s') \<and> memls_ok s'"
  using memls_lock_ok [OF assms [unfolded memls_ok_def], of p who owner tmo shared deep]
    memls_unlock_ok [OF assms [unfolded memls_ok_def], of p tok] memls_refresh_ok [OF assms [unfolded memls_ok_def], of p tok tmo]
    memls_check_ok [OF assms [unfolded memls_ok_def], of p who ign deep toks]
    memls_discover_ok [OF assms [unfolded memls_ok_def], of p] memls_delete_ok [OF assms [unfolded memls_ok_def], of p]
  by (metis memls_ok_def)+

lemma steps_refl: "reflp R\<^sup>*\<^sup>*"
  by (simp add: reflp_def)

lemma mem_open_steps: "runs t fs_ok fs_step\<^sup>*\<^sup>* anything (memfs_open p oo)"
  by (rule fs_step_runs) (auto simp: memfs_ops_sel mem_writes_return simp del: not_None_eq intro: fs_do_open)

interpretation memstep: writing_frame t fs_ok "fs_step\<^sup>*\<^sup>*" memls_ok "ml_step\<^sup>*\<^sup>*" mem_told "memfs_ops avail" memls_ops for t avail
proof
  show "reflp fs_step\<^sup>*\<^sup>*" "transp fs_step\<^sup>*\<^sup>*" "reflp ml_step\<^sup>*\<^sup>*" "transp ml_step\<^sup>*\<^sup>*"
    by (auto simp: steps_refl transp_def)
  note ls = memls_returns
  show "runs t memls_ok ml_step\<^sup>*\<^sup>* anything (ls_check memls_ops p who ign deep toks)" for p who ign deep toks
    by (rule ml_step_runs) (auto simp: memfs_ops_sel intro: ls do_check)
  show "runs t memls_ok ml_step\<^sup>*\<^sup>* anything (ls_discover memls_ops p)" for p
    by (rule ml_step_runs) (auto simp: memfs_ops_sel intro: ls do_discover)
  show "runs t memls_ok ml_step\<^sup>*\<^sup>* anything (ls_lock memls_ops p who owner tmo shared deep)" for p who owner tmo shared deep
    by (rule ml_step_runs) (auto simp: memfs_ops_sel intro: ls do_lock)
  show "runs t memls_ok ml_step\<^sup>*\<^sup>* anything (ls_unlock memls_ops p tok)" for p tok
    by (rule ml_step_runs) (auto simp: memfs_ops_sel intro: ls do_unlock)
  show "runs t memls_ok ml_step\<^sup>*\<^sup>* anything (ls_refresh memls_ops p tok tmo)" for p tok tmo
    by (rule ml_step_runs) (auto simp: memfs_ops_sel intro: ls do_refresh)
  show "runs t memls_ok ml_step\<^sup>*\<^sup>* anything (ls_delete memls_ops p)" for p
    by (rule ml_step_runs) (auto simp: memfs_ops_sel intro: ls do_delete)
  show "lock_segs p \<noteq> lock_segs q \<Longrightarrow> runs t fs_ok fs_step\<^sup>*\<^sup>* anything (fs_rename (memfs_ops avail) p q)" for p q
    by (rule fs_step_runs) (auto simp: memfs_ops_sel segs_of_def lock_segs_def mem_writes_return simp del: not_None_eq intro: fs_do_rename)
  show "runs t fs_ok fs_step\<^sup>*\<^sup>* anything (fs_create_dir (memfs_ops avail) p)" for p
    by (rule fs_step_runs) (auto simp: memfs_ops_sel mem_writes_return simp del: not_None_eq intro: fs_do_create_dir)
  show "runs t fs_ok fs_step\<^sup>*\<^sup>* anything (fs_remove_dir (memfs_ops avail) p)" for p
    by (rule fs_step_runs) (auto simp: memfs_ops_sel mem_writes_return simp del: not_None_eq intro: fs_do_remove_dir)
  show "runs t fs_ok fs_step\<^sup>*\<^sup>* anything (fs_remove_file (memfs_ops avail) p)" for p
    by (rule fs_step_runs) (auto simp: memfs_ops_sel mem_writes_return simp del: not_None_eq intro: fs_do_remove_file)
  show "runs t fs_ok fs_step\<^sup>*\<^sup>* anything (fs_copy (memfs_ops avail) p q)" for p q
    by (rule fs_step_runs) (auto simp: memfs_ops_sel mem_writes_return simp del: not_None_eq intro: fs_do_copy)
  show "runs t fs_ok fs_step\<^sup>*\<^sup>* anything (fs_set_modified (memfs_ops avail) p tm)" for p tm
    by (rule fs_step_runs) (auto simp: memfs_ops_sel mem_writes_return simp del: not_None_eq intro: fs_do_set_modified)
  show "runs t fs_ok fs_step\<^sup>*\<^sup>* anything (fs_set_created (memfs_ops avail) p tm)" for p tm
    by (rule fs_step_runs) (auto simp: memfs_ops_sel mem_writes_return simp del: not_None_eq intro: fs_do_set_created)
  show "runs t fs_ok fs_step\<^sup>*\<^sup>* anything (fs_patch_props (memfs_ops avail) p patch)" for p patch
    by (rule fs_step_runs) (auto simp: memfs_ops_sel mem_writes_return simp del: not_None_eq intro: fs_do_patch_props)
  show "runs t fs_ok fs_step\<^sup>*\<^sup>* anything (fs_mark_calendar (memfs_ops avail) p)" for p
    by (rule fs_step_runs) (auto simp: memfs_ops_sel memfs_mark_calendar_def mem_writes_return simp del: not_None_eq intro: fs_do_mark)
  show "runs t fs_ok fs_step\<^sup>*\<^sup>* anything (fs_mark_addressbook (memfs_ops avail) p)" for p
    by (rule fs_step_runs) (auto simp: memfs_ops_sel memfs_mark_addressbook_def mem_writes_return simp del: not_None_eq intro: fs_do_mark)
  show "runs t fs_ok fs_step\<^sup>*\<^sup>* anything (f_write_bytes (memfs_ops avail) h bs)" for h bs
    by (rule fs_step_runs) (auto simp: memfs_ops_sel mem_writes_return simp del: not_None_eq intro: fs_do_write)
  show "runs t fs_ok fs_step\<^sup>*\<^sup>* anything (f_write_buf (memfs_ops avail) h bss)" for h bss
    by (rule fs_step_runs) (auto simp: memfs_ops_sel write_buf_eq mem_writes_return simp del: not_None_eq intro: fs_do_write)
  have "runs t fs_ok fs_step\<^sup>*\<^sup>* anything (memf_flush h)" for h by (simp add: memf_flush_def runs_ok steps_refl)
  then show "runs t fs_ok fs_step\<^sup>*\<^sup>* anything (f_flush (memfs_ops avail) h)" for h by (simp add: memfs_ops_sel)
qed (simp_all add: memfs_ops_sel mem_open_steps mem_reads_run [OF steps_refl] runs_ok steps_refl)

end
