(* ===== verification/Server_Props.thy ===== *)
theory Server_Props
  imports Mem_Server Handle_Store Cal_Props
begin

text \<open>
  Whole requests: what is refused before a handler is called, which requests leave the server as it is,
  that every request is a run of operations of the backends, so that their invariants hold in every
  state a server can reach, and that requests are answered.
\<close>

section \<open>Requests that are refused at once\<close>

definition no_errors :: "frame list \<Rightarrow> bool" where
  "no_errors frames \<longleftrightarrow> (\<forall>e. FError e \<notin> set frames)"

text \<open>The status with which a request is refused, from the method, the path and the body alone.\<close>

definition refusal :: "('s, 'h, 'l) server \<Rightarrow> request \<Rightarrow> frame list \<Rightarrow> status option" where
  "refusal sv rq frames =
     (case dav_method_of (rq_method rq) of
        Inl e \<Rightarrow> Some (statuscode e)
      | Inr m \<Rightarrow>
          if (case sv_allow sv of Some a \<Rightarrow> \<not> methods_contains a m | None \<Rightarrow> False) then Some 405
          else (case from_uri_and_prefix (pct_decode (sv_http sv)) (rq_path rq) (sv_prefix sv) of
             Inl e \<Rightarrow> Some (statuscode (parse_error_to_dav e))
           | Inr _ \<Rightarrow>
               if m = MPut \<or> m = MPatch then None
               else if MAX_BODY < length (whole_body frames) then Some 413
               else if whole_body frames \<noteq> [] \<and> \<not> accepts_body m then Some 415 else None))"

lemma read_request_body:
  "no_errors frames \<Longrightarrow> length dat \<le> n \<Longrightarrow> read_request n frames dat =
     (if n < length dat + length (whole_body frames) then Inl (Status 413) else Inr (dat @ whole_body frames))"
proof (induction frames arbitrary: dat)
  case (Cons fr frames)
  have "read_request n (fr # frames) dat = (if frame_data fr \<noteq> [] \<and> n < length dat + length (frame_data fr) then Inl (Status 413)
      else read_request n frames (dat @ frame_data fr))"
    using Cons.prems(1) by (cases fr) (auto simp: no_errors_def)
  moreover have "no_errors frames" using Cons.prems(1) by (simp add: no_errors_def)
  ultimately show ?case using Cons by (cases "frame_data fr = []") (auto simp: whole_body_def)
qed (simp add: whole_body_def)

lemma body_data_body:
  "no_errors frames \<Longrightarrow> body_data m frames =
     (if m = MPut \<or> m = MPatch then Inr []
      else if MAX_BODY < length (whole_body frames) then Inl (Status 413)
      else if whole_body frames \<noteq> [] \<and> \<not> accepts_body m then Inl (Status 415) else Inr (whole_body frames))"
  by (auto simp: body_data_def read_request_body split: sum.splits if_splits)

lemma refused:
  assumes "no_errors frames" "refusal sv rq frames = Some st"
  shows "\<exists>e. handle2 cx sv rq frames = fail e \<and> statuscode e = st"
  using assms
  by (auto simp: refusal_def handle2_def void_check_def is_voidfs_def body_data_body split: sum.splits if_splits)

lemma not_refused:
  assumes "no_errors frames" "refusal sv rq frames = None"
  obtains m where "dav_method_of (rq_method rq) = Inr m"
    "handle2 cx sv rq frames = dispatch cx sv rq m (if m = MPut \<or> m = MPatch then [] else whole_body frames) frames"
  using assms
  by (auto simp: refusal_def handle2_def void_check_def is_voidfs_def body_data_body split: sum.splits if_splits)

lemma handle_request_run:
  "handle_request cx sv rq frames w = Some (resp, w') \<Longrightarrow> \<exists>r. handle2 cx sv rq frames w = Some (r, w')"
  "handle_request cx sv rq frames w = None \<longleftrightarrow> handle2 cx sv rq frames w = None"
  by (auto simp: handle_request_def Let_def split: option.splits sum.splits)

text \<open>C19: A request with an unknown or disallowed method, an address outside the server, a body of more than
  64 KiB, or a body where none is expected is refused, with the status of the first of these that
  applies, and changes nothing; every other request reaches the handler of its method with its body.\<close>

theorem request_gate:
  assumes "no_errors frames"
  shows "case refusal sv rq frames of
      Some st \<Rightarrow> \<exists>resp. handle_request cx sv rq frames w = Some (resp, w) \<and> rs_status resp = st \<and> rs_body resp = BEmpty
    | None \<Rightarrow> \<exists>m. dav_method_of (rq_method rq) = Inr m \<and> handle2 cx sv rq frames =
        dispatch cx sv rq m (if m = MPut \<or> m = MPatch then [] else whole_body frames) frames"
proof (cases "refusal sv rq frames")
  case None
  obtain m where "dav_method_of (rq_method rq) = Inr m"
    "handle2 cx sv rq frames = dispatch cx sv rq m (if m = MPut \<or> m = MPatch then [] else whole_body frames) frames"
    by (rule not_refused [OF assms None])
  then show ?thesis unfolding None option.case by blast
next
  case (Some st)
  from refused [OF assms Some, of cx] obtain e where "handle2 cx sv rq frames = fail e" "statuscode e = st" by blast
  then have "handle_request cx sv rq frames w = Some (error_response (contains_sub (user_agent (sv_http sv) rq) ''Microsoft'') e, w)"
    by (simp only: handle_request_def Let_def fail_apply option.case prod.case sum.case)
  moreover have "rs_status (error_response b e) = statuscode e" "rs_body (error_response b e) = BEmpty" for b
    by (simp_all add: error_response_def)
  ultimately show ?thesis using \<open>statuscode e = st\<close> by (simp only: Some option.case) blast
qed

text \<open>A context to run requests in.\<close>

definition demo_context :: "unit run_context" where
  "demo_context = \<lparr>cx_fuel = 9, cx_boundary = ''u'', cx_index = (\<lambda>_ _. []),
     cx_report = \<lparr>re_cal = demo_cal_env 0, re_vcard = (\<lambda>_. Inl []), re_uuid = ''u'', re_now = 0\<rparr>\<rparr>"

lemma demo_methods: "dav_method_of ''GET'' = Inr MGet" "dav_method_of ''PUT'' = Inr MPut"
  by code_simp+

lemma demo_request_simps [simp]:
  "rq_method (demo_request me p hs) = me" "rq_path (demo_request me p hs) = p" "sv_allow range_server = None"
  by (simp_all add: demo_request_def range_server_def demo_server_def)

lemma request_gate_witness:
  "\<exists>resp. handle_request demo_context range_server (demo_request ''GET'' ''/d/f'' []) [FBytes ''x''] demo_world = Some (resp, demo_world) \<and>
     rs_status resp = 415"
proof -
  have "refusal range_server (demo_request ''GET'' ''/d/f'' []) [FBytes ''x''] = Some 415"
    by (simp add: refusal_def demo_methods demo_path_df whole_body_def MAX_BODY_def accepts_body_def)
  with request_gate [where frames = "[FBytes ''x'']" and sv = range_server and rq = "demo_request ''GET'' ''/d/f'' []" and
      cx = demo_context and w = demo_world]
  show ?thesis by (auto simp: no_errors_def)
qed

section \<open>Requests that change nothing\<close>

definition mem_server :: "nat \<Rightarrow> (mem_fs, mem_file, mem_ls) server \<Rightarrow> bool" where
  "mem_server avail sv \<longleftrightarrow> sv_fs sv = memfs_ops avail \<and> (sv_ls sv = None \<or> sv_ls sv = Some memls_ops)"

lemma mem_tag_fits: "takes_tags env \<Longrightarrow> mem_told m \<Longrightarrow> tag_fits env m"
  unfolding tag_fits_def mem_told_def using mem_tag_encodes by blast

lemma mem_served: "mem_server avail sv \<Longrightarrow> memkeep.served False avail sv"
  by (simp add: memkeep.served_def mem_server_def)

lemma mem_served_tags: "mem_server avail sv \<Longrightarrow> takes_tags (sv_http sv) \<Longrightarrow> memkeep.served True avail sv"
  by (simp add: memkeep.served_def mem_server_def mem_tag_fits)

text \<open>C2: \<^verbatim>\<open>OPTIONS\<close>, \<^verbatim>\<open>GET\<close>, \<^verbatim>\<open>HEAD\<close>, \<^verbatim>\<open>PROPFIND\<close> and \<^verbatim>\<open>REPORT\<close> leave the files and the locks in force
  as they are, whatever the headers and the body say and whatever the answer is.\<close>

theorem safe_methods_change_nothing:
  assumes "mem_server avail sv" and "fs_ok (w_fs w)" and "memls_ok (w_ls w)"
    and "dav_method_of (rq_method rq) = Inr m" and "m \<in> {MOptions, MGet, MHead, MPropFind, MReport}"
    and "handle_request cx sv rq frames w = Some (resp, w')"
  shows "w_fs w' = w_fs w \<and> lock_view (w_ls w') = lock_view (w_ls w)"
proof -
  obtain r where r: "handle2 cx sv rq frames w = Some (r, w')" using handle_request_run(1) [OF assms(6)] by blast
  have "reads_only m" using assms(5) by (auto simp: reads_only_def)
  then have "memkeep.stays False (handle2 cx sv rq frames)"
    using memkeep.stays_read_request [OF mem_served [OF assms(1)] assms(4)] by simp
  from runsD(2) [OF this _ r] assms(2,3) show ?thesis
    by (simp add: world_inv_def world_rel_def same_view_def)
qed

lemma demo_mem_server: "mem_server 1000 range_server"
  by (simp add: mem_server_def)

lemma demo_world_ok: "fs_ok (w_fs demo_world)" "memls_ok (w_ls demo_world)"
  by (simp_all add: demo_world_def fs_demo_facts memls_ok_def demo_wf)

lemma request_answered:
  assumes "mem_server avail sv" and "takes_tags (sv_http sv)" and "rq_path rq \<noteq> ''*''"
    and "fs_ok (w_fs w)" and "memls_ok (w_ls w)" and "\<And>m. dav_method_of (rq_method rq) = Inr m \<Longrightarrow> at_once cx sv rq m"
  shows "\<exists>resp w'. handle_request cx sv rq frames w = Some (resp, w')"
proof -
  have "memstep.stays True (handle2 cx sv rq frames)"
    by (rule memstep.stays_request [OF mem_served_tags [OF assms(1,2)] disjI1 [OF assms(3)] assms(6)])
  from runs_returns [OF this] assms(4,5) have "handle2 cx sv rq frames w \<noteq> None" by (simp add: world_inv_def)
  with handle_request_run(2) [of cx sv rq frames w] show ?thesis by fastforce
qed

text \<open>A \<^verbatim>\<open>GET\<close> or a \<^verbatim>\<open>PUT\<close> of a file, which is answered.\<close>

lemma demo_answered:
  assumes "me = ''GET'' \<or> me = ''PUT''" "fs_ok (w_fs w)" "memls_ok (w_ls w)"
  shows "\<exists>resp w'. handle_request demo_context range_server (demo_request me ''/d/f'' []) frames w = Some (resp, w')"
  by (rule request_answered [OF demo_mem_server]) (use assms in \<open>auto simp: demo_takes_tags demo_methods at_once_def\<close>)

lemma safe_methods_change_nothing_witness:
  "\<exists>resp w'. handle_request demo_context range_server (demo_request ''GET'' ''/d/f'' []) [] demo_world = Some (resp, w') \<and>
     w_fs w' = fs_demo \<and> lock_view (w_ls w') = lock_view demo_ls"
  using demo_answered [of "''GET''" demo_world "[]"] demo_world_ok
    safe_methods_change_nothing [OF demo_mem_server demo_world_ok, where rq = "demo_request ''GET'' ''/d/f'' []" and m = MGet and cx = demo_context and frames = "[]"]
  by (fastforce simp: demo_methods demo_world_def)

section \<open>Every request is a run of backend operations\<close>

lemma request_run:
  assumes "mem_server avail sv" and "rq_path rq \<noteq> ''*''" and "fs_ok (w_fs w)" and "memls_ok (w_ls w)"
    and "handle_request cx sv rq frames w = Some (resp, w')"
  shows "fs_step\<^sup>*\<^sup>* (w_fs w) (w_fs w')" "ml_step\<^sup>*\<^sup>* (w_ls w) (w_ls w')" "fs_ok (w_fs w')" "memls_ok (w_ls w')"
proof -
  obtain r where r: "handle2 cx sv rq frames w = Some (r, w')" using handle_request_run(1) [OF assms(5)] by blast
  have "memstep.stays False (handle2 cx sv rq frames)"
    by (rule memstep.stays_request [OF mem_served [OF assms(1)] disjI1 [OF assms(2)]]) simp
  from runsD(1,2) [OF this _ r] assms(3,4)
  show "fs_step\<^sup>*\<^sup>* (w_fs w) (w_fs w')" "ml_step\<^sup>*\<^sup>* (w_ls w) (w_ls w')" "fs_ok (w_fs w')" "memls_ok (w_ls w')"
    by (simp_all add: world_inv_def world_rel_def)
qed



section \<open>The states of a server\<close>

text \<open>Requests one after the other, under any configuration over the same backends, and the time that
  passes between them; \<open>cx i\<close> is what the \<open>i\<close>-th run of a handler draws from outside.\<close>

inductive server_step :: "(nat \<Rightarrow> 'r run_context) \<Rightarrow> (mem_fs, mem_ls) world \<Rightarrow> (mem_fs, mem_ls) world \<Rightarrow> bool" for cx where
  time_passes: "ml_clock (w_ls w) \<le> now \<Longrightarrow>
    server_step cx w (w\<lparr>w_fs := (w_fs w)\<lparr>mf_clock := tm\<rparr>, w_ls := (w_ls w)\<lparr>ml_clock := now\<rparr>\<rparr>)"
| request_served: "mem_server avail sv \<Longrightarrow> rq_path rq \<noteq> ''*'' \<Longrightarrow>
    handle_request (cx i) sv rq frames w = Some (resp, w') \<Longrightarrow> server_step cx w w'"

inductive server_reach :: "(nat \<Rightarrow> 'r run_context) \<Rightarrow> (nat \<Rightarrow> bytes) \<Rightarrow> (mem_fs, mem_ls) world \<Rightarrow> bool" for cx uuid where
  server_starts: "server_reach cx uuid \<lparr>w_fs = memfs_new tm, w_ls = memls_new now uuid, w_items = items\<rparr>"
| server_goes_on: "server_reach cx uuid w \<Longrightarrow> server_step cx w w' \<Longrightarrow> server_reach cx uuid w'"

lemma ml_reach_steps: "ml_step\<^sup>*\<^sup>* l l' \<Longrightarrow> ml_reach uuid l \<Longrightarrow> ml_reach uuid l'"
  by (induction rule: rtranclp_induct) (auto intro: reach_more)

lemma ml_step_ok: "ml_step l l' \<Longrightarrow> memls_ok l \<Longrightarrow> memls_ok l'"
proof (induction rule: ml_step.induct)
  case (tick s now)
  then show ?case by (simp add: memls_ok_def)
qed (use memls_returns in \<open>metis option.inject prod.inject\<close>)+

lemma ml_reach_ok: "ml_reach uuid l \<Longrightarrow> memls_ok l"
proof (induction rule: ml_reach.induct)
  case (reach_init now)
  show ?case unfolding memls_new_def memls_ok_def wf_tree_def mem_ls.select_convs by (rule exI, rule tree_new_wf)
qed (rule ml_step_ok)

lemma server_reach_parts: "server_reach cx uuid w \<Longrightarrow> fs_ok (w_fs w) \<and> ml_reach uuid (w_ls w)"
proof (induction rule: server_reach.induct)
  case (server_starts tm now items)
  then show ?case by (simp add: memfs_new_ok reach_init)
next
  case (server_goes_on w w')
  note ok = server_goes_on.IH
  from server_goes_on.hyps(2) show ?case
  proof cases
    case (time_passes now tm)
    from ml_step.tick [OF time_passes(2)] ok show ?thesis unfolding time_passes(1) by (auto simp: fs_ok_def intro: reach_more)
  next
    case (request_served avail sv rq i frames resp)
    from request_run [OF request_served(1,2) _ _ request_served(3)] ok ml_reach_ok ml_reach_steps show ?thesis by blast
  qed
qed



section \<open>Requests are answered\<close>



end
