(* ===== verification/Local_Server.thy ===== *)
theory Local_Server
  imports Local_Jail Local_Cache Server_Props
begin

text \<open>
  The server over the local filesystem, with any lock system: its backends fit the frames of whole
  requests, so that whatever a request asks for, all that happens to the host are calls inside the base
  directory, safe methods only read, and a system whose calls return makes a server that answers.
\<close>

section \<open>The local filesystem in a frame\<close>

definition ls_runs :: "bool \<Rightarrow> ('l \<Rightarrow> bool) \<Rightarrow> ('l \<Rightarrow> 'l \<Rightarrow> bool) \<Rightarrow> 'l ls_ops \<Rightarrow> bool" where
  "ls_runs t li lr ls \<longleftrightarrow> reflp lr \<and> transp lr \<and>
     (\<forall>p who ign deep toks. runs t li lr anything (ls_check ls p who ign deep toks)) \<and>
     (\<forall>p. runs t li lr anything (ls_discover ls p)) \<and>
     (\<forall>p who owner tmo shared deep. runs t li lr anything (ls_lock ls p who owner tmo shared deep)) \<and>
     (\<forall>p tok. runs t li lr anything (ls_unlock ls p tok)) \<and>
     (\<forall>p tok tmo. runs t li lr anything (ls_refresh ls p tok tmo)) \<and> (\<forall>p. runs t li lr anything (ls_delete ls p))"

lemma runs_anyhow: "runs False anything (\<lambda>_ _. True) anything a"
  by (auto simp: runs_def split: option.splits sum.splits)

lemma any_ls_runs: "ls_runs False anything (\<lambda>_ _. True) ls"
  by (auto simp: ls_runs_def runs_anyhow reflp_def transp_def)

lemma memls_runs: "ls_runs t memls_ok ml_step\<^sup>*\<^sup>* memls_ops"
  unfolding ls_runs_def
  by (intro conjI allI memstep.rel_rules memstep.check memstep.discover memstep.lock memstep.unlock memstep.refresh memstep.delete)

lemmas localfs_ops_sel = localfs_ops_def fs_ops.simps not_implemented_def

lemma local_reads:
  assumes ok: "host_ok h items" and ret: "t \<longrightarrow> os_returns (ho_os h)" and ls: "ls_runs t li lr ls"
  shows "reading_frame t (jail_inv base items) (jail_rel (ho_os h) base (lc_case_insensitive cfg) wr) li lr plain_tag (localfs_ops h cfg) ls"
proof -
  have run: "jailed t h cfg base items wr Q m \<Longrightarrow> runs t (jail_inv base items) (jail_rel (ho_os h) base (lc_case_insensitive cfg) wr) Q m" for Q m
    using ret by (simp add: jailed_def)
  have dir: "runs t (jail_inv base items) (jail_rel (ho_os h) base (lc_case_insensitive cfg) wr)
      (entries_run t (jail_inv base items) (jail_rel (ho_os h) base (lc_case_insensitive cfg) wr) plain_tag) (localfs_read_dir h cfg p k)" for p k
    using run [OF jailed_read_dir [OF ok]] by (rule runs_weaken) (auto simp: entries_run_def intro: run)
  show ?thesis
    by unfold_locales
      (use ls jail_rels in \<open>auto simp: localfs_ops_sel ls_runs_def jail_rel_def
        intro!: run runs_ok runs_fail dir jailed_ok jailed_localfs_metadata [OF ok] same_jailed jailed_open files_jailed simp: oo_for_read_def\<close>)
qed

lemma local_writes:
  assumes ok: "host_ok h items" and ret: "t \<longrightarrow> os_returns (ho_os h)" and ls: "ls_runs t li lr ls"
  shows "writing_frame t (jail_inv base items) (jail_rel (ho_os h) base (lc_case_insensitive cfg) True) li lr plain_tag (localfs_ops h cfg) ls"
    and "runs t (jail_inv base items) (jail_rel (ho_os h) base (lc_case_insensitive cfg) True) anything (fs_rename (localfs_ops h cfg) p q)"
proof -
  have run: "jailed t h cfg base items True Q m \<Longrightarrow> runs t (jail_inv base items) (jail_rel (ho_os h) base (lc_case_insensitive cfg) True) Q m" for Q m
    using ret by (simp add: jailed_def)
  have c: "jailed t h cfg base items True anything (localfs_set_created p tm)" for p tm
    unfolding localfs_set_created_def by (rule jailed_fail)
  show "writing_frame t (jail_inv base items) (jail_rel (ho_os h) base (lc_case_insensitive cfg) True) li lr plain_tag (localfs_ops h cfg) ls"
    by (intro writing_frame.intro local_reads [OF ok ret ls] writing_frame_axioms.intro)
      (use ls in \<open>auto simp: localfs_ops_sel ls_runs_def localfs_mark_calendar_def localfs_mark_addressbook_def
        intro!: run c changes_jailed rename_jailed copy_jailed mark_jailed times_jailed jailed_open files_jailed jailed_fail\<close>)
  show "runs t (jail_inv base items) (jail_rel (ho_os h) base (lc_case_insensitive cfg) True) anything (fs_rename (localfs_ops h cfg) p q)"
    using run [OF rename_jailed] by (simp add: localfs_ops_sel)
qed

section \<open>Whole requests\<close>

lemma local_request:
  assumes "sv_fs sv = localfs_ops h cfg" and "host_ok h items" and "jail_inv base items (w_fs w)"
    and "handle_request cx sv rq frames w = Some (resp, w')"
  shows "jail_inv base items (w_fs w')" "jail_rel (ho_os h) base (lc_case_insensitive cfg) True (w_fs w) (w_fs w')"
    and "dav_method_of (rq_method rq) = Inr m \<Longrightarrow> reads_only m \<Longrightarrow>
      jail_rel (ho_os h) base (lc_case_insensitive cfg) False (w_fs w) (w_fs w')"
proof -
  obtain r where r: "handle2 cx sv rq frames w = Some (r, w')" using handle_request_run(1) [OF assms(4)] by blast
  obtain ls where ls: "sv_ls sv = None \<or> sv_ls sv = Some ls" by (cases "sv_ls sv") auto
  have i: "world_inv (jail_inv base items) anything w" using assms(3) by (simp add: world_inv_def)
  note W = local_writes [where t = False, OF assms(2) _ any_ls_runs [of ls], where base = base and cfg = cfg, simplified]
  have "runs False (world_inv (jail_inv base items) anything) (world_rel (jail_rel (ho_os h) base (lc_case_insensitive cfg) True) (\<lambda>_ _. True)) anything
      (handle2 cx sv rq frames)"
    by (rule writing_frame.stays_request [OF W(1)])
      (use assms(1) ls W(2) in \<open>simp_all add: reading_frame.served_def [OF writing_frame.axioms(1) [OF W(1)]]\<close>)
  from runsD(1,2) [OF this i r]
  show "jail_inv base items (w_fs w')" "jail_rel (ho_os h) base (lc_case_insensitive cfg) True (w_fs w) (w_fs w')"
    by (simp_all add: world_inv_def world_rel_def)
  note R = local_reads [where t = False, OF assms(2) _ any_ls_runs [of ls], where base = base and cfg = cfg and wr = False, simplified]
  assume "dav_method_of (rq_method rq) = Inr m" "reads_only m"
  then have "runs False (world_inv (jail_inv base items) anything) (world_rel (jail_rel (ho_os h) base (lc_case_insensitive cfg) False) (\<lambda>_ _. True)) anything
      (handle2 cx sv rq frames)"
    by (intro reading_frame.stays_read_request [OF R]) (use assms(1) ls in \<open>simp_all add: reading_frame.served_def [OF R]\<close>)
  from runsD(2) [OF this i r] show "jail_rel (ho_os h) base (lc_case_insensitive cfg) False (w_fs w) (w_fs w')"
    by (simp add: world_rel_def)
qed

lemma local_answered:
  assumes "sv_fs sv = localfs_ops h cfg" and "sv_ls sv = None \<or> sv_ls sv = Some memls_ops" and "takes_tags (sv_http sv)"
    and "host_ok h items" and "os_returns (ho_os h)" and "jail_inv base items (w_fs w)" and "memls_ok (w_ls w)"
    and "\<And>m. dav_method_of (rq_method rq) = Inr m \<Longrightarrow> at_once cx sv rq m"
  shows "\<exists>resp w'. handle_request cx sv rq frames w = Some (resp, w')"
proof -
  note W = local_writes [where t = True, OF assms(4) _ memls_runs, where base = base and cfg = cfg, simplified, OF assms(5)]
  have tags: "plain_tag m \<Longrightarrow> tag_fits (sv_http sv) m" for m
    using assms(3) dash_char
    by (auto simp: plain_tag_def tag_fits_def takes_tags_def etag_from_meta_def etag_encode_def etag_to_string_def tag_chars_def)
  have "runs True (world_inv (jail_inv base items) memls_ok) (world_rel (jail_rel (ho_os h) base (lc_case_insensitive cfg) True) ml_step\<^sup>*\<^sup>*) anything
      (handle2 cx sv rq frames)"
    by (rule writing_frame.stays_request [OF W(1)])
      (use assms(1,2,8) W(2) tags in \<open>simp_all add: reading_frame.served_def [OF writing_frame.axioms(1) [OF W(1)]]\<close>)
  from runs_returns [OF this] assms(6,7) have "handle2 cx sv rq frames w \<noteq> None" by (simp add: world_inv_def)
  with handle_request_run(2) [of cx sv rq frames w] show ?thesis by fastforce
qed

section \<open>An example\<close>

definition demo_base :: pathbuf where
  "demo_base = [RootDir, Normal ''srv'']"

definition demo_cfg :: local_cfg where
  "demo_cfg = \<lparr>lc_basedir = demo_base, lc_public = True, lc_case_insensitive = False, lc_macos = False, lc_is_file = False\<rparr>"

definition local_server where
  "local_server = server_new range_env (locksystem memls_ops (filesystem (localfs_ops demo_host demo_cfg) config_new))"

definition local_world where
  "local_world = \<lparr>w_fs = \<lparr>lo_os = [demo_base, demo_base @ [Normal ''d'']], lo_canon = Some demo_base, lo_du = [], lo_dir_id = 1, lo_ci = []\<rparr>,
     w_ls = demo_ls, w_items = []\<rparr>"

lemma demo_host_facts: "host_ok demo_host id" "os_returns (ho_os demo_host)"
  using list_lru_spec by (auto simp: host_ok_def plain_listings_def demo_host_def demo_os_def os_returns_def no_file_def)

lemma local_server_simps [simp]:
  "sv_fs local_server = localfs_ops demo_host demo_cfg" "sv_ls local_server = Some memls_ops"
  "sv_http local_server = range_env"
  by (simp_all add: local_server_def server_new_def locksystem_def filesystem_def config_new_def)

lemma local_world_new:
  "local_new demo_os demo_base True False False (lo_os (w_fs local_world)) = Some ((demo_cfg, lo_canon (w_fs local_world)), lo_os (w_fs local_world))"
  by (simp add: local_new_def init_canonical_basedir_def local_world_def demo_os_def demo_cfg_def)

lemma local_world_facts: "jail_inv demo_base id (w_fs local_world)" "memls_ok (w_ls local_world)"
  by (simp_all add: local_world_def jail_inv_def memls_ok_def demo_wf)

lemma mkcol_method: "dav_method_of ''MKCOL'' = Inr MMkCol"
  by code_simp

lemma local_demo_answered:
  "me = ''MKCOL'' \<or> me = ''GET'' \<Longrightarrow>
     \<exists>resp w'. handle_request demo_context local_server (demo_request me ''/d/f'' []) [] local_world = Some (resp, w')"
  by (rule local_answered [OF _ _ _ demo_host_facts local_world_facts])
    (auto simp: demo_takes_tags demo_methods mkcol_method at_once_def)

section \<open>What requests do to the host\<close>

text \<open>C5: Whatever a request to a server over the local filesystem asks for, all that happens to the host is a
  run of calls on paths inside the canonical base directory; a file that may be written is opened without
  following a link.  Only where the case of names is ignored, names are looked for wherever they lead.\<close>

theorem local_requests_confined:
  assumes "sv_fs sv = localfs_ops h cfg" and "host_ok h items" and "jail_inv base items (w_fs w)"
    and "handle_request cx sv rq frames w = Some (resp, w')"
  shows "(host_step (ho_os h) base (lc_case_insensitive cfg) True)\<^sup>*\<^sup>* (lo_os (w_fs w)) (lo_os (w_fs w')) \<and>
    jail_inv base items (w_fs w')"
  using local_request(1,2) [OF assms] by (simp add: jail_rel_def)

lemma local_requests_confined_witness:
  "\<exists>resp w'. handle_request demo_context local_server (demo_request ''MKCOL'' ''/d/f'' []) [] local_world = Some (resp, w') \<and>
     (host_step demo_os demo_base False True)\<^sup>*\<^sup>* [demo_base, demo_base @ [Normal ''d'']] (lo_os (w_fs w'))"
proof -
  obtain resp w' where r: "handle_request demo_context local_server (demo_request ''MKCOL'' ''/d/f'' []) [] local_world = Some (resp, w')"
    using local_demo_answered by blast
  from local_requests_confined [OF local_server_simps(1) demo_host_facts(1) local_world_facts(1) this] r
  show ?thesis by (auto simp: local_world_def demo_cfg_def demo_host_def)
qed

text \<open>C20: \<^verbatim>\<open>OPTIONS\<close>, \<^verbatim>\<open>GET\<close>, \<^verbatim>\<open>HEAD\<close>, \<^verbatim>\<open>PROPFIND\<close> and \<^verbatim>\<open>REPORT\<close> on the local filesystem only look at the host:
  nothing is created, written, removed, renamed or given another time.\<close>

theorem local_safe_methods_only_read:
  assumes "sv_fs sv = localfs_ops h cfg" and "host_ok h items" and "jail_inv base items (w_fs w)"
    and "dav_method_of (rq_method rq) = Inr m" and "m \<in> {MOptions, MGet, MHead, MPropFind, MReport}"
    and "handle_request cx sv rq frames w = Some (resp, w')"
  shows "(host_step (ho_os h) base (lc_case_insensitive cfg) False)\<^sup>*\<^sup>* (lo_os (w_fs w)) (lo_os (w_fs w'))"
  using local_request(3) [OF assms(1-3,6,4)] assms(5) by (auto simp: jail_rel_def reads_only_def)

lemma local_safe_methods_only_read_witness:
  "\<exists>resp w'. handle_request demo_context local_server (demo_request ''GET'' ''/d/f'' []) [] local_world = Some (resp, w') \<and>
     (host_step demo_os demo_base False False)\<^sup>*\<^sup>* [demo_base, demo_base @ [Normal ''d'']] (lo_os (w_fs w'))"
proof -
  obtain resp w' where r: "handle_request demo_context local_server (demo_request ''GET'' ''/d/f'' []) [] local_world = Some (resp, w')"
    using local_demo_answered by blast
  have "dav_method_of (rq_method (demo_request ''GET'' ''/d/f'' [])) = Inr MGet" by (simp add: demo_methods)
  from local_safe_methods_only_read [OF local_server_simps(1) demo_host_facts(1) local_world_facts(1) this _ r] r
  show ?thesis by (auto simp: local_world_def demo_cfg_def demo_host_def)
qed



section \<open>Which path of the host a request names\<close>

lemma accepted_normal: "from_uri_and_prefix dec uri pfx = Inr p \<Longrightarrow> uri \<noteq> ''*'' \<Longrightarrow> normal_path (as_bytes p)"
  using accepted_below by (auto simp: below_prefix_def)



end
