(* ===== verification/Local_Case.thy ===== *)
theory Local_Case
  imports Local_Cache
begin

text \<open>
  Paths whatever their case, \<^verbatim>\<open>src/localfs_windows.rs\<close>: what a path resolves to, by the cache or by a search,
  differs from it in case only.
\<close>

section \<open>Paths up to case\<close>

definition low_comp :: "(bytes \<Rightarrow> bytes) \<Rightarrow> component \<Rightarrow> component" where
  "low_comp low c = (case c of Normal n \<Rightarrow> Normal (low n) | _ \<Rightarrow> c)"

lemma lowercase_str: "path_is_str p \<Longrightarrow> pathbuf_to_lowercase low p = map (low_comp low) p"
  by (simp add: pathbuf_to_lowercase_def low_comp_def [abs_def])

lemma lowercase_other: "\<not> path_is_str p \<Longrightarrow> pathbuf_to_lowercase low p = p"
  by (simp add: pathbuf_to_lowercase_def)

text \<open>Lower case of valid text is valid text.\<close>

definition low_ok :: "(bytes \<Rightarrow> bytes) \<Rightarrow> bool" where
  "low_ok low \<longleftrightarrow> (\<forall>s. utf8_valid s \<longrightarrow> utf8_valid (low s))"

definition same_case :: "(bytes \<Rightarrow> bytes) \<Rightarrow> pathbuf \<Rightarrow> pathbuf \<Rightarrow> bool" where
  "same_case low p q \<longleftrightarrow> path_is_str q \<and> map (low_comp low) q = map (low_comp low) p"

lemma path_str_append [simp]: "path_is_str (p @ q) \<longleftrightarrow> path_is_str p \<and> path_is_str q"
  by (simp add: path_is_str_def)

lemma path_str_names [simp]: "path_is_str (map Normal ss) \<longleftrightarrow> (\<forall>s \<in> set ss. utf8_valid s)"
  by (simp add: path_is_str_def list_all_iff)

lemma path_str_name [simp]: "path_is_str [Normal s] \<longleftrightarrow> utf8_valid s"
  by (simp add: path_is_str_def)

lemma low_str: "low_ok low \<Longrightarrow> path_is_str p \<Longrightarrow> path_is_str (map (low_comp low) p)"
  by (auto simp: path_is_str_def list_all_iff low_comp_def low_ok_def split: component.splits)

lemma same_case_lowercase:
  assumes "low_ok low" "path_is_str p" "pathbuf_to_lowercase low q = pathbuf_to_lowercase low p"
  shows "same_case low p q"
proof -
  have k: "pathbuf_to_lowercase low q = map (low_comp low) p" using assms by (simp add: lowercase_str)
  have "path_is_str q"
  proof (rule ccontr)
    assume n: "\<not> path_is_str q"
    with k have "q = map (low_comp low) p" by (simp add: lowercase_other)
    with n low_str [OF assms(1,2)] show False by simp
  qed
  with k show ?thesis by (simp add: same_case_def lowercase_str)
qed

lemma same_case_refl: "path_is_str p \<Longrightarrow> same_case low p p"
  by (simp add: same_case_def)

lemma same_case_push:
  "same_case low p q \<Longrightarrow> low n = low s \<Longrightarrow> utf8_valid n \<Longrightarrow> same_case low (p @ [Normal s]) (q @ [Normal n])"
  by (simp add: same_case_def low_comp_def)

section \<open>The search\<close>

definition ci_ok :: "('o, 'f, 'd, 'c) host \<Rightarrow> ('c \<Rightarrow> (pathbuf \<times> ci_entry) list) \<Rightarrow> ('o, 'd, 'c) local_state \<Rightarrow> bool" where
  "ci_ok h items s \<longleftrightarrow> (\<forall>k e. (k, e) \<in> set (items (lo_ci s)) \<longrightarrow> k = pathbuf_to_lowercase (ho_lower h) (ci_path e))"

abbreviation resolves :: "('o, 'f, 'd, 'c) host \<Rightarrow> ('c \<Rightarrow> (pathbuf \<times> ci_entry) list) \<Rightarrow> ('a \<Rightarrow> bool) \<Rightarrow>
    (('o, 'd, 'c) local_state, 'e, 'a) act \<Rightarrow> bool" where
  "resolves h items \<equiv> runs False (ci_ok h items) (\<lambda>_ _. True)"

lemma true_rel: "reflp (\<lambda>_ _. True)" "transp (\<lambda>_ _. True)"
  by (simp_all add: reflp_def transp_def)

lemma resolves_bind: "resolves h items P m \<Longrightarrow> (\<And>x. P x \<Longrightarrow> resolves h items Q (f x)) \<Longrightarrow> resolves h items Q (bind m f)"
  by (rule runs_bind_post [OF true_rel(2)])

lemma resolves_ok: "Q x \<Longrightarrow> resolves h items Q (ok x)"
  by (rule runs_ok [OF true_rel(1)])

lemma resolves_fail: "resolves h items Q (fail e)"
  by (rule runs_fail [OF true_rel(1)])

lemma resolves_on_os:
  assumes "\<And>s x s'. a s = Some (Inr x, s') \<Longrightarrow> Q x"
  shows "resolves h items Q (on_os a)"
  by (rule runsI) (use assms in \<open>auto simp: on_os_def ci_ok_def split: option.splits\<close>)

lemma resolves_of_sum: "(\<And>x. r = Inr x \<Longrightarrow> Q x) \<Longrightarrow> resolves h items Q (of_sum r)"
  by (cases r) (auto simp: of_sum_def intro: resolves_ok resolves_fail)

lemma resolves_insert:
  assumes "lru_spec (ho_ci h) items cap"
  shows "resolves h items anything (ci_insert h p)"
proof (rule runsI, simp)
  fix s r s' assume i: "ci_ok h items s" and g: "ci_insert h p s = Some (r, s')"
  let ?k = "pathbuf_to_lowercase (ho_lower h) p" and ?e = "\<lparr>ci_path = p, ci_time = secs (os_now (ho_os h) (lo_os s))\<rparr>"
  from g consider "s' = s" | "lo_ci s' = lru_put (ho_ci h) ?k ?e (lo_ci s)"
    by (auto simp: ci_insert_def Let_def ok_def split: if_splits)
  then show "ci_ok h items s' \<and> True \<and> (\<forall>x. r = Inr x \<longrightarrow> anything x)"
  proof cases
    case 2
    have "items (lo_ci s') = take cap ((?k, ?e) # AList.delete ?k (items (lo_ci s)))" using assms 2 by (simp add: lru_spec_def)
    then have "set (items (lo_ci s')) \<subseteq> insert (?k, ?e) (set (items (lo_ci s)))"
      by (auto simp: alist_delete_filter dest!: in_set_takeD)
    with i show ?thesis unfolding ci_ok_def by fastforce
  qed (use i in simp)
qed

lemma resolves_get:
  assumes lru: "lru_spec (ho_ci h) items cap" and low: "low_ok (ho_lower h)" and p: "path_is_str p"
  shows "resolves h items (\<lambda>r. \<forall>q. r = Some q \<longrightarrow> same_case (ho_lower h) p q) (ci_get h p)"
proof (rule runsI, simp)
  fix s r s' assume i: "ci_ok h items s" and g: "ci_get h p s = Some (r, s')"
  let ?k = "pathbuf_to_lowercase (ho_lower h) p"
  have get: "fst (lru_get (ho_ci h) ?k (lo_ci s)) = map_of (items (lo_ci s)) ?k"
    and kept: "set (items (snd (lru_get (ho_ci h) ?k (lo_ci s)))) \<subseteq> set (items (lo_ci s))"
    using lru by (auto simp: lru_spec_def alist_delete_filter dest: map_of_SomeD split: option.splits)
  have popped: "set (items (lru_pop (ho_ci h) ?k c)) \<subseteq> set (items c)" for c
    using lru by (auto simp: lru_spec_def alist_delete_filter)
  have "set (items (lo_ci s')) \<subseteq> set (items (lo_ci s))"
    using g kept popped
    by (fastforce simp: ci_get_def Let_def ok_def bind_def attempt_def on_os_def split: option.splits sum.splits prod.splits)
  then have "ci_ok h items s'" using i unfolding ci_ok_def by blast
  moreover have "same_case (ho_lower h) p q" if r: "r = Inr (Some q)" for q
  proof -
    from g r obtain e where e: "fst (lru_get (ho_ci h) ?k (lo_ci s)) = Some e" "q = ci_path e"
      by (auto simp: ci_get_def Let_def ok_def bind_def attempt_def on_os_def split: option.splits sum.splits prod.splits)
    then have "(?k, e) \<in> set (items (lo_ci s))" using get by (auto dest: map_of_SomeD)
    with i have "pathbuf_to_lowercase (ho_lower h) q = ?k" unfolding ci_ok_def e(2) by metis
    then show ?thesis by (rule same_case_lowercase [OF low p])
  qed
  ultimately show "ci_ok h items s' \<and> True \<and> (\<forall>x. r = Inr x \<longrightarrow> (\<forall>q. x = Some q \<longrightarrow> same_case (ho_lower h) p q))" by blast
qed

lemma found_name:
  assumes "\<And>n. Inr n \<in> set es \<Longrightarrow> components n = [Normal n]" "find_name low p f es = Some q"
  shows "\<exists>n. q = p @ [Normal n] \<and> utf8_valid n \<and> low n = f"
  using assms
proof (induction low p f es rule: find_name.induct)
  case (3 low p f name es)
  have "components name = [Normal name]" using "3.prems"(1) by simp
  then have "push_normal_component p name = Inr (p @ [Normal name])" by (simp add: push_normal_component_def push_plain)
  with 3 show ?case by (auto split: if_splits)
qed simp_all

lemma resolves_lookup:
  assumes os: "plain_listings (ho_os h)" and p: "same_case (ho_lower h) p0 p" and seg: "components seg = [Normal seg]" "utf8_valid seg"
  shows "resolves h items (\<lambda>(q, stop). same_case (ho_lower h) (p0 @ [Normal seg]) q) (ci_lookup h p seg b)"
proof -
  let ?Q = "\<lambda>(q, stop :: bool). same_case (ho_lower h) (p0 @ [Normal seg]) q"
  have p2: "same_case (ho_lower h) (p0 @ [Normal seg]) (p @ [Normal seg])" by (rule same_case_push [OF p refl seg(2)])
  have push: "push_normal_component p seg = Inr (p @ [Normal seg])" using seg(1) by (simp add: push_normal_component_def push_plain)
  have dir: "resolves h items (\<lambda>r. \<forall>es. r = Inr es \<longrightarrow> (\<forall>n. Inr n \<in> set es \<longrightarrow> components n = [Normal n])) (attempt (on_os (os_read_dir (ho_os h) p)))"
    by (rule runs_weaken [OF runs_attempt_post [OF resolves_on_os [where Q = "\<lambda>es. \<forall>n. Inr n \<in> set es \<longrightarrow> components n = [Normal n]"]]])
      (use os in \<open>auto simp: plain_listings_def split: sum.splits\<close>)
  have search: "resolves h items ?Q (bind (attempt (on_os (os_read_dir (ho_os h) p))) (\<lambda>r. case r of Inl (_ :: io_error) \<Rightarrow> ok (p @ [Normal seg], True)
      | Inr es \<Rightarrow> (case find_name (ho_lower h) p (ho_lower h seg) es of Some q \<Rightarrow> ok (q, False) | None \<Rightarrow> ok (p @ [Normal seg], True))))"
  proof (rule resolves_bind [OF dir])
    fix r :: "io_error + (io_error + bytes) list"
    assume r: "\<forall>es. r = Inr es \<longrightarrow> (\<forall>n. Inr n \<in> set es \<longrightarrow> components n = [Normal n])"
    show "resolves h items ?Q (case r of Inl (_ :: io_error) \<Rightarrow> ok (p @ [Normal seg], True)
      | Inr es \<Rightarrow> (case find_name (ho_lower h) p (ho_lower h seg) es of Some q \<Rightarrow> ok (q, False) | None \<Rightarrow> ok (p @ [Normal seg], True)))"
      using r p2 by (auto intro!: resolves_ok split: sum.splits option.splits dest!: found_name [rotated] intro: same_case_push [OF p])
  qed
  have any: "resolves h items anything (attempt (on_os (os_metadata (ho_os h) q)))" for q
    by (intro runs_attempt resolves_on_os TrueI)
  show ?thesis unfolding ci_lookup_def push of_sum_def sum.case
    by (rule resolves_bind [OF resolves_ok [of "\<lambda>x. x = p @ [Normal seg]"]], rule refl, rule resolves_bind [of _ _ anything])
      (use search seg(2) p2 any in \<open>auto intro!: resolves_ok resolves_bind [OF any] split: option.splits\<close>)
qed

lemma resolves_segs:
  assumes lru: "lru_spec (ho_ci h) items cap" and os: "plain_listings (ho_os h)"
  shows "same_case (ho_lower h) p0 p \<Longrightarrow> \<forall>s \<in> set segs. components s = [Normal s] \<and> utf8_valid s \<Longrightarrow>
    resolves h items (\<lambda>(q, stop). same_case (ho_lower h) (p0 @ map Normal segs) q) (resolve_segs h segs p stop)"
proof (induction segs arbitrary: p0 p stop)
  case Nil
  have "resolves h items (\<lambda>(q, stop). same_case (ho_lower h) (p0 @ map Normal []) q) (ok (p, stop))"
    by (rule resolves_ok) (simp add: Nil(1))
  then show ?case by (simp only: resolve_segs.simps)
next
  case (Cons seg segs)
  have seg: "components seg = [Normal seg]" "utf8_valid seg" using Cons.prems(2) by simp_all
  have push: "push_normal_component p seg = Inr (p @ [Normal seg])" using seg(1) by (simp add: push_normal_component_def push_plain)
  have rest: "resolves h items (\<lambda>(q, stop). same_case (ho_lower h) (p0 @ map Normal (seg # segs)) q) (resolve_segs h segs q st)"
    if "same_case (ho_lower h) (p0 @ [Normal seg]) q" for q st
    using Cons.IH [OF that] Cons.prems(2) by simp
  show ?case
  proof (cases stop)
    case True
    have "same_case (ho_lower h) (p0 @ [Normal seg]) (p @ [Normal seg])" by (rule same_case_push [OF Cons.prems(1) refl seg(2)])
    from rest [OF this] show ?thesis
      by (simp add: True push of_sum_def)
  next
    case False
    have ins: "resolves h items anything (if segs = [] then ci_insert h p else ok ())"
      by (auto intro: resolves_insert [OF lru] resolves_ok)
    have look: "resolves h items (\<lambda>(q, stop). same_case (ho_lower h) (p0 @ map Normal (seg # segs)) q)
        (bind (ci_lookup h p seg False) (\<lambda>(q, st). resolve_segs h segs q st))"
      by (rule resolves_bind [OF resolves_lookup [OF os Cons.prems(1) seg]]) (auto intro: rest simp del: list.map)
    show ?thesis unfolding resolve_segs.simps if_not_P [OF False] by (rule resolves_bind [OF ins look])
  qed
qed

lemma normal_names_map: "normal_names (map Normal ss) = Inr ss"
  by (induction ss) simp_all

lemma resolves_parent:
  assumes "lru_spec (ho_ci h) items cap" "low_ok (ho_lower h)" "path_is_str p"
  shows "resolves h items (\<lambda>(q, known). same_case (ho_lower h) p q) (known_parent h segs p)"
proof -
  have self: "resolves h items (\<lambda>(q, known). same_case (ho_lower h) p q) (ok (p, b))" for b
    by (rule resolves_ok) (simp add: same_case_refl assms(3))
  have meta: "resolves h items anything (attempt (on_os (os_metadata (ho_os h) p)))"
    by (intro runs_attempt resolves_on_os TrueI)
  have ask: "resolves h items (\<lambda>(q, known). same_case (ho_lower h) p q) (bind (attempt (on_os (os_metadata (ho_os h) p))) (\<lambda>r. case r of
      Inl (_ :: io_error) \<Rightarrow> ok (p, False) | Inr _ \<Rightarrow> bind (ci_insert h p) (\<lambda>_. ok (p, True))))"
    by (rule resolves_bind [OF meta]) (auto intro: self resolves_bind [OF resolves_insert [OF assms(1)]] split: sum.splits)
  have got: "resolves h items (\<lambda>(q, known). same_case (ho_lower h) p q) (case r of Some q \<Rightarrow> ok (q, True)
      | None \<Rightarrow> bind (attempt (on_os (os_metadata (ho_os h) p))) (\<lambda>r. case r of
          Inl (_ :: io_error) \<Rightarrow> ok (p, False) | Inr _ \<Rightarrow> bind (ci_insert h p) (\<lambda>_. ok (p, True))))"
    if "\<forall>q. r = Some q \<longrightarrow> same_case (ho_lower h) p q" for r
    using that ask by (cases r) (auto intro: resolves_ok)
  show ?thesis unfolding known_parent_def
    by (intro runs_if self) (rule resolves_bind [OF resolves_get [OF assms] got])
qed

lemma resolves_resolve:
  assumes lru: "lru_spec (ho_ci h) items cap" and low: "low_ok (ho_lower h)" and os: "plain_listings (ho_os h)"
    and p: "normal_path (as_bytes p)"
  shows "resolves h items (\<lambda>q. pathbuf_to_lowercase (ho_lower h) q = pathbuf_to_lowercase (ho_lower h) (base @ map Normal (path_segs (as_bytes p))))
    (ci_resolve h base p)"
proof -
  from p obtain ss d where ss: "as_bytes p = join_path ss d" "\<forall>s \<in> set ss. safe_seg s" "path_segs (as_bytes p) = ss"
    by (rule normal_pathE)
  let ?full = "base @ map Normal ss"
  let ?Q = "\<lambda>q. pathbuf_to_lowercase (ho_lower h) q = pathbuf_to_lowercase (ho_lower h) ?full"
  have join: "join_confined base p = Inr ?full" using join_normal [OF p] ss(3) by simp
  have names: "normal_names (components (as_rel_ospath p)) = Inr ss"
    using ss by (simp add: rel_ospath_join rel_components normal_names_map)
  have self: "resolves h items ?Q (ok ?full)" by (rule resolves_ok) simp
  have meta: "resolves h items anything (attempt (on_os (os_metadata (ho_os h) q)))" for q
    by (intro runs_attempt resolves_on_os TrueI)
  have search: "resolves h items ?Q (if ss = [] then ok ?full
       else bind (known_parent h ss parent) (\<lambda>(parent, parent_exists).
         bind (if parent_exists then ci_lookup h parent (last ss) True else resolve_segs h ss base False) (\<lambda>(newpath, stop).
         bind (if stop then ok () else ci_insert h newpath) (\<lambda>_. ok newpath))))"
    if str: "path_is_str ?full" and par: "os_parent ?full = Some parent" for parent
  proof (cases "ss = []")
    case False
    then obtain ts t where tt: "ss = ts @ [t]" by (metis append_butlast_last_id)
    then have parent: "parent = base @ map Normal ts" using par by (simp add: os_parent_def butlast_append split: if_splits)
    have pstr: "path_is_str parent" "path_is_str base" using str tt parent by simp_all
    have seg: "\<forall>s \<in> set ss. components s = [Normal s] \<and> utf8_valid s" using ss(2) str by simp
    have last: "last ss = t" "components t = [Normal t]" "utf8_valid t" using seg tt by simp_all
    have new: "resolves h items (\<lambda>(q, stop). same_case (ho_lower h) ?full q)
        (if known then ci_lookup h q (last ss) True else resolve_segs h ss base False)"
      if "same_case (ho_lower h) parent q" for q known
    proof (cases known)
      case True
      from resolves_lookup [OF os that last(2,3), of items True] show ?thesis by (simp add: True last(1) parent tt)
    next
      case False
      from resolves_segs [OF lru os same_case_refl [OF pstr(2)] seg, of False] show ?thesis by (simp add: False)
    qed
    have fin: "resolves h items ?Q (bind (if stop then ok () else ci_insert h q) (\<lambda>_. ok q))" if "same_case (ho_lower h) ?full q" for q stop
    proof (rule resolves_bind [of _ _ anything])
      show "resolves h items anything (if stop then ok () else ci_insert h q)"
        by (auto intro: resolves_insert [OF lru] resolves_ok)
      show "resolves h items ?Q (ok q)"
        using that str by (intro resolves_ok) (simp add: same_case_def lowercase_str)
    qed
    show ?thesis unfolding if_not_P [OF False]
    proof (rule resolves_bind [OF resolves_parent [OF lru low pstr(1)]])
      fix x :: "pathbuf \<times> bool" assume "case x of (q, known) \<Rightarrow> same_case (ho_lower h) parent q"
      then obtain q known where x: "x = (q, known)" "same_case (ho_lower h) parent q" by (cases x) simp
      show "resolves h items ?Q (case x of (parent, parent_exists) \<Rightarrow>
          bind (if parent_exists then ci_lookup h parent (last ss) True else resolve_segs h ss base False) (\<lambda>(newpath, stop).
          bind (if stop then ok () else ci_insert h newpath) (\<lambda>_. ok newpath)))"
        unfolding x(1) prod.case by (rule resolves_bind [OF new [OF x(2)]]) (auto intro: fin)
    qed
  qed (use self in simp)
  have known: "resolves h items ?Q (bind (ci_get h ?full) (\<lambda>r. case r of
      Some path \<Rightarrow> ok path
    | None \<Rightarrow> bind (attempt (on_os (os_metadata (ho_os h) ?full))) (\<lambda>r. case r of
        Inr _ \<Rightarrow> ok ?full
      | Inl (_ :: io_error) \<Rightarrow> bind (of_sum (normal_names (components (as_rel_ospath p)))) (\<lambda>segs.
          if segs = [] then ok ?full
          else bind (known_parent h segs parent) (\<lambda>(parent, parent_exists).
            bind (if parent_exists then ci_lookup h parent (last segs) True else resolve_segs h segs base False) (\<lambda>(newpath, stop).
            bind (if stop then ok () else ci_insert h newpath) (\<lambda>_. ok newpath)))))))"
    if str: "path_is_str ?full" and par: "os_parent ?full = Some parent" for parent
  proof (rule resolves_bind [OF resolves_get [OF lru low str]])
    fix r assume r: "\<forall>q. r = Some q \<longrightarrow> same_case (ho_lower h) ?full q"
    have "resolves h items ?Q (bind (of_sum (normal_names (components (as_rel_ospath p)))) (\<lambda>segs.
          if segs = [] then ok ?full
          else bind (known_parent h segs parent) (\<lambda>(parent, parent_exists).
            bind (if parent_exists then ci_lookup h parent (last segs) True else resolve_segs h segs base False) (\<lambda>(newpath, stop).
            bind (if stop then ok () else ci_insert h newpath) (\<lambda>_. ok newpath)))))"
      unfolding names of_sum_def sum.case
      by (rule resolves_bind [OF resolves_ok [of "\<lambda>x. x = ss"]], rule refl) (simp only: search [OF str par])
    note srch = this
    show "resolves h items ?Q (case r of
      Some path \<Rightarrow> ok path
    | None \<Rightarrow> bind (attempt (on_os (os_metadata (ho_os h) ?full))) (\<lambda>r. case r of
        Inr _ \<Rightarrow> ok ?full
      | Inl (_ :: io_error) \<Rightarrow> bind (of_sum (normal_names (components (as_rel_ospath p)))) (\<lambda>segs.
          if segs = [] then ok ?full
          else bind (known_parent h segs parent) (\<lambda>(parent, parent_exists).
            bind (if parent_exists then ci_lookup h parent (last segs) True else resolve_segs h segs base False) (\<lambda>(newpath, stop).
            bind (if stop then ok () else ci_insert h newpath) (\<lambda>_. ok newpath))))))"
    proof (cases r)
      case None
      show ?thesis unfolding None option.case
        by (rule resolves_bind [OF meta]) (auto intro: self srch split: sum.splits)
    next
      case (Some q)
      with r str show ?thesis by (auto intro!: resolves_ok simp: same_case_def lowercase_str)
    qed
  qed
  show ?thesis unfolding ci_resolve_def join of_sum_def sum.case ss(3)
  proof (rule resolves_bind [OF resolves_ok [of "\<lambda>x. x = ?full"]], rule refl)
    fix x assume "x = ?full"
    then show "resolves h items ?Q (if \<not> has_root x \<or> \<not> path_is_str x then ok x
       else (case os_parent x of
           None \<Rightarrow> ok x
         | Some parent \<Rightarrow>
             bind (ci_get h x) (\<lambda>r. case r of
                 Some path \<Rightarrow> ok path
               | None \<Rightarrow> bind (attempt (on_os (os_metadata (ho_os h) x))) (\<lambda>r. case r of
                   Inr _ \<Rightarrow> ok x
                 | Inl (_ :: io_error) \<Rightarrow>
                     bind (case normal_names (components (as_rel_ospath p)) of Inl e \<Rightarrow> fail e | Inr x \<Rightarrow> ok x) (\<lambda>segs.
                       if segs = [] then ok x
                       else bind (known_parent h segs parent) (\<lambda>(parent, parent_exists).
                         bind (if parent_exists then ci_lookup h parent (last segs) True
                               else resolve_segs h segs base False) (\<lambda>(newpath, stop).
                         bind (if stop then ok () else ci_insert h newpath) (\<lambda>_. ok newpath))))))))"
      using known unfolding of_sum_def by (auto intro!: self split: option.splits)
  qed
qed

section \<open>What a path resolves to\<close>

text \<open>
  C0: What a request's path resolves to on a case-insensitive file system, found in the cache or by searching the
  directories on the way, differs from the path asked for in case only; and the cache keeps only names that do.
\<close>
theorem ci_resolve_case:
  assumes "lru_spec (ho_ci h) items cap" "low_ok (ho_lower h)" "plain_listings (ho_os h)"
    and "normal_path (as_bytes p)" "ci_ok h items s"
    and "ci_resolve h base p s = Some (Inr q, s')"
  shows "ci_ok h items s' \<and>
    pathbuf_to_lowercase (ho_lower h) q = pathbuf_to_lowercase (ho_lower h) (base @ map Normal (path_segs (as_bytes p)))"
  using runsD [OF resolves_resolve [OF assms(1-4)] assms(5,6)] by simp


text \<open>A system with a directory \<^verbatim>\<open>D\<close>, which \<^verbatim>\<open>/d\<close> names.\<close>

definition text_lower :: "bytes \<Rightarrow> bytes" where
  "text_lower s = (if utf8_valid (map ascii_lower s) then map ascii_lower s else s)"

definition case_host :: "(pathbuf list, unit, (pathbuf \<times> du_entry) list, (pathbuf \<times> ci_entry) list) host" where
  "case_host = demo_host\<lparr>ho_os := demo_os\<lparr>os_read_dir := \<lambda>p ds. Some (Inr [Inr ''D''], ds)\<rparr>, ho_lower := text_lower\<rparr>"

definition case_state :: "(pathbuf list, (pathbuf \<times> du_entry) list, (pathbuf \<times> ci_entry) list) local_state" where
  "case_state = demo_seen\<lparr>lo_os := [[RootDir], [RootDir, Normal ''D'']]\<rparr>"

definition case_path :: dav_path where
  "case_path = \<lparr>fullpath = ''/d'', pfxlen = None\<rparr>"

lemma case_names: "components ''D'' = [Normal ''D'']" "components ''d'' = [Normal ''d'']"
  "text_lower ''D'' = ''d''" "text_lower ''d'' = ''d''" "utf8_valid ''D''" "utf8_valid ''d''"
  by code_simp+

lemma case_path_normal: "normal_path (as_bytes case_path)"
  unfolding normal_path_def by (intro conjI exI [of _ False]) code_simp+

lemma case_path_facts: "normal_path (as_bytes case_path)" "path_segs (as_bytes case_path) = [''d'']"
  "join_confined [RootDir] case_path = Inr [RootDir, Normal ''d'']" "components (as_rel_ospath case_path) = [Normal ''d'']"
  by (rule case_path_normal, code_simp+)

lemma case_facts: "lru_spec (ho_ci case_host) id 4096" "low_ok (ho_lower case_host)" "plain_listings (ho_os case_host)"
  "ci_ok case_host id case_state"
  using list_lru_spec case_names
  by (simp_all add: case_host_def demo_host_def low_ok_def text_lower_def plain_listings_def ci_ok_def case_state_def demo_seen_def)

lemma case_resolves: "\<exists>s'. ci_resolve case_host [RootDir] case_path case_state = Some (Inr [RootDir, Normal ''D''], s')"
  using case_names case_path_facts
  by (simp add: ci_resolve_def of_sum_def bind_def ok_def attempt_def on_os_def has_root_def path_is_str_def os_parent_def ci_get_def
      known_parent_def ci_lookup_def push_normal_component_def push_plain case_host_def demo_host_def demo_os_def case_state_def
      demo_seen_def list_lru_def Let_def ci_insert_def no_file_def del: utf8_valid.simps)

lemma ci_resolve_case_witness:
  "\<exists>q s'. ci_resolve case_host [RootDir] case_path case_state = Some (Inr q, s') \<and>
     pathbuf_to_lowercase text_lower q = pathbuf_to_lowercase text_lower [RootDir, Normal ''d'']"
proof -
  obtain s' where r: "ci_resolve case_host [RootDir] case_path case_state = Some (Inr [RootDir, Normal ''D''], s')"
    using case_resolves by blast
  from ci_resolve_case [OF case_facts(1-3) case_path_facts(1) case_facts(4) r] r case_path_facts(2)
  show ?thesis by (auto simp: case_host_def)
qed

end
