(* ===== verification/Report_Props.thy ===== *)
theory Report_Props
  imports Mem_Server Mem_Get Handle_Store Handle_Ends Handle_Report Cal_Props
begin

text \<open>
  Reports on the in-memory server: a multiget answers every reference once, with the object it names or
  as missing; a query answers with the members of the collection that match, and the limit of an
  address book query bounds its answer.
\<close>

section \<open>Reading one object\<close>

definition object_at :: "fs_map \<Rightarrow> dav_path \<Rightarrow> nat \<Rightarrow> (bytes \<Rightarrow> bool) \<Rightarrow> file_node option" where
  "object_at m p n sniff = (case m (segs_of p) of
     Some (MFile f) \<Rightarrow> if length (fl_data f) \<le> n \<and> sniff (fl_data f) then Some f else None
   | _ \<Rightarrow> None)"

lemma mem_read_whole:
  assumes "fs_ok s" and "handle_on s h ks f" and "mh_pos h = 0" and "length (fl_data f) \<le> u64_max"
  shows "\<exists>h'. read_file_to_end (memfs_ops a) h (length (fl_data f)) s = Some (Inr (fl_data f, h'), s)"
proof (cases "fl_data f = []")
  case False
  from memf_read_ok [OF assms(1,2,4), of "length (fl_data f)"] obtain h' where
    r: "memf_read_bytes h (length (fl_data f)) s = Some (Inr (fl_data f, h'), s)" using assms(3) by auto
  obtain n where n: "length (fl_data f) = Suc n" using False by (cases "fl_data f") auto
  have "read_to_end_fuel n (memfs_ops a) h' (Suc n) (fl_data f) s = Some (Inr (fl_data f, h'), s)"
    using n by (cases n) simp_all
  then show ?thesis using r n False by (simp add: read_file_to_end_def)
qed (simp add: read_file_to_end_def)

lemma mem_read_object:
  assumes sv: "sv_fs sv = memfs_ops a" and ok: "fs_ok (w_fs w)" and n: "n \<le> u64_max"
  shows "read_object_resource sv p n sniff w = Some (Inr (map_option (\<lambda>f. (as_dirent (MFile f), utf8_lossy (fl_data f)))
    (object_at (fs_map (w_fs w)) p n sniff)), w)"
proof -
  obtain r where r: "memfs_open p oo_for_read (w_fs w) = Some (r, w_fs w)" using mem_open_read [OF ok] by blast
  have w: "w\<lparr>w_fs := w_fs w\<rparr> = w" by simp
  show ?thesis
  proof (cases "\<exists>f. fs_map (w_fs w) (segs_of p) = Some (MFile f)")
    case True
    then obtain f where f: "fs_map (w_fs w) (segs_of p) = Some (MFile f)" by blast
    from mem_read_open [OF ok f] r obtain h where h: "r = Inr h" "handle_on (w_fs w) h (segs_of p) f" "mh_pos h = 0" by auto
    note m = memf_metadata_run [OF ok h(2)]
    show ?thesis
    proof (cases "length (fl_data f) \<le> n")
      case len: True
      with n have "length (fl_data f) \<le> u64_max" by simp
      from mem_read_whole [OF ok h(2,3) this] obtain h' where
        "read_file_to_end (memfs_ops a) h (length (fl_data f)) (w_fs w) = Some (Inr (fl_data f, h'), w_fs w)" by blast
      with r h m len f sv show ?thesis
        by (simp add: read_object_resource_def on_fs_def memfs_ops_def object_at_def mem_meta_def)
    next
      case False
      with r h m f sv show ?thesis
        by (simp add: read_object_resource_def on_fs_def memfs_ops_def object_at_def mem_meta_def)
    qed
  next
    case False
    then have "\<exists>e. r = Inl e" using memfs_open_ok [OF ok, of p oo_for_read] r
      by (auto simp: open_result_def oo_for_read_def split: option.splits mem_node.splits if_splits)
    moreover have "object_at (fs_map (w_fs w)) p n sniff = None"
      using False by (auto simp: object_at_def split: option.splits mem_node.splits)
    ultimately show ?thesis using r sv by (auto simp: read_object_resource_def on_fs_def memfs_ops_def)
  qed
qed

section \<open>Multigets\<close>

text \<open>Looking for links on the way to a path changes nothing.\<close>

lemma mem_walk_pure:
  assumes "sv_fs sv = memfs_ops a"
  shows "length (lock_segs p) < n \<Longrightarrow> \<exists>r. symlink_walk n sv p w = Some (r, w)"
proof (induction n arbitrary: p)
  case (Suc n)
  have up: "\<exists>r. symlink_walk n sv (path_parent p) w = Some (r, w)" if "\<not> path_eq (path_parent p) p"
  proof (rule Suc.IH)
    have "lock_segs p \<noteq> []" using that path_parent_root [of p] by (auto simp: path_eq_def)
    with Suc.prems show "length (lock_segs (path_parent p)) < n" by (cases "lock_segs p") (simp_all add: lock_segs_parent)
  qed
  obtain r where "memfs_metadata p (w_fs w) = Some (r, w_fs w)" using mem_metadata_told by blast
  then have "(attempt (on_fs (fs_symlink_metadata (sv_fs sv) p)) :: (_, dav_error, _) act) w = Some (Inr r, w)"
    using assms by (simp add: on_fs_def memfs_ops_def)
  with up show ?case by (cases r) auto
qed simp

lemma mem_visible_pure:
  assumes "sv_fs sv = memfs_ops a"
  shows "\<exists>r. ensure_visible sv p w = Some (r, w)"
  using mem_walk_pure [OF assms, of p "length (fullpath p) + 1" w] lock_segs_length [of p]
  by (auto simp: ensure_visible_def less_Suc_eq_le simp del: symlink_walk.simps)

text \<open>The object a reference of a multiget names.\<close>

definition named_object :: "(mem_fs, mem_file, 'l) server \<Rightarrow> fs_map \<Rightarrow> dav_path \<Rightarrow> nat \<Rightarrow> (bytes \<Rightarrow> bool) \<Rightarrow> bytes \<Rightarrow> found option" where
  "named_object sv m path n sniff href =
     (case from_str_and_prefix (pct_decode (sv_http sv)) href (sv_prefix sv) of
        Inl _ \<Rightarrow> None
      | Inr item \<Rightarrow>
          if (is_in_collection item path \<or> path_eq item path) \<and> shown sv item
          then map_option (\<lambda>f. (item, etag_text (as_dirent (MFile f)), utf8_lossy (fl_data f))) (object_at m item n sniff)
          else None)"

lemma mem_multiget_one:
  assumes sv: "sv_fs sv = memfs_ops a" and ok: "fs_ok (w_fs w)" and n: "n \<le> u64_max"
  shows "multiget_one sv path n sniff href w = Some (Inr (named_object sv (fs_map (w_fs w)) path n sniff href), w)"
proof (cases "from_str_and_prefix (pct_decode (sv_http sv)) href (sv_prefix sv)")
  case (Inr item)
  let ?o = "object_at (fs_map (w_fs w)) item n sniff"
  note rd = mem_read_object [OF sv ok n, of item sniff]
  obtain r where r: "ensure_visible sv item w = Some (r, w)" using mem_visible_pure [OF sv] by blast
  have vis: "r = Inr ()" if "shown sv item" "?o \<noteq> None"
  proof -
    have "fs_map (w_fs w) (segs_of item) \<noteq> None" using that(2) by (auto simp: object_at_def split: option.splits)
    from mem_visible [OF sv ok open_way_exists [OF ok this] that(1)] r show ?thesis by simp
  qed
  have hid: "\<exists>e. r = Inl e" if "\<not> shown sv item"
    using that r by (auto simp: shown_def ensure_visible_def split: if_splits)
  from Inr show ?thesis
    using rd r vis hid by (cases r; cases ?o) (auto simp: multiget_one_def named_object_def)
qed (simp add: multiget_one_def named_object_def)

lemma mem_multiget_loop:
  assumes sv: "sv_fs sv = memfs_ops a" and ok: "fs_ok (w_fs w)" and n: "n \<le> u64_max"
  shows "multiget_loop sv path n sniff hrefs w =
    Some (Inr (List.map_filter (named_object sv (fs_map (w_fs w)) path n sniff) hrefs,
      filter (\<lambda>h. named_object sv (fs_map (w_fs w)) path n sniff h = None) hrefs), w)"
  by (induction hrefs) (auto simp: mem_multiget_one [OF assms] map_filter_simps split: option.splits)

definition calendar_object :: "(mem_fs, mem_file, 'l) server \<Rightarrow> fs_map \<Rightarrow> dav_path \<Rightarrow> bytes \<Rightarrow> found option" where
  "calendar_object sv m path = named_object sv m path CALDAV_MAX_RESOURCE_SIZE is_calendar_data"

definition address_object :: "(mem_fs, mem_file, 'l) server \<Rightarrow> fs_map \<Rightarrow> dav_path \<Rightarrow> bytes \<Rightarrow> found option" where
  "address_object sv m path = named_object sv m path CARDDAV_MAX_RESOURCE_SIZE is_vcard_data"

lemma max_sizes_fit: "CALDAV_MAX_RESOURCE_SIZE \<le> u64_max" "CARDDAV_MAX_RESOURCE_SIZE \<le> u64_max"
  by (simp_all add: CALDAV_MAX_RESOURCE_SIZE_def CARDDAV_MAX_RESOURCE_SIZE_def u64_max_def)

text \<open>C28: A multiget answers every reference exactly once, in the order of the request: those that name a
  shown object of the collection, small enough and of its kind, with the object, and all others, whatever
  is wrong with them, as not found.  Nothing is changed.\<close>

theorem multiget_partition:
  assumes sv: "sv_fs sv = memfs_ops a" and ok: "fs_ok (w_fs w)"
  shows "handle_calendar_multiget sv path hrefs w =
      Some (Inr (report_response (sv_http sv) (write_calendar_data_response (sv_http sv))
        (List.map_filter (calendar_object sv (fs_map (w_fs w)) path) hrefs)
        (filter (\<lambda>h. calendar_object sv (fs_map (w_fs w)) path h = None) hrefs)), w) \<and>
    handle_addressbook_multiget sv path hrefs requested w =
      Some (Inr (report_response (sv_http sv) (write_vcard_data_response (sv_http sv) requested)
        (List.map_filter (address_object sv (fs_map (w_fs w)) path) hrefs)
        (filter (\<lambda>h. address_object sv (fs_map (w_fs w)) path h = None) hrefs)), w)"
  by (simp add: handle_calendar_multiget_def handle_addressbook_multiget_def calendar_object_def address_object_def
      mem_multiget_loop [OF sv ok max_sizes_fit(1)] mem_multiget_loop [OF sv ok max_sizes_fit(2)])

section \<open>Queries\<close>

text \<open>The object at a path that a query answers with.\<close>

definition chosen :: "fs_map \<Rightarrow> nat \<Rightarrow> (bytes \<Rightarrow> bool) \<Rightarrow> (bytes \<Rightarrow> bool) \<Rightarrow> dav_path \<Rightarrow> found option" where
  "chosen m n sniff matches p =
     (case object_at m p n sniff of
        Some f \<Rightarrow> if matches (utf8_lossy (fl_data f)) then Some (p, etag_text (as_dirent (MFile f)), utf8_lossy (fl_data f)) else None
      | None \<Rightarrow> None)"

lemma mem_calendar_results:
  assumes sv: "sv_fs sv = memfs_ops a" and ok: "fs_ok (w_fs w)"
    and "\<And>p f. p \<in> set ps \<Longrightarrow> fs_map (w_fs w) (segs_of p) = Some (MFile f) \<Longrightarrow> matches (utf8_lossy (fl_data f)) \<noteq> None"
  shows "calendar_query_results sv matches ps w = Some (Inr (List.map_filter
    (chosen (fs_map (w_fs w)) CALDAV_MAX_RESOURCE_SIZE is_calendar_data (\<lambda>c. matches c = Some True)) ps), w)"
  using assms(3)
proof (induction ps)
  case (Cons p ps)
  note rd = mem_read_object [OF sv ok max_sizes_fit(1), of p is_calendar_data]
  have total: "matches (utf8_lossy (fl_data f)) \<noteq> None"
    if "object_at (fs_map (w_fs w)) p CALDAV_MAX_RESOURCE_SIZE is_calendar_data = Some f" for f
    using that Cons.prems [of p f] by (auto simp: object_at_def split: option.splits mem_node.splits if_splits)
  have IH: "calendar_query_results sv matches ps w = Some (Inr (List.map_filter
    (chosen (fs_map (w_fs w)) CALDAV_MAX_RESOURCE_SIZE is_calendar_data (\<lambda>c. matches c = Some True)) ps), w)"
    by (rule Cons.IH, rule Cons.prems, rule list.set_intros(2))
  show ?case
  proof (cases "object_at (fs_map (w_fs w)) p CALDAV_MAX_RESOURCE_SIZE is_calendar_data")
    case None
    then show ?thesis by (simp add: rd IH chosen_def [of _ _ _ _ p] map_filter_simps)
  next
    case (Some f)
    with total obtain b where "matches (utf8_lossy (fl_data f)) = Some b" by blast
    with Some show ?thesis by (simp add: rd IH chosen_def [of _ _ _ _ p] map_filter_simps)
  qed
qed (simp add: map_filter_simps)

definition limited :: "nat option \<Rightarrow> 'x list \<Rightarrow> 'x list" where
  "limited l xs = (case l of None \<Rightarrow> xs | Some n \<Rightarrow> take n xs)"

lemma mem_addressbook_results:
  assumes sv: "sv_fs sv = memfs_ops a" and ok: "fs_ok (w_fs w)"
  shows "addressbook_query_results sv matches l k ps w = Some (Inr (limited (map_option (\<lambda>n. n - k) l) (List.map_filter
    (chosen (fs_map (w_fs w)) CARDDAV_MAX_RESOURCE_SIZE is_vcard_data matches) ps)), w)"
proof (induction ps arbitrary: k)
  case (Cons p ps)
  note rd = mem_read_object [OF sv ok max_sizes_fit(2), of p is_vcard_data]
  have step: "limited (map_option (\<lambda>n. n - k) l) (x # xs) = x # limited (map_option (\<lambda>n. n - (k + 1)) l) xs"
    if "\<not> (case l of Some n \<Rightarrow> n \<le> k | None \<Rightarrow> False)" for x :: found and xs
    using that by (auto simp: limited_def take_Cons' split: option.splits)
  show ?case
  proof (cases "case l of Some n \<Rightarrow> n \<le> k | None \<Rightarrow> False")
    case True
    then show ?thesis by (auto simp: limited_def split: option.splits)
  next
    case False
    with step show ?thesis
      by (auto simp: rd Cons.IH chosen_def map_filter_simps split: option.splits)
  qed
qed (simp add: map_filter_simps limited_def split: option.splits)

lemma mem_listed_paths:
  "listed_paths sv path (map mem_entry cs) w =
    Some (Inr (map (\<lambda>(k, _). push_segment k path) (filter (\<lambda>(k, _). \<not> hidden_entry sv k) cs)), w)"
  by (induction cs) (auto simp: hidden_in_listing_def mem_dirent_def on_fs_def)

text \<open>The members of a collection that a listing shows.\<close>

definition listed :: "('s, 'h, 'l) server \<Rightarrow> fs_map \<Rightarrow> bytes list \<Rightarrow> bytes \<Rightarrow> bool" where
  "listed sv m ks k \<longleftrightarrow> m (ks @ [k]) \<noteq> None \<and> \<not> hidden_entry sv k"

lemma mem_query_paths:
  assumes sv: "sv_fs sv = memfs_ops a" and ok: "fs_ok (w_fs w)" "names_ok (fs_map (w_fs w))" "path_fits path"
    and dir: "is_dir_at (fs_map (w_fs w)) (segs_of path)" and depth: "d \<noteq> DepthZero"
  shows "\<exists>ks. query_paths sv path True d w = Some (Inr (map (\<lambda>k. push_segment k path) ks), w) \<and> distinct ks \<and>
    set ks = {k. listed sv (fs_map (w_fs w)) (segs_of path) k} \<and>
    (\<forall>k \<in> set ks. segs_of (push_segment k path) = segs_of path @ [k])"
proof -
  let ?m = "fs_map (w_fs w)"
  from memfs_read_dir_ok [OF ok(1) dir, of "get_read_dir_meta sv"] obtain cs where
    cs: "memfs_read_dir path (get_read_dir_meta sv) (w_fs w) = Some (Inr (map mem_entry cs), w_fs w)" "distinct (map fst cs)"
      "\<And>k m. (k, m) \<in> set cs \<longleftrightarrow> ?m (segs_of path @ [k]) = Some m" by blast
  let ?cs = "filter (\<lambda>(k, _). \<not> hidden_entry sv k) cs"
  have "map (\<lambda>(k, _). push_segment k path) ?cs = map (\<lambda>k. push_segment k path) (map fst ?cs)" by auto
  then have q: "query_paths sv path True d w = Some (Inr (map (\<lambda>k. push_segment k path) (map fst ?cs)), w)"
    using depth cs(1) sv mem_listed_paths [of sv path cs w]
    by (simp add: query_paths_def member_paths_def fs_try_def on_fs_def comp_def case_prod_beta del: listed_paths.simps)
  have s: "set (map fst ?cs) = {k. listed sv ?m (segs_of path) k}"
    using cs(3) by (force simp: listed_def)
  have "segs_of (push_segment k path) = segs_of path @ [k]" if "k \<in> set (map fst ?cs)" for k
  proof -
    from that s have "?m (segs_of path @ [k]) \<noteq> None" by (auto simp: listed_def)
    then have "good_seg k" using ok(2) by (auto simp: names_ok_def)
    then show ?thesis using ok(3) by (rule segs_push_segment)
  qed
  with q s cs(2) show ?thesis by (intro exI [of _ "map fst ?cs"]) (simp add: distinct_map_filter)
qed

lemma map_filter_comp_some: "List.map_filter f xs = map (the \<circ> f) (filter (\<lambda>x. f x \<noteq> None) xs)"
  by (induction xs) (auto simp: map_filter_simps split: option.splits)

lemma chosen_path: "chosen m n sniff matches p = Some r \<Longrightarrow> fst r = p"
  by (auto simp: chosen_def split: option.splits if_splits)

text \<open>What is found among the members of a collection.\<close>

lemma chosen_members:
  assumes "distinct ks" and "\<forall>k \<in> set ks. segs_of (push_segment k path) = ps @ [k]"
    and "set ks = {k. listed sv m ps k}"
    and f: "found = List.map_filter (chosen m n sniff matches) (map (\<lambda>k. push_segment k path) ks)"
  shows "distinct (map (segs_of \<circ> fst) found)"
    and "set (map (\<lambda>(p, etag, dat). (segs_of p, etag, dat)) found) =
      {(ps @ [k], etag_text (as_dirent (MFile f)), utf8_lossy (fl_data f)) |k f.
         m (ps @ [k]) = Some (MFile f) \<and> \<not> hidden_entry sv k \<and> length (fl_data f) \<le> n \<and> sniff (fl_data f) \<and>
         matches (utf8_lossy (fl_data f))}"
proof -
  let ?c = "chosen m n sniff matches" and ?q = "\<lambda>k. push_segment k path"
  let ?ks = "filter (\<lambda>k. ?c (?q k) \<noteq> None) ks"
  have found: "found = map (\<lambda>k. the (?c (?q k))) ?ks"
    by (simp add: f map_filter_comp_some filter_map comp_def)
  have fst: "segs_of (fst (the (?c (?q k)))) = ps @ [k]" if "k \<in> set ?ks" for k
    using that assms(2) chosen_path [of m n sniff matches "?q k"] by auto
  have "map (segs_of \<circ> fst) found = map (\<lambda>k. ps @ [k]) ?ks"
    unfolding found map_map using fst by (intro map_cong) (simp_all add: comp_def)
  then show "distinct (map (segs_of \<circ> fst) found)" using assms(1) by (simp add: distinct_map inj_on_def)
  have one: "?c (?q k) = Some (p, etag, dat) \<longleftrightarrow> (\<exists>f. m (ps @ [k]) = Some (MFile f) \<and> length (fl_data f) \<le> n \<and> sniff (fl_data f) \<and>
      matches (utf8_lossy (fl_data f)) \<and> p = ?q k \<and> etag = etag_text (as_dirent (MFile f)) \<and> dat = utf8_lossy (fl_data f))"
    if "k \<in> set ks" for k p etag dat
    using that assms(2) by (auto simp: chosen_def object_at_def split: option.splits mem_node.splits)
  have mem: "(x, etag, dat) \<in> set (map (\<lambda>(p, etag, dat). (segs_of p, etag, dat)) found) \<longleftrightarrow>
      (\<exists>k \<in> set ks. \<exists>p. ?c (?q k) = Some (p, etag, dat) \<and> x = segs_of p)" for x etag dat
    unfolding found by (force simp: image_iff)
  have eq: "(x, etag, dat) \<in> set (map (\<lambda>(p, etag, dat). (segs_of p, etag, dat)) found) \<longleftrightarrow>
      (\<exists>k f. x = ps @ [k] \<and> m (ps @ [k]) = Some (MFile f) \<and> \<not> hidden_entry sv k \<and>
      length (fl_data f) \<le> n \<and> sniff (fl_data f) \<and> matches (utf8_lossy (fl_data f)) \<and>
      etag = etag_text (as_dirent (MFile f)) \<and> dat = utf8_lossy (fl_data f))" for x etag dat
    unfolding mem using one assms(2) unfolding assms(3) listed_def by (fastforce simp del: not_None_eq)
  show "set (map (\<lambda>(p, etag, dat). (segs_of p, etag, dat)) found) =
      {(ps @ [k], etag_text (as_dirent (MFile f)), utf8_lossy (fl_data f)) |k f.
         m (ps @ [k]) = Some (MFile f) \<and> \<not> hidden_entry sv k \<and> length (fl_data f) \<le> n \<and> sniff (fl_data f) \<and>
         matches (utf8_lossy (fl_data f))}" using eq by (intro set_eqI) (auto simp del: set_map)
qed

text \<open>C27: A calendar query on a collection answers with exactly the shown members that are files of at most
  1 MiB, hold a calendar and match, each once, with its entity tag and its content, when no member
  makes the query panic.  Nothing is changed.\<close>

theorem calendar_query_selects:
  assumes sv: "sv_fs sv = memfs_ops a" and ok: "fs_ok (w_fs w)" "names_ok (fs_map (w_fs w))" "path_fits path"
    and dir: "is_dir_at (fs_map (w_fs w)) (segs_of path)" and depth: "d \<noteq> DepthZero"
    and calm: "\<And>k f. fs_map (w_fs w) (segs_of path @ [k]) = Some (MFile f) \<Longrightarrow>
      calendar_matches_query ce (utf8_lossy (fl_data f)) q \<noteq> None"
  shows "\<exists>found. handle_calendar_query ce sv path True d q w =
      Some (Inr (report_response (sv_http sv) (write_calendar_data_response (sv_http sv)) found []), w) \<and>
    distinct (map (segs_of \<circ> fst) found) \<and>
    set (map (\<lambda>(p, etag, dat). (segs_of p, etag, dat)) found) =
      {(segs_of path @ [k], etag_text (as_dirent (MFile f)), utf8_lossy (fl_data f)) |k f.
         fs_map (w_fs w) (segs_of path @ [k]) = Some (MFile f) \<and> \<not> hidden_entry sv k \<and>
         length (fl_data f) \<le> CALDAV_MAX_RESOURCE_SIZE \<and> is_calendar_data (fl_data f) \<and>
         calendar_matches_query ce (utf8_lossy (fl_data f)) q = Some True}"
proof -
  let ?m = "\<lambda>content. calendar_matches_query ce content q"
  from mem_query_paths [OF sv ok dir depth] obtain ks where
    ks: "query_paths sv path True d w = Some (Inr (map (\<lambda>k. push_segment k path) ks), w)" "distinct ks"
      "set ks = {k. listed sv (fs_map (w_fs w)) (segs_of path) k}"
      "\<forall>k \<in> set ks. segs_of (push_segment k path) = segs_of path @ [k]" by blast
  note members = chosen_members [OF ks(2,4,3) refl, of CALDAV_MAX_RESOURCE_SIZE is_calendar_data "\<lambda>c. ?m c = Some True"]
  have "calendar_query_results sv ?m (map (\<lambda>k. push_segment k path) ks) w = Some (Inr (List.map_filter
      (chosen (fs_map (w_fs w)) CALDAV_MAX_RESOURCE_SIZE is_calendar_data (\<lambda>c. ?m c = Some True))
      (map (\<lambda>k. push_segment k path) ks)), w)"
    by (rule mem_calendar_results [OF sv ok(1)]) (use calm ks(4) in auto)
  with ks(1) members show ?thesis by (auto simp: handle_calendar_query_def)
qed

text \<open>C29: An address book query answers with the first of the shown members that are files of at most 1 MiB,
  hold a card and match, as many as its limit allows, and with all of them when it has no limit.\<close>

theorem addressbook_query_selects:
  assumes sv: "sv_fs sv = memfs_ops a" and ok: "fs_ok (w_fs w)" "names_ok (fs_map (w_fs w))" "path_fits path"
    and dir: "is_dir_at (fs_map (w_fs w)) (segs_of path)" and depth: "d \<noteq> DepthZero"
  shows "\<exists>found. handle_addressbook_query re sv path True d q w =
      Some (Inr (report_response (sv_http sv) (write_vcard_data_response (sv_http sv) (aq_properties (pq_query q)))
        (limited (aq_limit (pq_query q)) found) []), w) \<and>
    distinct (map (segs_of \<circ> fst) found) \<and>
    set (map (\<lambda>(p, etag, dat). (segs_of p, etag, dat)) found) =
      {(segs_of path @ [k], etag_text (as_dirent (MFile f)), utf8_lossy (fl_data f)) |k f.
         fs_map (w_fs w) (segs_of path @ [k]) = Some (MFile f) \<and> \<not> hidden_entry sv k \<and>
         length (fl_data f) \<le> CARDDAV_MAX_RESOURCE_SIZE \<and> is_vcard_data (fl_data f) \<and>
         addressbook_matches_parsed_query (ce_lowercase (re_cal re)) (re_vcard re) (utf8_lossy (fl_data f)) q}"
proof -
  let ?m = "\<lambda>content. addressbook_matches_parsed_query (ce_lowercase (re_cal re)) (re_vcard re) content q"
  from mem_query_paths [OF sv ok dir depth] obtain ks where
    ks: "query_paths sv path True d w = Some (Inr (map (\<lambda>k. push_segment k path) ks), w)" "distinct ks"
      "set ks = {k. listed sv (fs_map (w_fs w)) (segs_of path) k}"
      "\<forall>k \<in> set ks. segs_of (push_segment k path) = segs_of path @ [k]" by blast
  note members = chosen_members [OF ks(2,4,3) refl, of CARDDAV_MAX_RESOURCE_SIZE is_vcard_data ?m]
  have id: "map_option (\<lambda>n. n - 0) l = l" for l :: "nat option" by (cases l) simp_all
  from mem_addressbook_results [OF sv ok(1), of ?m "aq_limit (pq_query q)" 0 "map (\<lambda>k. push_segment k path) ks", unfolded id]
    ks(1) members show ?thesis by (auto simp: handle_addressbook_query_def)
qed

section \<open>Reports to run\<close>

lemma demo_holding:
  assumes "length dat \<le> 1000"
  shows "\<exists>s. fs_ok s \<and> fs_map s = (fs_map fs_demo)([''d'', ''f''] \<mapsto> MFile ((blank_file 7)\<lparr>fl_data := dat\<rparr>))"
proof -
  obtain h where h: "handle_on fs_demo h [''d'', ''f''] (blank_file 7)" "mh_pos h = 0" "\<not> mh_append h"
    using fs_demo_facts(4) by blast
  have p: "write_pos h (blank_file 7) = 0" using h(2,3) by (simp add: write_pos_def)
  have "write_fail 1000 0 (length dat) 0 = None" using assms by (simp add: write_fail_def u64_max_def)
  with memf_write_ok [OF fs_demo_facts(1) h(1), of 1000 dat, unfolded p] show ?thesis
    by (auto simp: blank_file_def written_def splice_def fs_demo_facts(2))
qed

definition demo_cal :: bytes where "demo_cal = ''BEGIN:VCALENDAR END:VCALENDAR''"
definition demo_card :: bytes where "demo_card = ''BEGIN:VCARD END:VCARD''"

lemma demo_world_with:
  assumes "length dat \<le> 1000"
  obtains w :: "(mem_fs, mem_ls) world" where "fs_ok (w_fs w)" "names_ok (fs_map (w_fs w))"
    "fs_map (w_fs w) = [[] \<mapsto> new_dir 7, [''d''] \<mapsto> new_dir 7, [''d'', ''f''] \<mapsto> MFile ((blank_file 7)\<lparr>fl_data := dat\<rparr>)]"
proof -
  from demo_holding [OF assms] obtain s where s: "fs_ok s"
    "fs_map s = [[] \<mapsto> new_dir 7, [''d''] \<mapsto> new_dir 7, [''d'', ''f''] \<mapsto> MFile ((blank_file 7)\<lparr>fl_data := dat\<rparr>)]"
    unfolding fs_demo_facts(3) by auto
  moreover have "names_ok (fs_map s)" by (auto simp: names_ok_def s(2) good_seg_def split: if_splits)
  ultimately show ?thesis using that [of "demo_world\<lparr>w_fs := s\<rparr>"] by simp
qed

lemma demo_refs:
  "from_str_and_prefix (pct_decode range_env) ''/d/f'' [] = Inr req_df"
  "from_str_and_prefix (pct_decode range_env) ''/d/g'' [] = Inr \<lparr>fullpath = ''/d/g'', pfxlen = Some 0\<rparr>"
  "is_in_collection req_df req_d" "segs_of \<lparr>fullpath = ''/d/g'', pfxlen = Some 0\<rparr> = [''d'', ''g'']"
  by (code_simp, code_simp, code_simp, code_simp)

lemma demo_contents:
  "is_calendar_data demo_cal" "utf8_lossy demo_cal = demo_cal" "length demo_cal = 29"
  "is_vcard_data demo_card" "utf8_lossy demo_card = demo_card" "length demo_card = 21"
  by (code_simp+)

lemma demo_fits: "length demo_cal \<le> 1000" "length demo_card \<le> 1000"
  using demo_contents(3,6) by simp_all

lemma demo_d_path: "segs_of req_d = [''d'']" "path_fits req_d"
  using demo_d_facts request_path_fits [OF demo_path_d] by simp_all

lemma demo_f_listed: "\<not> hidden_entry range_server ''f''"
  by (simp add: hidden_entry_def is_collection_marker_def eq_ignore_ascii_case_def ascii_lower_def range_server_def demo_server_def)

lemma multiget_partition_witness:
  "\<exists>w etag. handle_calendar_multiget range_server req_d [''/d/f'', ''/d/g''] w =
     Some (Inr (report_response range_env (write_calendar_data_response range_env) [(req_df, etag, demo_cal)] [''/d/g'']), w)"
proof -
  obtain w :: "(mem_fs, mem_ls) world" where w: "fs_ok (w_fs w)" "names_ok (fs_map (w_fs w))"
    "fs_map (w_fs w) = [[] \<mapsto> new_dir 7, [''d''] \<mapsto> new_dir 7, [''d'', ''f''] \<mapsto> MFile ((blank_file 7)\<lparr>fl_data := demo_cal\<rparr>)]"
    by (rule demo_world_with [OF demo_fits(1)])
  let ?o = "calendar_object range_server (fs_map (w_fs w)) req_d"
  have "?o ''/d/f'' = Some (req_df, etag_text (as_dirent (MFile ((blank_file 7)\<lparr>fl_data := demo_cal\<rparr>))), demo_cal)"
    using demo_df_facts by (simp add: calendar_object_def named_object_def demo_refs object_at_def w(3) demo_contents CALDAV_MAX_RESOURCE_SIZE_def)
  moreover have "?o ''/d/g'' = None"
    by (simp add: calendar_object_def named_object_def demo_refs object_at_def w(3))
  ultimately show ?thesis
    using conjunct1 [OF multiget_partition [where sv = range_server and w = w and path = req_d and hrefs = "[''/d/f'', ''/d/g'']", OF _ w(1)]]
    by (fastforce simp: map_filter_simps)
qed

lemma calendar_query_selects_witness:
  "\<exists>w found. handle_calendar_query (demo_cal_env (9 * one_day)) range_server req_d True DepthOne demo_query w =
      Some (Inr (report_response range_env (write_calendar_data_response range_env) found []), w) \<and>
    set (map (segs_of \<circ> fst) found) = {[''d'', ''f'']}"
proof -
  obtain w :: "(mem_fs, mem_ls) world" where w: "fs_ok (w_fs w)" "names_ok (fs_map (w_fs w))"
    "fs_map (w_fs w) = [[] \<mapsto> new_dir 7, [''d''] \<mapsto> new_dir 7, [''d'', ''f''] \<mapsto> MFile ((blank_file 7)\<lparr>fl_data := demo_cal\<rparr>)]"
    by (rule demo_world_with [OF demo_fits(1)])
  have v: "validate_calendar_data (demo_cal_env b) c = validate_calendar_data (demo_cal_env b) ''x''" for b c
    by (simp add: validate_calendar_data_def demo_cal_env_def)
  have m: "calendar_matches_query (demo_cal_env (9 * one_day)) c demo_query = Some True" for c
    using query_panics(2) unfolding calendar_matches_query_def v [of _ c] .
  have calm: "calendar_matches_query (demo_cal_env (9 * one_day)) c demo_query \<noteq> None" for c by (simp add: m)
  have dir: "is_dir_at (fs_map (w_fs w)) (segs_of req_d)" by (simp add: w(3) demo_d_path is_dir_at_def new_dir_def)
  from calendar_query_selects [where sv = range_server and ce = "demo_cal_env (9 * one_day)" and q = demo_query and d = DepthOne,
      OF range_server_simps(3) w(1,2) demo_d_path(2) dir _ calm, unfolded demo_d_path(1) m range_server_simps simp_thms] obtain found where
    f: "handle_calendar_query (demo_cal_env (9 * one_day)) range_server req_d True DepthOne demo_query w =
        Some (Inr (report_response range_env (write_calendar_data_response range_env) found []), w)"
      "set (map (\<lambda>(p, etag, dat). (segs_of p, etag, dat)) found) =
        {([''d''] @ [k], etag_text (as_dirent (MFile f)), utf8_lossy (fl_data f)) |k f.
         fs_map (w_fs w) ([''d''] @ [k]) = Some (MFile f) \<and> \<not> hidden_entry range_server k \<and>
         length (fl_data f) \<le> CALDAV_MAX_RESOURCE_SIZE \<and> is_calendar_data (fl_data f)}"
    by blast
  have "set (map (segs_of \<circ> fst) found) = fst ` set (map (\<lambda>(p, etag, dat). (segs_of p, etag, dat)) found)"
    by (force simp: image_iff)
  also have "\<dots> = {[''d'', ''f'']}"
    unfolding f(2) using demo_f_listed by (force simp: w(3) demo_contents CALDAV_MAX_RESOURCE_SIZE_def split: if_splits)
  finally show ?thesis using f(1) by blast
qed

definition demo_report_env :: "unit report_env" where
  "demo_report_env = \<lparr>re_cal = demo_cal_env 0, re_vcard = (\<lambda>_. Inl []), re_uuid = ''u'', re_now = 0\<rparr>"

definition demo_card_query :: "nat option \<Rightarrow> parsed_addressbook_query" where
  "demo_card_query l = \<lparr>pq_query = \<lparr>aq_filter = None, aq_properties = [], aq_limit = l\<rparr>, pq_filters = [], pq_test = AnyOf\<rparr>"

lemma addressbook_query_selects_witness:
  "\<exists>w found. handle_addressbook_query demo_report_env range_server req_d True DepthOne (demo_card_query (Some 1)) w =
      Some (Inr (report_response range_env (write_vcard_data_response range_env []) (take 1 found) []), w) \<and>
    set (map (segs_of \<circ> fst) found) = {[''d'', ''f'']}"
proof -
  obtain w :: "(mem_fs, mem_ls) world" where w: "fs_ok (w_fs w)" "names_ok (fs_map (w_fs w))"
    "fs_map (w_fs w) = [[] \<mapsto> new_dir 7, [''d''] \<mapsto> new_dir 7, [''d'', ''f''] \<mapsto> MFile ((blank_file 7)\<lparr>fl_data := demo_card\<rparr>)]"
    by (rule demo_world_with [OF demo_fits(2)])
  have m: "addressbook_matches_parsed_query low parse c (demo_card_query l) \<longleftrightarrow> True" for low parse c l
    by (simp add: addressbook_matches_parsed_query_def demo_card_query_def)
  have dir: "is_dir_at (fs_map (w_fs w)) (segs_of req_d)" by (simp add: w(3) demo_d_path is_dir_at_def new_dir_def)
  have q: "aq_properties (pq_query (demo_card_query l)) = []" "aq_limit (pq_query (demo_card_query l)) = l" for l
    by (simp_all add: demo_card_query_def)
  have l: "limited (Some 1) xs = take 1 xs" for xs :: "found list" by (simp add: limited_def)
  from addressbook_query_selects [where sv = range_server and re = demo_report_env and q = "demo_card_query (Some 1)" and d = DepthOne,
      OF range_server_simps(3) w(1,2) demo_d_path(2) dir, unfolded demo_d_path(1) q l m range_server_simps simp_thms] obtain found where
    f: "handle_addressbook_query demo_report_env range_server req_d True DepthOne (demo_card_query (Some 1)) w =
        Some (Inr (report_response range_env (write_vcard_data_response range_env []) (take 1 found) []), w)"
      "set (map (\<lambda>(p, etag, dat). (segs_of p, etag, dat)) found) =
        {([''d''] @ [k], etag_text (as_dirent (MFile f)), utf8_lossy (fl_data f)) |k f.
         fs_map (w_fs w) ([''d''] @ [k]) = Some (MFile f) \<and> \<not> hidden_entry range_server k \<and>
         length (fl_data f) \<le> CARDDAV_MAX_RESOURCE_SIZE \<and> is_vcard_data (fl_data f)}"
    by blast
  have "set (map (segs_of \<circ> fst) found) = fst ` set (map (\<lambda>(p, etag, dat). (segs_of p, etag, dat)) found)"
    by (force simp: image_iff)
  also have "\<dots> = {[''d'', ''f'']}"
    unfolding f(2) using demo_f_listed by (force simp: w(3) demo_contents CARDDAV_MAX_RESOURCE_SIZE_def split: if_splits)
  finally show ?thesis using f(1) by blast
qed

end
