(* ===== verification/Handle_Index.thy ===== *)
theory Handle_Index
  imports Handle_Get
begin

text \<open>
  The page of a directory index, \<^verbatim>\<open>src/handle_gethead.rs\<close>: what \<^verbatim>\<open>handle_autoindex\<close> writes for the sorted entries.
  The texts in it are encoded, so that its markup does not depend on them, and no path makes it panic.
\<close>

section \<open>The page\<close>

text \<open>What crates and the formatting of floating point numbers do: \<^verbatim>\<open>htmlescape::encode_minimal\<close>, a date,
  and a size in some unit rounded to hundredths.\<close>

record index_env =
  ie_html :: "bytes \<Rightarrow> bytes"
  ie_date :: "systime \<Rightarrow> bytes"
  ie_hundredths :: "nat \<Rightarrow> nat \<Rightarrow> bytes"

definition quoted :: "bytes \<Rightarrow> bytes" where
  "quoted s = [CHR 0x22] @ s @ [CHR 0x22]"

definition on_lines :: "bytes list \<Rightarrow> bytes" where
  "on_lines ls = concat (map (\<lambda>l. l @ [CHR 0x0A]) ls)"

definition display_size :: "index_env \<Rightarrow> nat \<Rightarrow> bytes" where
  "display_size env sz =
     (case find (\<lambda>(_, pw). 1024 ^ pw \<le> sz \<and> sz < 1024 ^ (pw + 1))
         [(''KiB'', 1), (''MiB'', 2), (''GiB'', 3), (''TiB'', 4), (''PiB'', 5)] of
        Some (unit, pw) \<Rightarrow> ie_hundredths env sz (1024 ^ pw) @ '' '' @ unit
      | None \<Rightarrow> ie_hundredths env sz 1 @ '' B'')"

definition path_names :: "bytes \<Rightarrow> bytes list" where
  "path_names p = filter (\<lambda>s. s \<noteq> []) (split_on slash p)"

text \<open>The names of a path, each a link but the last.  An index out of range is a panic.\<close>

fun display_loop :: "index_env \<Rightarrow> bytes list \<Rightarrow> bytes list \<Rightarrow> bytes \<Rightarrow> bytes option" where
  "display_loop env [] us upath = Some []"
| "display_loop env (d # ds) [] upath = None"
| "display_loop env (d # ds) (u # us) upath =
     (let upath1 = upath @ [slash] @ u; dseg = ie_html env d
      in if ds = [] then Some dseg
         else (case display_loop env ds us upath1 of
             None \<Rightarrow> None
           | Some rest \<Rightarrow> Some (''<a href = '' @ quoted upath1 @ ''>'' @ dseg @ ''</a>/'' @ rest)))"

definition display_path :: "index_env \<Rightarrow> ((byte \<Rightarrow> bool) \<Rightarrow> bytes \<Rightarrow> bytes) \<Rightarrow> dav_path \<Rightarrow> bytes option" where
  "display_path env enc path =
     (let dpath_segs = path_names (utf8_lossy (fullpath path));
          upath_segs = path_names (as_url_string_with_prefix enc path);
          dpath = (if dpath_segs = [] then ''/'' else ''<a href = '' @ quoted ''/'' @ ''>/</a>'')
      in map_option (\<lambda>rest. dpath @ rest) (display_loop env dpath_segs upath_segs []))"

definition index_style :: bytes where
  "index_style = on_lines
     [''<style>'', ''table {'', ''  border-collapse: separate;'', ''  border-spacing: 1.5em 0.25em;'', ''}'',
      ''h1 {'', ''  padding-left: 0.3em;'', ''}'', ''a {'', ''  text-decoration: none;'', ''  color: blue;'', ''}'',
      ''.left {'', ''  text-align: left;'', ''}'', ''.mono {'', ''  font-family: monospace;'', ''}'',
      ''.mw20 {'', ''  min-width: 20em;'', ''}'', ''</style>'']"

definition index_head :: "bytes \<Rightarrow> bytes \<Rightarrow> bytes" where
  "index_head upath dpath =
     on_lines [''<!DOCTYPE html>'', ''<html><head>'',
       ''<meta name='' @ quoted ''referrer'' @ '' content='' @ quoted ''no-referrer'' @ '' />''] @
     ''<title>Index of '' @ upath @ on_lines [''</title>''] @ index_style @ on_lines [''</head>'', ''<body>''] @
     ''<h1>Index of '' @ dpath @ ''</h1>'' @
     on_lines [''<table>'', ''<tr>'', ''  <th class='' @ quoted ''left mw20'' @ ''>Name</th>'',
       ''  <th class='' @ quoted ''left'' @ ''>Last modified</th>'', ''  <th>Size</th>'', ''</tr>'',
       ''<tr><th colspan='' @ quoted ''3'' @ ''><hr></th></tr>'', ''<tr>'',
       ''  <td><a href='' @ quoted ''..'' @ ''>Parent Directory</a></td>'', ''  <td>&nbsp;</td>'',
       ''  <td class='' @ quoted ''mono'' @ '' align='' @ quoted ''right'' @ ''>[DIR]    </td>'', ''</tr>'']"

definition index_line :: "bytes \<Rightarrow> bytes \<Rightarrow> bytes \<Rightarrow> bytes \<Rightarrow> bytes" where
  "index_line url name modified sz =
     ''<tr><td><a href='' @ quoted url @ ''>'' @ name @ ''</a></td><td class='' @ quoted ''mono'' @ ''>'' @ modified @
     ''</td><td class='' @ quoted ''mono'' @ '' align='' @ quoted ''right'' @ ''>'' @ sz @ ''</td></tr>''"

definition index_row :: "index_env \<Rightarrow> index_entry \<Rightarrow> bytes" where
  "index_row env = (\<lambda>(url, name, meta).
     let modified = (case md_modified meta of Inr t \<Rightarrow> ie_date env t | Inl _ \<Rightarrow> []);
         sz = (if md_is_file meta then display_size env (md_len meta) else ''[DIR]    '')
     in index_line url (ie_html env name) modified sz)"

definition index_tail :: bytes where
  "index_tail = ''<tr><th colspan='' @ quoted ''3'' @ ''><hr></th></tr>'' @ ''</table></body></html>''"

definition index_page :: "index_env \<Rightarrow> ((byte \<Rightarrow> bool) \<Rightarrow> bytes \<Rightarrow> bytes) \<Rightarrow> dav_path \<Rightarrow> index_entry list \<Rightarrow> bytes option" where
  "index_page env enc path es =
     (case display_path env enc path of
        None \<Rightarrow> None
      | Some dpath \<Rightarrow>
          Some (index_head (ie_html env (as_url_string_with_prefix enc path)) dpath @ concat (map (index_row env) es) @ index_tail))"

section \<open>Its markup\<close>

definition is_markup :: "byte \<Rightarrow> bool" where
  "is_markup c \<longleftrightarrow> c = CHR ''<'' \<or> c = CHR ''>'' \<or> c = CHR 0x22"

abbreviation markup :: "bytes \<Rightarrow> bytes" where "markup s \<equiv> filter is_markup s"

text \<open>What is documented of the crates: nothing they give is markup, and percent-coding works byte by byte,
  into a percent sign and hexadecimal digits.\<close>

definition texts_plain :: "index_env \<Rightarrow> bool" where
  "texts_plain env \<longleftrightarrow> (\<forall>s. markup (ie_html env s) = []) \<and> (\<forall>t. markup (ie_date env t) = []) \<and> (\<forall>a b. markup (ie_hundredths env a b) = [])"

definition pct_codes :: "((byte \<Rightarrow> bool) \<Rightarrow> bytes \<Rightarrow> bytes) \<Rightarrow> bool" where
  "pct_codes enc \<longleftrightarrow> (\<exists>f. (\<forall>S s. enc S s = concat (map (\<lambda>c. if S c then f c else [c]) s)) \<and>
     (\<forall>c. f c \<noteq> [] \<and> (\<forall>x \<in> set (f c). x = CHR ''%'' \<or> is_alnum x)))"

definition index_url :: "((byte \<Rightarrow> bool) \<Rightarrow> bytes \<Rightarrow> bytes) \<Rightarrow> bytes \<Rightarrow> bool" where
  "index_url enc u \<longleftrightarrow> (\<exists>q. u = as_url_string_with_prefix enc q)"

lemma index_url_self [simp]: "index_url enc (as_url_string_with_prefix enc q)"
  by (auto simp: index_url_def)

text \<open>The page without its texts: of \<open>k\<close> names in the path and \<open>n\<close> entries.\<close>

definition index_skeleton :: "nat \<Rightarrow> nat \<Rightarrow> bytes" where
  "index_skeleton k n =
     index_head [] (if k = 0 then [] else ''<a href = '' @ quoted [] @ ''></a>'' @ concat (replicate (k - 1) (''<a href = '' @ quoted [] @ ''></a>''))) @
     concat (replicate n (index_line [] [] [] [])) @ index_tail"

lemma alnum_plain: "is_alnum c \<or> c \<in> set ''-_.~/%'' \<Longrightarrow> \<not> is_markup c"
  by (auto simp: is_markup_def is_alnum_def is_digit_def in_range_def)

lemma slash_plain [simp]: "\<not> is_markup slash"
  by (simp add: is_markup_def)

lemma pct_codesE:
  assumes "pct_codes enc"
  obtains f where "\<And>S s. enc S s = concat (map (\<lambda>c. if S c then f c else [c]) s)" "\<And>c. f c \<noteq> []"
    "\<And>c x. x \<in> set (f c) \<Longrightarrow> x = CHR ''%'' \<or> is_alnum x"
proof -
  from assms obtain f where f: "\<forall>S s. enc S s = concat (map (\<lambda>c. if S c then f c else [c]) s)"
    "\<forall>c. f c \<noteq> [] \<and> (\<forall>x \<in> set (f c). x = CHR ''%'' \<or> is_alnum x)"
    unfolding pct_codes_def by (elim exE conjE)
  show thesis
  proof (rule that [of f])
    show "enc S s = concat (map (\<lambda>c. if S c then f c else [c]) s)" for S s by (rule f(1) [rule_format])
  qed (use f(2) in \<open>simp_all only: bex_simps ball_simps, blast+\<close>)
qed

lemma url_plain:
  assumes "pct_codes enc"
  shows "markup (encode_path enc s) = []"
proof -
  from assms obtain f where f: "\<And>S s. enc S s = concat (map (\<lambda>c. if S c then f c else [c]) s)"
    "\<And>c. f c \<noteq> []" "\<And>c x. x \<in> set (f c) \<Longrightarrow> x = CHR ''%'' \<or> is_alnum x" by (rule pct_codesE) blast
  have "\<not> is_markup x" if "x \<in> set (if path_encode_set c then f c else [c])" for c x
    using that f(3) alnum_plain by (auto simp: path_encode_set_def split: if_splits)
  then have "\<forall>x \<in> set (encode_path enc s). \<not> is_markup x" unfolding encode_path_def f(1) by fastforce
  then show ?thesis by (simp add: filter_empty_conv)
qed

lemma markup_quoted: "markup (quoted s) = CHR 0x22 # markup s @ [CHR 0x22]"
  by (simp add: quoted_def is_markup_def)

lemma markup_head:
  assumes "markup u = []" "markup d = markup d'"
  shows "markup (index_head u d) = markup (index_head [] d')"
  by (simp only: index_head_def filter_append assms filter.simps(1) append_Nil)

lemma markup_line:
  assumes "markup url = []" "markup name = []" "markup modified = []" "markup sz = []"
  shows "markup (index_line url name modified sz) = markup (index_line [] [] [] [])"
  by (simp only: index_line_def filter_append markup_quoted assms filter.simps(1) append_Nil)

lemma markup_size: "texts_plain env \<Longrightarrow> markup (display_size env n) = []"
  by (auto simp: display_size_def texts_plain_def is_markup_def split: option.splits)

lemma markup_row:
  assumes "texts_plain env" "markup (fst e) = []"
  shows "markup (index_row env e) = markup (index_line [] [] [] [])"
proof -
  obtain url name meta where e: "e = (url, name, meta)" by (cases e)
  have "markup (case md_modified meta of Inr t \<Rightarrow> ie_date env t | Inl _ \<Rightarrow> []) = []"
    using assms(1) by (auto simp: texts_plain_def split: sum.splits)
  moreover have "markup (if md_is_file meta then display_size env (md_len meta) else ''[DIR]    '') = []"
    using markup_size [OF assms(1)] by (auto simp: is_markup_def)
  moreover have "markup (ie_html env name) = []" using assms(1) by (simp add: texts_plain_def)
  ultimately show ?thesis using assms(2) unfolding e index_row_def Let_def prod.case fst_conv by (intro markup_line)
qed

abbreviation link_markup :: bytes where
  "link_markup \<equiv> markup (''<a href = '' @ quoted [] @ ''></a>'')"

lemma link_parts:
  assumes "markup u = []" "markup t = []"
  shows "markup (''<a href = '' @ quoted u @ ''>'' @ t @ ''</a>/'' @ rest) = link_markup @ markup rest"
  using assms by (simp add: markup_quoted is_markup_def)

lemma markup_display_loop:
  "texts_plain env \<Longrightarrow> \<forall>u \<in> set us. markup u = [] \<Longrightarrow> markup upath = [] \<Longrightarrow> display_loop env ds us upath = Some r \<Longrightarrow>
     markup r = concat (replicate (length ds - 1) link_markup)"
proof (induction env ds us upath arbitrary: r rule: display_loop.induct)
  case (3 env d ds u us upath)
  have h: "markup (ie_html env d) = []" using 3(2) by (simp add: texts_plain_def)
  have u: "markup (upath @ [slash] @ u) = []" using 3(3,4) by simp
  show ?case
  proof (cases "ds = []")
    case True
    with 3(5) h show ?thesis by simp
  next
    case False
    then obtain m where m: "length ds = Suc m" by (cases ds) auto
    from 3(5) False obtain rest where rest: "display_loop env ds us (upath @ [slash] @ u) = Some rest"
      and r: "r = ''<a href = '' @ quoted (upath @ [slash] @ u) @ ''>'' @ ie_html env d @ ''</a>/'' @ rest"
      by (auto simp: Let_def split: option.splits)
    have "markup rest = concat (replicate (length ds - 1) link_markup)"
      using 3(1) [OF refl refl False _ _ u rest] 3(2,3) by simp
    then show ?thesis unfolding r link_parts [OF u h] by (simp add: m)
  qed
qed simp_all

section \<open>It is always written\<close>

text \<open>The number of names of a path, byte by byte.\<close>

fun count_names :: "bool \<Rightarrow> bytes \<Rightarrow> nat" where
  "count_names b [] = 0"
| "count_names b (c # s) = (if c = slash then count_names False s else (if b then 0 else 1) + count_names True s)"

lemma count_append: "w \<noteq> [] \<Longrightarrow> slash \<notin> set w \<Longrightarrow> count_names b (w @ s) = (if b then 0 else 1) + count_names True s"
proof (induction w arbitrary: b)
  case (Cons c w)
  then show ?case by (cases w) auto
qed simp

lemma path_names_count: "length (path_names s) = count_names False s"
proof -
  have "split_on slash s \<noteq> [] \<and> count_names False s = length (filter (\<lambda>s. s \<noteq> []) (split_on slash s)) \<and>
      count_names True s = length (filter (\<lambda>s. s \<noteq> []) (tl (split_on slash s)))"
    by (induction s) (auto simp: neq_Nil_conv split: list.splits)
  then show ?thesis by (simp add: path_names_def)
qed

lemma chunk_bytes:
  assumes "utf8_chunk a xs = (n, v)"
  shows "0 < n \<and> n \<le> length (a # xs) \<and> (slash \<notin> set (take n (a # xs)) \<or> n = 1 \<and> v)"
proof (cases "utf8_len a \<le> 1")
  case True
  with assms show ?thesis by (auto simp: utf8_chunk_def utf8_len_def Let_def in_range_def split: if_splits)
next
  case False
  then have a: "a \<noteq> slash" by (auto simp: utf8_len_def in_range_def split: if_splits)
  show ?thesis
  proof (cases xs)
    case Nil
    with assms False a show ?thesis by (auto simp: utf8_chunk_def Let_def)
  next
    case (Cons b ys)
    let ?w = "takeWhile cont (take (utf8_len a - 2) ys)"
    have w: "take (length ?w) ys = ?w" by (metis takeWhile_eq_take take_take min.absorb1 length_takeWhile_le length_take min.cobounded2 le_trans)
    have "slash \<notin> set ?w" by (auto dest: set_takeWhileD simp: cont_def in_range_def)
    moreover have "second_ok a b \<Longrightarrow> b \<noteq> slash" by (auto simp: second_ok_def cont_def in_range_def split: if_splits)
    moreover have "length ?w \<le> length ys" by (metis length_takeWhile_le length_take min.cobounded1 le_trans)
    ultimately show ?thesis using assms False a w by (auto simp: utf8_chunk_def Cons Let_def split: if_splits)
  qed
qed

lemma lossy_count: "length s \<le> f \<Longrightarrow> count_names b (utf8_lossy_fuel f s) = count_names b s"
proof (induction f s arbitrary: b rule: utf8_lossy_fuel.induct)
  case (3 f a xs)
  obtain n v where n: "utf8_chunk a xs = (n, v)" by (cases "utf8_chunk a xs")
  note c = chunk_bytes [OF n]
  let ?w = "take n (a # xs)" and ?r = "drop n (a # xs)"
  have "length ?r \<le> f" using c 3(2) by auto
  then have IH: "count_names b (utf8_lossy_fuel f ?r) = count_names b ?r" for b using 3(1) [OF n [symmetric] refl] by simp
  have s: "a # xs = ?w @ ?r" by simp
  show ?case
  proof (cases "slash \<in> set ?w")
    case True
    with c have "n = 1" "v" by auto
    with n IH show ?thesis by simp
  next
    case False
    have w: "?w \<noteq> []" using c by (cases n) auto
    have "count_names b (a # xs) = (if b then 0 else 1) + count_names True ?r"
      by (subst s) (rule count_append [OF w False])
    moreover have "count_names b ((if v then ?w else replacement) @ utf8_lossy_fuel f ?r) = (if b then 0 else 1) + count_names True ?r"
      using count_append [OF w False] count_append [of replacement] IH by (auto simp: replacement_def)
    ultimately show ?thesis using n by simp
  qed
qed simp_all

lemma encode_count:
  assumes "pct_codes enc"
  shows "count_names b (encode_path enc s) = count_names b s"
proof -
  from assms obtain f where f: "\<And>S s. enc S s = concat (map (\<lambda>c. if S c then f c else [c]) s)"
    "\<And>c. f c \<noteq> []" "\<And>c x. x \<in> set (f c) \<Longrightarrow> x = CHR ''%'' \<or> is_alnum x" by (rule pct_codesE) blast
  have sl: "slash \<notin> set (f c)" for c
    using f(3) [of slash c] by (auto simp: is_alnum_def is_digit_def in_range_def)
  have "\<not> path_encode_set slash" by (simp add: path_encode_set_def)
  then have "count_names b (concat (map (\<lambda>c. if path_encode_set c then f c else [c]) s)) = count_names b s"
    by (induction s arbitrary: b) (auto simp: count_append [OF f(2) sl])
  then show ?thesis by (simp add: encode_path_def f(1))
qed

lemma display_returns: "length ds \<le> length us \<Longrightarrow> display_loop env ds us upath \<noteq> None"
proof (induction env ds us upath rule: display_loop.induct)
  case (3 env d ds u us upath)
  then show ?case by (cases "ds = []") (auto simp: Let_def split: option.splits)
qed simp_all

lemma split_on_chars: "p \<in> set (split_on c xs) \<Longrightarrow> set p \<subseteq> set xs"
proof (induction xs arbitrary: p)
  case (Cons x xs)
  obtain q qs where q: "split_on c xs = q # qs" by (cases "split_on c xs") auto
  with Cons.IH have "set q \<subseteq> set xs" "r \<in> set qs \<Longrightarrow> set r \<subseteq> set xs" for r by auto
  with Cons.prems q show ?case by (auto split: if_splits)
qed simp


text \<open>An encoder of texts, and percent-coding.\<close>

definition demo_index :: index_env where
  "demo_index = \<lparr>ie_html = (\<lambda>s. concat (map (\<lambda>c. if c = CHR ''<'' then ''&lt;'' else if c = CHR ''>'' then ''&gt;''
     else if c = CHR 0x22 then ''&quot;'' else [c]) s)), ie_date = (\<lambda>t. ''2000-01-01 00:00''), ie_hundredths = (\<lambda>a b. ''1'')\<rparr>"

definition demo_pct :: "(byte \<Rightarrow> bool) \<Rightarrow> bytes \<Rightarrow> bytes" where
  "demo_pct S s = concat (map (\<lambda>c. if S c then ''%'' @ [digit_char (of_char c div 16), digit_char (of_char c mod 16)] else [c]) s)"

lemma demo_index_plain: "texts_plain demo_index"
proof -
  have "filter is_markup (ie_html demo_index s) = []" for s
    by (induction s) (auto simp: demo_index_def is_markup_def)
  then show ?thesis by (simp add: texts_plain_def) (simp add: demo_index_def is_markup_def)
qed

lemma demo_pct_codes: "pct_codes demo_pct"
proof -
  let ?f = "\<lambda>c. ''%'' @ [digit_char (of_char c div 16), digit_char (of_char c mod 16)]"
  have d: "\<forall>d < 16. is_alnum (digit_char d)"
    by (auto simp: digit_char_def is_alnum_def is_digit_def in_range_def)
  have c: "(of_char c :: nat) div 16 < 16" for c :: char using of_char_mod_256 [of c, where ?'a = nat] by linarith
  have p: "\<forall>x \<in> set (?f c). x = CHR ''%'' \<or> is_alnum x" for c
  proof
    fix x assume "x \<in> set (?f c)"
    then consider "x = CHR ''%''" | "x = digit_char (of_char c div 16)" | "x = digit_char (of_char c mod 16)"
      by (auto simp only: set_append list.set insert_iff empty_iff Un_iff)
    then show "x = CHR ''%'' \<or> is_alnum x"
    proof cases
      case 2
      with d [rule_format, OF c] show ?thesis by blast
    next
      case 3
      with d [rule_format, of "of_char c mod 16"] show ?thesis by simp
    qed blast
  qed
  have "(\<forall>S s. demo_pct S s = concat (map (\<lambda>c. if S c then ?f c else [c]) s)) \<and>
      (\<forall>c. ?f c \<noteq> [] \<and> (\<forall>x \<in> set (?f c). x = CHR ''%'' \<or> is_alnum x))"
  proof (intro conjI allI p)
    show "demo_pct S s = concat (map (\<lambda>c. if S c then ?f c else [c]) s)" for S s unfolding demo_pct_def by (rule refl)
  qed simp
  then show ?thesis unfolding pct_codes_def by (rule exI [of _ ?f])
qed


section \<open>The entries of the handler\<close>

definition index_render :: "index_env \<Rightarrow> ((byte \<Rightarrow> bool) \<Rightarrow> bytes \<Rightarrow> bytes) \<Rightarrow> dav_path \<Rightarrow> index_entry list \<Rightarrow> bytes" where
  "index_render env enc path es = (case index_page env enc path es of Some page \<Rightarrow> page | None \<Rightarrow> [])"

lemma index_entries_urls:
  "index_entries sv path es w = Some (Inr rs, w') \<Longrightarrow> list_all (index_url (pct_encode (sv_http sv))) (map fst rs)"
proof (induction es arbitrary: rs w w')
  case (Cons e es)
  then show ?case
    by (cases e) (auto simp: Let_def ok_def bind_def attempt_def split: if_splits option.splits sum.splits)
qed (auto simp: ok_def)

lemma sort_entries_set: "set (sort_entries es) = set es"
proof -
  have "set (entry_insert e xs) = insert e (set xs)" for e xs by (induction xs) auto
  then show ?thesis unfolding sort_entries_def by (induction es) auto
qed

end
