(* ===== verification/Dav_Stream.thy ===== *)
theory Dav_Stream
  imports Dav_Errors
begin

text \<open>
  The streams that answers are made of, \<^verbatim>\<open>src/async_stream.rs\<close>, and the bodies of \<^verbatim>\<open>src/body.rs\<close>.  An async block
  that sends items is a future; a stream polls it, and takes what it has sent out of a cell both share.
  The handlers of this development are given the items sent as a list; here is shown that a stream hands
  out that list.
\<close>

section \<open>Async blocks\<close>

text \<open>What an async block does until its next \<^verbatim>\<open>.await\<close>: it returns, awaits something that is not ready yet, or
  sends an item.\<close>

datatype ('i, 'e) block = Return "'e + unit" | Await "('i, 'e) block" | Send 'i "('i, 'e) block"

datatype 'a poll = Ready 'a | Pending

record sender_future =
  sf_is_ready :: bool

definition sender_future_new :: sender_future where
  "sender_future_new = \<lparr>sf_is_ready = False\<rparr>"

definition sender_future_poll :: "sender_future \<Rightarrow> unit poll \<times> sender_future" where
  "sender_future_poll f = (if sf_is_ready f then (Ready (), f) else (Pending, f\<lparr>sf_is_ready := True\<rparr>))"

text \<open>\<^verbatim>\<open>Sender::send\<close> stores the item in the cell, over what may be there.\<close>

definition sender_send :: "'i \<Rightarrow> 'i option \<Rightarrow> sender_future \<times> 'i option" where
  "sender_send item cell = (sender_future_new, Some item)"

text \<open>The future of a block: at its start or behind an \<^verbatim>\<open>.await\<close>, in a send, or at its end.\<close>

datatype ('i, 'e) block_future = Running "('i, 'e) block" | Sending sender_future "('i, 'e) block" | Completed

primrec run_block :: "('i, 'e) block \<Rightarrow> 'i option \<Rightarrow> ('e + unit) poll \<times> ('i, 'e) block_future \<times> 'i option" where
  "run_block (Return r) cell = (Ready r, Completed, cell)"
| "run_block (Await k) cell = (Pending, Running k, cell)"
| "run_block (Send item k) cell =
     (let (f, cell1) = sender_send item cell
      in (case sender_future_poll f of
            (Ready _, _) \<Rightarrow> run_block k cell1
          | (Pending, f1) \<Rightarrow> (Pending, Sending f1 k, cell1)))"

text \<open>To poll a block that has returned is a panic.\<close>

definition poll_block :: "('i, 'e) block_future \<Rightarrow> 'i option \<Rightarrow> (('e + unit) poll \<times> ('i, 'e) block_future \<times> 'i option) option" where
  "poll_block fut cell =
     (case fut of
        Running b \<Rightarrow> Some (run_block b cell)
      | Sending f k \<Rightarrow>
          (case sender_future_poll f of
             (Ready _, _) \<Rightarrow> Some (run_block k cell)
           | (Pending, f1) \<Rightarrow> Some (Pending, Sending f1 k, cell))
      | Completed \<Rightarrow> None)"

section \<open>Streams\<close>

record ('i, 'e) async_stream =
  as_item :: "'i option"
  as_fut :: "('i, 'e) block_future"

definition async_stream_new :: "('i, 'e) block \<Rightarrow> ('i, 'e) async_stream" where
  "async_stream_new b = \<lparr>as_item = None, as_fut = Running b\<rparr>"

definition poll_next :: "('i, 'e) async_stream \<Rightarrow> (('e + 'i) option poll \<times> ('i, 'e) async_stream) option" where
  "poll_next s =
     (case poll_block (as_fut s) (as_item s) of
        None \<Rightarrow> None
      | Some (pollres, fut, cell) \<Rightarrow>
          (case pollres of
             Ready (Inr _) \<Rightarrow> Some (Ready None, \<lparr>as_item = cell, as_fut = fut\<rparr>)
           | Ready (Inl e) \<Rightarrow> Some (Ready (Some (Inl e)), \<lparr>as_item = cell, as_fut = fut\<rparr>)
           | Pending \<Rightarrow>
               (case cell of
                  None \<Rightarrow> Some (Pending, \<lparr>as_item = None, as_fut = fut\<rparr>)
                | Some item \<Rightarrow> Some (Ready (Some (Inr item)), \<lparr>as_item = None, as_fut = fut\<rparr>))))"

datatype body_type = BytesBody "bytes option" | StreamBody "(bytes, io_error) async_stream" | EmptyBody

definition body_poll_next :: "body_type \<Rightarrow> ((io_error + bytes) option poll \<times> body_type) option" where
  "body_poll_next b =
     (case b of
        BytesBody t \<Rightarrow> Some (Ready (map_option Inr t), BytesBody None)
      | StreamBody s \<Rightarrow> map_option (\<lambda>(r, s1). (r, StreamBody s1)) (poll_next s)
      | EmptyBody \<Rightarrow> Some (Ready None, EmptyBody))"

section \<open>What a stream hands out\<close>

text \<open>What a block sends, how it ends, and how often it is polled until then.\<close>

primrec sent :: "('i, 'e) block \<Rightarrow> 'i list" where
  "sent (Return r) = []"
| "sent (Await k) = sent k"
| "sent (Send item k) = item # sent k"

primrec outcome :: "('i, 'e) block \<Rightarrow> 'e option" where
  "outcome (Return r) = (case r of Inl e \<Rightarrow> Some e | Inr _ \<Rightarrow> None)"
| "outcome (Await k) = outcome k"
| "outcome (Send item k) = outcome k"

primrec polls :: "('i, 'e) block \<Rightarrow> nat" where
  "polls (Return r) = 1"
| "polls (Await k) = Suc (polls k)"
| "polls (Send item k) = Suc (polls k)"

text \<open>A consumer that polls at most \<open>n\<close> times, and stops at the end or at the first error.\<close>

fun consume :: "nat \<Rightarrow> ('s \<Rightarrow> (('e + 'i) option poll \<times> 's) option) \<Rightarrow> 's \<Rightarrow> ('i list \<times> 'e option \<times> 's) option" where
  "consume 0 next s = None"
| "consume (Suc n) next s =
     (case next s of
        None \<Rightarrow> None
      | Some (Pending, s1) \<Rightarrow> consume n next s1
      | Some (Ready None, s1) \<Rightarrow> Some ([], None, s1)
      | Some (Ready (Some (Inl e)), s1) \<Rightarrow> Some ([], Some e, s1)
      | Some (Ready (Some (Inr item)), s1) \<Rightarrow> map_option (\<lambda>(items, e, s2). (item # items, e, s2)) (consume n next s1))"

lemma sent_future: "sender_future_poll \<lparr>sf_is_ready = True\<rparr> = (Ready (), \<lparr>sf_is_ready = True\<rparr>)"
  by (simp add: sender_future_poll_def)

lemma consume_block:
  "polls b \<le> n \<Longrightarrow> fut = Running b \<or> fut = Sending \<lparr>sf_is_ready = True\<rparr> b \<Longrightarrow>
     consume n poll_next \<lparr>as_item = None, as_fut = fut\<rparr> = Some (sent b, outcome b, \<lparr>as_item = None, as_fut = Completed\<rparr>)"
proof (induction b arbitrary: n fut)
  case (Return r)
  then obtain m where "n = Suc m" by (cases n) auto
  with Return show ?case by (cases r) (auto simp: poll_next_def poll_block_def sent_future)
next
  case (Await k)
  then obtain m where m: "n = Suc m" "polls k \<le> m" by (cases n) auto
  with Await.IH [OF m(2), of "Running k"] Await.prems show ?case
    by (auto simp: poll_next_def poll_block_def sent_future)
next
  case (Send item k)
  then obtain m where m: "n = Suc m" "polls k \<le> m" by (cases n) auto
  with Send.IH [OF m(2), of "Sending \<lparr>sf_is_ready = True\<rparr> k"] Send.prems show ?case
    by (auto simp: poll_next_def poll_block_def sent_future sender_send_def sender_future_new_def sender_future_poll_def)
qed

text \<open>C26: A stream hands out exactly the items its block sends, in order and each once, then the error with
  which the block ends, if any; it is polled as often as the block awaits something, and once more.  When
  it has ended, also when it has ended with an error, to poll it again is a panic.\<close>

theorem stream_yields:
  assumes "polls b \<le> n"
  shows "\<exists>s. consume n poll_next (async_stream_new b) = Some (sent b, outcome b, s) \<and> poll_next s = None"
  using consume_block [OF assms, of "Running b"] by (simp add: async_stream_new_def poll_next_def poll_block_def)

lemma stream_yields_witness:
  "\<exists>s. consume 4 poll_next (async_stream_new (Send (1::nat) (Await (Send 2 (Return (Inl ''io'')))))) = Some ([1, 2], Some ''io'', s) \<and>
     poll_next s = None"
  using stream_yields [of "Send (1::nat) (Await (Send 2 (Return (Inl ''io''))))" 4] by simp

text \<open>A body of bytes hands them out once; one of a stream what the stream does.\<close>

lemma body_yields:
  "consume 2 body_poll_next (BytesBody (Some bs)) = Some ([bs], None, BytesBody None)"
  "consume 1 body_poll_next EmptyBody = Some ([], None, EmptyBody)"
  "polls b \<le> n \<Longrightarrow> \<exists>s. consume n body_poll_next (StreamBody (async_stream_new b)) = Some (sent b, outcome b, s)"
proof -
  show "consume 2 body_poll_next (BytesBody (Some bs)) = Some ([bs], None, BytesBody None)"
    "consume 1 body_poll_next EmptyBody = Some ([], None, EmptyBody)"
    by (simp_all add: body_poll_next_def numeral_2_eq_2)
  have c: "consume n body_poll_next (StreamBody s) = map_option (\<lambda>(i, e, s1). (i, e, StreamBody s1)) (consume n poll_next s)" for n s
    by (induction n arbitrary: s)
      (auto simp: body_poll_next_def option.map_comp o_def case_prod_beta split: option.splits poll.splits sum.splits)
  show "polls b \<le> n \<Longrightarrow> \<exists>s. consume n body_poll_next (StreamBody (async_stream_new b)) = Some (sent b, outcome b, s)"
    using consume_block [of b n "Running b"] by (auto simp: c async_stream_new_def)
qed

end
